(* ===== verification/Prelude.thy ===== *)
theory Prelude
  imports Main "HOL-Library.Word"
begin

unbundle bit_operations_syntax

text \<open>
  Shared ground of the development: the names of the machine types of the Rust
  sources, the checked, saturating and wrapping arithmetic the code calls on
  them, the error-propagating composition that stands for Rust's
  \<^verbatim>\<open>?\<close>, slices of buffers, and the collections of rewrite rules the component
  proofs use.

  \<^verbatim>\<open>u8\<close>, \<^verbatim>\<open>u32\<close>, \<^verbatim>\<open>u64\<close> and \<^verbatim>\<open>i32\<close> are words of their width (\<^verbatim>\<open>i32\<close> read with
  \<^verbatim>\<open>sint\<close>); \<^verbatim>\<open>usize\<close> values are lengths and indices of slices, and are natural
  numbers.  A \<^verbatim>\<open>&str\<close>, a \<^verbatim>\<open>heapless::String\<close> and a byte slice are all lists of bytes.
\<close>

type_synonym u8 = "8 word"
type_synonym u16 = "16 word"
type_synonym u32 = "32 word"
type_synonym u64 = "64 word"
type_synonym i32 = "32 word"
type_synonym bytes = "u8 list"

named_theorems word_nat "reading word operations as operations on natural numbers"
named_theorems run_simps "evaluation of the result and option plumbing"

section \<open>Machine arithmetic\<close>

definition sat_add :: "'a::len word \<Rightarrow> 'a word \<Rightarrow> 'a word" where
  "sat_add a b = (if unat a + unat b < 2 ^ LENGTH('a) then a + b else - 1)"

definition sat_sub :: "'a::len word \<Rightarrow> 'a word \<Rightarrow> 'a word" where
  "sat_sub a b = (if b \<le> a then a - b else 0)"

definition sat_mul :: "'a::len word \<Rightarrow> 'a word \<Rightarrow> 'a word" where
  "sat_mul a b = (if unat a * unat b < 2 ^ LENGTH('a) then a * b else - 1)"

lemma unat_max_word: "unat (- 1 :: 'a::len word) = 2 ^ LENGTH('a) - 1"
  by (simp add: unsigned_minus_1_eq_mask mask_eq_exp_minus_1)

lemma unat_sat_add [word_nat]:
  "unat (sat_add a b) = min (unat a + unat b) (2 ^ LENGTH('a) - 1)"
  for a b :: "'a::len word"
  by (auto simp: sat_add_def unat_max_word unat_word_ariths min_def)

lemma unat_sat_sub [word_nat]: "unat (sat_sub a b) = unat a - unat b"
  for a b :: "'a::len word"
  by (auto simp: sat_sub_def unat_sub word_le_nat_alt)

lemma unat_sat_mul [word_nat]:
  "unat (sat_mul a b) = min (unat a * unat b) (2 ^ LENGTH('a) - 1)"
  for a b :: "'a::len word"
  by (cases "unat a * unat b < 2 ^ LENGTH('a)")
    (simp_all add: sat_mul_def unat_max_word unat_word_ariths)

lemma unat_below: "unat (w :: 'a::len word) < 2 ^ LENGTH('a)"
  by (rule unsigned_less)

lemma unat_u32_bound: "unat (w :: u32) < 4294967296"
  using unat_below [of w] by simp

lemma unat_u64_bound: "unat (w :: u64) < 18446744073709551616"
  using unat_below [of w] by simp

lemma unat_u8_bound: "unat (w :: u8) < 256"
  using unat_below [of w] by simp

lemma unat_add_small [word_nat]:
  "unat a + unat b < 2 ^ LENGTH('a) \<Longrightarrow> unat (a + b) = unat a + unat b"
  for a b :: "'a::len word"
  by (simp add: unat_word_ariths)

lemma unat_mult_small:
  "unat a * unat b < 2 ^ LENGTH('a) \<Longrightarrow> unat (a * b) = unat a * unat b"
  for a b :: "'a::len word"
  by (simp add: unat_word_ariths)

lemma unat_diff_le [word_nat]:
  "b \<le> a \<Longrightarrow> unat (a - b) = unat a - unat b"
  for a b :: "'a::len word"
  by (rule unat_sub)

lemma unat_ucast_32_64 [word_nat]: "unat (ucast (w :: u32) :: u64) = unat w"
  using unat_below [of w]
  by (simp add: unsigned_ucast_eq take_bit_eq_mod)

lemma unat_ucast_8_32 [word_nat]: "unat (ucast (w :: u8) :: u32) = unat w"
  using unat_below [of w]
  by (simp add: unsigned_ucast_eq take_bit_eq_mod)

lemma unat_ucast_64_32: "unat (ucast (w :: u64) :: u32) = unat w mod 4294967296"
  by (simp add: unsigned_ucast_eq take_bit_eq_mod)

lemmas word_le_unat = word_le_nat_alt
lemmas word_less_unat = word_less_nat_alt

section \<open>Results and options\<close>

text \<open>
  \<open>r_bind\<close> is Rust's \<^verbatim>\<open>?\<close> on a \<^verbatim>\<open>Result\<close>: the first error is returned, otherwise
  the computation continues with the value.  \<open>ok_or\<close> is the method of the same name;
  \<open>map_sum f id\<close> is \<^verbatim>\<open>map_err\<close>.
\<close>

definition r_bind :: "'e + 'a \<Rightarrow> ('a \<Rightarrow> 'e + 'b) \<Rightarrow> 'e + 'b" where
  "r_bind r f = (case r of Inl e \<Rightarrow> Inl e | Inr a \<Rightarrow> f a)"

definition ok_or :: "'a option \<Rightarrow> 'e \<Rightarrow> 'e + 'a" where
  "ok_or x e = (case x of None \<Rightarrow> Inl e | Some a \<Rightarrow> Inr a)"

definition is_some_and :: "('a \<Rightarrow> bool) \<Rightarrow> 'a option \<Rightarrow> bool" where
  "is_some_and p x = (case x of None \<Rightarrow> False | Some a \<Rightarrow> p a)"

abbreviation is_some :: "'a option \<Rightarrow> bool" where
  "is_some x \<equiv> x \<noteq> None"

abbreviation is_none :: "'a option \<Rightarrow> bool" where
  "is_none x \<equiv> x = None"

abbreviation is_ok :: "'e + 'a \<Rightarrow> bool" where
  "is_ok r \<equiv> \<not> isl r"

lemma r_bind_simps [simp, run_simps]:
  "r_bind (Inl e) f = Inl e"
  "r_bind (Inr a) f = f a"
  by (simp_all add: r_bind_def)

lemma r_bind_Inr_iff: "r_bind r f = Inr b \<longleftrightarrow> (\<exists>a. r = Inr a \<and> f a = Inr b)"
  by (cases r) simp_all

lemma map_sum_Inr_iff: "map_sum f id x = Inr y \<longleftrightarrow> x = Inr y"
  by (cases x) simp_all

lemma r_bind_Inl_iff: "r_bind r f = Inl e \<longleftrightarrow> r = Inl e \<or> (\<exists>a. r = Inr a \<and> f a = Inl e)"
  by (cases r) simp_all

lemma r_bind_cong [fundef_cong]:
  "r = r' \<Longrightarrow> (\<And>a. r' = Inr a \<Longrightarrow> f a = f' a) \<Longrightarrow> r_bind r f = r_bind r' f'"
  by (cases r') simp_all

lemma is_ok_unit: "is_ok (r :: 'e + unit) \<longleftrightarrow> r = Inr ()"
  by (cases r) simp_all

lemma ok_or_simps [simp, run_simps]:
  "ok_or None e = Inl e"
  "ok_or (Some a) e = Inr a"
  by (simp_all add: ok_or_def)

lemma ok_or_Inr_iff: "ok_or x e = Inr a \<longleftrightarrow> x = Some a"
  by (cases x) simp_all

lemma is_some_and_simps [simp, run_simps]:
  "is_some_and p None = False"
  "is_some_and p (Some a) = p a"
  by (simp_all add: is_some_and_def)

lemma is_some_and_iff: "is_some_and p x \<longleftrightarrow> (\<exists>a. x = Some a \<and> p a)"
  by (cases x) simp_all

text \<open>\<open>returns q r\<close>: the computation succeeds, with a value that satisfies \<open>q\<close>.\<close>

definition returns :: "('a \<Rightarrow> bool) \<Rightarrow> 'e + 'a \<Rightarrow> bool" where
  "returns q r \<longleftrightarrow> (\<exists>a. r = Inr a \<and> q a)"

lemma returns_Inr [simp]: "returns q (Inr a) \<longleftrightarrow> q a"
  by (simp add: returns_def)

lemma returns_mono: "returns p r \<Longrightarrow> (\<And>a. p a \<Longrightarrow> q a) \<Longrightarrow> returns q r"
  by (auto simp: returns_def)

lemma returns_bind: "returns p r \<Longrightarrow> (\<And>a. p a \<Longrightarrow> returns q (f a)) \<Longrightarrow> returns q (r_bind r f)"
  by (auto simp: returns_def)

section \<open>Slices\<close>

text \<open>
  \<open>slice a b xs\<close> is \<^verbatim>\<open>xs[a..b]\<close> for \<open>a \<le> b \<le> length xs\<close>; the code's own bounds
  make every use satisfy that.  \<open>overwrite xs off ys\<close> is
  \<^verbatim>\<open>xs[off..off + ys.len()].copy_from_slice(ys)\<close>.
\<close>

definition slice :: "nat \<Rightarrow> nat \<Rightarrow> 'a list \<Rightarrow> 'a list" where
  "slice a b xs = take (b - a) (drop a xs)"

definition overwrite :: "'a list \<Rightarrow> nat \<Rightarrow> 'a list \<Rightarrow> 'a list" where
  "overwrite xs off ys = take off xs @ ys @ drop (off + length ys) xs"

lemma length_slice [simp]: "length (slice a b xs) = min (b - a) (length xs - a)"
  by (auto simp: slice_def min_def)

lemma length_overwrite [simp]:
  "off + length ys \<le> length xs \<Longrightarrow> length (overwrite xs off ys) = length xs"
  by (simp add: overwrite_def)

lemma take_overwrite_before [simp]:
  "n \<le> off \<Longrightarrow> off \<le> length xs \<Longrightarrow> take n (overwrite xs off ys) = take n xs"
  by (simp add: overwrite_def)

lemma take_overwrite_exact [simp]:
  "off \<le> length xs \<Longrightarrow>
    take (off + length ys) (overwrite xs off ys) = take off xs @ ys"
  by (simp add: overwrite_def)

lemma slice_overwrite_exact:
  "off \<le> length xs \<Longrightarrow> b = off + length ys \<Longrightarrow> slice off b (overwrite xs off ys) = ys"
  by (simp add: slice_def overwrite_def)

lemma slice_overwrite_before:
  "b \<le> off \<Longrightarrow> off \<le> length xs \<Longrightarrow> slice a b (overwrite xs off ys) = slice a b xs"
  by (simp add: slice_def overwrite_def take_drop min_def flip: drop_take)

lemma slice_overwrite_after:
  "off + length ys \<le> a \<Longrightarrow> off + length ys \<le> length xs \<Longrightarrow>
    slice a b (overwrite xs off ys) = slice a b xs"
  by (simp add: slice_def overwrite_def)

end
