(* ===== verification/Bytes_Text.thy ===== *)
theory Bytes_Text
  imports Prelude
begin

text \<open>
  The text functions of the Rust standard library that the sources call, on byte
  strings: ASCII classes, \<^verbatim>\<open>core::str::from_utf8\<close>, the decimal \<^verbatim>\<open>Display\<close> and
  \<^verbatim>\<open>FromStr\<close> of the integer types, and hexadecimal digits.  A Rust string is the list of
  its UTF-8 bytes; \<open>lit\<close> writes an ASCII literal.
\<close>

definition lit :: "string \<Rightarrow> bytes" where
  "lit cs = map of_char cs"

lemma lit_simps [simp]:
  "lit [] = []"
  "lit (c # cs) = of_char c # lit cs"
  by (simp_all add: lit_def)

section \<open>ASCII classes\<close>

definition is_digit :: "u8 \<Rightarrow> bool" where
  "is_digit b \<longleftrightarrow> 48 \<le> b \<and> b \<le> 57"

definition is_lower_hex :: "u8 \<Rightarrow> bool" where
  "is_lower_hex b \<longleftrightarrow> is_digit b \<or> 97 \<le> b \<and> b \<le> 102"

definition is_alphanumeric :: "u8 \<Rightarrow> bool" where
  "is_alphanumeric b \<longleftrightarrow> is_digit b \<or> 65 \<le> b \<and> b \<le> 90 \<or> 97 \<le> b \<and> b \<le> 122"

definition is_printable :: "u8 \<Rightarrow> bool" where
  "is_printable b \<longleftrightarrow> 0x20 \<le> b \<and> b \<le> 0x7e"

text \<open>
  Bytes that a CSV record writes as they are: everything but the quote, the comma and the
  two line-break bytes.
\<close>

definition is_csv_plain :: "u8 \<Rightarrow> bool" where
  "is_csv_plain b \<longleftrightarrow> b \<noteq> 34 \<and> b \<noteq> 44 \<and> b \<noteq> 13 \<and> b \<noteq> 10"

lemmas ascii_defs =
  is_digit_def is_lower_hex_def is_alphanumeric_def is_printable_def is_csv_plain_def

lemma digit_csv_plain: "is_digit b \<Longrightarrow> is_csv_plain b"
  by (auto simp: ascii_defs)

lemma alphanumeric_csv_plain: "is_alphanumeric b \<Longrightarrow> is_csv_plain b"
  by (auto simp: ascii_defs)

lemma lower_hex_alphanumeric: "is_lower_hex b \<Longrightarrow> is_alphanumeric b"
  by (auto simp: ascii_defs word_le_unat)

section \<open>UTF-8\<close>

text \<open>
  The acceptance rule of \<^verbatim>\<open>core::str::from_utf8\<close>: shortest forms only, no surrogates,
  nothing above U+10FFFF.
\<close>

definition is_cont :: "u8 \<Rightarrow> bool" where
  "is_cont b \<longleftrightarrow> 0x80 \<le> b \<and> b \<le> 0xBF"

definition utf8_three :: "u8 \<Rightarrow> u8 \<Rightarrow> bool" where
  "utf8_three a b \<longleftrightarrow>
    a = 0xE0 \<and> 0xA0 \<le> b \<and> b \<le> 0xBF \<or> 0xE1 \<le> a \<and> a \<le> 0xEC \<and> is_cont b \<or>
    a = 0xED \<and> 0x80 \<le> b \<and> b \<le> 0x9F \<or> 0xEE \<le> a \<and> a \<le> 0xEF \<and> is_cont b"

definition utf8_four :: "u8 \<Rightarrow> u8 \<Rightarrow> bool" where
  "utf8_four a b \<longleftrightarrow>
    a = 0xF0 \<and> 0x90 \<le> b \<and> b \<le> 0xBF \<or> 0xF1 \<le> a \<and> a \<le> 0xF3 \<and> is_cont b \<or>
    a = 0xF4 \<and> 0x80 \<le> b \<and> b \<le> 0x8F"

fun utf8_valid :: "bytes \<Rightarrow> bool" where
  "utf8_valid [] = True"
| "utf8_valid (a # xs) =
     (if a < 0x80 then utf8_valid xs
      else (case xs of
        [] \<Rightarrow> False
      | b # ys \<Rightarrow>
          if 0xC2 \<le> a \<and> a \<le> 0xDF \<and> is_cont b then utf8_valid ys
          else (case ys of
            [] \<Rightarrow> False
          | c # zs \<Rightarrow>
              if utf8_three a b \<and> is_cont c then utf8_valid zs
              else (case zs of
                [] \<Rightarrow> False
              | d # ws \<Rightarrow> utf8_four a b \<and> is_cont c \<and> is_cont d \<and> utf8_valid ws))))"

definition from_utf8 :: "bytes \<Rightarrow> bytes option" where
  "from_utf8 bs = (if utf8_valid bs then Some bs else None)"

lemma utf8_valid_ascii: "\<forall>b \<in> set bs. b < 0x80 \<Longrightarrow> utf8_valid bs"
  by (induction bs) auto

lemma alphanumeric_ascii: "is_alphanumeric b \<Longrightarrow> b < 0x80"
  unfolding ascii_defs by (auto simp: word_less_unat word_le_unat)

text \<open>A text that is one line: valid UTF-8 without carriage return or line feed.\<close>

definition no_break :: "bytes \<Rightarrow> bool" where
  "no_break x \<longleftrightarrow> 13 \<notin> set x \<and> 10 \<notin> set x"

definition line_text :: "bytes \<Rightarrow> bool" where
  "line_text x \<longleftrightarrow> utf8_valid x \<and> no_break x"

lemma line_text_Nil [simp]: "line_text []"
  by (simp add: line_text_def no_break_def)

lemma line_text_printable:
  assumes "\<forall>b \<in> set x. is_printable b"
  shows "line_text x"
proof -
  have "\<forall>b \<in> set x. b < 0x80"
    using assms by (auto simp: is_printable_def word_less_unat word_le_unat)
  moreover have "13 \<notin> set x" "10 \<notin> set x" using assms by (auto simp: is_printable_def)
  ultimately show ?thesis by (simp add: line_text_def no_break_def utf8_valid_ascii)
qed

lemma digit_printable: "is_digit b \<Longrightarrow> is_printable b"
  by (auto simp: ascii_defs word_le_unat)

lemma alphanumeric_printable: "is_alphanumeric b \<Longrightarrow> is_printable b"
  by (auto simp: ascii_defs word_le_unat)

section \<open>Decimal integers\<close>

fun digits :: "nat \<Rightarrow> bytes" where
  "digits n = (if n < 10 then [of_nat (48 + n)] else digits (n div 10) @ [of_nat (48 + n mod 10)])"

declare digits.simps [simp del]

definition digit_value :: "u8 \<Rightarrow> nat" where
  "digit_value b = unat b - 48"

definition digits_value :: "bytes \<Rightarrow> nat" where
  "digits_value = foldl (\<lambda>acc b. acc * 10 + digit_value b) 0"

definition show_u32 :: "u32 \<Rightarrow> bytes" where
  "show_u32 w = digits (unat w)"

definition show_i32 :: "i32 \<Rightarrow> bytes" where
  "show_i32 w = (if sint w < 0 then 45 # digits (nat (- sint w)) else digits (nat (sint w)))"

text \<open>
  \<^verbatim>\<open>u32::from_str\<close> takes an optional plus sign and one or more digits and rejects values
  out of range; \<^verbatim>\<open>i32::from_str\<close> also takes a minus sign.
\<close>

definition parse_nat :: "bytes \<Rightarrow> nat option" where
  "parse_nat bs = (if bs \<noteq> [] \<and> list_all is_digit bs then Some (digits_value bs) else None)"

definition u32_from_str :: "bytes \<Rightarrow> u32 option" where
  "u32_from_str bs =
    (case parse_nat (case bs of b # rest \<Rightarrow> if b = 43 then rest else bs | [] \<Rightarrow> bs) of
      None \<Rightarrow> None
    | Some n \<Rightarrow> if n < 2 ^ 32 then Some (of_nat n) else None)"

definition i32_from_str :: "bytes \<Rightarrow> i32 option" where
  "i32_from_str bs =
    (case bs of
      [] \<Rightarrow> None
    | b # rest \<Rightarrow>
        if b = 45 then
          (case parse_nat rest of
            None \<Rightarrow> None
          | Some n \<Rightarrow> if n \<le> 2 ^ 31 then Some (word_of_int (- int n)) else None)
        else
          (case parse_nat (if b = 43 then rest else bs) of
            None \<Rightarrow> None
          | Some n \<Rightarrow> if n < 2 ^ 31 then Some (of_nat n) else None))"

lemma digit_byte: "d < 10 \<Longrightarrow> unat (of_nat (48 + d) :: u8) = 48 + d"
  by (simp add: unat_of_nat del: of_nat_add)

lemma is_digit_byte: "d < 10 \<Longrightarrow> is_digit (of_nat (48 + d))"
  using digit_byte [of d] by (simp add: is_digit_def word_le_unat del: of_nat_add)

lemma digits_nonempty [simp]: "digits n \<noteq> []"
  by (subst digits.simps) simp

lemma digits_all_digit: "list_all is_digit (digits n)"
proof (induction n rule: digits.induct)
  case (1 n)
  then show ?case
    by (subst digits.simps) (simp add: is_digit_byte del: of_nat_add)
qed

lemma digits_value_snoc: "digits_value (bs @ [b]) = digits_value bs * 10 + digit_value b"
  by (simp add: digits_value_def)

lemma digits_value_digits [simp]: "digits_value (digits n) = n"
proof (induction n rule: digits.induct)
  case (1 n)
  show ?case
  proof (cases "n < 10")
    case True
    then show ?thesis
      using digit_byte [of n]
      by (subst digits.simps) (simp add: digits_value_def digit_value_def del: of_nat_add)
  next
    case False
    then show ?thesis
      using 1 digit_byte [of "n mod 10"]
      by (subst digits.simps) (simp add: digits_value_snoc digit_value_def del: of_nat_add)
  qed
qed

lemma parse_nat_digits [simp]: "parse_nat (digits n) = Some n"
  by (simp add: parse_nat_def digits_all_digit)

lemma digits_hd_digit: "digits n = b # bs \<Longrightarrow> is_digit b"
  using digits_all_digit [of n] by simp

lemma u32_from_str_show [simp]: "u32_from_str (show_u32 w) = Some w"
proof -
  obtain b bs where eq: "digits (unat w) = b # bs" by (meson digits_nonempty neq_Nil_conv)
  have "b \<noteq> 43" using digits_hd_digit [OF eq] by (auto simp: ascii_defs)
  then show ?thesis
    using parse_nat_digits [of "unat w"] unat_u32_bound [of w]
    by (simp add: u32_from_str_def show_u32_def eq)
qed

lemma i32_from_str_show [simp]: "i32_from_str (show_i32 w) = Some w"
proof (cases "sint w < 0")
  case True
  have "- (2 ^ 31) \<le> sint w" using sint_ge [of w] by simp
  then have "nat (- sint w) \<le> 2 ^ 31" by simp
  then show ?thesis
    using True by (simp add: i32_from_str_def show_i32_def)
next
  case False
  obtain b bs where eq: "digits (nat (sint w)) = b # bs" by (meson digits_nonempty neq_Nil_conv)
  have "b \<noteq> 43 \<and> b \<noteq> 45" using digits_hd_digit [OF eq] by (auto simp: ascii_defs)
  moreover have "nat (sint w) < 2 ^ 31" using sint_less [of w] False by simp
  moreover have "(of_nat (nat (sint w)) :: i32) = w" using False by (simp add: of_nat_nat)
  ultimately show ?thesis
    using parse_nat_digits [of "nat (sint w)"] False
    by (simp add: i32_from_str_def show_i32_def eq)
qed

lemma show_u32_plain: "\<forall>b \<in> set (show_u32 w). is_digit b"
  using digits_all_digit [of "unat w"] by (simp add: show_u32_def list_all_iff)

lemma show_i32_plain: "\<forall>b \<in> set (show_i32 w). is_digit b \<or> b = 45"
  using digits_all_digit by (auto simp: show_i32_def list_all_iff)

section \<open>Hexadecimal digits\<close>

definition hex_upper :: "nat \<Rightarrow> u8" where
  "hex_upper d = lit ''0123456789ABCDEF'' ! d"

definition hex_lower :: "nat \<Rightarrow> u8" where
  "hex_lower d = lit ''0123456789abcdef'' ! d"

end
