(* ===== verification/Float32.thy ===== *)
theory Float32
  imports Complex_Main Bytes_Text
begin

text \<open>
  Rust's \<^verbatim>\<open>f32\<close> as its IEEE 754 bit pattern: the tests and comparisons the sources
  make on the temperature field, and \<^verbatim>\<open>f32::from_str\<close> of the standard library
  (correctly rounded decimal input).  \<open>f32_val\<close> is the real number a finite pattern
  stands for; the comparison on patterns is shown to be the comparison of those numbers.
\<close>

type_synonym f32 = "32 word"

definition f32_exponent :: "f32 \<Rightarrow> u32" where
  "f32_exponent w = drop_bit 23 w AND 0xFF"

definition f32_fraction :: "f32 \<Rightarrow> u32" where
  "f32_fraction w = w AND 0x7FFFFF"

definition f32_negative :: "f32 \<Rightarrow> bool" where
  "f32_negative w \<longleftrightarrow> 0x80000000 \<le> w"

definition f32_is_nan :: "f32 \<Rightarrow> bool" where
  "f32_is_nan w \<longleftrightarrow> f32_exponent w = 0xFF \<and> f32_fraction w \<noteq> 0"

definition f32_is_finite :: "f32 \<Rightarrow> bool" where
  "f32_is_finite w \<longleftrightarrow> f32_exponent w \<noteq> 0xFF"

text \<open>
  The order of non-NaN patterns is the order of their signed magnitudes; both zeros have
  magnitude zero.
\<close>

definition f32_magnitude :: "f32 \<Rightarrow> nat" where
  "f32_magnitude w = unat w mod 2 ^ 31"

definition f32_key :: "f32 \<Rightarrow> int" where
  "f32_key w = (if f32_negative w then - int (f32_magnitude w) else int (f32_magnitude w))"

definition f32_le :: "f32 \<Rightarrow> f32 \<Rightarrow> bool" where
  "f32_le a b \<longleftrightarrow> \<not> f32_is_nan a \<and> \<not> f32_is_nan b \<and> f32_key a \<le> f32_key b"

definition f32_eq :: "f32 \<Rightarrow> f32 \<Rightarrow> bool" where
  "f32_eq a b \<longleftrightarrow> \<not> f32_is_nan a \<and> \<not> f32_is_nan b \<and> f32_key a = f32_key b"

abbreviation (input) f32_zero :: f32 where "f32_zero \<equiv> 0"
abbreviation (input) f32_25 :: f32 where "f32_25 \<equiv> 0x41C80000"
abbreviation (input) f32_25_5 :: f32 where "f32_25_5 \<equiv> 0x41CC0000"
abbreviation (input) f32_minus_100 :: f32 where "f32_minus_100 \<equiv> 0xC2C80000"
abbreviation (input) f32_200 :: f32 where "f32_200 \<equiv> 0x43480000"

section \<open>The real value of a pattern\<close>

text \<open>
  \<open>f32_units m\<close> is the value of the magnitude \<open>m\<close> in units of \<open>2 powr - 149\<close>, the
  smallest positive subnormal.
\<close>

definition f32_units :: "nat \<Rightarrow> nat" where
  "f32_units m =
    (let e = m div 2 ^ 23; f = m mod 2 ^ 23
     in if e = 0 then f else (2 ^ 23 + f) * 2 ^ (e - 1))"

definition f32_val :: "f32 \<Rightarrow> real" where
  "f32_val w = (if f32_negative w then - 1 else 1) * real (f32_units (f32_magnitude w)) / 2 ^ 149"

lemma f32_units_Suc: "f32_units m < f32_units (Suc m)"
proof (cases "Suc (m mod 2 ^ 23) = 2 ^ 23")
  case True
  then have m: "Suc m div 2 ^ 23 = Suc (m div 2 ^ 23)" "Suc m mod 2 ^ 23 = 0"
    by (simp_all add: div_Suc mod_Suc)
  have "2 ^ 23 + m mod 2 ^ 23 < (2 :: nat) * 2 ^ 23" using True by linarith
  then have "(2 ^ 23 + m mod 2 ^ 23) * 2 ^ k < 2 ^ 23 * 2 ^ Suc k" for k :: nat
    by simp
  then show ?thesis
    using m True by (cases "m div 2 ^ 23") (simp_all add: f32_units_def)
next
  case False
  then have "Suc m div 2 ^ 23 = m div 2 ^ 23" "Suc m mod 2 ^ 23 = Suc (m mod 2 ^ 23)"
    by (simp_all add: div_Suc mod_Suc)
  then show ?thesis by (simp add: f32_units_def Let_def)
qed

lemma f32_units_less_iff: "f32_units a < f32_units b \<longleftrightarrow> a < b"
  by (rule strict_mono_less) (simp add: strict_mono_Suc_iff f32_units_Suc)

lemma f32_units_le_iff: "f32_units a \<le> f32_units b \<longleftrightarrow> a \<le> b"
  by (meson f32_units_less_iff not_le)

lemma f32_units_0 [simp]: "f32_units 0 = 0"
  by (simp add: f32_units_def)

lemma f32_val_le_iff: "f32_val a \<le> f32_val b \<longleftrightarrow> f32_key a \<le> f32_key b"
proof -
  have pos: "0 \<le> f32_units m" for m by simp
  have zero: "f32_units m = 0 \<longleftrightarrow> m = 0" for m
    using f32_units_le_iff [of m 0] by simp
  have "(- real (f32_units m) \<le> real (f32_units n)) = (- int m \<le> int n)" for m n
    by simp
  moreover have "(real (f32_units m) \<le> - real (f32_units n)) = (int m \<le> - int n)" for m n
    using zero [of m] zero [of n] by (cases "m = 0"; cases "n = 0") auto
  ultimately show ?thesis
    by (auto simp: f32_val_def f32_key_def divide_le_cancel f32_units_le_iff)
qed

lemma f32_finite_not_nan: "f32_is_finite w \<Longrightarrow> \<not> f32_is_nan w"
  by (simp add: f32_is_finite_def f32_is_nan_def)

lemma f32_le_iff_val:
  "f32_is_finite a \<Longrightarrow> f32_is_finite b \<Longrightarrow> f32_le a b \<longleftrightarrow> f32_val a \<le> f32_val b"
  by (simp add: f32_le_def f32_finite_not_nan f32_val_le_iff)

lemma f32_units_200: "f32_units 0x43480000 = 200 * 2 ^ 149"
  by (simp add: f32_units_def)

lemma f32_units_100: "f32_units 0x42C80000 = 100 * 2 ^ 149"
  by (simp add: f32_units_def)

lemma f32_val_200: "f32_val f32_200 = 200"
  by (simp add: f32_val_def f32_negative_def f32_magnitude_def f32_units_200)

lemma f32_val_minus_100: "f32_val f32_minus_100 = - 100"
  by (simp add: f32_val_def f32_negative_def f32_magnitude_def f32_units_100)

lemma f32_consts_finite [simp]:
  "f32_is_finite f32_200" "f32_is_finite f32_minus_100" "f32_is_finite f32_25"
  "f32_is_finite f32_25_5" "f32_is_finite f32_zero"
  by (simp_all add: f32_is_finite_def f32_exponent_def)

section \<open>Decimal input\<close>

text \<open>
  \<^verbatim>\<open>f32::from_str\<close>: an optional sign, then \<^verbatim>\<open>inf\<close>, \<^verbatim>\<open>infinity\<close> or \<^verbatim>\<open>nan\<close> in
  any case, or digits with an optional point (at least one digit in all) and an optional
  exponent; the value is rounded to nearest, ties to even, and overflows to infinity.
\<close>

definition round_even :: "nat \<Rightarrow> nat \<Rightarrow> nat" where
  "round_even a b =
    (let q = a div b; r = a mod b
     in if 2 * r < b \<or> 2 * r = b \<and> even q then q else Suc q)"

fun log2_floor :: "nat \<Rightarrow> nat" where
  "log2_floor n = (if n < 2 then 0 else Suc (log2_floor (n div 2)))"

declare log2_floor.simps [simp del]

definition f32_round :: "nat \<Rightarrow> nat \<Rightarrow> nat" where
  "f32_round num den =
    (let q = (num * 2 ^ 149) div den;
         s = (if q < 2 ^ 24 then 0 else log2_floor q - 23);
         m = round_even (num * 2 ^ 149) (den * 2 ^ s) + s * 2 ^ 23
     in min m 0x7F800000)"

definition f32_of_decimal :: "bool \<Rightarrow> nat \<Rightarrow> int \<Rightarrow> f32" where
  "f32_of_decimal neg d e =
    (let m = (if 0 \<le> e then f32_round (d * 10 ^ nat e) 1 else f32_round d (10 ^ nat (- e)))
     in of_nat m + (if neg then 0x80000000 else 0))"

definition to_lower :: "u8 \<Rightarrow> u8" where
  "to_lower b = (if 65 \<le> b \<and> b \<le> 90 then b + 32 else b)"

definition parse_exponent :: "bytes \<Rightarrow> int option" where
  "parse_exponent bs =
    (case bs of
      [] \<Rightarrow> None
    | b # rest \<Rightarrow>
        if b = 45 then map_option (\<lambda>n. - int n) (parse_nat rest)
        else map_option int (parse_nat (if b = 43 then rest else bs)))"

definition parse_unsigned_f32 :: "bool \<Rightarrow> bytes \<Rightarrow> f32 option" where
  "parse_unsigned_f32 neg bs =
    (let whole = takeWhile is_digit bs;
         rest = dropWhile is_digit bs;
         (frac, rest2) =
           (case rest of
             b # r \<Rightarrow> if b = 46 then (takeWhile is_digit r, dropWhile is_digit r) else ([], rest)
           | [] \<Rightarrow> ([], []));
         d = digits_value (whole @ frac)
     in if whole @ frac = [] then None
        else (case rest2 of
          [] \<Rightarrow> Some (f32_of_decimal neg d (- int (length frac)))
        | b # r \<Rightarrow>
            if to_lower b = 101 then
              (case parse_exponent r of
                None \<Rightarrow> None
              | Some e \<Rightarrow> Some (f32_of_decimal neg d (e - int (length frac))))
            else None))"

definition f32_from_str :: "bytes \<Rightarrow> f32 option" where
  "f32_from_str bs =
    (let neg = (case bs of b # _ \<Rightarrow> b = 45 | [] \<Rightarrow> False);
         body = (case bs of b # rest \<Rightarrow> if b = 45 \<or> b = 43 then rest else bs | [] \<Rightarrow> []);
         word = map to_lower body;
         signed = (\<lambda>w. Some (w + (if neg then 0x80000000 else 0)))
     in if word = lit ''inf'' \<or> word = lit ''infinity'' then signed 0x7F800000
        else if word = lit ''nan'' then signed 0x7FC00000
        else parse_unsigned_f32 neg body)"

lemmas f32_parse_eval =
  f32_from_str_def parse_unsigned_f32_def f32_of_decimal_def
  digits_value_def digit_value_def to_lower_def is_digit_def parse_exponent_def Let_def

lemma log2_floor_step: "log2_floor (numeral n) =
    (if (numeral n :: nat) < 2 then 0 else Suc (log2_floor (numeral n div 2)))"
  by (rule log2_floor.simps)

lemma log2_floor_1 [simp]: "log2_floor (Suc 0) = 0" "log2_floor 1 = 0" "log2_floor 0 = 0"
  by (simp_all add: log2_floor.simps)

lemma f32_round_samples:
  "f32_round 255 10 = 0x41CC0000" "f32_round 250 10 = 0x41C80000" "f32_round 0 10 = 0"
  by (simp_all add: f32_round_def round_even_def Let_def log2_floor_step)

lemma f32_from_str_samples:
  "f32_from_str (lit ''25.5'') = Some f32_25_5"
  "f32_from_str (lit ''25.0'') = Some f32_25"
  "f32_from_str (lit ''-0.0'') = Some 0x80000000"
  by (simp_all add: f32_parse_eval f32_round_samples)

end
