(* ===== verification/Message_Model.thy ===== *)
theory Message_Model
  imports Float32
begin

text \<open>
  The message types of the codec: \<^verbatim>\<open>CodecError\<close>, \<^verbatim>\<open>Format\<close> (\<^verbatim>\<open>Rust/messaging/src/lib.rs\<close>),
  the message structures of \<^verbatim>\<open>generated/model.rs\<close>, the Protobuf message types of
  \<^verbatim>\<open>generated/protobuf.rs\<close> and the conversions between the two.  A missing field is
  \<open>None\<close>, as in the code.  \<^verbatim>\<open>heapless::String<N>\<close> bounds the length of a string by its
  type; \<open>envelope_typed\<close> states those bounds.
\<close>

section \<open>Errors and formats\<close>

datatype codec_error = Crc | Decode | Validation | Version | Size

fun codec_error_outcome :: "codec_error \<Rightarrow> bytes" where
  "codec_error_outcome Crc = lit ''crc_error''"
| "codec_error_outcome Decode = lit ''decode_error''"
| "codec_error_outcome Validation = lit ''validation_error''"
| "codec_error_outcome Version = lit ''version_error''"
| "codec_error_outcome Size = lit ''size_error''"

datatype wire_format = Csv | Json | Protobuf

fun format_id :: "wire_format \<Rightarrow> i32" where
  "format_id Csv = 1"
| "format_id Json = 2"
| "format_id Protobuf = 3"

fun format_name :: "wire_format \<Rightarrow> bytes" where
  "format_name Csv = lit ''csv''"
| "format_name Json = lit ''json''"
| "format_name Protobuf = lit ''protobuf''"

definition format_parse :: "bytes \<Rightarrow> wire_format option" where
  "format_parse name =
    (if name = lit ''csv'' then Some Csv
     else if name = lit ''json'' then Some Json
     else if name = lit ''protobuf'' then Some Protobuf
     else None)"

lemma format_parse_name [simp]: "format_parse (format_name f) = Some f"
  by (cases f) (simp_all add: format_parse_def)

lemma format_id_inj: "format_id f = format_id g \<longleftrightarrow> f = g"
  by (cases f; cases g) simp_all

text \<open>\<^verbatim>\<open>MAX_BODY\<close> of \<^verbatim>\<open>generated/model.rs\<close>.\<close>

definition MAX_BODY :: nat where
  "MAX_BODY = 1016"

section \<open>Message structures\<close>

datatype empty = Empty

record device_info =
  firmware_version :: "bytes option"
  encoding :: "i32 option"

record status =
  temperature_celsius :: "f32 option"
  validity :: "i32 option"
  synthetic :: "bool option"

record health =
  health_state :: "i32 option"
  received_requests :: "u32 option"
  rejected_datagrams :: "u32 option"
  send_errors :: "u32 option"
  skipped_publications :: "u32 option"

record error_body =
  error_code :: "i32 option"

record envelope =
  protocol_version :: "u32 option"
  kind :: "i32 option"
  device_id :: "bytes option"
  boot_id :: "bytes option"
  client_session :: "bytes option"
  request_id :: "u32 option"
  sequence :: "u32 option"
  uptime_ms :: "u32 option"
  get_device_info :: "empty option"
  get_status :: "empty option"
  get_health :: "empty option"
  device_info_body :: "device_info option"
  status_body :: "status option"
  health_body :: "health option"
  error_body :: "error_body option"

definition device_info_default :: device_info where
  "device_info_default = \<lparr>firmware_version = None, encoding = None\<rparr>"

definition status_default :: status where
  "status_default = \<lparr>temperature_celsius = None, validity = None, synthetic = None\<rparr>"

definition health_default :: health where
  "health_default = \<lparr>health_state = None, received_requests = None, rejected_datagrams = None,
    send_errors = None, skipped_publications = None\<rparr>"

definition error_default :: error_body where
  "error_default = \<lparr>error_code = None\<rparr>"

definition envelope_default :: envelope where
  "envelope_default = \<lparr>protocol_version = None, kind = None, device_id = None, boot_id = None,
    client_session = None, request_id = None, sequence = None, uptime_ms = None,
    get_device_info = None, get_status = None, get_health = None, device_info_body = None,
    status_body = None, health_body = None, error_body = None\<rparr>"

definition fits :: "nat \<Rightarrow> bytes option \<Rightarrow> bool" where
  "fits n s \<longleftrightarrow> (case s of None \<Rightarrow> True | Some b \<Rightarrow> length b \<le> n)"

definition envelope_typed :: "envelope \<Rightarrow> bool" where
  "envelope_typed m \<longleftrightarrow> fits 32 (device_id m) \<and> fits 16 (boot_id m) \<and> fits 16 (client_session m) \<and>
    (case device_info_body m of None \<Rightarrow> True | Some i \<Rightarrow> fits 32 (firmware_version i))"

lemma fits_simps [simp]: "fits n None" "fits n (Some b) \<longleftrightarrow> length b \<le> n"
  by (simp_all add: fits_def)

text \<open>
  The array of \<^verbatim>\<open>is_some()\<close> flags that validation filters and counts: which bodies are present.
\<close>

definition body_flags :: "envelope \<Rightarrow> bool list" where
  "body_flags m =
    [is_some (get_device_info m), is_some (get_status m), is_some (get_health m),
     is_some (device_info_body m), is_some (status_body m), is_some (health_body m),
     is_some (error_body m)]"

definition body_count :: "envelope \<Rightarrow> nat" where
  "body_count m = length (filter (\<lambda>v. v) (body_flags m))"

section \<open>Protobuf messages\<close>

datatype message_kind = MessageKind (message_kind_val: i32)
datatype pb_encoding = Encoding (encoding_val: i32)
datatype pb_validity = Validity (validity_val: i32)
datatype pb_health_state = HealthState (health_state_val: i32)
datatype pb_error_code = ErrorCode (error_code_val: i32)

record pb_device_info =
  pb_firmware_version :: "bytes option"
  pb_encoding :: "pb_encoding option"

record pb_status =
  pb_temperature_celsius :: "f32 option"
  pb_validity :: "pb_validity option"
  pb_synthetic :: "bool option"

record pb_health =
  pb_state :: "pb_health_state option"
  pb_received_requests :: "u32 option"
  pb_rejected_datagrams :: "u32 option"
  pb_send_errors :: "u32 option"
  pb_skipped_publications :: "u32 option"

record pb_error =
  pb_code :: "pb_error_code option"

datatype pb_body =
    PbGetDeviceInfo empty
  | PbGetStatus empty
  | PbGetHealth empty
  | PbDeviceInfo pb_device_info
  | PbStatus pb_status
  | PbHealth pb_health
  | PbError pb_error

record pb_envelope =
  pb_protocol_version :: "u32 option"
  pb_kind :: "message_kind option"
  pb_device_id :: "bytes option"
  pb_boot_id :: "bytes option"
  pb_client_session :: "bytes option"
  pb_request_id :: "u32 option"
  pb_sequence :: "u32 option"
  pb_uptime_ms :: "u32 option"
  pb_body :: "pb_body option"

definition device_info_to_pb :: "device_info \<Rightarrow> pb_device_info" where
  "device_info_to_pb i =
    \<lparr>pb_firmware_version = firmware_version i, pb_encoding = map_option Encoding (encoding i)\<rparr>"

definition device_info_from_pb :: "pb_device_info \<Rightarrow> device_info" where
  "device_info_from_pb p =
    \<lparr>firmware_version = pb_firmware_version p, encoding = map_option encoding_val (pb_encoding p)\<rparr>"

definition status_to_pb :: "status \<Rightarrow> pb_status" where
  "status_to_pb s =
    \<lparr>pb_temperature_celsius = temperature_celsius s,
     pb_validity = map_option Validity (validity s), pb_synthetic = synthetic s\<rparr>"

definition status_from_pb :: "pb_status \<Rightarrow> status" where
  "status_from_pb p =
    \<lparr>temperature_celsius = pb_temperature_celsius p,
     validity = map_option validity_val (pb_validity p), synthetic = pb_synthetic p\<rparr>"

definition health_to_pb :: "health \<Rightarrow> pb_health" where
  "health_to_pb h =
    \<lparr>pb_state = map_option HealthState (health_state h),
     pb_received_requests = received_requests h, pb_rejected_datagrams = rejected_datagrams h,
     pb_send_errors = send_errors h, pb_skipped_publications = skipped_publications h\<rparr>"

definition health_from_pb :: "pb_health \<Rightarrow> health" where
  "health_from_pb p =
    \<lparr>health_state = map_option health_state_val (pb_state p),
     received_requests = pb_received_requests p, rejected_datagrams = pb_rejected_datagrams p,
     send_errors = pb_send_errors p, skipped_publications = pb_skipped_publications p\<rparr>"

definition error_to_pb :: "error_body \<Rightarrow> pb_error" where
  "error_to_pb e = \<lparr>pb_code = map_option ErrorCode (error_code e)\<rparr>"

definition error_from_pb :: "pb_error \<Rightarrow> error_body" where
  "error_from_pb p = \<lparr>error_code = map_option error_code_val (pb_code p)\<rparr>"

text \<open>
  \<^verbatim>\<open>Envelope::to_pb\<close> assigns the one-of body once per present field, in this order, so a
  later field replaces an earlier one.
\<close>

definition pb_body_of :: "envelope \<Rightarrow> pb_body option" where
  "pb_body_of m =
    (let b0 = None;
         b1 = (case get_device_info m of None \<Rightarrow> b0 | Some v \<Rightarrow> Some (PbGetDeviceInfo v));
         b2 = (case get_status m of None \<Rightarrow> b1 | Some v \<Rightarrow> Some (PbGetStatus v));
         b3 = (case get_health m of None \<Rightarrow> b2 | Some v \<Rightarrow> Some (PbGetHealth v));
         b4 = (case device_info_body m of None \<Rightarrow> b3
               | Some v \<Rightarrow> Some (PbDeviceInfo (device_info_to_pb v)));
         b5 = (case status_body m of None \<Rightarrow> b4 | Some v \<Rightarrow> Some (PbStatus (status_to_pb v)));
         b6 = (case health_body m of None \<Rightarrow> b5 | Some v \<Rightarrow> Some (PbHealth (health_to_pb v)));
         b7 = (case error_body m of None \<Rightarrow> b6 | Some v \<Rightarrow> Some (PbError (error_to_pb v)))
     in b7)"

definition envelope_to_pb :: "envelope \<Rightarrow> pb_envelope" where
  "envelope_to_pb m =
    \<lparr>pb_protocol_version = protocol_version m, pb_kind = map_option MessageKind (kind m),
     pb_device_id = device_id m, pb_boot_id = boot_id m, pb_client_session = client_session m,
     pb_request_id = request_id m, pb_sequence = sequence m, pb_uptime_ms = uptime_ms m,
     pb_body = pb_body_of m\<rparr>"

definition envelope_from_pb :: "pb_envelope \<Rightarrow> envelope" where
  "envelope_from_pb p =
    (let out = envelope_default
       \<lparr>protocol_version := pb_protocol_version p,
        kind := map_option message_kind_val (pb_kind p), device_id := pb_device_id p,
        boot_id := pb_boot_id p, client_session := pb_client_session p,
        request_id := pb_request_id p, sequence := pb_sequence p, uptime_ms := pb_uptime_ms p\<rparr>
     in case pb_body p of
          None \<Rightarrow> out
        | Some (PbGetDeviceInfo v) \<Rightarrow> out\<lparr>get_device_info := Some v\<rparr>
        | Some (PbGetStatus v) \<Rightarrow> out\<lparr>get_status := Some v\<rparr>
        | Some (PbGetHealth v) \<Rightarrow> out\<lparr>get_health := Some v\<rparr>
        | Some (PbDeviceInfo v) \<Rightarrow> out\<lparr>device_info_body := Some (device_info_from_pb v)\<rparr>
        | Some (PbStatus v) \<Rightarrow> out\<lparr>status_body := Some (status_from_pb v)\<rparr>
        | Some (PbHealth v) \<Rightarrow> out\<lparr>health_body := Some (health_from_pb v)\<rparr>
        | Some (PbError v) \<Rightarrow> out\<lparr>error_body := Some (error_from_pb v)\<rparr>)"

lemma map_option_id_comp: "(\<And>x. f (g x) = x) \<Longrightarrow> map_option f (map_option g v) = v"
  by (cases v) simp_all

lemma leaf_from_to_pb [simp]:
  "device_info_from_pb (device_info_to_pb i) = i"
  "status_from_pb (status_to_pb s) = s"
  "health_from_pb (health_to_pb h) = h"
  "error_from_pb (error_to_pb e) = e"
  by (simp_all add: device_info_from_pb_def device_info_to_pb_def status_from_pb_def
      status_to_pb_def health_from_pb_def health_to_pb_def error_from_pb_def error_to_pb_def
      map_option_id_comp)

lemma pb_conversion_identity:
  "envelope_from_pb (envelope_to_pb m) = m \<longleftrightarrow> body_count m \<le> 1"
  by (cases m; cases "get_device_info m"; cases "get_status m"; cases "get_health m";
      cases "device_info_body m"; cases "status_body m"; cases "health_body m";
      cases "error_body m")
    (simp_all add: envelope_from_pb_def envelope_to_pb_def pb_body_of_def body_count_def
      body_flags_def envelope_default_def map_option_id_comp Let_def)

text \<open>Converting a message to its Protobuf form and back is the identity exactly when it has
  at most one body; with several bodies the one-of field keeps only one.\<close>
theorem envelope_pb_round_trip:
  "envelope_from_pb (envelope_to_pb m) = m \<longleftrightarrow> body_count m \<le> 1"
  by (rule pb_conversion_identity)

end
