(* ===== verification/Validation.thy ===== *)
theory Validation
  imports Message_Model
begin

text \<open>
  \<^verbatim>\<open>Rust/messaging/src/validation.rs\<close>: the semantic checks every message passes before it
  is sent and after it is parsed.  \<open>validate\<close> follows the code check by check.  What it
  accepts is then described independently: \<open>message\<close> is the abstract protocol (a request,
  a response or a publication, each with exactly the data it needs), \<open>to_envelope\<close> lays a
  message out in the fields of an envelope, and validation accepts exactly the layouts of
  well-formed messages.
\<close>

section \<open>The checks of the code\<close>

definition require :: "bool \<Rightarrow> codec_error + unit" where
  "require condition = (if condition then Inr () else Inl Validation)"

definition hex_token :: "bytes \<Rightarrow> bool" where
  "hex_token s \<longleftrightarrow> length s = 16 \<and> list_all is_lower_hex s \<and> s \<noteq> lit ''0000000000000000''"

definition session :: "bytes option \<Rightarrow> bool" where
  "session value = is_some_and hex_token value"

definition device_name :: "bytes \<Rightarrow> bool" where
  "device_name name \<longleftrightarrow> name \<noteq> [] \<and>
    list_all (\<lambda>b. is_alphanumeric b \<or> b \<in> set (lit ''_.-'')) name"

definition correlation :: "envelope \<Rightarrow> bool" where
  "correlation m \<longleftrightarrow> protocol_version m = Some 1 \<and> is_some_and device_name (device_id m) \<and>
    session (client_session m) \<and> is_some_and (\<lambda>v. v \<noteq> 0) (request_id m)"

definition i32_between :: "int \<Rightarrow> int \<Rightarrow> i32 \<Rightarrow> bool" where
  "i32_between a b k \<longleftrightarrow> a \<le> sint k \<and> sint k \<le> b"

definition kind_body :: "envelope \<Rightarrow> i32 \<Rightarrow> bool" where
  "kind_body m k =
    (if k = 1 then is_some (get_device_info m)
     else if k = 2 then is_some (get_status m)
     else if k = 3 then is_some (get_health m)
     else if k = 11 then is_some (device_info_body m)
     else if k = 12 \<or> k = 21 then is_some (status_body m)
     else if k = 13 \<or> k = 22 then is_some (health_body m)
     else if k = 14 then is_some (error_body m)
     else False)"

definition validate_info :: "wire_format \<Rightarrow> device_info \<Rightarrow> codec_error + unit" where
  "validate_info format info =
    require (encoding info = Some (format_id format) \<and>
      is_some_and (\<lambda>v. v \<noteq> [] \<and> list_all is_printable v) (firmware_version info))"

definition temperature_ok :: "f32 \<Rightarrow> bool" where
  "temperature_ok v \<longleftrightarrow> f32_is_finite v \<and> f32_le f32_minus_100 v \<and> f32_le v f32_200"

definition validate_status :: "status \<Rightarrow> codec_error + unit" where
  "validate_status s =
    r_bind (require (synthetic s = Some True)) (\<lambda>_.
      if validity s = Some 1 then require (is_some_and temperature_ok (temperature_celsius s))
      else if validity s = Some 2 \<or> validity s = Some 3 then require (is_none (temperature_celsius s))
      else Inl Validation)"

definition validate_health :: "health \<Rightarrow> codec_error + unit" where
  "validate_health h =
    require ((health_state h = Some 1 \<or> health_state h = Some 2) \<and> is_some (received_requests h) \<and>
      is_some (rejected_datagrams h) \<and> is_some (send_errors h) \<and>
      is_some (skipped_publications h))"

definition validate_error :: "error_body \<Rightarrow> codec_error + unit" where
  "validate_error e = require (error_code e = Some 1 \<or> error_code e = Some 2)"

definition check_opt :: "('a \<Rightarrow> codec_error + unit) \<Rightarrow> 'a option \<Rightarrow> codec_error + unit" where
  "check_opt check x = (case x of None \<Rightarrow> Inr () | Some v \<Rightarrow> check v)"

definition validate :: "envelope \<Rightarrow> wire_format \<Rightarrow> codec_error + unit" where
  "validate m format =
    (if protocol_version m \<noteq> Some 1
     then Inl (if is_none (protocol_version m) then Validation else Version)
     else
       r_bind (require (is_some_and device_name (device_id m))) (\<lambda>_.
       r_bind (ok_or (kind m) Validation) (\<lambda>k.
         let request = i32_between 1 3 k; response = i32_between 11 14 k;
             publication = (k = 21 \<or> k = 22)
         in
         r_bind (require (request \<or> response \<or> publication)) (\<lambda>_.
         r_bind (require (body_count m = 1)) (\<lambda>_.
         r_bind (require (kind_body m k)) (\<lambda>_.
         r_bind (if request
                 then require (is_none (boot_id m) \<and> is_none (uptime_ms m) \<and>
                   is_none (sequence m) \<and> correlation m)
                 else Inr ()) (\<lambda>_.
         r_bind (if response
                 then require (session (boot_id m) \<and> is_some (uptime_ms m) \<and>
                   is_none (sequence m) \<and> correlation m)
                 else Inr ()) (\<lambda>_.
         r_bind (if publication
                 then require (session (boot_id m) \<and> is_some (uptime_ms m) \<and>
                   is_some (sequence m) \<and> is_none (client_session m) \<and> is_none (request_id m))
                 else Inr ()) (\<lambda>_.
         r_bind (check_opt (validate_info format) (device_info_body m)) (\<lambda>_.
         r_bind (check_opt validate_status (status_body m)) (\<lambda>_.
         r_bind (check_opt validate_health (health_body m)) (\<lambda>_.
         check_opt validate_error (error_body m)))))))))))))"

section \<open>Basic facts\<close>

lemma require_iff [simp]:
  "require c = Inr u \<longleftrightarrow> c"
  "require c = Inl e \<longleftrightarrow> \<not> c \<and> e = Validation"
  by (auto simp: require_def)

lemma r_bind_unit_iff: "r_bind r f = Inr b \<longleftrightarrow> r = Inr () \<and> f () = Inr b"
  by (cases r) simp_all

lemma check_opt_simps [simp]:
  "check_opt c None = Inr ()"
  "check_opt c (Some v) = c v"
  by (simp_all add: check_opt_def)

lemma sint_eq_iff: "sint (word_of_int a :: i32) = a \<Longrightarrow> sint k = a \<longleftrightarrow> k = word_of_int a" for k :: i32
  by auto

lemma i32_between_range:
  "i32_between 1 3 k \<longleftrightarrow> k = 1 \<or> k = 2 \<or> k = 3"
  "i32_between 11 14 k \<longleftrightarrow> k = 11 \<or> k = 12 \<or> k = 13 \<or> k = 14"
proof -
  have "i32_between 1 3 k \<longleftrightarrow> sint k = 1 \<or> sint k = 2 \<or> sint k = 3"
    unfolding i32_between_def by presburger
  moreover have "i32_between 11 14 k \<longleftrightarrow> sint k = 11 \<or> sint k = 12 \<or> sint k = 13 \<or> sint k = 14"
    unfolding i32_between_def by presburger
  ultimately show "i32_between 1 3 k \<longleftrightarrow> k = 1 \<or> k = 2 \<or> k = 3"
    "i32_between 11 14 k \<longleftrightarrow> k = 11 \<or> k = 12 \<or> k = 13 \<or> k = 14"
    by (simp_all add: sint_eq_iff)
qed

lemma session_simps [simp]: "\<not> session None" "session (Some s) = hex_token s"
  by (simp_all add: session_def)

lemma session_iff: "session v \<longleftrightarrow> (\<exists>s. v = Some s \<and> hex_token s)"
  by (cases v) simp_all

lemma validate_errors: "validate m f = Inl e \<Longrightarrow> e = Validation \<or> e = Version \<and> is_some (protocol_version m)"
  by (auto simp: validate_def r_bind_Inl_iff ok_or_def Let_def check_opt_def validate_info_def
      validate_status_def validate_health_def validate_error_def split: if_splits option.splits)

section \<open>The abstract protocol\<close>

datatype operation = Ask_Info | Ask_Status | Ask_Health

datatype reading = Measured f32 | Unavailable | Sensor_Fault

datatype report = Status_Report reading | Health_Report bool u32 u32 u32 u32

datatype answer = Info_Answer bytes | Report_Answer report | Error_Answer bool

datatype message =
    Request bytes bytes u32 operation
  | Response bytes bytes u32 bytes u32 answer
  | Publication bytes bytes u32 u32 report

fun reading_status :: "reading \<Rightarrow> status" where
  "reading_status (Measured t) =
     \<lparr>temperature_celsius = Some t, validity = Some 1, synthetic = Some True\<rparr>"
| "reading_status Unavailable =
     \<lparr>temperature_celsius = None, validity = Some 2, synthetic = Some True\<rparr>"
| "reading_status Sensor_Fault =
     \<lparr>temperature_celsius = None, validity = Some 3, synthetic = Some True\<rparr>"

fun report_fields :: "report \<Rightarrow> envelope \<Rightarrow> envelope" where
  "report_fields (Status_Report r) m = m\<lparr>status_body := Some (reading_status r)\<rparr>"
| "report_fields (Health_Report degraded a b c d) m =
     m\<lparr>health_body := Some \<lparr>health_state = Some (if degraded then 2 else 1),
       received_requests = Some a, rejected_datagrams = Some b, send_errors = Some c,
       skipped_publications = Some d\<rparr>\<rparr>"

fun report_kind :: "report \<Rightarrow> i32" where
  "report_kind (Status_Report _) = 1"
| "report_kind (Health_Report _ _ _ _ _) = 2"

fun to_envelope :: "wire_format \<Rightarrow> message \<Rightarrow> envelope" where
  "to_envelope f (Request dev sess rid op) =
     (let m = envelope_default\<lparr>protocol_version := Some 1, device_id := Some dev,
        client_session := Some sess, request_id := Some rid\<rparr>
      in case op of
           Ask_Info \<Rightarrow> m\<lparr>kind := Some 1, get_device_info := Some Empty\<rparr>
         | Ask_Status \<Rightarrow> m\<lparr>kind := Some 2, get_status := Some Empty\<rparr>
         | Ask_Health \<Rightarrow> m\<lparr>kind := Some 3, get_health := Some Empty\<rparr>)"
| "to_envelope f (Response dev sess rid boot up ans) =
     (let m = envelope_default\<lparr>protocol_version := Some 1, device_id := Some dev,
        client_session := Some sess, request_id := Some rid, boot_id := Some boot,
        uptime_ms := Some up\<rparr>
      in case ans of
           Info_Answer v \<Rightarrow> m\<lparr>kind := Some 11, device_info_body :=
             Some \<lparr>firmware_version = Some v, encoding = Some (format_id f)\<rparr>\<rparr>
         | Report_Answer r \<Rightarrow> (report_fields r m)\<lparr>kind := Some (11 + report_kind r)\<rparr>
         | Error_Answer invalid \<Rightarrow> m\<lparr>kind := Some 14, error_body :=
             Some \<lparr>error_code = Some (if invalid then 2 else 1)\<rparr>\<rparr>)"
| "to_envelope f (Publication dev boot up sq r) =
     (report_fields r (envelope_default\<lparr>protocol_version := Some 1, device_id := Some dev,
        boot_id := Some boot, uptime_ms := Some up, sequence := Some sq\<rparr>))
       \<lparr>kind := Some (20 + report_kind r)\<rparr>"

fun report_ok :: "report \<Rightarrow> bool" where
  "report_ok (Status_Report (Measured t)) = temperature_ok t"
| "report_ok _ = True"

fun answer_ok :: "answer \<Rightarrow> bool" where
  "answer_ok (Info_Answer v) = (v \<noteq> [] \<and> list_all is_printable v)"
| "answer_ok (Report_Answer r) = report_ok r"
| "answer_ok (Error_Answer _) = True"

fun message_ok :: "message \<Rightarrow> bool" where
  "message_ok (Request dev sess rid op) = (device_name dev \<and> hex_token sess \<and> rid \<noteq> 0)"
| "message_ok (Response dev sess rid boot up ans) =
     (device_name dev \<and> hex_token sess \<and> rid \<noteq> 0 \<and> hex_token boot \<and> answer_ok ans)"
| "message_ok (Publication dev boot up sq r) = (device_name dev \<and> hex_token boot \<and> report_ok r)"

text \<open>The reading of a status, report and envelope that \<open>to_envelope\<close> inverts.\<close>

definition status_reading :: "status \<Rightarrow> reading" where
  "status_reading s =
    (if validity s = Some 1 then Measured (the (temperature_celsius s))
     else if validity s = Some 2 then Unavailable else Sensor_Fault)"

definition health_report :: "health \<Rightarrow> report" where
  "health_report h = Health_Report (health_state h = Some 2) (the (received_requests h))
    (the (rejected_datagrams h)) (the (send_errors h)) (the (skipped_publications h))"

lemma validate_status_iff:
  "validate_status s = Inr () \<longleftrightarrow>
    s = reading_status (status_reading s) \<and> report_ok (Status_Report (status_reading s))"
  by (cases s) (auto simp: validate_status_def status_reading_def r_bind_unit_iff is_some_and_iff)

lemma validate_health_iff:
  "validate_health h = Inr () \<longleftrightarrow>
    Some h = health_body (report_fields (health_report h) envelope_default)"
  by (cases h) (auto simp: validate_health_def health_report_def envelope_default_def)

lemma validate_error_iff:
  "validate_error e = Inr () \<longleftrightarrow> e = \<lparr>error_code = Some (if error_code e = Some 2 then 2 else 1)\<rparr>"
  by (cases e) (auto simp: validate_error_def)

lemma validate_info_iff:
  "validate_info f i = Inr () \<longleftrightarrow> encoding i = Some (format_id f) \<and>
    (\<exists>v. firmware_version i = Some v \<and> v \<noteq> [] \<and> list_all is_printable v)"
  by (auto simp: validate_info_def is_some_and_iff)

section \<open>Validation is membership in the protocol\<close>

lemma if_require_iff: "(if c then require d else Inr ()) = Inr () \<longleftrightarrow> (c \<longrightarrow> d)"
  by simp

lemma if_Inl_iff: "(if c then Inl e else r) = Inr u \<longleftrightarrow> \<not> c \<and> r = Inr u"
  by simp

lemma validate_iff:
  "validate m f = Inr () \<longleftrightarrow> protocol_version m = Some 1 \<and>
    (\<exists>dev. device_id m = Some dev \<and> device_name dev) \<and>
    (\<exists>k. kind m = Some k \<and> (i32_between 1 3 k \<or> i32_between 11 14 k \<or> k = 21 \<or> k = 22) \<and>
      kind_body m k \<and>
      (i32_between 1 3 k \<longrightarrow>
        boot_id m = None \<and> uptime_ms m = None \<and> sequence m = None \<and> correlation m) \<and>
      (i32_between 11 14 k \<longrightarrow>
        session (boot_id m) \<and> uptime_ms m \<noteq> None \<and> sequence m = None \<and> correlation m) \<and>
      (k = 21 \<or> k = 22 \<longrightarrow> session (boot_id m) \<and> uptime_ms m \<noteq> None \<and> sequence m \<noteq> None \<and>
        client_session m = None \<and> request_id m = None)) \<and>
    body_count m = 1 \<and>
    check_opt (validate_info f) (device_info_body m) = Inr () \<and>
    check_opt validate_status (status_body m) = Inr () \<and>
    check_opt validate_health (health_body m) = Inr () \<and>
    check_opt validate_error (error_body m) = Inr ()"
proof (cases "kind m")
  case None
  then show ?thesis by (simp add: validate_def r_bind_Inr_iff ok_or_def)
next
  case (Some k)
  show ?thesis
    unfolding validate_def Let_def Some
    by (simp add: r_bind_unit_iff if_Inl_iff if_require_iff is_some_and_iff Some conj_ac)
qed

lemma empty_eq: "(e :: empty) = Empty"
  by (cases e) simp

lemma body_count_one:
  "body_count m = 1 \<Longrightarrow> kind_body m k \<Longrightarrow>
    get_device_info m = (if k = 1 then Some Empty else None) \<and>
    get_status m = (if k = 2 then Some Empty else None) \<and>
    get_health m = (if k = 3 then Some Empty else None) \<and> (device_info_body m = None \<longleftrightarrow> k \<noteq> 11) \<and>
    (status_body m = None \<longleftrightarrow> k \<noteq> 12 \<and> k \<noteq> 21) \<and> (health_body m = None \<longleftrightarrow> k \<noteq> 13 \<and> k \<noteq> 22) \<and>
    (error_body m = None \<longleftrightarrow> k \<noteq> 14)"
  by (cases "get_device_info m"; cases "get_status m"; cases "get_health m";
      cases "device_info_body m"; cases "status_body m"; cases "health_body m";
      cases "error_body m"; force intro: empty_eq simp: body_count_def body_flags_def kind_body_def split: if_splits)
lemma correlation_iff: "correlation m \<longleftrightarrow> protocol_version m = Some 1 \<and>
  (\<exists>dev sess rid. device_id m = Some dev \<and> device_name dev \<and> client_session m = Some sess \<and>
    hex_token sess \<and> request_id m = Some rid \<and> rid \<noteq> 0)"
  by (auto simp: correlation_def is_some_and_iff session_iff)


lemma validate_complete_request:
  assumes "protocol_version m = Some 1" and "k \<in> {1, 2, 3}" and k: "kind m = Some k"
    and "kind_body m k" and "body_count m = 1"
    and r: "boot_id m = None" "uptime_ms m = None" "sequence m = None" and "correlation m"
  shows "\<exists>msg. message_ok msg \<and> m = to_envelope f msg"
proof -
  note bodies = body_count_one [OF assms(5,4)]
  obtain dev sess rid where c: "device_id m = Some dev" "device_name dev"
    "client_session m = Some sess" "hex_token sess" "request_id m = Some rid" "rid \<noteq> 0"
    using \<open>correlation m\<close> unfolding correlation_iff by blast
  define op where "op = (if k = 1 then Ask_Info else if k = 2 then Ask_Status else Ask_Health)"
  have "m = to_envelope f (Request dev sess rid op)"
    using assms(2)
    by (subst envelope.surjective [of m], elim insertE emptyE)
      (use bodies c r k assms(1) in \<open>simp_all add: op_def envelope_default_def\<close>)
  then show ?thesis using c by (intro exI [of _ "Request dev sess rid op"]) simp
qed

lemma validate_complete_report:
  assumes "status_body m = Some s \<and> health_body m = None \<or> status_body m = None \<and> health_body m = Some h"
    and "check_opt validate_status (status_body m) = Inr ()"
    and "check_opt validate_health (health_body m) = Inr ()"
  shows "\<exists>rep. report_ok rep \<and> (report_kind rep = 1 \<longleftrightarrow> status_body m \<noteq> None) \<and>
    status_body m = status_body (report_fields rep envelope_default) \<and>
    health_body m = health_body (report_fields rep envelope_default)"
  using assms
proof (elim disjE conjE)
  assume "status_body m = Some s" "health_body m = None"
  then show ?thesis
    using assms(2)
    by (intro exI [of _ "Status_Report (status_reading s)"])
      (simp add: validate_status_iff envelope_default_def)
next
  assume "status_body m = None" "health_body m = Some h"
  then show ?thesis
    using assms(3)
    by (intro exI [of _ "health_report h"])
      (simp add: validate_health_iff envelope_default_def health_report_def)
qed

lemma validate_complete_response:
  assumes "protocol_version m = Some 1" and "k \<in> {11, 12, 13, 14}" and k: "kind m = Some k"
    and "kind_body m k" and "body_count m = 1" and "session (boot_id m)" and "uptime_ms m \<noteq> None"
    and "sequence m = None" and "correlation m"
    and info: "check_opt (validate_info f) (device_info_body m) = Inr ()"
    and stat: "check_opt validate_status (status_body m) = Inr ()"
    and heal: "check_opt validate_health (health_body m) = Inr ()"
    and err: "check_opt validate_error (error_body m) = Inr ()"
  shows "\<exists>msg. message_ok msg \<and> m = to_envelope f msg"
proof -
  note bodies = body_count_one [OF assms(5,4)]
  obtain dev sess rid boot up where c: "device_id m = Some dev" "device_name dev"
    "client_session m = Some sess" "hex_token sess" "request_id m = Some rid" "rid \<noteq> 0"
    "boot_id m = Some boot" "hex_token boot" "uptime_ms m = Some up" "sequence m = None"
    using assms(6-9) unfolding correlation_iff session_iff by blast
  have "\<exists>ans. answer_ok ans \<and> m = to_envelope f (Response dev sess rid boot up ans)"
  proof (cases "k = 11 \<or> k = 14")
    case True
    then show ?thesis
    proof
      assume "k = 11"
      then obtain i v where i: "device_info_body m = Some i" "firmware_version i = Some v"
        "v \<noteq> []" "list_all is_printable v" "encoding i = Some (format_id f)"
        using info bodies by (auto simp: validate_info_iff)
      have "m = to_envelope f (Response dev sess rid boot up (Info_Answer v))"
        by (subst envelope.surjective [of m])
          (use bodies c k assms(1) i \<open>k = 11\<close> in \<open>simp add: envelope_default_def\<close>)
      then show ?thesis using i by (intro exI [of _ "Info_Answer v"]) simp
    next
      assume "k = 14"
      then obtain e where e: "error_body m = Some e" using bodies by auto
      have "e = \<lparr>error_code = Some (if error_code e = Some 2 then 2 else 1)\<rparr>"
        using err by (simp add: e validate_error_iff)
      then have "m = to_envelope f (Response dev sess rid boot up (Error_Answer (error_code e = Some 2)))"
        by (subst envelope.surjective [of m])
          (use bodies c k assms(1) e \<open>k = 14\<close> in \<open>simp add: envelope_default_def\<close>)
      then show ?thesis by (intro exI [of _ "Error_Answer (error_code e = Some 2)"]) simp
    qed
  next
    case False
    then have k1213: "k = 12 \<or> k = 13" using assms(2) by auto
    then obtain rep where rep: "report_ok rep" "report_kind rep = 1 \<longleftrightarrow> status_body m \<noteq> None"
      "status_body m = status_body (report_fields rep envelope_default)"
      "health_body m = health_body (report_fields rep envelope_default)"
      using validate_complete_report [OF _ stat heal] bodies by fastforce
    then have "m = to_envelope f (Response dev sess rid boot up (Report_Answer rep))"
      by (subst envelope.surjective [of m], cases rep)
        (use k1213 bodies c k assms(1) in \<open>auto simp: envelope_default_def\<close>)
    then show ?thesis using rep(1) by (intro exI [of _ "Report_Answer rep"]) simp
  qed
  then obtain ans where "answer_ok ans" "m = to_envelope f (Response dev sess rid boot up ans)" by blast
  then show ?thesis using c by (intro exI [of _ "Response dev sess rid boot up ans"]) simp
qed

lemma validate_complete_publication:
  assumes "protocol_version m = Some 1" and "k = 21 \<or> k = 22" and k: "kind m = Some k"
    and dev: "device_id m = Some dev" "device_name dev"
    and "kind_body m k" and "body_count m = 1" and "session (boot_id m)" and "uptime_ms m \<noteq> None"
    and "sequence m \<noteq> None" and "client_session m = None" and "request_id m = None"
    and stat: "check_opt validate_status (status_body m) = Inr ()"
    and heal: "check_opt validate_health (health_body m) = Inr ()"
  shows "\<exists>msg. message_ok msg \<and> m = to_envelope f msg"
proof -
  note bodies = body_count_one [OF assms(7,6)]
  obtain boot up sq where c: "boot_id m = Some boot" "hex_token boot" "uptime_ms m = Some up"
    "sequence m = Some sq"
    using assms(8-10) unfolding session_iff by blast
  obtain rep where rep: "report_ok rep" "report_kind rep = 1 \<longleftrightarrow> status_body m \<noteq> None"
    "status_body m = status_body (report_fields rep envelope_default)"
    "health_body m = health_body (report_fields rep envelope_default)"
    using validate_complete_report [OF _ stat heal] bodies assms(2) by fastforce
  then have "m = to_envelope f (Publication dev boot up sq rep)"
    by (subst envelope.surjective [of m], cases rep)
      (use assms(2) bodies c k dev assms(1,11,12) in \<open>auto simp: envelope_default_def\<close>)
  then show ?thesis using c dev rep(1) by (intro exI [of _ "Publication dev boot up sq rep"]) simp
qed

lemma validate_complete:
  assumes "validate m f = Inr ()"
  shows "\<exists>msg. message_ok msg \<and> m = to_envelope f msg"
proof -
  obtain k dev where a: "kind m = Some k" "device_id m = Some dev" "device_name dev"
    "protocol_version m = Some 1"
    "i32_between 1 3 k \<or> i32_between 11 14 k \<or> k = 21 \<or> k = 22"
    "kind_body m k" "body_count m = 1"
    "check_opt (validate_info f) (device_info_body m) = Inr ()"
    "check_opt validate_status (status_body m) = Inr ()"
    "check_opt validate_health (health_body m) = Inr ()"
    "check_opt validate_error (error_body m) = Inr ()"
    and req: "i32_between 1 3 k \<longrightarrow>
        boot_id m = None \<and> uptime_ms m = None \<and> sequence m = None \<and> correlation m"
    and resp: "i32_between 11 14 k \<longrightarrow>
        session (boot_id m) \<and> uptime_ms m \<noteq> None \<and> sequence m = None \<and> correlation m"
    and pub: "k = 21 \<or> k = 22 \<longrightarrow> session (boot_id m) \<and> uptime_ms m \<noteq> None \<and>
        sequence m \<noteq> None \<and> client_session m = None \<and> request_id m = None"
    using assms unfolding validate_iff by blast
  from a(5) show ?thesis
    using req resp pub validate_complete_request [of m k f] validate_complete_response [of m k f]
      validate_complete_publication [of m k dev f] a
    unfolding i32_between_range by blast
qed


lemma validate_status_reading [simp]: "validate_status (reading_status r) = require (report_ok (Status_Report r))"
  by (cases r) (simp_all add: validate_status_def require_def)

lemmas validate_eval = validate_iff i32_between_range envelope_default_def kind_body_def
  body_count_def body_flags_def correlation_iff validate_health_def validate_info_def validate_error_def

lemma validate_sound:
  assumes "message_ok msg"
  shows "validate (to_envelope f msg) f = Inr ()"
proof (cases msg)
  case (Request dev sess rid op)
  then show ?thesis using assms by (cases op) (simp_all add: validate_eval)
next
  case (Response dev sess rid boot up ans)
  then show ?thesis
  proof (cases ans)
    case (Report_Answer r)
    then show ?thesis using assms Response by (cases r) (simp_all add: validate_eval)
  qed (use assms Response in \<open>simp_all add: validate_eval\<close>)
next
  case (Publication dev boot up sq r)
  then show ?thesis using assms by (cases r) (simp_all add: validate_eval)
qed

lemma validate_Inr_iff: "validate m f = Inr () \<longleftrightarrow> (\<exists>msg. message_ok msg \<and> m = to_envelope f msg)"
  using validate_complete validate_sound by blast

lemma reading_status_inj: "reading_status a = reading_status b \<longleftrightarrow> a = b"
  by (cases a; cases b) simp_all

lemma report_fields_inj:
  "(report_fields a m)\<lparr>kind := k\<rparr> = (report_fields b m)\<lparr>kind := j\<rparr> \<Longrightarrow>
    status_body m = None \<Longrightarrow> health_body m = None \<Longrightarrow> a = b"
  by (cases a; cases b; drule arg_cong [of _ _ "\<lambda>m. (status_body m, health_body m)"])
    (auto simp: reading_status_inj split: if_splits)

fun message_device :: "message \<Rightarrow> bytes" where
  "message_device (Request dev _ _ _) = dev"
| "message_device (Response dev _ _ _ _ _) = dev"
| "message_device (Publication dev _ _ _ _) = dev"

fun message_code :: "message \<Rightarrow> i32" where
  "message_code (Request _ _ _ op) = (case op of Ask_Info \<Rightarrow> 1 | Ask_Status \<Rightarrow> 2 | Ask_Health \<Rightarrow> 3)"
| "message_code (Response _ _ _ _ _ ans) =
     (case ans of Info_Answer _ \<Rightarrow> 11 | Report_Answer r \<Rightarrow> 11 + report_kind r | Error_Answer _ \<Rightarrow> 14)"
| "message_code (Publication _ _ _ _ r) = 20 + report_kind r"

lemma report_fields_other [simp]:
  "device_id (report_fields r m) = device_id m" "kind (report_fields r m) = kind m"
  by (cases r; simp)+

lemma device_id_to_envelope: "device_id (to_envelope f msg) = Some (message_device msg)"
  by (cases msg) (auto simp: Let_def split: operation.split answer.split)

lemma kind_to_envelope: "kind (to_envelope f msg) = Some (message_code msg)"
  by (cases msg) (auto simp: Let_def split: operation.split answer.split)

lemma message_code_role:
  "(i32_between 1 3 (message_code msg) \<longleftrightarrow> (\<exists>dev sess rid op. msg = Request dev sess rid op)) \<and>
   (i32_between 11 14 (message_code msg) \<or> message_code msg = 21 \<or> message_code msg = 22
     \<longleftrightarrow> \<not> (\<exists>dev sess rid op. msg = Request dev sess rid op))"
proof -
  have codes: "report_kind r = 1 \<or> report_kind r = 2" for r by (cases r) simp_all
  show ?thesis
  proof (cases msg)
    case (Request dev sess rid op)
    then show ?thesis by (cases op) (simp_all add: i32_between_range)
  next
    case (Response dev sess rid boot up ans)
    then show ?thesis
      using codes [of "case ans of Report_Answer r \<Rightarrow> r"]
      by (cases ans) (auto simp: i32_between_range)
  next
    case (Publication dev boot up sq r)
    then show ?thesis using codes [of r] by (auto simp: i32_between_range)
  qed
qed

declare to_envelope.simps [simp del]

section \<open>Properties\<close>

text \<open>C36: validation accepts an envelope exactly when it is the layout of a well-formed protocol
  message: a request, a response or a publication with a known kind, exactly the one body
  that belongs to it, the identifiers its role needs and no others, and every value in
  its range.\<close>
theorem validate_accepts_protocol:
  "validate m f = Inr () \<longleftrightarrow> (\<exists>msg. message_ok msg \<and> m = to_envelope f msg)"
  by (rule validate_Inr_iff)

text \<open>Rejection is a version error exactly when a version is present and is not 1, and a
  validation error in every other case; validation reports no other error.\<close>
theorem validate_error_order:
  "(validate m f = Inl Version \<longleftrightarrow> protocol_version m \<notin> {None, Some 1}) \<and>
   validate m f \<notin> Inl ` {Crc, Decode, Size}"
proof -
  have "validate m f = Inl Version" if "protocol_version m \<notin> {None, Some 1}"
    using that by (simp add: validate_def)
  moreover have "protocol_version m \<noteq> Some 1 \<and> protocol_version m \<noteq> None" if "validate m f = Inl Version"
    using that validate_errors [OF that]
    by (auto simp: validate_def r_bind_Inl_iff ok_or_def Let_def check_opt_def validate_info_def
      validate_status_def validate_health_def validate_error_def split: if_splits option.splits)
  ultimately show ?thesis using validate_errors by fastforce
qed

text \<open>In a validated message every status is marked synthetic; it carries a temperature
  exactly when its validity is \<open>valid\<close>, and that temperature is a finite number between
  -100 and 200 degrees as real numbers.\<close>
theorem validated_temperature:
  assumes "validate m f = Inr ()" and "status_body m = Some s"
  shows "synthetic s = Some True \<and> validity s \<in> {Some 1, Some 2, Some 3} \<and>
    (temperature_celsius s \<noteq> None \<longleftrightarrow> validity s = Some 1) \<and>
    (\<forall>t. temperature_celsius s = Some t \<longrightarrow>
      f32_is_finite t \<and> - 100 \<le> f32_val t \<and> f32_val t \<le> 200)"
proof -
  have "validate_status s = Inr ()" using assms by (simp add: validate_iff)
  then have eq: "s = reading_status (status_reading s)" and ok: "report_ok (Status_Report (status_reading s))"
    by (simp_all add: validate_status_iff)
  have range: "- 100 \<le> f32_val t \<and> f32_val t \<le> 200" if "temperature_ok t" for t
    using that f32_le_iff_val [of f32_minus_100 t] f32_le_iff_val [of t f32_200]
    by (simp add: temperature_ok_def f32_val_200 f32_val_minus_100)
  show ?thesis
    using ok range by (subst (1 2 3 4 5) eq, cases "status_reading s") (auto simp: temperature_ok_def)
qed

theorem validated_temperature_witness:
  "let m = to_envelope Csv (Publication (lit ''board'') (lit ''0123456789abcdef'') 5 1 (Status_Report (Measured f32_25)))
   in validate m Csv = Inr () \<and> f32_val f32_25 \<le> 200 \<and> - 100 \<le> f32_val f32_25"
proof -
  let ?msg = "Publication (lit ''board'') (lit ''0123456789abcdef'') 5 1 (Status_Report (Measured f32_25))"
  have "message_ok ?msg"
    by (simp add: device_name_def hex_token_def ascii_defs temperature_ok_def f32_le_def f32_is_nan_def
        f32_is_finite_def f32_exponent_def f32_key_def f32_negative_def f32_magnitude_def)
  then have ok: "validate (to_envelope Csv ?msg) Csv = Inr ()" by (rule validate_sound)
  show ?thesis
    using validated_temperature [OF ok, of "reading_status (Measured f32_25)"] ok
    by (simp add: to_envelope.simps envelope_default_def)
qed

end
