(* ===== verification/Cells.thy ===== *)
theory Cells
  imports Validation
begin

text \<open>
  \<^verbatim>\<open>Rust/messaging/src/cells.rs\<close> and the cell conversions of
  \<^verbatim>\<open>generated/model.rs\<close>: a message as the list of its text cells.  A cell
  (\<^verbatim>\<open>Text\<close>) holds at most 128 bytes and a row (\<^verbatim>\<open>Cells\<close>) at most 16 cells.  The
  shortest decimal text of a float comes from the \<^verbatim>\<open>ryu\<close> crate and is the parameter
  \<open>ryu\<close>.
\<close>

section \<open>Reading and writing one cell\<close>

definition push_str :: "bytes \<Rightarrow> bytes \<Rightarrow> codec_error + bytes" where
  "push_str text s = (if length text + length s \<le> 128 then Inr (text @ s) else Inl Size)"

definition read_integer :: "(bytes \<Rightarrow> 'a option) \<Rightarrow> ('a \<Rightarrow> bytes) \<Rightarrow> bytes \<Rightarrow> codec_error + 'a" where
  "read_integer from_str display text =
    r_bind (ok_or (from_str text) Decode) (\<lambda>value.
    r_bind (push_str [] (display value)) (\<lambda>canonical.
      if canonical \<noteq> text then Inl Decode else Inr value))"

definition read_u32 :: "bytes \<Rightarrow> codec_error + u32" where
  "read_u32 = read_integer u32_from_str show_u32"

definition read_i32 :: "bytes \<Rightarrow> codec_error + i32" where
  "read_i32 = read_integer i32_from_str show_i32"

definition read_bool :: "bytes \<Rightarrow> codec_error + bool" where
  "read_bool text =
    (if text = lit ''true'' then Inr True
     else if text = lit ''false'' then Inr False
     else Inl Decode)"

definition read_f32 :: "bytes \<Rightarrow> codec_error + f32" where
  "read_f32 text = ok_or (f32_from_str text) Decode"

definition read_str :: "nat \<Rightarrow> bytes \<Rightarrow> codec_error + bytes" where
  "read_str n text = (if length text \<le> n then Inr text else Inl Decode)"

definition write_u32 :: "u32 \<Rightarrow> bytes \<Rightarrow> codec_error + bytes" where
  "write_u32 v text = push_str text (show_u32 v)"

definition write_i32 :: "i32 \<Rightarrow> bytes \<Rightarrow> codec_error + bytes" where
  "write_i32 v text = push_str text (show_i32 v)"

definition write_bool :: "bool \<Rightarrow> bytes \<Rightarrow> codec_error + bytes" where
  "write_bool v text = push_str text (if v then lit ''true'' else lit ''false'')"

definition write_f32 :: "(f32 \<Rightarrow> bytes) \<Rightarrow> f32 \<Rightarrow> bytes \<Rightarrow> codec_error + bytes" where
  "write_f32 ryu v text = push_str text (ryu v)"

definition write_str :: "bytes \<Rightarrow> bytes \<Rightarrow> codec_error + bytes" where
  "write_str v text = push_str text v"

definition cell :: "(bytes \<Rightarrow> codec_error + 'a) \<Rightarrow> bytes \<Rightarrow> codec_error + 'a option" where
  "cell read text =
    (if text = [] then Inr None else r_bind (read text) (\<lambda>v. Inr (Some v)))"

definition push_cell ::
  "('a \<Rightarrow> bytes \<Rightarrow> codec_error + bytes) \<Rightarrow> bytes list \<Rightarrow> 'a option \<Rightarrow> codec_error + bytes list" where
  "push_cell write cells value =
    r_bind (case value of None \<Rightarrow> Inr [] | Some v \<Rightarrow> write v []) (\<lambda>text.
      if length cells < 16 then Inr (cells @ [text]) else Inl Size)"

section \<open>A message as cells\<close>

definition push_info :: "bytes list \<Rightarrow> device_info \<Rightarrow> codec_error + bytes list" where
  "push_info cells body =
    r_bind (push_cell write_str cells (firmware_version body)) (\<lambda>cells.
    push_cell write_i32 cells (encoding body))"

definition push_status :: "(f32 \<Rightarrow> bytes) \<Rightarrow> bytes list \<Rightarrow> status \<Rightarrow> codec_error + bytes list" where
  "push_status ryu cells body =
    r_bind (push_cell (write_f32 ryu) cells (temperature_celsius body)) (\<lambda>cells.
    r_bind (push_cell write_i32 cells (validity body)) (\<lambda>cells.
    push_cell write_bool cells (synthetic body)))"

definition push_health :: "bytes list \<Rightarrow> health \<Rightarrow> codec_error + bytes list" where
  "push_health cells body =
    r_bind (push_cell write_i32 cells (health_state body)) (\<lambda>cells.
    r_bind (push_cell write_u32 cells (received_requests body)) (\<lambda>cells.
    r_bind (push_cell write_u32 cells (rejected_datagrams body)) (\<lambda>cells.
    r_bind (push_cell write_u32 cells (send_errors body)) (\<lambda>cells.
    push_cell write_u32 cells (skipped_publications body)))))"

text \<open>The two parts of \<^verbatim>\<open>to_cells\<close>: the eight header cells, then the cells of the one body.\<close>

definition push_header :: "envelope \<Rightarrow> codec_error + bytes list" where
  "push_header m =
    r_bind (push_cell write_u32 [] (protocol_version m)) (\<lambda>cells.
    r_bind (push_cell write_i32 cells (kind m)) (\<lambda>cells.
    r_bind (push_cell write_str cells (device_id m)) (\<lambda>cells.
    r_bind (push_cell write_str cells (boot_id m)) (\<lambda>cells.
    r_bind (push_cell write_str cells (client_session m)) (\<lambda>cells.
    r_bind (push_cell write_u32 cells (request_id m)) (\<lambda>cells.
    r_bind (push_cell write_u32 cells (sequence m)) (\<lambda>cells.
    push_cell write_u32 cells (uptime_ms m))))))))"

definition push_body :: "(f32 \<Rightarrow> bytes) \<Rightarrow> envelope \<Rightarrow> bytes list \<Rightarrow> codec_error + bytes list" where
  "push_body ryu m cells =
    (case kind m of
       None \<Rightarrow> Inl Validation
     | Some k \<Rightarrow>
         if k = 1 then r_bind (ok_or (get_device_info m) Validation) (\<lambda>_. Inr cells)
         else if k = 2 then r_bind (ok_or (get_status m) Validation) (\<lambda>_. Inr cells)
         else if k = 3 then r_bind (ok_or (get_health m) Validation) (\<lambda>_. Inr cells)
         else if k = 11 then r_bind (ok_or (device_info_body m) Validation) (push_info cells)
         else if k = 12 \<or> k = 21
         then r_bind (ok_or (status_body m) Validation) (push_status ryu cells)
         else if k = 13 \<or> k = 22
         then r_bind (ok_or (health_body m) Validation) (push_health cells)
         else if k = 14
         then r_bind (ok_or (error_body m) Validation)
           (\<lambda>body. push_cell write_i32 cells (error_code body))
         else Inl Validation)"

definition to_cells :: "(f32 \<Rightarrow> bytes) \<Rightarrow> envelope \<Rightarrow> codec_error + bytes list" where
  "to_cells ryu m = r_bind (push_header m) (push_body ryu m)"

definition read_info :: "bytes list \<Rightarrow> codec_error + device_info" where
  "read_info cells =
    r_bind (cell (read_str 32) (cells ! 8)) (\<lambda>fw.
    r_bind (cell read_i32 (cells ! 9)) (\<lambda>enc.
    Inr \<lparr>firmware_version = fw, encoding = enc\<rparr>))"

definition read_status :: "bytes list \<Rightarrow> codec_error + status" where
  "read_status cells =
    r_bind (cell read_f32 (cells ! 8)) (\<lambda>t.
    r_bind (cell read_i32 (cells ! 9)) (\<lambda>v.
    r_bind (cell read_bool (cells ! 10)) (\<lambda>s.
    Inr \<lparr>temperature_celsius = t, validity = v, synthetic = s\<rparr>)))"

definition read_health :: "bytes list \<Rightarrow> codec_error + health" where
  "read_health cells =
    r_bind (cell read_i32 (cells ! 8)) (\<lambda>st.
    r_bind (cell read_u32 (cells ! 9)) (\<lambda>a.
    r_bind (cell read_u32 (cells ! 10)) (\<lambda>b.
    r_bind (cell read_u32 (cells ! 11)) (\<lambda>c.
    r_bind (cell read_u32 (cells ! 12)) (\<lambda>d.
    Inr \<lparr>health_state = st, received_requests = a, rejected_datagrams = b, send_errors = c,
      skipped_publications = d\<rparr>)))))"

definition read_body :: "bytes list \<Rightarrow> envelope \<Rightarrow> codec_error + envelope" where
  "read_body cells out =
    (case kind out of
       None \<Rightarrow> Inl Validation
     | Some k \<Rightarrow>
         if k = 1 then
           (if length cells \<noteq> 8 then Inl Decode else Inr (out\<lparr>get_device_info := Some Empty\<rparr>))
         else if k = 2 then
           (if length cells \<noteq> 8 then Inl Decode else Inr (out\<lparr>get_status := Some Empty\<rparr>))
         else if k = 3 then
           (if length cells \<noteq> 8 then Inl Decode else Inr (out\<lparr>get_health := Some Empty\<rparr>))
         else if k = 11 then
           (if length cells \<noteq> 10 then Inl Decode
            else r_bind (read_info cells) (\<lambda>b. Inr (out\<lparr>device_info_body := Some b\<rparr>)))
         else if k = 12 \<or> k = 21 then
           (if length cells \<noteq> 11 then Inl Decode
            else r_bind (read_status cells) (\<lambda>b. Inr (out\<lparr>status_body := Some b\<rparr>)))
         else if k = 13 \<or> k = 22 then
           (if length cells \<noteq> 13 then Inl Decode
            else r_bind (read_health cells) (\<lambda>b. Inr (out\<lparr>health_body := Some b\<rparr>)))
         else if k = 14 then
           (if length cells \<noteq> 9 then Inl Decode
            else r_bind (cell read_i32 (cells ! 8))
              (\<lambda>c. Inr (out\<lparr>error_body := Some \<lparr>error_code = c\<rparr>\<rparr>)))
         else Inl Validation)"

definition from_cells :: "bytes list \<Rightarrow> codec_error + envelope" where
  "from_cells cells =
    (if length cells < 8 then Inl Decode
     else
       r_bind (cell read_u32 (cells ! 0)) (\<lambda>pv.
       r_bind (cell read_i32 (cells ! 1)) (\<lambda>kd.
       r_bind (cell (read_str 32) (cells ! 2)) (\<lambda>dev.
       r_bind (cell (read_str 16) (cells ! 3)) (\<lambda>boot.
       r_bind (cell (read_str 16) (cells ! 4)) (\<lambda>sess.
       r_bind (cell read_u32 (cells ! 5)) (\<lambda>rid.
       r_bind (cell read_u32 (cells ! 6)) (\<lambda>sq.
       r_bind (cell read_u32 (cells ! 7)) (\<lambda>up.
         read_body cells (envelope_default\<lparr>protocol_version := pv, kind := kd, device_id := dev,
           boot_id := boot, client_session := sess, request_id := rid, sequence := sq,
           uptime_ms := up\<rparr>))))))))))"

section \<open>The cell types\<close>

text \<open>
  The contract of the \<^verbatim>\<open>Cell\<close> trait: a value that is good for the type is written as a
  nonempty text that reads back as the value.
\<close>

definition text_ok :: "bytes \<Rightarrow> bool" where
  "text_ok t \<longleftrightarrow> line_text t \<and> length t \<le> 128"

lemma text_ok_Nil [simp]: "text_ok []"
  by (simp add: text_ok_def)

locale cell_type =
  fixes rd :: "bytes \<Rightarrow> codec_error + 'a"
    and wr :: "'a \<Rightarrow> bytes \<Rightarrow> codec_error + bytes"
    and good :: "'a \<Rightarrow> bool"
  assumes write_read: "good v \<Longrightarrow> \<exists>t. wr v [] = Inr t \<and> t \<noteq> [] \<and> rd t = Inr v \<and> text_ok t"
begin

lemma push_good:
  assumes "\<forall>v. x = Some v \<longrightarrow> good v" and "length cells < 16"
  obtains t where "push_cell wr cells x = Inr (cells @ [t])" and "cell rd t = Inr x" and "text_ok t"
proof (cases x)
  case None
  then show ?thesis using that [of "[]"] assms by (simp add: push_cell_def cell_def)
next
  case (Some v)
  obtain t where "wr v [] = Inr t" "t \<noteq> []" "rd t = Inr v" "text_ok t"
    using write_read assms(1) Some by blast
  then show ?thesis using that [of t] assms(2) Some by (simp add: push_cell_def cell_def)
qed

lemma push_wp:
  assumes "\<And>v. x = Some v \<Longrightarrow> good v" and "length cells < 16"
    and "\<And>t. cell rd t = Inr x \<Longrightarrow> text_ok t \<Longrightarrow> returns q (f (cells @ [t]))"
  shows "returns q (r_bind (push_cell wr cells x) f)"
proof -
  obtain t where "push_cell wr cells x = Inr (cells @ [t])" and "cell rd t = Inr x" and "text_ok t"
    using push_good [of x cells] assms(1,2) by blast
  then show ?thesis using assms(3) by simp
qed

lemma push_last_wp:
  assumes "\<And>v. x = Some v \<Longrightarrow> good v" and "length cells < 16"
    and "\<And>t. cell rd t = Inr x \<Longrightarrow> text_ok t \<Longrightarrow> q (cells @ [t])"
  shows "returns q (push_cell wr cells x)"
  using push_wp [of x cells q Inr] assms by (cases "push_cell wr cells x") simp_all

end

locale canonical_cell = cell_type +
  fixes canonical :: bool
  assumes read_write: "canonical \<Longrightarrow> rd t = Inr v \<Longrightarrow> wr v [] = Inr t"
begin

lemma push_read:
  assumes "cell rd t = Inr x" and "length cells < 16" and canonical
  shows "push_cell wr cells x = Inr (cells @ [t])"
  using assms read_write
  by (cases x) (auto simp: cell_def push_cell_def r_bind_Inr_iff split: if_splits)

end

lemma push_str_Inr_iff [simp]:
  "push_str text s = Inr t \<longleftrightarrow> length text + length s \<le> 128 \<and> t = text @ s"
  by (auto simp: push_str_def)

lemma length_digits: "n < 10 ^ k \<Longrightarrow> length (digits n) \<le> max 1 k"
proof (induction k arbitrary: n)
  case 0
  then show ?case by (subst digits.simps) simp
next
  case (Suc k)
  have "n div 10 < 10 ^ k" using Suc.prems by (simp add: less_mult_imp_div_less mult.commute)
  from Suc.IH [OF this] show ?case
    using Suc.prems by (subst digits.simps) (cases k; auto)
qed

lemma length_show_u32: "length (show_u32 w) \<le> 10"
  using length_digits [of "unat w" 10] unat_u32_bound [of w] by (simp add: show_u32_def)

lemma length_show_i32: "length (show_i32 w) \<le> 11"
proof -
  have "- (2 ^ 31) \<le> sint w" "sint w < 2 ^ 31" using sint_ge [of w] sint_less [of w] by simp_all
  then have "nat (- sint w) < 10 ^ 10" "nat (sint w) < 10 ^ 10" by simp_all
  then show ?thesis
    using length_digits [of "nat (- sint w)" 10] length_digits [of "nat (sint w)" 10]
    by (simp add: show_i32_def)
qed

lemma show_nonempty [simp]: "show_u32 w \<noteq> []" "show_i32 w \<noteq> []"
  by (simp_all add: show_u32_def show_i32_def)

lemma read_u32_iff: "read_u32 t = Inr v \<longleftrightarrow> t = show_u32 v"
proof -
  have "length (show_u32 v) \<le> 128" using length_show_u32 [of v] by simp
  then show ?thesis
    by (auto simp: read_u32_def read_integer_def r_bind_Inr_iff ok_or_Inr_iff)
qed

lemma read_i32_iff: "read_i32 t = Inr v \<longleftrightarrow> t = show_i32 v"
proof -
  have "length (show_i32 v) \<le> 128" using length_show_i32 [of v] by simp
  then show ?thesis
    by (auto simp: read_i32_def read_integer_def r_bind_Inr_iff ok_or_Inr_iff)
qed

lemma read_bool_iff: "read_bool t = Inr v \<longleftrightarrow> t = (if v then lit ''true'' else lit ''false'')"
  by (auto simp: read_bool_def)

lemma read_str_iff: "read_str n t = Inr v \<longleftrightarrow> t = v \<and> length v \<le> n"
  by (auto simp: read_str_def)

lemma text_ok_show: "text_ok (show_u32 w)" "text_ok (show_i32 w)"
proof -
  have "is_printable 45" by (simp add: is_printable_def)
  then show "text_ok (show_u32 w)" "text_ok (show_i32 w)"
    using show_u32_plain [of w] show_i32_plain [of w] length_show_u32 [of w] length_show_i32 [of w]
    by (auto simp: text_ok_def digit_printable intro!: line_text_printable)
qed

interpretation u32_cell: canonical_cell read_u32 write_u32 "\<lambda>_. True" True
  by unfold_locales
    (simp_all add: write_u32_def read_u32_iff text_ok_show length_show_u32 [THEN order_trans])

interpretation i32_cell: canonical_cell read_i32 write_i32 "\<lambda>_. True" True
  by unfold_locales
    (simp_all add: write_i32_def read_i32_iff text_ok_show length_show_i32 [THEN order_trans])

interpretation bool_cell: canonical_cell read_bool write_bool "\<lambda>_. True" True
  by unfold_locales
    (auto simp: write_bool_def read_bool_iff text_ok_def is_printable_def intro!: line_text_printable)

interpretation str_cell: canonical_cell "read_str n" write_str
  "\<lambda>v. v \<noteq> [] \<and> length v \<le> n \<and> n \<le> 128 \<and> line_text v" "n \<le> 128" for n
  by unfold_locales (auto simp: write_str_def read_str_iff text_ok_def)

definition ryu_reads_back :: "(f32 \<Rightarrow> bytes) \<Rightarrow> f32 \<Rightarrow> bool" where
  "ryu_reads_back ryu v \<longleftrightarrow> f32_from_str (ryu v) = Some v \<and> text_ok (ryu v)"

lemma f32_from_str_Nil [simp]: "f32_from_str [] = None"
  by (simp add: f32_from_str_def parse_unsigned_f32_def)

interpretation f32_cell: cell_type read_f32 "write_f32 ryu" "ryu_reads_back ryu" for ryu
proof unfold_locales
  fix v
  assume "ryu_reads_back ryu v"
  then show "\<exists>t. write_f32 ryu v [] = Inr t \<and> t \<noteq> [] \<and> read_f32 t = Inr v \<and> text_ok t"
    by (intro exI [of _ "ryu v"])
      (auto simp: ryu_reads_back_def write_f32_def read_f32_def ok_or_Inr_iff text_ok_def)
qed

section \<open>Round trips\<close>

definition header_reads :: "envelope \<Rightarrow> bytes list \<Rightarrow> bool" where
  "header_reads m cs \<longleftrightarrow> cell read_u32 (cs ! 0) = Inr (protocol_version m) \<and>
    cell read_i32 (cs ! 1) = Inr (kind m) \<and> cell (read_str 32) (cs ! 2) = Inr (device_id m) \<and>
    cell (read_str 16) (cs ! 3) = Inr (boot_id m) \<and>
    cell (read_str 16) (cs ! 4) = Inr (client_session m) \<and>
    cell read_u32 (cs ! 5) = Inr (request_id m) \<and> cell read_u32 (cs ! 6) = Inr (sequence m) \<and>
    cell read_u32 (cs ! 7) = Inr (uptime_ms m)"

definition header_of :: "envelope \<Rightarrow> envelope" where
  "header_of m = envelope_default\<lparr>protocol_version := protocol_version m, kind := kind m,
    device_id := device_id m, boot_id := boot_id m, client_session := client_session m,
    request_id := request_id m, sequence := sequence m, uptime_ms := uptime_ms m\<rparr>"

lemma from_cells_iff:
  "from_cells cs = Inr m \<longleftrightarrow> 8 \<le> length cs \<and>
    (\<exists>h. header_reads h cs \<and> read_body cs (header_of h) = Inr m)"
proof
  assume l: "from_cells cs = Inr m"
  then obtain pv kd dev boot sess rid sq up where
    "8 \<le> length cs" "cell read_u32 (cs ! 0) = Inr pv" "cell read_i32 (cs ! 1) = Inr kd"
    "cell (read_str 32) (cs ! 2) = Inr dev" "cell (read_str 16) (cs ! 3) = Inr boot"
    "cell (read_str 16) (cs ! 4) = Inr sess" "cell read_u32 (cs ! 5) = Inr rid"
    "cell read_u32 (cs ! 6) = Inr sq" "cell read_u32 (cs ! 7) = Inr up"
    "read_body cs (envelope_default\<lparr>protocol_version := pv, kind := kd, device_id := dev,
       boot_id := boot, client_session := sess, request_id := rid, sequence := sq, uptime_ms := up\<rparr>) = Inr m"
    unfolding from_cells_def r_bind_Inr_iff if_Inl_iff
    by (auto simp: r_bind_Inr_iff split: if_splits)
  then show "8 \<le> length cs \<and> (\<exists>h. header_reads h cs \<and> read_body cs (header_of h) = Inr m)"
    by (intro conjI exI [of _ "envelope_default\<lparr>protocol_version := pv, kind := kd, device_id := dev,
       boot_id := boot, client_session := sess, request_id := rid, sequence := sq, uptime_ms := up\<rparr>"])
      (simp_all add: header_reads_def header_of_def envelope_default_def)
next
  assume "8 \<le> length cs \<and> (\<exists>h. header_reads h cs \<and> read_body cs (header_of h) = Inr m)"
  then show "from_cells cs = Inr m"
    by (auto simp: from_cells_def header_reads_def header_of_def)
qed

lemmas push_rules = u32_cell.push_wp u32_cell.push_last_wp i32_cell.push_wp i32_cell.push_last_wp
  bool_cell.push_wp bool_cell.push_last_wp f32_cell.push_wp f32_cell.push_last_wp

lemma push_header_good:
  assumes "\<And>v. device_id m = Some v \<Longrightarrow> v \<noteq> [] \<and> length v \<le> 32 \<and> line_text v"
    and "\<And>v. boot_id m = Some v \<Longrightarrow> v \<noteq> [] \<and> length v \<le> 16 \<and> line_text v"
    and "\<And>v. client_session m = Some v \<Longrightarrow> v \<noteq> [] \<and> length v \<le> 16 \<and> line_text v"
  shows "returns (\<lambda>cs. length cs = 8 \<and> header_reads m cs \<and> list_all text_ok cs) (push_header m)"
  unfolding push_header_def
  by (intro push_rules str_cell.push_wp [where n = 32 and x = "device_id m"]
      str_cell.push_wp [where n = 16 and x = "boot_id m"]
      str_cell.push_wp [where n = 16 and x = "client_session m"])
    (simp_all add: assms header_reads_def)

lemma header_reads_append: "length cs = 8 \<Longrightarrow> header_reads m (cs @ ts) \<longleftrightarrow> header_reads m cs"
  by (simp add: header_reads_def nth_append)

lemma push_info_good:
  assumes "\<And>v. firmware_version i = Some v \<Longrightarrow> v \<noteq> [] \<and> length v \<le> 32 \<and> line_text v" and "length cells = 8" and "list_all text_ok cells"
  shows "returns (\<lambda>cs. length cs = 10 \<and> take 8 cs = cells \<and> read_info cs = Inr i \<and> list_all text_ok cs) (push_info cells i)"
  unfolding push_info_def
  by (intro push_rules str_cell.push_wp [where n = 32 and x = "firmware_version i"])
    (simp_all add: assms read_info_def nth_append)

lemma push_status_good:
  assumes "\<And>v. temperature_celsius s = Some v \<Longrightarrow> ryu_reads_back ryu v" and "length cells = 8" and "list_all text_ok cells"
  shows "returns (\<lambda>cs. length cs = 11 \<and> take 8 cs = cells \<and> read_status cs = Inr s \<and> list_all text_ok cs) (push_status ryu cells s)"
  unfolding push_status_def
  by (intro push_rules) (simp_all add: assms read_status_def nth_append)

lemma push_health_good:
  assumes "length cells = 8" and "list_all text_ok cells"
  shows "returns (\<lambda>cs. length cs = 13 \<and> take 8 cs = cells \<and> read_health cs = Inr h \<and> list_all text_ok cs) (push_health cells h)"
  unfolding push_health_def
  by (intro push_rules) (simp_all add: assms read_health_def nth_append)

lemma kind_body_cases:
  "kind_body m k \<Longrightarrow> k \<in> {1, 2, 3, 11, 12, 13, 14, 21, 22}"
  by (auto simp: kind_body_def split: if_splits)

lemma body_only:
  assumes "body_count m = 1" and "kind_body m k"
  shows "k = 1 \<Longrightarrow> m = (header_of m)\<lparr>get_device_info := Some Empty\<rparr>"
    "k = 2 \<Longrightarrow> m = (header_of m)\<lparr>get_status := Some Empty\<rparr>"
    "k = 3 \<Longrightarrow> m = (header_of m)\<lparr>get_health := Some Empty\<rparr>"
    "k = 11 \<Longrightarrow> \<exists>b. device_info_body m = Some b \<and> m = (header_of m)\<lparr>device_info_body := Some b\<rparr>"
    "k = 12 \<or> k = 21 \<Longrightarrow> \<exists>b. status_body m = Some b \<and> m = (header_of m)\<lparr>status_body := Some b\<rparr>"
    "k = 13 \<or> k = 22 \<Longrightarrow> \<exists>b. health_body m = Some b \<and> m = (header_of m)\<lparr>health_body := Some b\<rparr>"
    "k = 14 \<Longrightarrow> \<exists>c. error_body m = Some \<lparr>error_code = c\<rparr> \<and>
      m = (header_of m)\<lparr>error_body := Some \<lparr>error_code = c\<rparr>\<rparr>"
proof -
  note b = body_count_one [OF assms]
  show "k = 1 \<Longrightarrow> m = (header_of m)\<lparr>get_device_info := Some Empty\<rparr>"
    "k = 2 \<Longrightarrow> m = (header_of m)\<lparr>get_status := Some Empty\<rparr>"
    "k = 3 \<Longrightarrow> m = (header_of m)\<lparr>get_health := Some Empty\<rparr>"
    by (subst envelope.surjective [of m], simp add: b header_of_def envelope_default_def)+
  show "\<exists>b. device_info_body m = Some b \<and> m = (header_of m)\<lparr>device_info_body := Some b\<rparr>" if kk: "k = 11"
  proof -
    obtain i where i: "device_info_body m = Some i" using b kk by auto
    have "m = (header_of m)\<lparr>device_info_body := Some i\<rparr>"
      by (subst envelope.surjective [of m]) (use b i kk in \<open>simp add: header_of_def envelope_default_def\<close>)
    then show ?thesis using i by blast
  qed
  show "\<exists>b. status_body m = Some b \<and> m = (header_of m)\<lparr>status_body := Some b\<rparr>" if kk: "k = 12 \<or> k = 21"
  proof -
    obtain i where i: "status_body m = Some i" using b kk by auto
    have "m = (header_of m)\<lparr>status_body := Some i\<rparr>"
      by (subst envelope.surjective [of m]) (use b i kk in \<open>auto simp: header_of_def envelope_default_def\<close>)
    then show ?thesis using i by blast
  qed
  show "\<exists>b. health_body m = Some b \<and> m = (header_of m)\<lparr>health_body := Some b\<rparr>" if kk: "k = 13 \<or> k = 22"
  proof -
    obtain i where i: "health_body m = Some i" using b kk by auto
    have "m = (header_of m)\<lparr>health_body := Some i\<rparr>"
      by (subst envelope.surjective [of m]) (use b i kk in \<open>auto simp: header_of_def envelope_default_def\<close>)
    then show ?thesis using i by blast
  qed
  assume "k = 14"
  then obtain e where e: "error_body m = Some e" using b by auto
  have "m = (header_of m)\<lparr>error_body := Some e\<rparr>"
    by (subst envelope.surjective [of m]) (use b e \<open>k = 14\<close> in \<open>simp add: header_of_def envelope_default_def\<close>)
  then show "\<exists>c. error_body m = Some \<lparr>error_code = c\<rparr> \<and>
      m = (header_of m)\<lparr>error_body := Some \<lparr>error_code = c\<rparr>\<rparr>"
    using e by (cases e) auto
qed

lemma push_body_good:
  assumes "body_count m = 1" and "kind_body m k" and k: "kind m = Some k" and c: "length cells = 8" and ok: "list_all text_ok cells"
    and info: "\<And>i v. device_info_body m = Some i \<Longrightarrow> firmware_version i = Some v \<Longrightarrow> v \<noteq> [] \<and> length v \<le> 32 \<and> line_text v"
    and temp: "\<And>s v. status_body m = Some s \<Longrightarrow> temperature_celsius s = Some v \<Longrightarrow> ryu_reads_back ryu v"
  shows "returns (\<lambda>cs. length cs \<le> 13 \<and> take 8 cs = cells \<and> read_body cs (header_of m) = Inr m \<and> list_all text_ok cs)
    (push_body ryu m cells)"
proof -
  note only = body_only [OF assms(1,2)]
  have hk: "kind (header_of m) = Some k" by (simp add: header_of_def k)
  consider "k \<in> {1, 2, 3}" | "k = 11" | "k = 12 \<or> k = 21" | "k = 13 \<or> k = 22" | "k = 14"
    using kind_body_cases [OF assms(2)] by auto
  then show ?thesis
  proof cases
    case 1
    then have "push_body ryu m cells = Inr cells"
      using body_count_one [OF assms(1,2)] by (auto simp: push_body_def k)
    moreover have "read_body cells (header_of m) = Inr m"
      using 1 only(1-3) c by (auto simp: read_body_def hk)
    ultimately show ?thesis using c ok by simp
  next
    case 2
    obtain b where b: "device_info_body m = Some b" "(header_of m)\<lparr>device_info_body := Some b\<rparr> = m"
      using only(4) [OF 2] by metis
    have "returns (\<lambda>cs. length cs = 10 \<and> take 8 cs = cells \<and> read_info cs = Inr b \<and> list_all text_ok cs) (push_info cells b)"
      by (rule push_info_good) (use info b(1) c ok in auto)
    then show ?thesis
      using 2 b by (auto simp: push_body_def read_body_def hk k elim!: returns_mono)
  next
    case 3
    obtain b where b: "status_body m = Some b" "(header_of m)\<lparr>status_body := Some b\<rparr> = m"
      using only(5) [OF 3] by metis
    have "returns (\<lambda>cs. length cs = 11 \<and> take 8 cs = cells \<and> read_status cs = Inr b \<and> list_all text_ok cs) (push_status ryu cells b)"
      by (rule push_status_good) (use temp b(1) c ok in auto)
    then show ?thesis
      using 3 b by (auto simp: push_body_def read_body_def hk k elim!: returns_mono)
  next
    case 4
    obtain b where b: "health_body m = Some b" "(header_of m)\<lparr>health_body := Some b\<rparr> = m"
      using only(6) [OF 4] by metis
    have "returns (\<lambda>cs. length cs = 13 \<and> take 8 cs = cells \<and> read_health cs = Inr b \<and> list_all text_ok cs) (push_health cells b)"
      by (rule push_health_good) (use c ok in auto)
    then show ?thesis
      using 4 b by (auto simp: push_body_def read_body_def hk k elim!: returns_mono)
  next
    case 5
    obtain e where b: "error_body m = Some \<lparr>error_code = e\<rparr>"
      "(header_of m)\<lparr>error_body := Some \<lparr>error_code = e\<rparr>\<rparr> = m"
      using only(7) [OF 5] by metis
    have "returns (\<lambda>cs. length cs = 9 \<and> take 8 cs = cells \<and> cell read_i32 (cs ! 8) = Inr e \<and> list_all text_ok cs)
        (push_cell write_i32 cells e)"
      by (intro push_rules) (simp_all add: c ok nth_append)
    then show ?thesis
      using 5 b by (auto simp: push_body_def read_body_def hk k elim!: returns_mono)
  qed
qed

lemma header_reads_take: "header_reads m (take 8 cs) \<longleftrightarrow> header_reads m cs"
  by (simp add: header_reads_def)

lemma valid_strings:
  assumes "validate m f = Inr ()" and "envelope_typed m"
  shows "device_id m = Some v \<Longrightarrow> v \<noteq> [] \<and> length v \<le> 32 \<and> line_text v"
    "boot_id m = Some v \<Longrightarrow> v \<noteq> [] \<and> length v \<le> 16 \<and> line_text v"
    "client_session m = Some v \<Longrightarrow> v \<noteq> [] \<and> length v \<le> 16 \<and> line_text v"
    "device_info_body m = Some i \<Longrightarrow> firmware_version i = Some v \<Longrightarrow> v \<noteq> [] \<and> length v \<le> 32 \<and> line_text v"
proof -
  obtain k where k: "kind m = Some k" "i32_between 1 3 k \<or> i32_between 11 14 k \<or> k = 21 \<or> k = 22"
    "i32_between 1 3 k \<longrightarrow> boot_id m = None \<and> correlation m"
    "i32_between 11 14 k \<longrightarrow> session (boot_id m) \<and> correlation m"
    "k = 21 \<or> k = 22 \<longrightarrow> session (boot_id m) \<and> client_session m = None"
    using assms(1) unfolding validate_iff by blast
  have tok: "hex_token v \<Longrightarrow> v \<noteq> [] \<and> length v \<le> 16 \<and> line_text v" for v
    using lower_hex_alphanumeric alphanumeric_printable
    by (auto simp: hex_token_def list_all_iff intro!: line_text_printable)
  have name: "device_name v \<Longrightarrow> v \<noteq> [] \<and> line_text v" for v
    using alphanumeric_printable
    by (auto simp: device_name_def list_all_iff is_printable_def intro!: line_text_printable)
  have print: "list_all is_printable v \<Longrightarrow> line_text v" for v
    by (auto simp: list_all_iff intro!: line_text_printable)
  show "device_id m = Some v \<Longrightarrow> v \<noteq> [] \<and> length v \<le> 32 \<and> line_text v"
    proof -
    assume v: "device_id m = Some v"
    then have "device_name v" using assms(1) by (simp add: validate_iff)
    then show ?thesis using v assms(2) name by (simp add: envelope_typed_def)
  qed
  show "boot_id m = Some v \<Longrightarrow> v \<noteq> [] \<and> length v \<le> 16 \<and> line_text v"
    using k tok by (auto simp: session_iff)
  show "client_session m = Some v \<Longrightarrow> v \<noteq> [] \<and> length v \<le> 16 \<and> line_text v"
    using k tok by (auto simp: correlation_iff)
  show "device_info_body m = Some i \<Longrightarrow> firmware_version i = Some v \<Longrightarrow> v \<noteq> [] \<and> length v \<le> 32 \<and> line_text v"
    using assms print by (auto simp: validate_iff envelope_typed_def validate_info_iff)
qed

lemma cells_round_trip:
  assumes "validate m f = Inr ()" and "envelope_typed m"
    and "\<And>s v. status_body m = Some s \<Longrightarrow> temperature_celsius s = Some v \<Longrightarrow> ryu_reads_back ryu v"
  shows "returns (\<lambda>cs. 8 \<le> length cs \<and> length cs \<le> 13 \<and> from_cells cs = Inr m \<and> list_all text_ok cs) (to_cells ryu m)"
proof -
  obtain k where k: "kind m = Some k" "kind_body m k" "body_count m = 1"
    using assms(1) unfolding validate_iff by blast
  have good: "returns (\<lambda>cs. length cs \<le> 13 \<and> take 8 cs = cells \<and> read_body cs (header_of m) = Inr m \<and> list_all text_ok cs)
    (push_body ryu m cells)" if "length cells = 8" "list_all text_ok cells" for cells
    by (rule push_body_good [OF k(3,2,1) that]) (use valid_strings [OF assms(1,2)] assms(3) in blast)+
  show ?thesis
    unfolding to_cells_def
  proof (rule returns_bind)
    show "returns (\<lambda>cs. length cs = 8 \<and> header_reads m cs \<and> list_all text_ok cs) (push_header m)"
      by (rule push_header_good) (use valid_strings [OF assms(1,2)] in blast)+
    fix cells
    assume c: "length cells = 8 \<and> header_reads m cells \<and> list_all text_ok cells"
    show "returns (\<lambda>cs. 8 \<le> length cs \<and> length cs \<le> 13 \<and> from_cells cs = Inr m \<and> list_all text_ok cs) (push_body ryu m cells)"
    proof (rule returns_mono [OF good])
      fix cs
      assume r: "length cs \<le> 13 \<and> take 8 cs = cells \<and> read_body cs (header_of m) = Inr m \<and> list_all text_ok cs"
      then have "8 \<le> length cs" using c by auto
      moreover have "header_reads m cs" using c r header_reads_take [of m cs] by simp
      ultimately show "8 \<le> length cs \<and> length cs \<le> 13 \<and> from_cells cs = Inr m \<and> list_all text_ok cs"
        using r by (auto simp: from_cells_iff)
    qed (use c in simp_all)
  qed
qed

lemma take_8: "8 \<le> length cs \<Longrightarrow> take 8 cs = [cs ! 0, cs ! 1, cs ! 2, cs ! 3, cs ! 4, cs ! 5, cs ! 6, cs ! 7]"
  by (rule nth_equalityI) (auto simp: nth_Cons' less_Suc_eq numeral_eq_Suc)

lemma push_header_read:
  assumes "header_reads m cs" and "8 \<le> length cs"
  shows "push_header m = Inr (take 8 cs)"
proof -
  have h: "cell read_u32 (cs ! 0) = Inr (protocol_version m)" "cell read_i32 (cs ! 1) = Inr (kind m)"
    "cell (read_str 32) (cs ! 2) = Inr (device_id m)" "cell (read_str 16) (cs ! 3) = Inr (boot_id m)"
    "cell (read_str 16) (cs ! 4) = Inr (client_session m)"
    "cell read_u32 (cs ! 5) = Inr (request_id m)" "cell read_u32 (cs ! 6) = Inr (sequence m)"
    "cell read_u32 (cs ! 7) = Inr (uptime_ms m)"
    using assms(1) by (simp_all add: header_reads_def)
  show ?thesis
    by (simp add: push_header_def take_8 [OF assms(2)]
        u32_cell.push_read [OF h(1)] i32_cell.push_read [OF h(2)] str_cell.push_read [OF h(3)]
        str_cell.push_read [OF h(4)] str_cell.push_read [OF h(5)] u32_cell.push_read [OF h(6)]
        u32_cell.push_read [OF h(7)] u32_cell.push_read [OF h(8)])
qed

lemma nth_split: "n < length cs \<Longrightarrow> take (Suc n) cs = take n cs @ [cs ! n]"
  by (rule take_Suc_conv_app_nth)

lemma push_info_read:
  assumes "read_info cs = Inr i" and "length cs = 10"
  shows "push_info (take 8 cs) i = Inr cs"
proof -
  have h: "cell (read_str 32) (cs ! 8) = Inr (firmware_version i)" "cell read_i32 (cs ! 9) = Inr (encoding i)"
    using assms(1) by (auto simp: read_info_def r_bind_Inr_iff)
  have cs: "cs = take 8 cs @ [cs ! 8, cs ! 9]"
    using assms(2) nth_split [of 8 cs] nth_split [of 9 cs] by simp
  show ?thesis
    by (subst (2) cs) (simp add: push_info_def assms(2) str_cell.push_read [OF h(1)] i32_cell.push_read [OF h(2)])
qed

lemma push_health_read:
  assumes "read_health cs = Inr b" and "length cs = 13"
  shows "push_health (take 8 cs) b = Inr cs"
proof -
  have h: "cell read_i32 (cs ! 8) = Inr (health_state b)" "cell read_u32 (cs ! 9) = Inr (received_requests b)"
    "cell read_u32 (cs ! 10) = Inr (rejected_datagrams b)" "cell read_u32 (cs ! 11) = Inr (send_errors b)"
    "cell read_u32 (cs ! 12) = Inr (skipped_publications b)"
    using assms(1) by (auto simp: read_health_def r_bind_Inr_iff)
  have cs: "cs = take 8 cs @ [cs ! 8, cs ! 9, cs ! 10, cs ! 11, cs ! 12]"
    using assms(2) nth_split [of 8 cs] nth_split [of 9 cs] nth_split [of 10 cs] nth_split [of 11 cs]
      nth_split [of 12 cs] by simp
  show ?thesis
    by (subst (2) cs) (simp add: push_health_def assms(2) i32_cell.push_read [OF h(1)]
        u32_cell.push_read [OF h(2)] u32_cell.push_read [OF h(3)] u32_cell.push_read [OF h(4)]
        u32_cell.push_read [OF h(5)])
qed

lemma header_of_idem: "header_reads (header_of h) cs \<longleftrightarrow> header_reads h cs"
  by (simp add: header_reads_def header_of_def)

lemma push_header_simps [simp]:
  "push_header (header_of h) = push_header h"
  "push_header (h\<lparr>get_device_info := a\<rparr>) = push_header h"
  "push_header (h\<lparr>get_status := b\<rparr>) = push_header h"
  "push_header (h\<lparr>get_health := c\<rparr>) = push_header h"
  "push_header (h\<lparr>device_info_body := d\<rparr>) = push_header h"
  "push_header (h\<lparr>status_body := e\<rparr>) = push_header h"
  "push_header (h\<lparr>health_body := g\<rparr>) = push_header h"
  "push_header (h\<lparr>error_body := i\<rparr>) = push_header h"
  by (simp_all add: push_header_def header_of_def)

lemma cells_canonical:
  assumes "from_cells cs = Inr m" and "status_body m = None"
  shows "to_cells ryu m = Inr cs"
proof -
  obtain h where len: "8 \<le> length cs" and h: "header_reads h cs" and body: "read_body cs (header_of h) = Inr m"
    using assms(1) by (auto simp: from_cells_iff)
  obtain k where k: "kind h = Some k"
    using body by (cases "kind h") (simp_all add: read_body_def header_of_def)
  then have hk: "kind (header_of h) = Some k" by (simp add: header_of_def)
  have pm: "push_header m = push_header h" and mk: "kind m = Some k"
    using body by (auto simp: read_body_def hk r_bind_Inr_iff split: if_splits)
  have "push_body ryu m (take 8 cs) = Inr cs"
  proof -
    consider "k \<in> {1, 2, 3}" | "k = 11" | "k = 13 \<or> k = 22" | "k = 14"
      using body assms(2) by (auto simp: read_body_def hk r_bind_Inr_iff split: if_splits)
    then show ?thesis
    proof cases
      case 1
      then show ?thesis using body by (auto simp: read_body_def push_body_def hk mk split: if_splits)
    next
      case 2
      then obtain i where "length cs = 10" "read_info cs = Inr i" "device_info_body m = Some i"
        using body by (auto simp: read_body_def hk r_bind_Inr_iff split: if_splits)
      then show ?thesis using 2 push_info_read by (simp add: push_body_def mk)
    next
      case 3
      then obtain b where "length cs = 13" "read_health cs = Inr b" "health_body m = Some b"
        using body by (auto simp: read_body_def hk r_bind_Inr_iff split: if_splits)
      then show ?thesis using 3 push_health_read by (auto simp: push_body_def mk)
    next
      case 4
      then obtain c where c: "length cs = 9" "cell read_i32 (cs ! 8) = Inr c"
        "error_body m = Some \<lparr>error_code = c\<rparr>"
        using body by (auto simp: read_body_def hk r_bind_Inr_iff split: if_splits)
      then show ?thesis
        using 4 nth_split [of 8 cs] i32_cell.push_read [OF c(2), of "take 8 cs"]
        by (simp add: push_body_def mk)
    qed
  qed
  then show ?thesis using push_header_read [OF h len] by (simp add: to_cells_def pm)
qed

section \<open>Properties\<close>

text \<open>Every valid message whose strings fit their types becomes a row of eight to thirteen
  cells, and that row reads back as the same message.\<close>
theorem message_cells_round_trip:
  assumes "validate m f = Inr ()" and "envelope_typed m"
    and "\<forall>s v. status_body m = Some s \<longrightarrow> temperature_celsius s = Some v \<longrightarrow> ryu_reads_back ryu v"
  shows "\<exists>cs. to_cells ryu m = Inr cs \<and> 8 \<le> length cs \<and> length cs \<le> 13 \<and> from_cells cs = Inr m"
  using cells_round_trip [OF assms(1,2), of ryu] assms(3) by (auto simp: returns_def)

theorem message_cells_round_trip_witness:
  "\<exists>cs. to_cells (\<lambda>_. lit ''25.0'')
    (to_envelope Csv (Publication (lit ''b'') (lit ''0123456789abcdef'') 5 1 (Status_Report (Measured f32_25))))
    = Inr cs \<and> length cs \<le> 13"
proof -
  let ?m = "to_envelope Csv (Publication (lit ''b'') (lit ''0123456789abcdef'') 5 1 (Status_Report (Measured f32_25)))"
  have "message_ok (Publication (lit ''b'') (lit ''0123456789abcdef'') 5 1 (Status_Report (Measured f32_25)))"
    by (simp add: device_name_def hex_token_def ascii_defs temperature_ok_def f32_le_def f32_is_nan_def
        f32_is_finite_def f32_exponent_def f32_key_def f32_negative_def f32_magnitude_def)
  then have valid: "validate ?m Csv = Inr ()" by (rule validate_sound)
  have typed: "envelope_typed ?m"
    by (simp add: envelope_typed_def to_envelope.simps envelope_default_def)
  have ryu: "\<forall>s v. status_body ?m = Some s \<longrightarrow> temperature_celsius s = Some v \<longrightarrow>
      ryu_reads_back (\<lambda>_. lit ''25.0'') v"
    using f32_from_str_samples(2)
    by (simp add: to_envelope.simps envelope_default_def ryu_reads_back_def text_ok_def del: lit_simps)
      (simp add: is_printable_def line_text_printable)
  show ?thesis using message_cells_round_trip [OF valid typed ryu] by blast
qed

text \<open>The cell reader accepts one spelling only: a row it accepts as a message without a
  temperature is exactly the row the writer makes of that message (no signs, leading
  zeros, spaces or surplus cells).\<close>
theorem accepted_cells_are_canonical:
  assumes "from_cells cs = Inr m" and "status_body m = None"
  shows "to_cells ryu m = Inr cs"
  by (rule cells_canonical [OF assms])

theorem accepted_cells_are_canonical_witness:
  "let cs = [lit ''1'', lit ''3'', lit ''b'', [], lit ''123456789abcdef0'', lit ''7'', [], []]
   in \<exists>m. from_cells cs = Inr m \<and> to_cells (\<lambda>_. []) m = Inr cs"
proof -
  let ?m = "envelope_default\<lparr>protocol_version := Some 1, kind := Some 3, device_id := Some (lit ''b''),
    client_session := Some (lit ''123456789abcdef0''), request_id := Some 7, get_health := Some Empty\<rparr>"
  let ?cs = "[lit ''1'', lit ''3'', lit ''b'', [], lit ''123456789abcdef0'', lit ''7'', [], []]"
  have num: "read_u32 (lit ''1'') = Inr 1" "read_i32 (lit ''3'') = Inr 3" "read_u32 (lit ''7'') = Inr 7"
    by (simp_all add: read_u32_iff read_i32_iff show_u32_def show_i32_def digits.simps)
  have run: "from_cells ?cs = Inr ?m"
    using num by (simp add: from_cells_def cell_def read_str_def read_body_def envelope_default_def)
  show ?thesis
    using accepted_cells_are_canonical [OF run, of "\<lambda>_. []"] run
    by (auto simp: envelope_default_def Let_def)
qed

end
