(* ===== verification/Csv_Record.thy ===== *)
theory Csv_Record
  imports Cells
begin

text \<open>
  \<^verbatim>\<open>Rust/messaging/src/csv.rs\<close>: one message as one CSV record.  \<open>check_record\<close> is the
  grammar check of the code; splitting and joining the fields is done by the third-party
  \<^verbatim>\<open>csv-core\<close> crate, whose reader and writer are parameters.  A writer call returns
  whether the output was full, how many bytes of the field it consumed and what it wrote;
  a reader call returns whether a record was complete, how many bytes it used, the decoded
  data and the end of each field in it.
\<close>

section \<open>The grammar check\<close>

datatype csv_state = At_Start | Unquoted | Quoted | Closing_Quote

fun csv_step :: "csv_state \<Rightarrow> u8 \<Rightarrow> csv_state option" where
  "csv_step At_Start b = (if b = 34 then Some Quoted else if b = 44 then Some At_Start else Some Unquoted)"
| "csv_step Unquoted b = (if b = 44 then Some At_Start else if b = 34 then None else Some Unquoted)"
| "csv_step Quoted b = (if b = 34 then Some Closing_Quote else Some Quoted)"
| "csv_step Closing_Quote b =
     (if b = 34 then Some Quoted else if b = 44 then Some At_Start else None)"

fun csv_scan :: "csv_state \<Rightarrow> bytes \<Rightarrow> csv_state option" where
  "csv_scan s [] = Some s"
| "csv_scan s (b # bs) =
     (if b = 13 \<or> b = 10 then None
      else case csv_step s b of None \<Rightarrow> None | Some s' \<Rightarrow> csv_scan s' bs)"

definition CRLF :: bytes where
  "CRLF = [13, 10]"

definition ends_with :: "bytes \<Rightarrow> bytes \<Rightarrow> bool" where
  "ends_with bs suffix \<longleftrightarrow> length suffix \<le> length bs \<and> drop (length bs - length suffix) bs = suffix"

definition check_record :: "bytes \<Rightarrow> codec_error + unit" where
  "check_record bs =
    (if \<not> ends_with bs CRLF then Inl Decode
     else case csv_scan At_Start (take (length bs - 2) bs) of
       None \<Rightarrow> Inl Decode
     | Some s \<Rightarrow> if s = Quoted then Inl Decode else Inr ())"

section \<open>What the check accepts\<close>

text \<open>
  A record is a nonempty list of fields joined by commas and closed by CR LF.  A field is
  plain text or a quoted text, in which a quote is written twice.
\<close>

definition csv_escape :: "bytes \<Rightarrow> bytes" where
  "csv_escape x = concat (map (\<lambda>b. if b = 34 then [34, 34] else [b]) x)"

definition csv_quoted :: "bytes \<Rightarrow> bytes" where
  "csv_quoted x = 34 # csv_escape x @ [34]"

definition csv_field_text :: "bytes \<Rightarrow> bool" where
  "csv_field_text t \<longleftrightarrow> list_all is_csv_plain t \<or> (\<exists>x. no_break x \<and> t = csv_quoted x)"

fun csv_join :: "bytes list \<Rightarrow> bytes" where
  "csv_join [] = []"
| "csv_join [t] = t"
| "csv_join (t # u # ts) = t @ 44 # csv_join (u # ts)"

lemma csv_escape_simps [simp]:
  "csv_escape [] = []"
  "csv_escape (b # x) = (if b = 34 then [34, 34] else [b]) @ csv_escape x"
  by (simp_all add: csv_escape_def)

lemma csv_scan_append:
  "csv_scan s (xs @ ys) = (case csv_scan s xs of None \<Rightarrow> None | Some s' \<Rightarrow> csv_scan s' ys)"
  by (induction xs arbitrary: s) (auto split: option.split)

lemma csv_scan_plain:
  "list_all is_csv_plain t \<Longrightarrow> csv_scan Unquoted t = Some Unquoted"
  by (induction t) (auto simp: is_csv_plain_def)

lemma csv_scan_plain_start:
  "list_all is_csv_plain t \<Longrightarrow> csv_scan At_Start t = Some (if t = [] then At_Start else Unquoted)"
  by (cases t) (auto simp: is_csv_plain_def csv_scan_plain)

lemma csv_scan_escape: "no_break x \<Longrightarrow> csv_scan Quoted (csv_escape x) = Some Quoted"
  by (induction x) (auto simp: no_break_def)

lemma csv_scan_field:
  "csv_field_text t \<Longrightarrow> \<exists>s. s \<noteq> Quoted \<and> csv_scan At_Start t = Some s \<and>
    csv_scan s (44 # rest) = csv_scan At_Start rest"
  unfolding csv_field_text_def
proof (elim disjE exE conjE)
  assume "list_all is_csv_plain t"
  then show ?thesis by (cases "t = []") (auto simp: csv_scan_plain_start)
next
  fix x
  assume "no_break x" "t = csv_quoted x"
  then show ?thesis by (simp add: csv_quoted_def csv_scan_append csv_scan_escape)
qed

lemma csv_scan_join:
  "ts \<noteq> [] \<Longrightarrow> list_all csv_field_text ts \<Longrightarrow> \<exists>s. s \<noteq> Quoted \<and> csv_scan At_Start (csv_join ts) = Some s"
proof (induction ts rule: csv_join.induct)
  case (2 t)
  then show ?case using csv_scan_field by auto
next
  case (3 t u ts)
  then show ?case using csv_scan_field [of t "csv_join (u # ts)"] by (auto simp: csv_scan_append)
qed simp

text \<open>The converse, by induction on the scanned text with one statement per state.\<close>

definition csv_rest :: "csv_state \<Rightarrow> bytes \<Rightarrow> bool" where
  "csv_rest s bs \<longleftrightarrow>
    (case s of
      At_Start \<Rightarrow> \<exists>ts. ts \<noteq> [] \<and> list_all csv_field_text ts \<and> bs = csv_join ts
    | Unquoted \<Rightarrow> \<exists>t ts. list_all is_csv_plain t \<and> list_all csv_field_text ts \<and> bs = csv_join (t # ts)
    | Quoted \<Rightarrow> \<exists>x ts. no_break x \<and> list_all csv_field_text ts \<and> bs = csv_join ((csv_escape x @ [34]) # ts)
    | Closing_Quote \<Rightarrow> (\<exists>ts. list_all csv_field_text ts \<and> bs = csv_join ([] # ts)) \<or>
        (\<exists>x ts. no_break x \<and> list_all csv_field_text ts \<and> bs = csv_join ((34 # csv_escape x @ [34]) # ts)))"

lemma csv_join_Cons: "csv_join ((b # t) # ts) = b # csv_join (t # ts)"
  by (cases ts) simp_all

lemma csv_join_comma: "ts \<noteq> [] \<Longrightarrow> csv_join ([] # ts) = 44 # csv_join ts"
  by (cases ts) simp_all

lemma csv_rest_step:
  assumes "csv_step s b = Some s'" and "b \<noteq> 13" and "b \<noteq> 10" and "csv_rest s' bs"
  shows "csv_rest s (b # bs)"
proof (cases s')
  case At_Start
  then obtain ts where ts: "ts \<noteq> []" "list_all csv_field_text ts" "bs = csv_join ts"
    using assms(4) by (auto simp: csv_rest_def)
  have "b = 44" "s \<noteq> Quoted" using assms(1) At_Start by (cases s; simp split: if_splits)+
  moreover have "44 # bs = csv_join ([] # ts)" using ts by (simp add: csv_join_comma)
  moreover have "csv_field_text []" by (simp add: csv_field_text_def)
  ultimately show ?thesis
    using ts by (cases s) (force simp: csv_rest_def)+
next
  case Unquoted
  then obtain t ts where t: "list_all is_csv_plain t" "list_all csv_field_text ts" "bs = csv_join (t # ts)"
    using assms(4) by (auto simp: csv_rest_def)
  have "s = At_Start \<or> s = Unquoted" "b \<noteq> 34" "b \<noteq> 44"
    using assms(1) Unquoted by (cases s; simp split: if_splits)+
  then have "list_all is_csv_plain (b # t)" using t assms(2,3) by (simp add: is_csv_plain_def)
  moreover have "b # bs = csv_join ((b # t) # ts)" using t by (simp add: csv_join_Cons)
  ultimately show ?thesis
    using \<open>s = At_Start \<or> s = Unquoted\<close> t(2)
  proof (elim disjE)
    assume s: "s = At_Start"
    have "csv_field_text (b # t)" using \<open>list_all is_csv_plain (b # t)\<close> by (simp add: csv_field_text_def)
    then show ?thesis
      using \<open>b # bs = csv_join ((b # t) # ts)\<close> t(2) s
      by (auto simp: csv_rest_def intro!: exI [of _ "(b # t) # ts"])
  next
    assume "s = Unquoted"
    then show ?thesis
      using \<open>list_all is_csv_plain (b # t)\<close> \<open>b # bs = csv_join ((b # t) # ts)\<close> t(2)
      unfolding csv_rest_def by (simp only: csv_state.case) blast
  qed
next
  case Quoted
  then obtain x ts where x: "no_break x" "list_all csv_field_text ts" "bs = csv_join ((csv_escape x @ [34]) # ts)"
    using assms(4) by (auto simp: csv_rest_def)
  consider "s = At_Start" "b = 34" | "s = Quoted" "b \<noteq> 34" | "s = Closing_Quote" "b = 34"
    using assms(1) Quoted by (cases s; simp split: if_splits)
  then show ?thesis
  proof cases
    case 1
    have "csv_field_text (csv_quoted x)" using x(1) by (auto simp: csv_field_text_def)
    moreover have "b # bs = csv_join (csv_quoted x # ts)"
      using x(3) 1 by (simp add: csv_quoted_def csv_join_Cons)
    ultimately show ?thesis
      using x(2) 1 by (auto simp: csv_rest_def intro!: exI [of _ "csv_quoted x # ts"])
  next
    case 2
    have "b # bs = csv_join ((csv_escape (b # x) @ [34]) # ts)"
      using x(3) 2 by (simp add: csv_join_Cons)
    moreover have "no_break (b # x)" using x(1) assms(2,3) by (auto simp: no_break_def)
    ultimately show ?thesis using x(2) 2(1) unfolding csv_rest_def by (simp only: csv_state.case) blast
  next
    case 3
    then show ?thesis using x by (auto simp: csv_rest_def csv_join_Cons)
  qed
next
  case Closing_Quote
  then have s: "s = Quoted" "b = 34" using assms(1) by (cases s; simp split: if_splits)+
  consider ts where "list_all csv_field_text ts" "bs = csv_join ([] # ts)"
    | x ts where "no_break x" "list_all csv_field_text ts" "bs = csv_join ((34 # csv_escape x @ [34]) # ts)"
    using assms(4) Closing_Quote by (auto simp: csv_rest_def)
  then show ?thesis
  proof cases
    case 1
    have "b # bs = csv_join ((csv_escape [] @ [34]) # ts)" using 1(2) s by (simp add: csv_join_Cons)
    moreover have "no_break []" by (simp add: no_break_def)
    ultimately show ?thesis using 1(1) s unfolding csv_rest_def by (simp only: csv_state.case) blast
  next
    case 2
    have "b # bs = csv_join ((csv_escape (34 # x) @ [34]) # ts)" using 2(3) s by (simp add: csv_join_Cons)
    moreover have "no_break (34 # x)" using 2(1) by (simp add: no_break_def)
    ultimately show ?thesis using 2(2) s unfolding csv_rest_def by (simp only: csv_state.case) blast
  qed
qed

lemma csv_scan_rest: "csv_scan s bs = Some s' \<Longrightarrow> s' \<noteq> Quoted \<Longrightarrow> csv_rest s bs"
proof (induction bs arbitrary: s)
  case Nil
  have "csv_field_text []" by (simp add: csv_field_text_def)
  then have "[[]] \<noteq> ([] :: bytes list)" "[] = csv_join [[]]" "list_all csv_field_text [[]]"
    "list_all is_csv_plain []" "list_all csv_field_text []" by simp_all
  then show ?case
    using Nil unfolding csv_rest_def by (cases s) (simp_all only: csv_state.case csv_scan.simps option.inject, blast+)
next
  case (Cons b bs)
  then show ?case by (auto split: if_splits option.splits intro: csv_rest_step)
qed

section \<open>Reading and writing a record\<close>

record csv_read =
  read_is_record :: bool
  read_used :: nat
  read_written :: nat
  read_data :: bytes
  read_ends :: "nat list"

record csv_written =
  out_full :: bool
  out_consumed :: nat
  out_bytes :: bytes

record 'w csv_lib =
  csv_reader :: "bytes \<Rightarrow> nat \<Rightarrow> nat \<Rightarrow> csv_read"
  csv_writer :: 'w
  csv_field :: "'w \<Rightarrow> bytes \<Rightarrow> nat \<Rightarrow> csv_written \<times> 'w"
  csv_delimiter :: "'w \<Rightarrow> nat \<Rightarrow> csv_written \<times> 'w"
  csv_terminator :: "'w \<Rightarrow> nat \<Rightarrow> csv_written \<times> 'w"
  ryu_format :: "f32 \<Rightarrow> bytes"

text \<open>
  Both CSV decoders read one record, accept it if it ends with the input (or one byte
  before a final LF), and cut the data at the reported ends.  \<open>try_text\<close> is the conversion
  to the text type of a field, \<open>limit\<close> the capacity of the vector of fields.
\<close>

fun cut_fields ::
  "(bytes \<Rightarrow> codec_error + bytes) \<Rightarrow> nat \<Rightarrow> bytes \<Rightarrow> nat \<Rightarrow> nat list \<Rightarrow> bytes list \<Rightarrow>
    codec_error + bytes list \<times> nat" where
  "cut_fields try_text limit data start [] cells = Inr (cells, start)"
| "cut_fields try_text limit data start (e # ends) cells =
     r_bind (ok_or (from_utf8 (slice start e data)) Decode) (\<lambda>value.
     r_bind (try_text value) (\<lambda>text.
       if length cells < limit then cut_fields try_text limit data e ends (cells @ [text])
       else Inl Size))"

definition read_fields ::
  "'w csv_lib \<Rightarrow> (bytes \<Rightarrow> codec_error + bytes) \<Rightarrow> nat \<Rightarrow> bytes \<Rightarrow> codec_error + bytes list" where
  "read_fields lib try_text limit bs =
    r_bind (check_record bs) (\<lambda>_.
      let r = csv_reader lib bs MAX_BODY limit
      in if \<not> read_is_record r \<or>
            \<not> (read_used r = length bs \<or>
               read_used r + 1 = length bs \<and> bs ! read_used r = 10)
         then Inl Decode
         else r_bind (cut_fields try_text limit (read_data r) 0 (read_ends r) []) (\<lambda>(cells, start).
           if start \<noteq> read_written r then Inl Decode else Inr cells))"

definition text_128 :: "bytes \<Rightarrow> codec_error + bytes" where
  "text_128 value = (if length value \<le> 128 then Inr value else Inl Decode)"

definition csv_decode :: "'w csv_lib \<Rightarrow> bytes \<Rightarrow> codec_error + envelope" where
  "csv_decode lib bs = r_bind (read_fields lib text_128 16 bs) from_cells"

text \<open>\<open>out\<close> is what has been written so far to the \<open>cap\<close> bytes of the buffer.\<close>

fun write_fields ::
  "'w csv_lib \<Rightarrow> 'w \<Rightarrow> nat \<Rightarrow> bytes \<Rightarrow> bytes list \<Rightarrow> codec_error + bytes \<times> 'w" where
  "write_fields lib w cap out [] = Inr (out, w)"
| "write_fields lib w cap out (field # rest) =
     (let (r, w) = csv_field lib w field (cap - length out);
          out = out @ out_bytes r
      in if out_full r \<or> out_consumed r \<noteq> length field then Inl Size
         else if rest \<noteq> [] then
           (let (d, w) = csv_delimiter lib w (cap - length out);
                out = out @ out_bytes d
            in if out_full d then Inl Size else write_fields lib w cap out rest)
         else write_fields lib w cap out rest)"

definition write_record :: "'w csv_lib \<Rightarrow> nat \<Rightarrow> bytes list \<Rightarrow> codec_error + bytes" where
  "write_record lib cap cells =
    r_bind (write_fields lib (csv_writer lib) cap [] cells) (\<lambda>(out, w).
      let (r, w) = csv_terminator lib w (cap - length out);
          out = out @ out_bytes r
      in if out_full r then Inl Size else Inr out)"

definition csv_encode :: "'w csv_lib \<Rightarrow> envelope \<Rightarrow> nat \<Rightarrow> codec_error + bytes" where
  "csv_encode lib m cap = r_bind (to_cells (ryu_format lib) m) (write_record lib cap)"

text \<open>
  What the documentation of \<^verbatim>\<open>csv-core\<close> promises for one row of fields: the writer
  renders it as an RFC 4180 record, quoting a field only where it must, and the reader
  takes such a record apart again.
\<close>

definition csv_render :: "bytes \<Rightarrow> bytes" where
  "csv_render x = (if list_all is_csv_plain x then x else csv_quoted x)"

definition csv_line :: "bytes list \<Rightarrow> bytes" where
  "csv_line cells = csv_join (map csv_render cells) @ CRLF"

fun field_ends :: "nat \<Rightarrow> bytes list \<Rightarrow> nat list" where
  "field_ends start [] = []"
| "field_ends start (c # cs) = (start + length c) # field_ends (start + length c) cs"

definition csv_renders :: "'w csv_lib \<Rightarrow> bytes list \<Rightarrow> bool" where
  "csv_renders lib cells \<longleftrightarrow> (\<forall>cap. write_record lib cap cells =
    (if length (csv_line cells) \<le> cap then Inr (csv_line cells) else Inl Size))"

definition csv_parses :: "'w csv_lib \<Rightarrow> nat \<Rightarrow> bytes list \<Rightarrow> bool" where
  "csv_parses lib limit cells \<longleftrightarrow>
    (let r = csv_reader lib (csv_line cells) MAX_BODY limit
     in read_is_record r \<and>
        (read_used r = length (csv_line cells) \<or> read_used r + 1 = length (csv_line cells)) \<and>
        read_written r = length (concat cells) \<and> read_data r = concat cells \<and>
        read_ends r = field_ends 0 cells)"

lemma csv_render_field_text: "no_break x \<Longrightarrow> csv_field_text (csv_render x)"
  by (auto simp: csv_render_def csv_field_text_def)

lemma check_csv_line:
  assumes "cells \<noteq> []" and "\<forall>c \<in> set cells. no_break c"
  shows "check_record (csv_line cells) = Inr ()"
proof -
  have "list_all csv_field_text (map csv_render cells)"
    using assms(2) by (auto simp: list_all_iff csv_render_field_text)
  then obtain s where "s \<noteq> Quoted" "csv_scan At_Start (csv_join (map csv_render cells)) = Some s"
    using csv_scan_join assms(1) by (metis map_is_Nil_conv)
  then show ?thesis by (simp add: check_record_def csv_line_def ends_with_def CRLF_def)
qed

lemma cut_fields_concat:
  assumes "\<forall>c \<in> set cells. utf8_valid c \<and> try_text c = Inr c"
    and "length acc + length cells \<le> limit" and "start = length pre" and "data = pre @ concat cells"
  shows "cut_fields try_text limit data start (field_ends start cells) acc =
    Inr (acc @ cells, start + length (concat cells))"
  using assms
proof (induction cells arbitrary: start pre acc)
  case (Cons c cells)
  have "slice start (start + length c) data = c"
    using Cons.prems(3,4) by (simp add: slice_def)
  moreover have "cut_fields try_text limit data (start + length c)
      (field_ends (start + length c) cells) (acc @ [c]) =
      Inr ((acc @ [c]) @ cells, (start + length c) + length (concat cells))"
    using Cons.prems by (intro Cons.IH [where pre = "pre @ c"]) auto
  ultimately show ?case using Cons.prems by (simp add: from_utf8_def)
qed simp

lemma read_fields_line:
  assumes "cells \<noteq> []" and "length cells \<le> limit" and "csv_parses lib limit cells"
    and "\<forall>c \<in> set cells. no_break c \<and> utf8_valid c \<and> try_text c = Inr c"
  shows "read_fields lib try_text limit (csv_line cells) = Inr cells"
proof -
  let ?line = "csv_line cells"
  have "?line ! n = 10" if "n + 1 = length ?line" for n
    using that by (auto simp: csv_line_def CRLF_def nth_append)
  then show ?thesis
    using assms cut_fields_concat [of cells try_text "[]" limit 0 "[]" "concat cells"]
    by (auto simp: read_fields_def check_csv_line csv_parses_def Let_def)
qed

section \<open>Properties\<close>

text \<open>C39: the record check accepts exactly the single well-formed records: one or more fields
  joined by commas, each plain (no quote, comma or line break) or quoted with inner
  quotes doubled, and CR LF at the very end and nowhere else.\<close>
theorem check_record_grammar:
  "check_record bs = Inr () \<longleftrightarrow>
    (\<exists>ts. ts \<noteq> [] \<and> list_all csv_field_text ts \<and> bs = csv_join ts @ CRLF)"
proof
  assume ok: "check_record bs = Inr ()"
  then obtain s where s: "csv_scan At_Start (take (length bs - 2) bs) = Some s" "s \<noteq> Quoted"
    and e: "ends_with bs CRLF"
    by (auto simp: check_record_def split: if_splits option.splits)
  have "csv_rest At_Start (take (length bs - 2) bs)" by (rule csv_scan_rest [OF s])
  then obtain ts where "ts \<noteq> []" "list_all csv_field_text ts" "take (length bs - 2) bs = csv_join ts"
    by (auto simp: csv_rest_def)
  moreover have "bs = take (length bs - 2) bs @ CRLF"
    using e by (metis CRLF_def append_take_drop_id ends_with_def length_Cons list.size(3) numeral_2_eq_2)
  ultimately show "\<exists>ts. ts \<noteq> [] \<and> list_all csv_field_text ts \<and> bs = csv_join ts @ CRLF" by metis
next
  assume "\<exists>ts. ts \<noteq> [] \<and> list_all csv_field_text ts \<and> bs = csv_join ts @ CRLF"
  then obtain ts where ts: "ts \<noteq> []" "list_all csv_field_text ts" and bs: "bs = csv_join ts @ CRLF" by blast
  then show "check_record bs = Inr ()"
    using csv_scan_join [OF ts] by (auto simp: check_record_def ends_with_def CRLF_def)
qed

end
