(* ===== verification/Framing.thy ===== *)
theory Framing
  imports Message_Model
begin

text \<open>
  \<^verbatim>\<open>Rust/messaging/src/framing.rs\<close>: the optional eight-digit checksum trailer around a
  message body.  The checksum itself comes from the third-party \<^verbatim>\<open>crc\<close> crate and is the
  parameter \<open>ck\<close>; everything about framing that does not depend on which checksum it is
  holds for every \<open>ck\<close>.  \<open>detects_byte_errors\<close> is the one documented property of
  CRC-32C a theorem needs; a reference implementation of CRC-32C at the end of the theory
  has it and gives the check value the repository tests.
\<close>

definition TRAILER_BYTES :: nat where
  "TRAILER_BYTES = 8"

definition MAX_DATAGRAM :: nat where
  "MAX_DATAGRAM = MAX_BODY + TRAILER_BYTES"

lemmas frame_sizes = MAX_BODY_def TRAILER_BYTES_def MAX_DATAGRAM_def

datatype crc_mode = Off | On

definition crc_mode_parse :: "bytes \<Rightarrow> crc_mode option" where
  "crc_mode_parse value =
    (if value = lit ''off'' then Some Off else if value = lit ''on'' then Some On else None)"

fun crc_mode_name :: "crc_mode \<Rightarrow> bytes" where
  "crc_mode_name Off = lit ''off''"
| "crc_mode_name On = lit ''on''"

lemma crc_mode_parse_name [simp]: "crc_mode_parse (crc_mode_name m) = Some m"
  by (cases m) (simp_all add: crc_mode_parse_def)

definition trailer_extra :: "crc_mode \<Rightarrow> nat" where
  "trailer_extra mode = (if mode = On then TRAILER_BYTES else 0)"

section \<open>Sealing and opening\<close>

definition trailer_digit :: "u32 \<Rightarrow> nat \<Rightarrow> u8" where
  "trailer_digit v index = hex_upper (unat (drop_bit (28 - index * 4) v AND 15))"

definition seal :: "(bytes \<Rightarrow> u32) \<Rightarrow> crc_mode \<Rightarrow> bytes \<Rightarrow> nat \<Rightarrow> codec_error + bytes \<times> nat" where
  "seal ck mode buffer body_len =
    (let extra = trailer_extra mode
     in if MAX_BODY < body_len \<or> length buffer < body_len + extra then Inl Size
        else
          (let buffer' =
             (if mode = On
              then foldl (\<lambda>b index. b[body_len + index := trailer_digit (ck (take body_len buffer)) index])
                     buffer [0..<TRAILER_BYTES]
              else buffer)
           in Inr (buffer', body_len + extra)))"

definition hex_value :: "u8 \<Rightarrow> u32 option" where
  "hex_value digit =
    (if 48 \<le> digit \<and> digit \<le> 57 then Some (ucast (digit - 48))
     else if 65 \<le> digit \<and> digit \<le> 70 then Some (ucast (digit - 65 + 10))
     else None)"

fun read_trailer :: "u32 \<Rightarrow> bytes \<Rightarrow> u32 option" where
  "read_trailer expected [] = Some expected"
| "read_trailer expected (digit # rest) =
     (case hex_value digit of
       None \<Rightarrow> None
     | Some d \<Rightarrow> read_trailer (push_bit 4 expected OR d) rest)"

definition open_frame :: "(bytes \<Rightarrow> u32) \<Rightarrow> crc_mode \<Rightarrow> bytes \<Rightarrow> codec_error + bytes" where
  "open_frame ck mode datagram =
    (if MAX_BODY + trailer_extra mode < length datagram then Inl Size
     else if mode = Off then Inr datagram
     else if length datagram < TRAILER_BYTES then Inl Crc
     else
       (let body_len = length datagram - TRAILER_BYTES;
            body = take body_len datagram
        in case read_trailer 0 (drop body_len datagram) of
             None \<Rightarrow> Inl Crc
           | Some expected \<Rightarrow> if ck body \<noteq> expected then Inl Crc else Inr body))"

section \<open>The trailer\<close>

definition trailer :: "u32 \<Rightarrow> bytes" where
  "trailer v = map (trailer_digit v) [0..<TRAILER_BYTES]"

lemma length_trailer [simp]: "length (trailer v) = 8"
  by (simp add: trailer_def TRAILER_BYTES_def)

lemma foldl_list_update:
  "off + length ys \<le> length xs \<Longrightarrow>
    foldl (\<lambda>b i. b[off + i := ys ! i]) xs [0..<length ys] = overwrite xs off ys"
proof (induction ys rule: rev_induct)
  case Nil
  then show ?case by (simp add: overwrite_def)
next
  case (snoc y ys)
  have "foldl (\<lambda>b i. b[off + i := (ys @ [y]) ! i]) xs [0..<length ys] =
      foldl (\<lambda>b i. b[off + i := ys ! i]) xs [0..<length ys]"
    by (rule foldl_cong) (simp_all add: nth_append)
  then show ?case
    using snoc by (simp add: overwrite_def list_update_append1 list_update_append
        Cons_nth_drop_Suc [symmetric])
qed

lemma seal_On:
  "seal ck On buffer n =
    (if MAX_BODY < n \<or> length buffer < n + 8 then Inl Size
     else Inr (overwrite buffer n (trailer (ck (take n buffer))), n + 8))"
proof (cases "MAX_BODY < n \<or> length buffer < n + 8")
  case False
  let ?t = "trailer (ck (take n buffer))"
  have "foldl (\<lambda>b i. b[n + i := ?t ! i]) buffer [0..<length ?t] = overwrite buffer n ?t"
    using False by (intro foldl_list_update) simp
  moreover have "foldl (\<lambda>b i. b[n + i := trailer_digit (ck (take n buffer)) i]) buffer [0..<8] =
      foldl (\<lambda>b i. b[n + i := ?t ! i]) buffer [0..<8]"
    by (rule foldl_cong) (simp_all add: trailer_def TRAILER_BYTES_def)
  ultimately show ?thesis
    using False by (simp add: seal_def trailer_extra_def TRAILER_BYTES_def)
qed (simp add: seal_def trailer_extra_def TRAILER_BYTES_def)

lemma seal_Off:
  "seal ck Off buffer n =
    (if MAX_BODY < n \<or> length buffer < n then Inl Size else Inr (buffer, n))"
  by (simp add: seal_def trailer_extra_def)

lemma hex_value_upper: "d < 16 \<Longrightarrow> hex_value (hex_upper d) = Some (of_nat d)"
proof -
  have "list_all (\<lambda>d. hex_value (hex_upper d) = Some (of_nat d)) [0..<16]"
    by (simp add: upt_rec hex_upper_def hex_value_def)
  then show "d < 16 \<Longrightarrow> ?thesis" by (simp add: list_all_iff)
qed

lemma u8_between:
  assumes "of_nat a \<le> b" and "b \<le> of_nat c" and "c < 256" and "a \<le> c"
  shows "\<exists>n. a \<le> n \<and> n \<le> c \<and> (b :: u8) = of_nat n"
proof (intro exI conjI)
  show "a \<le> unat b" "unat b \<le> c"
    using assms by (simp_all add: word_le_unat unat_of_nat)
  show "b = of_nat (unat b)" by simp
qed

lemma hex_value_SomeD:
  assumes "hex_value b = Some w"
  shows "unat w < 16 \<and> b = hex_upper (unat w)"
proof -
  have ten: "list_all (\<lambda>n. hex_value (of_nat n) = Some (of_nat (n - 48)) \<and> hex_upper (n - 48) = of_nat n)
      [48..<58]"
    by (simp add: upt_rec hex_upper_def hex_value_def)
  have six: "list_all (\<lambda>n. hex_value (of_nat n) = Some (of_nat (n - 55)) \<and> hex_upper (n - 55) = of_nat n)
      [65..<71]"
    by (simp add: upt_rec hex_upper_def hex_value_def)
  consider n where "48 \<le> n" "n \<le> 57" "b = of_nat n" | n where "65 \<le> n" "n \<le> 70" "b = of_nat n"
    using assms u8_between [of 48 b 57] u8_between [of 65 b 70]
    by (auto simp: hex_value_def split: if_splits)
  then show ?thesis
  proof cases
    case 1
    then have "n \<in> set [48..<58]" by (subst set_upt) simp
    from ten [unfolded list_all_iff, rule_format, OF this]
    have "w = of_nat (n - 48)" "hex_upper (n - 48) = b"
      using assms 1(3) by (simp_all del: of_nat_diff)
    moreover have "unat (of_nat (n - 48) :: u32) = n - 48"
      using 1(2) by (simp add: unat_of_nat del: of_nat_diff)
    ultimately show ?thesis using 1(2) by (simp del: of_nat_diff)
  next
    case 2
    then have "n \<in> set [65..<71]" by (subst set_upt) simp
    from six [unfolded list_all_iff, rule_format, OF this]
    have "w = of_nat (n - 55)" "hex_upper (n - 55) = b"
      using assms 2(3) by (simp_all del: of_nat_diff)
    moreover have "unat (of_nat (n - 55) :: u32) = n - 55"
      using 2(2) by (simp add: unat_of_nat del: of_nat_diff)
    ultimately show ?thesis using 2(2) by (simp del: of_nat_diff)
  qed
qed

lemma and_15: "(w :: u32) AND 15 = take_bit 4 w"
  by (simp add: take_bit_eq_mask mask_eq_exp_minus_1)

lemma nibble_step: "push_bit 4 (drop_bit (n + 4) v) OR (drop_bit n v AND 15) = drop_bit n (v :: u32)"
  by (rule bit_word_eqI) (auto simp: and_15 bit_simps add.commute add.left_commute)

lemma nibble_bound: "unat ((w :: u32) AND 15) < 16"
  using take_bit_nat_less_exp [of 4 "unat w"] by (simp add: and_15 unsigned_take_bit_eq)

lemma hex_value_trailer_digit: "hex_value (trailer_digit v i) = Some (drop_bit (28 - i * 4) v AND 15)"
  using hex_value_upper [OF nibble_bound] by (simp add: trailer_digit_def)

lemma nibble_steps:
  "push_bit 4 (drop_bit 4 v) OR (v AND 15) = v"
  "push_bit 4 (drop_bit 8 v) OR (drop_bit 4 v AND 15) = drop_bit 4 v"
  "push_bit 4 (drop_bit 12 v) OR (drop_bit 8 v AND 15) = drop_bit 8 v"
  "push_bit 4 (drop_bit 16 v) OR (drop_bit 12 v AND 15) = drop_bit 12 v"
  "push_bit 4 (drop_bit 20 v) OR (drop_bit 16 v AND 15) = drop_bit 16 v"
  "push_bit 4 (drop_bit 24 v) OR (drop_bit 20 v AND 15) = drop_bit 20 v"
  "push_bit 4 (drop_bit 28 v) OR (drop_bit 24 v AND 15) = drop_bit 24 v"
  "drop_bit 28 v AND 15 = drop_bit 28 v" for v :: u32
  using nibble_step [of 0 v] nibble_step [of 4 v] nibble_step [of 8 v] nibble_step [of 12 v]
    nibble_step [of 16 v] nibble_step [of 20 v] nibble_step [of 24 v] nibble_step [of 28 v]
  by (simp_all add: drop_bit_word_beyond)

lemma read_trailer_trailer [simp]: "read_trailer 0 (trailer v) = Some v"
  by (simp add: trailer_def TRAILER_BYTES_def upt_rec hex_value_trailer_digit nibble_steps)


lemma read_trailer_inj:
  "length xs = length ys \<Longrightarrow> length xs \<le> 8 \<Longrightarrow> unat e < 16 ^ (8 - length xs) \<Longrightarrow>
    unat e' < 16 ^ (8 - length xs) \<Longrightarrow> read_trailer e xs = Some v \<Longrightarrow>
    read_trailer e' ys = Some v \<Longrightarrow> xs = ys \<and> e = e'"
proof (induction xs ys arbitrary: e e' rule: list_induct2)
  case Nil
  then show ?case by simp
next
  case (Cons x xs y ys)
  obtain a b where a: "hex_value x = Some a" and b: "hex_value y = Some b"
    using Cons.prems by (auto split: option.splits)
  have lt: "unat a < 16" "unat b < 16" and xy: "x = hex_upper (unat a)" "y = hex_upper (unat b)"
    using hex_value_SomeD [OF a] hex_value_SomeD [OF b] by auto
  have pow: "(16 :: nat) ^ (8 - length xs) = 16 * 16 ^ (8 - length (x # xs))"
    using Cons.prems(1) by (simp add: Suc_diff_le flip: power_Suc)
  have shift: "unat (push_bit 4 c OR d) = unat c * 16 + unat d"
    if "unat c < 16 ^ (8 - length (x # xs))" "unat d < 16" for c d :: u32
  proof -
    have c: "unat c < 2 ^ 28"
      using that(1) power_increasing [of "8 - length (x # xs)" 7 "16 :: nat"] by simp
    then have "unat (push_bit 4 c) = unat c * 16"
      by (simp add: push_bit_eq_mult unat_word_ariths)
    moreover have "push_bit 4 c AND d = 0"
    proof (rule bit_word_eqI)
      fix n
      assume "n < LENGTH(32)"
      have "d = take_bit 4 d"
        using that(2) by (simp add: word_unat_eq_iff unat_mod take_bit_eq_mod)
      then show "bit (push_bit 4 c AND d) n = bit 0 n"
        by (metis bit_0_eq bit_and_iff bit_push_bit_iff bit_take_bit_iff bot_apply
            bot_bool_def not_le)
    qed
    ultimately have "unat (push_bit 4 c + d) = unat c * 16 + unat d"
      using c that(2) by (subst unat_add_small) simp_all
    moreover have "push_bit 4 c OR d = push_bit 4 c + d"
      using \<open>push_bit 4 c AND d = 0\<close> by (simp add: disjunctive_add_eq_or)
    ultimately show ?thesis by simp
  qed
  let ?e = "push_bit 4 e OR a" and ?e' = "push_bit 4 e' OR b"
  have ev: "unat ?e = unat e * 16 + unat a" "unat ?e' = unat e' * 16 + unat b"
    using shift Cons.prems(2,3) lt Cons.hyps by simp_all
  have bound: "unat ?e < 16 ^ (8 - length xs)" "unat ?e' < 16 ^ (8 - length xs)"
    using Cons.prems(2,3) lt pow ev Cons.hyps by simp_all
  have "xs = ys \<and> ?e = ?e'"
    using Cons.prems a b bound by (intro Cons.IH) auto
  then have "xs = ys" and "unat e * 16 + unat a = unat e' * 16 + unat b" using ev by auto
  then have "unat e = unat e'" "unat a = unat b" using lt by presburger+
  then show ?case using xy \<open>xs = ys\<close> by (simp add: unsigned_word_eqI)
qed

lemma read_trailer_iff:
  assumes "length t = 8"
  shows "read_trailer 0 t = Some v \<longleftrightarrow> t = trailer v"
  using read_trailer_inj [of t "trailer v" 0 0 v] assms by auto

lemma trailer_inj: "trailer v = trailer w \<longleftrightarrow> v = w"
  by (metis option.inject read_trailer_trailer)

section \<open>What opening accepts\<close>

definition frame :: "(bytes \<Rightarrow> u32) \<Rightarrow> crc_mode \<Rightarrow> bytes \<Rightarrow> bytes" where
  "frame ck mode body = (if mode = On then body @ trailer (ck body) else body)"

lemma length_frame [simp]: "length (frame ck mode body) = length body + trailer_extra mode"
  by (simp add: frame_def trailer_extra_def TRAILER_BYTES_def)

lemma frame_parts [simp]:
  "frame ck Off body = body"
  "frame ck On body = body @ trailer (ck body)"
  by (simp_all add: frame_def)

lemma frame_inj: "frame ck mode a = frame ck mode b \<longleftrightarrow> a = b"
  by (cases mode) (auto simp: append_eq_append_conv)

lemma open_frame_On:
  "open_frame ck On d =
    (if MAX_DATAGRAM < length d then Inl Size
     else if \<exists>body. d = frame ck On body then Inr (take (length d - 8) d) else Inl Crc)"
proof (cases "MAX_DATAGRAM < length d \<or> length d < 8")
  case True
  then show ?thesis
    by (auto simp: open_frame_def trailer_extra_def frame_sizes frame_def)
next
  case False
  let ?b = "take (length d - 8) d" and ?t = "drop (length d - 8) d"
  have t: "length ?t = 8" using False by simp
  have iff: "(\<exists>body. d = frame ck On body) \<longleftrightarrow> ?t = trailer (ck ?b)"
    by (auto simp: frame_def intro: exI [of _ ?b]) (metis append_take_drop_id)
  show ?thesis
    using False read_trailer_iff [OF t] iff
    by (auto simp: open_frame_def trailer_extra_def frame_sizes Let_def split: option.splits)
qed

lemma open_frame_Off: "open_frame ck Off d = (if MAX_BODY < length d then Inl Size else Inr d)"
  by (simp add: open_frame_def trailer_extra_def)

lemma open_frame_Inr_iff:
  "open_frame ck mode d = Inr body \<longleftrightarrow> d = frame ck mode body \<and> length body \<le> MAX_BODY"
  by (cases mode) (auto simp: open_frame_On open_frame_Off frame_sizes)

lemma seal_Inr_iff:
  "seal ck mode buffer n = Inr (out, used) \<longleftrightarrow>
    n \<le> MAX_BODY \<and> n + trailer_extra mode \<le> length buffer \<and>
    out = overwrite buffer 0 (frame ck mode (take n buffer)) \<and> used = n + trailer_extra mode"
  by (cases mode)
    (auto simp: seal_On seal_Off frame_def trailer_extra_def TRAILER_BYTES_def overwrite_def)

text \<open>Opening a datagram accepts it exactly when it is a body of at most \<open>MAX_BODY\<close> bytes
  followed, with the checksum on, by the eight upper-case hexadecimal digits of that body's
  checksum; it returns that body.  A longer datagram is a size error and any other one a
  checksum error, which cannot happen with the checksum off.\<close>
theorem open_frame_exact:
  "(open_frame ck mode d = Inr body \<longleftrightarrow> d = frame ck mode body \<and> length body \<le> MAX_BODY) \<and>
   (open_frame ck mode d = Inl Size \<longleftrightarrow> MAX_BODY + trailer_extra mode < length d) \<and>
   (open_frame ck mode d = Inl Crc \<longleftrightarrow> mode = On \<and> length d \<le> MAX_DATAGRAM \<and>
      (\<forall>body. d \<noteq> frame ck On body)) \<and>
   open_frame ck mode d \<notin> {Inl Decode, Inl Validation, Inl Version}"
  by (cases mode)
    (auto simp: open_frame_Inr_iff open_frame_On open_frame_Off trailer_extra_def frame_sizes)

text \<open>Sealing a body held in a buffer fails exactly when the body or the buffer has the wrong
  size; otherwise it touches nothing but the trailer, reports the length of the frame, and
  opening the frame gives the body back.\<close>
theorem seal_open_round_trip:
  "(seal ck mode buffer n = Inl Size \<longleftrightarrow> MAX_BODY < n \<or> length buffer < n + trailer_extra mode) \<and>
   seal ck mode buffer n \<notin> Inl ` {Crc, Decode, Validation, Version} \<and>
   (case seal ck mode buffer n of
      Inl _ \<Rightarrow> True
    | Inr (out, used) \<Rightarrow>
        used = n + trailer_extra mode \<and> length out = length buffer \<and>
        take n out = take n buffer \<and> drop used out = drop used buffer \<and>
        open_frame ck mode (take used out) = Inr (take n buffer))"
proof (cases "seal ck mode buffer n")
  case (Inl e)
  then show ?thesis
    by (cases mode) (auto simp: seal_On seal_Off trailer_extra_def TRAILER_BYTES_def split: if_splits)
next
  case (Inr r)
  obtain out used where r: "r = (out, used)" by fastforce
  from Inr have sealed: "seal ck mode buffer n = Inr (out, used)" by (simp add: r)
  let ?f = "frame ck mode (take n buffer)"
  have size: "n \<le> MAX_BODY" "n + trailer_extra mode \<le> length buffer"
    and out: "out = overwrite buffer 0 ?f" and used: "used = n + trailer_extra mode"
    using sealed by (auto simp: seal_Inr_iff)
  have len: "length ?f = used" using size used by simp
  then have take_used: "take used out = ?f" "drop used out = drop used buffer"
    using out by (simp_all add: overwrite_def)
  have "take n out = take n (take used out)" using used by simp
  also have "\<dots> = take n buffer" using size by (simp add: take_used frame_def)
  finally show ?thesis
    using size used take_used len out Inr r by (simp add: open_frame_Inr_iff)
qed

section \<open>Corruption of one byte\<close>

definition detects_byte_errors :: "(bytes \<Rightarrow> u32) \<Rightarrow> bool" where
  "detects_byte_errors ck \<longleftrightarrow> (\<forall>xs a b ys. a \<noteq> b \<longrightarrow> ck (xs @ a # ys) \<noteq> ck (xs @ b # ys))"

text \<open>
  CRC-32C as a bit-serial register: reflected polynomial, initial value and final
  inversion all ones.
\<close>

definition crc32c_bit :: "u32 \<Rightarrow> u32" where
  "crc32c_bit c = (if bit c 0 then drop_bit 1 c XOR 0x82F63B78 else drop_bit 1 c)"

definition crc32c_byte :: "u32 \<Rightarrow> u8 \<Rightarrow> u32" where
  "crc32c_byte c b = (crc32c_bit ^^ 8) (c XOR ucast b)"

definition crc32c_reference :: "bytes \<Rightarrow> u32" where
  "crc32c_reference bs = NOT (foldl crc32c_byte (- 1) bs)"

lemma crc32c_byte_unfold:
  "crc32c_byte c b = crc32c_bit (crc32c_bit (crc32c_bit (crc32c_bit
     (crc32c_bit (crc32c_bit (crc32c_bit (crc32c_bit (c XOR ucast b))))))))"
proof -
  have "(8 :: nat) = Suc (Suc (Suc (Suc (Suc (Suc (Suc (Suc 0)))))))" by simp
  then show ?thesis unfolding crc32c_byte_def by (simp only: funpow.simps o_apply id_apply)
qed

lemma crc32c_check_value: "crc32c_reference (lit ''123456789'') = 0xE3069283"
  by (simp add: crc32c_reference_def crc32c_byte_unfold crc32c_bit_def)

lemma crc32c_bit_top: "bit (crc32c_bit c) 31 \<longleftrightarrow> bit c 0"
proof -
  have "bit (0x82F63B78 :: u32) 31" by simp
  moreover have "\<not> bit c 32" using bit_imp_le_length [of c 32] by auto
  ultimately show ?thesis
    by (simp add: crc32c_bit_def bit_xor_iff bit_drop_bit_eq)
qed

lemma xor_cancel [simp]:
  "a XOR c = b XOR c \<longleftrightarrow> a = b" "c XOR a = c XOR b \<longleftrightarrow> a = b" for a b c :: u32
  by (metis xor.assoc xor.commute xor_self_eq xor.left_neutral)+

lemma crc32c_bit_inj: "inj crc32c_bit"
proof (rule injI)
  fix x y
  assume eq: "crc32c_bit x = crc32c_bit y"
  then have b0: "bit x 0 = bit y 0" by (metis crc32c_bit_top)
  then have "drop_bit 1 x = drop_bit 1 y"
    using eq by (simp add: crc32c_bit_def split: if_splits)
  then have "bit (drop_bit 1 x) n = bit (drop_bit 1 y) n" for n by simp
  then have "bit x (Suc n) = bit y (Suc n)" for n by (simp add: bit_drop_bit_eq)
  then have "bit x n = bit y n" for n using b0 by (cases n) simp_all
  then show "x = y" by (simp add: bit_eq_iff)
qed

lemma crc32c_byte_inj: "crc32c_byte c a = crc32c_byte d b \<longleftrightarrow> c XOR ucast a = d XOR ucast b"
proof -
  have "inj (crc32c_bit ^^ 8)" by (rule inj_fn) (rule crc32c_bit_inj)
  then show ?thesis by (simp add: crc32c_byte_def inj_eq)
qed

lemma crc32c_fold_inj: "foldl crc32c_byte c bs = foldl crc32c_byte d bs \<longleftrightarrow> c = d"
  by (induction bs arbitrary: c d) (simp_all add: crc32c_byte_inj)

lemma crc32c_detects_byte_errors: "detects_byte_errors crc32c_reference"
proof -
  have "(ucast a :: u32) \<noteq> ucast b" if "a \<noteq> b" for a b :: u8
    using that by (metis unat_ucast_8_32 word_unat_eq_iff)
  then show ?thesis
    by (simp add: detects_byte_errors_def crc32c_reference_def crc32c_fold_inj crc32c_byte_inj)
qed

text \<open>C37: with the checksum on, a frame that opens is rejected with a checksum error after any
  change of a single byte, in the body or in the trailer, provided the checksum itself
  tells apart inputs that differ in one byte, as CRC-32C does.\<close>
theorem corrupted_frame_rejected:
  assumes "detects_byte_errors ck" and "open_frame ck On d = Inr body"
    and "i < length d" and "b \<noteq> d ! i"
  shows "open_frame ck On (d[i := b]) = Inl Crc"
proof -
  have d: "d = body @ trailer (ck body)" and size: "length body \<le> MAX_BODY"
    using assms(2) by (simp_all add: open_frame_Inr_iff frame_def)
  have "d[i := b] \<noteq> frame ck On body'" for body'
  proof
    assume frame: "d[i := b] = frame ck On body'"
    have "length (d[i := b]) = length body' + 8"
      unfolding frame by (simp add: trailer_extra_def TRAILER_BYTES_def)
    then have len: "length body' = length body" by (simp add: d)
    show False
    proof (cases "i < length body")
      case True
      then have eq: "body[i := b] = body'" "ck body = ck body'"
        using frame len by (auto simp: d frame_def list_update_append1 trailer_inj)
      have "body = take i body @ (d ! i) # drop (Suc i) body"
        using True by (simp add: d nth_append id_take_nth_drop)
      moreover have "body' = take i body @ b # drop (Suc i) body"
        using True eq(1) by (metis upd_conv_take_nth_drop)
      ultimately show False
        using assms(1,4) eq(2) unfolding detects_byte_errors_def by metis
    next
      case False
      then have "d[i := b] = body @ (trailer (ck body))[i - length body := b]"
        by (simp add: d list_update_append)
      then have "(trailer (ck body))[i - length body := b] = trailer (ck body)"
        using frame len by (auto simp: frame_def)
      then have "b = trailer (ck body) ! (i - length body)"
        using False assms(3) by (metis d length_append nth_list_update_eq less_diff_conv2 add.commute not_less)
      then show False using False assms(4) by (simp add: d nth_append)
    qed
  qed
  then show ?thesis
    using size by (simp add: open_frame_On d frame_sizes del: length_frame)
qed

theorem corrupted_frame_rejected_witness:
  "open_frame crc32c_reference On (lit ''123456789E3069283'') = Inr (lit ''123456789'') \<and>
   open_frame crc32c_reference On (lit ''12345678XE3069283'') = Inl Crc"
proof -
  have tr: "trailer 0xE3069283 = lit ''E3069283''"
    by (simp add: trailer_def TRAILER_BYTES_def upt_rec trailer_digit_def hex_upper_def)
  have "open_frame crc32c_reference On (lit ''123456789'' @ lit ''E3069283'') = Inr (lit ''123456789'')"
    unfolding open_frame_Inr_iff frame_def crc32c_check_value tr by (simp add: frame_sizes)
  then have ok: "open_frame crc32c_reference On (lit ''123456789E3069283'') = Inr (lit ''123456789'')"
    by simp
  show ?thesis
    using corrupted_frame_rejected [OF crc32c_detects_byte_errors ok, of 8 88] ok by simp
qed

end
