(* ===== verification/Framed_Codec.thy ===== *)
theory Framed_Codec
  imports Framing
begin

text \<open>
  The interface between framing and a body codec.  \<^verbatim>\<open>framing::encode\<close> and
  \<^verbatim>\<open>benchmark::encode\<close> encode a body into the buffer and then seal it;
  \<^verbatim>\<open>framing::decode\<close>, \<^verbatim>\<open>framing::parse\<close> and \<^verbatim>\<open>benchmark::decode\<close> open the frame
  and then decode the body.  What a codec promises (its decoder only yields valid messages,
  its encoder only takes valid ones, and decoding undoes encoding up to normalisation) then
  holds for whole datagrams, together with integrity of the transport.
\<close>

definition send_frame ::
  "(nat \<Rightarrow> codec_error + bytes) \<Rightarrow> (bytes \<Rightarrow> u32) \<Rightarrow> crc_mode \<Rightarrow> bytes \<Rightarrow> codec_error + bytes \<times> nat" where
  "send_frame encode ck mode out =
    r_bind (encode (length out)) (\<lambda>body. seal ck mode (overwrite out 0 body) (length body))"

definition receive_frame ::
  "(bytes \<Rightarrow> codec_error + 'm) \<Rightarrow> (bytes \<Rightarrow> u32) \<Rightarrow> crc_mode \<Rightarrow> bytes \<Rightarrow> codec_error + 'm" where
  "receive_frame decode ck mode datagram = r_bind (open_frame ck mode datagram) decode"

lemma send_frame_Inr_iff:
  "send_frame encode ck mode out = Inr (out', used) \<longleftrightarrow>
    (\<exists>body. encode (length out) = Inr body \<and>
      seal ck mode (overwrite out 0 body) (length body) = Inr (out', used))"
  by (simp add: send_frame_def r_bind_Inr_iff)

lemma take_overwrite_0 [simp]: "take (length b) (overwrite out 0 b) = b"
  by (simp add: overwrite_def)

lemma sent_frame:
  assumes "send_frame encode ck mode out = Inr (out', used)"
  obtains body where "encode (length out) = Inr body" and "length body \<le> MAX_BODY"
    and "take used out' = frame ck mode body" and "used = length body + trailer_extra mode"
proof -
  obtain body where b: "encode (length out) = Inr body"
    "seal ck mode (overwrite out 0 body) (length body) = Inr (out', used)"
    using assms by (auto simp: send_frame_Inr_iff)
  then have "length body \<le> MAX_BODY" "used = length body + trailer_extra mode"
    "out' = overwrite (overwrite out 0 body) 0 (frame ck mode body)"
    by (auto simp: seal_Inr_iff)
  then show ?thesis using that b by (simp add: overwrite_def)
qed

lemma receive_frame_frame:
  "length body \<le> MAX_BODY \<Longrightarrow> receive_frame decode ck mode (frame ck mode body) = decode body"
  using open_frame_Inr_iff [of ck mode "frame ck mode body" body] by (simp add: receive_frame_def)

locale framed_codec =
  fixes enc :: "'k \<Rightarrow> 'm \<Rightarrow> nat \<Rightarrow> codec_error + bytes"
    and dec :: "'k \<Rightarrow> bytes \<Rightarrow> codec_error + 'm"
    and norm :: "'m \<Rightarrow> 'm"
    and valid :: "'k \<Rightarrow> 'm \<Rightarrow> bool"
    and faithful :: "'k \<Rightarrow> 'm \<Rightarrow> bool"
  assumes enc_valid: "enc k m cap = Inr body \<Longrightarrow> valid k m"
    and dec_valid: "dec k body = Inr m \<Longrightarrow> valid k m"
    and dec_enc: "faithful k m \<Longrightarrow> enc k m cap = Inr body \<Longrightarrow> length body \<le> MAX_BODY \<Longrightarrow>
      dec k body = Inr (norm m)"
    and dec_integrity: "dec k body \<noteq> Inl Crc"
begin

lemma sent_is_valid: "send_frame (enc k m) ck mode out = Inr r \<Longrightarrow> valid k m"
  by (cases r) (auto simp: send_frame_Inr_iff intro: enc_valid)

lemma received_is_valid: "receive_frame (dec k) ck mode d = Inr m \<Longrightarrow> valid k m"
  by (auto simp: receive_frame_def r_bind_Inr_iff intro: dec_valid)

lemma sent_is_received:
  assumes "faithful k m" and "send_frame (enc k m) ck mode out = Inr (out', used)"
  shows "used \<le> MAX_DATAGRAM \<and> receive_frame (dec k) ck mode (take used out') = Inr (norm m)"
proof -
  obtain body where b: "enc k m (length out) = Inr body" "length body \<le> MAX_BODY"
    "take used out' = frame ck mode body" "used = length body + trailer_extra mode"
    using sent_frame [OF assms(2)] by blast
  show ?thesis
    using b dec_enc [OF assms(1) b(1,2)] by (simp add: receive_frame_frame frame_sizes trailer_extra_def)
qed

lemma crc_error_iff:
  "receive_frame (dec k) ck mode d = Inl Crc \<longleftrightarrow>
    mode = On \<and> length d \<le> MAX_DATAGRAM \<and> (\<forall>body. d \<noteq> frame ck On body)"
proof -
  have "receive_frame (dec k) ck mode d = Inl Crc \<longleftrightarrow> open_frame ck mode d = Inl Crc"
    using dec_integrity by (auto simp: receive_frame_def r_bind_Inl_iff)
  then show ?thesis by (cases mode) (auto simp: open_frame_On open_frame_Off)
qed

end

end
