(* ===== verification/Codec.thy ===== *)
theory Codec
  imports Csv_Record Framed_Codec
begin

text \<open>
  \<^verbatim>\<open>Rust/messaging/src/lib.rs\<close>: \<^verbatim>\<open>parse\<close>, \<^verbatim>\<open>decode\<close>, \<^verbatim>\<open>normalize\<close> and \<^verbatim>\<open>encode\<close>
  for the three formats (all features enabled), and the datagram functions of
  \<^verbatim>\<open>framing.rs\<close>.  The JSON crate (\<^verbatim>\<open>serde-json-core\<close> with the derived
  implementations), the Protobuf crate (\<^verbatim>\<open>micropb\<close>) and the CSV crate are the fields of
  \<open>codec_lib\<close>.  An encoder is given the room in the output buffer and returns the bytes it
  wrote there.
\<close>

record ('w, 'm, 'p) codec_lib =
  csv_of :: "'w csv_lib"
  json_from :: "bytes \<Rightarrow> nat \<Rightarrow> ('m \<times> nat) option"
  json_to :: "'m \<Rightarrow> nat \<Rightarrow> bytes option"
  pb_decode :: "bytes \<Rightarrow> 'p option"
  pb_encode :: "'p \<Rightarrow> nat \<Rightarrow> bytes option"

type_synonym 'w message_lib = "('w, envelope, pb_envelope) codec_lib"

section \<open>Parsing\<close>

text \<open>
  The scan that rejects raw control bytes inside JSON strings, which the crate accepts.
\<close>

fun json_controls :: "bool \<Rightarrow> bool \<Rightarrow> bytes \<Rightarrow> bool" where
  "json_controls in_string escaped [] = True"
| "json_controls in_string escaped (b # bs) =
     (if in_string \<and> b < 0x20 then False
      else if escaped then json_controls in_string False bs
      else if in_string \<and> b = 92 then json_controls in_string True bs
      else if b = 34 then json_controls (\<not> in_string) False bs
      else json_controls in_string False bs)"

definition json_space :: "u8 \<Rightarrow> bool" where
  "json_space b \<longleftrightarrow> b = 32 \<or> b = 13 \<or> b = 10 \<or> b = 9"

definition json_parse :: "('w, 'm, 'p) codec_lib \<Rightarrow> bytes \<Rightarrow> codec_error + 'm" where
  "json_parse lib bs =
    (if \<not> json_controls False False bs then Inl Decode
     else r_bind (ok_or (json_from lib bs MAX_BODY) Decode) (\<lambda>(m, used).
       if list_ex (\<lambda>b. \<not> json_space b) (drop used bs) then Inl Decode else Inr m))"

definition parse :: "'w message_lib \<Rightarrow> wire_format \<Rightarrow> bytes \<Rightarrow> codec_error + envelope" where
  "parse lib format bs =
    (if bs = [] then Inl Decode
     else if MAX_BODY < length bs then Inl Size
     else case format of
       Csv \<Rightarrow> csv_decode (csv_of lib) bs
     | Json \<Rightarrow> json_parse lib bs
     | Protobuf \<Rightarrow> r_bind (ok_or (pb_decode lib bs) Decode) (\<lambda>p. Inr (envelope_from_pb p)))"

section \<open>Decoding and encoding\<close>

definition normalize :: "envelope \<Rightarrow> envelope" where
  "normalize m =
    (case status_body m of
      None \<Rightarrow> m
    | Some s \<Rightarrow>
        if is_some_and (\<lambda>t. f32_eq t f32_zero) (temperature_celsius s)
        then m\<lparr>status_body := Some (s\<lparr>temperature_celsius := Some f32_zero\<rparr>)\<rparr>
        else m)"

definition decode :: "'w message_lib \<Rightarrow> wire_format \<Rightarrow> bytes \<Rightarrow> codec_error + envelope" where
  "decode lib format bs =
    r_bind (parse lib format bs) (\<lambda>m.
    r_bind (validate m format) (\<lambda>_. Inr (normalize m)))"

definition pb_bytes :: "('w, 'm, 'p) codec_lib \<Rightarrow> 'p \<Rightarrow> nat \<Rightarrow> codec_error + bytes" where
  "pb_bytes lib p capacity =
    r_bind (ok_or (pb_encode lib p MAX_BODY) Size) (\<lambda>bs.
      if capacity < length bs then Inl Size else Inr bs)"

definition encode :: "'w message_lib \<Rightarrow> wire_format \<Rightarrow> envelope \<Rightarrow> nat \<Rightarrow> codec_error + bytes" where
  "encode lib format m room =
    r_bind (validate m format) (\<lambda>_.
      let normalized = normalize m;
          capacity = min room MAX_BODY
      in case format of
           Csv \<Rightarrow> csv_encode (csv_of lib) normalized capacity
         | Json \<Rightarrow> ok_or (json_to lib normalized capacity) Size
         | Protobuf \<Rightarrow> pb_bytes lib (envelope_to_pb normalized) capacity)"

definition framing_encode ::
  "'w message_lib \<Rightarrow> (bytes \<Rightarrow> u32) \<Rightarrow> wire_format \<Rightarrow> crc_mode \<Rightarrow> envelope \<Rightarrow> bytes \<Rightarrow>
    codec_error + bytes \<times> nat" where
  "framing_encode lib ck format mode m out = send_frame (encode lib format m) ck mode out"

definition framing_parse ::
  "'w message_lib \<Rightarrow> (bytes \<Rightarrow> u32) \<Rightarrow> wire_format \<Rightarrow> crc_mode \<Rightarrow> bytes \<Rightarrow> codec_error + envelope" where
  "framing_parse lib ck format mode bs = receive_frame (parse lib format) ck mode bs"

definition framing_decode ::
  "'w message_lib \<Rightarrow> (bytes \<Rightarrow> u32) \<Rightarrow> wire_format \<Rightarrow> crc_mode \<Rightarrow> bytes \<Rightarrow> codec_error + envelope" where
  "framing_decode lib ck format mode bs = receive_frame (decode lib format) ck mode bs"

section \<open>Normalisation\<close>

lemma f32_eq_zero: "f32_eq t f32_zero \<longleftrightarrow> t = 0 \<or> t = 0x80000000"
proof
  assume "f32_eq t f32_zero"
  then have "f32_key t = 0"
    by (simp add: f32_eq_def f32_key_def [of 0] f32_magnitude_def f32_negative_def)
  then have "unat t mod 2147483648 = 0"
    by (simp add: f32_key_def f32_magnitude_def split: if_splits)
  then obtain q where "unat t = 2147483648 * q" by auto
  then have "unat t = 0 \<or> unat t = 2147483648" using unat_u32_bound [of t] by (cases q) auto
  then show "t = 0 \<or> t = 0x80000000"
  proof
    assume "unat t = 2147483648"
    then have "(of_nat (unat t) :: f32) = of_nat 2147483648" by (simp only:)
    then show ?thesis by simp
  qed (simp add: unat_eq_zero)
next
  have "f32_eq 0 f32_zero" "f32_eq 0x80000000 f32_zero"
    by (simp_all add: f32_eq_def f32_key_def f32_magnitude_def f32_negative_def f32_is_nan_def
        f32_exponent_def f32_fraction_def)
  moreover assume "t = 0 \<or> t = 0x80000000"
  ultimately show "f32_eq t f32_zero" by blast
qed

lemma temperature_ok_zero: "temperature_ok 0" "temperature_ok 0x80000000"
  by (simp_all add: temperature_ok_def f32_le_def f32_is_nan_def f32_is_finite_def f32_exponent_def
      f32_fraction_def f32_key_def f32_negative_def f32_magnitude_def)

lemma normalize_cases:
  "normalize m = m \<or> (\<exists>s t. status_body m = Some s \<and> temperature_celsius s = Some t \<and>
    (t = 0 \<or> t = 0x80000000) \<and>
    normalize m = m\<lparr>status_body := Some (s\<lparr>temperature_celsius := Some 0\<rparr>)\<rparr>)"
  by (auto simp: normalize_def is_some_and_iff f32_eq_zero split: option.splits)

lemma normalize_idem [simp]: "normalize (normalize m) = normalize m"
  using normalize_cases [of m] by (elim disjE exE conjE) (simp_all add: normalize_def f32_eq_zero)

lemma validate_normalize: "validate (normalize m) f = validate m f"
proof -
  have other: "body_count (m\<lparr>status_body := Some s'\<rparr>) = body_count m"
    "kind_body (m\<lparr>status_body := Some s'\<rparr>) k = kind_body m k"
    "correlation (m\<lparr>status_body := Some s'\<rparr>) = correlation m"
    if "status_body m \<noteq> None" for s' k
    using that by (simp_all add: body_count_def body_flags_def kind_body_def correlation_def)
  consider "normalize m = m" | s t where "status_body m = Some s" "temperature_celsius s = Some t"
      "t = 0 \<or> t = 0x80000000"
      "normalize m = m\<lparr>status_body := Some (s\<lparr>temperature_celsius := Some 0\<rparr>)\<rparr>"
    using normalize_cases [of m] by blast
  then show ?thesis
  proof cases
    case (2 s t)
    note s = 2(1,2) and t = 2(3) and n = 2(4)
    have "validate_status (s\<lparr>temperature_celsius := Some 0\<rparr>) = validate_status s"
      using s(2) t temperature_ok_zero by (auto simp: validate_status_def)
    then show ?thesis by (simp add: n validate_def s other Let_def cong: if_cong)
  qed simp
qed

lemma normalize_typed: "envelope_typed (normalize m) = envelope_typed m"
  using normalize_cases [of m] by (auto simp: envelope_typed_def)

lemma json_parse_no_crc: "json_parse lib bs \<noteq> Inl Crc"
  by (auto simp: json_parse_def r_bind_Inl_iff ok_or_def split: option.splits if_splits)

lemma cut_fields_no_crc:
  "(\<And>v. try_text v \<noteq> Inl Crc) \<Longrightarrow> cut_fields try_text limit data start ends cells \<noteq> Inl Crc"
  by (induction try_text limit data start ends cells rule: cut_fields.induct)
    (auto simp: r_bind_Inl_iff ok_or_def split: option.splits)

lemma read_fields_no_crc:
  "(\<And>v. try_text v \<noteq> Inl Crc) \<Longrightarrow> read_fields lib try_text limit bs \<noteq> Inl Crc"
  using cut_fields_no_crc [of try_text]
  by (auto simp: read_fields_def r_bind_Inl_iff check_record_def Let_def
      split: option.splits if_splits prod.splits)

lemma cell_no_crc: "(rd t \<noteq> Inl Crc) \<Longrightarrow> cell rd t \<noteq> Inl Crc"
  by (simp add: cell_def r_bind_Inl_iff)

lemma cell_types_no_crc [simp]:
  "cell read_u32 t \<noteq> Inl Crc" "cell read_i32 t \<noteq> Inl Crc" "cell read_bool t \<noteq> Inl Crc"
  "cell read_f32 t \<noteq> Inl Crc" "cell (read_str n) t \<noteq> Inl Crc"
  by (auto simp: cell_def r_bind_Inl_iff read_u32_def read_i32_def read_integer_def read_bool_def
      read_f32_def read_str_def ok_or_def push_str_def split: option.splits if_splits)

lemma read_body_no_crc: "read_body cells out \<noteq> Inl Crc"
  by (auto simp: read_body_def r_bind_Inl_iff read_info_def read_status_def read_health_def
      split: option.splits)

lemma from_cells_no_crc: "from_cells cells \<noteq> Inl Crc"
  by (auto simp: from_cells_def r_bind_Inl_iff read_body_no_crc)

lemma decode_no_crc: "decode lib f bs \<noteq> Inl Crc"
proof
  assume "decode lib f bs = Inl Crc"
  then have "parse lib f bs = Inl Crc"
    using validate_errors by (auto simp: decode_def r_bind_Inl_iff)
  moreover have "text_128 v \<noteq> Inl Crc" for v by (simp add: text_128_def)
  ultimately show False
    using read_fields_no_crc [of text_128]
    by (auto simp: parse_def csv_decode_def r_bind_Inl_iff from_cells_no_crc json_parse_no_crc ok_or_def
        split: wire_format.splits option.splits if_splits)
qed

section \<open>Encoding and decoding\<close>

text \<open>
  What is asked of the third-party crates for one message \<open>m\<close>: the CSV crate renders and
  parses the row of cells, and the float formatter writes a text that reads back as the
  temperature; the JSON crate reads what it wrote, to the end, and escapes control bytes;
  the Protobuf crate reads what it wrote.
\<close>

definition csv_faithful :: "'w csv_lib \<Rightarrow> envelope \<Rightarrow> bool" where
  "csv_faithful lib m \<longleftrightarrow> envelope_typed m \<and>
    (\<forall>s v. status_body m = Some s \<longrightarrow> temperature_celsius s = Some v \<longrightarrow>
      ryu_reads_back (ryu_format lib) v) \<and>
    (\<forall>cells. to_cells (ryu_format lib) m = Inr cells \<longrightarrow>
      csv_renders lib cells \<and> csv_parses lib 16 cells)"

definition json_faithful :: "('w, 'm, 'p) codec_lib \<Rightarrow> 'm \<Rightarrow> bool" where
  "json_faithful lib m \<longleftrightarrow> (\<forall>room bs. json_to lib m room = Some bs \<longrightarrow>
    bs \<noteq> [] \<and> json_controls False False bs \<and> json_from lib bs MAX_BODY = Some (m, length bs))"

definition pb_faithful :: "('w, 'm, 'p) codec_lib \<Rightarrow> 'p \<Rightarrow> bool" where
  "pb_faithful lib p \<longleftrightarrow> (\<forall>bs. pb_encode lib p MAX_BODY = Some bs \<longrightarrow>
    bs \<noteq> [] \<and> pb_decode lib bs = Some p)"

definition lib_faithful :: "'w message_lib \<Rightarrow> wire_format \<Rightarrow> envelope \<Rightarrow> bool" where
  "lib_faithful lib format m =
    (case format of
      Csv \<Rightarrow> csv_faithful (csv_of lib) m
    | Json \<Rightarrow> json_faithful lib m
    | Protobuf \<Rightarrow> pb_faithful lib (envelope_to_pb m))"

lemma csv_round_trip:
  assumes "validate m f = Inr ()" and "csv_faithful lib m" and "csv_encode lib m cap = Inr bs"
  shows "bs \<noteq> [] \<and> csv_decode lib bs = Inr m"
proof -
  obtain cells where cells: "to_cells (ryu_format lib) m = Inr cells" "8 \<le> length cells" "length cells \<le> 13"
    "from_cells cells = Inr m" "list_all text_ok cells"
    using cells_round_trip [OF assms(1), of "ryu_format lib"] assms(2)
    by (auto simp: csv_faithful_def returns_def)
  then have lib: "csv_renders lib cells" "csv_parses lib 16 cells"
    using assms(2) by (simp_all add: csv_faithful_def)
  then have bs: "bs = csv_line cells"
    using assms(3) cells(1) by (auto simp: csv_encode_def csv_renders_def split: if_splits)
  have "cells \<noteq> []" "length cells \<le> 16" using cells(2,3) by auto
  moreover have "\<forall>c \<in> set cells. no_break c \<and> utf8_valid c \<and> text_128 c = Inr c"
    using cells(5) by (auto simp: list_all_iff text_ok_def line_text_def text_128_def)
  ultimately have "read_fields lib text_128 16 bs = Inr cells"
    unfolding bs using lib(2) by (intro read_fields_line)
  then show ?thesis
    using cells(4) bs by (simp add: csv_decode_def csv_line_def CRLF_def)
qed

lemma json_round_trip:
  "json_faithful lib m \<Longrightarrow> json_to lib m room = Some bs \<Longrightarrow> bs \<noteq> [] \<and> json_parse lib bs = Inr m"
  by (simp add: json_faithful_def json_parse_def)

lemma validate_body_count: "validate m f = Inr () \<Longrightarrow> body_count m = 1"
  by (simp add: validate_iff)

lemma decode_encode:
  assumes "lib_faithful lib f (normalize m)" and "encode lib f m room = Inr bs" and "length bs \<le> MAX_BODY"
  shows "decode lib f bs = Inr (normalize m)"
proof -
  have valid: "validate (normalize m) f = Inr ()"
    using assms(2) by (auto simp: encode_def r_bind_Inr_iff validate_normalize)
  have "bs \<noteq> [] \<and> parse lib f bs = Inr (normalize m)"
  proof (cases f)
    case Csv
    then show ?thesis
      using assms csv_round_trip [OF valid] by (auto simp: encode_def r_bind_Inr_iff parse_def lib_faithful_def)
  next
    case Json
    then show ?thesis
      using assms json_round_trip [of lib "normalize m"]
      by (auto simp: encode_def r_bind_Inr_iff ok_or_Inr_iff parse_def lib_faithful_def)
  next
    case Protobuf
    have "envelope_from_pb (envelope_to_pb (normalize m)) = normalize m"
      using pb_conversion_identity validate_body_count [OF valid] by simp
    then show ?thesis
      using assms Protobuf
      by (auto simp: encode_def r_bind_Inr_iff ok_or_Inr_iff parse_def lib_faithful_def pb_bytes_def
          pb_faithful_def split: if_splits)
  qed
  then show ?thesis using valid by (simp add: decode_def)
qed

interpretation message_codec: framed_codec
  "\<lambda>(lib, f) m. encode lib f m" "\<lambda>(lib, f). decode lib f" normalize
  "\<lambda>(lib, f) m. validate m f = Inr ()" "\<lambda>(lib, f) m. lib_faithful lib f (normalize m)"
proof (unfold_locales, goal_cases)
  case (1 k m cap body)
  then show ?case by (cases k) (auto simp: encode_def r_bind_Inr_iff)
next
  case (2 k body m)
  then show ?case by (cases k) (auto simp: decode_def r_bind_Inr_iff validate_normalize)
next
  case (3 k m cap body)
  then show ?case by (cases k) (auto intro: decode_encode)
next
  case (4 k body)
  then show ?case by (cases k) (simp add: decode_no_crc)
qed

section \<open>Properties\<close>

lemma decode_facts:
  "decode lib f bs = Inr m \<Longrightarrow> bs \<noteq> [] \<and> length bs \<le> MAX_BODY \<and> validate m f = Inr () \<and> normalize m = m"
  by (auto simp: decode_def parse_def r_bind_Inr_iff validate_normalize split: if_splits)

text \<open>C1: whatever bytes arrive and whatever the parsing crates make of them, a datagram that is
  decoded is an intact frame of a nonempty body of at most \<open>MAX_BODY\<close> bytes, and the result
  is a well-formed protocol message in normal form.\<close>
theorem decoded_datagram_is_protocol:
  assumes "framing_decode lib ck f mode d = Inr m"
  shows "(\<exists>msg. message_ok msg \<and> m = to_envelope f msg) \<and> normalize m = m \<and>
    (\<exists>body. d = frame ck mode body \<and> body \<noteq> [] \<and> length body \<le> MAX_BODY)"
proof -
  obtain body where body: "open_frame ck mode d = Inr body" "decode lib f body = Inr m"
    using assms by (auto simp: framing_decode_def receive_frame_def r_bind_Inr_iff)
  show ?thesis
    using body(1) decode_facts [OF body(2)] by (auto simp: open_frame_Inr_iff validate_Inr_iff)
qed

text \<open>A concrete instance of the third-party crates for one message \<open>m\<close>, for the witnesses.\<close>

definition sample_lib :: "envelope \<Rightarrow> unit message_lib" where
  "sample_lib m =
    \<lparr>csv_of = \<lparr>csv_reader = (\<lambda>_ _ _. \<lparr>read_is_record = False, read_used = 0, read_written = 0,
        read_data = [], read_ends = []\<rparr>),
       csv_writer = (), csv_field = (\<lambda>w x n. (\<lparr>out_full = n < length x, out_consumed = length x, out_bytes = x\<rparr>, w)),
       csv_delimiter = (\<lambda>w n. (\<lparr>out_full = n < 1, out_consumed = 0, out_bytes = [44]\<rparr>, w)),
       csv_terminator = (\<lambda>w n. (\<lparr>out_full = n < 2, out_consumed = 0, out_bytes = [13, 10]\<rparr>, w)),
       ryu_format = (\<lambda>_. [])\<rparr>,
     json_from = (\<lambda>bs _. if bs = lit ''{}'' then Some (m, 2) else None),
     json_to = (\<lambda>_ room. if 2 \<le> room then Some (lit ''{}'') else None),
     pb_decode = (\<lambda>bs. if bs = [8, 1] then Some (envelope_to_pb m) else None),
     pb_encode = (\<lambda>_ room. if 2 \<le> room then Some [8, 1] else None)\<rparr>"

definition sample_message :: message where
  "sample_message = Request (lit ''board-01'') (lit ''123456789abcdef0'') 1 Ask_Health"

lemma sample_message_ok: "message_ok sample_message"
  by (simp add: sample_message_def device_name_def hex_token_def ascii_defs)

lemma sample_normal: "normalize (to_envelope f sample_message) = to_envelope f sample_message"
  by (simp add: sample_message_def normalize_def to_envelope.simps envelope_default_def)

lemma sample_pb_identity:
  "envelope_from_pb (envelope_to_pb (to_envelope f sample_message)) = to_envelope f sample_message"
  using validate_body_count [OF validate_sound [OF sample_message_ok]] by (simp add: pb_conversion_identity)

lemma sample_decode:
  "decode (sample_lib (to_envelope Protobuf sample_message)) Protobuf [8, 1] = Inr (to_envelope Protobuf sample_message)"
  using validate_sound [OF sample_message_ok, of Protobuf]
  by (simp add: decode_def parse_def sample_lib_def sample_pb_identity sample_normal MAX_BODY_def)

theorem decoded_datagram_is_protocol_witness:
  "\<exists>msg m. message_ok msg \<and> m = to_envelope Protobuf msg \<and>
    framing_decode (sample_lib (to_envelope Protobuf sample_message)) crc32c_reference Protobuf Off [8, 1] = Inr m"
proof -
  have run: "framing_decode (sample_lib (to_envelope Protobuf sample_message)) crc32c_reference Protobuf Off [8, 1]
      = Inr (to_envelope Protobuf sample_message)"
    by (simp add: framing_decode_def receive_frame_def open_frame_Off MAX_BODY_def sample_decode)
  show ?thesis using decoded_datagram_is_protocol [OF run] run by blast
qed

text \<open>C2: a message that is encoded into a buffer as a datagram is a well-formed protocol message,
  the datagram fits 1024 bytes, and when the third-party crates read back what they
  write the receiver decodes it to the same message, with a negative zero temperature
  turned into zero.\<close>
theorem datagram_round_trip:
  assumes "lib_faithful lib f (normalize m)" and "framing_encode lib ck f mode m out = Inr (out', used)"
  shows "(\<exists>msg. message_ok msg \<and> m = to_envelope f msg) \<and> used \<le> 1024 \<and> used \<le> length out' \<and>
    framing_decode lib ck f mode (take used out') = Inr (normalize m)"
proof -
  have "validate m f = Inr ()"
    using message_codec.sent_is_valid [of "(lib, f)" m ck mode out] assms(2) by (simp add: framing_encode_def)
  moreover have "used \<le> MAX_DATAGRAM \<and> framing_decode lib ck f mode (take used out') = Inr (normalize m)"
    using message_codec.sent_is_received [of "(lib, f)" m ck mode out out' used] assms
    by (simp add: framing_encode_def framing_decode_def)
  moreover have "used \<le> length out'"
    using assms(2) by (auto simp: framing_encode_def send_frame_Inr_iff seal_Inr_iff overwrite_def)
  ultimately show ?thesis by (simp add: validate_Inr_iff frame_sizes)
qed

theorem datagram_round_trip_witness:
  "\<exists>out'. framing_encode (sample_lib (to_envelope Protobuf sample_message)) crc32c_reference Protobuf On
      (to_envelope Protobuf sample_message) (replicate 16 0) = Inr (out', 10) \<and>
    framing_decode (sample_lib (to_envelope Protobuf sample_message)) crc32c_reference Protobuf On (take 10 out')
      = Inr (to_envelope Protobuf sample_message)"
proof -
  let ?m = "to_envelope Protobuf sample_message"
  have faithful: "lib_faithful (sample_lib ?m) Protobuf (normalize ?m)"
    by (simp add: lib_faithful_def pb_faithful_def sample_lib_def sample_normal)
  have "encode (sample_lib ?m) Protobuf ?m 16 = Inr [8, 1]"
    using validate_sound [OF sample_message_ok, of Protobuf]
    by (simp add: encode_def pb_bytes_def sample_lib_def MAX_BODY_def)
  then obtain out' where run: "framing_encode (sample_lib ?m) crc32c_reference Protobuf On ?m (replicate 16 0) = Inr (out', 10)"
    by (simp add: framing_encode_def send_frame_def seal_On overwrite_def MAX_BODY_def)
  show ?thesis using datagram_round_trip [OF faithful run] run by (simp add: sample_normal)
qed

text \<open>The receiver reports a checksum error exactly for a datagram of admissible size that is
  not the frame of any body, before any parsing; nothing later reports that error.\<close>
theorem integrity_before_decoding:
  "framing_decode lib ck f mode d = Inl Crc \<longleftrightarrow>
    mode = On \<and> length d \<le> MAX_DATAGRAM \<and> (\<nexists>body. d = frame ck On body)"
  using message_codec.crc_error_iff [of "(lib, f)" ck mode d] by (simp add: framing_decode_def)

end
