(* ===== verification/Token_Bucket.thy ===== *)
theory Token_Bucket
  imports Prelude
begin

text \<open>
  The contract of the two rate limiters of the program (error replies of the command
  service, control replies of the benchmark service).  \<open>level\<close> is the credit held, in the
  unit of time that earns it; \<open>clock\<close> is the instant up to which credit has been earned;
  \<open>seen\<close> the latest instant the limiter was asked at.  Handling an event earns at most
  the time the clock moves, never exceeds \<open>cap\<close>, and pays \<open>cost\<close> for a grant.  What
  this bounds over any run of events is proved once here.
\<close>

fun exec_all :: "('s \<Rightarrow> 'e \<Rightarrow> 's \<times> 'r) \<Rightarrow> 's \<Rightarrow> 'e list \<Rightarrow> 's \<times> 'r list" where
  "exec_all f s [] = (s, [])"
| "exec_all f s (e # es) =
     (let (s1, r) = f s e; (s2, rs) = exec_all f s1 es in (s2, r # rs))"

lemma exec_all_Cons:
  "exec_all f s (e # es) = (s2, rs) \<longleftrightarrow>
    (\<exists>s1 r rs1. f s e = (s1, r) \<and> exec_all f s1 es = (s2, rs1) \<and> rs = r # rs1)"
  by (auto split: prod.splits)

lemma exec_all_length: "exec_all f s es = (s', rs) \<Longrightarrow> length rs = length es"
  by (induction es arbitrary: s rs) (auto split: prod.splits)

fun in_order :: "('s \<Rightarrow> 'e \<Rightarrow> 's \<times> 'r) \<Rightarrow> ('s \<Rightarrow> 'e \<Rightarrow> bool) \<Rightarrow> 's \<Rightarrow> 'e list \<Rightarrow> bool" where
  "in_order f ok s [] = True"
| "in_order f ok s (e # es) = (ok s e \<and> in_order f ok (fst (f s e)) es)"

definition count_of :: "('r \<Rightarrow> bool) \<Rightarrow> 'r list \<Rightarrow> nat" where
  "count_of p rs = length (filter p rs)"

lemma count_of_simps [simp]:
  "count_of p [] = 0"
  "count_of p (r # rs) = (if p r then 1 else 0) + count_of p rs"
  by (simp_all add: count_of_def)

locale token_bucket =
  fixes inv :: "'s \<Rightarrow> bool"
    and cap :: nat
    and cost :: nat
    and level :: "'s \<Rightarrow> nat"
    and clock :: "'s \<Rightarrow> nat"
    and seen :: "'s \<Rightarrow> nat"
    and instant :: "'s \<Rightarrow> 'e \<Rightarrow> nat"
    and exec :: "'s \<Rightarrow> 'e \<Rightarrow> 's \<times> 'r"
    and granted :: "'r \<Rightarrow> bool"
  assumes inv_level: "inv s \<Longrightarrow> level s \<le> cap \<and> clock s \<le> seen s"
    and exec_law: "inv s \<Longrightarrow> seen s \<le> instant s e \<Longrightarrow> exec s e = (s', r) \<Longrightarrow>
      inv s' \<and> seen s' \<le> instant s e \<and> seen s \<le> seen s' \<and> clock s \<le> clock s' \<and>
      level s' + (if granted r then cost else 0) \<le> level s + (clock s' - clock s)"
begin

definition timely :: "'s \<Rightarrow> 'e list \<Rightarrow> bool" where
  "timely = in_order exec (\<lambda>s e. seen s \<le> instant s e)"

lemma grants_bounded:
  assumes "inv s" and "timely s es" and "exec_all exec s es = (s', rs)"
  shows "inv s' \<and> seen s \<le> seen s' \<and> clock s \<le> clock s' \<and>
    level s' + count_of granted rs * cost \<le> level s + (clock s' - clock s)"
  using assms
proof (induction es arbitrary: s rs)
  case Nil
  then show ?case by simp
next
  case (Cons e es)
  obtain s1 r rs1 where s1: "exec s e = (s1, r)" and rs1: "exec_all exec s1 es = (s', rs1)"
    and rs: "rs = r # rs1"
    using Cons.prems(3) unfolding exec_all_Cons by blast
  have law: "inv s1 \<and> seen s1 \<le> instant s e \<and> seen s \<le> seen s1 \<and> clock s \<le> clock s1 \<and>
      level s1 + (if granted r then cost else 0) \<le> level s + (clock s1 - clock s)"
    using Cons.prems(1,2) s1 by (intro exec_law) (simp_all add: timely_def)
  have "inv s' \<and> seen s1 \<le> seen s' \<and> clock s1 \<le> clock s' \<and>
      level s' + count_of granted rs1 * cost \<le> level s1 + (clock s' - clock s1)"
    using Cons.prems(2) s1 rs1 law by (intro Cons.IH) (simp_all add: timely_def)
  then show ?case using law rs by (auto simp: algebra_simps)
qed

lemma grant_rate:
  assumes "inv s" and "timely s es" and "exec_all exec s es = (s', rs)"
  shows "count_of granted rs * cost \<le> cap + (seen s' - clock s)"
  using grants_bounded [OF assms] inv_level [of s] inv_level [of s'] assms(1) by auto

end

end
