(* ===== verification/Command_Service.thy ===== *)
theory Command_Service
  imports Validation Token_Bucket
begin

text \<open>
  \<^verbatim>\<open>Rust/messaging/src/service.rs\<close>: the decision a server takes on a received message
  (\<open>assess\<close> of the command policy, with its budget of error replies) and the health
  counters.  The policy and the counters are passed in and returned.
\<close>

section \<open>The command policy\<close>

datatype decision = Accept | Error_Reply i32 | Ignore | Rate_Limited

record assessment =
  decision :: decision
  rejection :: "codec_error option"

record command_policy =
  credits_ms :: u64
  updated_ms :: u64

definition command_policy_new :: "u64 \<Rightarrow> command_policy" where
  "command_policy_new now = \<lparr>credits_ms = 1000, updated_ms = now\<rparr>"

definition is_request_kind :: "envelope \<Rightarrow> bool" where
  "is_request_kind m = is_some_and (i32_between 1 3) (kind m)"

definition is_reply_kind :: "envelope \<Rightarrow> bool" where
  "is_reply_kind m = is_some_and (\<lambda>k. i32_between 11 14 k \<or> k = 21 \<or> k = 22) (kind m)"

definition assess ::
  "command_policy \<Rightarrow> envelope \<Rightarrow> wire_format \<Rightarrow> bytes \<Rightarrow> u64 \<Rightarrow> command_policy \<times> assessment" where
  "assess p request format device now =
    (let validity = validate request format;
         is_request = is_request_kind request;
         target = (device_id request = Some device)
     in if is_ok validity \<and> is_request \<and> target
        then (p, \<lparr>decision = Accept, rejection = None\<rparr>)
        else
          (let rejected = Some (case validity of Inl e \<Rightarrow> e | Inr _ \<Rightarrow> Validation)
           in if \<not> target \<or> \<not> correlation request \<or> is_reply_kind request
              then (p, \<lparr>decision = Ignore, rejection = rejected\<rparr>)
              else
                (let credits = min (sat_add (credits_ms p) (sat_sub now (updated_ms p))) 1000;
                     p1 = p\<lparr>credits_ms := credits, updated_ms := now\<rparr>
                 in if credits < 100
                    then (p1, \<lparr>decision = Rate_Limited, rejection = rejected\<rparr>)
                    else (p1\<lparr>credits_ms := credits - 100\<rparr>,
                          \<lparr>decision = Error_Reply
                             (if is_some (kind request) \<and> \<not> is_request then 1 else 2),
                           rejection = rejected\<rparr>))))"

section \<open>The counters\<close>

record counters =
  received :: u32
  rejected :: u32
  crc_rejections :: u32
  send_failures :: u32
  skipped :: u32
  active :: "bool list"

definition counters_new :: counters where
  "counters_new = \<lparr>received = 0, rejected = 0, crc_rejections = 0, send_failures = 0, skipped = 0,
    active = replicate 3 False\<rparr>"

definition counters_skip :: "counters \<Rightarrow> u64 \<Rightarrow> counters" where
  "counters_skip c amount = c\<lparr>skipped := sat_add (skipped c) (ucast (min amount 0xFFFFFFFF))\<rparr>"

text \<open>The index of a socket outside the array panics: \<open>None\<close>.\<close>

definition counters_sent :: "counters \<Rightarrow> nat \<Rightarrow> bool \<Rightarrow> counters option" where
  "counters_sent c socket success =
    (if length (active c) \<le> socket then None
     else
       (let c1 = c\<lparr>active := (active c)[socket := \<not> success]\<rparr>
        in Some (if \<not> success then c1\<lparr>send_failures := sat_add (send_failures c1) 1\<rparr> else c1)))"

definition counters_health :: "counters \<Rightarrow> health" where
  "counters_health c =
    \<lparr>health_state = Some (if list_ex (\<lambda>v. v) (active c) then 2 else 1),
     received_requests = Some (received c), rejected_datagrams = Some (rejected c),
     send_errors = Some (send_failures c), skipped_publications = Some (skipped c)\<rparr>"

section \<open>The reply budget as a token bucket\<close>

type_synonym datagram_event = "envelope \<times> wire_format \<times> bytes \<times> u64"

fun assess_event :: "command_policy \<Rightarrow> datagram_event \<Rightarrow> command_policy \<times> assessment" where
  "assess_event p (request, format, device, now) = assess p request format device now"

definition is_error_reply :: "assessment \<Rightarrow> bool" where
  "is_error_reply a \<longleftrightarrow> (case decision a of Error_Reply _ \<Rightarrow> True | _ \<Rightarrow> False)"

definition policy_ok :: "command_policy \<Rightarrow> bool" where
  "policy_ok p \<longleftrightarrow> credits_ms p \<le> 1000"

lemma unat_credits:
  "unat (min (sat_add c (sat_sub now u)) 1000 :: u64) = min (unat c + (unat now - unat u)) 1000"
  by (simp add: min_def word_le_unat unat_sat_add unat_sat_sub)

lemma assess_cases:
  assumes "assess p m f dev now = (p', a)"
  shows "(p' = p \<and> \<not> is_error_reply a) \<or>
    (\<exists>c. unat c = min (unat (credits_ms p) + (unat now - unat (updated_ms p))) 1000 \<and>
      updated_ms p' = now \<and>
      (unat c < 100 \<and> \<not> is_error_reply a \<and> credits_ms p' = c \<or>
       100 \<le> unat c \<and> is_error_reply a \<and> unat (credits_ms p') = unat c - 100))"
proof -
  let ?c = "min (sat_add (credits_ms p) (sat_sub now (updated_ms p))) 1000"
  have c: "unat ?c = min (unat (credits_ms p) + (unat now - unat (updated_ms p))) 1000"
    by (rule unat_credits)
  have less: "?c < 100 \<longleftrightarrow> unat ?c < 100" by (simp add: word_less_unat)
  have minus: "100 \<le> unat ?c \<Longrightarrow> unat (?c - 100) = unat ?c - 100"
    by (subst unat_diff_le) (simp_all add: word_le_unat)
  define d where "d = ?c"
  have "(p' = p \<and> \<not> is_error_reply a) \<or>
    (d < 100 \<and> p' = p\<lparr>credits_ms := d, updated_ms := now\<rparr> \<and> \<not> is_error_reply a) \<or>
    (\<not> d < 100 \<and> p' = p\<lparr>credits_ms := d - 100, updated_ms := now\<rparr> \<and> is_error_reply a)"
    using assms by (auto simp: assess_def Let_def is_error_reply_def d_def split: if_splits)
  moreover note c [folded d_def] less [folded d_def] minus [folded d_def]
  ultimately show ?thesis by (elim disjE) (simp, (rule disjI2, rule exI [of _ d], simp)+)
qed

interpretation error_budget: token_bucket policy_ok 1000 100 "\<lambda>p. unat (credits_ms p)"
  "\<lambda>p. unat (updated_ms p)" "\<lambda>p. unat (updated_ms p)"
  "\<lambda>p e. unat (snd (snd (snd e)))" assess_event is_error_reply
proof unfold_locales
  fix p
  assume "policy_ok p"
  then show "unat (credits_ms p) \<le> 1000 \<and> unat (updated_ms p) \<le> unat (updated_ms p)"
    by (simp add: policy_ok_def word_le_unat)
next
  fix p p' :: command_policy and e :: datagram_event and a
  assume ok: "policy_ok p" and now: "unat (updated_ms p) \<le> unat (snd (snd (snd e)))"
    and run: "assess_event p e = (p', a)"
  obtain m f dev t where e: "e = (m, f, dev, t)" by (cases e)
  have "assess p m f dev t = (p', a)" using run by (simp add: e)
  from assess_cases [OF this] now ok
  show "policy_ok p' \<and> unat (updated_ms p') \<le> unat (snd (snd (snd e))) \<and>
      unat (updated_ms p) \<le> unat (updated_ms p') \<and> unat (updated_ms p) \<le> unat (updated_ms p') \<and>
      unat (credits_ms p') + (if is_error_reply a then 100 else 0)
        \<le> unat (credits_ms p) + (unat (updated_ms p') - unat (updated_ms p))"
    by (auto simp: e policy_ok_def word_le_unat)
qed

section \<open>Properties\<close>

lemma is_request_kind_iff:
  "is_request_kind (to_envelope f msg) \<longleftrightarrow> (\<exists>dev sess rid op. msg = Request dev sess rid op)"
  using message_code_role [of msg] by (simp add: is_request_kind_def kind_to_envelope)

lemma is_reply_kind_iff:
  "is_reply_kind (to_envelope f msg) \<longleftrightarrow> \<not> (\<exists>dev sess rid op. msg = Request dev sess rid op)"
  using message_code_role [of msg] by (simp add: is_reply_kind_def kind_to_envelope)

lemma assess_accept_iff:
  assumes "assess p m f dev now = (p', a)"
  shows "(decision a = Accept \<longleftrightarrow>
      (\<exists>sess rid op. message_ok (Request dev sess rid op) \<and> m = to_envelope f (Request dev sess rid op))) \<and>
    (decision a = Accept \<longrightarrow> p' = p) \<and> (rejection a = None \<longleftrightarrow> decision a = Accept)"
proof -
  have "decision a = Accept \<longleftrightarrow> validate m f = Inr () \<and> is_request_kind m \<and> device_id m = Some dev"
    using assms by (auto simp: assess_def is_ok_unit Let_def split: if_splits)
  also have "\<dots> \<longleftrightarrow> (\<exists>sess rid op. message_ok (Request dev sess rid op) \<and>
      m = to_envelope f (Request dev sess rid op))"
    unfolding validate_Inr_iff
    by (auto simp: is_request_kind_iff device_id_to_envelope simp del: message_ok.simps) blast
  finally show ?thesis using assms by (auto simp: assess_def Let_def split: if_splits)
qed

text \<open>A message is accepted exactly when it is a well-formed request addressed to this
  device; then it costs nothing, and every other message is reported as a rejection.\<close>
theorem assess_accepts_requests:
  assumes "assess p m f dev now = (p', a)"
  shows "(decision a = Accept \<longleftrightarrow>
      (\<exists>sess rid op. message_ok (Request dev sess rid op) \<and> m = to_envelope f (Request dev sess rid op))) \<and>
    (decision a = Accept \<longrightarrow> p' = p) \<and> (rejection a = None \<longleftrightarrow> decision a = Accept)"
  by (rule assess_accept_iff [OF assms])

theorem assess_accepts_requests_witness:
  "let m = to_envelope Json (Request (lit ''board-01'') (lit ''123456789abcdef0'') 1 Ask_Health)
   in decision (snd (assess (command_policy_new 0) m Json (lit ''board-01'') 0)) = Accept"
proof -
  let ?req = "Request (lit ''board-01'') (lit ''123456789abcdef0'') 1 Ask_Health"
  obtain p' a where run: "assess (command_policy_new 0) (to_envelope Json ?req) Json (lit ''board-01'') 0 = (p', a)"
    by fastforce
  have "message_ok ?req" by (simp add: device_name_def hex_token_def ascii_defs)
  then have "decision a = Accept" using assess_accepts_requests [OF run] by blast
  then show ?thesis by (simp only: run Let_def snd_conv)
qed

text \<open>No well-formed response or publication of any server, in whatever format it was laid
  out, ever draws a reply or touches the reply budget.\<close>
theorem no_reply_to_replies:
  assumes "message_ok msg" and "\<forall>dev sess rid op. msg \<noteq> Request dev sess rid op"
  shows "fst (assess p (to_envelope g msg) f dev now) = p \<and>
    decision (snd (assess p (to_envelope g msg) f dev now)) = Ignore"
proof -
  have "\<not> is_request_kind (to_envelope g msg)" "is_reply_kind (to_envelope g msg)"
    using assms(2) by (cases msg; simp add: is_request_kind_iff is_reply_kind_iff)+
  then show ?thesis by (simp add: assess_def Let_def)
qed

theorem no_reply_to_replies_witness:
  "decision (snd (assess (command_policy_new 0)
    (to_envelope Csv (Response (lit ''b'') (lit ''123456789abcdef0'') 1 (lit ''123456789abcdef0'') 7 (Error_Answer True)))
    Csv (lit ''b'') 0)) = Ignore"
  by (rule no_reply_to_replies [THEN conjunct2])
    (simp_all add: device_name_def hex_token_def ascii_defs)

text \<open>C38: however datagrams arrive, a policy answers at most ten errors at once and one more per
  100 ms of elapsed time.\<close>
theorem error_reply_rate:
  assumes "error_budget.timely (command_policy_new t0) es"
    and "exec_all assess_event (command_policy_new t0) es = (p, as)"
  shows "count_of is_error_reply as * 100 \<le> 1000 + (unat (updated_ms p) - unat t0)"
  using error_budget.grant_rate [OF _ assms] by (simp add: command_policy_new_def policy_ok_def)

theorem error_reply_rate_witness:
  "let bad = \<lambda>t. (to_envelope Csv (Request (lit ''b'') (lit ''123456789abcdef0'') 1 Ask_Info)
          \<lparr>kind := Some 99\<rparr>, Csv, lit ''b'', t)
   in count_of is_error_reply (snd (exec_all assess_event (command_policy_new 0) [bad 0, bad 5])) * 100 \<le> 1005"
proof -
  let ?m = "(to_envelope Csv (Request (lit ''b'') (lit ''123456789abcdef0'') 1 Ask_Info))\<lparr>kind := Some 99\<rparr>"
  let ?es = "[(?m, Csv, lit ''b'', 0), (?m, Csv, lit ''b'', 5)] :: datagram_event list"
  obtain p as where run: "exec_all assess_event (command_policy_new 0) ?es = (p, as)" by fastforce
  have upd: "updated_ms (fst (assess q ?m Csv (lit ''b'') t)) \<in> {updated_ms q, t}" for q t
    by (simp add: assess_def Let_def)
  have "error_budget.timely (command_policy_new 0) ?es"
    using upd [of "command_policy_new 0" 0]
    by (simp add: error_budget.timely_def command_policy_new_def)
  moreover have "unat (updated_ms p) \<le> 5"
    using run upd [of "command_policy_new 0" 0] upd [of "fst (assess (command_policy_new 0) ?m Csv (lit ''b'') 0)" 5]
    by (auto simp: command_policy_new_def split: prod.splits)
  ultimately show ?thesis using error_reply_rate [OF _ run] by (simp only: run Let_def snd_conv) simp
qed

fun counters_run :: "counters \<Rightarrow> (nat \<times> bool) list \<Rightarrow> counters option" where
  "counters_run c [] = Some c"
| "counters_run c ((socket, success) # es) =
     Option.bind (counters_sent c socket success) (\<lambda>c1. counters_run c1 es)"

definition send_report :: "nat \<Rightarrow> bool \<Rightarrow> nat \<times> bool \<Rightarrow> bool" where
  "send_report k b e = (if fst e = k then \<not> snd e else b)"

lemma send_report_pair [simp]: "send_report k b (s, ok) = (if s = k then \<not> ok else b)"
  by (simp add: send_report_def)

definition last_failed :: "(nat \<times> bool) list \<Rightarrow> nat \<Rightarrow> bool" where
  "last_failed es k = foldl (send_report k) False es"

lemma counters_run_active:
  "counters_run c es = Some c' \<Longrightarrow>
    length (active c') = length (active c) \<and>
    (\<forall>k < length (active c). active c' ! k = foldl (send_report k) (active c ! k) es) \<and>
    unat (send_failures c') = min (unat (send_failures c) + count_of (\<lambda>e. \<not> snd e) es) (2 ^ 32 - 1)"
proof (induction es arbitrary: c)
  case Nil
  then show ?case using unat_u32_bound [of "send_failures c"] by simp
next
  case (Cons e es)
  obtain socket success where e: "e = (socket, success)" by fastforce
  obtain c1 where c1: "counters_sent c socket success = Some c1" "counters_run c1 es = Some c'"
    using Cons.prems by (auto simp: e bind_eq_Some_conv)
  show ?case
    using Cons.IH [OF c1(2)] c1(1)
    by (auto simp: e counters_sent_def Let_def nth_list_update unat_sat_add split: if_splits)
qed

text \<open>After any sequence of send reports on the three sockets the health state is degraded
  exactly when some socket's latest send failed, and the error count is the number of
  failures, saturating; recovery on one socket never hides a failure of another.\<close>
theorem health_tracks_sockets:
  assumes "counters_run counters_new es = Some c"
  shows "health_state (counters_health c) = Some (if \<exists>k < 3. last_failed es k then 2 else 1) \<and>
    (\<exists>n. send_errors (counters_health c) = Some n \<and>
      unat n = min (count_of (\<lambda>e. \<not> snd e) es) (2 ^ 32 - 1))"
proof -
  have "length (active c) = 3" "\<forall>k < 3. active c ! k = last_failed es k"
    using counters_run_active [OF assms] by (simp_all add: counters_new_def last_failed_def)
  then have "list_ex (\<lambda>v. v) (active c) \<longleftrightarrow> (\<exists>k < 3. last_failed es k)"
    by (auto simp: list_ex_length)
  then show ?thesis
    using counters_run_active [OF assms] by (simp add: counters_health_def counters_new_def)
qed

theorem health_tracks_sockets_witness:
  "\<exists>c. counters_run counters_new [(0, False), (1, False), (0, True)] = Some c \<and>
    health_state (counters_health c) = Some 2"
proof -
  let ?es = "[(0, False), (1, False), (0, True)] :: (nat \<times> bool) list"
  obtain c where c: "counters_run counters_new ?es = Some c"
    by (simp add: counters_new_def counters_sent_def Let_def)
  show ?thesis
    using health_tracks_sockets [OF c] c by (intro exI [of _ c]) (auto simp: last_failed_def)
qed

end
