(* ===== verification/Slot_Clock.thy ===== *)
theory Slot_Clock
  imports Prelude
begin

text \<open>
  The interface between a periodic publication source and the code that polls it.
  Both the millisecond schedule of the messaging tasks and the microsecond schedules
  of the benchmark service promise the same: a poll before the deadline changes
  nothing; a poll at or after it reports only the newest due slot, says how many older
  slots it skipped, numbers slots consecutively (modulo \<open>2 ^ 32\<close>) whether they were
  reported or skipped, and keeps its phase.  What follows from this for a whole run of
  polls is proved here once.
\<close>

fun polls :: "('s \<Rightarrow> u64 \<Rightarrow> 's \<times> 'r option) \<Rightarrow> 's \<Rightarrow> u64 list \<Rightarrow> 's \<times> 'r list" where
  "polls f s [] = (s, [])"
| "polls f s (t # ts) =
     (let (s1, r) = f s t; (s2, rs) = polls f s1 ts
      in (s2, case r of None \<Rightarrow> rs | Some x \<Rightarrow> x # rs))"

definition slots_of :: "(u32 \<times> u64) list \<Rightarrow> nat" where
  "slots_of rs = (\<Sum>(q, k)\<leftarrow>rs. Suc (unat k))"

lemma slots_of_simps [simp]:
  "slots_of [] = 0"
  "slots_of ((q, k) # rs) = Suc (unat k) + slots_of rs"
  by (simp_all add: slots_of_def)

locale slot_clock =
  fixes wf :: "'s \<Rightarrow> bool"
    and deadline :: "'s \<Rightarrow> nat"
    and period :: "'s \<Rightarrow> nat"
    and sqn :: "'s \<Rightarrow> u32"
    and poll :: "'s \<Rightarrow> u64 \<Rightarrow> 's \<times> (u32 \<times> u64) option"
  assumes period_pos: "wf s \<Longrightarrow> 0 < period s"
    and poll_early: "wf s \<Longrightarrow> unat now < deadline s \<Longrightarrow> poll s now = (s, None)"
    and poll_due: "wf s \<Longrightarrow> deadline s \<le> unat now \<Longrightarrow>
      k = (unat now - deadline s) div period s \<Longrightarrow>
      \<exists>s'. poll s now = (s', Some (sqn s + of_nat k, of_nat k)) \<and> wf s' \<and>
        period s' = period s \<and> sqn s' = sqn s + of_nat k + 1 \<and>
        (unat now + period s < 2 ^ 64 \<longrightarrow> deadline s' = deadline s + Suc k * period s)"
begin

lemma skipped_exact:
  "unat (of_nat ((unat (now :: u64) - d) div p) :: u64) = (unat now - d) div p"
proof -
  have "(unat now - d) div p \<le> unat now"
    by (meson diff_le_self div_le_dividend le_trans)
  then show ?thesis
    using unat_u64_bound [of now] by (simp add: unat_of_nat)
qed

lemma poll_cases:
  assumes "wf s" and "unat now + period s < 2 ^ 64" and "poll s now = (s', r)"
  shows "unat now < deadline s \<and> s' = s \<and> r = None \<or>
    (\<exists>n. deadline s \<le> unat now \<and> n = (unat now - deadline s) div period s \<and>
      unat (of_nat n :: u64) = n \<and> r = Some (sqn s + of_nat n, of_nat n) \<and>
      sqn s' = sqn s + of_nat (Suc n) \<and> wf s' \<and> period s' = period s \<and>
      deadline s' = deadline s + Suc n * period s)"
proof (cases "unat now < deadline s")
  case True
  then show ?thesis using poll_early [OF assms(1) True] assms(3) by simp
next
  case False
  then have le: "deadline s \<le> unat now" by simp
  show ?thesis
    using poll_due [OF assms(1) le refl] assms(2,3) le
    by (auto simp: skipped_exact algebra_simps)
qed

lemma poll_wf: "wf s \<Longrightarrow> poll s now = (s', r) \<Longrightarrow> wf s' \<and> period s' = period s"
  using poll_early [of s now] poll_due [of s now] by (cases "unat now < deadline s") auto

lemma poll_next_deadline:
  assumes "wf s" and "unat now + period s < 2 ^ 64" and "poll s now = (s', Some r)"
  shows "unat now < deadline s' \<and> deadline s' \<le> unat now + period s"
proof -
  let ?d = "unat now - deadline s" and ?p = "period s"
  from poll_cases [OF assms] have le: "deadline s \<le> unat now"
    and dl: "deadline s' = deadline s + Suc (?d div ?p) * ?p"
    by auto
  have p: "0 < ?p" by (rule period_pos [OF assms(1)])
  then have "?d < Suc (?d div ?p) * ?p"
    by (simp add: dividend_less_div_times add.commute)
  moreover have "?d div ?p * ?p \<le> ?d" by simp
  moreover have "Suc (?d div ?p) * ?p = ?d div ?p * ?p + ?p" by simp
  ultimately show ?thesis using dl le by linarith
qed

lemma poll_twice:
  assumes "wf s" and "unat now + period s < 2 ^ 64" and "poll s now = (s', Some r)"
  shows "poll s' now = (s', None)"
  using poll_next_deadline [OF assms] poll_wf [OF assms(1,3)] by (simp add: poll_early)

lemma polls_accounting:
  assumes "wf s" and "\<forall>t \<in> set ts. unat t + period s < 2 ^ 64" and "polls poll s ts = (s', rs)"
  shows "wf s' \<and> period s' = period s \<and> deadline s' = deadline s + slots_of rs * period s \<and>
    sqn s' = sqn s + of_nat (slots_of rs)"
  using assms
proof (induction ts arbitrary: s rs)
  case Nil
  then show ?case by simp
next
  case (Cons t ts)
  obtain s1 r where s1: "poll s t = (s1, r)" by fastforce
  obtain rs1 where rs1: "polls poll s1 ts = (s', rs1)"
    and rs: "rs = (case r of None \<Rightarrow> rs1 | Some x \<Rightarrow> x # rs1)"
    using Cons.prems(3) s1 by (auto split: prod.splits)
  have w: "wf s1 \<and> period s1 = period s" by (rule poll_wf [OF Cons.prems(1) s1])
  have IH: "wf s' \<and> period s' = period s1 \<and>
      deadline s' = deadline s1 + slots_of rs1 * period s1 \<and>
      sqn s' = sqn s1 + of_nat (slots_of rs1)"
    using Cons.prems(2) w rs1 by (intro Cons.IH) auto
  have "unat t + period s < 2 ^ 64" using Cons.prems(2) by simp
  from poll_cases [OF Cons.prems(1) this s1] show ?case
    using IH w rs by (auto simp: algebra_simps)
qed

lemma polls_sequence:
  assumes "wf s" and "\<forall>t \<in> set ts. unat t + period s < 2 ^ 64" and "polls poll s ts = (s', rs)"
    and "unat (sqn s) + slots_of rs \<le> 2 ^ 32"
  shows "sorted_wrt (<) (map (unat \<circ> fst) rs) \<and>
    (\<forall>r \<in> set rs. unat (sqn s) \<le> unat (fst r) \<and> unat (fst r) < unat (sqn s) + slots_of rs)"
  using assms
proof (induction ts arbitrary: s rs)
  case Nil
  then show ?case by simp
next
  case (Cons t ts)
  obtain s1 r where s1: "poll s t = (s1, r)" by fastforce
  obtain rs1 where rs1: "polls poll s1 ts = (s', rs1)"
    and rs: "rs = (case r of None \<Rightarrow> rs1 | Some x \<Rightarrow> x # rs1)"
    using Cons.prems(3) s1 by (auto split: prod.splits)
  have w: "wf s1 \<and> period s1 = period s" by (rule poll_wf [OF Cons.prems(1) s1])
  have late: "unat t + period s < 2 ^ 64" using Cons.prems(2) by simp
  have IH: "unat (sqn s1) + slots_of rs1 \<le> 2 ^ 32 \<Longrightarrow> ?case" if "r = None"
    using Cons.IH [of s1 rs1] Cons.prems(2) poll_cases [OF Cons.prems(1) late s1] w rs1 rs that
    by auto
  show ?case
  proof (cases r)
    case None
    then show ?thesis
      using IH Cons.prems(4) poll_cases [OF Cons.prems(1) late s1] rs by auto
  next
    case (Some x)
    obtain n where n: "unat (of_nat n :: u64) = n" "x = (sqn s + of_nat n, of_nat n)"
        "sqn s1 = sqn s + of_nat (Suc n)"
      using poll_cases [OF Cons.prems(1) late s1] Some by auto
    have room: "unat (sqn s) + (Suc n + slots_of rs1) \<le> 4294967296"
      using Cons.prems(4) rs Some n(1,2) by simp
    have q: "unat (fst x) = unat (sqn s) + n"
      using room n(2) by (simp add: unat_word_ariths unat_of_nat)
    show ?thesis
    proof (cases "rs1 = []")
      case True
      then show ?thesis using rs Some n(1,2) q by simp
    next
      case False
      then have pos: "0 < slots_of rs1" by (cases rs1) auto
      have q1: "unat (sqn s1) = unat (sqn s) + Suc n"
        using room pos n(3) by (simp add: unat_word_ariths unat_of_nat del: of_nat_Suc)
      have "sorted_wrt (<) (map (unat \<circ> fst) rs1) \<and>
          (\<forall>r \<in> set rs1. unat (sqn s1) \<le> unat (fst r) \<and>
            unat (fst r) < unat (sqn s1) + slots_of rs1)"
        using Cons.prems(2) w rs1 room q1 by (intro Cons.IH) auto
      then show ?thesis using n(1) q q1 by (auto simp: rs Some n(2) o_def)
    qed
  qed
qed

end

end
