(* ===== verification/Schedule.thy ===== *)
theory Schedule
  imports Slot_Clock
begin

text \<open>
  \<^verbatim>\<open>Rust/messaging/src/schedule.rs\<close>: the monotonic publication schedule that skips
  missed slots instead of replaying them.  The record has the fields of the Rust
  struct; \<open>take_due\<close> returns the updated schedule beside its result.
\<close>

record due =
  due_sequence :: u32
  due_skipped :: u64

record schedule =
  period_ms :: u64
  next_slot_ms :: u64
  schedule_sequence :: u32

definition schedule_new :: "u64 \<Rightarrow> u64 \<Rightarrow> schedule option" where
  "schedule_new period started =
    (if period \<noteq> 0
     then Some \<lparr>period_ms = period, next_slot_ms = sat_add started period, schedule_sequence = 0\<rparr>
     else None)"

definition next_ms :: "schedule \<Rightarrow> u64" where
  "next_ms s = next_slot_ms s"

definition take_due :: "schedule \<Rightarrow> u64 \<Rightarrow> schedule \<times> due option" where
  "take_due s now =
    (if now < next_slot_ms s then (s, None)
     else
       (let skipped = (now - next_slot_ms s) div period_ms s;
            sq = schedule_sequence s + ucast skipped
        in (s\<lparr>schedule_sequence := sq + 1,
              next_slot_ms := sat_add (next_slot_ms s) (sat_mul (sat_add skipped 1) (period_ms s))\<rparr>,
            Some \<lparr>due_sequence = sq, due_skipped = skipped\<rparr>)))"

text \<open>
  A schedule made by \<open>schedule_new\<close> has a nonzero period and keeps it; that is all its
  slot arithmetic needs.  \<open>due_pair\<close> reads the reported \<^verbatim>\<open>Due\<close> as the pair of the
  interface.
\<close>

definition schedule_wf :: "schedule \<Rightarrow> bool" where
  "schedule_wf s \<longleftrightarrow> period_ms s \<noteq> 0"

definition due_pair :: "due \<Rightarrow> u32 \<times> u64" where
  "due_pair d = (due_sequence d, due_skipped d)"

definition take_due_pair :: "schedule \<Rightarrow> u64 \<Rightarrow> schedule \<times> (u32 \<times> u64) option" where
  "take_due_pair s now = (let (s', d) = take_due s now in (s', map_option due_pair d))"

lemma schedule_new_wf: "schedule_new p t = Some s \<Longrightarrow> schedule_wf s"
  by (auto simp: schedule_new_def schedule_wf_def split: if_splits)

lemma take_due_deadline:
  assumes "schedule_wf s" and "next_slot_ms s \<le> now"
    and "unat now + unat (period_ms s) < 2 ^ 64"
    and "k = (unat now - unat (next_slot_ms s)) div unat (period_ms s)"
  shows "unat (sat_add (next_slot_ms s)
      (sat_mul (sat_add ((now - next_slot_ms s) div period_ms s) 1) (period_ms s)))
    = unat (next_slot_ms s) + Suc k * unat (period_ms s)"
proof -
  have p: "0 < unat (period_ms s)"
    using assms(1) by (simp add: schedule_wf_def unat_gt_0)
  have le: "unat (next_slot_ms s) \<le> unat now" using assms(2) by (simp add: word_le_unat)
  have sk: "unat ((now - next_slot_ms s) div period_ms s) = k"
    using assms(2,4) by (simp add: unat_div unat_diff_le)
  have "k * unat (period_ms s) \<le> unat now - unat (next_slot_ms s)"
    using assms(4) by simp
  then have room: "unat (next_slot_ms s) + Suc k * unat (period_ms s) < 2 ^ 64"
    using assms(3) le by simp
  moreover have "Suc k \<le> Suc k * unat (period_ms s)"
    using p by (cases "unat (period_ms s)") simp_all
  ultimately have k: "Suc k < 2 ^ 64" by linarith
  have one: "unat (sat_add ((now - next_slot_ms s) div period_ms s) 1) = Suc k"
    using k by (simp add: unat_sat_add sk)
  have mul: "unat (sat_mul (sat_add ((now - next_slot_ms s) div period_ms s) 1) (period_ms s))
      = Suc k * unat (period_ms s)"
    using room by (simp add: unat_sat_mul one)
  show ?thesis using room by (simp add: unat_sat_add mul)
qed

interpretation sched: slot_clock schedule_wf "\<lambda>s. unat (next_slot_ms s)"
  "\<lambda>s. unat (period_ms s)" schedule_sequence take_due_pair
proof unfold_locales
  fix s :: schedule
  assume "schedule_wf s"
  then show "0 < unat (period_ms s)" by (simp add: schedule_wf_def unat_gt_0)
next
  fix s :: schedule and now :: u64
  assume "unat now < unat (next_slot_ms s)"
  then show "take_due_pair s now = (s, None)"
    by (simp add: take_due_pair_def take_due_def word_less_unat)
next
  fix s :: schedule and now :: u64 and k
  assume wf: "schedule_wf s" and "unat (next_slot_ms s) \<le> unat now"
    and k: "k = (unat now - unat (next_slot_ms s)) div unat (period_ms s)"
  then have le: "next_slot_ms s \<le> now" by (simp add: word_le_unat)
  have sk: "unat ((now - next_slot_ms s) div period_ms s) = k"
    using le k by (simp add: unat_div unat_diff_le)
  then have sk': "(now - next_slot_ms s) div period_ms s = of_nat k"
    by (metis of_nat_unat ucast_id)
  have u: "(ucast (of_nat k :: u64) :: u32) = of_nat k"
    using sk sk' by (metis of_nat_unat)
  define s' where "s' = s\<lparr>schedule_sequence := schedule_sequence s + of_nat k + 1,
    next_slot_ms := sat_add (next_slot_ms s) (sat_mul (sat_add (of_nat k) 1) (period_ms s))\<rparr>"
  have "take_due_pair s now = (s', Some (schedule_sequence s + of_nat k, of_nat k))"
    using le [unfolded not_less [symmetric]]
    by (simp add: take_due_pair_def take_due_def due_pair_def s'_def sk' u Let_def)
  moreover have "unat (next_slot_ms s') = unat (next_slot_ms s) + Suc k * unat (period_ms s)"
    if "unat now + unat (period_ms s) < 2 ^ 64"
    using take_due_deadline [OF wf le that k] by (simp add: s'_def sk')
  ultimately show "\<exists>s'. take_due_pair s now =
      (s', Some (schedule_sequence s + of_nat k, of_nat k)) \<and> schedule_wf s' \<and>
      unat (period_ms s') = unat (period_ms s) \<and>
      schedule_sequence s' = schedule_sequence s + of_nat k + 1 \<and>
      (unat now + unat (period_ms s) < 2 ^ 64 \<longrightarrow>
        unat (next_slot_ms s') = unat (next_slot_ms s) + Suc k * unat (period_ms s))"
    using wf by (intro exI [of _ s']) (simp add: s'_def schedule_wf_def)
qed

section \<open>Properties\<close>

lemma take_due_eq_None: "now < next_slot_ms s \<Longrightarrow> take_due s now = (s, None)"
  by (simp add: take_due_def)

text \<open>Polling a schedule before its slot changes nothing; polling at or after it
  reports one slot, the newest, with the number of older slots skipped, and leaves the
  next slot strictly in the future, within one period and in phase.\<close>
theorem take_due_newest_slot:
  assumes "schedule_wf s" and "unat now + unat (period_ms s) < 2 ^ 64"
    and "take_due s now = (s', r)"
  shows "(r = None \<longleftrightarrow> now < next_slot_ms s) \<and> (r = None \<longrightarrow> s' = s) \<and>
    (\<forall>d. r = Some d \<longrightarrow>
      unat (due_skipped d) = (unat now - unat (next_slot_ms s)) div unat (period_ms s) \<and>
      due_sequence d = schedule_sequence s + ucast (due_skipped d) \<and>
      schedule_sequence s' = due_sequence d + 1 \<and> period_ms s' = period_ms s \<and>
      now < next_slot_ms s' \<and> unat (next_slot_ms s') \<le> unat now + unat (period_ms s) \<and>
      unat (next_slot_ms s') mod unat (period_ms s) = unat (next_slot_ms s) mod unat (period_ms s))"
proof (cases "now < next_slot_ms s")
  case True
  then show ?thesis using assms(3) by (auto simp: take_due_eq_None)
next
  case False
  obtain d where r: "r = Some d" using False assms(3) by (auto simp: take_due_def Let_def)
  have pair: "take_due_pair s now = (s', Some (due_pair d))"
    using assms(3) r by (simp add: take_due_pair_def)
  obtain n where n: "n = (unat now - unat (next_slot_ms s)) div unat (period_ms s)"
    "unat (of_nat n :: u64) = n" "due_skipped d = of_nat n"
    "unat (next_slot_ms s') = unat (next_slot_ms s) + Suc n * unat (period_ms s)"
    using sched.poll_cases [OF assms(1,2) pair] by (auto simp: due_pair_def)
  have "unat (next_slot_ms s') mod unat (period_ms s) = unat (next_slot_ms s) mod unat (period_ms s)"
    by (simp only: n(4) mod_mult_self1)
  then show ?thesis
    using sched.poll_next_deadline [OF assms(1,2) pair] False assms(3) r n
    by (auto simp: take_due_def Let_def word_less_unat)
qed

theorem take_due_newest_slot_witness:
  "\<exists>s' d. take_due \<lparr>period_ms = 100, next_slot_ms = 200, schedule_sequence = 1\<rparr> 550 = (s', Some d) \<and>
    due_skipped d = 3 \<and> due_sequence d = 4 \<and> (550 :: u64) < next_slot_ms s' \<and> next_slot_ms s' = 600"
proof -
  let ?s = "\<lparr>period_ms = 100, next_slot_ms = 200, schedule_sequence = 1\<rparr> :: schedule"
  let ?s' = "\<lparr>period_ms = 100, next_slot_ms = 600, schedule_sequence = 5\<rparr> :: schedule"
  let ?d = "\<lparr>due_sequence = 4, due_skipped = 3\<rparr> :: due"
  have run: "take_due ?s 550 = (?s', Some ?d)"
    by (simp add: take_due_def sat_add_def sat_mul_def Let_def)
  then show ?thesis
    using take_due_newest_slot [OF _ _ run] by (simp add: schedule_wf_def)
qed

text \<open>Over any run of polls of a fresh schedule no slot is lost or counted twice: the
  next slot has moved by exactly the reported plus the skipped slots, the sequence number
  counts them, and while fewer than \<open>2 ^ 32\<close> slots have passed the reported sequence
  numbers are strictly increasing.\<close>
theorem schedule_accounts_every_slot:
  assumes "schedule_new p started = Some s" and "\<forall>t \<in> set ts. unat t + unat p < 2 ^ 64"
    and "polls take_due_pair s ts = (s', rs)"
  shows "unat (next_ms s') = unat (next_ms s) + slots_of rs * unat p \<and>
    schedule_sequence s' = of_nat (slots_of rs) \<and>
    (slots_of rs \<le> 2 ^ 32 \<longrightarrow> sorted_wrt (<) (map (unat \<circ> fst) rs))"
proof -
  have wf: "schedule_wf s" and init: "period_ms s = p" "schedule_sequence s = 0"
    using assms(1) by (auto simp: schedule_new_def schedule_wf_def split: if_splits)
  have ts: "\<forall>t \<in> set ts. unat t + unat (period_ms s) < 2 ^ 64" using assms(2) init by simp
  show ?thesis
    using sched.polls_accounting [OF wf ts assms(3)] sched.polls_sequence [OF wf ts assms(3)] init
    by (simp add: next_ms_def)
qed

theorem schedule_accounts_every_slot_witness:
  "\<exists>s s'. schedule_new 100 0 = Some s \<and>
    polls take_due_pair s [100, 550, 550, 600] = (s', [(0, 0), (4, 3), (5, 0)]) \<and>
    unat (next_ms s') = 100 + 6 * 100"
proof -
  let ?s = "\<lparr>period_ms = 100, next_slot_ms = 100, schedule_sequence = 0\<rparr> :: schedule"
  let ?s' = "\<lparr>period_ms = 100, next_slot_ms = 700, schedule_sequence = 6\<rparr> :: schedule"
  have new: "schedule_new 100 0 = Some ?s"
    by (simp add: schedule_new_def sat_add_def)
  have run: "polls take_due_pair ?s [100, 550, 550, 600] = (?s', [(0, 0), (4, 3), (5, 0)])"
    by (simp add: take_due_pair_def take_due_def due_pair_def sat_add_def sat_mul_def Let_def)
  show ?thesis
    using schedule_accounts_every_slot [OF new _ run] new run by (auto simp: next_ms_def)
qed

end
