(* ===== verification/Messaging_Server.thy ===== *)
theory Messaging_Server
  imports Codec Command_Service Schedule
begin

text \<open>
  \<^verbatim>\<open>Rust/src/servers/embassy_messaging.rs\<close> with the settings of
  \<^verbatim>\<open>messaging_config.rs\<close>: the messages the firmware makes, its self check, and one
  iteration of the command task and of a publication task.  The network stack, the clock
  and the sockets are the environment: an event says what they did during the iteration.
  The counters shared by the tasks are part of the state of an iteration.  A result of
  \<open>None\<close> where the code would panic is \<open>None\<close> here.
\<close>

section \<open>Settings\<close>

definition DEVICE_ID :: bytes where
  "DEVICE_ID = lit ''board-01''"

definition FIRMWARE_VERSION :: bytes where
  "FIRMWARE_VERSION = lit ''messaging-0.1.0''"

definition GROUP :: "u8 \<times> u8 \<times> u8 \<times> u8" where
  "GROUP = (239, 255, 42, 1)"

definition STATUS_PERIOD_MS :: u64 where
  "STATUS_PERIOD_MS = 100"

definition HEALTH_PERIOD_MS :: u64 where
  "HEALTH_PERIOD_MS = 1000"

definition DATAGRAM_CAPACITY :: nat where
  "DATAGRAM_CAPACITY = 1024"

definition is_multicast :: "u8 \<times> u8 \<times> u8 \<times> u8 \<Rightarrow> bool" where
  "is_multicast address = (case address of (a, _) \<Rightarrow> 224 \<le> a \<and> a \<le> 239)"

text \<open>The build-time choices: the format, the checksum mode and the linked crates.\<close>

record 'w build =
  lib :: "'w message_lib"
  checksum :: "bytes \<Rightarrow> u32"
  wire :: wire_format
  crc :: crc_mode

section \<open>Messages\<close>

definition server_status :: status where
  "server_status = \<lparr>temperature_celsius = Some f32_25_5, validity = Some 1, synthetic = Some True\<rparr>"

definition base :: "bytes \<Rightarrow> u64 \<Rightarrow> envelope" where
  "base boot now = envelope_default\<lparr>protocol_version := Some 1, device_id := Some DEVICE_ID,
    boot_id := Some boot, uptime_ms := Some (ucast now)\<rparr>"

definition response ::
  "wire_format \<Rightarrow> counters \<Rightarrow> bytes \<Rightarrow> envelope \<Rightarrow> i32 option \<Rightarrow> u64 \<Rightarrow> envelope option" where
  "response format c boot request error now =
    Option.bind (if is_some error then Some 14 else map_option (\<lambda>k. k + 10) (kind request)) (\<lambda>k.
      let m = (base boot now)\<lparr>kind := Some k, client_session := client_session request,
            request_id := request_id request\<rparr>
      in if k = 11 then
           Some (m\<lparr>device_info_body := Some \<lparr>firmware_version = Some FIRMWARE_VERSION,
             encoding = Some (format_id format)\<rparr>\<rparr>)
         else if k = 12 then Some (m\<lparr>status_body := Some server_status\<rparr>)
         else if k = 13 then Some (m\<lparr>health_body := Some (counters_health c)\<rparr>)
         else if k = 14 then Some (m\<lparr>error_body := Some \<lparr>error_code = error\<rparr>\<rparr>)
         else None)"

definition publication :: "counters \<Rightarrow> bytes \<Rightarrow> i32 \<Rightarrow> u32 \<Rightarrow> u64 \<Rightarrow> envelope" where
  "publication c boot k sq now =
    (let m = (base boot now)\<lparr>kind := Some k, sequence := Some sq\<rparr>
     in if k = 21 then m\<lparr>status_body := Some server_status\<rparr>
        else m\<lparr>health_body := Some (counters_health c)\<rparr>)"

definition encode_frame :: "'w build \<Rightarrow> envelope \<Rightarrow> codec_error + bytes" where
  "encode_frame b m =
    r_bind (framing_encode (lib b) (checksum b) (wire b) (crc b) m (replicate DATAGRAM_CAPACITY 0))
      (\<lambda>(out, n). Inr (take n out))"

section \<open>The self check\<close>

definition self_request :: "bytes \<Rightarrow> i32 \<Rightarrow> envelope" where
  "self_request boot k =
    (let r = envelope_default\<lparr>protocol_version := Some 1, kind := Some k,
           device_id := Some DEVICE_ID, client_session := Some boot, request_id := Some 1\<rparr>
     in if k = 1 then r\<lparr>get_device_info := Some Empty\<rparr>
        else if k = 2 then r\<lparr>get_status := Some Empty\<rparr>
        else r\<lparr>get_health := Some Empty\<rparr>)"

definition check_answer :: "'w build \<Rightarrow> counters \<Rightarrow> bytes \<Rightarrow> envelope \<Rightarrow> i32 option \<Rightarrow> bool" where
  "check_answer b c boot request error =
    (case response (wire b) c boot request error 0 of
      None \<Rightarrow> False
    | Some m \<Rightarrow> is_ok (encode_frame b m))"

fun self_check_kinds :: "'w build \<Rightarrow> counters \<Rightarrow> bytes \<Rightarrow> command_policy \<Rightarrow> i32 list \<Rightarrow> bool" where
  "self_check_kinds b c boot policy [] = True"
| "self_check_kinds b c boot policy (k # ks) =
     (case encode_frame b (self_request boot k) of
        Inl _ \<Rightarrow> False
      | Inr datagram \<Rightarrow>
          (case framing_decode (lib b) (checksum b) (wire b) (crc b) datagram of
             Inl _ \<Rightarrow> False
           | Inr decoded \<Rightarrow>
               let (policy', a) = assess policy decoded (wire b) DEVICE_ID 0
               in decoded = self_request boot k \<and> decision a = Accept \<and>
                  check_answer b c boot decoded None \<and> check_answer b c boot decoded (Some 2) \<and>
                  self_check_kinds b c boot policy' ks))"

definition self_check :: "'w build \<Rightarrow> counters \<Rightarrow> bytes \<Rightarrow> bool" where
  "self_check b c boot \<longleftrightarrow> is_multicast GROUP \<and>
    self_check_kinds b c boot (command_policy_new 0) [1, 2, 3] \<and>
    list_all (\<lambda>k. is_ok (encode_frame b (publication c boot k 0 0))) [21, 22]"

section \<open>One iteration of the command task\<close>

record command_task =
  policy :: command_policy
  shared :: counters

text \<open>
  What the environment does in one iteration: the network is not ready, it goes down while
  waiting, receiving fails, the datagram was sent to another local address, or a datagram
  arrives.  For a datagram the event gives the two instants the clock is read at and
  whether the reply was queued and drained in time.
\<close>

datatype command_event =
    Net_Not_Ready
  | Link_Lost
  | Receive_Failed
  | Other_Address
  | Datagram bytes u64 u64 bool

definition note_rejected :: "counters \<Rightarrow> counters" where
  "note_rejected c = c\<lparr>rejected := sat_add (rejected c) 1\<rparr>"

definition note_received :: "counters \<Rightarrow> counters" where
  "note_received c = c\<lparr>received := sat_add (received c) 1\<rparr>"

definition note_active :: "nat \<Rightarrow> counters \<Rightarrow> counters" where
  "note_active i c = c\<lparr>active := (active c)[i := True]\<rparr>"

definition note_parse_error :: "codec_error \<Rightarrow> counters \<Rightarrow> counters" where
  "note_parse_error e c =
    (let c = note_rejected c
     in if e = Crc then c\<lparr>crc_rejections := sat_add (crc_rejections c) 1\<rparr> else c)"

definition note_assessment :: "assessment \<Rightarrow> counters \<Rightarrow> counters" where
  "note_assessment a c =
    (let c = (if is_some (rejection a) then note_rejected c else c)
     in if decision a = Accept then note_received c else c)"

text \<open>The error code to answer with: \<open>Some None\<close> accepts, \<open>None\<close> sends no reply.\<close>

definition reply_error :: "decision \<Rightarrow> i32 option option" where
  "reply_error d =
    (case d of Accept \<Rightarrow> Some None | Error_Reply code \<Rightarrow> Some (Some code) | _ \<Rightarrow> None)"

definition send_reply ::
  "'w build \<Rightarrow> bytes \<Rightarrow> command_task \<Rightarrow> envelope \<Rightarrow> i32 option \<Rightarrow> u64 \<Rightarrow> bool \<Rightarrow>
    (command_task \<times> bytes option) option" where
  "send_reply b boot t request error now sent =
    Option.bind (response (wire b) (shared t) boot request error now) (\<lambda>reply.
      case encode_frame b reply of
        Inl _ \<Rightarrow> Some (t\<lparr>shared := note_active 0 (shared t)\<rparr>, None)
      | Inr datagram \<Rightarrow>
          Option.bind (counters_sent (shared t) 0 sent) (\<lambda>c.
            Some (t\<lparr>shared := c\<rparr>, Some datagram)))"

definition command_datagram ::
  "'w build \<Rightarrow> bytes \<Rightarrow> command_task \<Rightarrow> bytes \<Rightarrow> u64 \<Rightarrow> u64 \<Rightarrow> bool \<Rightarrow>
    (command_task \<times> bytes option) option" where
  "command_datagram b boot t datagram now now' sent =
    (case framing_parse (lib b) (checksum b) (wire b) (crc b) datagram of
       Inl e \<Rightarrow> Some (t\<lparr>shared := note_parse_error e (shared t)\<rparr>, None)
     | Inr request \<Rightarrow>
         let (p, a) = assess (policy t) request (wire b) DEVICE_ID now;
             t = t\<lparr>policy := p, shared := note_assessment a (shared t)\<rparr>
         in case reply_error (decision a) of
              None \<Rightarrow> Some (t, None)
            | Some error \<Rightarrow> send_reply b boot t request error now' sent)"

fun command_step ::
  "'w build \<Rightarrow> bytes \<Rightarrow> command_task \<Rightarrow> command_event \<Rightarrow> (command_task \<times> bytes option) option" where
  "command_step b boot t Net_Not_Ready = Some (t\<lparr>shared := note_active 0 (shared t)\<rparr>, None)"
| "command_step b boot t Link_Lost = Some (t\<lparr>shared := note_active 0 (shared t)\<rparr>, None)"
| "command_step b boot t Receive_Failed = Some (t\<lparr>shared := note_rejected (shared t)\<rparr>, None)"
| "command_step b boot t Other_Address = Some (t\<lparr>shared := note_rejected (shared t)\<rparr>, None)"
| "command_step b boot t (Datagram d now now' sent) = command_datagram b boot t d now now' sent"

section \<open>One iteration of a publication task\<close>

record publish_task =
  slots :: schedule
  pool :: counters
  reported_crc :: u32
  next_report :: u64

text \<open>
  The event: whether the link was lost while waiting for the slot, the instant the clock is
  read at, whether the network is ready then, and whether the message was queued and
  drained in time.
\<close>

record publish_event =
  lost :: bool
  instant :: u64
  net_ready :: bool
  drained :: bool

definition report_crc :: "i32 \<Rightarrow> u64 \<Rightarrow> publish_task \<Rightarrow> publish_task" where
  "report_crc k now t =
    (if k = 22 \<and> next_report t \<le> now
     then t\<lparr>next_report := sat_add now 1000, reported_crc := crc_rejections (pool t)\<rparr>
     else t)"

definition note_skip :: "nat \<Rightarrow> counters \<Rightarrow> counters" where
  "note_skip i c = note_active i (counters_skip c 1)"

definition skip_due :: "nat \<Rightarrow> due \<Rightarrow> counters \<Rightarrow> counters" where
  "skip_due i d c =
    (let c = counters_skip c (due_skipped d)
     in if 0 < due_skipped d then note_active i c else c)"

definition after_send :: "nat \<Rightarrow> due \<Rightarrow> bool \<Rightarrow> counters \<Rightarrow> counters" where
  "after_send i d sent c =
    (let c = (if \<not> sent then counters_skip c 1 else c)
     in if 0 < due_skipped d then note_active i c else c)"

definition publish_due ::
  "'w build \<Rightarrow> bytes \<Rightarrow> i32 \<Rightarrow> nat \<Rightarrow> publish_task \<Rightarrow> due \<Rightarrow> publish_event \<Rightarrow>
    (publish_task \<times> bytes option) option" where
  "publish_due b boot k i t d e =
    (let t = report_crc k (instant e) t;
         c = skip_due i d (pool t)
     in if \<not> net_ready e then Some (t\<lparr>pool := note_skip i c\<rparr>, None)
        else case encode_frame b (publication c boot k (due_sequence d) (instant e)) of
          Inl _ \<Rightarrow> Some (t\<lparr>pool := note_skip i c\<rparr>, None)
        | Inr datagram \<Rightarrow>
            Option.bind (counters_sent c i (drained e)) (\<lambda>c.
              Some (t\<lparr>pool := after_send i d (drained e) c\<rparr>,
                if drained e then Some datagram else None)))"

definition publish_step ::
  "'w build \<Rightarrow> bytes \<Rightarrow> i32 \<Rightarrow> publish_task \<Rightarrow> publish_event \<Rightarrow>
    (publish_task \<times> bytes option) option" where
  "publish_step b boot k t e =
    (let i = nat (sint (k - 20))
     in if lost e then Some (t\<lparr>pool := note_active i (pool t)\<rparr>, None)
        else
          (let (s, d) = take_due (slots t) (instant e); t = t\<lparr>slots := s\<rparr>
           in case d of
                None \<Rightarrow> Some (t, None)
              | Some due \<Rightarrow> publish_due b boot k i t due e))"

section \<open>The messages belong to the protocol\<close>

lemma reading_of_server_status: "server_status = reading_status (Measured f32_25_5)"
  by (simp add: server_status_def)

lemma temperature_ok_25_5: "temperature_ok f32_25_5"
  by (simp add: temperature_ok_def f32_le_def f32_is_nan_def f32_is_finite_def f32_exponent_def
      f32_key_def f32_negative_def f32_magnitude_def)

lemma device_name_DEVICE_ID: "device_name DEVICE_ID"
  by (simp add: DEVICE_ID_def device_name_def ascii_defs)

text \<open>The health report of the counters, as the abstract protocol has it.\<close>

definition health_report_of :: "counters \<Rightarrow> report" where
  "health_report_of c = Health_Report (list_ex (\<lambda>v. v) (active c)) (received c) (rejected c)
    (send_failures c) (skipped c)"

fun operation_answer :: "counters \<Rightarrow> operation \<Rightarrow> answer" where
  "operation_answer c Ask_Info = Info_Answer FIRMWARE_VERSION"
| "operation_answer c Ask_Status = Report_Answer (Status_Report (Measured f32_25_5))"
| "operation_answer c Ask_Health = Report_Answer (health_report_of c)"

lemma operation_answer_ok: "answer_ok (operation_answer c op)"
  by (cases op) (simp_all add: FIRMWARE_VERSION_def is_printable_def temperature_ok_25_5 health_report_of_def)

lemma response_accept:
  "response f c boot (to_envelope f (Request dev sess rid op)) None now =
    Some (to_envelope f (Response DEVICE_ID sess rid boot (ucast now) (operation_answer c op)))"
  by (cases op)
    (simp_all add: response_def to_envelope.simps base_def envelope_default_def server_status_def
      health_report_of_def counters_health_def)

lemma response_error:
  assumes "client_session m = Some sess" and "request_id m = Some rid" and "code = 1 \<or> code = 2"
  shows "response f c boot m (Some code) now =
    Some (to_envelope f (Response DEVICE_ID sess rid boot (ucast now) (Error_Answer (code = 2))))"
  using assms
  by (auto simp: response_def to_envelope.simps base_def envelope_default_def)

lemma publication_status:
  "publication c boot 21 sq now =
    to_envelope f (Publication DEVICE_ID boot (ucast now) sq (Status_Report (Measured f32_25_5)))"
  by (simp add: publication_def to_envelope.simps base_def envelope_default_def server_status_def)

lemma publication_health:
  "publication c boot 22 sq now =
    to_envelope f (Publication DEVICE_ID boot (ucast now) sq (health_report_of c))"
  by (simp add: publication_def to_envelope.simps base_def envelope_default_def
      health_report_of_def counters_health_def)

lemma assess_error_code:
  assumes "assess p m f dev now = (p', a)" and "decision a = Error_Reply code"
  shows "(code = 1 \<or> code = 2) \<and> correlation m"
  using assms by (auto simp: assess_def Let_def split: if_splits)

text \<open>The reply a decision calls for, in terms of the abstract protocol.\<close>

lemma response_of_decision:
  assumes "assess p m f DEVICE_ID now = (p', a)" and "reply_error (decision a) = Some error"
    and "hex_token boot"
  shows "\<exists>sess rid ans. client_session m = Some sess \<and> request_id m = Some rid \<and>
    response f c boot m error now' =
      Some (to_envelope f (Response DEVICE_ID sess rid boot (ucast now') ans)) \<and>
    message_ok (Response DEVICE_ID sess rid boot (ucast now') ans) \<and>
    (case error of
       None \<Rightarrow> \<exists>op. m = to_envelope f (Request DEVICE_ID sess rid op) \<and> ans = operation_answer c op
     | Some code \<Rightarrow> ans = Error_Answer (code = 2))"
proof (cases "decision a")
  case Accept
  then obtain sess rid op where ok: "message_ok (Request DEVICE_ID sess rid op)"
    and m: "m = to_envelope f (Request DEVICE_ID sess rid op)"
    using assess_accept_iff [OF assms(1)] by blast
  have e: "error = None" using assms(2) Accept by (simp add: reply_error_def)
  have fields: "client_session m = Some sess" "request_id m = Some rid"
    unfolding m by (cases op; simp add: to_envelope.simps)+
  show ?thesis
    using ok assms(3) fields m e operation_answer_ok [of c op]
    by (intro exI [of _ sess] exI [of _ rid] exI [of _ "operation_answer c op"])
      (auto simp: response_accept)
next
  case (Error_Reply code)
  have e: "error = Some code" using assms(2) Error_Reply by (simp add: reply_error_def)
  have code: "code = 1 \<or> code = 2" and "correlation m"
    using assess_error_code [OF assms(1) Error_Reply] by auto
  then obtain sess rid where f: "client_session m = Some sess" "hex_token sess"
    "request_id m = Some rid" "rid \<noteq> 0"
    unfolding correlation_iff by blast
  show ?thesis
    using f assms(3) e response_error [OF f(1,3) code] device_name_DEVICE_ID
    by (intro exI [of _ sess] exI [of _ rid] exI [of _ "Error_Answer (code = 2)"]) simp
qed (use assms(2) in \<open>simp_all add: reply_error_def\<close>)

lemma note_length [simp]:
  "length (active (note_active i c)) = length (active c)"
  "length (active (note_rejected c)) = length (active c)"
  "length (active (note_received c)) = length (active c)"
  "length (active (note_parse_error e c)) = length (active c)"
  "length (active (note_assessment a c)) = length (active c)"
  "length (active (note_skip i c)) = length (active c)"
  "length (active (counters_skip c n)) = length (active c)"
  by (simp_all add: note_active_def note_rejected_def note_received_def note_parse_error_def
      note_assessment_def note_skip_def counters_skip_def Let_def)

lemma counters_sent_total:
  "i < length (active c) \<Longrightarrow> \<exists>c'. counters_sent c i ok = Some c' \<and> length (active c') = length (active c)"
  by (simp add: counters_sent_def Let_def)

lemma send_reply_total:
  assumes "response (wire b) (shared t) boot request error now = Some m" and "0 < length (active (shared t))"
  shows "\<exists>t' r. send_reply b boot t request error now sent = Some (t', r) \<and> policy t' = policy t \<and>
    length (active (shared t')) = length (active (shared t)) \<and> (\<forall>d. r = Some d \<longrightarrow> encode_frame b m = Inr d)"
  using assms counters_sent_total [OF assms(2), of sent]
  by (cases "encode_frame b m") (auto simp: send_reply_def)

lemma unat_counters_skip:
  "unat (skipped (counters_skip c n)) = min (unat (skipped c) + unat n) 4294967295"
proof -
  have "unat (ucast (min n 0xFFFFFFFF) :: u32) = min (unat n) 4294967295"
    by (simp add: unat_ucast_64_32 min_def word_le_unat)
  then show ?thesis by (simp add: counters_skip_def unat_sat_add)
qed

lemma note_active_skipped [simp]: "skipped (note_active i c) = skipped c"
  by (simp add: note_active_def)

lemma counters_sent_skipped: "counters_sent c i ok = Some c' \<Longrightarrow> skipped c' = skipped c"
  by (auto simp: counters_sent_def Let_def split: if_splits)

lemma report_crc_simps [simp]:
  "slots (report_crc k now t) = slots t" "pool (report_crc k now t) = pool t"
  by (simp_all add: report_crc_def)

text \<open>One due slot is either sent or counted as skipped, beside the slots passed over.\<close>

lemma publish_due_accounts:
  assumes "i < length (active (pool t))"
  shows "\<exists>t' r. publish_due b boot k i t d e = Some (t', r) \<and> slots t' = slots t \<and>
    length (active (pool t')) = length (active (pool t)) \<and>
    (unat (skipped (pool t)) + Suc (unat (due_skipped d)) < 2 ^ 32 \<longrightarrow>
      unat (skipped (pool t')) + (if r = None then 0 else 1) =
        unat (skipped (pool t)) + Suc (unat (due_skipped d)))"
proof -
  define c where "c = skip_due i d (pool t)"
  have len: "length (active c) = length (active (pool t))" by (simp add: c_def skip_due_def Let_def)
  have sk: "unat (skipped c) = min (unat (skipped (pool t)) + unat (due_skipped d)) 4294967295"
    by (simp add: c_def skip_due_def Let_def unat_counters_skip)
  have skip1: "unat (skipped (counters_skip x 1)) = min (unat (skipped x) + 1) 4294967295" for x
    by (simp add: unat_counters_skip)
  obtain c1 where c1: "counters_sent c i (drained e) = Some c1" "length (active c1) = length (active (pool t))"
    using counters_sent_total [of i c "drained e"] assms len by auto
  define c2 where "c2 = after_send i d (drained e) c1"
  have c2: "length (active c2) = length (active (pool t))"
    "unat (skipped c2) = (if drained e then unat (skipped c) else min (unat (skipped c) + 1) 4294967295)"
    using c1 counters_sent_skipped [OF c1(1)] skip1 [of c1] by (simp_all add: c2_def after_send_def Let_def)
  let ?t = "report_crc k (instant e) t"
  have run: "publish_due b boot k i t d e =
    (if \<not> net_ready e then Some (?t\<lparr>pool := note_skip i c\<rparr>, None)
     else case encode_frame b (publication c boot k (due_sequence d) (instant e)) of
        Inl _ \<Rightarrow> Some (?t\<lparr>pool := note_skip i c\<rparr>, None)
      | Inr datagram \<Rightarrow> Some (?t\<lparr>pool := c2\<rparr>, if drained e then Some datagram else None))"
    by (simp add: publish_due_def c_def [symmetric] c1 c2_def Let_def split: sum.split)
  have skip: "unat (skipped (note_skip i c)) = min (unat (skipped c) + 1) 4294967295"
    using skip1 by (simp add: note_skip_def)
  show ?thesis
  proof (cases "\<exists>datagram. net_ready e \<and> encode_frame b (publication c boot k (due_sequence d) (instant e)) = Inr datagram")
    case True
    then obtain datagram where "net_ready e"
      "encode_frame b (publication c boot k (due_sequence d) (instant e)) = Inr datagram" by blast
    then show ?thesis using run c2 sk by auto
  next
    case False
    then have "publish_due b boot k i t d e = Some (?t\<lparr>pool := note_skip i c\<rparr>, None)"
      using run by (auto split: sum.splits if_splits)
    then show ?thesis using len sk skip by auto
  qed
qed

lemma publish_step_accounts:
  assumes "k = 21 \<or> k = 22" and "schedule_wf (slots t)" and "length (active (pool t)) = 3"
    and "unat (instant e) + unat (period_ms (slots t)) < 2 ^ 64"
  shows "\<exists>t' r n. publish_step b boot k t e = Some (t', r) \<and> schedule_wf (slots t') \<and>
    period_ms (slots t') = period_ms (slots t) \<and> length (active (pool t')) = 3 \<and>
    unat (next_ms (slots t')) = unat (next_ms (slots t)) + n * unat (period_ms (slots t)) \<and>
    (unat (skipped (pool t)) + n < 2 ^ 32 \<longrightarrow>
      unat (skipped (pool t')) + (if r = None then 0 else 1) = unat (skipped (pool t)) + n)"
proof -
  have i: "nat (sint (k - 20)) < 3" using assms(1) by auto
  show ?thesis
  proof (cases "lost e")
    case True
    then show ?thesis using assms by (intro exI [of _ "t\<lparr>pool := note_active (nat (sint (k - 20))) (pool t)\<rparr>"]
          exI [of _ None] exI [of _ 0]) (simp add: publish_step_def Let_def)
  next
    case False
    obtain s d where sd: "take_due (slots t) (instant e) = (s, d)" by fastforce
    then have pair: "take_due_pair (slots t) (instant e) = (s, map_option due_pair d)"
      by (simp add: take_due_pair_def)
    note cases = sched.poll_cases [OF assms(2,4) pair] sched.poll_wf [OF assms(2) pair]
    show ?thesis
    proof (cases d)
      case None
      then show ?thesis
        using cases sd False assms(2,3) by (intro exI [of _ "t\<lparr>slots := s\<rparr>"] exI [of _ None] exI [of _ 0])
          (auto simp: publish_step_def)
    next
      case (Some due)
      then have w: "schedule_wf s" "period_ms s = period_ms (slots t)"
        using cases(2) by (simp_all add: word_unat_eq_iff)
      have n: "unat (next_slot_ms s) = unat (next_slot_ms (slots t)) +
          Suc (unat (due_skipped due)) * unat (period_ms (slots t))"
        using cases(1) Some by (auto simp: due_pair_def)
      obtain t' r where r: "publish_due b boot k (nat (sint (k - 20))) (t\<lparr>slots := s\<rparr>) due e = Some (t', r)"
        "slots t' = s" "length (active (pool t')) = 3"
        "unat (skipped (pool t)) + Suc (unat (due_skipped due)) < 2 ^ 32 \<longrightarrow>
          unat (skipped (pool t')) + (if r = None then 0 else 1) =
            unat (skipped (pool t)) + Suc (unat (due_skipped due))"
        using publish_due_accounts [of "nat (sint (k - 20))" "t\<lparr>slots := s\<rparr>" b boot k due e] i assms(3) by auto
      have "publish_step b boot k t e = Some (t', r)"
        using r(1) sd Some False by (simp add: publish_step_def Let_def)
      then show ?thesis
        using r w n by (intro exI [of _ t'] exI [of _ r] exI [of _ "Suc (unat (due_skipped due))"])
          (auto simp: next_ms_def)
    qed
  qed
qed

fun publish_run ::
  "'w build \<Rightarrow> bytes \<Rightarrow> i32 \<Rightarrow> publish_task \<Rightarrow> publish_event list \<Rightarrow>
    (publish_task \<times> bytes option list) option" where
  "publish_run b boot k t [] = Some (t, [])"
| "publish_run b boot k t (e # es) =
     Option.bind (publish_step b boot k t e) (\<lambda>(t, r).
       map_option (\<lambda>(t, rs). (t, r # rs)) (publish_run b boot k t es))"

definition self_messages :: "'w build \<Rightarrow> counters \<Rightarrow> bytes \<Rightarrow> envelope list" where
  "self_messages b c boot =
    concat (map (\<lambda>op. map (to_envelope (wire b))
      [Request DEVICE_ID boot 1 op, Response DEVICE_ID boot 1 boot 0 (operation_answer c op),
       Response DEVICE_ID boot 1 boot 0 (Error_Answer True)]) [Ask_Info, Ask_Status, Ask_Health]) @
    map (to_envelope (wire b)) [Publication DEVICE_ID boot 0 0 (Status_Report (Measured f32_25_5)),
      Publication DEVICE_ID boot 0 0 (health_report_of c)]"

fun operation_code :: "operation \<Rightarrow> i32" where
  "operation_code Ask_Info = 1"
| "operation_code Ask_Status = 2"
| "operation_code Ask_Health = 3"

lemma self_request_op:
  "self_request boot (operation_code op) = to_envelope f (Request DEVICE_ID boot 1 op)"
  by (cases op) (simp_all add: self_request_def to_envelope.simps)

lemma request_normal: "normalize (to_envelope f (Request dev sess rid op)) = to_envelope f (Request dev sess rid op)"
  by (cases op) (simp_all add: normalize_def to_envelope.simps envelope_default_def)

lemma encode_frame_decodes:
  assumes "lib_faithful (lib b) (wire b) (normalize m)" and "encode_frame b m = Inr datagram"
  shows "framing_decode (lib b) (checksum b) (wire b) (crc b) datagram = Inr (normalize m)"
proof -
  obtain out n where r: "framing_encode (lib b) (checksum b) (wire b) (crc b) m
      (replicate DATAGRAM_CAPACITY 0) = Inr (out, n)" "datagram = take n out"
    using assms(2) by (auto simp: encode_frame_def r_bind_Inr_iff)
  show ?thesis
    using message_codec.sent_is_received [of "(lib b, wire b)" m "checksum b" "crc b"
        "replicate DATAGRAM_CAPACITY 0" out n] assms(1) r
    by (simp add: framing_encode_def framing_decode_def)
qed

lemma check_answer_iff:
  assumes "response (wire b) c boot request error 0 = Some m"
  shows "check_answer b c boot request error \<longleftrightarrow> is_ok (encode_frame b m)"
  using assms by (simp add: check_answer_def)

lemma assess_own_request:
  assumes "message_ok (Request DEVICE_ID sess rid op)"
  shows "assess p (to_envelope f (Request DEVICE_ID sess rid op)) f DEVICE_ID now =
    (p, \<lparr>decision = Accept, rejection = None\<rparr>)"
  using validate_sound [OF assms, of f]
  by (simp add: assess_def is_request_kind_iff device_id_to_envelope)

lemma self_check_step:
  assumes "hex_token boot" and "lib_faithful (lib b) (wire b) (to_envelope (wire b) (Request DEVICE_ID boot 1 op))"
  shows "self_check_kinds b c boot p (operation_code op # ks) \<longleftrightarrow>
    is_ok (encode_frame b (to_envelope (wire b) (Request DEVICE_ID boot 1 op))) \<and>
    is_ok (encode_frame b (to_envelope (wire b) (Response DEVICE_ID boot 1 boot 0 (operation_answer c op)))) \<and>
    is_ok (encode_frame b (to_envelope (wire b) (Response DEVICE_ID boot 1 boot 0 (Error_Answer True)))) \<and>
    self_check_kinds b c boot p ks"
proof -
  let ?m = "to_envelope (wire b) (Request DEVICE_ID boot 1 op)"
  have ok: "message_ok (Request DEVICE_ID boot 1 op)" using assms(1) device_name_DEVICE_ID by simp
  have fields: "client_session ?m = Some boot" "request_id ?m = Some 1"
    by (cases op; simp add: to_envelope.simps)+
  have answers: "check_answer b c boot ?m None \<longleftrightarrow>
      is_ok (encode_frame b (to_envelope (wire b) (Response DEVICE_ID boot 1 boot 0 (operation_answer c op))))"
    "check_answer b c boot ?m (Some 2) \<longleftrightarrow>
      is_ok (encode_frame b (to_envelope (wire b) (Response DEVICE_ID boot 1 boot 0 (Error_Answer True))))"
    using response_error [OF fields, of 2 "wire b" c boot 0]
    by (simp_all add: check_answer_iff response_accept)
  show ?thesis
  proof (cases "encode_frame b ?m")
    case (Inr datagram)
    have "framing_decode (lib b) (checksum b) (wire b) (crc b) datagram = Inr ?m"
      using encode_frame_decodes [of b ?m datagram] assms(2) Inr by (simp add: request_normal)
    then show ?thesis
      using Inr answers by (simp add: self_request_op [of boot op "wire b"] assess_own_request [OF ok])
  qed (simp add: self_request_op [of boot op "wire b"])
qed

lemma self_check_eq:
  assumes "hex_token boot"
    and "\<And>op. lib_faithful (lib b) (wire b) (to_envelope (wire b) (Request DEVICE_ID boot 1 op))"
  shows "self_check b c boot \<longleftrightarrow> list_all (\<lambda>m. is_ok (encode_frame b m)) (self_messages b c boot)"
proof -
  note step = self_check_step [OF assms(1) assms(2)]
  have mc: "is_multicast GROUP" by (simp add: is_multicast_def GROUP_def)
  have ks: "self_check_kinds b c boot p [1, 2, 3] = self_check_kinds b c boot p
      [operation_code Ask_Info, operation_code Ask_Status, operation_code Ask_Health]" for p by simp
  show ?thesis
    unfolding self_check_def ks step
    by (simp add: mc self_messages_def publication_status [of c boot 0 0 "wire b"]
        publication_health [of c boot 0 0 "wire b"] conj_ac)
qed

text \<open>A build with sample crates, for the witnesses.\<close>

definition sample_build :: "unit build" where
  "sample_build = \<lparr>lib = sample_lib (to_envelope Protobuf sample_message),
    checksum = crc32c_reference, wire = Protobuf, crc = Off\<rparr>"

definition sample_boot :: bytes where
  "sample_boot = lit ''0123456789abcdef''"

lemma sample_boot_token: "hex_token sample_boot"
  by (simp add: sample_boot_def hex_token_def ascii_defs)

section \<open>Properties\<close>

text \<open>C4: whatever arrives, an iteration of the command task never panics and keeps the three
  socket flags; if it sends a datagram, that datagram encodes a well-formed response of this
  device to the message just received: it repeats the session and the request number, and
  it is an error or, only for a valid request, an answer to the requested operation with some
  state of the counters.\<close>
theorem command_step_replies:
  assumes "hex_token boot" and "length (active (shared t)) = 3"
  shows "\<exists>t' r. command_step b boot t e = Some (t', r) \<and> length (active (shared t')) = 3 \<and>
    (\<forall>reply. r = Some reply \<longrightarrow>
      (\<exists>d now now' sent m c sess rid ans. e = Datagram d now now' sent \<and>
        framing_parse (lib b) (checksum b) (wire b) (crc b) d = Inr m \<and>
        client_session m = Some sess \<and> request_id m = Some rid \<and>
        message_ok (Response DEVICE_ID sess rid boot (ucast now') ans) \<and>
        encode_frame b (to_envelope (wire b) (Response DEVICE_ID sess rid boot (ucast now') ans)) = Inr reply \<and>
        ((\<exists>op. m = to_envelope (wire b) (Request DEVICE_ID sess rid op) \<and> ans = operation_answer c op) \<or>
         (\<exists>invalid. ans = Error_Answer invalid))))"
proof (cases e)
  case (Datagram d now now' sent)
  show ?thesis
  proof (cases "framing_parse (lib b) (checksum b) (wire b) (crc b) d")
    case (Inl err)
    then show ?thesis using assms(2) by (simp add: Datagram command_datagram_def)
  next
    case (Inr m)
    obtain p a where pa: "assess (policy t) m (wire b) DEVICE_ID now = (p, a)" by fastforce
    define c where "c = note_assessment a (shared t)"
    define u where "u = t\<lparr>policy := p, shared := c\<rparr>"
    have len: "length (active (shared u)) = 3" using assms(2) by (simp add: u_def c_def)
    have step: "command_step b boot t e = (case reply_error (decision a) of
        None \<Rightarrow> Some (u, None) | Some error \<Rightarrow> send_reply b boot u m error now' sent)"
      by (simp add: Datagram command_datagram_def Inr pa u_def c_def Let_def split: option.split)
    show ?thesis
    proof (cases "reply_error (decision a)")
      case None
      then show ?thesis using step len by simp
    next
      case (Some error)
      obtain sess rid ans where r: "client_session m = Some sess" "request_id m = Some rid"
        "response (wire b) c boot m error now' =
          Some (to_envelope (wire b) (Response DEVICE_ID sess rid boot (ucast now') ans))"
        "message_ok (Response DEVICE_ID sess rid boot (ucast now') ans)"
        "case error of None \<Rightarrow> \<exists>op. m = to_envelope (wire b) (Request DEVICE_ID sess rid op) \<and>
            ans = operation_answer c op | Some code \<Rightarrow> ans = Error_Answer (code = 2)"
        using response_of_decision [OF pa Some assms(1), of c now'] by blast
      have "response (wire b) (shared u) boot m error now' =
          Some (to_envelope (wire b) (Response DEVICE_ID sess rid boot (ucast now') ans))"
        using r(3) by (simp add: u_def)
      from send_reply_total [OF this, of sent] len
      obtain t' r' where s: "send_reply b boot u m error now' sent = Some (t', r')"
        "length (active (shared t')) = 3"
        "\<forall>d. r' = Some d \<longrightarrow> encode_frame b (to_envelope (wire b)
          (Response DEVICE_ID sess rid boot (ucast now') ans)) = Inr d"
        by auto
      have kind: "(\<exists>op. m = to_envelope (wire b) (Request DEVICE_ID sess rid op) \<and> ans = operation_answer c op) \<or>
         (\<exists>invalid. ans = Error_Answer invalid)"
        using r(5) by (cases error) auto
      show ?thesis
      proof (rule exI [of _ t'], rule exI [of _ r'], intro conjI allI impI)
        show "command_step b boot t e = Some (t', r')" using step s(1) Some by simp
        show "length (active (shared t')) = 3" by (rule s(2))
        fix reply
        assume "r' = Some reply"
        then have "encode_frame b (to_envelope (wire b)
          (Response DEVICE_ID sess rid boot (ucast now') ans)) = Inr reply" using s(3) by blast
        then show "\<exists>d now now' sent m c sess rid ans. e = Datagram d now now' sent \<and>
          framing_parse (lib b) (checksum b) (wire b) (crc b) d = Inr m \<and>
          client_session m = Some sess \<and> request_id m = Some rid \<and>
          message_ok (Response DEVICE_ID sess rid boot (ucast now') ans) \<and>
          encode_frame b (to_envelope (wire b) (Response DEVICE_ID sess rid boot (ucast now') ans)) = Inr reply \<and>
          ((\<exists>op. m = to_envelope (wire b) (Request DEVICE_ID sess rid op) \<and> ans = operation_answer c op) \<or>
           (\<exists>invalid. ans = Error_Answer invalid))"
          using Datagram Inr r(1,2,4) kind by blast
      qed
    qed
  qed
qed (use assms(2) in simp_all)

theorem command_step_replies_witness:
  "\<exists>t' r. command_step sample_build sample_boot \<lparr>policy = command_policy_new 0, shared = counters_new\<rparr>
    (Datagram [8, 1] 5 6 True) = Some (t', r) \<and> length (active (shared t')) = 3"
  using command_step_replies [OF sample_boot_token, of "\<lparr>policy = command_policy_new 0, shared = counters_new\<rparr>"
      sample_build "Datagram [8, 1] 5 6 True"]
  by (simp add: counters_new_def) blast

text \<open>The self check that guards the confirmation of a trial image passes exactly when the
  build can encode each of the eleven kinds of message the server sends or accepts, given
  crates that read back the three requests; no decision of the protocol code can fail it.\<close>
theorem self_check_exact:
  assumes "hex_token boot"
    and "\<forall>op. lib_faithful (lib b) (wire b) (to_envelope (wire b) (Request DEVICE_ID boot 1 op))"
  shows "self_check b c boot \<longleftrightarrow> (\<forall>m \<in> set (self_messages b c boot). is_ok (encode_frame b m))"
  using self_check_eq [OF assms(1), of b c] assms(2) by (simp add: list_all_iff)

definition kind_lib :: "unit message_lib" where
  "kind_lib = (sample_lib envelope_default)
    \<lparr>pb_encode := (\<lambda>p _. Some [case pb_kind p of None \<Rightarrow> 0 | Some k \<Rightarrow> ucast (message_kind_val k)]),
     pb_decode := (\<lambda>bs. Some (envelope_to_pb (self_request sample_boot (if bs = [1] then 1 else if bs = [2] then 2 else 3))))\<rparr>"

theorem self_check_exact_witness:
  "self_check \<lparr>lib = kind_lib, checksum = crc32c_reference, wire = Protobuf, crc = Off\<rparr> counters_new sample_boot"
proof -
  let ?b = "\<lparr>lib = kind_lib, checksum = crc32c_reference, wire = Protobuf, crc = Off\<rparr>"
  have "lib_faithful kind_lib Protobuf (to_envelope Protobuf (Request DEVICE_ID sample_boot 1 op))" for op
    by (cases op) (simp_all add: lib_faithful_def pb_faithful_def kind_lib_def envelope_to_pb_def
        kind_to_envelope self_request_op [of _ Ask_Info Protobuf, simplified]
        self_request_op [of _ Ask_Status Protobuf, simplified] self_request_op [of _ Ask_Health Protobuf, simplified])
  then have faithful: "\<forall>op. lib_faithful (lib ?b) (wire ?b) (to_envelope (wire ?b) (Request DEVICE_ID sample_boot 1 op))"
    by simp
  have ok: "is_ok (encode_frame ?b (to_envelope Protobuf msg))" if "message_ok msg" for msg
    using validate_sound [OF that, of Protobuf]
    by (simp add: encode_frame_def framing_encode_def send_frame_def encode_def pb_bytes_def kind_lib_def
        DATAGRAM_CAPACITY_def MAX_BODY_def seal_Off)
  have oks: "message_ok (Request DEVICE_ID sample_boot 1 op)"
    "message_ok (Response DEVICE_ID sample_boot 1 sample_boot 0 (operation_answer counters_new op))"
    "message_ok (Response DEVICE_ID sample_boot 1 sample_boot 0 (Error_Answer True))"
    "message_ok (Publication DEVICE_ID sample_boot 0 0 (Status_Report (Measured f32_25_5)))"
    "message_ok (Publication DEVICE_ID sample_boot 0 0 (health_report_of counters_new))" for op
    using sample_boot_token device_name_DEVICE_ID operation_answer_ok temperature_ok_25_5
    by (simp_all add: health_report_of_def)
  have "\<forall>m \<in> set (self_messages ?b counters_new sample_boot). is_ok (encode_frame ?b m)"
    using ok [OF oks(1)] ok [OF oks(2)] ok [OF oks(3)] ok [OF oks(4)] ok [OF oks(5)]
    by (auto simp: self_messages_def simp del: operation_answer.simps)
  then show ?thesis using self_check_exact [OF sample_boot_token faithful, of counters_new] by blast
qed

text \<open>C11: a publication task never panics, whatever the network does, and accounts for every slot
  of its schedule: over any run of iterations of one task the slots that have passed are the
  publications sent plus the increase of the skipped counter (which saturates at
  \<open>2 ^ 32 - 1\<close>; what the other task adds to that counter meanwhile is not in the run).\<close>
theorem publications_account_for_every_slot:
  assumes "k = 21 \<or> k = 22" and "schedule_wf (slots t)" and "length (active (pool t)) = 3"
    and "\<forall>e \<in> set es. unat (instant e) + unat (period_ms (slots t)) < 2 ^ 64"
  shows "\<exists>t' rs n. publish_run b boot k t es = Some (t', rs) \<and>
    unat (next_ms (slots t')) = unat (next_ms (slots t)) + n * unat (period_ms (slots t)) \<and>
    (unat (skipped (pool t)) + n < 2 ^ 32 \<longrightarrow>
      unat (skipped (pool t')) + count_of (\<lambda>r. r \<noteq> None) rs = unat (skipped (pool t)) + n)"
  using assms(2-)
proof (induction es arbitrary: t)
  case Nil
  show ?case by (intro exI [of _ t] exI [of _ "[]"] exI [of _ 0]) simp
next
  case (Cons e es)
  obtain t1 r n where s: "publish_step b boot k t e = Some (t1, r)" "schedule_wf (slots t1)"
    "period_ms (slots t1) = period_ms (slots t)" "length (active (pool t1)) = 3"
    "unat (next_ms (slots t1)) = unat (next_ms (slots t)) + n * unat (period_ms (slots t))"
    "unat (skipped (pool t)) + n < 2 ^ 32 \<longrightarrow>
      unat (skipped (pool t1)) + (if r = None then 0 else 1) = unat (skipped (pool t)) + n"
    using publish_step_accounts [OF assms(1) Cons.prems(1,2), of e b boot] Cons.prems(3) by auto
  have late: "\<forall>e \<in> set es. unat (instant e) + unat (period_ms (slots t1)) < 2 ^ 64"
    using Cons.prems(3) s(3) by simp
  obtain t' rs m where r: "publish_run b boot k t1 es = Some (t', rs)"
    "unat (next_ms (slots t')) = unat (next_ms (slots t1)) + m * unat (period_ms (slots t1))"
    "unat (skipped (pool t1)) + m < 2 ^ 32 \<longrightarrow>
      unat (skipped (pool t')) + count_of (\<lambda>r. r \<noteq> None) rs = unat (skipped (pool t1)) + m"
    using Cons.IH [OF s(2,4) late] by blast
  show ?case
    using s r by (intro exI [of _ t'] exI [of _ "r # rs"] exI [of _ "n + m"])
      (auto simp: algebra_simps split: if_splits)
qed

theorem publications_account_for_every_slot_witness:
  "\<exists>t' rs n. publish_run sample_build sample_boot 21
      \<lparr>slots = \<lparr>period_ms = 100, next_slot_ms = 100, schedule_sequence = 0\<rparr>, pool = counters_new,
       reported_crc = 0, next_report = 0\<rparr>
      [\<lparr>lost = False, instant = 100, net_ready = True, drained = True\<rparr>,
       \<lparr>lost = False, instant = 450, net_ready = False, drained = False\<rparr>] = Some (t', rs) \<and>
    unat (next_ms (slots t')) = 100 + n * 100 \<and>
    (n < 2 ^ 32 \<longrightarrow> unat (skipped (pool t')) + count_of (\<lambda>r. r \<noteq> None) rs = n)"
proof -
  let ?t = "\<lparr>slots = \<lparr>period_ms = 100, next_slot_ms = 100, schedule_sequence = 0\<rparr>, pool = counters_new,
       reported_crc = 0, next_report = 0\<rparr> :: publish_task"
  let ?es = "[\<lparr>lost = False, instant = 100, net_ready = True, drained = True\<rparr>,
       \<lparr>lost = False, instant = 450, net_ready = False, drained = False\<rparr>] :: publish_event list"
  have "schedule_wf (slots ?t)" "length (active (pool ?t)) = 3"
    "\<forall>e \<in> set ?es. unat (instant e) + unat (period_ms (slots ?t)) < 2 ^ 64"
    by (simp_all add: schedule_wf_def counters_new_def)
  from publications_account_for_every_slot [OF disjI1 [OF refl] this, of sample_build sample_boot]
  show ?thesis by (simp add: counters_new_def next_ms_def)
qed

end
