(* ===== verification/Bench_Model.thy ===== *)
theory Bench_Model
  imports Message_Model
begin

text \<open>
  The message structures of the benchmark protocol
  (\<^verbatim>\<open>Rust/messaging/src/generated/benchmark_model.rs\<close>), their Protobuf types and the
  conversions.  \<^verbatim>\<open>Status\<close> and \<^verbatim>\<open>Health\<close> have the fields of the ordinary messages and
  are those records.
\<close>

section \<open>Message structures\<close>

record limits =
  limit_encoding :: "i32 option"
  crc_enabled :: "bool option"
  max_payload_bytes :: "u32 option"
  max_datagram_bytes :: "u32 option"
  min_status_period_us :: "u32 option"
  min_health_period_us :: "u32 option"
  max_period_us :: "u32 option"
  min_lease_ms :: "u32 option"
  max_lease_ms :: "u32 option"
  available :: "bool option"

record configuration =
  payload_bytes :: "u32 option"
  pattern_seed :: "u32 option"
  status_period_us :: "u32 option"
  health_period_us :: "u32 option"
  lease_ms :: "u32 option"

record control_result =
  result_code :: "i32 option"
  lease_remaining_ms :: "u32 option"

record bench_envelope =
  b_protocol_version :: "u32 option"
  b_kind :: "i32 option"
  b_device_id :: "bytes option"
  b_boot_id :: "bytes option"
  session_id :: "bytes option"
  b_request_id :: "u32 option"
  b_sequence :: "u32 option"
  b_uptime_ms :: "u32 option"
  payload :: "bytes option"
  run_epoch :: "u32 option"
  capabilities :: "empty option"
  configure :: "configuration option"
  renew :: "empty option"
  stop :: "empty option"
  probe :: "empty option"
  limits_body :: "limits option"
  result_body :: "control_result option"
  probe_response :: "empty option"
  b_status :: "status option"
  b_health :: "health option"

definition bench_default :: bench_envelope where
  "bench_default = \<lparr>b_protocol_version = None, b_kind = None, b_device_id = None, b_boot_id = None,
    session_id = None, b_request_id = None, b_sequence = None, b_uptime_ms = None, payload = None,
    run_epoch = None, capabilities = None, configure = None, renew = None, stop = None,
    probe = None, limits_body = None, result_body = None, probe_response = None, b_status = None,
    b_health = None\<rparr>"

definition bench_flags :: "bench_envelope \<Rightarrow> bool list" where
  "bench_flags m =
    [is_some (capabilities m), is_some (configure m), is_some (renew m), is_some (stop m),
     is_some (probe m), is_some (limits_body m), is_some (result_body m),
     is_some (probe_response m), is_some (b_status m), is_some (b_health m)]"

definition bench_count :: "bench_envelope \<Rightarrow> nat" where
  "bench_count m = length (filter (\<lambda>v. v) (bench_flags m))"

definition bench_typed :: "bench_envelope \<Rightarrow> bool" where
  "bench_typed m \<longleftrightarrow> fits 32 (b_device_id m) \<and> fits 16 (b_boot_id m) \<and> fits 16 (session_id m) \<and>
    fits 512 (payload m)"

section \<open>Protobuf messages\<close>

record pb_limits =
  pbl_encoding :: "pb_encoding option"
  pbl_crc_enabled :: "bool option"
  pbl_max_payload_bytes :: "u32 option"
  pbl_max_datagram_bytes :: "u32 option"
  pbl_min_status_period_us :: "u32 option"
  pbl_min_health_period_us :: "u32 option"
  pbl_max_period_us :: "u32 option"
  pbl_min_lease_ms :: "u32 option"
  pbl_max_lease_ms :: "u32 option"
  pbl_available :: "bool option"

datatype pb_bench_kind = Kind (kind_val: i32)
datatype pb_result_code = ResultCode (result_code_val: i32)

record pb_control_result =
  pbr_code :: "pb_result_code option"
  pbr_lease_remaining_ms :: "u32 option"

datatype pb_bench_body =
    PbCapabilities empty
  | PbConfigure configuration
  | PbRenew empty
  | PbStop empty
  | PbProbe empty
  | PbLimits pb_limits
  | PbResult pb_control_result
  | PbProbeResponse empty
  | PbBenchStatus pb_status
  | PbBenchHealth pb_health

record pb_bench_envelope =
  pbb_protocol_version :: "u32 option"
  pbb_kind :: "pb_bench_kind option"
  pbb_device_id :: "bytes option"
  pbb_boot_id :: "bytes option"
  pbb_session_id :: "bytes option"
  pbb_request_id :: "u32 option"
  pbb_sequence :: "u32 option"
  pbb_uptime_ms :: "u32 option"
  pbb_payload :: "bytes option"
  pbb_run_epoch :: "u32 option"
  pbb_body :: "pb_bench_body option"

definition limits_to_pb :: "limits \<Rightarrow> pb_limits" where
  "limits_to_pb l =
    \<lparr>pbl_encoding = map_option Encoding (limit_encoding l), pbl_crc_enabled = crc_enabled l,
     pbl_max_payload_bytes = max_payload_bytes l, pbl_max_datagram_bytes = max_datagram_bytes l,
     pbl_min_status_period_us = min_status_period_us l,
     pbl_min_health_period_us = min_health_period_us l, pbl_max_period_us = max_period_us l,
     pbl_min_lease_ms = min_lease_ms l, pbl_max_lease_ms = max_lease_ms l,
     pbl_available = available l\<rparr>"

definition limits_from_pb :: "pb_limits \<Rightarrow> limits" where
  "limits_from_pb p =
    \<lparr>limit_encoding = map_option encoding_val (pbl_encoding p), crc_enabled = pbl_crc_enabled p,
     max_payload_bytes = pbl_max_payload_bytes p, max_datagram_bytes = pbl_max_datagram_bytes p,
     min_status_period_us = pbl_min_status_period_us p,
     min_health_period_us = pbl_min_health_period_us p, max_period_us = pbl_max_period_us p,
     min_lease_ms = pbl_min_lease_ms p, max_lease_ms = pbl_max_lease_ms p,
     available = pbl_available p\<rparr>"

definition result_to_pb :: "control_result \<Rightarrow> pb_control_result" where
  "result_to_pb r = \<lparr>pbr_code = map_option ResultCode (result_code r),
    pbr_lease_remaining_ms = lease_remaining_ms r\<rparr>"

definition result_from_pb :: "pb_control_result \<Rightarrow> control_result" where
  "result_from_pb p = \<lparr>result_code = map_option result_code_val (pbr_code p),
    lease_remaining_ms = pbr_lease_remaining_ms p\<rparr>"

definition or_body :: "('a \<Rightarrow> pb_bench_body) \<Rightarrow> 'a option \<Rightarrow> pb_bench_body option \<Rightarrow> pb_bench_body option" where
  "or_body f v b = (case v of None \<Rightarrow> b | Some x \<Rightarrow> Some (f x))"

definition bench_body_of :: "bench_envelope \<Rightarrow> pb_bench_body option" where
  "bench_body_of m =
    (let b = None;
         b = or_body PbCapabilities (capabilities m) b;
         b = or_body PbConfigure (configure m) b;
         b = or_body PbRenew (renew m) b;
         b = or_body PbStop (stop m) b;
         b = or_body PbProbe (probe m) b;
         b = or_body (PbLimits \<circ> limits_to_pb) (limits_body m) b;
         b = or_body (PbResult \<circ> result_to_pb) (result_body m) b;
         b = or_body PbProbeResponse (probe_response m) b;
         b = or_body (PbBenchStatus \<circ> status_to_pb) (b_status m) b
     in or_body (PbBenchHealth \<circ> health_to_pb) (b_health m) b)"

definition bench_to_pb :: "bench_envelope \<Rightarrow> pb_bench_envelope" where
  "bench_to_pb m =
    \<lparr>pbb_protocol_version = b_protocol_version m, pbb_kind = map_option Kind (b_kind m),
     pbb_device_id = b_device_id m, pbb_boot_id = b_boot_id m, pbb_session_id = session_id m,
     pbb_request_id = b_request_id m, pbb_sequence = b_sequence m, pbb_uptime_ms = b_uptime_ms m,
     pbb_payload = payload m, pbb_run_epoch = run_epoch m, pbb_body = bench_body_of m\<rparr>"

definition bench_from_pb :: "pb_bench_envelope \<Rightarrow> bench_envelope" where
  "bench_from_pb p =
    (let out = bench_default
       \<lparr>b_protocol_version := pbb_protocol_version p,
        b_kind := map_option kind_val (pbb_kind p), b_device_id := pbb_device_id p,
        b_boot_id := pbb_boot_id p, session_id := pbb_session_id p,
        b_request_id := pbb_request_id p, b_sequence := pbb_sequence p,
        b_uptime_ms := pbb_uptime_ms p, payload := pbb_payload p, run_epoch := pbb_run_epoch p\<rparr>
     in case pbb_body p of
          None \<Rightarrow> out
        | Some (PbCapabilities v) \<Rightarrow> out\<lparr>capabilities := Some v\<rparr>
        | Some (PbConfigure v) \<Rightarrow> out\<lparr>configure := Some v\<rparr>
        | Some (PbRenew v) \<Rightarrow> out\<lparr>renew := Some v\<rparr>
        | Some (PbStop v) \<Rightarrow> out\<lparr>stop := Some v\<rparr>
        | Some (PbProbe v) \<Rightarrow> out\<lparr>probe := Some v\<rparr>
        | Some (PbLimits v) \<Rightarrow> out\<lparr>limits_body := Some (limits_from_pb v)\<rparr>
        | Some (PbResult v) \<Rightarrow> out\<lparr>result_body := Some (result_from_pb v)\<rparr>
        | Some (PbProbeResponse v) \<Rightarrow> out\<lparr>probe_response := Some v\<rparr>
        | Some (PbBenchStatus v) \<Rightarrow> out\<lparr>b_status := Some (status_from_pb v)\<rparr>
        | Some (PbBenchHealth v) \<Rightarrow> out\<lparr>b_health := Some (health_from_pb v)\<rparr>)"

lemma bench_leaf_from_to_pb [simp]:
  "limits_from_pb (limits_to_pb l) = l"
  "result_from_pb (result_to_pb r) = r"
  by (simp_all add: limits_from_pb_def limits_to_pb_def result_from_pb_def result_to_pb_def
      map_option_id_comp)

section \<open>The conversion keeps a message with one body\<close>

fun only_one :: "bool list \<Rightarrow> bool" where
  "only_one [] = True"
| "only_one (x # xs) = (if x then list_all Not xs else only_one xs)"

lemma only_one_iff: "length (filter (\<lambda>v. v) xs) \<le> 1 \<longleftrightarrow> only_one xs"
  by (induction xs) (auto simp: filter_empty_conv list_all_iff)

lemma only_one_cases:
  assumes "only_one (x # xs)"
  obtains "x" and "list_all Not xs" | "\<not> x" and "only_one xs"
  using assms by (simp split: if_splits)

definition bench_header :: "bench_envelope \<Rightarrow> bench_envelope" where
  "bench_header m = bench_default\<lparr>b_protocol_version := b_protocol_version m, b_kind := b_kind m,
    b_device_id := b_device_id m, b_boot_id := b_boot_id m, session_id := session_id m,
    b_request_id := b_request_id m, b_sequence := b_sequence m, b_uptime_ms := b_uptime_ms m,
    payload := payload m, run_epoch := run_epoch m\<rparr>"

lemma bench_from_pb_to_pb:
  "bench_from_pb (bench_to_pb m) =
    (case bench_body_of m of
       None \<Rightarrow> bench_header m
     | Some (PbCapabilities v) \<Rightarrow> (bench_header m)\<lparr>capabilities := Some v\<rparr>
     | Some (PbConfigure v) \<Rightarrow> (bench_header m)\<lparr>configure := Some v\<rparr>
     | Some (PbRenew v) \<Rightarrow> (bench_header m)\<lparr>renew := Some v\<rparr>
     | Some (PbStop v) \<Rightarrow> (bench_header m)\<lparr>stop := Some v\<rparr>
     | Some (PbProbe v) \<Rightarrow> (bench_header m)\<lparr>probe := Some v\<rparr>
     | Some (PbLimits v) \<Rightarrow> (bench_header m)\<lparr>limits_body := Some (limits_from_pb v)\<rparr>
     | Some (PbResult v) \<Rightarrow> (bench_header m)\<lparr>result_body := Some (result_from_pb v)\<rparr>
     | Some (PbProbeResponse v) \<Rightarrow> (bench_header m)\<lparr>probe_response := Some v\<rparr>
     | Some (PbBenchStatus v) \<Rightarrow> (bench_header m)\<lparr>b_status := Some (status_from_pb v)\<rparr>
     | Some (PbBenchHealth v) \<Rightarrow> (bench_header m)\<lparr>b_health := Some (health_from_pb v)\<rparr>)"
  by (simp add: bench_from_pb_def bench_to_pb_def bench_header_def map_option_id_comp Let_def
      split: option.split pb_bench_body.split)

lemma bench_from_pb_count: "bench_count (bench_from_pb p) \<le> 1"
proof (cases "pbb_body p")
  case (Some b)
  then show ?thesis
    by (cases b) (simp_all add: bench_from_pb_def bench_count_def bench_flags_def bench_default_def)
qed (simp add: bench_from_pb_def bench_count_def bench_flags_def bench_default_def)

lemma bench_pb_identity_one:
  assumes "bench_count m \<le> 1"
  shows "bench_from_pb (bench_to_pb m) = m"
proof -
  have "only_one (bench_flags m)"
    using assms unfolding bench_count_def by (rule only_one_iff [THEN iffD1])
  then show ?thesis
    unfolding bench_flags_def
    by (elim only_one_cases; clarsimp; intro trans [OF bench_from_pb_to_pb] bench_envelope.equality;
        simp add: bench_body_of_def or_body_def bench_header_def bench_default_def)
qed

text \<open>Converting a benchmark message to its Protobuf form and back is the identity exactly when
  it has at most one body.\<close>
theorem bench_pb_round_trip:
  "bench_from_pb (bench_to_pb m) = m \<longleftrightarrow> bench_count m \<le> 1"
  using bench_pb_identity_one [of m] bench_from_pb_count [of "bench_to_pb m"] by auto

end
