(* ===== verification/Bench_Validation.thy ===== *)
theory Bench_Validation
  imports Bench_Model Validation Framing
begin

text \<open>
  The checks of \<^verbatim>\<open>Rust/messaging/src/benchmark.rs\<close>: \<^verbatim>\<open>nonce\<close>,
  \<^verbatim>\<open>configuration_valid\<close> and \<^verbatim>\<open>validate\<close>, which a benchmark message passes before it
  is sent, after it is parsed and before the control service acts on it.  The structural
  checks leave the bounds of a configuration to the service, which answers them with a
  result code.
\<close>

section \<open>The checks of the code\<close>

definition nonce :: "bytes option \<Rightarrow> bool" where
  "nonce value = is_some_and (\<lambda>v. length v = 16 \<and> v \<noteq> lit ''0000000000000000'' \<and>
    list_all (\<lambda>b. is_digit b \<or> 97 \<le> b \<and> b \<le> 102) v) value"

definition configuration_valid :: "configuration \<Rightarrow> bool" where
  "configuration_valid c \<longleftrightarrow>
    is_some_and (\<lambda>v. v \<le> 512) (payload_bytes c) \<and>
    is_some (pattern_seed c) \<and>
    is_some_and (\<lambda>v. v = 0 \<or> 1000 \<le> v \<and> v \<le> 10000000) (status_period_us c) \<and>
    is_some_and (\<lambda>v. v = 0 \<or> 10000 \<le> v \<and> v \<le> 10000000) (health_period_us c) \<and>
    is_some_and (\<lambda>v. 2000 \<le> v \<and> v \<le> 30000) (lease_ms c)"

definition bench_kind_body :: "bench_envelope \<Rightarrow> i32 \<Rightarrow> bool" where
  "bench_kind_body m k =
    (if k = 1 then is_some (capabilities m)
     else if k = 2 then is_some (configure m)
     else if k = 3 then is_some (renew m)
     else if k = 4 then is_some (stop m)
     else if k = 5 then is_some (probe m)
     else if k = 11 then is_some (limits_body m)
     else if k = 12 then is_some (result_body m)
     else if k = 15 then is_some (probe_response m)
     else if k = 21 then is_some (b_status m)
     else if k = 22 then is_some (b_health m)
     else False)"

definition validate_configure :: "configuration \<Rightarrow> codec_error + unit" where
  "validate_configure c =
    require (is_some (payload_bytes c) \<and> is_some (pattern_seed c) \<and> is_some (status_period_us c) \<and>
      is_some (health_period_us c) \<and> is_some (lease_ms c))"

definition validate_limits :: "wire_format \<Rightarrow> crc_mode \<Rightarrow> limits \<Rightarrow> codec_error + unit" where
  "validate_limits format crc l =
    require (limit_encoding l = Some (format_id format) \<and> crc_enabled l = Some (crc = On) \<and>
      max_payload_bytes l = Some 512 \<and> max_datagram_bytes l = Some 1024 \<and>
      min_status_period_us l = Some 1000 \<and> min_health_period_us l = Some 10000 \<and>
      max_period_us l = Some 10000000 \<and> min_lease_ms l = Some 2000 \<and>
      max_lease_ms l = Some 30000 \<and> is_some (available l))"

definition validate_result :: "control_result \<Rightarrow> codec_error + unit" where
  "validate_result r =
    require (is_some_and (i32_between 1 10) (result_code r) \<and>
      is_some_and (\<lambda>v. v \<le> 30000) (lease_remaining_ms r))"

definition as_publication :: "bench_envelope \<Rightarrow> i32 \<Rightarrow> envelope" where
  "as_publication m k =
    envelope_default\<lparr>protocol_version := Some 1, kind := Some k, device_id := b_device_id m,
      boot_id := b_boot_id m, sequence := b_sequence m, uptime_ms := b_uptime_ms m,
      status_body := b_status m, health_body := b_health m\<rparr>"

definition bench_validate :: "bench_envelope \<Rightarrow> wire_format \<Rightarrow> crc_mode \<Rightarrow> codec_error + unit" where
  "bench_validate m format crc =
    (if b_protocol_version m \<noteq> Some 1
     then Inl (if is_some (b_protocol_version m) then Version else Validation)
     else
       r_bind (require (is_some_and device_name (b_device_id m))) (\<lambda>_.
       r_bind (require (nonce (session_id m))) (\<lambda>_.
       r_bind (ok_or (b_kind m) Validation) (\<lambda>k.
       r_bind (require (bench_count m = 1)) (\<lambda>_.
       r_bind (require (bench_kind_body m k)) (\<lambda>_.
         let request = i32_between 1 5 k; publication = (k = 21 \<or> k = 22) in
         r_bind (require (is_some (b_uptime_ms m) \<noteq> request \<and>
           is_some (b_sequence m) = publication \<and> is_some (b_request_id m) \<noteq> publication)) (\<lambda>_.
         r_bind (if \<not> publication then require (is_some_and (\<lambda>v. 0 < v) (b_request_id m))
           else Inr ()) (\<lambda>_.
         r_bind (if k = 1 then require (is_none (b_boot_id m) \<and> is_none (run_epoch m))
           else require (nonce (b_boot_id m) \<and> is_some_and (\<lambda>v. 0 < v) (run_epoch m))) (\<lambda>_.
         r_bind (require (is_some (payload m) = (k = 5 \<or> k = 15 \<or> k = 21 \<or> k = 22))) (\<lambda>_.
         r_bind (check_opt (\<lambda>p. require (list_all is_alphanumeric p)) (payload m)) (\<lambda>_.
         r_bind (check_opt validate_configure (configure m)) (\<lambda>_.
         r_bind (check_opt (validate_limits format crc) (limits_body m)) (\<lambda>_.
         r_bind (check_opt validate_result (result_body m)) (\<lambda>_.
           if is_some (b_status m) \<or> is_some (b_health m)
           then validate (as_publication m k) format else Inr ()))))))))))))))"

section \<open>Basic facts\<close>

lemma nonce_session: "nonce v = session v"
proof -
  have "is_digit b \<or> 97 \<le> b \<and> b \<le> 102 \<longleftrightarrow> is_lower_hex b" for b
    by (auto simp: is_lower_hex_def)
  then show ?thesis by (cases v) (auto simp: nonce_def hex_token_def)
qed

lemma nonce_Some [simp]: "nonce (Some v) = hex_token v"
  by (simp add: nonce_session)

lemma nonce_None [simp]: "\<not> nonce None"
  by (simp add: nonce_session)

lemma i32_between_1_5: "i32_between 1 5 k \<longleftrightarrow> k \<in> {1, 2, 3, 4, 5}"
proof -
  have "i32_between 1 5 k \<longleftrightarrow> sint k = 1 \<or> sint k = 2 \<or> sint k = 3 \<or> sint k = 4 \<or> sint k = 5"
    unfolding i32_between_def by presburger
  then show ?thesis by (simp add: sint_eq_iff)
qed

lemma bench_kind_body_cases:
  "bench_kind_body m k \<Longrightarrow> k \<in> {1, 2, 3, 4, 5, 11, 12, 15, 21, 22}"
  by (auto simp: bench_kind_body_def split: if_splits)

lemma validate_configure_iff:
  "validate_configure c = Inr () \<longleftrightarrow> is_some (payload_bytes c) \<and> is_some (pattern_seed c) \<and>
    is_some (status_period_us c) \<and> is_some (health_period_us c) \<and> is_some (lease_ms c)"
  by (simp add: validate_configure_def)

lemma bench_validate_iff:
  "bench_validate m f crc = Inr () \<longleftrightarrow>
    b_protocol_version m = Some 1 \<and> is_some_and device_name (b_device_id m) \<and>
    nonce (session_id m) \<and> bench_count m = 1 \<and>
    (\<exists>k. b_kind m = Some k \<and> bench_kind_body m k \<and>
      is_some (b_uptime_ms m) = (\<not> i32_between 1 5 k) \<and>
      is_some (b_sequence m) = (k = 21 \<or> k = 22) \<and>
      is_some (b_request_id m) = (k \<noteq> 21 \<and> k \<noteq> 22) \<and>
      (k \<noteq> 21 \<and> k \<noteq> 22 \<longrightarrow> is_some_and (\<lambda>v. 0 < v) (b_request_id m)) \<and>
      (if k = 1 then is_none (b_boot_id m) \<and> is_none (run_epoch m)
       else nonce (b_boot_id m) \<and> is_some_and (\<lambda>v. 0 < v) (run_epoch m)) \<and>
      is_some (payload m) = (k = 5 \<or> k = 15 \<or> k = 21 \<or> k = 22) \<and>
      (\<forall>p. payload m = Some p \<longrightarrow> list_all is_alphanumeric p) \<and>
      (\<forall>c. configure m = Some c \<longrightarrow> validate_configure c = Inr ()) \<and>
      (\<forall>l. limits_body m = Some l \<longrightarrow> validate_limits f crc l = Inr ()) \<and>
      (\<forall>r. result_body m = Some r \<longrightarrow> validate_result r = Inr ()) \<and>
      (is_some (b_status m) \<or> is_some (b_health m) \<longrightarrow> validate (as_publication m k) f = Inr ()))"
proof -
  have opt: "check_opt c x = Inr () \<longleftrightarrow> (\<forall>v. x = Some v \<longrightarrow> c v = Inr ())" for c and x :: "'x option"
    by (cases x) simp_all
  show ?thesis
    unfolding bench_validate_def
    by (cases "b_kind m")
      (auto simp: r_bind_unit_iff opt Let_def simp del: not_None_eq split: if_splits)
qed

lemma bench_validated:
  assumes "bench_validate m f crc = Inr ()" and "b_kind m = Some k"
  shows "nonce (session_id m)" and "bench_kind_body m k" and "bench_count m = 1"
    and "k \<noteq> 21 \<and> k \<noteq> 22 \<longrightarrow> is_some_and (\<lambda>v. 0 < v) (b_request_id m)"
    and "if k = 1 then is_none (b_boot_id m) \<and> is_none (run_epoch m)
     else nonce (b_boot_id m) \<and> is_some_and (\<lambda>v. 0 < v) (run_epoch m)"
    and "is_some (payload m) = (k = 5 \<or> k = 15 \<or> k = 21 \<or> k = 22)"
    and "\<forall>text. payload m = Some text \<longrightarrow> list_all is_alphanumeric text"
  using assms unfolding bench_validate_iff by (simp_all del: not_None_eq)

end
