(* ===== verification/Bench_Cells.thy ===== *)
theory Bench_Cells
  imports Bench_Validation Csv_Record
begin

text \<open>
  The CSV form of benchmark messages: \<^verbatim>\<open>csv_write\<close> and \<^verbatim>\<open>csv_read\<close> of
  \<^verbatim>\<open>generated/benchmark_model.rs\<close> over the writer \<^verbatim>\<open>CsvOutput\<close> of
  \<^verbatim>\<open>benchmark.rs\<close>, which joins the fields itself and does not quote.  A valid message
  needs no quotes: what is written is the record that \<open>csv_read\<close> takes apart again.
\<close>

section \<open>Writing\<close>

definition body_str :: "bytes \<Rightarrow> codec_error + bytes" where
  "body_str s = (if length s \<le> MAX_BODY then Inr s else Inl Size)"

definition scalar_field :: "('a \<Rightarrow> bytes \<Rightarrow> codec_error + bytes) \<Rightarrow> 'a \<Rightarrow> codec_error + bytes" where
  "scalar_field write v = r_bind (write v []) body_str"

record csv_output =
  out_room :: nat
  out_text :: bytes
  out_count :: nat

definition output_new :: "nat \<Rightarrow> csv_output" where
  "output_new room = \<lparr>out_room = room, out_text = [], out_count = 0\<rparr>"

definition append_out :: "csv_output \<Rightarrow> bytes \<Rightarrow> codec_error + csv_output" where
  "append_out w bs =
    (if out_room w - length (out_text w) < length bs then Inl Size
     else Inr (w\<lparr>out_text := out_text w @ bs\<rparr>))"

definition put_field ::
  "('a \<Rightarrow> codec_error + bytes) \<Rightarrow> csv_output \<Rightarrow> 'a option \<Rightarrow> codec_error + csv_output" where
  "put_field wt w v =
    r_bind (if 0 < out_count w then append_out w [44] else Inr w) (\<lambda>w.
      let w = w\<lparr>out_count := out_count w + 1\<rparr>
      in case v of
           None \<Rightarrow> Inr w
         | Some v \<Rightarrow> r_bind (wt v) (append_out w))"

abbreviation put_u32 :: "csv_output \<Rightarrow> u32 option \<Rightarrow> codec_error + csv_output" where
  "put_u32 \<equiv> put_field (scalar_field write_u32)"

abbreviation put_i32 :: "csv_output \<Rightarrow> i32 option \<Rightarrow> codec_error + csv_output" where
  "put_i32 \<equiv> put_field (scalar_field write_i32)"

abbreviation put_bool :: "csv_output \<Rightarrow> bool option \<Rightarrow> codec_error + csv_output" where
  "put_bool \<equiv> put_field (scalar_field write_bool)"

abbreviation put_str :: "csv_output \<Rightarrow> bytes option \<Rightarrow> codec_error + csv_output" where
  "put_str \<equiv> put_field body_str"

definition finish_out :: "csv_output \<Rightarrow> codec_error + bytes" where
  "finish_out w = r_bind (append_out w CRLF) (\<lambda>w. Inr (out_text w))"

definition put_header :: "csv_output \<Rightarrow> bench_envelope \<Rightarrow> codec_error + csv_output" where
  "put_header w m =
    r_bind (put_u32 w (b_protocol_version m)) (\<lambda>w.
    r_bind (put_i32 w (b_kind m)) (\<lambda>w.
    r_bind (put_str w (b_device_id m)) (\<lambda>w.
    r_bind (put_str w (b_boot_id m)) (\<lambda>w.
    r_bind (put_str w (session_id m)) (\<lambda>w.
    r_bind (put_u32 w (b_request_id m)) (\<lambda>w.
    r_bind (put_u32 w (b_sequence m)) (\<lambda>w.
    r_bind (put_u32 w (b_uptime_ms m)) (\<lambda>w.
    r_bind (put_str w (payload m)) (\<lambda>w.
    put_u32 w (run_epoch m))))))))))"

definition put_configuration :: "csv_output \<Rightarrow> configuration \<Rightarrow> codec_error + csv_output" where
  "put_configuration w b =
    r_bind (put_u32 w (payload_bytes b)) (\<lambda>w.
    r_bind (put_u32 w (pattern_seed b)) (\<lambda>w.
    r_bind (put_u32 w (status_period_us b)) (\<lambda>w.
    r_bind (put_u32 w (health_period_us b)) (\<lambda>w.
    put_u32 w (lease_ms b)))))"

definition put_limits :: "csv_output \<Rightarrow> limits \<Rightarrow> codec_error + csv_output" where
  "put_limits w b =
    r_bind (put_i32 w (limit_encoding b)) (\<lambda>w.
    r_bind (put_bool w (crc_enabled b)) (\<lambda>w.
    r_bind (put_u32 w (max_payload_bytes b)) (\<lambda>w.
    r_bind (put_u32 w (max_datagram_bytes b)) (\<lambda>w.
    r_bind (put_u32 w (min_status_period_us b)) (\<lambda>w.
    r_bind (put_u32 w (min_health_period_us b)) (\<lambda>w.
    r_bind (put_u32 w (max_period_us b)) (\<lambda>w.
    r_bind (put_u32 w (min_lease_ms b)) (\<lambda>w.
    r_bind (put_u32 w (max_lease_ms b)) (\<lambda>w.
    put_bool w (available b))))))))))"

definition put_result :: "csv_output \<Rightarrow> control_result \<Rightarrow> codec_error + csv_output" where
  "put_result w b =
    r_bind (put_i32 w (result_code b)) (\<lambda>w. put_u32 w (lease_remaining_ms b))"

definition put_status :: "(f32 \<Rightarrow> bytes) \<Rightarrow> csv_output \<Rightarrow> status \<Rightarrow> codec_error + csv_output" where
  "put_status ryu w b =
    r_bind (put_field (scalar_field (write_f32 ryu)) w (temperature_celsius b)) (\<lambda>w.
    r_bind (put_i32 w (validity b)) (\<lambda>w.
    put_bool w (synthetic b)))"

definition put_health :: "csv_output \<Rightarrow> health \<Rightarrow> codec_error + csv_output" where
  "put_health w b =
    r_bind (put_i32 w (health_state b)) (\<lambda>w.
    r_bind (put_u32 w (received_requests b)) (\<lambda>w.
    r_bind (put_u32 w (rejected_datagrams b)) (\<lambda>w.
    r_bind (put_u32 w (send_errors b)) (\<lambda>w.
    put_u32 w (skipped_publications b)))))"

definition put_body :: "(f32 \<Rightarrow> bytes) \<Rightarrow> bench_envelope \<Rightarrow> csv_output \<Rightarrow> codec_error + csv_output" where
  "put_body ryu m w =
    (case b_kind m of
       None \<Rightarrow> Inl Validation
     | Some k \<Rightarrow>
         if k = 1 then r_bind (ok_or (capabilities m) Validation) (\<lambda>_. Inr w)
         else if k = 2 then r_bind (ok_or (configure m) Validation) (put_configuration w)
         else if k = 3 then r_bind (ok_or (renew m) Validation) (\<lambda>_. Inr w)
         else if k = 4 then r_bind (ok_or (stop m) Validation) (\<lambda>_. Inr w)
         else if k = 5 then r_bind (ok_or (probe m) Validation) (\<lambda>_. Inr w)
         else if k = 11 then r_bind (ok_or (limits_body m) Validation) (put_limits w)
         else if k = 12 then r_bind (ok_or (result_body m) Validation) (put_result w)
         else if k = 15 then r_bind (ok_or (probe_response m) Validation) (\<lambda>_. Inr w)
         else if k = 21 then r_bind (ok_or (b_status m) Validation) (put_status ryu w)
         else if k = 22 then r_bind (ok_or (b_health m) Validation) (put_health w)
         else Inl Validation)"

definition bench_csv_write :: "(f32 \<Rightarrow> bytes) \<Rightarrow> bench_envelope \<Rightarrow> nat \<Rightarrow> codec_error + bytes" where
  "bench_csv_write ryu m room =
    r_bind (put_header (output_new room) m) (\<lambda>w. r_bind (put_body ryu m w) finish_out)"

section \<open>Reading\<close>

definition read_configuration :: "bytes list \<Rightarrow> codec_error + configuration" where
  "read_configuration cells =
    r_bind (cell read_u32 (cells ! 10)) (\<lambda>a.
    r_bind (cell read_u32 (cells ! 11)) (\<lambda>b.
    r_bind (cell read_u32 (cells ! 12)) (\<lambda>c.
    r_bind (cell read_u32 (cells ! 13)) (\<lambda>d.
    r_bind (cell read_u32 (cells ! 14)) (\<lambda>e.
    Inr \<lparr>payload_bytes = a, pattern_seed = b, status_period_us = c, health_period_us = d, lease_ms = e\<rparr>)))))"

definition read_limits :: "bytes list \<Rightarrow> codec_error + limits" where
  "read_limits cells =
    r_bind (cell read_i32 (cells ! 10)) (\<lambda>enc.
    r_bind (cell read_bool (cells ! 11)) (\<lambda>crc.
    r_bind (cell read_u32 (cells ! 12)) (\<lambda>a.
    r_bind (cell read_u32 (cells ! 13)) (\<lambda>b.
    r_bind (cell read_u32 (cells ! 14)) (\<lambda>c.
    r_bind (cell read_u32 (cells ! 15)) (\<lambda>d.
    r_bind (cell read_u32 (cells ! 16)) (\<lambda>e.
    r_bind (cell read_u32 (cells ! 17)) (\<lambda>f.
    r_bind (cell read_u32 (cells ! 18)) (\<lambda>g.
    r_bind (cell read_bool (cells ! 19)) (\<lambda>av.
    Inr \<lparr>limit_encoding = enc, crc_enabled = crc, max_payload_bytes = a, max_datagram_bytes = b,
      min_status_period_us = c, min_health_period_us = d, max_period_us = e, min_lease_ms = f,
      max_lease_ms = g, available = av\<rparr>))))))))))"

definition read_result :: "bytes list \<Rightarrow> codec_error + control_result" where
  "read_result cells =
    r_bind (cell read_i32 (cells ! 10)) (\<lambda>c.
    r_bind (cell read_u32 (cells ! 11)) (\<lambda>r.
    Inr \<lparr>result_code = c, lease_remaining_ms = r\<rparr>))"

definition read_b_status :: "bytes list \<Rightarrow> codec_error + status" where
  "read_b_status cells =
    r_bind (cell read_f32 (cells ! 10)) (\<lambda>t.
    r_bind (cell read_i32 (cells ! 11)) (\<lambda>v.
    r_bind (cell read_bool (cells ! 12)) (\<lambda>s.
    Inr \<lparr>temperature_celsius = t, validity = v, synthetic = s\<rparr>)))"

definition read_b_health :: "bytes list \<Rightarrow> codec_error + health" where
  "read_b_health cells =
    r_bind (cell read_i32 (cells ! 10)) (\<lambda>st.
    r_bind (cell read_u32 (cells ! 11)) (\<lambda>a.
    r_bind (cell read_u32 (cells ! 12)) (\<lambda>b.
    r_bind (cell read_u32 (cells ! 13)) (\<lambda>c.
    r_bind (cell read_u32 (cells ! 14)) (\<lambda>d.
    Inr \<lparr>health_state = st, received_requests = a, rejected_datagrams = b, send_errors = c,
      skipped_publications = d\<rparr>)))))"

definition exact :: "bytes list \<Rightarrow> nat \<Rightarrow> codec_error + 'a \<Rightarrow> codec_error + 'a" where
  "exact cells n r = (if length cells \<noteq> n then Inl Decode else r)"

definition read_bench_body :: "bytes list \<Rightarrow> bench_envelope \<Rightarrow> codec_error + bench_envelope" where
  "read_bench_body cells out =
    (case b_kind out of
       None \<Rightarrow> Inl Validation
     | Some k \<Rightarrow>
         if k = 1 then exact cells 10 (Inr (out\<lparr>capabilities := Some Empty\<rparr>))
         else if k = 2 then exact cells 15
           (r_bind (read_configuration cells) (\<lambda>b. Inr (out\<lparr>configure := Some b\<rparr>)))
         else if k = 3 then exact cells 10 (Inr (out\<lparr>renew := Some Empty\<rparr>))
         else if k = 4 then exact cells 10 (Inr (out\<lparr>stop := Some Empty\<rparr>))
         else if k = 5 then exact cells 10 (Inr (out\<lparr>probe := Some Empty\<rparr>))
         else if k = 11 then exact cells 20
           (r_bind (read_limits cells) (\<lambda>b. Inr (out\<lparr>limits_body := Some b\<rparr>)))
         else if k = 12 then exact cells 12
           (r_bind (read_result cells) (\<lambda>b. Inr (out\<lparr>result_body := Some b\<rparr>)))
         else if k = 15 then exact cells 10 (Inr (out\<lparr>probe_response := Some Empty\<rparr>))
         else if k = 21 then exact cells 13
           (r_bind (read_b_status cells) (\<lambda>b. Inr (out\<lparr>b_status := Some b\<rparr>)))
         else if k = 22 then exact cells 15
           (r_bind (read_b_health cells) (\<lambda>b. Inr (out\<lparr>b_health := Some b\<rparr>)))
         else Inl Validation)"

definition empty_payload :: "bench_envelope \<Rightarrow> bench_envelope" where
  "empty_payload out =
    (if is_some_and (\<lambda>k. k = 5 \<or> k = 15 \<or> k = 21 \<or> k = 22) (b_kind out) \<and> is_none (payload out)
     then out\<lparr>payload := Some []\<rparr> else out)"

definition bench_csv_read :: "bytes list \<Rightarrow> codec_error + bench_envelope" where
  "bench_csv_read cells =
    (if length cells < 10 then Inl Decode
     else
       r_bind (cell read_u32 (cells ! 0)) (\<lambda>pv.
       r_bind (cell read_i32 (cells ! 1)) (\<lambda>kd.
       r_bind (cell (read_str 32) (cells ! 2)) (\<lambda>dev.
       r_bind (cell (read_str 16) (cells ! 3)) (\<lambda>boot.
       r_bind (cell (read_str 16) (cells ! 4)) (\<lambda>sess.
       r_bind (cell read_u32 (cells ! 5)) (\<lambda>rid.
       r_bind (cell read_u32 (cells ! 6)) (\<lambda>sq.
       r_bind (cell read_u32 (cells ! 7)) (\<lambda>up.
       r_bind (cell (read_str 512) (cells ! 8)) (\<lambda>pl.
       r_bind (cell read_u32 (cells ! 9)) (\<lambda>ep.
         read_bench_body cells (empty_payload (bench_default\<lparr>b_protocol_version := pv, b_kind := kd,
           b_device_id := dev, b_boot_id := boot, session_id := sess, b_request_id := rid,
           b_sequence := sq, b_uptime_ms := up, payload := pl, run_epoch := ep\<rparr>)))))))))))))"

section \<open>What is written reads back\<close>

text \<open>Partial correctness of the writer: if the computation succeeds, its value satisfies \<open>q\<close>.\<close>

definition yields :: "('a \<Rightarrow> bool) \<Rightarrow> 'e + 'a \<Rightarrow> bool" where
  "yields q r \<longleftrightarrow> (\<forall>a. r = Inr a \<longrightarrow> q a)"

lemma yields_Inr [simp]: "yields q (Inr a) = q a"
  by (simp add: yields_def)

lemma yields_Inl [simp]: "yields q (Inl e)"
  by (simp add: yields_def)

lemma yields_bind: "yields p r \<Longrightarrow> (\<And>a. p a \<Longrightarrow> yields q (f a)) \<Longrightarrow> yields q (r_bind r f)"
  by (cases r) (auto simp: yields_def)

lemma yields_mono: "yields p r \<Longrightarrow> (\<And>a. p a \<Longrightarrow> q a) \<Longrightarrow> yields q r"
  by (auto simp: yields_def)

definition plain_text :: "bytes \<Rightarrow> bool" where
  "plain_text t \<longleftrightarrow> (\<forall>b \<in> set t. is_printable b \<and> b \<noteq> 34 \<and> b \<noteq> 44)"

definition row_written :: "csv_output \<Rightarrow> bytes list \<Rightarrow> bool" where
  "row_written w cells \<longleftrightarrow> out_text w = csv_join cells \<and> out_count w = length cells \<and>
    list_all plain_text cells"

lemma row_written_new: "row_written (output_new room) []"
  by (simp add: row_written_def output_new_def)

lemma csv_join_snoc: "cs \<noteq> [] \<Longrightarrow> csv_join (cs @ [t]) = csv_join cs @ 44 # t"
  by (induction cs rule: csv_join.induct) simp_all

lemma plain_text_line: "plain_text t \<Longrightarrow> line_text t"
  by (simp add: plain_text_def line_text_printable)

lemma plain_text_render: "plain_text t \<Longrightarrow> csv_render t = t"
proof -
  have "is_csv_plain b" if "is_printable b" "b \<noteq> 34" "b \<noteq> 44" for b
    using that by (auto simp: ascii_defs)
  then show "plain_text t \<Longrightarrow> csv_render t = t"
    by (auto simp: plain_text_def csv_render_def list_all_iff)
qed

lemma append_out_Inr:
  "append_out w bs = Inr w' \<Longrightarrow> w' = w\<lparr>out_text := out_text w @ bs\<rparr>"
  by (simp add: append_out_def split: if_splits)

text \<open>
  The contract of a field: what a good value is written as is plain and reads back.
\<close>

locale field_type =
  fixes rd :: "bytes \<Rightarrow> codec_error + 'a"
    and wt :: "'a \<Rightarrow> codec_error + bytes"
    and good :: "'a \<Rightarrow> bool"
  assumes field_reads: "good v \<Longrightarrow> wt v = Inr t \<Longrightarrow> t \<noteq> [] \<and> plain_text t \<and> rd t = Inr v"
begin

lemma put_last:
  assumes "\<And>v. x = Some v \<Longrightarrow> good v" and "row_written w cs"
    and "\<And>w' t. cell rd t = Inr x \<Longrightarrow> row_written w' (cs @ [t]) \<Longrightarrow> q w'"
  shows "yields q (put_field wt w x)"
proof -
  have "\<exists>t. cell rd t = Inr x \<and> row_written w' (cs @ [t])" if run: "put_field wt w x = Inr w'" for w'
  proof -
    obtain w1 where w1: "(if 0 < out_count w then append_out w [44] else Inr w) = Inr w1"
      "(case x of None \<Rightarrow> Inr (w1\<lparr>out_count := out_count w1 + 1\<rparr>)
        | Some v \<Rightarrow> r_bind (wt v) (append_out (w1\<lparr>out_count := out_count w1 + 1\<rparr>))) = Inr w'"
      using run unfolding put_field_def r_bind_Inr_iff Let_def by blast
    have count: "out_count w1 = length cs"
      using assms(2) w1(1) append_out_Inr [of w "[44]" w1] by (auto simp: row_written_def split: if_splits)
    have text1: "out_text w1 @ t = csv_join (cs @ [t])" for t
      using assms(2) w1(1) append_out_Inr [of w "[44]" w1]
      by (cases "cs = []") (auto simp: row_written_def csv_join_snoc split: if_splits)
    show ?thesis
    proof (cases x)
      case None
      then show ?thesis
        using w1(2) count text1 [of "[]"] assms(2)
        by (intro exI [of _ "[]"]) (auto simp: cell_def row_written_def plain_text_def)
    next
      case (Some v)
      then obtain t where t: "wt v = Inr t" "append_out (w1\<lparr>out_count := out_count w1 + 1\<rparr>) t = Inr w'"
        using w1(2) by (auto simp: r_bind_Inr_iff)
      then show ?thesis
        using field_reads [OF assms(1) [OF Some] t(1)] append_out_Inr [OF t(2)] count text1 [of t] assms(2) Some
        by (intro exI [of _ t]) (auto simp: cell_def row_written_def)
    qed
  qed
  then show ?thesis using assms(3) by (auto simp: yields_def)
qed

lemma put_next:
  assumes "\<And>v. x = Some v \<Longrightarrow> good v" and "row_written w cs"
    and "\<And>w' t. cell rd t = Inr x \<Longrightarrow> row_written w' (cs @ [t]) \<Longrightarrow> yields q (f w')"
  shows "yields q (r_bind (put_field wt w x) f)"
  by (rule yields_bind [OF put_last]) (use assms in auto)

end

lemma scalar_field_Inr: "scalar_field wr v = Inr t \<longleftrightarrow> wr v [] = Inr t \<and> length t \<le> MAX_BODY"
  by (auto simp: scalar_field_def body_str_def r_bind_Inr_iff)

lemma digit_plain: "is_digit b \<or> b = 45 \<Longrightarrow> is_printable b \<and> b \<noteq> 34 \<and> b \<noteq> 44"
  by (auto simp: ascii_defs word_le_unat)

interpretation u32_field: field_type read_u32 "scalar_field write_u32" "\<lambda>_. True"
  using show_u32_plain digit_plain
  by unfold_locales (auto simp: scalar_field_Inr write_u32_def read_u32_iff plain_text_def)

interpretation i32_field: field_type read_i32 "scalar_field write_i32" "\<lambda>_. True"
  using show_i32_plain digit_plain
  by unfold_locales (auto simp: scalar_field_Inr write_i32_def read_i32_iff plain_text_def)

interpretation bool_field: field_type read_bool "scalar_field write_bool" "\<lambda>_. True"
  by unfold_locales
    (auto simp: scalar_field_Inr write_bool_def read_bool_iff plain_text_def is_printable_def)

interpretation str_field: field_type "read_str n" body_str "\<lambda>v. v \<noteq> [] \<and> length v \<le> n \<and> plain_text v" for n
  by unfold_locales (auto simp: body_str_def read_str_def split: if_splits)

interpretation f32_field: field_type read_f32 "scalar_field (write_f32 ryu)"
  "\<lambda>v. ryu_reads_back ryu v \<and> plain_text (ryu v)" for ryu
  by unfold_locales
    (auto simp: scalar_field_Inr write_f32_def ryu_reads_back_def read_f32_def ok_or_Inr_iff)

lemmas put_rules = u32_field.put_next u32_field.put_last i32_field.put_next i32_field.put_last
  bool_field.put_next bool_field.put_last f32_field.put_next f32_field.put_last

definition nonempty :: "bytes option \<Rightarrow> bytes option" where
  "nonempty v = (if v = Some [] then None else v)"

lemma put_str_nonempty: "put_str w v = put_str w (nonempty v)"
  by (simp add: nonempty_def put_field_def body_str_def append_out_def Let_def)

lemma alphanumeric_plain: "list_all is_alphanumeric t \<Longrightarrow> plain_text t"
proof -
  have "is_alphanumeric b \<Longrightarrow> is_printable b \<and> b \<noteq> 34 \<and> b \<noteq> 44" for b
    by (auto simp: ascii_defs word_le_unat)
  then show "list_all is_alphanumeric t \<Longrightarrow> plain_text t" by (auto simp: plain_text_def list_all_iff)
qed

lemma put_payload:
  assumes "\<And>v. x = Some v \<Longrightarrow> length v \<le> 512 \<and> list_all is_alphanumeric v" and "row_written w cs"
    and "\<And>w' t. cell (read_str 512) t = Inr (nonempty x) \<Longrightarrow> row_written w' (cs @ [t]) \<Longrightarrow> yields q (f w')"
  shows "yields q (r_bind (put_str w x) f)"
  unfolding put_str_nonempty [of w x]
  by (rule str_field.put_next [where n = 512 and cs = cs])
    (use assms alphanumeric_plain in \<open>auto simp: nonempty_def split: if_splits\<close>)

definition bench_header_reads :: "bench_envelope \<Rightarrow> bytes list \<Rightarrow> bool" where
  "bench_header_reads m cs \<longleftrightarrow> cell read_u32 (cs ! 0) = Inr (b_protocol_version m) \<and>
    cell read_i32 (cs ! 1) = Inr (b_kind m) \<and> cell (read_str 32) (cs ! 2) = Inr (b_device_id m) \<and>
    cell (read_str 16) (cs ! 3) = Inr (b_boot_id m) \<and> cell (read_str 16) (cs ! 4) = Inr (session_id m) \<and>
    cell read_u32 (cs ! 5) = Inr (b_request_id m) \<and> cell read_u32 (cs ! 6) = Inr (b_sequence m) \<and>
    cell read_u32 (cs ! 7) = Inr (b_uptime_ms m) \<and>
    cell (read_str 512) (cs ! 8) = Inr (nonempty (payload m)) \<and> cell read_u32 (cs ! 9) = Inr (run_epoch m)"

definition row_grown :: "bytes list \<Rightarrow> nat \<Rightarrow> (bytes list \<Rightarrow> bool) \<Rightarrow> csv_output \<Rightarrow> bool" where
  "row_grown cs n p w \<longleftrightarrow> (\<exists>cs'. row_written w cs' \<and> take 10 cs' = cs \<and> length cs' = n \<and> p cs')"

lemma row_grownI:
  "row_written w cs' \<Longrightarrow> take 10 cs' = cs \<Longrightarrow> length cs' = n \<Longrightarrow> p cs' \<Longrightarrow> row_grown cs n p w"
  by (auto simp: row_grown_def)

lemma put_header_row:
  assumes "\<And>v. b_device_id m = Some v \<Longrightarrow> v \<noteq> [] \<and> length v \<le> 32 \<and> plain_text v"
    and "\<And>v. b_boot_id m = Some v \<Longrightarrow> v \<noteq> [] \<and> length v \<le> 16 \<and> plain_text v"
    and "\<And>v. session_id m = Some v \<Longrightarrow> v \<noteq> [] \<and> length v \<le> 16 \<and> plain_text v"
    and "\<And>v. payload m = Some v \<Longrightarrow> length v \<le> 512 \<and> list_all is_alphanumeric v"
  shows "yields (\<lambda>w. \<exists>cs. row_written w cs \<and> length cs = 10 \<and> bench_header_reads m cs)
    (put_header (output_new room) m)"
  unfolding put_header_def
  by (intro put_rules put_payload [where x = "payload m"] str_field.put_next [where n = 32 and x = "b_device_id m"]
      str_field.put_next [where n = 16 and x = "b_boot_id m"]
      str_field.put_next [where n = 16 and x = "session_id m"] exI conjI TrueI;
      (rule row_written_new | assumption)?)
    (simp_all add: assms bench_header_reads_def)

lemma put_configuration_row:
  assumes "row_written w cs" and "length cs = 10"
  shows "yields (row_grown cs 15 (\<lambda>r. read_configuration r = Inr b)) (put_configuration w b)"
  unfolding put_configuration_def
  by (intro put_rules row_grownI TrueI; (rule assms(1) | assumption)?)
    (simp_all add: assms(2) read_configuration_def nth_append)

lemma put_limits_row:
  assumes "row_written w cs" and "length cs = 10"
  shows "yields (row_grown cs 20 (\<lambda>r. read_limits r = Inr b)) (put_limits w b)"
  unfolding put_limits_def
  by (intro put_rules row_grownI TrueI; (rule assms(1) | assumption)?)
    (simp_all add: assms(2) read_limits_def nth_append)

lemma put_result_row:
  assumes "row_written w cs" and "length cs = 10"
  shows "yields (row_grown cs 12 (\<lambda>r. read_result r = Inr b)) (put_result w b)"
  unfolding put_result_def
  by (intro put_rules row_grownI TrueI; (rule assms(1) | assumption)?)
    (simp_all add: assms(2) read_result_def nth_append)

lemma put_status_row:
  assumes "row_written w cs" and "length cs = 10"
    and "\<And>v. temperature_celsius b = Some v \<Longrightarrow> ryu_reads_back ryu v \<and> plain_text (ryu v)"
  shows "yields (row_grown cs 13 (\<lambda>r. read_b_status r = Inr b)) (put_status ryu w b)"
  unfolding put_status_def
  by (intro put_rules row_grownI TrueI; (rule assms(1) | assumption)?)
    (simp_all add: assms(2,3) read_b_status_def nth_append)

lemma put_health_row:
  assumes "row_written w cs" and "length cs = 10"
  shows "yields (row_grown cs 15 (\<lambda>r. read_b_health r = Inr b)) (put_health w b)"
  unfolding put_health_def
  by (intro put_rules row_grownI TrueI; (rule assms(1) | assumption)?)
    (simp_all add: assms(2) read_b_health_def nth_append)

lemma csv_read_row:
  assumes "bench_header_reads m cs" and "10 \<le> length cs"
  shows "bench_csv_read cs =
    read_bench_body cs (empty_payload ((bench_header m)\<lparr>payload := nonempty (payload m)\<rparr>))"
  using assms by (simp add: bench_csv_read_def bench_header_reads_def bench_header_def bench_default_def)

lemma bench_only_body:
  assumes "bench_count m = 1" and "bench_kind_body m k"
  shows "k = 1 \<Longrightarrow> m = (bench_header m)\<lparr>capabilities := Some Empty\<rparr>"
    and "k = 2 \<Longrightarrow> \<exists>b. configure m = Some b \<and> m = (bench_header m)\<lparr>configure := Some b\<rparr>"
    and "k = 3 \<Longrightarrow> m = (bench_header m)\<lparr>renew := Some Empty\<rparr>"
    and "k = 4 \<Longrightarrow> m = (bench_header m)\<lparr>stop := Some Empty\<rparr>"
    and "k = 5 \<Longrightarrow> m = (bench_header m)\<lparr>probe := Some Empty\<rparr>"
    and "k = 11 \<Longrightarrow> \<exists>b. limits_body m = Some b \<and> m = (bench_header m)\<lparr>limits_body := Some b\<rparr>"
    and "k = 12 \<Longrightarrow> \<exists>b. result_body m = Some b \<and> m = (bench_header m)\<lparr>result_body := Some b\<rparr>"
    and "k = 15 \<Longrightarrow> m = (bench_header m)\<lparr>probe_response := Some Empty\<rparr>"
    and "k = 21 \<Longrightarrow> \<exists>b. b_status m = Some b \<and> m = (bench_header m)\<lparr>b_status := Some b\<rparr>"
    and "k = 22 \<Longrightarrow> \<exists>b. b_health m = Some b \<and> m = (bench_header m)\<lparr>b_health := Some b\<rparr>"
proof -
  have "only_one (bench_flags m)"
    by (rule only_one_iff [THEN iffD1]) (use assms(1) in \<open>simp add: bench_count_def\<close>)
  then have one: "only_one
    [is_some (capabilities m), is_some (configure m), is_some (renew m), is_some (stop m),
     is_some (probe m), is_some (limits_body m), is_some (result_body m),
     is_some (probe_response m), is_some (b_status m), is_some (b_health m)]"
    by (simp add: bench_flags_def)
  have unit: "v = Some Empty" if "is_some v" for v using that empty.exhaust by (cases v) auto
  note rules = bench_kind_body_def bench_header_def bench_default_def
  show "k = 1 \<Longrightarrow> m = (bench_header m)\<lparr>capabilities := Some Empty\<rparr>"
    "k = 3 \<Longrightarrow> m = (bench_header m)\<lparr>renew := Some Empty\<rparr>"
    "k = 4 \<Longrightarrow> m = (bench_header m)\<lparr>stop := Some Empty\<rparr>"
    "k = 5 \<Longrightarrow> m = (bench_header m)\<lparr>probe := Some Empty\<rparr>"
    "k = 15 \<Longrightarrow> m = (bench_header m)\<lparr>probe_response := Some Empty\<rparr>"
    by (intro bench_envelope.equality; use one assms(2) unit in \<open>simp add: rules split: if_splits\<close>)+
  have body: "m = (bench_header m)\<lparr>configure := configure m\<rparr>" if "k = 2"
    using one assms(2) that by (intro bench_envelope.equality; simp add: rules split: if_splits)
  then show "k = 2 \<Longrightarrow> \<exists>b. configure m = Some b \<and> m = (bench_header m)\<lparr>configure := Some b\<rparr>"
    using assms(2) by (cases "configure m") (simp_all add: rules)
  have body: "m = (bench_header m)\<lparr>limits_body := limits_body m\<rparr>" if "k = 11"
    using one assms(2) that by (intro bench_envelope.equality; simp add: rules split: if_splits)
  then show "k = 11 \<Longrightarrow> \<exists>b. limits_body m = Some b \<and> m = (bench_header m)\<lparr>limits_body := Some b\<rparr>"
    using assms(2) by (cases "limits_body m") (simp_all add: rules)
  have body: "m = (bench_header m)\<lparr>result_body := result_body m\<rparr>" if "k = 12"
    using one assms(2) that by (intro bench_envelope.equality; simp add: rules split: if_splits)
  then show "k = 12 \<Longrightarrow> \<exists>b. result_body m = Some b \<and> m = (bench_header m)\<lparr>result_body := Some b\<rparr>"
    using assms(2) by (cases "result_body m") (simp_all add: rules)
  have body: "m = (bench_header m)\<lparr>b_status := b_status m\<rparr>" if "k = 21"
    using one assms(2) that by (intro bench_envelope.equality; simp add: rules split: if_splits)
  then show "k = 21 \<Longrightarrow> \<exists>b. b_status m = Some b \<and> m = (bench_header m)\<lparr>b_status := Some b\<rparr>"
    using assms(2) by (cases "b_status m") (simp_all add: rules)
  have body: "m = (bench_header m)\<lparr>b_health := b_health m\<rparr>" if "k = 22"
    using one assms(2) that by (intro bench_envelope.equality; simp add: rules split: if_splits)
  then show "k = 22 \<Longrightarrow> \<exists>b. b_health m = Some b \<and> m = (bench_header m)\<lparr>b_health := Some b\<rparr>"
    using assms(2) by (cases "b_health m") (simp_all add: rules)
qed

definition body_row :: "bytes list \<Rightarrow> bench_envelope \<Rightarrow> csv_output \<Rightarrow> bool" where
  "body_row cs m w \<longleftrightarrow> (\<exists>r. row_written w r \<and> take 10 r = cs \<and> 10 \<le> length r \<and> length r \<le> 20 \<and>
    read_bench_body r (bench_header m) = Inr m)"

lemma body_rowI:
  assumes "row_grown cs n (\<lambda>r. read r = Inr b) w" and "10 \<le> n" and "n \<le> 20"
    and "\<And>r. length r = n \<Longrightarrow> read r = Inr b \<Longrightarrow> read_bench_body r (bench_header m) = Inr m"
  shows "body_row cs m w"
  using assms by (auto simp: row_grown_def body_row_def)

lemma body_row_empty:
  assumes "row_written w cs" and "length cs = 10" and "read_bench_body cs (bench_header m) = Inr m"
  shows "body_row cs m w"
  using assms by (auto simp: body_row_def intro!: exI [of _ cs])

lemma put_body_row:
  assumes one: "bench_count m = 1" "bench_kind_body m k" and k: "b_kind m = Some k"
    and w: "row_written w cs" "length cs = 10"
    and temp: "\<And>s v. b_status m = Some s \<Longrightarrow> temperature_celsius s = Some v \<Longrightarrow>
      ryu_reads_back ryu v \<and> plain_text (ryu v)"
  shows "yields (body_row cs m) (put_body ryu m w)"
proof -
  note only = bench_only_body [OF one]
  have hk: "b_kind (bench_header m) = Some k" by (simp add: bench_header_def k)
  consider "k \<in> {1, 3, 4, 5, 15}" | "k = 2" | "k = 11" | "k = 12" | "k = 21" | "k = 22"
    using bench_kind_body_cases [OF one(2)] by auto
  then show ?thesis
  proof cases
    case 1
    then have "put_body ryu m w = Inr w"
      using one(2) by (auto simp: put_body_def bench_kind_body_def k)
    moreover have "read_bench_body cs (bench_header m) = Inr m"
      using 1 only(1,3,4,5,8) w(2) by (auto simp: read_bench_body_def hk exact_def)
    ultimately show ?thesis using body_row_empty [OF w] by simp
  next
    case 2
    obtain b where b: "configure m = Some b" "(bench_header m)\<lparr>configure := Some b\<rparr> = m"
      using only(2) [OF 2] by metis
    show ?thesis
      using yields_mono [OF put_configuration_row [OF w, of b], where q = "body_row cs m"] body_rowI [of cs 15 read_configuration b _ m] b 2
      by (simp add: put_body_def read_bench_body_def hk k exact_def)
  next
    case 3
    obtain b where b: "limits_body m = Some b" "(bench_header m)\<lparr>limits_body := Some b\<rparr> = m"
      using only(6) [OF 3] by metis
    show ?thesis
      using yields_mono [OF put_limits_row [OF w, of b], where q = "body_row cs m"] body_rowI [of cs 20 read_limits b _ m] b 3
      by (simp add: put_body_def read_bench_body_def hk k exact_def)
  next
    case 4
    obtain b where b: "result_body m = Some b" "(bench_header m)\<lparr>result_body := Some b\<rparr> = m"
      using only(7) [OF 4] by metis
    show ?thesis
      using yields_mono [OF put_result_row [OF w, of b], where q = "body_row cs m"] body_rowI [of cs 12 read_result b _ m] b 4
      by (simp add: put_body_def read_bench_body_def hk k exact_def)
  next
    case 5
    obtain b where b: "b_status m = Some b" "(bench_header m)\<lparr>b_status := Some b\<rparr> = m"
      using only(9) [OF 5] by metis
    show ?thesis
      using yields_mono [OF put_status_row [OF w temp [OF b(1)]], where q = "body_row cs m"]
        body_rowI [of cs 13 read_b_status b _ m] b 5
      by (simp add: put_body_def read_bench_body_def hk k exact_def)
  next
    case 6
    obtain b where b: "b_health m = Some b" "(bench_header m)\<lparr>b_health := Some b\<rparr> = m"
      using only(10) [OF 6] by metis
    show ?thesis
      using yields_mono [OF put_health_row [OF w, of b], where q = "body_row cs m"] body_rowI [of cs 15 read_b_health b _ m] b 6
      by (simp add: put_body_def read_bench_body_def hk k exact_def)
  qed
qed

lemma valid_bench_strings:
  assumes "bench_validate m f crc = Inr ()" and "bench_typed m"
  shows "b_device_id m = Some v \<Longrightarrow> v \<noteq> [] \<and> length v \<le> 32 \<and> plain_text v"
    "b_boot_id m = Some v \<Longrightarrow> v \<noteq> [] \<and> length v \<le> 16 \<and> plain_text v"
    "session_id m = Some v \<Longrightarrow> v \<noteq> [] \<and> length v \<le> 16 \<and> plain_text v"
    "payload m = Some v \<Longrightarrow> length v \<le> 512 \<and> list_all is_alphanumeric v"
proof -
  have tok: "v \<noteq> [] \<and> length v \<le> 16 \<and> plain_text v" if "hex_token v" for v
  proof -
    have "list_all is_alphanumeric v"
      using that lower_hex_alphanumeric by (auto simp: hex_token_def list_all_iff)
    then show ?thesis using that alphanumeric_plain by (auto simp: hex_token_def)
  qed
  have name: "v \<noteq> [] \<and> plain_text v" if "device_name v" for v
  proof -
    have "is_printable b \<and> b \<noteq> 34 \<and> b \<noteq> 44" if "is_alphanumeric b \<or> b \<in> set (lit ''_.-'')" for b
      using that by (auto simp: ascii_defs word_le_unat)
    then show ?thesis using that by (auto simp: device_name_def plain_text_def list_all_iff)
  qed
  obtain k where k: "b_kind m = Some k" "b_boot_id m \<noteq> None \<longrightarrow> nonce (b_boot_id m)"
    "\<forall>p. payload m = Some p \<longrightarrow> list_all is_alphanumeric p"
    using assms(1) unfolding bench_validate_iff by (metis (no_types, lifting))
  have d: "is_some_and device_name (b_device_id m)" "nonce (session_id m)"
    using assms(1) unfolding bench_validate_iff by blast+
  show "b_device_id m = Some v \<Longrightarrow> v \<noteq> [] \<and> length v \<le> 32 \<and> plain_text v"
    using d(1) name assms(2) by (simp add: bench_typed_def)
  show "b_boot_id m = Some v \<Longrightarrow> v \<noteq> [] \<and> length v \<le> 16 \<and> plain_text v"
    using k(2) tok by simp
  show "session_id m = Some v \<Longrightarrow> v \<noteq> [] \<and> length v \<le> 16 \<and> plain_text v"
    using d(2) tok by simp
  show "payload m = Some v \<Longrightarrow> length v \<le> 512 \<and> list_all is_alphanumeric v"
    using k(3) assms(2) by (simp add: bench_typed_def)
qed

lemma bench_csv_line:
  assumes "bench_validate m f crc = Inr ()" and "bench_typed m"
    and temp: "\<And>s v. b_status m = Some s \<Longrightarrow> temperature_celsius s = Some v \<Longrightarrow>
      ryu_reads_back ryu v \<and> plain_text (ryu v)"
    and run: "bench_csv_write ryu m room = Inr bs"
  shows "\<exists>cs. bs = csv_line cs \<and> 10 \<le> length cs \<and> length cs \<le> 20 \<and> list_all plain_text cs \<and>
    bench_csv_read cs = Inr m"
proof -
  obtain k where k: "b_kind m = Some k" "bench_kind_body m k" "bench_count m = 1"
    "is_some (payload m) = (k = 5 \<or> k = 15 \<or> k = 21 \<or> k = 22)"
    using assms(1) bench_validated(2,3,6) [OF assms(1)] by (auto simp: bench_validate_iff)
  obtain w1 w2 where w: "put_header (output_new room) m = Inr w1" "put_body ryu m w1 = Inr w2"
    "finish_out w2 = Inr bs"
    using run by (auto simp: bench_csv_write_def r_bind_Inr_iff)
  have "yields (\<lambda>w. \<exists>cs. row_written w cs \<and> length cs = 10 \<and> bench_header_reads m cs)
      (put_header (output_new room) m)"
    by (rule put_header_row) (use valid_bench_strings [OF assms(1,2)] in blast)+
  then obtain cs where cs: "row_written w1 cs" "length cs = 10" "bench_header_reads m cs"
    using w(1) by (auto simp: yields_def)
  have "yields (body_row cs m) (put_body ryu m w1)"
    by (rule put_body_row [OF k(3,2,1) cs(1,2) temp])
  then obtain r where r: "row_written w2 r" "take 10 r = cs" "10 \<le> length r" "length r \<le> 20"
    "read_bench_body r (bench_header m) = Inr m"
    using w(2) by (auto simp: yields_def body_row_def)
  have "bench_header_reads m r"
    using cs(3) unfolding r(2) [symmetric] by (simp add: bench_header_reads_def)
  moreover have "empty_payload ((bench_header m)\<lparr>payload := nonempty (payload m)\<rparr>) = bench_header m"
    using k(1,4) by (auto simp: empty_payload_def bench_header_def nonempty_def bench_default_def)
  ultimately have "bench_csv_read r = Inr m" using csv_read_row r(3,5) by simp
  moreover have "map csv_render r = r"
    using r(1) plain_text_render by (auto simp: row_written_def list_all_iff map_idI)
  then have "bs = csv_line r"
    using w(3) r(1) by (auto simp: finish_out_def r_bind_Inr_iff row_written_def csv_line_def dest: append_out_Inr)
  ultimately show ?thesis using r by (auto simp: row_written_def)
qed

end
