(* ===== verification/Bench_Codec.thy ===== *)
theory Bench_Codec
  imports Bench_Cells Codec
begin

text \<open>
  \<^verbatim>\<open>decode\<close> and \<^verbatim>\<open>encode\<close> of \<^verbatim>\<open>Rust/messaging/src/benchmark.rs\<close>: the codec of
  benchmark datagrams for the three formats, over the same framing and third-party crates
  as the ordinary messages.  Unlike them it normalises a negative zero only when decoding.
\<close>

type_synonym 'w bench_lib = "('w, bench_envelope, pb_bench_envelope) codec_lib"

definition bench_normalize :: "bench_envelope \<Rightarrow> bench_envelope" where
  "bench_normalize m =
    (case b_status m of
      None \<Rightarrow> m
    | Some s \<Rightarrow>
        if is_some_and (\<lambda>t. f32_eq t f32_zero) (temperature_celsius s)
        then m\<lparr>b_status := Some (s\<lparr>temperature_celsius := Some f32_zero\<rparr>)\<rparr>
        else m)"

definition bench_parse :: "'w bench_lib \<Rightarrow> wire_format \<Rightarrow> bytes \<Rightarrow> codec_error + bench_envelope" where
  "bench_parse lib format bs =
    (case format of
       Json \<Rightarrow> json_parse lib bs
     | Csv \<Rightarrow> r_bind (read_fields (csv_of lib) Inr 20 bs) bench_csv_read
     | Protobuf \<Rightarrow> r_bind (ok_or (pb_decode lib bs) Decode) (\<lambda>p. Inr (bench_from_pb p)))"

definition bench_decode_body ::
  "'w bench_lib \<Rightarrow> wire_format \<Rightarrow> crc_mode \<Rightarrow> bytes \<Rightarrow> codec_error + bench_envelope" where
  "bench_decode_body lib format crc bs =
    (if bs = [] then Inl Decode
     else
       r_bind (bench_parse lib format bs) (\<lambda>m.
       r_bind (bench_validate m format crc) (\<lambda>_. Inr (bench_normalize m))))"

definition bench_decode ::
  "'w bench_lib \<Rightarrow> (bytes \<Rightarrow> u32) \<Rightarrow> wire_format \<Rightarrow> crc_mode \<Rightarrow> bytes \<Rightarrow> codec_error + bench_envelope" where
  "bench_decode lib ck format crc bs = receive_frame (bench_decode_body lib format crc) ck crc bs"

definition bench_encode_body ::
  "'w bench_lib \<Rightarrow> wire_format \<Rightarrow> crc_mode \<Rightarrow> bench_envelope \<Rightarrow> nat \<Rightarrow> codec_error + bytes" where
  "bench_encode_body lib format crc m room =
    r_bind (bench_validate m format crc) (\<lambda>_.
      let capacity = min room MAX_BODY
      in case format of
           Json \<Rightarrow> ok_or (json_to lib m capacity) Size
         | Csv \<Rightarrow> bench_csv_write (ryu_format (csv_of lib)) m capacity
         | Protobuf \<Rightarrow> pb_bytes lib (bench_to_pb m) capacity)"

definition bench_encode ::
  "'w bench_lib \<Rightarrow> (bytes \<Rightarrow> u32) \<Rightarrow> wire_format \<Rightarrow> crc_mode \<Rightarrow> bench_envelope \<Rightarrow> bytes \<Rightarrow>
    codec_error + bytes \<times> nat" where
  "bench_encode lib ck format crc m out = send_frame (bench_encode_body lib format crc m) ck crc out"

section \<open>Normalisation\<close>

lemma bench_normalize_cases:
  "bench_normalize m = m \<or> (\<exists>s t. b_status m = Some s \<and> temperature_celsius s = Some t \<and>
    (t = 0 \<or> t = 0x80000000) \<and>
    bench_normalize m = m\<lparr>b_status := Some (s\<lparr>temperature_celsius := Some 0\<rparr>)\<rparr>)"
  by (auto simp: bench_normalize_def is_some_and_iff f32_eq_zero split: option.splits)

lemma bench_normalize_publication: "as_publication (bench_normalize m) k = normalize (as_publication m k)"
  by (auto simp: bench_normalize_def normalize_def as_publication_def envelope_default_def
      split: option.split)

lemma bench_validate_normalize:
  assumes "bench_validate m f crc = Inr ()"
  shows "bench_validate (bench_normalize m) f crc = Inr ()"
proof (cases "bench_normalize m = m")
  case False
  then obtain s t where s: "b_status m = Some s" "temperature_celsius s = Some t"
    and n: "bench_normalize m = m\<lparr>b_status := Some (s\<lparr>temperature_celsius := Some 0\<rparr>)\<rparr>"
    using bench_normalize_cases [of m] by blast
  let ?n = "bench_normalize m"
  have same: "bench_count ?n = bench_count m" "bench_kind_body ?n k = bench_kind_body m k" for k
    by (simp_all add: n s bench_count_def bench_flags_def bench_kind_body_def)
  have pub: "validate (as_publication ?n k) f = validate (as_publication m k) f" for k
    by (simp add: bench_normalize_publication validate_normalize)
  have fields: "b_protocol_version ?n = b_protocol_version m" "b_device_id ?n = b_device_id m"
    "session_id ?n = session_id m" "b_kind ?n = b_kind m" "b_uptime_ms ?n = b_uptime_ms m"
    "b_sequence ?n = b_sequence m" "b_request_id ?n = b_request_id m" "b_boot_id ?n = b_boot_id m"
    "run_epoch ?n = run_epoch m" "payload ?n = payload m" "configure ?n = configure m"
    "limits_body ?n = limits_body m" "result_body ?n = result_body m" "b_health ?n = b_health m"
    "is_some (b_status ?n) = is_some (b_status m)"
    by (simp_all add: n s)
  show ?thesis
    using assms unfolding bench_validate_iff same pub fields .
qed (use assms in simp)

section \<open>Round trip\<close>

text \<open>The rows that the writer joins have ten cells or more, none of which needs quotes: of the
  CSV crate only the reading of such rows is asked.  (A row of one empty cell is a blank line,
  which the crate skips.)  \<open>comma_reader\<close> below reads all of them.\<close>

definition bench_csv_faithful :: "'w csv_lib \<Rightarrow> bench_envelope \<Rightarrow> bool" where
  "bench_csv_faithful lib m \<longleftrightarrow> bench_typed m \<and>
    (\<forall>s v. b_status m = Some s \<longrightarrow> temperature_celsius s = Some v \<longrightarrow>
      ryu_reads_back (ryu_format lib) v \<and> plain_text (ryu_format lib v)) \<and>
    (\<forall>cells. 10 \<le> length cells \<and> length cells \<le> 20 \<and> list_all plain_text cells \<and>
      length (csv_line cells) \<le> MAX_BODY \<longrightarrow> csv_parses lib 20 cells)"

definition bench_faithful :: "'w bench_lib \<Rightarrow> wire_format \<Rightarrow> bench_envelope \<Rightarrow> bool" where
  "bench_faithful lib format m =
    (case format of
      Csv \<Rightarrow> bench_csv_faithful (csv_of lib) m
    | Json \<Rightarrow> json_faithful lib m
    | Protobuf \<Rightarrow> pb_faithful lib (bench_to_pb m))"

lemma bench_csv_read_back:
  assumes "bench_validate m f crc = Inr ()" and "bench_csv_faithful lib m"
    and "bench_csv_write (ryu_format lib) m room = Inr bs" and "length bs \<le> MAX_BODY"
  shows "bs \<noteq> [] \<and> r_bind (read_fields lib Inr 20 bs) bench_csv_read = Inr m"
proof -
  have typed: "bench_typed m" and temp: "\<And>s v. b_status m = Some s \<Longrightarrow> temperature_celsius s = Some v \<Longrightarrow>
      ryu_reads_back (ryu_format lib) v \<and> plain_text (ryu_format lib v)"
    using assms(2) by (simp_all add: bench_csv_faithful_def)
  obtain cs where cs: "bs = csv_line cs" "10 \<le> length cs" "length cs \<le> 20" "list_all plain_text cs"
    "bench_csv_read cs = Inr m"
    using bench_csv_line [OF assms(1) typed _ assms(3)] temp by blast
  have "read_fields lib Inr 20 bs = Inr cs"
    unfolding cs(1)
  proof (rule read_fields_line)
    show "csv_parses lib 20 cs" using assms(2,4) cs(1-4) by (simp add: bench_csv_faithful_def)
    show "\<forall>c \<in> set cs. no_break c \<and> utf8_valid c \<and> Inr c = Inr c"
      using cs(4) plain_text_line by (auto simp: list_all_iff line_text_def)
  qed (use cs(2,3) in auto)
  then show ?thesis using cs(1,5) by (simp add: csv_line_def CRLF_def)
qed

lemma bench_decode_encode:
  assumes "bench_faithful lib f m" and "bench_encode_body lib f crc m room = Inr bs"
    and "length bs \<le> MAX_BODY"
  shows "bench_decode_body lib f crc bs = Inr (bench_normalize m)"
proof -
  have valid: "bench_validate m f crc = Inr ()"
    using assms(2) by (auto simp: bench_encode_body_def r_bind_Inr_iff)
  have "bs \<noteq> [] \<and> bench_parse lib f bs = Inr m"
  proof (cases f)
    case Csv
    then show ?thesis
      using assms bench_csv_read_back [OF valid]
      by (auto simp: bench_encode_body_def r_bind_unit_iff bench_parse_def bench_faithful_def Let_def)
  next
    case Json
    then show ?thesis
      using assms json_round_trip [of lib m]
      by (auto simp: bench_encode_body_def r_bind_Inr_iff ok_or_Inr_iff bench_parse_def bench_faithful_def Let_def)
  next
    case Protobuf
    have "bench_from_pb (bench_to_pb m) = m"
      using bench_pb_identity_one valid by (simp add: bench_validate_iff)
    then show ?thesis
      using assms Protobuf
      by (auto simp: bench_encode_body_def r_bind_Inr_iff ok_or_Inr_iff bench_parse_def bench_faithful_def
          pb_bytes_def pb_faithful_def Let_def split: if_splits)
  qed
  then show ?thesis using valid by (simp add: bench_decode_body_def)
qed

lemma exact_no_crc: "r \<noteq> Inl Crc \<Longrightarrow> exact cells n r \<noteq> Inl Crc"
  by (simp add: exact_def)

lemma bench_csv_no_crc: "bench_csv_read cells \<noteq> Inl Crc"
proof -
  have "read_bench_body cells out \<noteq> Inl Crc" for out
    unfolding read_bench_body_def
    by (auto simp: exact_def r_bind_Inl_iff read_configuration_def read_limits_def read_result_def
        read_b_status_def read_b_health_def split: option.splits)
  then show ?thesis by (auto simp: bench_csv_read_def r_bind_Inl_iff)
qed

lemma bench_validate_no_crc: "bench_validate m f crc \<noteq> Inl Crc"
proof
  assume "bench_validate m f crc = Inl Crc"
  moreover have "validate e f \<noteq> Inl Crc" for e using validate_errors by blast
  ultimately show False
    by (auto simp: bench_validate_def r_bind_Inl_iff ok_or_def check_opt_def validate_configure_def
        validate_limits_def validate_result_def Let_def split: if_splits option.splits)
qed

lemma bench_decode_no_crc: "bench_decode_body lib f crc bs \<noteq> Inl Crc"
proof
  assume "bench_decode_body lib f crc bs = Inl Crc"
  then have "bench_parse lib f bs = Inl Crc"
    using bench_validate_no_crc by (auto simp: bench_decode_body_def r_bind_Inl_iff split: if_splits)
  moreover have "(Inr v :: codec_error + bytes) \<noteq> Inl Crc" for v by simp
  ultimately show False
    using read_fields_no_crc [of Inr]
    by (auto simp: bench_parse_def r_bind_Inl_iff bench_csv_no_crc json_parse_no_crc ok_or_def
        split: wire_format.splits option.splits)
qed

interpretation bench_codec: framed_codec
  "\<lambda>(lib, f, crc) m. bench_encode_body lib f crc m" "\<lambda>(lib, f, crc). bench_decode_body lib f crc" bench_normalize
  "\<lambda>(lib, f, crc) m. bench_validate m f crc = Inr ()" "\<lambda>(lib, f, crc) m. bench_faithful lib f m"
proof (unfold_locales, goal_cases)
  case (1 k m cap body)
  then show ?case by (cases k) (auto simp: bench_encode_body_def r_bind_Inr_iff)
next
  case (2 k body m)
  then show ?case
    by (cases k) (auto simp: bench_decode_body_def r_bind_Inr_iff bench_validate_normalize split: if_splits)
next
  case (3 k m cap body)
  then show ?case by (cases k) (auto intro: bench_decode_encode)
next
  case (4 k body)
  then show ?case by (cases k) (simp add: bench_decode_no_crc)
qed

section \<open>Properties\<close>

lemma bench_decode_body_facts:
  "bench_decode_body lib f crc body = Inr m \<Longrightarrow> body \<noteq> [] \<and> bench_validate m f crc = Inr ()"
  by (auto simp: bench_decode_body_def r_bind_Inr_iff bench_validate_normalize split: if_splits)

text \<open>Whatever bytes arrive and whatever the parsing crates make of them, a benchmark datagram
  that is decoded is an intact frame of a nonempty body and the result passes validation; a
  checksum error is reported exactly for a datagram of admissible size that is no frame.\<close>
theorem bench_datagram_safe:
  "(bench_decode lib ck f crc d = Inr m \<longrightarrow> bench_validate m f crc = Inr () \<and>
      (\<exists>body. d = frame ck crc body \<and> body \<noteq> [] \<and> length body \<le> MAX_BODY)) \<and>
   (bench_decode lib ck f crc d = Inl Crc \<longleftrightarrow>
      crc = On \<and> length d \<le> MAX_DATAGRAM \<and> (\<nexists>body. d = frame ck On body))"
proof
  have "\<exists>body. open_frame ck crc d = Inr body \<and> bench_decode_body lib f crc body = Inr m"
    if "bench_decode lib ck f crc d = Inr m"
    using that by (auto simp: bench_decode_def receive_frame_def r_bind_Inr_iff)
  then show "bench_decode lib ck f crc d = Inr m \<longrightarrow> bench_validate m f crc = Inr () \<and>
      (\<exists>body. d = frame ck crc body \<and> body \<noteq> [] \<and> length body \<le> MAX_BODY)"
    using bench_decode_body_facts by (fastforce simp: open_frame_Inr_iff)
  show "bench_decode lib ck f crc d = Inl Crc \<longleftrightarrow>
      crc = On \<and> length d \<le> MAX_DATAGRAM \<and> (\<nexists>body. d = frame ck On body)"
    using bench_codec.crc_error_iff [of "(lib, f, crc)" ck crc d] by (simp add: bench_decode_def)
qed

text \<open>A concrete instance of the crates that knows one message.\<close>

definition one_message_lib :: "bench_envelope \<Rightarrow> unit bench_lib" where
  "one_message_lib m =
    \<lparr>csv_of = csv_of (sample_lib envelope_default),
     json_from = (\<lambda>bs _. if bs = lit ''{}'' then Some (m, 2) else None),
     json_to = (\<lambda>_ room. if 2 \<le> room then Some (lit ''{}'') else None),
     pb_decode = (\<lambda>bs. if bs = [8, 1] then Some (bench_to_pb m) else None),
     pb_encode = (\<lambda>_ room. if 2 \<le> room then Some [8, 1] else None)\<rparr>"

definition one_request :: bench_envelope where
  "one_request = bench_default\<lparr>b_protocol_version := Some 1, b_kind := Some 1,
    b_device_id := Some (lit ''board-01''), session_id := Some (lit ''00000000000000a1''),
    b_request_id := Some 7, capabilities := Some Empty\<rparr>"

lemma one_request_valid: "bench_validate one_request f crc = Inr ()"
  by (simp add: bench_validate_iff one_request_def bench_default_def device_name_def hex_token_def
      ascii_defs bench_count_def bench_flags_def bench_kind_body_def i32_between_def word_less_unat)

theorem bench_datagram_safe_witness:
  "bench_decode (one_message_lib one_request) crc32c_reference Json Off (lit ''{}'') = Inr one_request \<and>
   bench_validate one_request Json Off = Inr ()"
proof -
  have "bench_decode (one_message_lib one_request) crc32c_reference Json Off (lit ''{}'') = Inr one_request"
    using one_request_valid [of Json Off]
    by (simp add: bench_decode_def receive_frame_def open_frame_Off MAX_BODY_def bench_decode_body_def
        bench_parse_def json_parse_def one_message_lib_def bench_normalize_def)
      (simp add: one_request_def bench_default_def)
  then show ?thesis
    using bench_datagram_safe [of "one_message_lib one_request" crc32c_reference Json Off "lit ''{}''" one_request]
    by simp
qed

text \<open>C32: a benchmark message that is encoded into a buffer is valid, its datagram fits 1024 bytes,
  and when the third-party crates do their part the receiver decodes it to the same message,
  with a negative zero temperature turned into zero: the JSON and Protobuf crates read back
  what they wrote, the number formatter writes a temperature that parses to itself, and the
  CSV crate takes rows of plain cells apart.  The CSV form is written without quotes, and
  still reads back, because validation admits no character that needs them.\<close>
theorem bench_datagram_round_trip:
  assumes "bench_faithful lib f m" and "bench_encode lib ck f crc m out = Inr (out', used)"
  shows "bench_validate m f crc = Inr () \<and> used \<le> 1024 \<and>
    bench_decode lib ck f crc (take used out') = Inr (bench_normalize m)"
proof -
  have run: "send_frame (bench_encode_body lib f crc m) ck crc out = Inr (out', used)"
    using assms(2) by (simp add: bench_encode_def)
  show ?thesis
    using bench_codec.sent_is_received [of "(lib, f, crc)" m ck crc out out' used]
      bench_codec.sent_is_valid [of "(lib, f, crc)" m ck crc out "(out', used)"] assms(1) run
    by (simp add: bench_decode_def frame_sizes)
qed

text \<open>A concrete CSV reader, which cuts the line at its commas, meets what is asked of the crate
  for every row without quotes; with it a status with a negative zero temperature makes the
  round trip in the CSV form.\<close>

fun comma_split :: "bytes \<Rightarrow> bytes list" where
  "comma_split [] = [[]]"
| "comma_split (b # bs) =
    (if b = 44 then [] # comma_split bs
     else case comma_split bs of [] \<Rightarrow> [[b]] | c # cs \<Rightarrow> (b # c) # cs)"

definition comma_reader :: "bytes \<Rightarrow> nat \<Rightarrow> nat \<Rightarrow> csv_read" where
  "comma_reader bs room limit =
    (let cells = comma_split (take (length bs - 2) bs);
         fits = length (concat cells) \<le> room \<and> length cells \<le> limit
     in \<lparr>read_is_record = fits, read_used = length bs, read_written = length (concat cells),
         read_data = concat cells, read_ends = field_ends 0 cells\<rparr>)"

lemma comma_split_plain: "44 \<notin> set c \<Longrightarrow> comma_split c = [c]"
  by (induction c) auto

lemma comma_split_Cons: "44 \<notin> set c \<Longrightarrow> comma_split (c @ 44 # bs) = c # comma_split bs"
  by (induction c) auto

lemma comma_split_join: "cells \<noteq> [] \<Longrightarrow> \<forall>c \<in> set cells. 44 \<notin> set c \<Longrightarrow> comma_split (csv_join cells) = cells"
  by (induction cells rule: csv_join.induct) (simp_all add: comma_split_plain comma_split_Cons)

lemma length_csv_join: "length (concat cells) \<le> length (csv_join cells)"
  by (induction cells rule: csv_join.induct) simp_all

lemma comma_reader_parses:
  assumes "csv_reader lib = comma_reader" and "cells \<noteq> []" and "length cells \<le> limit"
    and "list_all plain_text cells" and "length (csv_line cells) \<le> MAX_BODY"
  shows "csv_parses lib limit cells"
proof -
  have line: "csv_line cells = csv_join cells @ CRLF"
    using assms(4) plain_text_render by (auto simp: csv_line_def list_all_iff map_idI)
  have "comma_split (csv_join cells) = cells"
    using assms(2,4) by (intro comma_split_join) (auto simp: list_all_iff plain_text_def)
  then show ?thesis
    using assms(1,3,5) length_csv_join [of cells]
    by (simp add: csv_parses_def comma_reader_def line CRLF_def)
qed

definition comma_lib :: "bench_envelope \<Rightarrow> unit bench_lib" where
  "comma_lib m = (one_message_lib m)\<lparr>csv_of := (csv_of (one_message_lib m))\<lparr>csv_reader := comma_reader,
    ryu_format := (\<lambda>_. lit ''-0.0'')\<rparr>\<rparr>"

definition cold_status :: bench_envelope where
  "cold_status = bench_default\<lparr>b_protocol_version := Some 1, b_kind := Some 21,
    b_device_id := Some (lit ''board-01''), b_boot_id := Some (lit ''00000000000000b2''),
    session_id := Some (lit ''00000000000000a1''), b_sequence := Some 9, b_uptime_ms := Some 250,
    payload := Some (lit ''Ab9''), run_epoch := Some 3,
    b_status := Some \<lparr>temperature_celsius = Some 0x80000000, validity = Some 1, synthetic = Some True\<rparr>\<rparr>"

definition cold_line :: bytes where
  "cold_line = lit ''1,21,board-01,00000000000000b2,00000000000000a1,,9,250,Ab9,3,-0.0,1,true'' @ CRLF"

lemma cold_status_valid: "bench_validate cold_status f crc = Inr ()"
  by (simp add: bench_validate_iff cold_status_def bench_default_def device_name_def hex_token_def
      ascii_defs bench_count_def bench_flags_def bench_kind_body_def i32_between_def word_less_unat
      validate_iff as_publication_def envelope_default_def kind_body_def body_count_def body_flags_def
      validate_status_def check_opt_def require_def temperature_ok_zero)

lemma cold_status_faithful: "bench_faithful (comma_lib cold_status) Csv cold_status"
proof -
  have "bench_typed cold_status" by (simp add: bench_typed_def cold_status_def bench_default_def)
  moreover have "b_status cold_status = Some s \<Longrightarrow> temperature_celsius s = Some v \<Longrightarrow> v = 0x80000000" for s v
    by (auto simp: cold_status_def)
  moreover have "ryu_reads_back (\<lambda>_. lit ''-0.0'') 0x80000000" "plain_text (lit ''-0.0'')"
    using f32_from_str_samples(3)
    by (auto simp: ryu_reads_back_def plain_text_def text_ok_def line_text_printable ascii_defs)
  ultimately show ?thesis
    by (auto simp: bench_faithful_def bench_csv_faithful_def comma_lib_def intro!: comma_reader_parses)
qed

lemma cold_status_written: "bench_csv_write (\<lambda>_. lit ''-0.0'') cold_status 200 = Inr cold_line"
proof -
  have "show_u32 1 = lit ''1''" "show_u32 9 = lit ''9''" "show_u32 250 = lit ''250''" "show_u32 3 = lit ''3''"
    "show_i32 1 = lit ''1''" "show_i32 21 = lit ''21''"
    by code_simp+
  then show ?thesis
    by (simp add: push_str_def bench_csv_write_def cold_status_def bench_default_def put_header_def
        put_field_def output_new_def append_out_def scalar_field_def body_str_def write_u32_def write_i32_def
        put_body_def put_status_def finish_out_def write_f32_def write_bool_def MAX_BODY_def CRLF_def cold_line_def)
qed

theorem bench_datagram_round_trip_witness:
  "\<exists>out' sum warm. bench_encode (comma_lib cold_status) crc32c_reference Csv On cold_status (replicate 200 0)
      = Inr (out', 82) \<and> take 82 out' = cold_line @ sum \<and>
    b_status warm = Some \<lparr>temperature_celsius = Some 0, validity = Some 1, synthetic = Some True\<rparr> \<and>
    bench_decode (comma_lib cold_status) crc32c_reference Csv On (take 82 out') = Inr warm"
proof -
  have "bench_encode_body (comma_lib cold_status) Csv On cold_status 200 = Inr cold_line"
    using cold_status_valid [of Csv On] cold_status_written
    by (simp add: bench_encode_body_def comma_lib_def MAX_BODY_def)
  moreover have "length cold_line = 74" by (simp add: cold_line_def CRLF_def)
  ultimately obtain out' where run: "bench_encode (comma_lib cold_status) crc32c_reference Csv On cold_status
      (replicate 200 0) = Inr (out', 82)" and line: "take 74 out' = cold_line"
    by (simp add: bench_encode_def send_frame_def seal_On overwrite_def MAX_BODY_def)
  have "take 82 out' = cold_line @ take 8 (drop 74 out')"
    using take_add [of 74 8 out'] line by simp
  moreover have "b_status (bench_normalize cold_status) =
      Some \<lparr>temperature_celsius = Some 0, validity = Some 1, synthetic = Some True\<rparr>"
    by (simp add: bench_normalize_def cold_status_def f32_eq_zero)
  ultimately show ?thesis
    using run bench_datagram_round_trip [OF cold_status_faithful run] by blast
qed

end
