(* ===== verification/Bench_Service.thy ===== *)
theory Bench_Service
  imports Bench_Validation Command_Service Slot_Clock
begin

text \<open>
  \<^verbatim>\<open>Rust/messaging/src/benchmark/service.rs\<close>: the leased control service of the
  benchmark.  At most one peer holds the lease and configures two publication streams; the
  lease is renewed, stopped or expires, and every termination uses up a run epoch.  The
  service is passed in and returned beside the reply; an early return through \<^verbatim>\<open>?\<close> is no
  reply, with the state as it is by then.
\<close>

section \<open>State\<close>

record peer =
  address :: "u8 \<times> u8 \<times> u8 \<times> u8"
  port :: u16

record control =
  control_kind :: i32
  control_id :: u32
  control_configuration :: "configuration option"

record lease =
  lease_peer :: peer
  lease_session :: bytes
  lease_configuration :: configuration
  last_control :: control
  expiry :: u64

record stream =
  slot_due :: u64
  slot_period :: u32
  slot_sequence :: u32

definition stream_default :: stream where
  "stream_default = \<lparr>slot_due = 0, slot_period = 0, slot_sequence = 0\<rparr>"

record service =
  s_device :: bytes
  s_boot :: bytes
  s_format :: wire_format
  s_crc :: crc_mode
  epoch :: u32
  exhausted :: bool
  lease_held :: "lease option"
  streams :: "stream list"
  tokens :: u8
  token_time :: u64
  last_time :: u64
  s_counters :: counters
  suppressed_replies :: u32

definition service_new :: "bytes \<Rightarrow> bytes \<Rightarrow> wire_format \<Rightarrow> crc_mode \<Rightarrow> u64 \<Rightarrow> service" where
  "service_new device boot format crc now =
    \<lparr>s_device = device, s_boot = boot, s_format = format, s_crc = crc, epoch = 1,
     exhausted = False, lease_held = None, streams = replicate 2 stream_default, tokens = 10,
     token_time = now, last_time = now, s_counters = counters_new, suppressed_replies = 0\<rparr>"

section \<open>Operations\<close>

definition ALPHABET :: bytes where
  "ALPHABET = lit ''0123456789ABCDEFGHIJKLMNOPQRSTUVWXYZabcdefghijklmnopqrstuvwxyz''"

definition pattern :: "u32 \<Rightarrow> u32 \<Rightarrow> u32 \<Rightarrow> bytes option" where
  "pattern n seed token =
    (if 512 < n then None
     else Some (map (\<lambda>i. ALPHABET ! unat ((seed mod 62 + token mod 62 + of_nat i) mod 62))
       [0..<unat n]))"

definition lease_active :: "service \<Rightarrow> bool" where
  "lease_active s = is_some (lease_held s)"

definition end_run :: "service \<Rightarrow> service" where
  "end_run s =
    (if is_some (lease_held s) then
       (let s = s\<lparr>lease_held := None, streams := replicate 2 stream_default\<rparr>
        in if epoch s = 0xFFFFFFFF then s\<lparr>exhausted := True\<rparr> else s\<lparr>epoch := epoch s + 1\<rparr>)
     else s)"

definition tick :: "service \<Rightarrow> u64 \<Rightarrow> service" where
  "tick s now =
    (let s = (if now < last_time s then (end_run s)\<lparr>token_time := now\<rparr> else s);
         s = s\<lparr>last_time := now\<rparr>;
         s = (if is_some_and (\<lambda>l. expiry l \<le> now) (lease_held s) then end_run s else s);
         refill = sat_sub now (token_time s) div 100000
     in if 0 < refill
        then s\<lparr>tokens := min (sat_add (tokens s) (ucast (min refill 10))) 10,
               token_time := now - sat_sub now (token_time s) mod 100000\<rparr>
        else s)"

definition reject :: "bool \<Rightarrow> service \<Rightarrow> service" where
  "reject crc s =
    (if lease_active s then
       (let c = (s_counters s)\<lparr>rejected := sat_add (rejected (s_counters s)) 1\<rparr>
        in s\<lparr>s_counters := (if crc then c\<lparr>crc_rejections := sat_add (crc_rejections c) 1\<rparr> else c)\<rparr>)
     else s)"

definition count_received :: "service \<Rightarrow> service" where
  "count_received s =
    s\<lparr>s_counters := (s_counters s)\<lparr>received := sat_add (received (s_counters s)) 1\<rparr>\<rparr>"

definition s_base :: "service \<Rightarrow> bytes \<Rightarrow> i32 \<Rightarrow> u64 \<Rightarrow> bench_envelope" where
  "s_base s sess k now =
    bench_default\<lparr>b_protocol_version := Some 1, b_kind := Some k, b_device_id := Some (s_device s),
      b_boot_id := Some (s_boot s), session_id := Some sess, run_epoch := Some (epoch s),
      b_uptime_ms := Some (ucast (now div 1000))\<rparr>"

definition admits :: "service \<Rightarrow> bench_envelope \<Rightarrow> bool" where
  "admits s request \<longleftrightarrow> is_ok (bench_validate request (s_format s) (s_crc s)) \<and>
    b_device_id request = Some (s_device s) \<and> is_some_and (i32_between 1 5) (b_kind request) \<and>
    (b_kind request = Some 1 \<or> b_boot_id request = Some (s_boot s))"

definition owns :: "service \<Rightarrow> peer \<Rightarrow> bytes \<Rightarrow> bool" where
  "owns s p sess = is_some_and (\<lambda>l. lease_peer l = p \<and> lease_session l = sess) (lease_held s)"

definition own_limits :: "service \<Rightarrow> limits" where
  "own_limits s =
    \<lparr>limit_encoding = Some (format_id (s_format s)), crc_enabled = Some (s_crc s = On),
     max_payload_bytes = Some 512, max_datagram_bytes = Some 1024,
     min_status_period_us = Some 1000, min_health_period_us = Some 10000,
     max_period_us = Some 10000000, min_lease_ms = Some 2000, max_lease_ms = Some 30000,
     available = Some (\<not> lease_active s \<and> \<not> exhausted s)\<rparr>"

definition expected_payload :: "configuration \<Rightarrow> u32 \<Rightarrow> bytes option option" where
  "expected_payload c token =
    Option.bind (payload_bytes c) (\<lambda>n. map_option (\<lambda>seed. pattern n seed token) (pattern_seed c))"

definition probe_reply ::
  "service \<Rightarrow> bench_envelope \<Rightarrow> bytes \<Rightarrow> u32 \<Rightarrow> u64 \<Rightarrow> bench_envelope" where
  "probe_reply s request sess rid now =
    (s_base s sess 15 now)\<lparr>payload := payload request, probe_response := Some Empty,
      b_request_id := Some rid\<rparr>"

definition answer_probe ::
  "service \<Rightarrow> bench_envelope \<Rightarrow> peer \<Rightarrow> bytes \<Rightarrow> u32 \<Rightarrow> u64 \<Rightarrow> service \<times> bench_envelope option" where
  "answer_probe s request p sess rid now =
    (if \<not> owns s p sess \<or> run_epoch request \<noteq> Some (epoch s) then (reject False s, None)
     else case Option.bind (lease_held s) (\<lambda>l. expected_payload (lease_configuration l) rid) of
       None \<Rightarrow> (s, None)
     | Some expected \<Rightarrow>
         if payload request \<noteq> expected then (reject False s, None)
         else
           (let s = count_received s
            in (s, Some (probe_reply s request sess rid now))))"

definition stream_at :: "u64 \<Rightarrow> u32 \<Rightarrow> stream" where
  "stream_at now us = \<lparr>slot_due = sat_add now (ucast us), slot_period = us, slot_sequence = 0\<rparr>"

definition start_run ::
  "service \<Rightarrow> configuration option \<Rightarrow> peer \<Rightarrow> bytes \<Rightarrow> control \<Rightarrow> u64 \<Rightarrow> service option" where
  "start_run s conf p sess c now =
    Option.bind conf (\<lambda>conf.
    Option.bind (status_period_us conf) (\<lambda>a.
    Option.bind (health_period_us conf) (\<lambda>b.
      Some (s\<lparr>streams := [stream_at now a, stream_at now b], s_counters := counters_new,
        lease_held := Some \<lparr>lease_peer = p, lease_session = sess, lease_configuration = conf,
          last_control = c, expiry = 0\<rparr>\<rparr>))))"

definition extend :: "service \<Rightarrow> control \<Rightarrow> u64 \<Rightarrow> service \<times> i32 option" where
  "extend s c now =
    (case lease_held s of
       None \<Rightarrow> (s, None)
     | Some l \<Rightarrow>
         let l = l\<lparr>last_control := c\<rparr>
         in case lease_ms (lease_configuration l) of
              None \<Rightarrow> (s\<lparr>lease_held := Some l\<rparr>, None)
            | Some ms \<Rightarrow>
                (s\<lparr>lease_held := Some (l\<lparr>expiry := sat_add now (ucast ms * 1000)\<rparr>)\<rparr>, Some 1))"

definition apply_control ::
  "service \<Rightarrow> peer \<Rightarrow> bytes \<Rightarrow> control \<Rightarrow> u64 \<Rightarrow> service \<times> i32 option" where
  "apply_control s p sess c now =
    (case (if control_kind c = 2 then start_run s (control_configuration c) p sess c now else Some s) of
       None \<Rightarrow> (s, None)
     | Some s \<Rightarrow>
         let s = count_received s
         in if control_kind c = 4 then (end_run s, Some 3) else extend s c now)"

definition control_result_of ::
  "service \<Rightarrow> bench_envelope \<Rightarrow> peer \<Rightarrow> bytes \<Rightarrow> control \<Rightarrow> u64 \<Rightarrow> service \<times> i32 option" where
  "control_result_of s request p sess c now =
    (if run_epoch request \<noteq> Some (epoch s) then (s, Some 6)
     else if exhausted s then (s, Some 10)
     else if lease_active s \<and> \<not> owns s p sess then (s, Some 5)
     else if is_some_and (\<lambda>l. control_id (last_control l) = control_id c) (lease_held s)
     then (s, Some (if is_some_and (\<lambda>l. last_control l = c) (lease_held s) then 2 else 8))
     else if is_some_and (\<lambda>l. control_id c < control_id (last_control l)) (lease_held s)
     then (s, Some 7)
     else if control_kind c = 2 \<and> is_none (configure request) then (s, None)
     else if control_kind c = 2 \<and> \<not> is_some_and configuration_valid (configure request)
     then (s, Some 4)
     else if control_kind c = 2 \<and> lease_active s then (s, Some 5)
     else if control_kind c \<noteq> 2 \<and> \<not> lease_active s then (s, Some 9)
     else apply_control s p sess c now)"

definition remaining_ms :: "service \<Rightarrow> bench_envelope \<Rightarrow> peer \<Rightarrow> bytes \<Rightarrow> u64 \<Rightarrow> u32" where
  "remaining_ms s request p sess now =
    (case lease_held s of
       None \<Rightarrow> 0
     | Some l \<Rightarrow>
         if lease_peer l = p \<and> lease_session l = sess \<and> run_epoch request = Some (epoch s)
         then ucast (sat_sub (expiry l) now div 1000) else 0)"

definition pay_reply :: "service \<Rightarrow> bench_envelope \<Rightarrow> service \<times> bench_envelope option" where
  "pay_reply s reply =
    (if tokens s = 0 then (s\<lparr>suppressed_replies := sat_add (suppressed_replies s) 1\<rparr>, None)
     else (s\<lparr>tokens := tokens s - 1\<rparr>, Some reply))"

definition control_reply ::
  "service \<Rightarrow> bench_envelope \<Rightarrow> peer \<Rightarrow> bytes \<Rightarrow> u32 \<Rightarrow> i32 \<Rightarrow> u64 \<Rightarrow> bench_envelope" where
  "control_reply s request p sess rid code now =
    (s_base s sess 12 now)\<lparr>run_epoch := run_epoch request,
      result_body := Some \<lparr>result_code = Some code,
        lease_remaining_ms = Some (remaining_ms s request p sess now)\<rparr>,
      b_request_id := Some rid\<rparr>"

definition answer_control ::
  "service \<Rightarrow> bench_envelope \<Rightarrow> peer \<Rightarrow> bytes \<Rightarrow> i32 \<Rightarrow> u32 \<Rightarrow> u64 \<Rightarrow> service \<times> bench_envelope option" where
  "answer_control s request p sess k rid now =
    (case control_result_of s request p sess
        \<lparr>control_kind = k, control_id = rid, control_configuration = configure request\<rparr> now of
       (s, None) \<Rightarrow> (s, None)
     | (s, Some code) \<Rightarrow>
         let s = (if \<not> i32_between 1 3 code then reject False s else s)
         in pay_reply s (control_reply s request p sess rid code now))"

definition capabilities_reply :: "service \<Rightarrow> bytes \<Rightarrow> u32 \<Rightarrow> u64 \<Rightarrow> bench_envelope" where
  "capabilities_reply s sess rid now =
    (s_base s sess 11 now)\<lparr>limits_body := Some (own_limits s), b_request_id := Some rid\<rparr>"

definition handle ::
  "service \<Rightarrow> bench_envelope \<Rightarrow> peer \<Rightarrow> u64 \<Rightarrow> service \<times> bench_envelope option" where
  "handle s request p now =
    (let s = tick s now
     in if \<not> admits s request then (reject False s, None)
        else case (b_kind request, session_id request, b_request_id request) of
          (Some k, Some sess, Some rid) \<Rightarrow>
            if k = 1 then
              pay_reply s (capabilities_reply s sess rid now)
            else if k = 5 then answer_probe s request p sess rid now
            else answer_control s request p sess k rid now
        | _ \<Rightarrow> (s, None))"

section \<open>Publications\<close>

definition poll_stream :: "stream \<Rightarrow> u64 \<Rightarrow> stream \<times> (u32 \<times> u64) option" where
  "poll_stream q now =
    (if slot_period q = 0 \<or> now < slot_due q then (q, None)
     else
       (let skipped = (now - slot_due q) div ucast (slot_period q);
            sq = slot_sequence q + ucast skipped
        in (q\<lparr>slot_sequence := sq + 1,
              slot_due := sat_add now
                (ucast (slot_period q) - (now - slot_due q) mod ucast (slot_period q))\<rparr>,
            Some (sq, skipped))))"

definition stream_body :: "service \<Rightarrow> nat \<Rightarrow> bench_envelope \<Rightarrow> bench_envelope" where
  "stream_body s index out =
    (if index = 0
     then out\<lparr>b_status := Some \<lparr>temperature_celsius = Some f32_25, validity = Some 1,
       synthetic = Some True\<rparr>\<rparr>
     else out\<lparr>b_health := Some (counters_health (s_counters s))\<rparr>)"

definition publish_slot ::
  "service \<Rightarrow> lease \<Rightarrow> nat \<Rightarrow> u32 \<Rightarrow> u64 \<Rightarrow> bench_envelope option" where
  "publish_slot s l index sq now =
    map_option (\<lambda>text. stream_body s index
        ((s_base s (lease_session l) (21 + of_nat index) now)\<lparr>b_sequence := Some sq,
          payload := Some text\<rparr>))
      (Option.bind (expected_payload (lease_configuration l) sq) (\<lambda>x. x))"

definition s_publication :: "service \<Rightarrow> nat \<Rightarrow> u64 \<Rightarrow> service \<times> bench_envelope option" where
  "s_publication s index now =
    (let s = tick s now
     in case lease_held s of
          None \<Rightarrow> (s, None)
        | Some l \<Rightarrow>
            if length (streams s) \<le> index then (s, None)
            else case poll_stream (streams s ! index) now of
              (q, None) \<Rightarrow> (s, None)
            | (q, Some (sq, missed)) \<Rightarrow>
                (let s = s\<lparr>streams := (streams s)[index := q],
                       s_counters := counters_skip (s_counters s) missed\<rparr>
                 in (s, publish_slot s l index sq now)))"

section \<open>The events of a service\<close>

text \<open>
  What a server does with its service: it advances the clock, ends the run, handles a
  received message, polls a stream, counts an unusable datagram, reports a send on a
  socket (an index outside the array panics: \<open>None\<close>) and counts skipped samples.
\<close>

datatype service_event =
    Tick_At u64
  | Network_Lost
  | Received bench_envelope peer u64
  | Poll_Stream nat u64
  | Unusable bool
  | Send_Report nat bool
  | Skip_Report u64

fun service_step ::
  "service \<Rightarrow> service_event \<Rightarrow> (service \<times> bench_envelope option) option" where
  "service_step s (Tick_At now) = Some (tick s now, None)"
| "service_step s Network_Lost = Some (end_run s, None)"
| "service_step s (Received m p now) = Some (handle s m p now)"
| "service_step s (Poll_Stream i now) = Some (s_publication s i now)"
| "service_step s (Unusable crc) = Some (reject crc s, None)"
| "service_step s (Send_Report i ok) =
     map_option (\<lambda>c. (s\<lparr>s_counters := c\<rparr>, None)) (counters_sent (s_counters s) i ok)"
| "service_step s (Skip_Report n) = Some (s\<lparr>s_counters := counters_skip (s_counters s) n\<rparr>, None)"

fun event_time :: "service \<Rightarrow> service_event \<Rightarrow> u64" where
  "event_time s (Tick_At now) = now"
| "event_time s (Received m p now) = now"
| "event_time s (Poll_Stream i now) = now"
| "event_time s e = last_time s"

text \<open>The states a server can bring its service to, and the messages it can make it emit.\<close>

inductive service_run :: "service \<Rightarrow> service_event list \<Rightarrow> service \<Rightarrow> bool" where
  run_none: "service_run s [] s"
| run_more: "service_run s es s1 \<Longrightarrow> service_step s1 e = Some (s2, r) \<Longrightarrow> service_run s (es @ [e]) s2"

inductive_cases service_run_snocE: "service_run s (es @ [e]) s'"

section \<open>The invariant\<close>

definition lease_wf :: "service \<Rightarrow> lease \<Rightarrow> bool" where
  "lease_wf s l \<longleftrightarrow> configuration_valid (lease_configuration l) \<and> hex_token (lease_session l) \<and>
    map slot_period (streams s) =
      [the (status_period_us (lease_configuration l)), the (health_period_us (lease_configuration l))] \<and>
    control_id (last_control l) \<noteq> 0 \<and> \<not> exhausted s \<and>
    unat (expiry l) \<le> unat (last_time s) + 30000000"

definition service_wf :: "service \<Rightarrow> bool" where
  "service_wf s \<longleftrightarrow> device_name (s_device s) \<and> length (s_device s) \<le> 32 \<and> hex_token (s_boot s) \<and>
    epoch s \<noteq> 0 \<and> (exhausted s \<longrightarrow> epoch s = 0xFFFFFFFF) \<and> tokens s \<le> 10 \<and>
    token_time s \<le> last_time s \<and> length (active (s_counters s)) = 3 \<and>
    (case lease_held s of None \<Rightarrow> streams s = replicate 2 stream_default | Some l \<Rightarrow> lease_wf s l)"

lemma service_new_wf:
  assumes "device_name device" and "length device \<le> 32" and "hex_token boot"
  shows "service_wf (service_new device boot f crc now)"
  using assms by (simp add: service_wf_def service_new_def counters_new_def)

lemma end_run_simps [simp]:
  "lease_held (end_run s) = None" "s_device (end_run s) = s_device s" "s_boot (end_run s) = s_boot s"
  "s_format (end_run s) = s_format s" "s_crc (end_run s) = s_crc s" "tokens (end_run s) = tokens s"
  "token_time (end_run s) = token_time s" "last_time (end_run s) = last_time s"
  "s_counters (end_run s) = s_counters s" "suppressed_replies (end_run s) = suppressed_replies s"
  by (simp_all add: end_run_def Let_def)

lemma end_run_idle: "lease_held s = None \<Longrightarrow> end_run s = s"
  by (simp add: end_run_def)

lemma max_u32_step: "e \<noteq> 0xFFFFFFFF \<Longrightarrow> e + 1 \<noteq> (0 :: u32)"
proof
  assume "e \<noteq> 0xFFFFFFFF" and "e + 1 = 0"
  then have "e = - 1" by (simp add: eq_neg_iff_add_eq_0)
  then show False using \<open>e \<noteq> 0xFFFFFFFF\<close> by simp
qed

lemma end_run_wf: "service_wf s \<Longrightarrow> service_wf (end_run s)"
  by (auto simp: service_wf_def end_run_def Let_def lease_wf_def max_u32_step split: option.splits)

lemma tokens_10: "min (sat_add a b) 10 \<le> (10 :: u8)"
  by simp

lemma refill_clock:
  fixes now tt :: u64
  assumes "tt \<le> now"
  shows "unat (now - sat_sub now tt mod 100000) = unat tt + (unat now - unat tt) div 100000 * 100000"
proof -
  have s: "unat (sat_sub now tt mod 100000) = (unat now - unat tt) mod 100000"
    by (simp add: unat_mod unat_sat_sub)
  then have "unat (sat_sub now tt mod 100000) \<le> unat now"
    by (metis diff_le_self mod_less_eq_dividend order_trans)
  then have "unat (now - sat_sub now tt mod 100000) = unat now - (unat now - unat tt) mod 100000"
    by (subst unat_diff_le) (simp_all add: word_le_unat s)
  moreover have "unat tt \<le> unat now" using assms by (simp add: word_le_unat)
  moreover have "(unat now - unat tt) div 100000 * 100000 + (unat now - unat tt) mod 100000 = unat now - unat tt"
    by simp
  ultimately show ?thesis by linarith
qed

text \<open>The clock, the budget and the lease after a tick.\<close>

definition regressed :: "service \<Rightarrow> u64 \<Rightarrow> service" where
  "regressed s now = (if now < last_time s then (end_run s)\<lparr>token_time := now\<rparr> else s)\<lparr>last_time := now\<rparr>"

definition expired :: "service \<Rightarrow> u64 \<Rightarrow> service" where
  "expired s now = (if is_some_and (\<lambda>l. expiry l \<le> now) (lease_held s) then end_run s else s)"

definition refilled :: "service \<Rightarrow> u64 \<Rightarrow> service" where
  "refilled s now =
    (let refill = sat_sub now (token_time s) div 100000
     in if 0 < refill
        then s\<lparr>tokens := min (sat_add (tokens s) (ucast (min refill 10))) 10,
               token_time := now - sat_sub now (token_time s) mod 100000\<rparr>
        else s)"

lemma tick_stages: "tick s now = refilled (expired (regressed s now) now) now"
  by (simp add: tick_def refilled_def expired_def regressed_def Let_def)

lemma refilled_simps [simp]:
  "lease_held (refilled s now) = lease_held s" "streams (refilled s now) = streams s"
  "epoch (refilled s now) = epoch s" "exhausted (refilled s now) = exhausted s"
  "s_device (refilled s now) = s_device s" "s_boot (refilled s now) = s_boot s"
  "s_format (refilled s now) = s_format s" "s_crc (refilled s now) = s_crc s"
  "last_time (refilled s now) = last_time s" "s_counters (refilled s now) = s_counters s"
  by (simp_all add: refilled_def Let_def)

lemma expired_simps [simp]:
  "s_device (expired s now) = s_device s" "s_boot (expired s now) = s_boot s"
  "s_format (expired s now) = s_format s" "s_crc (expired s now) = s_crc s"
  "last_time (expired s now) = last_time s" "s_counters (expired s now) = s_counters s"
  "tokens (expired s now) = tokens s" "token_time (expired s now) = token_time s"
  by (simp_all add: expired_def)

lemma regressed_simps [simp]:
  "s_device (regressed s now) = s_device s" "s_boot (regressed s now) = s_boot s"
  "s_format (regressed s now) = s_format s" "s_crc (regressed s now) = s_crc s"
  "last_time (regressed s now) = now" "s_counters (regressed s now) = s_counters s"
  "tokens (regressed s now) = tokens s"
  by (simp_all add: regressed_def)

lemma tick_simps [simp]:
  "s_device (tick s now) = s_device s" "s_boot (tick s now) = s_boot s"
  "s_format (tick s now) = s_format s" "s_crc (tick s now) = s_crc s"
  "last_time (tick s now) = now" "s_counters (tick s now) = s_counters s"
  by (simp_all add: tick_stages)

lemma refilled_wf:
  assumes "service_wf s" and "last_time s = now"
  shows "service_wf (refilled s now)"
proof -
  have "token_time s \<le> now" using assms by (simp add: service_wf_def)
  then have "now - sat_sub now (token_time s) mod 100000 \<le> now"
    using refill_clock [of "token_time s" now] by (simp add: word_le_unat)
  then show ?thesis
    using assms tokens_10 by (auto simp: service_wf_def refilled_def Let_def lease_wf_def split: option.splits)
qed

lemma regressed_wf: "service_wf s \<Longrightarrow> service_wf (regressed s now)"
  using end_run_wf [of s]
  by (auto simp: service_wf_def regressed_def lease_wf_def word_less_unat word_le_unat split: option.splits)

lemma tick_wf: "service_wf s \<Longrightarrow> service_wf (tick s now)"
  unfolding tick_stages
  by (intro refilled_wf) (auto simp: expired_def intro!: end_run_wf regressed_wf)

lemma reject_simps [simp]:
  "lease_held (reject c s) = lease_held s" "streams (reject c s) = streams s"
  "epoch (reject c s) = epoch s" "exhausted (reject c s) = exhausted s"
  "s_device (reject c s) = s_device s" "s_boot (reject c s) = s_boot s"
  "s_format (reject c s) = s_format s" "s_crc (reject c s) = s_crc s"
  "last_time (reject c s) = last_time s" "tokens (reject c s) = tokens s"
  "token_time (reject c s) = token_time s"
  "active (s_counters (reject c s)) = active (s_counters s)"
  by (simp_all add: reject_def Let_def)

lemma reject_wf [simp]: "service_wf (reject c s) \<longleftrightarrow> service_wf s"
  by (simp add: service_wf_def lease_wf_def split: option.split)

lemma count_received_simps [simp]:
  "lease_held (count_received s) = lease_held s" "streams (count_received s) = streams s"
  "epoch (count_received s) = epoch s" "exhausted (count_received s) = exhausted s"
  "s_device (count_received s) = s_device s" "s_boot (count_received s) = s_boot s"
  "s_format (count_received s) = s_format s" "s_crc (count_received s) = s_crc s"
  "last_time (count_received s) = last_time s" "tokens (count_received s) = tokens s"
  "token_time (count_received s) = token_time s"
  "active (s_counters (count_received s)) = active (s_counters s)"
  by (simp_all add: count_received_def)

lemma count_received_wf [simp]: "service_wf (count_received s) \<longleftrightarrow> service_wf s"
  by (simp add: service_wf_def lease_wf_def split: option.split)

lemma configuration_valid_fields:
  assumes "configuration_valid c"
  obtains n seed a b ms where "payload_bytes c = Some n" "n \<le> 512" "pattern_seed c = Some seed"
    "status_period_us c = Some a" "a = 0 \<or> 1000 \<le> a \<and> a \<le> 10000000"
    "health_period_us c = Some b" "b = 0 \<or> 10000 \<le> b \<and> b \<le> 10000000"
    "lease_ms c = Some ms" "2000 \<le> ms" "ms \<le> 30000"
  using assms by (auto simp: configuration_valid_def is_some_and_iff)

text \<open>The lease a peer is granted or renews, and the state it is held in.\<close>

definition granted_lease :: "peer \<Rightarrow> bytes \<Rightarrow> configuration \<Rightarrow> control \<Rightarrow> u64 \<Rightarrow> lease" where
  "granted_lease p sess conf c now = \<lparr>lease_peer = p, lease_session = sess, lease_configuration = conf,
    last_control = c, expiry = sat_add now (ucast (the (lease_ms conf)) * 1000)\<rparr>"

definition granted_state :: "service \<Rightarrow> peer \<Rightarrow> bytes \<Rightarrow> configuration \<Rightarrow> control \<Rightarrow> u64 \<Rightarrow> service" where
  "granted_state s p sess conf c now =
    (count_received (s\<lparr>s_counters := counters_new\<rparr>))
      \<lparr>streams := [stream_at now (the (status_period_us conf)), stream_at now (the (health_period_us conf))],
       lease_held := Some (granted_lease p sess conf c now)\<rparr>"

definition renewed_state :: "service \<Rightarrow> lease \<Rightarrow> control \<Rightarrow> u64 \<Rightarrow> service" where
  "renewed_state s l c now =
    (count_received s)\<lparr>lease_held := Some (l\<lparr>last_control := c,
      expiry := sat_add now (ucast (the (lease_ms (lease_configuration l))) * 1000)\<rparr>)\<rparr>"

lemma count_received_update [simp]:
  "count_received (s\<lparr>streams := x\<rparr>) = (count_received s)\<lparr>streams := x\<rparr>"
  "count_received (s\<lparr>lease_held := y\<rparr>) = (count_received s)\<lparr>lease_held := y\<rparr>"
  by (simp_all add: count_received_def)

lemma apply_start:
  assumes "control_kind c = 2" and "control_configuration c = Some conf" and "configuration_valid conf"
  shows "apply_control s p sess c now = (granted_state s p sess conf c now, Some 1)"
proof -
  obtain n seed a b ms where f: "status_period_us conf = Some a" "health_period_us conf = Some b"
    "lease_ms conf = Some ms"
    using configuration_valid_fields [OF assms(3)] by metis
  show ?thesis
    using assms(1,2) f
    by (simp add: apply_control_def start_run_def extend_def Let_def granted_state_def granted_lease_def
        count_received_def)
qed

lemma apply_renew:
  assumes "control_kind c = 3" and "lease_held s = Some l" and "configuration_valid (lease_configuration l)"
  shows "apply_control s p sess c now = (renewed_state s l c now, Some 1)"
proof -
  obtain ms where f: "lease_ms (lease_configuration l) = Some ms"
    using configuration_valid_fields [OF assms(3)] by metis
  show ?thesis
    using assms(1,2) f
    by (simp add: apply_control_def extend_def Let_def renewed_state_def count_received_def)
qed

lemma apply_stop:
  "control_kind c = 4 \<Longrightarrow> apply_control s p sess c now = (end_run (count_received s), Some 3)"
  by (simp add: apply_control_def Let_def)

lemma held_by_owner:
  "\<not> (lease_active s \<and> \<not> owns s p sess) \<Longrightarrow> is_some_and q (lease_held s) \<Longrightarrow> owns s p sess"
  by (auto simp: lease_active_def is_some_and_iff)

lemma control_order:
  assumes run: "control_result_of s request p sess c now = (s', code)"
  shows "(\<exists>r \<in> {4, 5, 6, 7, 8, 9, 10}. s' = s \<and> code = Some r) \<or>
    (s' = s \<and> code = Some 2 \<and> run_epoch request = Some (epoch s) \<and> owns s p sess \<and>
        is_some_and (\<lambda>l. last_control l = c) (lease_held s)) \<or>
    (control_kind c = 2 \<and> configure request = None) \<or>
    (run_epoch request = Some (epoch s) \<and> \<not> exhausted s \<and> \<not> (lease_active s \<and> \<not> owns s p sess) \<and>
      \<not> is_some_and (\<lambda>l. control_id (last_control l) = control_id c) (lease_held s) \<and>
      \<not> is_some_and (\<lambda>l. control_id c < control_id (last_control l)) (lease_held s) \<and>
      (control_kind c = 2 \<longrightarrow> is_some_and configuration_valid (configure request)) \<and>
      (control_kind c = 2 \<longrightarrow> \<not> lease_active s) \<and> (control_kind c \<noteq> 2 \<longrightarrow> lease_active s) \<and>
      apply_control s p sess c now = (s', code))"
  using run held_by_owner [of s p sess "\<lambda>l. last_control l = c"]
  by (simp add: control_result_of_def del: not_None_eq split: if_split_asm) blast

text \<open>
  What a control message can do: nothing but a result code, or a grant, a renewal or a stop.
\<close>

lemma control_cases:
  assumes "service_wf s" and k: "control_kind c = 2 \<or> control_kind c = 3 \<or> control_kind c = 4"
    and conf: "control_configuration c = configure request"
    and "control_kind c = 2 \<longrightarrow> configure request \<noteq> None"
    and run: "control_result_of s request p sess c now = (s', code)"
  obtains (Nothing) r where "s' = s" and "code = Some r"
      and "r \<in> {2, 4, 5, 6, 7, 8, 9, 10}"
      and "r = 2 \<longrightarrow> run_epoch request = Some (epoch s) \<and> owns s p sess \<and>
        is_some_and (\<lambda>l. last_control l = c) (lease_held s)"
  | (Grant) g where "configure request = Some g" and "configuration_valid g" and "control_kind c = 2"
      and "lease_held s = None" and "\<not> exhausted s" and "run_epoch request = Some (epoch s)"
      and "s' = granted_state s p sess g c now" and "code = Some 1"
  | (Renew) l where "lease_held s = Some l" and "control_kind c = 3" and "owns s p sess"
      and "control_id (last_control l) < control_id c" and "run_epoch request = Some (epoch s)"
      and "s' = renewed_state s l c now" and "code = Some 1"
  | (Release) l where "lease_held s = Some l" and "control_kind c = 4" and "owns s p sess"
      and "control_id (last_control l) < control_id c" and "run_epoch request = Some (epoch s)"
      and "s' = end_run (count_received s)" and "code = Some 3"
proof -
  from control_order [OF run] show ?thesis
  proof (elim disjE, goal_cases)
    case 1
    then obtain r where "r \<in> {4, 5, 6, 7, 8, 9, 10}" "s' = s" "code = Some r" by blast
    then show ?case by (intro Nothing [of r]) auto
  next
    case 2
    then show ?case by (intro Nothing [of 2]) simp_all
  next
    case 3
    then show ?case using assms(4) by simp
  next
    case 4
    then have a: "run_epoch request = Some (epoch s)" "\<not> exhausted s" "\<not> (lease_active s \<and> \<not> owns s p sess)"
      "\<not> is_some_and (\<lambda>l. control_id (last_control l) = control_id c) (lease_held s)"
      "\<not> is_some_and (\<lambda>l. control_id c < control_id (last_control l)) (lease_held s)"
      "control_kind c = 2 \<longrightarrow> is_some_and configuration_valid (configure request)"
      "control_kind c = 2 \<longrightarrow> \<not> lease_active s" "control_kind c \<noteq> 2 \<longrightarrow> lease_active s"
      "apply_control s p sess c now = (s', code)" by blast+
    show ?thesis
    proof (cases "lease_held s")
      case None
      then have k2: "control_kind c = 2" using a(8) by (auto simp: lease_active_def)
      then obtain g where g: "configure request = Some g" "configuration_valid g"
        using a(6) by (auto simp: is_some_and_iff)
      then show ?thesis
        using apply_start [OF k2, of g s p sess now] a(1,2,9) None k2 conf by (intro Grant [of g]) auto
    next
      case (Some l)
      then have k34: "control_kind c = 3 \<or> control_kind c = 4" and own: "owns s p sess"
        using a(3,7) k by (auto simp: lease_active_def)
      have id: "control_id (last_control l) < control_id c"
        using a(4,5) Some by auto
      have valid: "configuration_valid (lease_configuration l)"
        using assms(1) Some by (simp add: service_wf_def lease_wf_def)
      show ?thesis
        using k34
      proof
        assume k3: "control_kind c = 3"
        show ?thesis using apply_renew [OF k3 Some valid, of p sess now] a(9) by (intro Renew [OF Some k3 own id a(1)]) auto
      next
        assume k4: "control_kind c = 4"
        show ?thesis using apply_stop [OF k4, of s p sess now] a(9) by (intro Release [OF Some k4 own id a(1)]) auto
      qed
    qed
  qed
qed

lemma lease_term:
  fixes now :: u64
  assumes "configuration_valid g"
  shows "unat (sat_add now (ucast (the (lease_ms g)) * 1000)) \<le> unat now + 30000000"
proof -
  obtain ms where ms: "lease_ms g = Some ms" "ms \<le> 30000"
    using configuration_valid_fields [OF assms] by metis
  have le: "unat ms \<le> 30000" using ms(2) by (simp add: word_le_unat)
  then have "unat (ucast ms * 1000 :: u64) = unat ms * 1000"
    by (subst unat_mult_small) (simp_all add: unat_ucast_32_64)
  then show ?thesis using le by (simp add: ms(1) unat_sat_add)
qed

lemma granted_wf:
  assumes "service_wf s" and "lease_held s = None" and "\<not> exhausted s" and "configuration_valid g"
    and "hex_token sess" and "control_id c \<noteq> 0" and "last_time s = now"
  shows "service_wf (granted_state s p sess g c now)"
  using assms lease_term [OF assms(4), of now]
  by (simp add: service_wf_def granted_state_def granted_lease_def lease_wf_def stream_at_def
      counters_new_def count_received_def)

lemma renewed_wf:
  assumes "service_wf s" and "lease_held s = Some l" and "control_id c \<noteq> 0" and "last_time s = now"
  shows "service_wf (renewed_state s l c now)"
proof -
  have "configuration_valid (lease_configuration l)" using assms by (simp add: service_wf_def lease_wf_def)
  from lease_term [OF this, of now] show ?thesis
    using assms by (simp add: service_wf_def renewed_state_def lease_wf_def)
qed

lemma control_wf:
  assumes "service_wf s" and "control_kind c = 2 \<or> control_kind c = 3 \<or> control_kind c = 4"
    and "control_configuration c = configure request" and "control_kind c = 2 \<longrightarrow> configure request \<noteq> None"
    and "hex_token sess" and "control_id c \<noteq> 0" and "last_time s = now"
    and "control_result_of s request p sess c now = (s', code)"
  shows "service_wf s'"
proof (cases rule: control_cases [OF assms(1-4,8), case_names Nothing Grant Renew Release])
  case Grant
  then show ?thesis using assms granted_wf by simp
next
  case Renew
  then show ?thesis using assms renewed_wf by simp
qed (use assms end_run_wf in simp_all)

lemma pay_reply_cases:
  "pay_reply s m = (s', r) \<Longrightarrow>
    (tokens s = 0 \<and> s' = s\<lparr>suppressed_replies := sat_add (suppressed_replies s) 1\<rparr> \<and> r = None) \<or>
    (tokens s \<noteq> 0 \<and> s' = s\<lparr>tokens := tokens s - 1\<rparr> \<and> r = Some m)"
  by (auto simp: pay_reply_def split: if_splits)

lemma pay_reply_simps [simp]:
  "lease_held (fst (pay_reply s m)) = lease_held s" "streams (fst (pay_reply s m)) = streams s"
  "epoch (fst (pay_reply s m)) = epoch s" "exhausted (fst (pay_reply s m)) = exhausted s"
  "s_device (fst (pay_reply s m)) = s_device s" "s_boot (fst (pay_reply s m)) = s_boot s"
  "s_format (fst (pay_reply s m)) = s_format s" "s_crc (fst (pay_reply s m)) = s_crc s"
  "last_time (fst (pay_reply s m)) = last_time s" "token_time (fst (pay_reply s m)) = token_time s"
  "s_counters (fst (pay_reply s m)) = s_counters s"
  by (simp_all add: pay_reply_def)

lemma pay_reply_wf: "service_wf s \<Longrightarrow> service_wf (fst (pay_reply s m))"
proof -
  have "tokens s \<noteq> 0 \<Longrightarrow> tokens s \<le> 10 \<Longrightarrow> tokens s - 1 \<le> 10"
    by (simp add: word_le_unat unat_minus_one)
  then show "service_wf s \<Longrightarrow> service_wf (fst (pay_reply s m))"
    by (auto simp: service_wf_def pay_reply_def lease_wf_def split: option.splits)
qed

text \<open>What an admitted request carries.\<close>

lemma admitted:
  assumes "admits s request"
  obtains k sess rid where "b_kind request = Some k" "k \<in> {1, 2, 3, 4, 5}" "session_id request = Some sess"
    "hex_token sess" "b_request_id request = Some rid" "rid \<noteq> 0"
    "k \<noteq> 1 \<longrightarrow> is_some_and (\<lambda>v. v \<noteq> 0) (run_epoch request)"
    "k = 2 \<longrightarrow> configure request \<noteq> None"
    "\<forall>text. payload request = Some text \<longrightarrow> list_all is_alphanumeric text"
    "is_some (payload request) = (k = 5)"
proof -
  obtain k where k: "b_kind request = Some k" "k \<in> {1, 2, 3, 4, 5}"
    using assms by (auto simp: admits_def is_some_and_iff i32_between_1_5)
  have v: "bench_validate request (s_format s) (s_crc s) = Inr ()"
    using assms by (simp add: admits_def is_ok_unit)
  have v1: "nonce (session_id request)" "bench_kind_body request k" "k \<noteq> 21 \<and> k \<noteq> 22"
    "k \<noteq> 21 \<and> k \<noteq> 22 \<longrightarrow> is_some_and (\<lambda>v. 0 < v) (b_request_id request)"
    "if k = 1 then is_none (b_boot_id request) \<and> is_none (run_epoch request)
     else nonce (b_boot_id request) \<and> is_some_and (\<lambda>v. 0 < v) (run_epoch request)"
    "is_some (payload request) = (k = 5 \<or> k = 15 \<or> k = 21 \<or> k = 22)"
    "\<forall>text. payload request = Some text \<longrightarrow> list_all is_alphanumeric text"
    using bench_validated [OF v k(1)] k(2) by auto
  obtain sess where "session_id request = Some sess" "hex_token sess"
    using v1(1) by (auto simp: nonce_session session_iff)
  moreover obtain rid where "b_request_id request = Some rid" "rid \<noteq> 0"
    using v1(3,4) by (auto simp: is_some_and_iff)
  moreover have "k \<noteq> 1 \<longrightarrow> is_some_and (\<lambda>v. v \<noteq> 0) (run_epoch request)"
    using v1(5) by (auto simp: is_some_and_iff)
  moreover have "k = 2 \<longrightarrow> configure request \<noteq> None"
    using v1(2) by (simp add: bench_kind_body_def)
  moreover have "is_some (payload request) = (k = 5)"
    using v1(6) k(2) by auto
  ultimately show ?thesis using that k v1(7) by blast
qed

lemma lease_valid: "service_wf s \<Longrightarrow> lease_held s = Some l \<Longrightarrow> lease_wf s l"
  by (simp add: service_wf_def)

lemma expected_payload_Some:
  assumes "configuration_valid c"
  shows "expected_payload c token = Some (pattern (the (payload_bytes c)) (the (pattern_seed c)) token)"
  by (rule configuration_valid_fields [OF assms]) (simp add: expected_payload_def)

lemma probe_refused:
  assumes "service_wf s" and "answer_probe s request p sess rid now = (s', None)"
  shows "s' = reject False s"
proof (cases "\<not> owns s p sess \<or> run_epoch request \<noteq> Some (epoch s)")
  case True
  then show ?thesis using assms(2) by (simp add: answer_probe_def)
next
  case False
  then obtain l where l: "lease_held s = Some l" by (auto simp: owns_def is_some_and_iff)
  then have "configuration_valid (lease_configuration l)"
    using lease_valid [OF assms(1)] by (simp add: lease_wf_def)
  from expected_payload_Some [OF this] show ?thesis
    using assms(2) False l by (simp add: answer_probe_def Let_def split: if_splits)
qed

lemma handle_cases:
  assumes wf: "service_wf s" and run: "handle s request p now = (s', r)"
  obtains (Refused) "s' = reject False (tick s now)" and "r = None"
  | (Capabilities) sess rid where "b_kind request = Some 1" and "session_id request = Some sess"
      and "hex_token sess" and "b_request_id request = Some rid" and "rid \<noteq> 0" and "admits (tick s now) request"
      and "pay_reply (tick s now) (capabilities_reply (tick s now) sess rid now) = (s', r)"
  | (Probed) l sess rid pl where "b_kind request = Some 5" and "session_id request = Some sess"
      and "hex_token sess" and "b_request_id request = Some rid" and "rid \<noteq> 0" and "admits (tick s now) request"
      and "lease_held (tick s now) = Some l" and "lease_peer l = p" and "lease_session l = sess"
      and "run_epoch request = Some (epoch (tick s now))" and "payload request = Some pl"
      and "expected_payload (lease_configuration l) rid = Some (Some pl)" and "list_all is_alphanumeric pl"
      and "s' = count_received (tick s now)"
      and "r = Some (probe_reply (tick s now) request sess rid now)"
  | (Controlled) k sess rid c s1 code where "b_kind request = Some k" and "k = 2 \<or> k = 3 \<or> k = 4"
      and "session_id request = Some sess" and "hex_token sess" and "b_request_id request = Some rid"
      and "rid \<noteq> 0" and "admits (tick s now) request" and "is_some_and (\<lambda>v. v \<noteq> 0) (run_epoch request)"
      and "k = 2 \<longrightarrow> configure request \<noteq> None"
      and "c = \<lparr>control_kind = k, control_id = rid, control_configuration = configure request\<rparr>"
      and "control_result_of (tick s now) request p sess c now = (s1, Some code)"
      and "pay_reply (if \<not> i32_between 1 3 code then reject False s1 else s1)
        (control_reply s1 request p sess rid code now) = (s', r)"
proof -
  define t where "t = tick s now"
  have wft: "service_wf t" using wf by (simp add: t_def tick_wf)
  show ?thesis
  proof (cases "admits t request")
    case False
    then show ?thesis using run Refused by (simp add: handle_def Let_def t_def)
  next
    case True
    obtain k sess rid where f: "b_kind request = Some k" "k \<in> {1, 2, 3, 4, 5}" "session_id request = Some sess"
      "hex_token sess" "b_request_id request = Some rid" "rid \<noteq> 0"
      "k \<noteq> 1 \<longrightarrow> is_some_and (\<lambda>v. v \<noteq> 0) (run_epoch request)" "k = 2 \<longrightarrow> configure request \<noteq> None"
      "\<forall>text. payload request = Some text \<longrightarrow> list_all is_alphanumeric text"
      "is_some (payload request) = (k = 5)"
      using True by (elim admitted) (rule that)
    have step: "(if k = 1 then pay_reply t (capabilities_reply t sess rid now)
        else if k = 5 then answer_probe t request p sess rid now
        else answer_control t request p sess k rid now) = (s', r)"
      using run True f(1,3,5) by (simp add: handle_def Let_def t_def split: if_splits)
    consider "k = 1" | "k = 5" | "k = 2 \<or> k = 3 \<or> k = 4" using f(2) by auto
    then show ?thesis
    proof cases
      case 1
      then show ?thesis using Capabilities f True step by (simp add: t_def)
    next
      case 2
      then have a: "answer_probe t request p sess rid now = (s', r)" using step by simp
      show ?thesis
      proof (cases "r = None")
        case True
        then show ?thesis using Refused probe_refused [OF wft] a by (auto simp: t_def)
      next
        case False
        then obtain l x where l: "lease_held t = Some l" "lease_peer l = p" "lease_session l = sess"
          "run_epoch request = Some (epoch t)" "expected_payload (lease_configuration l) rid = Some x"
          "payload request = x" "s' = count_received t" "r = Some (probe_reply (count_received t) request sess rid now)"
          using a by (auto simp: answer_probe_def owns_def is_some_and_iff Let_def split: if_splits option.splits)
        moreover obtain pl where "payload request = Some pl" using f(10) 2 by auto
        moreover have "probe_reply (count_received t) request sess rid now = probe_reply t request sess rid now"
          by (simp add: probe_reply_def s_base_def)
        ultimately show ?thesis
          using Probed [of sess rid l pl] f 2 True \<open>admits t request\<close> by (auto simp: t_def)
      qed
    next
      case 3
      let ?c = "\<lparr>control_kind = k, control_id = rid, control_configuration = configure request\<rparr>"
      have a: "answer_control t request p sess k rid now = (s', r)" using step 3 by auto
      obtain s1 code where c: "control_result_of t request p sess ?c now = (s1, code)" by fastforce
      have "code \<noteq> None"
        using control_cases [OF wft _ _ _ c] 3 f(8) by fastforce
      then obtain code' where code: "code = Some code'" by blast
      have same: "control_reply (reject False s1) request p sess rid code' now = control_reply s1 request p sess rid code' now"
        by (cases "lease_held s1") (simp_all add: control_reply_def s_base_def remaining_ms_def)
      have "pay_reply (if \<not> i32_between 1 3 code' then reject False s1 else s1)
        (control_reply s1 request p sess rid code' now) = (s', r)"
        using a c by (simp add: answer_control_def code Let_def same split: if_splits)
      then show ?thesis
        using Controlled [of k sess rid ?c s1 code'] f 3 True c code by (auto simp: t_def)
    qed
  qed
qed

end
