(* ===== verification/Bench_Lease.thy ===== *)
theory Bench_Lease
  imports Bench_Service
begin

text \<open>
  What the benchmark control service guarantees: its invariant over any run of events, the
  form of every message it emits, the lease protocol it implements, and the rates and
  schedules it keeps.
\<close>

section \<open>The invariant holds in every run\<close>

lemma handle_wf:
  assumes "service_wf s" and "handle s request p now = (s', r)"
  shows "service_wf s'"
proof -
  have t: "service_wf (tick s now)" using assms(1) by (rule tick_wf)
  show ?thesis
  proof (cases rule: handle_cases [OF assms, case_names Refused Capabilities Probed Controlled])
    case Refused
    then show ?thesis using t by simp
  next
    case (Capabilities sess rid)
    then show ?thesis using pay_reply_wf [OF t] by (metis fst_conv)
  next
    case Probed
    then show ?thesis using t by simp
  next
    case (Controlled k sess rid c s1 code)
    have "service_wf s1"
      by (rule control_wf [OF t _ _ _ Controlled(4) _ _ Controlled(11)]) (use Controlled in auto)
    then have "service_wf (if \<not> i32_between 1 3 code then reject False s1 else s1)" by simp
    from pay_reply_wf [OF this] show ?thesis using Controlled(12) by (metis fst_conv)
  qed
qed

lemma poll_stream_period: "poll_stream q now = (q', r) \<Longrightarrow> slot_period q' = slot_period q"
  by (auto simp: poll_stream_def Let_def split: if_splits)

lemma publication_cases:
  assumes "s_publication s i now = (s', r)"
  obtains (Silent) "s' = tick s now" and "r = None"
  | (Due) l q sq missed where "lease_held (tick s now) = Some l" and "i < length (streams (tick s now))"
      and "poll_stream (streams (tick s now) ! i) now = (q, Some (sq, missed))"
      and "s' = (tick s now)\<lparr>streams := (streams (tick s now))[i := q],
        s_counters := counters_skip (s_counters s) missed\<rparr>"
      and "r = publish_slot s' l i sq now"
  using assms by (auto simp: s_publication_def Let_def split: option.splits if_splits prod.splits)

lemma publication_wf:
  assumes "service_wf s" and "s_publication s i now = (s', r)"
  shows "service_wf s'"
proof -
  have t: "service_wf (tick s now)" using assms(1) by (rule tick_wf)
  show ?thesis
  proof (cases rule: publication_cases [OF assms(2), case_names Silent Due])
    case (Due l q sq missed)
    have "map slot_period ((streams (tick s now))[i := q]) = map slot_period (streams (tick s now))"
      using poll_stream_period [OF Due(3)] Due(2) by (simp add: map_update) (metis list_update_id nth_map)
    then show ?thesis using t Due(1,4) by (simp add: service_wf_def lease_wf_def counters_skip_def)
  qed (use t in simp)
qed

lemma counters_wf: "service_wf s \<Longrightarrow> length (active c) = 3 \<Longrightarrow> service_wf (s\<lparr>s_counters := c\<rparr>)"
  by (cases "lease_held s") (simp_all add: service_wf_def lease_wf_def)

lemma counters_sent_active: "counters_sent c i ok = Some c' \<Longrightarrow> length (active c') = length (active c)"
  by (auto simp: counters_sent_def Let_def split: if_splits)

lemma step_wf:
  assumes wf: "service_wf s" and run: "service_step s e = Some (s', r)"
  shows "service_wf s'"
proof -
  have three: "length (active (s_counters s)) = 3" using wf by (simp add: service_wf_def)
  show ?thesis
  proof (cases e)
    case (Received m p now)
    then show ?thesis using run handle_wf [OF wf] by simp
  next
    case (Poll_Stream i now)
    then show ?thesis using run publication_wf [OF wf] by simp
  next
    case (Send_Report i ok)
    then obtain c where "counters_sent (s_counters s) i ok = Some c" "s' = s\<lparr>s_counters := c\<rparr>"
      using run by auto
    then show ?thesis using counters_wf [OF wf] counters_sent_active three by simp
  next
    case (Skip_Report n)
    then show ?thesis using run counters_wf [OF wf] three by (auto simp: counters_skip_def)
  qed (use run wf tick_wf end_run_wf in auto)
qed

lemma run_wf: "service_run s es s' \<Longrightarrow> service_wf s \<Longrightarrow> service_wf s'"
  by (induction rule: service_run.induct) (auto intro: step_wf)

section \<open>Every message is valid\<close>

definition emits :: "service \<Rightarrow> bench_envelope \<Rightarrow> bool" where
  "emits s m \<longleftrightarrow> bench_validate m (s_format s) (s_crc s) = Inr () \<and> bench_typed m \<and>
    b_device_id m = Some (s_device s) \<and> b_boot_id m = Some (s_boot s)"

lemma hex_token_length: "hex_token v \<Longrightarrow> length v = 16"
  by (simp add: hex_token_def)

lemmas message_simps = bench_validate_iff s_base_def bench_default_def bench_count_def bench_flags_def
  bench_kind_body_def i32_between_1_5 emits_def bench_typed_def hex_token_length

lemma unat_not_zero: "0 < (w :: u32) \<longleftrightarrow> w \<noteq> 0"
  by (simp add: word_less_unat unat_gt_0)

lemma capabilities_emits:
  assumes "service_wf s" and "hex_token sess" and "rid \<noteq> 0"
  shows "emits s (capabilities_reply s sess rid now)"
  using assms
  by (simp add: message_simps capabilities_reply_def own_limits_def validate_limits_def service_wf_def
      unat_not_zero)

lemma pattern_Some:
  "pattern n seed token = Some x \<Longrightarrow> length x = unat n \<and> length x \<le> 512 \<and> list_all is_alphanumeric x"
proof -
  assume x: "pattern n seed token = Some x"
  have "is_alphanumeric (ALPHABET ! unat (w mod 62))" for w :: u32
  proof -
    have "unat (w mod 62) < 62" by (simp add: unat_mod)
    moreover have "list_all is_alphanumeric ALPHABET" "length ALPHABET = 62"
      by (simp_all add: ALPHABET_def ascii_defs)
    ultimately show ?thesis by (auto simp: list_all_iff)
  qed
  then show ?thesis
    using x by (auto simp: pattern_def word_le_unat list_all_iff not_less split: if_splits)
qed

lemma probe_emits:
  assumes "service_wf s" and "hex_token sess" and "rid \<noteq> 0" and "payload request = Some x"
    and "expected_payload c rid = Some (Some x)"
  shows "emits s (probe_reply s request sess rid now)"
proof -
  have "length x \<le> 512 \<and> list_all is_alphanumeric x"
    using assms(5) pattern_Some by (auto simp: expected_payload_def bind_eq_Some_conv)
  then show ?thesis
    using assms(1-4) by (simp add: message_simps probe_reply_def service_wf_def unat_not_zero)
qed

lemma remaining_bound:
  assumes "service_wf s" and "last_time s = now"
  shows "remaining_ms s request p sess now \<le> 30000"
proof (cases "lease_held s")
  case (Some l)
  have "unat (expiry l) \<le> unat now + 30000000"
    using lease_valid [OF assms(1) Some] assms(2) by (simp add: lease_wf_def)
  then have d: "unat (sat_sub (expiry l) now div 1000) \<le> 30000"
    by (simp add: unat_div unat_sat_sub)
  then have "unat (ucast (sat_sub (expiry l) now div 1000) :: u32) \<le> 30000"
    by (subst unat_ucast_64_32) (simp add: mod_le_divisor)
  then show ?thesis by (simp add: remaining_ms_def Some word_le_unat)
qed (simp add: remaining_ms_def)

lemma control_emits:
  assumes "service_wf s" and "last_time s = now" and "hex_token sess" and "rid \<noteq> 0"
    and "is_some_and (\<lambda>v. v \<noteq> 0) (run_epoch request)" and "code \<in> {1, 2, 3, 4, 5, 6, 7, 8, 9, 10}"
  shows "emits s (control_reply s request p sess rid code now)"
proof -
  have "i32_between 1 10 code" using assms(6) by (auto simp: i32_between_def)
  then show ?thesis
    using assms(1,3-5) remaining_bound [OF assms(1,2), of request p sess]
    by (auto simp: message_simps control_reply_def validate_result_def service_wf_def unat_not_zero is_some_and_iff)
qed

lemma publication_emits:
  assumes "service_wf s" and "hex_token (lease_session l)" and "i < 2"
    and "publish_slot s l i sq now = Some m"
  shows "emits s m"
proof -
  obtain x where x: "expected_payload (lease_configuration l) sq = Some (Some x)"
    and m: "m = stream_body s i ((s_base s (lease_session l) (21 + of_nat i) now)
      \<lparr>b_sequence := Some sq, payload := Some x\<rparr>)"
    using assms(4) by (auto simp: publish_slot_def bind_eq_Some_conv)
  have p: "length x \<le> 512 \<and> list_all is_alphanumeric x"
    using x pattern_Some by (auto simp: expected_payload_def bind_eq_Some_conv)
  let ?up = "ucast (now div 1000) :: u32"
  have wf: "device_name (s_device s)" "hex_token (s_boot s)" "epoch s \<noteq> 0" "length (s_device s) \<le> 32"
    using assms(1) by (simp_all add: service_wf_def)
  have ok: "temperature_ok f32_25"
    by (simp add: temperature_ok_def f32_le_def f32_is_nan_def f32_is_finite_def f32_exponent_def
      f32_key_def f32_negative_def f32_magnitude_def)
  consider "i = 0" | "i = 1" using assms(3) by linarith
  then show ?thesis
  proof cases
    case 1
    have "as_publication m 21 =
        to_envelope (s_format s) (Publication (s_device s) (s_boot s) ?up sq (Status_Report (Measured f32_25)))"
      by (simp add: m 1 stream_body_def as_publication_def s_base_def bench_default_def to_envelope.simps envelope_default_def)
    then have "validate (as_publication m 21) (s_format s) = Inr ()"
      using wf ok by (simp add: validate_sound)
    then show ?thesis
      using wf assms(2) p by (simp add: m 1 message_simps stream_body_def unat_not_zero)
  next
    case 2
    let ?c = "s_counters s"
    have "as_publication m 22 =
        to_envelope (s_format s) (Publication (s_device s) (s_boot s) ?up sq
          (Health_Report (list_ex (\<lambda>v. v) (active ?c)) (received ?c) (rejected ?c) (send_failures ?c) (skipped ?c)))"
      by (simp add: m 2 stream_body_def as_publication_def s_base_def bench_default_def to_envelope.simps
          envelope_default_def counters_health_def)
    then have "validate (as_publication m 22) (s_format s) = Inr ()"
      using wf by (simp add: validate_sound)
    then show ?thesis
      using wf assms(2) p by (simp add: m 2 message_simps stream_body_def unat_not_zero)
  qed
qed

text \<open>The settings of a service never change.\<close>

definition same_settings :: "service \<Rightarrow> service \<Rightarrow> bool" where
  "same_settings s s' \<longleftrightarrow> s_device s' = s_device s \<and> s_boot s' = s_boot s \<and>
    s_format s' = s_format s \<and> s_crc s' = s_crc s"

lemma emits_settings: "same_settings s s' \<Longrightarrow> emits s' m \<longleftrightarrow> emits s m"
  by (simp add: same_settings_def emits_def)

lemma control_settings:
  assumes "service_wf s" and "control_kind c = 2 \<or> control_kind c = 3 \<or> control_kind c = 4"
    and "control_configuration c = configure request" and "control_kind c = 2 \<longrightarrow> configure request \<noteq> None"
    and "control_result_of s request p sess c now = (s', code)"
  shows "same_settings s s' \<and> last_time s' = last_time s \<and> tokens s' = tokens s \<and>
    token_time s' = token_time s \<and> code \<noteq> None \<and> the code \<in> {1, 2, 3, 4, 5, 6, 7, 8, 9, 10}"
  by (cases rule: control_cases [OF assms])
    (auto simp: same_settings_def granted_state_def renewed_state_def count_received_def)

lemma handle_control:
  assumes wf: "service_wf s" and "k = 2 \<or> k = 3 \<or> k = 4" and "k = 2 \<longrightarrow> configure request \<noteq> None"
    and "c = \<lparr>control_kind = k, control_id = rid, control_configuration = configure request\<rparr>"
    and "control_result_of (tick s now) request p sess c now = (s1, Some code)"
  shows "same_settings s s1 \<and> last_time s1 = now \<and> tokens s1 = tokens (tick s now) \<and>
    token_time s1 = token_time (tick s now) \<and> code \<in> {1, 2, 3, 4, 5, 6, 7, 8, 9, 10}"
  using control_settings [OF tick_wf [OF wf] _ _ _ assms(5)] assms(2-4)
  by (auto simp: same_settings_def)

lemma handle_emits:
  assumes wf: "service_wf s" and run: "handle s request p now = (s', r)"
  shows "same_settings s s' \<and> last_time s' = now \<and> (\<forall>m. r = Some m \<longrightarrow> emits s m)"
proof -
  let ?t = "tick s now"
  have t: "service_wf ?t" "last_time ?t = now" using wf by (simp_all add: tick_wf)
  have same: "emits ?t m \<longleftrightarrow> emits s m" for m by (rule emits_settings) (simp add: same_settings_def)
  show ?thesis
  proof (cases rule: handle_cases [OF assms, case_names Refused Capabilities Probed Controlled])
    case Refused
    then show ?thesis by (simp add: same_settings_def)
  next
    case (Capabilities sess rid)
    then show ?thesis
      using pay_reply_cases [OF Capabilities(7)] capabilities_emits [OF t(1) Capabilities(3,5), of now] same
      by (auto simp: same_settings_def)
  next
    case (Probed l sess rid pl)
    then show ?thesis
      using probe_emits [OF t(1) Probed(3,5,11,12), of now] same by (auto simp: same_settings_def)
  next
    case (Controlled k sess rid c s1 code)
    note c = handle_control [OF wf Controlled(2,9,10,11)]
    have s1: "service_wf s1"
      by (rule control_wf [OF t(1) _ _ _ Controlled(4) _ _ Controlled(11)]) (use Controlled in auto)
    have "emits s1 (control_reply s1 request p sess rid code now)"
      by (rule control_emits [OF s1]) (use Controlled c in auto)
    then have "emits s (control_reply s1 request p sess rid code now)"
      using emits_settings [of s s1] c by simp
    then show ?thesis
      using pay_reply_cases [OF Controlled(12)] c by (auto simp: same_settings_def)
  qed
qed

lemma publication_emits_step:
  assumes wf: "service_wf s" and run: "s_publication s i now = (s', r)"
  shows "same_settings s s' \<and> last_time s' = now \<and> (\<forall>m. r = Some m \<longrightarrow> emits s m)"
proof (cases rule: publication_cases [OF run, case_names Silent Due])
  case Silent
  then show ?thesis by (simp add: same_settings_def)
next
  case (Due l q sq missed)
  have t: "service_wf (tick s now)" using wf by (rule tick_wf)
  have "lease_wf (tick s now) l" by (rule lease_valid [OF t Due(1)])
  then have "hex_token (lease_session l)" "length (streams (tick s now)) = 2"
    by (auto simp: lease_wf_def dest: arg_cong [of _ _ length])
  then have "emits s' m" if "r = Some m" for m
    using publication_emits [OF publication_wf [OF wf run]] that Due(2,5) by auto
  moreover have same: "same_settings s s'" by (simp add: Due(4) same_settings_def)
  ultimately show ?thesis using emits_settings [OF same] by (simp add: Due(4))
qed

lemma step_settings:
  assumes "service_wf s" and "service_step s e = Some (s', r)"
  shows "same_settings s s' \<and> (\<forall>m. r = Some m \<longrightarrow> emits s m)"
proof (cases e)
  case (Received m p now)
  then show ?thesis using assms handle_emits by auto
next
  case (Poll_Stream i now)
  then show ?thesis using assms publication_emits_step by auto
qed (use assms in \<open>auto simp: same_settings_def\<close>)

lemma run_settings: "service_run s es s' \<Longrightarrow> service_wf s \<Longrightarrow> same_settings s s'"
proof (induction rule: service_run.induct)
  case (run_more s es s1 e s2 r)
  then show ?case using step_settings [OF run_wf [OF run_more(1)]] by (auto simp: same_settings_def)
qed (simp add: same_settings_def)

text \<open>Whatever peers send and the network does, every message the benchmark service emits passes
  the validation of the protocol, fits the fixed-size strings, and carries the device and
  boot identity of the service.\<close>
theorem service_emits_valid_messages:
  assumes "device_name device" and "length device \<le> 32" and "hex_token boot"
    and "service_run (service_new device boot f crc now) es s" and "service_step s e = Some (s', Some m)"
  shows "bench_validate m f crc = Inr () \<and> bench_typed m \<and>
    b_device_id m = Some device \<and> b_boot_id m = Some boot"
proof -
  have new: "service_wf (service_new device boot f crc now)" by (rule service_new_wf [OF assms(1-3)])
  have "emits s m" using step_settings [OF run_wf [OF assms(4) new] assms(5)] by simp
  then show ?thesis
    using run_settings [OF assms(4) new] by (simp add: emits_def same_settings_def service_new_def)
qed

section \<open>A sample run\<close>

text \<open>A service just started, a client that configures it, and the service then.\<close>

definition sample_service :: service where
  "sample_service = service_new (lit ''board-01'') (lit ''123456789abcdef0'') Csv Off 0"

definition sample_peer :: peer where
  "sample_peer = \<lparr>address = (192, 168, 1, 2), port = 5000\<rparr>"

definition sample_session :: bytes where
  "sample_session = lit ''00000000000000a1''"

definition sample_configuration :: configuration where
  "sample_configuration = \<lparr>payload_bytes = Some 4, pattern_seed = Some 1, status_period_us = Some 1000,
    health_period_us = Some 0, lease_ms = Some 2000\<rparr>"

definition sample_configure :: bench_envelope where
  "sample_configure = bench_default\<lparr>b_protocol_version := Some 1, b_kind := Some 2,
    b_device_id := Some (lit ''board-01''), b_boot_id := Some (lit ''123456789abcdef0''),
    session_id := Some sample_session, run_epoch := Some 1, b_request_id := Some 1,
    configure := Some sample_configuration\<rparr>"

definition sample_control :: control where
  "sample_control = \<lparr>control_kind = 2, control_id = 1, control_configuration = Some sample_configuration\<rparr>"

definition sample_event :: service_event where
  "sample_event = Received sample_configure sample_peer 5000"

definition sample_running :: service where
  "sample_running = granted_state (tick sample_service 5000) sample_peer sample_session sample_configuration
    sample_control 5000"

lemma sample_names: "device_name (lit ''board-01'')" "length (lit ''board-01'') \<le> 32"
  "hex_token (lit ''123456789abcdef0'')" "hex_token sample_session"
  by (simp_all add: device_name_def hex_token_def ascii_defs sample_session_def)

lemma sample_configuration_valid: "configuration_valid sample_configuration"
  by (simp add: configuration_valid_def sample_configuration_def)

lemma sample_service_wf: "service_wf sample_service"
  unfolding sample_service_def by (rule service_new_wf [OF sample_names(1-3)])

lemma sample_fields: "b_kind sample_configure = Some 2" "session_id sample_configure = Some sample_session"
  "b_request_id sample_configure = Some 1" "configure sample_configure = Some sample_configuration"
  by (simp_all add: sample_configure_def)

lemma sample_tick: "lease_held (tick sample_service 5000) = None" "exhausted (tick sample_service 5000) = False"
  "epoch (tick sample_service 5000) = 1" "tokens (tick sample_service 5000) = 10"
  "token_time (tick sample_service 5000) = 0"
  by (simp_all add: tick_stages refilled_def expired_def regressed_def sample_service_def service_new_def
      Let_def sat_sub_def)

lemma sample_admits: "admits (tick sample_service 5000) sample_configure"
  using sample_names
  by (simp add: admits_def is_ok_unit sample_configure_def sample_service_def service_new_def message_simps
      validate_configure_iff sample_configuration_def)

lemma sample_step:
  "service_step sample_service sample_event =
    Some (sample_running\<lparr>tokens := 9\<rparr>, Some (control_reply sample_running sample_configure sample_peer
      sample_session 1 1 5000))"
proof -
  have "control_result_of (tick sample_service 5000) sample_configure sample_peer sample_session sample_control 5000
      = (sample_running, Some 1)"
    using apply_start [of sample_control sample_configuration] sample_configuration_valid sample_tick
    by (simp add: control_result_of_def lease_active_def owns_def sample_running_def
        sample_control_def sample_configure_def)
  moreover have "tokens sample_running = 10"
    by (simp add: sample_running_def granted_state_def count_received_def sample_tick)
  ultimately show ?thesis
    using sample_admits
    by (simp add: sample_event_def handle_def answer_control_def pay_reply_def sample_control_def i32_between_def
        Let_def sample_fields)
qed

theorem service_emits_valid_messages_witness:
  "\<exists>m. service_step sample_service sample_event = Some (sample_running\<lparr>tokens := 9\<rparr>, Some m) \<and>
    bench_validate m Csv Off = Inr ()"
  using service_emits_valid_messages [OF sample_names(1-3) run_none sample_step [unfolded sample_service_def]]
    sample_step by blast

end
