(* ===== verification/Bench_Server.thy ===== *)
theory Bench_Server
  imports Bench_Lease Bench_Codec Messaging_Server
begin

text \<open>
  \<^verbatim>\<open>Rust/src/servers/embassy_benchmark.rs\<close>: the task that connects the benchmark service
  to the network.  One iteration of its loop is a function of the task and of what the
  network stack and the clock answer during it.  A socket is open or not and holds the
  datagrams that the stack has not sent yet, here as the messages they encode; closing it
  drops them.
\<close>

section \<open>State\<close>

record socket =
  is_open :: bool
  queued :: "bench_envelope list"

definition closed :: socket where
  "closed = \<lparr>is_open = False, queued = []\<rparr>"

text \<open>The IPv4 configuration of the stack: own address with prefix, and gateway.\<close>

type_synonym ipv4 = "u8 \<times> u8 \<times> u8 \<times> u8"

type_synonym net_config = "(ipv4 \<times> u8) \<times> ipv4 option"

record bench_task =
  svc :: service
  generation :: "u32 \<times> bool"
  previous_config :: "net_config option"
  sockets :: "socket list"
  stopped :: bool

record 'w bench_build =
  b_lib :: "'w bench_lib"
  b_checksum :: "bytes \<Rightarrow> u32"
  b_wire :: wire_format
  b_crc_mode :: crc_mode

text \<open>The sockets: 0 for commands, 1 for status, 2 for health.\<close>

definition COMMAND :: u16 where "COMMAND = 42010"
definition STATUS :: u16 where "STATUS = 42011"
definition HEALTH :: u16 where "HEALTH = 42012"

datatype reception =
    No_Datagram
  | Receive_Broken
  | Arrived "ipv4 option" "peer option" bytes

text \<open>
  The answers of one iteration: the clock at its reads, the link and the configuration,
  whether a socket can be bound at the four places where that is tried, what was received,
  and whether a socket is drained and takes a datagram.
\<close>

record net_answers =
  tick_time :: u64
  link :: bool
  stack_config :: "net_config option"
  bind_ok :: "nat \<Rightarrow> nat \<Rightarrow> bool"
  arrival :: reception
  handle_time :: u64
  reply_time :: u64
  poll_time :: "nat \<Rightarrow> u64"
  publish_time :: "nat \<Rightarrow> u64"
  drained :: "nat \<Rightarrow> bool"
  send_ok :: "nat \<Rightarrow> bool"

definition boot_service :: "'w bench_build \<Rightarrow> bytes \<Rightarrow> u64 \<Rightarrow> service" where
  "boot_service b boot t = service_new DEVICE_ID boot (b_wire b) (b_crc_mode b) t"

definition can_encode :: "'w bench_build \<Rightarrow> bench_envelope \<Rightarrow> bool" where
  "can_encode b m \<longleftrightarrow>
    is_ok (bench_encode (b_lib b) (b_checksum b) (b_wire b) (b_crc_mode b) m (replicate 1024 0))"

section \<open>The parts of an iteration\<close>

definition current :: "bench_task \<Rightarrow> u32 \<times> bool" where
  "current t = (epoch (svc t), lease_active (svc t))"

definition close_all :: "bench_task \<Rightarrow> bench_task" where
  "close_all t = t\<lparr>sockets := replicate 3 closed\<rparr>"

definition end_service :: "bench_task \<Rightarrow> bench_task" where
  "end_service t = t\<lparr>svc := end_run (svc t)\<rparr>"

definition regenerate :: "bench_task \<Rightarrow> bench_task" where
  "regenerate t = (if generation t \<noteq> current t then (close_all t)\<lparr>generation := current t\<rparr> else t)"

text \<open>\<^verbatim>\<open>socket.is_open() || socket.bind(port).is_ok()\<close>\<close>

definition reopen :: "nat \<Rightarrow> bool \<Rightarrow> bench_task \<Rightarrow> bench_task \<times> bool" where
  "reopen i ok t =
    (if is_open (sockets t ! i) then (t, True)
     else if ok then (t\<lparr>sockets := (sockets t)[i := \<lparr>is_open = True, queued = []\<rparr>]\<rparr>, True)
     else (t, False))"

fun reopen_all :: "(nat \<Rightarrow> bool) \<Rightarrow> nat list \<Rightarrow> bench_task \<Rightarrow> bench_task \<times> bool" where
  "reopen_all ok [] t = (t, True)"
| "reopen_all ok (i # is) t =
    (case reopen i (ok i) t of (t, True) \<Rightarrow> reopen_all ok is t | (t, False) \<Rightarrow> (t, False))"

definition enqueue :: "nat \<Rightarrow> bench_envelope \<Rightarrow> bench_task \<Rightarrow> bench_task" where
  "enqueue i m t = t\<lparr>sockets := (sockets t)[i := (sockets t ! i)\<lparr>queued := queued (sockets t ! i) @ [m]\<rparr>]\<rparr>"

text \<open>The encoded message to the socket, and the outcome to the counters.\<close>

definition post :: "'w bench_build \<Rightarrow> net_answers \<Rightarrow> nat \<Rightarrow> bench_envelope \<Rightarrow> bench_task \<Rightarrow> (bench_task \<times> bool) option" where
  "post b e i m t =
    (let sent = can_encode b m \<and> send_ok e i
     in map_option (\<lambda>c. ((if sent then enqueue i m t else t)\<lparr>svc := (svc t)\<lparr>s_counters := c\<rparr>\<rparr>, sent))
          (counters_sent (s_counters (svc t)) i sent))"

text \<open>A request that was decoded; the flag says that the iteration goes on.\<close>

definition serve_request ::
  "'w bench_build \<Rightarrow> net_answers \<Rightarrow> bench_envelope \<Rightarrow> peer \<Rightarrow> bench_task \<Rightarrow> (bench_task \<times> bool) option" where
  "serve_request b e request p t =
    (let (s, reply) = handle (svc t) request p (handle_time e);
         t = regenerate (t\<lparr>svc := s\<rparr>)
     in case reopen 0 (bind_ok e 1 0) t of
          (t, False) \<Rightarrow> Some (end_service t, False)
        | (t, True) \<Rightarrow>
            (case reply of
               None \<Rightarrow> Some (t, True)
             | Some reply \<Rightarrow>
                 (let t = t\<lparr>svc := tick (svc t) (reply_time e)\<rparr>
                  in if b_kind reply \<noteq> Some 15 \<or>
                        run_epoch reply = Some (epoch (svc t)) \<and> lease_active (svc t)
                     then map_option (\<lambda>(t, _). (t, True)) (post b e 0 reply t)
                     else Some (t, True))))"

definition bench_receive :: "'w bench_build \<Rightarrow> net_answers \<Rightarrow> bench_task \<Rightarrow> (bench_task \<times> bool) option" where
  "bench_receive b e t =
    (case arrival e of
       No_Datagram \<Rightarrow> Some (t, True)
     | Receive_Broken \<Rightarrow> Some (t\<lparr>svc := reject False (svc t)\<rparr>, True)
     | Arrived local remote datagram \<Rightarrow>
         if local \<noteq> map_option (\<lambda>c. fst (fst c)) (stack_config e) then Some (t\<lparr>svc := reject False (svc t)\<rparr>, True)
         else case remote of
           None \<Rightarrow> Some (t, True)
         | Some p \<Rightarrow>
             (case bench_decode (b_lib b) (b_checksum b) (b_wire b) (b_crc_mode b) datagram of
                Inl err \<Rightarrow> Some (t\<lparr>svc := reject (err = Crc) (svc t)\<rparr>, True)
              | Inr request \<Rightarrow> serve_request b e request p t))"

text \<open>The message of a stream: an unsent earlier one is replaced.  The flag says that the loop
  over the two streams goes on.\<close>

definition skip_one :: "bench_task \<Rightarrow> bench_task" where
  "skip_one t = t\<lparr>svc := (svc t)\<lparr>s_counters := counters_skip (s_counters (svc t)) 1\<rparr>\<rparr>"

definition replace_unsent :: "net_answers \<Rightarrow> nat \<Rightarrow> bench_task \<Rightarrow> bench_task \<times> bool" where
  "replace_unsent e i t =
    (if drained e i then (t, True)
     else reopen i (bind_ok e 3 i) ((skip_one t)\<lparr>sockets := (sockets t)[i := closed]\<rparr>))"

definition publish_message ::
  "'w bench_build \<Rightarrow> net_answers \<Rightarrow> nat \<Rightarrow> bench_envelope \<Rightarrow> bench_task \<Rightarrow> (bench_task \<times> bool) option" where
  "publish_message b e i m t =
    (case replace_unsent e (i + 1) t of
       (t, False) \<Rightarrow> Some (end_service t, False)
     | (t, True) \<Rightarrow>
         (let t = t\<lparr>svc := tick (svc t) (publish_time e i)\<rparr>
          in if \<not> lease_active (svc t) \<or> run_epoch m \<noteq> Some (epoch (svc t)) then Some (t, True)
             else map_option (\<lambda>(t, sent). (if sent then t else skip_one t, True)) (post b e (i + 1) m t)))"

definition publish_stream :: "'w bench_build \<Rightarrow> net_answers \<Rightarrow> nat \<Rightarrow> bench_task \<Rightarrow> (bench_task \<times> bool) option" where
  "publish_stream b e i t =
    (case reopen (i + 1) (bind_ok e 2 (i + 1)) t of
       (t, False) \<Rightarrow> Some (end_service t, False)
     | (t, True) \<Rightarrow>
         (case s_publication (svc t) i (poll_time e i) of
            (s, None) \<Rightarrow> Some (t\<lparr>svc := s\<rparr>, True)
          | (s, Some m) \<Rightarrow> publish_message b e i m (t\<lparr>svc := s\<rparr>)))"

fun publish_streams :: "'w bench_build \<Rightarrow> net_answers \<Rightarrow> nat list \<Rightarrow> bench_task \<Rightarrow> bench_task option" where
  "publish_streams b e [] t = Some t"
| "publish_streams b e (i # is) t =
    (case publish_stream b e i t of
       None \<Rightarrow> None
     | Some (t, True) \<Rightarrow> publish_streams b e is t
     | Some (t, False) \<Rightarrow> Some t)"

section \<open>An iteration\<close>

definition check_network :: "net_answers \<Rightarrow> bench_task \<Rightarrow> bench_task" where
  "check_network e t =
    (let t = t\<lparr>svc := tick (svc t) (tick_time e)\<rparr>
     in regenerate
       (if \<not> (link e \<and> stack_config e \<noteq> None) \<or> stack_config e \<noteq> previous_config t
        then (close_all (end_service t))\<lparr>previous_config := stack_config e\<rparr> else t))"

definition bench_iteration :: "'w bench_build \<Rightarrow> net_answers \<Rightarrow> bench_task \<Rightarrow> bench_task option" where
  "bench_iteration b e t =
    (if stopped t then Some t
     else
       (let t = check_network e t
        in if \<not> (link e \<and> stack_config e \<noteq> None) then Some t
           else case reopen_all (bind_ok e 0) [0, 1, 2] t of
             (t, False) \<Rightarrow> Some ((close_all (end_service t))\<lparr>stopped := True\<rparr>)
           | (t, True) \<Rightarrow>
               (case bench_receive b e t of
                  None \<Rightarrow> None
                | Some (t, False) \<Rightarrow> Some t
                | Some (t, True) \<Rightarrow> map_option regenerate (publish_streams b e [0, 1] (regenerate t)))))"

definition bench_start :: "'w bench_build \<Rightarrow> bytes \<Rightarrow> u64 \<Rightarrow> net_config option \<Rightarrow> bool \<Rightarrow> bench_task" where
  "bench_start b boot t network bound =
    (let s = boot_service b boot t
     in \<lparr>svc = s, generation = (epoch s, lease_active s), previous_config = network,
         sockets = replicate 3 (if bound then \<lparr>is_open = True, queued = []\<rparr> else closed), stopped = \<not> bound\<rparr>)"

text \<open>Between iterations the stack sends datagrams from the queues.\<close>

definition drains :: "bench_task \<Rightarrow> bench_task \<Rightarrow> bool" where
  "drains t t' \<longleftrightarrow> (\<exists>qs. t' = t\<lparr>sockets := qs\<rparr> \<and>
    list_all2 (\<lambda>q q'. is_open q' = is_open q \<and> set (queued q') \<subseteq> set (queued q)) (sockets t) qs)"

inductive bench_run :: "'w bench_build \<Rightarrow> bench_task \<Rightarrow> bench_task \<Rightarrow> bool" for b t0 where
  bench_none: "bench_run b t0 t0"
| bench_iterate: "bench_run b t0 t \<Longrightarrow> bench_iteration b e t = Some t' \<Longrightarrow> bench_run b t0 t'"
| bench_drain: "bench_run b t0 t \<Longrightarrow> drains t t' \<Longrightarrow> bench_run b t0 t'"

section \<open>The self check\<close>

definition self_configure :: "bytes \<Rightarrow> bench_envelope" where
  "self_configure boot = bench_default\<lparr>b_protocol_version := Some 1, b_kind := Some 2,
    b_device_id := Some DEVICE_ID, b_boot_id := Some boot, session_id := Some boot, run_epoch := Some 1,
    b_request_id := Some 1,
    configure := Some \<lparr>payload_bytes = Some 512, pattern_seed = Some 723, status_period_us = Some 1000,
      health_period_us = Some 10000, lease_ms = Some 2000\<rparr>\<rparr>"

definition self_probe :: "bytes \<Rightarrow> bench_envelope" where
  "self_probe boot = (self_configure boot)\<lparr>b_kind := Some 5, configure := None, probe := Some Empty,
    payload := pattern 512 723 1\<rparr>"

definition encode_1024 :: "'w bench_build \<Rightarrow> bench_envelope \<Rightarrow> bytes option" where
  "encode_1024 b m =
    (case bench_encode (b_lib b) (b_checksum b) (b_wire b) (b_crc_mode b) m (replicate DATAGRAM_CAPACITY 0) of
       Inl _ \<Rightarrow> None
     | Inr (out, n) \<Rightarrow> Some (take n out))"

definition reads_back :: "'w bench_build \<Rightarrow> bench_envelope option \<Rightarrow> bool" where
  "reads_back b m =
    (case m of
       None \<Rightarrow> False
     | Some m \<Rightarrow>
         (case encode_1024 b m of
            None \<Rightarrow> False
          | Some d \<Rightarrow> bench_decode (b_lib b) (b_checksum b) (b_wire b) (b_crc_mode b) d = Inr m))"

definition bench_self_check :: "'w bench_build \<Rightarrow> bytes \<Rightarrow> u64 \<Rightarrow> u64 \<Rightarrow> bool" where
  "bench_self_check b boot start now =
    (let s = boot_service b boot start; p = \<lparr>address = (127, 0, 0, 1), port = 1\<rparr>
     in case encode_1024 b (self_configure boot) of
          None \<Rightarrow> False
        | Some d \<Rightarrow>
            (case bench_decode (b_lib b) (b_checksum b) (b_wire b) (b_crc_mode b) d of
               Inl _ \<Rightarrow> False
             | Inr decoded \<Rightarrow>
                 (case handle s decoded p now of
                    (s, None) \<Rightarrow> False
                  | (s, Some reply) \<Rightarrow>
                      if Option.bind (result_body reply) result_code \<noteq> Some 1 then False
                      else case handle s (self_probe boot) p now of
                        (s, None) \<Rightarrow> False
                      | (s, Some reply) \<Rightarrow>
                          (let (s, m0) = s_publication s 0 (now + 10000);
                               (s, m1) = s_publication s 1 (now + 10000);
                               ok = reads_back b (Some reply) \<and> reads_back b m0 \<and> reads_back b m1;
                               s = end_run s
                           in ok \<and> \<not> lease_active s \<and> epoch s = 2))))"

section \<open>The service under the server\<close>

lemma emits_step:
  assumes "service_wf s" and "service_step s e = Some (s', r)"
  shows "service_wf s' \<and> same_settings s s' \<and> (\<forall>m. r = Some m \<longrightarrow> emits s m)"
  using step_wf [OF assms] step_settings [OF assms] by simp

text \<open>What every part of an iteration keeps: three sockets, a well-formed service with its
  settings, and only emitted messages in the queues.\<close>

definition task_wf :: "bench_task \<Rightarrow> bool" where
  "task_wf t \<longleftrightarrow> service_wf (svc t) \<and> length (sockets t) = 3 \<and>
    (\<forall>q \<in> set (sockets t). \<forall>m \<in> set (queued q). emits (svc t) m)"

definition keeps :: "bench_task \<Rightarrow> bench_task \<Rightarrow> bool" where
  "keeps t t' \<longleftrightarrow> (task_wf t \<longrightarrow> task_wf t' \<and> same_settings (svc t) (svc t'))"

lemma keeps_refl [simp]: "keeps t t"
  by (simp add: keeps_def same_settings_def)

lemma keepsI: "(task_wf t \<Longrightarrow> keeps t t') \<Longrightarrow> keeps t t'"
  by (auto simp: keeps_def)

lemma keeps_trans: "keeps t t' \<Longrightarrow> keeps t' t'' \<Longrightarrow> keeps t t''"
  by (auto simp: keeps_def same_settings_def)

lemma keeps_service:
  assumes "service_step (svc t) e = Some (s, r)"
  shows "keeps t (t\<lparr>svc := s\<rparr>)"
  using emits_step [OF _ assms] emits_settings by (fastforce simp: keeps_def task_wf_def)

lemma keeps_tick: "keeps t (t\<lparr>svc := tick (svc t) n\<rparr>)"
  by (rule keeps_service [of _ "Tick_At n"]) simp

lemma keeps_end: "keeps t (end_service t)"
  unfolding end_service_def by (rule keeps_service [of _ Network_Lost]) simp

lemma keeps_reject: "keeps t (t\<lparr>svc := reject c (svc t)\<rparr>)"
  by (rule keeps_service [of _ "Unusable c"]) simp

lemma keeps_skip: "keeps t (skip_one t)"
  unfolding skip_one_def by (rule keeps_service [of _ "Skip_Report 1"]) simp

lemma keeps_sockets:
  assumes "length qs = length (sockets t)"
    and "\<And>q m. q \<in> set qs \<Longrightarrow> m \<in> set (queued q) \<Longrightarrow> \<exists>q' \<in> set (sockets t). m \<in> set (queued q')"
  shows "keeps t (t\<lparr>sockets := qs\<rparr>)"
  using assms by (auto simp: keeps_def task_wf_def same_settings_def)

lemma closed_simps [simp]: "queued closed = []" "\<not> is_open closed"
  by (simp_all add: closed_def)

lemma keeps_close: "keeps t (close_all t)"
  by (auto simp: keeps_def task_wf_def close_all_def same_settings_def)

lemma keeps_regenerate: "keeps t (regenerate t)"
  by (auto simp: keeps_def task_wf_def regenerate_def close_all_def same_settings_def)

lemma keeps_other:
  "svc t' = svc t \<Longrightarrow> sockets t' = sockets t \<Longrightarrow> keeps t t'"
  by (auto simp: keeps_def task_wf_def same_settings_def)

lemma set_update: "q \<in> set (xs[i := x]) \<Longrightarrow> q = x \<or> q \<in> set xs"
  using set_update_subset_insert [of xs i x] by auto

lemma keeps_close_one: "keeps t (t\<lparr>sockets := (sockets t)[i := closed]\<rparr>)"
  by (rule keeps_sockets) (auto dest!: set_update)

lemma keeps_reopen: "reopen i ok t = (t', r) \<Longrightarrow> keeps t t'"
  by (auto simp: reopen_def split: if_splits intro!: keeps_sockets dest!: set_update)

lemma keeps_reopen_all: "reopen_all ok is t = (t', r) \<Longrightarrow> keeps t t'"
proof (induction "is" arbitrary: t)
  case (Cons i "is")
  obtain t1 r1 where o: "reopen i (ok i) t = (t1, r1)" by (cases "reopen i (ok i) t")
  show ?case
  proof (cases r1)
    case True
    then show ?thesis
      using Cons.prems o by (intro keeps_trans [OF keeps_reopen [OF o] Cons.IH]) simp
  qed (use Cons.prems o keeps_reopen [OF o] in simp)
qed simp

lemma keeps_enqueue:
  assumes "task_wf t \<Longrightarrow> emits (svc t) m"
  shows "keeps t (enqueue i m t)"
proof (cases "i < length (sockets t)")
  case True
  then have "sockets t ! i \<in> set (sockets t)" by simp
  then show ?thesis
    using assms by (auto simp: keeps_def task_wf_def enqueue_def same_settings_def dest!: set_update)
qed (simp add: enqueue_def keeps_other list_update_beyond)

lemma keeps_post:
  assumes "post b e i m t = Some (t', sent)" and "task_wf t \<Longrightarrow> emits (svc t) m"
  shows "keeps t t'"
proof -
  obtain c where c: "counters_sent (s_counters (svc t)) i sent = Some c"
    and t': "t' = (if sent then enqueue i m t else t)\<lparr>svc := (svc t)\<lparr>s_counters := c\<rparr>\<rparr>"
    using assms(1) by (auto simp: post_def Let_def)
  have "keeps t (if sent then enqueue i m t else t)"
    using keeps_enqueue [OF assms(2)] by simp
  moreover have "svc (if sent then enqueue i m t else t) = svc t" by (simp add: enqueue_def)
  then have "service_step (svc (if sent then enqueue i m t else t)) (Send_Report i sent) =
      Some (svc t\<lparr>s_counters := c\<rparr>, None)" using c by simp
  then have "keeps (if sent then enqueue i m t else t) t'" unfolding t' by (rule keeps_service)
  ultimately show ?thesis by (rule keeps_trans)
qed

lemma emits_after: "keeps t t' \<Longrightarrow> task_wf t \<Longrightarrow> emits (svc t) m \<Longrightarrow> emits (svc t') m"
  using emits_settings by (auto simp: keeps_def)

lemma keeps_serve:
  assumes "serve_request b e request p t = Some (t', go)"
  shows "keeps t t'"
proof -
  obtain s reply where h: "handle (svc t) request p (handle_time e) = (s, reply)"
    by (cases "handle (svc t) request p (handle_time e)")
  have step: "service_step (svc t) (Received request p (handle_time e)) = Some (s, reply)" using h by simp
  obtain t2 r where o: "reopen 0 (bind_ok e 1 0) (regenerate (t\<lparr>svc := s\<rparr>)) = (t2, r)"
    by (cases "reopen 0 (bind_ok e 1 0) (regenerate (t\<lparr>svc := s\<rparr>))")
  have k2: "keeps t t2"
    by (rule keeps_trans [OF keeps_trans [OF keeps_service [OF step] keeps_regenerate] keeps_reopen [OF o]])
  let ?t3 = "t2\<lparr>svc := tick (svc t2) (reply_time e)\<rparr>"
  have k3: "keeps t ?t3" by (rule keeps_trans [OF k2 keeps_tick])
  show ?thesis
  proof (cases "r \<and> reply \<noteq> None")
    case False
    then show ?thesis
      using assms h o k2 keeps_trans [OF k2 keeps_end]
      by (cases reply) (auto simp: serve_request_def Let_def split: if_splits bool.splits)
  next
    case True
    then obtain m where m: "reply = Some m" by auto
    have "emits (svc ?t3) m" if "task_wf t"
      using emits_after [OF k3 that] emits_step [OF _ step] that m by (auto simp: task_wf_def)
    then have "keeps t t4" if "post b e 0 m ?t3 = Some (t4, sent)" for t4 sent
      using keeps_post [OF that] k3 by (auto simp: keeps_def same_settings_def)
    then show ?thesis
      using assms h o True m k3
      by (auto simp: serve_request_def Let_def split: if_splits)
  qed
qed

lemma keeps_receive:
  assumes "bench_receive b e t = Some (t', go)"
  shows "keeps t t'"
  using assms keeps_serve
  by (auto simp: bench_receive_def keeps_reject split: reception.splits if_splits option.splits sum.splits)

lemma keeps_replace: "replace_unsent e i t = (t', r) \<Longrightarrow> keeps t t'"
  using keeps_trans [OF keeps_trans [OF keeps_skip keeps_close_one [of "skip_one t" i]] keeps_reopen]
  by (auto simp: replace_unsent_def skip_one_def split: if_splits)

lemma keeps_publish:
  assumes "publish_message b e i m t = Some (t', go)" and "task_wf t \<Longrightarrow> emits (svc t) m"
  shows "keeps t t'"
proof -
  obtain t1 r where o: "replace_unsent e (i + 1) t = (t1, r)" by (cases "replace_unsent e (i + 1) t")
  have k1: "keeps t t1" by (rule keeps_replace [OF o])
  let ?t2 = "t1\<lparr>svc := tick (svc t1) (publish_time e i)\<rparr>"
  have k2: "keeps t ?t2" by (rule keeps_trans [OF k1 keeps_tick])
  have "emits (svc ?t2) m" if "task_wf t"
    by (rule emits_after [OF k2 that assms(2) [OF that]])
  then have k3: "keeps t t3" if "post b e (i + 1) m ?t2 = Some (t3, sent)" for t3 sent
    using keeps_post [OF that] k2 by (auto simp: keeps_def same_settings_def)
  show ?thesis
    using assms(1) o k2 k3 keeps_trans [OF k3 keeps_skip] keeps_trans [OF k1 keeps_end]
    by (cases r) (auto simp: publish_message_def Let_def split: if_splits)
qed

lemma keeps_stream:
  assumes "publish_stream b e i t = Some (t', go)"
  shows "keeps t t'"
proof -
  obtain t1 r where o: "reopen (i + 1) (bind_ok e 2 (i + 1)) t = (t1, r)"
    by (cases "reopen (i + 1) (bind_ok e 2 (i + 1)) t")
  have k1: "keeps t t1" by (rule keeps_reopen [OF o])
  obtain s m where p: "s_publication (svc t1) i (poll_time e i) = (s, m)"
    by (cases "s_publication (svc t1) i (poll_time e i)")
  then have step: "service_step (svc t1) (Poll_Stream i (poll_time e i)) = Some (s, m)" by simp
  have k2: "keeps t (t1\<lparr>svc := s\<rparr>)" by (rule keeps_trans [OF k1 keeps_service [OF step]])
  show ?thesis
  proof (cases "r \<and> m \<noteq> None")
    case False
    then show ?thesis
      using assms o p k2 keeps_trans [OF k1 keeps_end]
      by (cases m) (auto simp: publish_stream_def split: bool.splits)
  next
    case True
    then obtain x where m: "m = Some x" by auto
    show ?thesis
    proof (rule keepsI)
      assume "task_wf t"
      then have "task_wf t1" using k1 by (simp add: keeps_def)
      then have "emits s x"
        using emits_step [OF _ step] emits_settings m by (auto simp: task_wf_def)
      then show "keeps t t'"
        using assms o p True m keeps_trans [OF k2 keeps_publish]
        by (auto simp: publish_stream_def)
    qed
  qed
qed

lemma keeps_streams: "publish_streams b e is t = Some t' \<Longrightarrow> keeps t t'"
proof (induction "is" arbitrary: t)
  case (Cons i "is")
  obtain t1 go where o: "publish_stream b e i t = Some (t1, go)"
    using Cons.prems by (auto split: option.splits)
  show ?case
  proof (cases go)
    case True
    then show ?thesis
      using Cons.prems o by (intro keeps_trans [OF keeps_stream [OF o] Cons.IH]) simp
  qed (use Cons.prems o keeps_stream [OF o] in simp)
qed simp

lemma keeps_if: "keeps t a \<Longrightarrow> keeps t c \<Longrightarrow> keeps t (if b then a else c)"
  by simp

lemma keeps_check: "keeps t (check_network e t)"
proof -
  have "keeps t1 ((close_all (end_service t1))\<lparr>previous_config := c\<rparr>)" for t1 c
    by (rule keeps_trans [OF keeps_trans [OF keeps_end keeps_close] keeps_other]) simp_all
  then show ?thesis
    unfolding check_network_def Let_def
    by (intro keeps_trans [OF keeps_tick [of t "tick_time e"] keeps_trans [OF _ keeps_regenerate]] keeps_if)
      simp_all
qed

lemma keeps_iteration:
  assumes "bench_iteration b e t = Some t'"
  shows "keeps t t'"
proof -
  let ?t1 = "check_network e t"
  obtain t2 r where o: "reopen_all (bind_ok e 0) [0, 1, 2] ?t1 = (t2, r)"
    by (cases "reopen_all (bind_ok e 0) [0, 1, 2] ?t1")
  have k2: "keeps t t2" by (rule keeps_trans [OF keeps_check keeps_reopen_all [OF o]])
  have stop: "keeps t ((close_all (end_service t2))\<lparr>stopped := True\<rparr>)"
    by (rule keeps_trans [OF k2 keeps_trans [OF keeps_trans [OF keeps_end keeps_close] keeps_other]]) simp_all
  have rec: "keeps t t3" if "bench_receive b e t2 = Some (t3, go)" for t3 go
    by (rule keeps_trans [OF k2 keeps_receive [OF that]])
  have pub: "keeps t (regenerate t4)"
    if "bench_receive b e t2 = Some (t3, go)" "publish_streams b e [0, 1] (regenerate t3) = Some t4" for t3 t4 go
    by (rule keeps_trans [OF rec [OF that(1)]
        keeps_trans [OF keeps_trans [OF keeps_regenerate keeps_streams [OF that(2)]] keeps_regenerate]])
  show ?thesis
    using assms o k2 stop rec pub keeps_check [of t e]
    by (cases r)
      (auto simp: bench_iteration_def Let_def simp del: publish_streams.simps reopen_all.simps
        split: if_splits option.splits bool.splits)
qed

section \<open>An iteration never panics\<close>

lemma keepsD: "keeps t t' \<Longrightarrow> task_wf t \<Longrightarrow> task_wf t'"
  by (simp add: keeps_def)

lemma post_total: "task_wf t \<Longrightarrow> i < 3 \<Longrightarrow> post b e i m t \<noteq> None"
  using counters_sent_total [of i "s_counters (svc t)" "can_encode b m \<and> send_ok e i"]
  by (simp add: post_def Let_def task_wf_def service_wf_def) blast

lemma serve_total:
  assumes "task_wf t"
  shows "serve_request b e request p t \<noteq> None"
proof -
  obtain s reply where h: "handle (svc t) request p (handle_time e) = (s, reply)"
    by (cases "handle (svc t) request p (handle_time e)")
  then have step: "service_step (svc t) (Received request p (handle_time e)) = Some (s, reply)" by simp
  obtain t2 r where o: "reopen 0 (bind_ok e 1 0) (regenerate (t\<lparr>svc := s\<rparr>)) = (t2, r)"
    by (cases "reopen 0 (bind_ok e 1 0) (regenerate (t\<lparr>svc := s\<rparr>))")
  have "task_wf (t2\<lparr>svc := tick (svc t2) (reply_time e)\<rparr>)"
    using assms keeps_trans [OF keeps_trans [OF keeps_trans [OF keeps_service [OF step] keeps_regenerate]
          keeps_reopen [OF o]] keeps_tick] by (rule keepsD [rotated])
  then show ?thesis
    using h o post_total [of "t2\<lparr>svc := tick (svc t2) (reply_time e)\<rparr>" 0 b e]
    by (auto simp: serve_request_def Let_def split: option.split bool.split)
qed

lemma receive_total: "task_wf t \<Longrightarrow> bench_receive b e t \<noteq> None"
  using serve_total by (auto simp: bench_receive_def split: reception.split option.split sum.split)

lemma publish_total:
  assumes "task_wf t" and "i < 2"
  shows "publish_message b e i m t \<noteq> None"
proof -
  obtain t1 r where o: "replace_unsent e (i + 1) t = (t1, r)" by (cases "replace_unsent e (i + 1) t")
  have "task_wf (t1\<lparr>svc := tick (svc t1) (publish_time e i)\<rparr>)"
    by (rule keepsD [OF keeps_trans [OF keeps_replace [OF o] keeps_tick] assms(1)])
  then show ?thesis
    using o post_total [of "t1\<lparr>svc := tick (svc t1) (publish_time e i)\<rparr>" "i + 1" b e m] assms(2)
    by (auto simp: publish_message_def Let_def split: bool.split)
qed

lemma stream_total:
  assumes "task_wf t" and "i < 2"
  shows "publish_stream b e i t \<noteq> None"
proof -
  obtain t1 r where o: "reopen (i + 1) (bind_ok e 2 (i + 1)) t = (t1, r)"
    by (cases "reopen (i + 1) (bind_ok e 2 (i + 1)) t")
  obtain s m where p: "s_publication (svc t1) i (poll_time e i) = (s, m)"
    by (cases "s_publication (svc t1) i (poll_time e i)")
  then have step: "service_step (svc t1) (Poll_Stream i (poll_time e i)) = Some (s, m)" by simp
  have "task_wf (t1\<lparr>svc := s\<rparr>)"
    by (rule keepsD [OF keeps_trans [OF keeps_reopen [OF o] keeps_service [OF step]] assms(1)])
  then show ?thesis
    using o p publish_total [OF _ assms(2)]
    by (auto simp: publish_stream_def split: option.split bool.split)
qed

lemma streams_total: "task_wf t \<Longrightarrow> \<forall>i \<in> set is. i < 2 \<Longrightarrow> publish_streams b e is t \<noteq> None"
proof (induction "is" arbitrary: t)
  case (Cons i "is")
  obtain t1 go where o: "publish_stream b e i t = Some (t1, go)"
    using stream_total [OF Cons.prems(1), of i b e] Cons.prems(2) by auto
  then show ?case
    using Cons.IH [OF keepsD [OF keeps_stream [OF o] Cons.prems(1)]] Cons.prems(2) by (cases go) simp_all
qed simp

lemma iteration_total:
  assumes "task_wf t"
  shows "bench_iteration b e t \<noteq> None"
proof -
  let ?t1 = "check_network e t"
  obtain t2 r where o: "reopen_all (bind_ok e 0) [0, 1, 2] ?t1 = (t2, r)"
    by (cases "reopen_all (bind_ok e 0) [0, 1, 2] ?t1")
  have k2: "task_wf t2" by (rule keepsD [OF keeps_trans [OF keeps_check keeps_reopen_all [OF o]] assms])
  then obtain t3 go where rec: "bench_receive b e t2 = Some (t3, go)" using receive_total by fastforce
  have "task_wf (regenerate t3)"
    by (rule keepsD [OF keeps_trans [OF keeps_receive [OF rec] keeps_regenerate] k2])
  then have "publish_streams b e [0, 1] (regenerate t3) \<noteq> None" by (rule streams_total) simp
  then show ?thesis
    using o rec by (cases go)
      (auto simp: bench_iteration_def Let_def simp del: publish_streams.simps reopen_all.simps split: bool.split)
qed

section \<open>Nothing of an ended run is sent\<close>

text \<open>A publication or a probe reply that belongs to the run \<open>g\<close>.\<close>

definition belongs :: "u32 \<times> bool \<Rightarrow> nat \<Rightarrow> bench_envelope \<Rightarrow> bool" where
  "belongs g i m \<longleftrightarrow> (i \<noteq> 0 \<or> b_kind m = Some 15 \<longrightarrow> snd g \<and> run_epoch m = Some (fst g))"

definition queues_belong :: "u32 \<times> bool \<Rightarrow> bench_task \<Rightarrow> bool" where
  "queues_belong g t \<longleftrightarrow> length (sockets t) = 3 \<and>
    (\<forall>i < 3. \<forall>m \<in> set (queued (sockets t ! i)). belongs g i m)"

text \<open>Within an iteration: the queues belong to the recorded generation, which is the current one
  as long as a run is active.\<close>

definition in_step :: "bench_task \<Rightarrow> bool" where
  "in_step t \<longleftrightarrow> queues_belong (generation t) t \<and> (lease_active (svc t) \<longrightarrow> generation t = current t)"

lemma queues_close [simp]: "queues_belong g (close_all t)"
  by (simp add: queues_belong_def close_all_def)

lemma queues_other [simp]:
  "queues_belong g (t\<lparr>svc := s\<rparr>) = queues_belong g t"
  "queues_belong g (t\<lparr>generation := r\<rparr>) = queues_belong g t"
  "queues_belong g (t\<lparr>previous_config := c\<rparr>) = queues_belong g t"
  "queues_belong g (t\<lparr>stopped := b\<rparr>) = queues_belong g t"
  by (simp_all add: queues_belong_def)

lemma queues_update:
  assumes "queues_belong g t" and "\<And>m. m \<in> set (queued q) \<Longrightarrow> belongs g i m"
  shows "queues_belong g (t\<lparr>sockets := (sockets t)[i := q]\<rparr>)"
  unfolding queues_belong_def
proof (intro conjI allI impI ballI)
  fix j m
  assume "j < 3" and m: "m \<in> set (queued (sockets (t\<lparr>sockets := (sockets t)[i := q]\<rparr>) ! j))"
  then show "belongs g j m"
    using assms by (cases "j = i") (auto simp: queues_belong_def)
qed (use assms(1) in \<open>simp add: queues_belong_def\<close>)

lemma regenerate_current: "queues_belong (generation t) t \<Longrightarrow>
    generation (regenerate t) = current (regenerate t) \<and> queues_belong (current (regenerate t)) (regenerate t)"
  by (auto simp: regenerate_def close_all_def current_def queues_belong_def)

lemma regenerate_in_step: "queues_belong (generation t) t \<Longrightarrow> in_step (regenerate t)"
  using regenerate_current [of t] by (simp add: in_step_def)

lemma tick_keeps_run: "lease_active (tick s now) \<Longrightarrow> lease_active s \<and> epoch (tick s now) = epoch s"
  by (auto simp: tick_stages expired_def regressed_def lease_active_def split: if_splits)

lemma publication_keeps_run:
  assumes "s_publication s i now = (s', r)" and "lease_active s'"
  shows "lease_active s \<and> epoch s' = epoch s"
  using publication_cases [OF assms(1)] assms(2) tick_keeps_run [of s now]
  by (metis (no_types, lifting) lease_active_def service.select_convs(5,7) service.surjective
      service.update_convs(8,12))

lemma queues_reopen: "reopen i ok t = (t', r) \<Longrightarrow> queues_belong g t \<Longrightarrow> queues_belong g t'"
  by (auto simp: reopen_def split: if_splits intro!: queues_update)

lemma reopen_other: "reopen i ok t = (t', r) \<Longrightarrow> svc t' = svc t \<and> generation t' = generation t"
  by (auto simp: reopen_def split: if_splits)

lemma current_eq: "svc t' = svc t \<Longrightarrow> current t' = current t"
  by (simp add: current_def)

lemma in_step_reopen:
  assumes "reopen i ok t = (t', r)" and "in_step t"
  shows "in_step t'"
  using assms(2) queues_reopen [OF assms(1)] reopen_other [OF assms(1)] current_eq [of t' t]
  unfolding in_step_def by metis

lemma in_step_service:
  assumes "in_step t" and "lease_active s \<Longrightarrow> lease_active (svc t) \<and> epoch s = epoch (svc t)"
  shows "in_step (t\<lparr>svc := s\<rparr>)"
  using assms by (cases "lease_active s") (auto simp: in_step_def current_def)

lemma in_step_end: "in_step t \<Longrightarrow> in_step (end_service t)"
  unfolding end_service_def by (rule in_step_service) (simp_all add: lease_active_def)

lemma in_step_tick: "in_step t \<Longrightarrow> in_step (t\<lparr>svc := tick (svc t) n\<rparr>)"
  by (rule in_step_service) (use tick_keeps_run in simp_all)

lemma in_step_counters: "in_step t \<Longrightarrow> in_step (t\<lparr>svc := (svc t)\<lparr>s_counters := c\<rparr>\<rparr>)"
  by (rule in_step_service) (simp_all add: lease_active_def)

lemma in_step_skip: "in_step t \<Longrightarrow> in_step (skip_one t)"
  unfolding skip_one_def by (rule in_step_counters)

lemma in_step_post:
  assumes "post b e i m t = Some (t', sent)" and "in_step t" and "belongs (generation t) i m" and "i < 3"
  shows "in_step t'"
proof -
  obtain c where t': "t' = (if sent then enqueue i m t else t)\<lparr>svc := (svc t)\<lparr>s_counters := c\<rparr>\<rparr>"
    using assms(1) by (auto simp: post_def Let_def)
  let ?t = "if sent then enqueue i m t else t"
  have "queues_belong (generation t) (enqueue i m t)"
    unfolding enqueue_def
  proof (rule queues_update)
    show "queues_belong (generation t) t" using assms(2) by (simp add: in_step_def)
    fix x
    assume "x \<in> set (queued ((sockets t ! i)\<lparr>queued := queued (sockets t ! i) @ [m]\<rparr>))"
    then show "belongs (generation t) i x"
      using assms(2-4) by (auto simp: in_step_def queues_belong_def)
  qed
  then have "in_step ?t"
    using assms(2) by (simp add: in_step_def enqueue_def current_def)
  then have "in_step (?t\<lparr>svc := (svc ?t)\<lparr>s_counters := c\<rparr>\<rparr>)" by (rule in_step_counters)
  moreover have "svc ?t = svc t" by (simp add: enqueue_def)
  ultimately show ?thesis unfolding t' by simp
qed

text \<open>The recorded generation belongs to a running service: what may be queued then.\<close>

lemma in_step_belongs:
  assumes "in_step t" and "i \<noteq> 0 \<or> b_kind m = Some 15 \<Longrightarrow> lease_active (svc t) \<and> run_epoch m = Some (epoch (svc t))"
  shows "belongs (generation t) i m"
  using assms by (auto simp: in_step_def belongs_def current_def)

lemma in_step_replace:
  assumes "replace_unsent e i t = (t', r)" and "in_step t"
  shows "in_step t'"
proof -
  have "in_step ((skip_one t)\<lparr>sockets := (sockets t)[i := closed]\<rparr>)"
    using in_step_skip [OF assms(2)] queues_update [of "generation t" "skip_one t" closed i]
    by (simp add: in_step_def current_def skip_one_def)
  then show ?thesis
    using assms in_step_reopen by (auto simp: replace_unsent_def split: if_splits)
qed

lemma in_step_publish:
  assumes "publish_message b e i m t = Some (t', go)" and "in_step t" and "i < 2"
  shows "in_step t'"
proof -
  obtain t1 r where o: "replace_unsent e (i + 1) t = (t1, r)" by (cases "replace_unsent e (i + 1) t")
  have s1: "in_step t1" by (rule in_step_replace [OF o assms(2)])
  let ?t2 = "t1\<lparr>svc := tick (svc t1) (publish_time e i)\<rparr>"
  have s2: "in_step ?t2" by (rule in_step_tick [OF s1])
  have s3: "in_step t3"
    if "post b e (i + 1) m ?t2 = Some (t3, sent)" "lease_active (svc ?t2)" "run_epoch m = Some (epoch (svc ?t2))"
    for t3 sent
    by (rule in_step_post [OF that(1) s2 in_step_belongs [OF s2]]) (use that assms(3) in auto)
  show ?thesis
    using assms(1) o s2 s3 in_step_skip [OF s3] in_step_end [OF s1]
    by (cases r) (auto simp: publish_message_def Let_def split: if_splits)
qed

lemma in_step_stream:
  assumes "publish_stream b e i t = Some (t', go)" and "in_step t" and "i < 2"
  shows "in_step t'"
proof -
  obtain t1 r where o: "reopen (i + 1) (bind_ok e 2 (i + 1)) t = (t1, r)"
    by (cases "reopen (i + 1) (bind_ok e 2 (i + 1)) t")
  have s1: "in_step t1" by (rule in_step_reopen [OF o assms(2)])
  obtain s m where p: "s_publication (svc t1) i (poll_time e i) = (s, m)"
    by (cases "s_publication (svc t1) i (poll_time e i)")
  have s2: "in_step (t1\<lparr>svc := s\<rparr>)"
    by (rule in_step_service [OF s1 publication_keeps_run [OF p]])
  show ?thesis
    using assms(1) o p s2 in_step_end [OF s1] in_step_publish [OF _ s2 assms(3)]
    by (cases r; cases m) (auto simp: publish_stream_def)
qed

lemma in_step_streams:
  "publish_streams b e is t = Some t' \<Longrightarrow> in_step t \<Longrightarrow> \<forall>i \<in> set is. i < 2 \<Longrightarrow> in_step t'"
proof (induction "is" arbitrary: t)
  case (Cons i "is")
  obtain t1 go where o: "publish_stream b e i t = Some (t1, go)"
    using Cons.prems by (auto split: option.splits)
  have "in_step t1" by (rule in_step_stream [OF o Cons.prems(2)]) (use Cons.prems(3) in simp)
  then show ?case
    using Cons.prems o Cons.IH by (cases go) simp_all
qed simp

lemma reject_run: "lease_held (reject c s) = lease_held s" "epoch (reject c s) = epoch s"
  by (simp_all add: reject_def Let_def)

lemma serve_in_step:
  assumes "serve_request b e request p t = Some (t', go)" and "in_step t" and "is_open (sockets t ! 0)"
  shows "if go then in_step t' else queues_belong g t' \<and> \<not> lease_active (svc t')"
proof -
  obtain s reply where h: "handle (svc t) request p (handle_time e) = (s, reply)"
    by (cases "handle (svc t) request p (handle_time e)")
  let ?t1 = "regenerate (t\<lparr>svc := s\<rparr>)"
  have s1: "in_step ?t1" by (rule regenerate_in_step) (use assms(2) in \<open>simp add: in_step_def\<close>)
  obtain t2 r where o: "reopen 0 (bind_ok e 1 0) ?t1 = (t2, r)" by (cases "reopen 0 (bind_ok e 1 0) ?t1")
  show ?thesis
  proof (cases r)
    case False
    then have t2: "t2 = ?t1" "\<not> is_open (sockets ?t1 ! 0)"
      using o by (auto simp: reopen_def split: if_splits)
    then have "queues_belong g ?t1"
      using assms(3) by (auto simp: regenerate_def split: if_splits)
    then show ?thesis
      using assms(1) h o False t2 by (auto simp: serve_request_def Let_def end_service_def lease_active_def)
  next
    case True
    have s2: "in_step t2" by (rule in_step_reopen [OF o s1])
    let ?t3 = "t2\<lparr>svc := tick (svc t2) (reply_time e)\<rparr>"
    have s3: "in_step ?t3" by (rule in_step_tick [OF s2])
    have "in_step t4"
      if "post b e 0 m ?t3 = Some (t4, sent)"
        "b_kind m \<noteq> Some 15 \<or> run_epoch m = Some (epoch (svc ?t3)) \<and> lease_active (svc ?t3)" for m t4 sent
      by (rule in_step_post [OF that(1) s3 in_step_belongs [OF s3]]) (use that(2) in auto)
    then show ?thesis
      using assms(1) h o True s2 s3
      by (cases reply) (auto simp: serve_request_def Let_def split: if_splits)
  qed
qed

lemma receive_in_step:
  assumes "bench_receive b e t = Some (t', go)" and "in_step t" and "is_open (sockets t ! 0)"
  shows "if go then in_step t' else queues_belong g t' \<and> \<not> lease_active (svc t')"
proof -
  have "in_step (t\<lparr>svc := reject c (svc t)\<rparr>)" for c
    using reject_run [of c "svc t"] by (intro in_step_service [OF assms(2)]) (simp_all add: lease_active_def)
  moreover have "in_step x" if "serve_request b e m p t = Some (x, True)" for x m p
    using serve_in_step [OF that assms(2,3)] by simp
  moreover have "queues_belong g x \<and> \<not> lease_active (svc x)" if "serve_request b e m p t = Some (x, False)" for x m p
    using serve_in_step [OF that assms(2,3)] by simp
  ultimately show ?thesis
    using assms
    by (cases "arrival e"; cases go)
      (auto simp: bench_receive_def split: if_split_asm option.split_asm sum.split_asm)
qed

lemma reopen_all_keeps_step: "reopen_all ok is t = (t', r) \<Longrightarrow> in_step t \<Longrightarrow> in_step t'"
proof (induction "is" arbitrary: t)
  case (Cons i "is")
  obtain t1 r1 where o: "reopen i (ok i) t = (t1, r1)" by (cases "reopen i (ok i) t")
  then show ?case
    using Cons in_step_reopen [OF o] by (cases r1) auto
qed simp

lemma reopen_all_open:
  assumes "reopen_all ok [0, 1, 2] t = (t', True)" and "length (sockets t) = 3"
  shows "is_open (sockets t' ! 0)"
  using assms by (auto simp: reopen_def numeral_eq_Suc split: if_splits)

lemma check_network_in_step:
  assumes "in_step t"
  shows "in_step (check_network e t) \<and> generation (check_network e t) = current (check_network e t)"
proof -
  let ?t = "t\<lparr>svc := tick (svc t) (tick_time e)\<rparr>"
  have "queues_belong (generation ?t) ?t" using assms by (simp add: in_step_def)
  moreover have "queues_belong g ((close_all (end_service ?t))\<lparr>previous_config := c\<rparr>)" for g c by simp
  ultimately have "queues_belong (generation t1) t1"
    if "t1 = (if \<not> (link e \<and> stack_config e \<noteq> None) \<or> stack_config e \<noteq> previous_config ?t
      then (close_all (end_service ?t))\<lparr>previous_config := stack_config e\<rparr> else ?t)" for t1
    using that by (simp split: if_split_asm)
  then show ?thesis
    unfolding check_network_def Let_def using regenerate_in_step regenerate_current by blast
qed

text \<open>Whenever the network stack runs, the queues hold only what belongs to the current run.\<close>

definition purged :: "bench_task \<Rightarrow> bool" where
  "purged t \<longleftrightarrow> in_step t \<and> queues_belong (current t) t"

lemma iteration_purged:
  assumes "bench_iteration b e t = Some t'" and "task_wf t" and "purged t"
  shows "purged t'"
proof -
  let ?t1 = "check_network e t"
  have s1: "in_step ?t1" "generation ?t1 = current ?t1" "task_wf ?t1"
    using check_network_in_step [of t e] assms(3) keepsD [OF keeps_check assms(2)] by (auto simp: purged_def)
  have p1: "purged ?t1" using s1 by (simp add: purged_def in_step_def)
  obtain t2 r where o: "reopen_all (bind_ok e 0) [0, 1, 2] ?t1 = (t2, r)"
    by (cases "reopen_all (bind_ok e 0) [0, 1, 2] ?t1")
  have s2: "in_step t2" by (rule reopen_all_keeps_step [OF o s1(1)])
  have stop: "purged ((close_all (end_service t2))\<lparr>stopped := True\<rparr>)"
    by (simp add: purged_def in_step_def end_service_def close_all_def lease_active_def queues_belong_def)
  have rec: "if go then in_step t3 else purged t3" if "bench_receive b e t2 = Some (t3, go)" r for t3 go
  proof -
    have open0: "is_open (sockets t2 ! 0)"
      using reopen_all_open [of "bind_ok e 0" ?t1 t2] o that(2) s1(3) by (simp add: task_wf_def)
    show ?thesis
      using receive_in_step [OF that(1) s2 open0] by (cases go) (simp_all add: purged_def in_step_def)
  qed
  have pub: "purged (regenerate t4)"
    if "in_step t3" "publish_streams b e [0, 1] (regenerate t3) = Some t4" for t3 t4
  proof -
    have "in_step (regenerate t3)" by (rule regenerate_in_step) (use that(1) in \<open>simp add: in_step_def\<close>)
    then have "in_step t4" using in_step_streams [OF that(2)] by simp
    then have "queues_belong (generation t4) t4" by (simp add: in_step_def)
    then show ?thesis
      using regenerate_current [of t4] regenerate_in_step [of t4] by (simp add: purged_def)
  qed
  consider "stopped t" "t' = t" | "t' = ?t1" | "\<not> r" "t' = (close_all (end_service t2))\<lparr>stopped := True\<rparr>"
    | t3 where "r" "bench_receive b e t2 = Some (t3, False)" "t' = t3"
    | t3 t4 where "r" "bench_receive b e t2 = Some (t3, True)"
      "publish_streams b e [0, 1] (regenerate t3) = Some t4" "t' = regenerate t4"
    using assms(1) o
    by (cases r)
      (auto simp: bench_iteration_def Let_def simp del: publish_streams.simps reopen_all.simps
        split: if_splits option.splits bool.splits)
  then show ?thesis
    by cases (use assms(3) p1 stop rec pub in fastforce)+
qed

lemma start_wf: "hex_token boot \<Longrightarrow> task_wf (bench_start b boot t network bound)"
  using service_new_wf [of DEVICE_ID boot "b_wire b" "b_crc_mode b" t] device_name_DEVICE_ID
  by (auto simp: task_wf_def bench_start_def boot_service_def Let_def DEVICE_ID_def split: if_splits)

lemma start_purged: "purged (bench_start b boot t network bound)"
  by (simp add: purged_def in_step_def bench_start_def current_def queues_belong_def Let_def)

lemma drains_keeps:
  assumes "drains t t'"
  shows "keeps t t' \<and> (purged t \<longrightarrow> purged t')"
proof -
  obtain qs where t': "t' = t\<lparr>sockets := qs\<rparr>" and len: "length qs = length (sockets t)"
    and sub: "\<And>i. i < length qs \<Longrightarrow> set (queued (qs ! i)) \<subseteq> set (queued (sockets t ! i))"
    using assms by (auto simp: drains_def list_all2_conv_all_nth)
  have "keeps t t'"
    unfolding t'
  proof (rule keeps_sockets [OF len])
    fix q m
    assume "q \<in> set qs" and m: "m \<in> set (queued q)"
    then obtain i where "i < length qs" "q = qs ! i" by (auto simp: in_set_conv_nth)
    then show "\<exists>q' \<in> set (sockets t). m \<in> set (queued q')"
      using sub [of i] m len by (intro bexI [of _ "sockets t ! i"]) auto
  qed
  moreover have "queues_belong g t'" if "queues_belong g t" for g
    using that len sub by (auto simp: queues_belong_def t')
  ultimately show ?thesis by (auto simp: purged_def in_step_def t' current_def)
qed

lemma bench_run_wf:
  assumes "bench_run b t0 t" and "task_wf t0" and "purged t0"
  shows "task_wf t \<and> purged t \<and> same_settings (svc t0) (svc t)"
  using assms
proof (induction rule: bench_run.induct)
  case bench_none
  then show ?case by (simp add: same_settings_def)
next
  case (bench_iterate t e t')
  then show ?case
    using keeps_iteration [of b e t t'] iteration_purged [of b e t t'] by (auto simp: keeps_def same_settings_def)
next
  case (bench_drain t t')
  then show ?case using drains_keeps [of t t'] by (auto simp: keeps_def same_settings_def)
qed

section \<open>Properties\<close>

text \<open>C15: whatever the network does, an iteration of the benchmark task never panics, and every
  datagram that any run of the task queues encodes a message that passes the validation
  of the protocol and carries the identity of this boot.\<close>
theorem bench_server_sends_valid_messages:
  assumes "hex_token boot" and "bench_run b (bench_start b boot t0 network bound) t"
  shows "bench_iteration b e t \<noteq> None \<and>
    (\<forall>q \<in> set (sockets t). \<forall>m \<in> set (queued q). bench_validate m (b_wire b) (b_crc_mode b) = Inr () \<and>
      b_device_id m = Some DEVICE_ID \<and> b_boot_id m = Some boot)"
proof -
  let ?t0 = "bench_start b boot t0 network bound"
  have wf: "task_wf t" "same_settings (svc ?t0) (svc t)"
    using bench_run_wf [OF assms(2) start_wf [OF assms(1)] start_purged] by auto
  then have "emits (svc ?t0) m" if "q \<in> set (sockets t)" "m \<in> set (queued q)" for q m
    using emits_settings that by (auto simp: task_wf_def)
  then show ?thesis
    using iteration_total [OF wf(1)]
    by (auto simp: emits_def bench_start_def boot_service_def service_new_def Let_def)
qed

text \<open>C16: whenever the network stack may send, the queues of the status and health sockets hold
  only publications of the run that is active now, and the command socket only probe
  replies of that run: what was queued for a run that ended or expired is dropped.\<close>
theorem stale_datagrams_are_purged:
  assumes "hex_token boot" and "bench_run b (bench_start b boot t0 network bound) t"
    and "i < 3" and "m \<in> set (queued (sockets t ! i))" and "i \<noteq> 0 \<or> b_kind m = Some 15"
  shows "lease_active (svc t) \<and> run_epoch m = Some (epoch (svc t))"
proof -
  have "purged t"
    using bench_run_wf [OF assms(2) start_wf [OF assms(1)] start_purged] by simp
  then show ?thesis
    using assms(3-5) by (auto simp: purged_def queues_belong_def belongs_def current_def)
qed

section \<open>A sample run\<close>

text \<open>One iteration: a client configures the device, and the first status is published.\<close>

definition sample_bench :: "unit bench_build" where
  "sample_bench = \<lparr>b_lib = one_message_lib sample_configure, b_checksum = crc32c_reference, b_wire = Json,
    b_crc_mode = Off\<rparr>"

definition sample_net :: net_config where
  "sample_net = (((192, 168, 1, 9), 24), None)"

definition sample_answers :: net_answers where
  "sample_answers = \<lparr>tick_time = 4000, link = True, stack_config = Some sample_net, bind_ok = (\<lambda>_ _. True),
    arrival = Arrived (Some (192, 168, 1, 9)) (Some sample_peer) (lit ''{}''), handle_time = 5000,
    reply_time = 5000, poll_time = (\<lambda>_. 6000), publish_time = (\<lambda>_. 6000), drained = (\<lambda>_. True),
    send_ok = (\<lambda>i. i = 1)\<rparr>"

definition sample_start :: bench_task where
  "sample_start = bench_start sample_bench (lit ''123456789abcdef0'') 0 (Some sample_net) True"

lemma bench_sample_decode:
  "bench_decode (b_lib sample_bench) (b_checksum sample_bench) (b_wire sample_bench) (b_crc_mode sample_bench)
    (lit ''{}'') = Inr sample_configure"
proof -
  have "bench_validate sample_configure Json Off = Inr ()"
    using sample_names
    by (simp add: message_simps sample_configure_def validate_configure_iff sample_configuration_def)
  then show ?thesis
    by (simp add: sample_bench_def bench_decode_def receive_frame_def open_frame_Off MAX_BODY_def bench_decode_body_def
        bench_parse_def json_parse_def one_message_lib_def bench_normalize_def)
      (simp add: sample_configure_def bench_default_def)
qed

lemma sample_first: "svc sample_start = service_new (lit ''board-01'') (lit ''123456789abcdef0'') Json Off 0"
  by (simp add: sample_start_def bench_start_def boot_service_def sample_bench_def DEVICE_ID_def Let_def)

definition sample_granted :: service where
  "sample_granted = (granted_state (tick (tick (svc sample_start) 4000) 5000) sample_peer sample_session
    sample_configuration sample_control 5000)\<lparr>tokens := 9\<rparr>"

lemma sample_ticks: "lease_held (tick (tick (svc sample_start) 4000) 5000) = None"
  "exhausted (tick (tick (svc sample_start) 4000) 5000) = False"
  "epoch (tick (tick (svc sample_start) 4000) 5000) = 1" "tokens (tick (tick (svc sample_start) 4000) 5000) = 10"
  "token_time (tick (tick (svc sample_start) 4000) 5000) = 0"
  by (simp_all add: sample_first tick_stages refilled_def expired_def regressed_def service_new_def
      Let_def sat_sub_def)

lemma sample_admitted: "admits (tick (tick (svc sample_start) 4000) 5000) sample_configure"
  using sample_names
  by (simp add: sample_first admits_def is_ok_unit sample_configure_def service_new_def message_simps
      validate_configure_iff sample_configuration_def)

lemma sample_handle:
  "\<exists>reply. handle (tick (svc sample_start) 4000) sample_configure sample_peer 5000 = (sample_granted, Some reply)
    \<and> b_kind reply = Some 12"
proof -
  let ?s = "tick (tick (svc sample_start) 4000) 5000"
  let ?g = "granted_state ?s sample_peer sample_session sample_configuration sample_control 5000"
  have "control_result_of ?s sample_configure sample_peer sample_session sample_control 5000 = (?g, Some 1)"
    using apply_start [of sample_control sample_configuration] sample_configuration_valid sample_ticks
    by (simp add: control_result_of_def lease_active_def owns_def sample_control_def sample_configure_def)
  moreover have "tokens ?g = 10"
    by (simp add: granted_state_def count_received_def sample_ticks)
  ultimately show ?thesis
    using sample_admitted
    by (simp add: handle_def answer_control_def pay_reply_def sample_control_def i32_between_def
        Let_def sample_fields sample_granted_def control_reply_def s_base_def)
qed

lemma sample_granted_fields:
  "lease_held sample_granted = Some (granted_lease sample_peer sample_session sample_configuration sample_control 5000)"
  "epoch sample_granted = 1" "last_time sample_granted = 5000"
  "streams sample_granted = [stream_at 5000 1000, stream_at 5000 0]" "length (active (s_counters sample_granted)) = 3"
  "s_format sample_granted = s_format (svc sample_start)" "s_crc sample_granted = s_crc (svc sample_start)"
  by (simp_all add: sample_granted_def granted_state_def sample_configuration_def count_received_def sample_ticks
      counters_new_def)

lemma sample_granted_wf: "service_wf sample_granted"
proof -
  have "service_wf (svc sample_start)"
    using start_wf [OF sample_names(3), of sample_bench 0 "Some sample_net" True]
    by (simp add: task_wf_def sample_start_def)
  then have "service_wf (tick (svc sample_start) 4000)" by (rule tick_wf)
  then show ?thesis using sample_handle handle_wf by blast
qed

definition sample_socket :: socket where
  "sample_socket = \<lparr>is_open = True, queued = []\<rparr>"

lemma sample_socket_eq: "\<lparr>is_open = True, queued = []\<rparr> = sample_socket"
  "is_open sample_socket" "queued sample_socket = []" "is_open (sample_socket\<lparr>queued := ms\<rparr>)"
  by (simp_all add: sample_socket_def)

lemma sample_check:
  "check_network sample_answers sample_start = sample_start\<lparr>svc := tick (svc sample_start) 4000\<rparr>"
proof -
  have "lease_held (tick (svc sample_start) 4000) = None" "epoch (tick (svc sample_start) 4000) = 1"
    by (simp_all add: sample_first tick_stages refilled_def expired_def regressed_def service_new_def Let_def sat_sub_def)
  then show ?thesis
    by (simp add: check_network_def Let_def sample_answers_def regenerate_def current_def lease_active_def)
      (simp add: sample_start_def bench_start_def boot_service_def service_new_def Let_def lease_active_def)
qed

text \<open>The service once the lease is granted, up to its counters and budget.\<close>

definition sample_held :: "service \<Rightarrow> bool" where
  "sample_held s \<longleftrightarrow> service_wf s \<and> epoch s = 1 \<and> last_time s \<le> 6000 \<and>
    s_format s = Json \<and> s_crc s = Off \<and>
    lease_held s = Some (granted_lease sample_peer sample_session sample_configuration sample_control 5000)"

lemma sample_held_tick:
  assumes "sample_held s" and "last_time s \<le> n" and "n \<le> 6000"
  shows "sample_held (tick s n) \<and> streams (tick s n) = streams s"
proof -
  have "expiry (granted_lease sample_peer sample_session sample_configuration sample_control 5000) = 2005000"
    by (simp add: granted_lease_def sample_configuration_def sat_add_def)
  moreover have "\<not> (2005000 :: u64) \<le> n" using assms(3) by (simp add: word_le_unat)
  ultimately have "lease_held (tick s n) = lease_held s" "streams (tick s n) = streams s" "epoch (tick s n) = epoch s"
    using assms by (auto simp: tick_stages expired_def regressed_def sample_held_def)
  then show ?thesis using assms tick_wf [of s n] by (simp add: sample_held_def)
qed

lemma sample_receive:
  "\<exists>s. bench_receive sample_bench sample_answers (sample_start\<lparr>svc := tick (svc sample_start) 4000\<rparr>) =
    Some (sample_start\<lparr>svc := s, generation := (1, True), sockets := [sample_socket, closed, closed]\<rparr>, True) \<and>
    sample_held s \<and> streams s = [stream_at 5000 1000, stream_at 5000 0]"
proof -
  obtain reply where h: "handle (tick (svc sample_start) 4000) sample_configure sample_peer 5000 = (sample_granted, Some reply)"
    "b_kind reply = Some 12" using sample_handle by blast
  have held: "sample_held sample_granted"
    by (simp add: sample_held_def sample_granted_wf sample_granted_fields)
      (simp add: sample_first service_new_def)
  let ?s = "tick sample_granted 5000"
  have tick: "sample_held ?s" "streams ?s = [stream_at 5000 1000, stream_at 5000 0]"
    using sample_held_tick [OF held, of 5000] sample_granted_fields by simp_all
  obtain c where c: "counters_sent (s_counters ?s) 0 False = Some c" "length (active c) = length (active (s_counters ?s))"
    using counters_sent_total [of 0 "s_counters ?s" False] sample_granted_fields by auto
  have "sample_held (?s\<lparr>s_counters := c\<rparr>)"
    using tick counters_wf [of ?s c] c(2) sample_granted_fields by (simp add: sample_held_def)
  moreover have "bench_receive sample_bench sample_answers (sample_start\<lparr>svc := tick (svc sample_start) 4000\<rparr>) =
    Some (sample_start\<lparr>svc := ?s\<lparr>s_counters := c\<rparr>, generation := (1, True),
      sockets := [sample_socket, closed, closed]\<rparr>, True)"
    using bench_sample_decode h c(1)
    by (simp add: bench_receive_def sample_answers_def sample_net_def serve_request_def Let_def regenerate_def
        current_def lease_active_def sample_granted_fields close_all_def reopen_def post_def,
        simp add: sample_start_def bench_start_def boot_service_def service_new_def Let_def lease_active_def
        numeral_eq_Suc sample_socket_def, blast)
  ultimately show ?thesis using tick by auto
qed

text \<open>The task between receiving and publishing.\<close>

definition sample_task :: "service \<Rightarrow> socket \<Rightarrow> socket \<Rightarrow> bench_task" where
  "sample_task s q r = sample_start\<lparr>svc := s, generation := (1, True), sockets := [sample_socket, q, r]\<rparr>"

lemma sample_task_simps [simp]:
  "svc (sample_task s q r) = s" "sockets (sample_task s q r) = [sample_socket, q, r]"
  "generation (sample_task s q r) = (1, True)"
  "(sample_task s q r)\<lparr>svc := s'\<rparr> = sample_task s' q r"
  "(sample_task s q r)\<lparr>sockets := [sample_socket, q', r']\<rparr> = sample_task s q' r'"
  by (simp_all add: sample_task_def)

lemma sample_encodes: "emits s m \<Longrightarrow> s_format s = Json \<Longrightarrow> s_crc s = Off \<Longrightarrow> can_encode sample_bench m"
  by (simp add: emits_def can_encode_def sample_bench_def bench_encode_def bench_encode_body_def send_frame_def
      one_message_lib_def MAX_BODY_def Let_def seal_Off)

lemma sample_slot: "poll_stream (stream_at 5000 1000) 6000 =
    (\<lparr>slot_due = 7000, slot_period = 1000, slot_sequence = 1\<rparr>, Some (0, 0))"
  by (simp add: poll_stream_def stream_at_def sat_add_def)

lemma stream_at_idle: "slot_period (stream_at n p) = p"
  by (simp add: stream_at_def)

lemma sample_publication:
  assumes "sample_held s" and "streams s = [stream_at 5000 1000, stream_at 5000 0]"
  shows "\<exists>s' m. s_publication s 0 6000 = (s', Some m) \<and> sample_held s' \<and> emits s m \<and>
    run_epoch m = Some 1 \<and> slot_period (streams s' ! 1) = 0 \<and> same_settings s s'"
proof -
  have t: "sample_held (tick s 6000)" "streams (tick s 6000) = streams s"
    using sample_held_tick [OF assms(1), of 6000] assms(1) by (simp_all add: sample_held_def)
  obtain x where x: "expected_payload sample_configuration 0 = Some (Some x)"
    by (simp add: expected_payload_def sample_configuration_def pattern_def)
  obtain s' m where p: "s_publication s 0 6000 = (s', Some m)" "run_epoch m = Some 1"
    "lease_held s' = lease_held (tick s 6000)" "epoch s' = 1" "slot_period (streams s' ! 1) = 0"
    using t assms(2) x
    by (simp add: s_publication_def sample_held_def sample_slot Let_def publish_slot_def granted_lease_def
        stream_body_def s_base_def stream_at_idle)
  then show ?thesis
    using publication_emits_step [of s 0 6000 s' "Some m"] publication_wf [of s 0 6000 s' "Some m"] assms(1) t
    by (auto simp: sample_held_def same_settings_def)
qed

lemma sample_silent:
  assumes "sample_held s" and "slot_period (streams s ! 1) = 0"
  shows "\<exists>s'. publish_stream sample_bench sample_answers 1 (sample_task s q closed) =
      Some (sample_task s' q sample_socket, True) \<and> sample_held s'"
proof -
  have t: "sample_held (tick s 6000)" "streams (tick s 6000) = streams s"
    using sample_held_tick [OF assms(1), of 6000] assms(1) by (simp_all add: sample_held_def)
  have "s_publication s 1 6000 = (tick s 6000, None)"
    using t assms(2) by (simp add: s_publication_def sample_held_def poll_stream_def Let_def)
  then show ?thesis
    using t(1)
    by (auto simp: publish_stream_def reopen_def sample_answers_def sample_socket_eq)
qed

lemma sample_publish:
  assumes "sample_held s" and "streams s = [stream_at 5000 1000, stream_at 5000 0]"
    and "s_format s = Json" and "s_crc s = Off"
  shows "\<exists>s' m. publish_stream sample_bench sample_answers 0 (sample_task s closed closed) =
      Some (sample_task s' (sample_socket\<lparr>queued := [m]\<rparr>) closed, True) \<and> sample_held s' \<and>
      slot_period (streams s' ! 1) = 0 \<and> run_epoch m = Some 1"
proof -
  obtain s1 m where p: "s_publication s 0 6000 = (s1, Some m)" and h: "sample_held s1"
    and m: "emits s m" "run_epoch m = Some 1" and per: "slot_period (streams s1 ! 1) = 0"
    and same: "same_settings s s1"
    using sample_publication [OF assms(1,2)] by auto
  have t: "sample_held (tick s1 6000)" "streams (tick s1 6000) = streams s1"
    using sample_held_tick [OF h, of 6000] h by (simp_all add: sample_held_def)
  have can: "can_encode sample_bench m" by (rule sample_encodes [OF m(1) assms(3,4)])
  obtain c where c: "counters_sent (s_counters (tick s1 6000)) 1 True = Some c"
    "length (active c) = length (active (s_counters (tick s1 6000)))"
    using counters_sent_total [of 1 "s_counters (tick s1 6000)" True] h
    by (auto simp: sample_held_def service_wf_def)
  let ?s2 = "(tick s1 6000)\<lparr>s_counters := c\<rparr>"
  have "length (active (s_counters (tick s1 6000))) = 3" using h by (simp add: sample_held_def service_wf_def)
  then have held: "sample_held ?s2"
    using t(1) counters_wf [of "tick s1 6000" c] c(2) by (simp add: sample_held_def)
  have "publish_stream sample_bench sample_answers 0 (sample_task s closed closed) =
      Some (sample_task ?s2 (sample_socket\<lparr>queued := [m]\<rparr>) closed, True)"
    using p m(2) can c(1) t(1)
    by (simp add: publish_stream_def reopen_def sample_answers_def publish_message_def replace_unsent_def
        post_def enqueue_def sample_held_def lease_active_def Let_def sample_socket_eq)
  moreover have "slot_period (streams ?s2 ! 1) = 0" using per t(2) by simp
  ultimately show ?thesis using held m(2) by blast
qed

text \<open>The task after the sample iteration.\<close>

lemma sample_links: "link sample_answers" "stack_config sample_answers = Some sample_net" "\<not> stopped sample_start"
  by (simp_all add: sample_answers_def sample_start_def bench_start_def Let_def)

lemma bench_sample_run:
  "\<exists>t m. bench_run sample_bench sample_start t \<and> queued (sockets t ! 1) = [m]"
proof -
  obtain s where r: "bench_receive sample_bench sample_answers (sample_start\<lparr>svc := tick (svc sample_start) 4000\<rparr>) =
      Some (sample_task s closed closed, True)"
    and s: "sample_held s" "streams s = [stream_at 5000 1000, stream_at 5000 0]"
    using sample_receive unfolding sample_task_def by blast
  have f: "s_format s = Json" "s_crc s = Off" using s(1) by (simp_all add: sample_held_def)
  obtain s1 m where p: "publish_stream sample_bench sample_answers 0 (sample_task s closed closed) =
      Some (sample_task s1 (sample_socket\<lparr>queued := [m]\<rparr>) closed, True)" "sample_held s1"
    "slot_period (streams s1 ! 1) = 0"
    using sample_publish [OF s f] by blast
  obtain s2 where q: "publish_stream sample_bench sample_answers 1 (sample_task s1 (sample_socket\<lparr>queued := [m]\<rparr>) closed) =
      Some (sample_task s2 (sample_socket\<lparr>queued := [m]\<rparr>) sample_socket, True)" "sample_held s2"
    using sample_silent [OF p(2,3)] by blast
  have same: "regenerate (sample_task s' q r) = sample_task s' q r" if "sample_held s'" for s' q r
    using that by (simp add: regenerate_def current_def sample_held_def lease_active_def)
  have "reopen_all (bind_ok sample_answers 0) [0, 1, 2] (sample_start\<lparr>svc := tick (svc sample_start) 4000\<rparr>) =
      (sample_start\<lparr>svc := tick (svc sample_start) 4000\<rparr>, True)"
    by (simp add: reopen_def sample_start_def bench_start_def Let_def numeral_eq_Suc)
  then have "bench_iteration sample_bench sample_answers sample_start =
      Some (sample_task s2 (sample_socket\<lparr>queued := [m]\<rparr>) sample_socket)"
    using r p(1) q(1) same s(1) q(2) sample_links
    by (simp add: bench_iteration_def sample_check Let_def del: reopen_all.simps)
  then have "bench_run sample_bench sample_start (sample_task s2 (sample_socket\<lparr>queued := [m]\<rparr>) sample_socket)"
    by (rule bench_iterate [OF bench_none])
  moreover have "queued (sockets (sample_task s2 (sample_socket\<lparr>queued := [m]\<rparr>) sample_socket) ! 1) = [m]" by simp
  ultimately show ?thesis by blast
qed

theorem bench_server_sends_valid_messages_witness:
  "\<exists>t m. bench_run sample_bench sample_start t \<and> bench_iteration sample_bench sample_answers t \<noteq> None \<and>
    queued (sockets t ! 1) = [m] \<and> bench_validate m Json Off = Inr ()"
proof -
  obtain t m where run: "bench_run sample_bench sample_start t" and m: "queued (sockets t ! 1) = [m]"
    using bench_sample_run by blast
  note valid = bench_server_sends_valid_messages
    [OF sample_names(3) run [unfolded sample_start_def], where e = sample_answers]
  have "task_wf t"
    using bench_run_wf [OF run] start_wf [OF sample_names(3)] start_purged unfolding sample_start_def by blast
  then have "sockets t ! 1 \<in> set (sockets t)" by (simp add: task_wf_def)
  then have "bench_validate m Json Off = Inr ()"
    using valid m by (auto simp: sample_bench_def)
  then show ?thesis using valid run m by blast
qed

theorem stale_datagrams_are_purged_witness:
  "\<exists>t m. bench_run sample_bench sample_start t \<and> m \<in> set (queued (sockets t ! 1)) \<and>
    lease_active (svc t) \<and> run_epoch m = Some (epoch (svc t))"
proof -
  obtain t m where run: "bench_run sample_bench sample_start t" and m: "queued (sockets t ! 1) = [m]"
    using bench_sample_run by blast
  then have "lease_active (svc t) \<and> run_epoch m = Some (epoch (svc t))"
    using stale_datagrams_are_purged [OF sample_names(3) run [unfolded sample_start_def], of 1 m] by simp
  moreover have "m \<in> set (queued (sockets t ! 1))" using m by simp
  ultimately show ?thesis using run by blast
qed

end
