(* ===== verification/Lease_Protocol.thy ===== *)
theory Lease_Protocol
  imports Main
begin

text \<open>
  The abstract protocol of the benchmark lease: what the service in
  \<^verbatim>\<open>benchmark/service.rs\<close> promises its peers, without messages, streams or budgets.
  A device is idle in an epoch, running for one owner with one configuration, or worn out when the epochs are used
  up.  A transition is labelled with the peer that acts, the time in microseconds, and
  whether a fault (lost network, clock stepped back) happened.
\<close>

datatype ('w, 'c) lease_state =
    Idle nat
  | Running nat 'w 'c nat nat
  | Worn_Out

definition MAX_EPOCH :: nat where
  "MAX_EPOCH = 2 ^ 32 - 1"

definition MAX_LEASE_US :: nat where
  "MAX_LEASE_US = 30000000"

definition used_up :: "nat \<Rightarrow> ('w, 'c) lease_state" where
  "used_up e = (if e = MAX_EPOCH then Worn_Out else Idle (e + 1))"

inductive lease_step :: "'w option \<Rightarrow> nat \<Rightarrow> bool \<Rightarrow> ('w, 'c) lease_state \<Rightarrow> ('w, 'c) lease_state \<Rightarrow> bool"
  for act :: "'w option" and now :: nat and fault :: bool where
  grant: "act = Some w \<Longrightarrow> x \<le> now + MAX_LEASE_US \<Longrightarrow> lease_step act now fault (Idle e) (Running e w c i x)"
| renew: "act = Some w \<Longrightarrow> i < j \<Longrightarrow> y \<le> now + MAX_LEASE_US \<Longrightarrow>
    lease_step act now fault (Running e w c i x) (Running e w c j y)"
| release: "act = Some w \<Longrightarrow> lease_step act now fault (Running e w c i x) (used_up e)"
| expire: "x \<le> now \<Longrightarrow> lease_step act now fault (Running e w c i x) (used_up e)"
| abort: "fault \<Longrightarrow> lease_step act now fault (Running e w c i x) (used_up e)"

inductive_cases idle_stepE: "lease_step act now fault (Idle e) b"
inductive_cases running_stepE: "lease_step act now fault (Running e w c i x) b"
inductive_simps worn_out_step: "lease_step act now fault Worn_Out b"

text \<open>Any number of transitions of the same event, and of any events.\<close>

abbreviation lease_steps :: "'w option \<Rightarrow> nat \<Rightarrow> bool \<Rightarrow> ('w, 'c) lease_state \<Rightarrow> ('w, 'c) lease_state \<Rightarrow> bool" where
  "lease_steps act now fault \<equiv> (lease_step act now fault)\<^sup>*\<^sup>*"

inductive lease_history :: "('w, 'c) lease_state \<Rightarrow> ('w, 'c) lease_state \<Rightarrow> bool" where
  history_none: "lease_history a a"
| history_more: "lease_history a b \<Longrightarrow> lease_step act now fault b c \<Longrightarrow> lease_history a c"

lemma history_steps:
  assumes "lease_history a b" and "lease_steps act now fault b c"
  shows "lease_history a c"
  using assms(2,1) by (induction rule: rtranclp_induct) (auto intro: history_more)

lemma lease_history_trans: "lease_history b c \<Longrightarrow> lease_history a b \<Longrightarrow> lease_history a c"
  by (induction rule: lease_history.induct) (auto intro: history_more)

text \<open>
  The age of a state never decreases, and it stays the same only while one owner renews: an
  epoch belongs to one owner for ever, and its request numbers increase.
\<close>

fun age :: "('w, 'c) lease_state \<Rightarrow> nat" where
  "age (Idle e) = 2 * e"
| "age (Running e w c i x) = 2 * e + 1"
| "age Worn_Out = 2 ^ 33"

fun epoch_bounded :: "('w, 'c) lease_state \<Rightarrow> bool" where
  "epoch_bounded (Idle e) = (e \<le> MAX_EPOCH)"
| "epoch_bounded (Running e w c i x) = (e \<le> MAX_EPOCH)"
| "epoch_bounded Worn_Out = True"

fun same_owner :: "('w, 'c) lease_state \<Rightarrow> ('w, 'c) lease_state \<Rightarrow> bool" where
  "same_owner (Running e w c i x) (Running e' w' c' j y) = (e = e' \<and> w = w' \<and> c = c' \<and> i \<le> j)"
| "same_owner a b = (a = b)"

lemma age_used_up: "e \<le> MAX_EPOCH \<Longrightarrow> 2 * e + 1 < age (used_up e) \<and> epoch_bounded (used_up e)"
  by (auto simp: used_up_def MAX_EPOCH_def)

lemma step_age:
  assumes "lease_step act now fault a b" and "epoch_bounded a"
  shows "epoch_bounded b \<and> (age a < age b \<or> age a = age b \<and> same_owner a b)"
  using assms by (induction rule: lease_step.induct) (auto dest: age_used_up)

lemma same_owner_trans: "same_owner a b \<Longrightarrow> same_owner b c \<Longrightarrow> same_owner a c"
  by (cases "(a, b)" rule: same_owner.cases; cases "(b, c)" rule: same_owner.cases) auto

lemma same_owner_refl: "same_owner a a"
  by (cases a) auto

lemma history_age:
  assumes "lease_history a b" and "epoch_bounded a"
  shows "epoch_bounded b \<and> (age a < age b \<or> age a = age b \<and> same_owner a b)"
  using assms
proof (induction rule: lease_history.induct)
  case (history_none a)
  then show ?case by (simp add: same_owner_refl)
next
  case (history_more a b act now fault d)
  then show ?case using step_age [OF history_more(2)] same_owner_trans [of a b d] by fastforce
qed

lemma others_keep:
  assumes "lease_steps act now fault (Running e w c i x) b" and "act \<noteq> Some w" and "now < x" and "\<not> fault"
  shows "b = Running e w c i x"
  using assms(1)
  by (induction rule: rtranclp_induct) (use assms(2-4) in \<open>auto elim: running_stepE\<close>)

lemma epoch_owner:
  assumes "lease_history (Running e w c i x) (Running e' w' c' j y)" and "e \<le> MAX_EPOCH"
  shows "e \<le> e' \<and> (e = e' \<longrightarrow> w = w' \<and> c = c' \<and> i \<le> j)"
  using history_age [OF assms(1)] assms(2) by auto

end
