(* ===== verification/Lease_Refinement.thy ===== *)
theory Lease_Refinement
  imports Bench_Lease Lease_Protocol
begin

text \<open>
  The benchmark service refines the abstract lease protocol: each event of the service is a
  sequence of abstract transitions labelled with the peer that sent the message.  What the
  protocol guarantees (one owner per epoch, no epoch twice) then holds of the service.
\<close>

type_synonym client = "peer \<times> bytes"

definition lease_view :: "service \<Rightarrow> (client, configuration) lease_state" where
  "lease_view s =
    (case lease_held s of
       None \<Rightarrow> if exhausted s then Worn_Out else Idle (unat (epoch s))
     | Some l \<Rightarrow> Running (unat (epoch s)) (lease_peer l, lease_session l) (lease_configuration l)
         (unat (control_id (last_control l))) (unat (expiry l)))"

fun event_client :: "service_event \<Rightarrow> client option" where
  "event_client (Received m p now) = map_option (\<lambda>sess. (p, sess)) (session_id m)"
| "event_client e = None"

definition event_fault :: "service \<Rightarrow> service_event \<Rightarrow> bool" where
  "event_fault s e \<longleftrightarrow> e = Network_Lost \<or> event_time s e < last_time s"

abbreviation event_steps :: "service \<Rightarrow> service_event \<Rightarrow> (client, configuration) lease_state \<Rightarrow> (client, configuration) lease_state \<Rightarrow> bool" where
  "event_steps s e \<equiv> lease_steps (event_client e) (unat (event_time s e)) (event_fault s e)"

lemma unat_inj: "unat a = unat b \<longleftrightarrow> a = b"
  by (simp add: word_unat_eq_iff)

lemma view_Some [simp]:
  "lease_held s = Some l \<Longrightarrow> lease_view s = Running (unat (epoch s)) (lease_peer l, lease_session l) (lease_configuration l)
    (unat (control_id (last_control l))) (unat (expiry l))"
  by (simp add: lease_view_def)

lemma view_cong:
  "lease_held s' = lease_held s \<Longrightarrow> epoch s' = epoch s \<Longrightarrow> exhausted s' = exhausted s \<Longrightarrow>
    lease_view s' = lease_view s"
  by (cases "lease_held s") (simp_all add: lease_view_def)

lemma max_epoch_iff: "e = (0xFFFFFFFF :: u32) \<longleftrightarrow> unat e = MAX_EPOCH"
proof
  assume "unat e = MAX_EPOCH"
  then have "of_nat (unat e) = (of_nat MAX_EPOCH :: u32)" by simp
  then show "e = 0xFFFFFFFF" by (simp add: MAX_EPOCH_def)
qed (simp add: MAX_EPOCH_def)

lemma view_end_run:
  assumes "lease_held s = Some l" and "\<not> exhausted s"
  shows "lease_view (end_run s) = used_up (unat (epoch s))"
proof (cases "epoch s = 0xFFFFFFFF")
  case True
  then show ?thesis
    using assms by (simp add: lease_view_def end_run_def used_up_def MAX_EPOCH_def)
next
  case False
  then have "unat (epoch s) < 2 ^ 32 - 1"
    using unat_u32_bound [of "epoch s"] by (simp add: max_epoch_iff MAX_EPOCH_def)
  then have "unat (epoch s + 1) = unat (epoch s) + 1"
    by (subst unat_add_small) simp_all
  then show ?thesis
    using assms False by (simp add: lease_view_def end_run_def used_up_def max_epoch_iff Let_def)
qed

lemma wf_running: "service_wf s \<Longrightarrow> lease_held s = Some l \<Longrightarrow> \<not> exhausted s"
  by (simp add: service_wf_def lease_wf_def)

lemma end_steps:
  assumes "service_wf s"
    and "\<And>l. lease_held s = Some l \<Longrightarrow>
      lease_step act now fault (lease_view s) (used_up (unat (epoch s)))"
  shows "lease_steps act now fault (lease_view s) (lease_view (end_run s))"
proof (cases "lease_held s")
  case None
  then show ?thesis by (simp add: end_run_idle)
next
  case (Some l)
  then show ?thesis
    using assms(2) [OF Some] view_end_run [OF Some wf_running [OF assms(1) Some]]
    by (simp add: r_into_rtranclp)
qed

lemma tick_steps:
  assumes "service_wf s" and "now < last_time s \<Longrightarrow> fault"
  shows "lease_steps act (unat now) fault (lease_view s) (lease_view (tick s now))"
proof -
  let ?r = "regressed s now" and ?e = "expired (regressed s now) now"
  have r: "lease_steps act (unat now) fault (lease_view s) (lease_view ?r)"
  proof (cases "now < last_time s")
    case True
    have "lease_steps act (unat now) fault (lease_view s) (lease_view (end_run s))"
      by (rule end_steps [OF assms(1)]) (use assms(2) [OF True] in \<open>auto intro: abort\<close>)
    moreover have "lease_view ?r = lease_view (end_run s)"
      using True by (intro view_cong) (simp_all add: regressed_def)
    ultimately show ?thesis by simp
  next
    case False
    have "lease_view ?r = lease_view s"
      using False by (intro view_cong) (simp_all add: regressed_def)
    then show ?thesis by simp
  qed
  have e: "lease_steps act (unat now) fault (lease_view ?r) (lease_view ?e)"
  proof (cases "is_some_and (\<lambda>l. expiry l \<le> now) (lease_held ?r)")
    case True
    have "lease_steps act (unat now) fault (lease_view ?r) (lease_view (end_run ?r))"
      by (rule end_steps [OF regressed_wf [OF assms(1)]])
        (use True in \<open>auto simp: word_le_unat intro: expire\<close>)
    then show ?thesis using True by (simp add: expired_def)
  next
    case False
    then show ?thesis by (simp add: expired_def)
  qed
  have "lease_view (tick s now) = lease_view ?e"
    by (rule view_cong) (simp_all add: tick_stages)
  then show ?thesis using r e by simp
qed

lemma control_steps:
  assumes "service_wf s" and "control_kind c = 2 \<or> control_kind c = 3 \<or> control_kind c = 4"
    and "control_configuration c = configure request" and "control_kind c = 2 \<longrightarrow> configure request \<noteq> None"
    and "control_result_of s request p sess c now = (s', code)" and "last_time s = now"
  shows "lease_steps (Some (p, sess)) (unat now) fault (lease_view s) (lease_view s')"
proof (cases rule: control_cases [OF assms(1-5), case_names Nothing Grant Renew Release])
  case (Nothing r)
  then show ?thesis by simp
next
  case (Grant g)
  have "lease_step (Some (p, sess)) (unat now) fault (Idle (unat (epoch s)))
      (Running (unat (epoch s)) (p, sess) g (unat (control_id c))
        (unat (sat_add now (ucast (the (lease_ms g)) * 1000))))"
    using lease_term [OF Grant(2), of now] by (intro grant) (simp_all add: MAX_LEASE_US_def)
  then show ?thesis
    using Grant by (simp add: lease_view_def granted_state_def granted_lease_def count_received_def r_into_rtranclp)
next
  case (Renew l)
  have "configuration_valid (lease_configuration l)"
    using lease_valid [OF assms(1) Renew(1)] by (simp add: lease_wf_def)
  from lease_term [OF this, of now] have
    "lease_step (Some (p, sess)) (unat now) fault (lease_view s) (lease_view s')"
    using Renew by (auto simp: renewed_state_def owns_def word_less_unat MAX_LEASE_US_def intro!: renew)
  then show ?thesis by (rule r_into_rtranclp)
next
  case (Release l)
  have "lease_steps (Some (p, sess)) (unat now) fault (lease_view (count_received s))
      (lease_view (end_run (count_received s)))"
    by (rule end_steps) (use assms(1) Release in \<open>auto simp: owns_def intro: release\<close>)
  moreover have "lease_view (count_received s) = lease_view s" by (rule view_cong) simp_all
  ultimately show ?thesis using Release by simp
qed

lemma handle_tick_steps:
  assumes wf: "service_wf s" and run: "handle s request p now = (s', r)"
  shows "lease_steps (map_option (\<lambda>sess. (p, sess)) (session_id request)) (unat now) fault
    (lease_view (tick s now)) (lease_view s')"
proof -
  have same: "lease_view s' = lease_view (tick s now) \<Longrightarrow> ?thesis" by simp
  show ?thesis
  proof (cases rule: handle_cases [OF wf run, case_names Refused Capabilities Probed Controlled])
    case Refused
    then show ?thesis by (intro same view_cong) simp_all
  next
    case (Capabilities sess rid)
    then have "s' = fst (pay_reply (tick s now) (capabilities_reply (tick s now) sess rid now))" by simp
    then show ?thesis by (intro same view_cong) simp_all
  next
    case Probed
    then show ?thesis by (intro same view_cong) simp_all
  next
    case (Controlled k sess rid c s1 code)
    have "lease_steps (Some (p, sess)) (unat now) fault (lease_view (tick s now)) (lease_view s1)"
      by (rule control_steps [OF tick_wf [OF wf] _ _ _ Controlled(11)]) (use Controlled in auto)
    moreover have "s' = fst (pay_reply (if \<not> i32_between 1 3 code then reject False s1 else s1)
        (control_reply s1 request p sess rid code now))" using Controlled(12) by simp
    then have "lease_view s' = lease_view s1" by (intro view_cong) simp_all
    ultimately show ?thesis using Controlled(3) by simp
  qed
qed

lemma handle_steps:
  assumes "service_wf s" and "handle s request p now = (s', r)" and "now < last_time s \<Longrightarrow> fault"
  shows "lease_steps (map_option (\<lambda>sess. (p, sess)) (session_id request)) (unat now) fault
    (lease_view s) (lease_view s')"
  using tick_steps [OF assms(1,3)] handle_tick_steps [OF assms(1,2)] by (rule rtranclp_trans)

lemma publication_view:
  assumes "s_publication s i now = (s', r)"
  shows "lease_view s' = lease_view (tick s now)"
  by (cases rule: publication_cases [OF assms]) (auto intro!: view_cong)

text \<open>The events at which the service reads the clock; the others leave the lease alone, but for the
  loss of the network.\<close>

fun reads_clock :: "service_event \<Rightarrow> bool" where
  "reads_clock (Tick_At now) = True"
| "reads_clock (Received m p now) = True"
| "reads_clock (Poll_Stream i now) = True"
| "reads_clock e = False"

lemma clockless_keep:
  assumes "service_step s e = Some (s', r)" and "\<not> reads_clock e" and "e \<noteq> Network_Lost"
  shows "lease_view s' = lease_view s"
  using assms by (cases e) (auto intro!: view_cong)

lemma step_steps:
  assumes wf: "service_wf s" and run: "service_step s e = Some (s', r)"
  shows "event_steps s e (lease_view s) (lease_view s')"
proof (cases e)
  case (Tick_At now)
  then show ?thesis using run tick_steps [OF wf] by (auto simp: event_fault_def)
next
  case Network_Lost
  then show ?thesis
    using run by (auto simp: event_fault_def intro!: end_steps [OF wf] abort)
next
  case (Received m p now)
  then show ?thesis using run handle_steps [OF wf] by (auto simp: event_fault_def)
next
  case (Poll_Stream i now)
  then have pub: "s_publication s i now = (s', r)" using run by simp
  then show ?thesis
    using tick_steps [OF wf] publication_view [OF pub] Poll_Stream by (simp add: event_fault_def)
qed (use clockless_keep [OF run] in simp_all)

lemma run_history: "service_run s es s' \<Longrightarrow> service_wf s \<Longrightarrow> lease_history (lease_view s) (lease_view s')"
proof (induction rule: service_run.induct)
  case (run_more s es s1 e s2 r)
  then show ?case using history_steps step_steps [OF run_wf [OF run_more(1)]] by blast
qed (rule history_none)

text \<open>A tick after the expiry, or after the clock stepped back, ends the run.\<close>

lemma tick_ends:
  assumes "service_wf s" and "lease_held s = Some l" and "now < last_time s \<or> expiry l \<le> now"
  shows "lease_view (tick s now) = used_up (unat (epoch s))"
proof -
  let ?r = "regressed s now"
  have "lease_view (expired ?r now) = lease_view (end_run s)"
  proof (cases "now < last_time s")
    case True
    then show ?thesis by (intro view_cong) (simp_all add: regressed_def expired_def)
  next
    case False
    then show ?thesis
      using assms(2,3) by (intro view_cong) (simp_all add: regressed_def expired_def end_run_def Let_def)
  qed
  moreover have "lease_view (tick s now) = lease_view (expired ?r now)"
    by (rule view_cong) (simp_all add: tick_stages)
  ultimately show ?thesis
    using view_end_run [OF assms(2) wf_running [OF assms(1,2)]] by simp
qed

lemma event_ends:
  assumes wf: "service_wf s" and run: "service_step s e = Some (s', r)" and held: "lease_held s = Some l"
    and ended: "e = Network_Lost \<or> event_time s e < last_time s \<or> reads_clock e \<and> expiry l \<le> event_time s e"
  shows "lease_history (used_up (unat (epoch s))) (lease_view s')"
proof -
  have tick: "lease_view (tick s (event_time s e)) = used_up (unat (epoch s))" if "reads_clock e"
    using ended that by (intro tick_ends [OF wf held]) auto
  show ?thesis
  proof (cases e)
    case Network_Lost
    then show ?thesis
      using run view_end_run [OF held wf_running [OF wf held]] by (simp add: history_none)
  next
    case (Received m p now)
    then show ?thesis
      using run tick handle_tick_steps [OF wf] history_steps [OF history_none] by fastforce
  next
    case (Tick_At now)
    then show ?thesis using run tick by (auto simp: history_none)
  next
    case (Poll_Stream i now)
    then show ?thesis using run tick publication_view by (fastforce simp: history_none)
  qed (use ended in simp_all)
qed

section \<open>Properties\<close>

text \<open>C13: every event of a reachable service is a sequence of transitions of the abstract lease
  protocol, labelled with the client that sent the message, the time and the fault: in
  particular only the owner renews or stops, a lease is granted only when the device is
  idle, for at most 30 seconds, and it ends by a stop, by expiry or by a fault.\<close>
theorem service_refines_lease_protocol:
  assumes "device_name device" and "length device \<le> 32" and "hex_token boot"
    and "service_run (service_new device boot f crc now) es s" and "service_step s e = Some (s', r)"
  shows "event_steps s e (lease_view s) (lease_view s')"
  using step_steps [OF run_wf [OF assms(4) service_new_wf [OF assms(1-3)]] assms(5)] .

theorem service_refines_lease_protocol_witness:
  "event_steps sample_service sample_event (Idle 1)
    (Running 1 (sample_peer, sample_session) sample_configuration 1 2005000)"
proof -
  have "lease_view sample_service = Idle 1"
    by (simp add: lease_view_def sample_service_def service_new_def)
  moreover have "lease_view (sample_running\<lparr>tokens := 9\<rparr>) =
      Running 1 (sample_peer, sample_session) sample_configuration 1 2005000"
    by (simp add: lease_view_def sample_running_def granted_state_def granted_lease_def count_received_def
        sample_tick sample_configuration_def sample_control_def sat_add_def)
  ultimately show ?thesis
    using service_refines_lease_protocol [OF sample_names(1-3) run_none sample_step [unfolded sample_service_def]]
    by (simp add: sample_service_def)
qed

text \<open>C12: an epoch belongs to one client and one configuration for ever: whenever the service holds a
  lease and later, after any events, holds a lease in the same epoch, it is the lease of
  the same peer, session and configuration and its request number has not decreased.\<close>
theorem epoch_has_one_owner:
  assumes "device_name device" and "length device \<le> 32" and "hex_token boot"
    and "service_run (service_new device boot f crc now) es s" and "service_run s es' s'"
    and "lease_held s = Some l" and "lease_held s' = Some l'"
  shows "epoch s \<le> epoch s' \<and> (epoch s = epoch s' \<longrightarrow>
    lease_peer l' = lease_peer l \<and> lease_session l' = lease_session l \<and>
    lease_configuration l' = lease_configuration l \<and>
    control_id (last_control l) \<le> control_id (last_control l'))"
proof -
  have "service_wf s" using run_wf [OF assms(4)] service_new_wf [OF assms(1-3)] by blast
  from run_history [OF assms(5) this] have "lease_history (lease_view s) (lease_view s')" .
  moreover have "unat (epoch s) \<le> MAX_EPOCH"
    using unat_u32_bound [of "epoch s"] by (simp add: MAX_EPOCH_def)
  ultimately show ?thesis
    using assms(6,7) epoch_owner by (fastforce simp: word_le_unat)
qed

lemma sample_run: "service_run sample_service [sample_event] (sample_running\<lparr>tokens := 9\<rparr>)"
  using run_more [OF run_none sample_step] by simp

lemma sample_held: "lease_held (sample_running\<lparr>tokens := 9\<rparr>) =
  Some (granted_lease sample_peer sample_session sample_configuration sample_control 5000)"
  by (simp add: sample_running_def granted_state_def)

theorem epoch_has_one_owner_witness:
  "let s = sample_running\<lparr>tokens := 9\<rparr>
   in service_run sample_service [sample_event] s \<and> service_run s [] s \<and> epoch s \<le> epoch s"
  using epoch_has_one_owner [OF sample_names(1-3) sample_run [unfolded sample_service_def] run_none
      sample_held sample_held] sample_run run_none
  by (simp add: Let_def)

text \<open>C14: a running lease is changed by nobody but its owner.  An event that is not a message of the
  owner ends the run when it is the loss of the network, or finds the clock stepped back or at
  the expiry: then the service holds no lease, or one of a later epoch.  In every other case
  (messages of other clients, clock ticks, polls of the streams, unusable datagrams, reports)
  the lease keeps its owner, configuration, epoch, request number and expiry.\<close>
theorem lease_is_exclusive:
  assumes "device_name device" and "length device \<le> 32" and "hex_token boot"
    and "service_run (service_new device boot f crc now) es s" and "service_step s e = Some (s', r)"
    and "lease_held s = Some l" and "event_client e \<noteq> Some (lease_peer l, lease_session l)"
  shows "if e = Network_Lost \<or> event_time s e < last_time s \<or> reads_clock e \<and> expiry l \<le> event_time s e
    then \<forall>l'. lease_held s' = Some l' \<longrightarrow> epoch s < epoch s'
    else \<exists>l'. lease_held s' = Some l' \<and> epoch s' = epoch s \<and> lease_peer l' = lease_peer l \<and>
      lease_session l' = lease_session l \<and> lease_configuration l' = lease_configuration l \<and>
      control_id (last_control l') = control_id (last_control l) \<and> expiry l' = expiry l"
    (is "if ?ended then ?over else ?kept")
proof -
  have wf: "service_wf s" using run_wf [OF assms(4) service_new_wf [OF assms(1-3)]] .
  have "?over" if "?ended"
  proof -
    let ?used = "used_up (unat (epoch s)) :: (client, configuration) lease_state"
    have "unat (epoch s) \<le> MAX_EPOCH"
      using unat_u32_bound [of "epoch s"] by (simp add: MAX_EPOCH_def)
    then have used: "2 * unat (epoch s) + 1 < age ?used" "epoch_bounded ?used"
      using age_used_up by blast+
    have "2 * unat (epoch s) + 1 < age (lease_view s')"
      using history_age [OF event_ends [OF wf assms(5,6) that]] used by auto
    then show ?thesis by (auto simp: word_less_unat)
  qed
  moreover have "lease_view s' = lease_view s" if "\<not> ?ended"
  proof (cases "reads_clock e")
    case True
    have "event_steps s e (lease_view s) (lease_view s')" by (rule step_steps [OF wf assms(5)])
    then show ?thesis
      using that True assms(6,7) others_keep
      by (fastforce simp: event_fault_def word_less_unat word_le_unat)
  qed (use that clockless_keep [OF assms(5)] in blast)
  then have "?kept" if "\<not> ?ended"
    using that assms(6) by (auto simp: lease_view_def unat_inj split: option.splits if_splits)
  ultimately show ?thesis by argo
qed

theorem lease_is_exclusive_witness:
  "\<exists>s' l'. service_step (sample_running\<lparr>tokens := 9\<rparr>) (Poll_Stream 0 6000) = Some (s', snd (the
      (service_step (sample_running\<lparr>tokens := 9\<rparr>) (Poll_Stream 0 6000)))) \<and>
    lease_held s' = Some l' \<and> lease_peer l' = sample_peer"
proof -
  let ?s = "sample_running\<lparr>tokens := 9\<rparr>" and ?e = "Poll_Stream 0 6000"
  obtain s' r where run: "service_step ?s ?e = Some (s', r)" by (cases "s_publication ?s 0 6000") simp
  let ?l = "granted_lease sample_peer sample_session sample_configuration sample_control 5000"
  have "expiry ?l = 2005000" by (simp add: granted_lease_def sample_configuration_def sat_add_def)
  moreover have "last_time ?s = 5000"
    by (simp add: sample_running_def granted_state_def)
  ultimately have "\<exists>l'. lease_held s' = Some l' \<and> lease_peer l' = lease_peer ?l"
    using lease_is_exclusive [OF sample_names(1-3) sample_run [unfolded sample_service_def] run sample_held]
    by auto
  then show ?thesis using run by (auto simp: granted_lease_def)
qed

end
