(* ===== verification/Bench_Rates.thy ===== *)
theory Bench_Rates
  imports Bench_Lease
begin

text \<open>
  The rates the benchmark service keeps: control replies are limited by a token bucket, the
  two streams follow their slots; an idle device grants a lease to whoever asks, and a
  repeated control message changes nothing.
\<close>

section \<open>The reply budget as a token bucket\<close>

definition service_exec :: "service \<Rightarrow> service_event \<Rightarrow> service \<times> bench_envelope option" where
  "service_exec s e = (case service_step s e of None \<Rightarrow> (s, None) | Some r \<Rightarrow> r)"

definition is_control_reply :: "bench_envelope option \<Rightarrow> bool" where
  "is_control_reply r = is_some_and (\<lambda>m. b_kind m = Some 11 \<or> b_kind m = Some 12) r"

text \<open>What the budget of a service has earned: \<open>s'\<close> follows \<open>s\<close> and has spent \<open>n\<close> replies.\<close>

definition earns :: "nat \<Rightarrow> service \<Rightarrow> service \<Rightarrow> bool" where
  "earns n s s' \<longleftrightarrow> token_time s \<le> token_time s' \<and>
    (unat (tokens s') + n) * 100000 \<le> unat (tokens s) * 100000 + (unat (token_time s') - unat (token_time s))"

lemma unat_refill: "unat (ucast (min (r :: u64) 10) :: u8) = min (unat r) 10"
proof -
  have "unat (min r 10) \<le> 10" by (simp add: min_def word_le_unat)
  then have "unat (ucast (min r 10) :: u8) = unat (min r 10)"
    by (simp add: unsigned_ucast_eq take_bit_eq_mod)
  then show ?thesis by (simp add: min_def word_le_unat)
qed

lemma refill_earns:
  assumes "token_time s \<le> now"
  shows "earns 0 s (refilled s now)"
proof (cases "0 < sat_sub now (token_time s) div 100000")
  case True
  let ?k = "(unat now - unat (token_time s)) div 100000"
  have k: "unat (sat_sub now (token_time s) div 100000) = ?k"
    by (simp add: unat_div unat_sat_sub)
  have clock: "unat (token_time (refilled s now)) = unat (token_time s) + ?k * 100000"
    using True refill_clock [OF assms] by (simp add: refilled_def)
  let ?a = "ucast (min (sat_sub now (token_time s) div 100000) 10) :: u8"
  have "tokens (refilled s now) \<le> sat_add (tokens s) ?a"
    using True by (simp add: refilled_def Let_def)
  then have "unat (tokens (refilled s now)) \<le> unat (tokens s) + unat ?a"
    by (simp add: word_le_unat unat_sat_add)
  moreover have "unat ?a \<le> ?k" by (simp only: unat_refill k)
  ultimately have "unat (tokens (refilled s now)) \<le> unat (tokens s) + ?k" by linarith
  then show ?thesis by (simp add: earns_def clock word_le_unat)
next
  case False
  then show ?thesis by (simp add: refilled_def earns_def)
qed

lemma tick_earns:
  assumes "service_wf s" and "last_time s \<le> now"
  shows "earns 0 s (tick s now)"
proof -
  have "token_time s \<le> last_time s" using assms(1) by (simp add: service_wf_def)
  then have "token_time s \<le> now" using assms(2) by simp
  moreover have "regressed s now = s\<lparr>last_time := now\<rparr>" using assms(2) by (simp add: regressed_def)
  ultimately have "earns 0 (expired (regressed s now) now) (tick s now)"
    unfolding tick_stages by (intro refill_earns) simp
  then show ?thesis using \<open>regressed s now = _\<close> by (simp add: earns_def)
qed

lemma earns_cong:
  "earns 0 s t \<Longrightarrow> tokens s' = tokens t \<Longrightarrow> token_time s' = token_time t \<Longrightarrow> earns 0 s s'"
  by (simp add: earns_def)

lemma earns_pay:
  assumes "earns 0 s t" and "tokens t1 = tokens t" and "token_time t1 = token_time t"
    and "pay_reply t1 m = (s', r)"
  shows "earns (if r = None then 0 else 1) s s'"
proof -
  have "tokens t \<noteq> 0 \<Longrightarrow> unat (tokens t - 1) + 1 = unat (tokens t)"
    by (simp add: unat_minus_one unat_gt_0)
  then show ?thesis
    using pay_reply_cases [OF assms(4)] assms(1-3) by (auto simp: earns_def)
qed

lemma handle_earns:
  assumes wf: "service_wf s" and "last_time s \<le> now" and run: "handle s request p now = (s', r)"
  shows "earns (if is_control_reply r then 1 else 0) s s'"
proof -
  note t = tick_earns [OF assms(1,2)]
  show ?thesis
  proof (cases rule: handle_cases [OF wf run, case_names Refused Capabilities Probed Controlled])
    case Refused
    then show ?thesis using t by (simp add: is_control_reply_def earns_cong)
  next
    case (Capabilities sess rid)
    then show ?thesis
      using earns_pay [OF t refl refl Capabilities(7)] pay_reply_cases [OF Capabilities(7)]
      by (auto simp: is_control_reply_def capabilities_reply_def s_base_def)
  next
    case Probed
    then show ?thesis using t by (simp add: is_control_reply_def probe_reply_def s_base_def earns_cong)
  next
    case (Controlled k sess rid c s1 code)
    have "tokens s1 = tokens (tick s now)" "token_time s1 = token_time (tick s now)"
      using handle_control [OF wf Controlled(2,9,10,11)] by simp_all
    then show ?thesis
      using earns_pay [OF t _ _ Controlled(12)] pay_reply_cases [OF Controlled(12)]
      by (auto simp: is_control_reply_def control_reply_def s_base_def)
  qed
qed

lemma publication_earns:
  assumes "service_wf s" and "last_time s \<le> now" and "s_publication s i now = (s', r)"
  shows "earns 0 s s' \<and> \<not> is_control_reply r"
proof (cases rule: publication_cases [OF assms(3), case_names Silent Due])
  case Silent
  then show ?thesis using tick_earns [OF assms(1,2)] by (simp add: is_control_reply_def)
next
  case (Due l q sq missed)
  have t: "service_wf (tick s now)" using assms(1) by (rule tick_wf)
  have "i < 2" using lease_valid [OF t Due(1)] Due(2)
    by (auto simp: lease_wf_def dest: arg_cong [of _ _ length])
  then have "i = 0 \<or> i = 1" by linarith
  then have "\<not> is_control_reply r"
    using Due(5) by (auto simp: is_control_reply_def is_some_and_iff publish_slot_def stream_body_def s_base_def)
  then show ?thesis using earns_cong [OF tick_earns [OF assms(1,2)]] Due(4) by simp
qed

lemma exec_earns:
  assumes wf: "service_wf s" and time: "last_time s \<le> event_time s e" and run: "service_exec s e = (s', r)"
  shows "service_wf s' \<and> last_time s' = event_time s e \<and> earns (if is_control_reply r then 1 else 0) s s'"
proof (cases "service_step s e")
  case None
  then obtain i ok where "e = Send_Report i ok" by (cases e) auto
  then show ?thesis using None run wf by (simp add: service_exec_def is_control_reply_def earns_def)
next
  case (Some x)
  then have step: "service_step s e = Some (s', r)" using run by (simp add: service_exec_def)
  have wf': "service_wf s'" by (rule step_wf [OF wf step])
  show ?thesis
  proof (cases e)
    case (Tick_At now)
    then show ?thesis using wf' tick_earns [OF wf] time step by (auto simp: is_control_reply_def)
  next
    case (Received m p now)
    then show ?thesis using wf' handle_earns [OF wf] handle_emits [OF wf] time step by auto
  next
    case (Poll_Stream i now)
    then show ?thesis using wf' publication_earns [OF wf] publication_emits_step [OF wf] time step by auto
  qed (use wf' step in \<open>auto simp: is_control_reply_def earns_def\<close>)
qed

interpretation control_budget: token_bucket service_wf 1000000 100000
  "\<lambda>s. unat (tokens s) * 100000" "\<lambda>s. unat (token_time s)" "\<lambda>s. unat (last_time s)"
  "\<lambda>s e. unat (event_time s e)" service_exec is_control_reply
proof unfold_locales
  fix s
  assume "service_wf s"
  then show "unat (tokens s) * 100000 \<le> 1000000 \<and> unat (token_time s) \<le> unat (last_time s)"
    by (simp add: service_wf_def word_le_unat)
next
  fix s s' e r
  assume "service_wf s" and "unat (last_time s) \<le> unat (event_time s e)" and "service_exec s e = (s', r)"
  from exec_earns [OF this(1) _ this(3)] this(2)
  show "service_wf s' \<and> unat (last_time s') \<le> unat (event_time s e) \<and>
      unat (last_time s) \<le> unat (last_time s') \<and> unat (token_time s) \<le> unat (token_time s') \<and>
      unat (tokens s') * 100000 + (if is_control_reply r then 100000 else 0)
        \<le> unat (tokens s) * 100000 + (unat (token_time s') - unat (token_time s))"
    by (simp add: word_le_unat earns_def split: if_splits; linarith)
qed

text \<open>However datagrams arrive, while the clock does not step back the service answers at most
  ten control and capability requests at once and one more per 100 ms.\<close>
theorem control_reply_rate:
  assumes "service_wf s" and "control_budget.timely s es" and "exec_all service_exec s es = (s', rs)"
  shows "service_wf s' \<and>
    count_of is_control_reply rs * 100000 \<le> 1000000 + (unat (last_time s') - unat (token_time s))"
  using control_budget.grant_rate [OF assms] control_budget.grants_bounded [OF assms] by simp

theorem control_reply_rate_witness:
  "\<exists>s' rs. exec_all service_exec sample_service [sample_event, Tick_At 9000] = (s', rs) \<and>
    count_of is_control_reply rs * 100000 \<le> 1009000"
proof -
  let ?es = "[sample_event, Tick_At 9000]" and ?s1 = "sample_running\<lparr>tokens := 9\<rparr>"
  obtain s' rs where run: "exec_all service_exec sample_service ?es = (s', rs)" by fastforce
  have first: "service_exec sample_service sample_event = (?s1, Some (control_reply sample_running
      sample_configure sample_peer sample_session 1 1 5000))"
    by (simp add: service_exec_def sample_step)
  have t: "last_time ?s1 = 5000" "last_time sample_service = 0" "token_time sample_service = 0"
    "event_time sample_service sample_event = 5000"
    by (simp_all add: sample_running_def granted_state_def sample_service_def service_new_def sample_event_def)
  have "last_time s' = 9000" using run first by (auto simp: service_exec_def)
  moreover have "control_budget.timely sample_service ?es"
    by (simp add: control_budget.timely_def first t)
  ultimately show ?thesis
    using control_reply_rate [OF sample_service_wf _ run] run t by auto
qed

section \<open>The streams as slot clocks\<close>

definition stream_wf :: "stream \<Rightarrow> bool" where
  "stream_wf q \<longleftrightarrow> slot_period q \<noteq> 0"

interpretation bench_stream: slot_clock stream_wf "\<lambda>q :: stream. unat (slot_due q)" "\<lambda>q. unat (slot_period q)"
  slot_sequence poll_stream
proof unfold_locales
  fix q :: stream
  assume "stream_wf q"
  then show "0 < unat (slot_period q)" by (simp add: stream_wf_def unat_gt_0)
next
  fix q :: stream and now :: u64
  assume "unat now < unat (slot_due q)"
  then show "poll_stream q now = (q, None)" by (simp add: poll_stream_def word_less_unat)
next
  fix q :: stream and now :: u64 and k
  assume wf: "stream_wf q" and "unat (slot_due q) \<le> unat now"
    and k: "k = (unat now - unat (slot_due q)) div unat (slot_period q)"
  then have le: "slot_due q \<le> now" by (simp add: word_le_unat)
  let ?d = "now - slot_due q" and ?p = "ucast (slot_period q) :: u64"
  have sk: "unat (?d div ?p) = k"
    using le k by (simp add: unat_div unat_diff_le unat_ucast_32_64)
  then have sk': "?d div ?p = of_nat k"
    by (metis of_nat_unat ucast_id)
  have u: "(ucast (of_nat k :: u64) :: u32) = of_nat k"
    using sk sk' by (metis of_nat_unat)
  have p: "0 < unat (slot_period q)" using wf by (simp add: stream_wf_def unat_gt_0)
  have m: "unat (?d mod ?p) = (unat now - unat (slot_due q)) mod unat (slot_period q)"
    using le by (simp add: unat_mod unat_diff_le unat_ucast_32_64)
  then have "unat (?d mod ?p) < unat (slot_period q)" using p by simp
  then have pm: "unat (?p - ?d mod ?p) = unat (slot_period q) - unat (?d mod ?p)"
    by (subst unat_diff_le) (simp_all add: word_le_unat unat_ucast_32_64)
  define q' where "q' = q\<lparr>slot_sequence := slot_sequence q + of_nat k + 1,
    slot_due := sat_add now (?p - ?d mod ?p)\<rparr>"
  have "poll_stream q now = (q', Some (slot_sequence q + of_nat k, of_nat k))"
    using wf le [unfolded not_less [symmetric]]
    by (simp add: poll_stream_def stream_wf_def q'_def sk' u Let_def)
  moreover have "unat (slot_due q') = unat (slot_due q) + Suc k * unat (slot_period q)"
    if late: "unat now + unat (slot_period q) < 2 ^ 64"
  proof -
    have "k * unat (slot_period q) + unat (?d mod ?p) = unat now - unat (slot_due q)"
      by (simp add: k m)
    moreover have "unat (slot_due q) \<le> unat now" using le by (simp add: word_le_unat)
    moreover have "unat (slot_due q') = unat now + (unat (slot_period q) - unat (?d mod ?p))"
      using late by (simp add: q'_def unat_sat_add pm)
    ultimately show ?thesis using \<open>unat (?d mod ?p) < unat (slot_period q)\<close> by simp
  qed
  ultimately show "\<exists>q'. poll_stream q now = (q', Some (slot_sequence q + of_nat k, of_nat k)) \<and>
      stream_wf q' \<and> unat (slot_period q') = unat (slot_period q) \<and>
      slot_sequence q' = slot_sequence q + of_nat k + 1 \<and>
      (unat now + unat (slot_period q) < 2 ^ 64 \<longrightarrow>
        unat (slot_due q') = unat (slot_due q) + Suc k * unat (slot_period q))"
    using wf by (intro exI [of _ q']) (simp add: q'_def stream_wf_def)
qed

text \<open>Over any run of polls of a stream started by a configuration no slot is lost or counted
  twice: the deadline has moved by exactly the reported and skipped slots, the sequence
  number counts them, and while fewer than \<open>2 ^ 32\<close> slots have passed the sequence numbers
  of the samples increase strictly.\<close>
theorem stream_accounts_every_slot:
  assumes "us \<noteq> 0" and "unat now + unat us < 2 ^ 64" and "\<forall>t \<in> set ts. unat t + unat us < 2 ^ 64"
    and "polls poll_stream (stream_at now us) ts = (q, rs)"
  shows "unat (slot_due q) = unat now + Suc (slots_of rs) * unat us \<and>
    slot_sequence q = of_nat (slots_of rs) \<and>
    (slots_of rs \<le> 2 ^ 32 \<longrightarrow> sorted_wrt (<) (map (unat \<circ> fst) rs))"
proof -
  let ?q = "stream_at now us"
  have wf: "stream_wf ?q" and p: "slot_period ?q = us" "slot_sequence ?q = 0"
    and d: "unat (slot_due ?q) = unat now + unat us"
    using assms(1,2) by (simp_all add: stream_wf_def stream_at_def unat_sat_add unat_ucast_32_64)
  have late: "\<forall>t \<in> set ts. unat t + unat (slot_period ?q) < 2 ^ 64" using assms(3) p by simp
  show ?thesis
    using bench_stream.polls_accounting [OF wf late assms(4)]
      bench_stream.polls_sequence [OF wf late assms(4)] p d by simp
qed

theorem stream_accounts_every_slot_witness:
  "\<exists>q rs. polls poll_stream (stream_at 1000 1000) [1500, 2000, 7500] = (q, rs) \<and>
    unat (slot_due q) = 1000 + Suc (slots_of rs) * 1000"
proof -
  obtain q rs where run: "polls poll_stream (stream_at 1000 1000) [1500, 2000, 7500] = (q, rs)" by fastforce
  show ?thesis using stream_accounts_every_slot [OF _ _ _ run] run by auto
qed

section \<open>Grants and repetitions\<close>

lemma admits_settings: "same_settings s s' \<Longrightarrow> admits s' request = admits s request"
  by (simp add: admits_def same_settings_def)

lemma tick_admits [simp]: "admits (tick s now) request = admits s request"
  by (rule admits_settings) (simp add: same_settings_def)

lemma handle_controlled:
  assumes "admits s request" and "b_kind request = Some k" and "k \<noteq> 1" and "k \<noteq> 5"
    and "session_id request = Some sess" and "b_request_id request = Some rid"
    and "control_result_of (tick s now) request p sess
      \<lparr>control_kind = k, control_id = rid, control_configuration = configure request\<rparr> now = (s1, Some code)"
    and "i32_between 1 3 code"
  shows "handle s request p now = pay_reply s1 (control_reply s1 request p sess rid code now)"
  using assms by (simp add: handle_def answer_control_def Let_def)

lemma tokens_refill:
  assumes "tokens s \<noteq> 0 \<or> 100000 \<le> unat now - unat (token_time s)" and "last_time s \<le> now"
  shows "tokens (tick s now) \<noteq> 0"
proof -
  let ?e = "expired (regressed s now) now"
  have e: "tokens ?e = tokens s" "token_time ?e = token_time s"
    using assms(2) by (auto simp: regressed_def)
  let ?k = "sat_sub now (token_time s) div 100000"
  let ?a = "ucast (min ?k 10) :: u8"
  have k: "unat ?k = (unat now - unat (token_time s)) div 100000"
    by (simp add: unat_div unat_sat_sub)
  show ?thesis
  proof (cases "0 < ?k")
    case True
    then have "0 < unat ?k" by (simp add: unat_gt_0)
    then have "unat ?a \<noteq> 0" by (simp only: unat_refill)
    then have "0 < unat (sat_add (tokens s) ?a)" by (simp add: unat_sat_add)
    then have "0 < unat (min (sat_add (tokens s) ?a) 10)" by (simp add: min_def)
    then show ?thesis using True e by (simp add: tick_stages refilled_def unat_gt_0)
  next
    case False
    then have "?k = 0" by (simp only: word_gt_0 not_not)
    then have "unat ?k = 0" by (simp only: unat_0)
    then have "tokens s \<noteq> 0" using assms(1) by (simp add: k div_eq_0_iff)
    then show ?thesis using False e by (simp add: tick_stages refilled_def)
  qed
qed

text \<open>C31: the device is never locked up: as soon as the lease is free or expired, and a reply token
  is there or 100 ms have passed since the last refill, a valid configuration sent by any
  peer in the current epoch is granted and answered.\<close>
theorem free_device_grants_lease:
  assumes "service_wf s" and "last_time s \<le> now" and "\<forall>l. lease_held s = Some l \<longrightarrow> expiry l \<le> now"
    and "tokens s \<noteq> 0 \<or> 100000 \<le> unat now - unat (token_time s)"
    and "\<not> exhausted (tick s now)" and "admits s request" and "b_kind request = Some 2"
    and "run_epoch request = Some (epoch (tick s now))" and "configure request = Some g" and "configuration_valid g"
  shows "\<exists>s' m l. handle s request p now = (s', Some m) \<and> lease_held s' = Some l \<and> lease_peer l = p \<and>
    Some (lease_session l) = session_id request \<and> lease_configuration l = g \<and>
    map_option result_code (result_body m) = Some (Some 1)"
proof -
  let ?t = "tick s now"
  obtain k sess rid where f: "b_kind request = Some k" "session_id request = Some sess"
    "b_request_id request = Some rid"
    using assms(6) by (elim admitted) (rule that)
  have free: "lease_held ?t = None"
    using assms(2,3) by (auto simp: tick_stages expired_def regressed_def is_some_and_iff)
  let ?c = "\<lparr>control_kind = 2, control_id = rid, control_configuration = configure request\<rparr>"
  have "control_result_of ?t request p sess ?c now = (granted_state ?t p sess g ?c now, Some 1)"
    using free assms(5,8-10) apply_start [of ?c g ?t p sess now]
    by (simp add: control_result_of_def lease_active_def)
  from handle_controlled [OF assms(6,7) _ _ f(2,3) this]
  have "handle s request p now = pay_reply (granted_state ?t p sess g ?c now)
      (control_reply (granted_state ?t p sess g ?c now) request p sess rid 1 now)"
    by (simp add: i32_between_def)
  moreover have "tokens (granted_state ?t p sess g ?c now) \<noteq> 0"
    using tokens_refill [OF assms(4,2)] by (simp add: granted_state_def count_received_def)
  ultimately show ?thesis
    using f(2) by (simp add: pay_reply_def granted_state_def granted_lease_def control_reply_def s_base_def)
qed

theorem free_device_grants_lease_witness:
  "\<exists>s' l. fst (handle sample_service sample_configure sample_peer 5000) = s' \<and>
    lease_held s' = Some l \<and> lease_peer l = sample_peer"
proof -
  have "lease_held sample_service = None" "tokens sample_service \<noteq> 0" "last_time sample_service = 0"
    by (simp_all add: sample_service_def service_new_def)
  moreover have "admits sample_service sample_configure" using sample_admits by simp
  moreover have "run_epoch sample_configure = Some 1" by (simp add: sample_configure_def)
  ultimately show ?thesis
    using free_device_grants_lease [of sample_service 5000 sample_configure sample_configuration sample_peer]
      sample_service_wf sample_tick sample_fields sample_configuration_valid by auto
qed

text \<open>Repeating the control message that was applied last changes neither the lease nor the
  streams nor the epoch, however often and until the lease expires; it is answered as
  already applied, or not at all when the reply budget is spent.\<close>
theorem repeated_control_is_idempotent:
  assumes "service_wf s" and "handle s request p now = (s1, Some m)"
    and "map_option result_code (result_body m) = Some (Some 1)"
    and "lease_held s1 = Some l" and "now \<le> again" and "again < expiry l"
    and "handle s1 request p again = (s2, r)"
  shows "lease_held s2 = Some l \<and> streams s2 = streams s1 \<and> epoch s2 = epoch s1 \<and>
    (\<forall>m2. r = Some m2 \<longrightarrow> map_option result_code (result_body m2) = Some (Some 2))"
proof -
  let ?t = "tick s now" and ?u = "tick s1 again"
  note run = assms(2)
  obtain k sess rid c s0 where ctl: "b_kind request = Some k" "k = 2 \<or> k = 3 \<or> k = 4"
    "session_id request = Some sess" "b_request_id request = Some rid" "admits s request"
    "k = 2 \<longrightarrow> configure request \<noteq> None"
    "c = \<lparr>control_kind = k, control_id = rid, control_configuration = configure request\<rparr>"
    "control_result_of ?t request p sess c now = (s0, Some 1)"
    "fst (pay_reply s0 (control_reply s0 request p sess rid 1 now)) = s1"
  proof (cases rule: handle_cases [OF assms(1) run, case_names Refused Capabilities Probed Controlled])
    case (Capabilities sess rid)
    then show ?thesis
      using pay_reply_cases [OF Capabilities(7)] assms(3)
      by (auto simp: capabilities_reply_def s_base_def bench_default_def)
  next
    case Probed
    then show ?thesis using assms(3) by (simp add: probe_reply_def s_base_def bench_default_def)
  next
    case (Controlled k sess rid c s0 code)
    have "code = 1"
      using pay_reply_cases [OF Controlled(12)] assms(3) by (auto simp: control_reply_def)
    then have "pay_reply s0 (control_reply s0 request p sess rid 1 now) = (s1, Some m)"
      using Controlled(12) by (simp add: i32_between_def)
    then show ?thesis using Controlled \<open>code = 1\<close> by (intro that [of k sess rid c s0]) auto
  qed simp
  have s1: "lease_held s1 = lease_held s0" "streams s1 = streams s0" "epoch s1 = epoch s0"
    "exhausted s1 = exhausted s0" "last_time s1 = last_time s0"
    unfolding ctl(9) [symmetric] by simp_all
  have set: "same_settings s s1" "last_time s1 = now" using handle_emits [OF assms(1) run] by simp_all
  have held: "last_control l = c \<and> lease_peer l = p \<and> lease_session l = sess \<and> \<not> exhausted s1 \<and>
      run_epoch request = Some (epoch s1)"
  proof (cases rule: control_cases [OF tick_wf [OF assms(1)] _ _ _ ctl(8), case_names Kind Conf Some Nothing Grant Renew Release])
    case (Grant g)
    then show ?thesis
      using assms(4) s1 by (auto simp: granted_state_def granted_lease_def count_received_def)
  next
    case (Renew l0)
    then have "\<not> exhausted ?t" using lease_valid [OF tick_wf [OF assms(1)]] by (auto simp: lease_wf_def)
    then show ?thesis
      using Renew assms(4) s1 by (auto simp: renewed_state_def owns_def)
  qed (use ctl in auto)
  have u: "lease_held ?u = Some l" "streams ?u = streams s1" "epoch ?u = epoch s1" "exhausted ?u = exhausted s1"
    using assms(4-6) set(2) by (auto simp: tick_stages expired_def regressed_def)
  have "control_result_of ?u request p sess c again = (?u, Some 2)"
    using u held by (simp add: control_result_of_def lease_active_def owns_def ctl(7))
  from handle_controlled [OF _ ctl(1) _ _ ctl(3,4) this [unfolded ctl(7)]]
  have "handle s1 request p again = pay_reply ?u (control_reply ?u request p sess rid 2 again)"
    using ctl(2,5) admits_settings [OF set(1)] by (auto simp: i32_between_def)
  then have "pay_reply ?u (control_reply ?u request p sess rid 2 again) = (s2, r)"
    using assms(7) by simp
  from pay_reply_cases [OF this] show ?thesis
    using u by (auto simp: control_reply_def)
qed

theorem repeated_control_is_idempotent_witness:
  "\<exists>s2 r l. handle (sample_running\<lparr>tokens := 9\<rparr>) sample_configure sample_peer 6000 = (s2, r) \<and>
    lease_held s2 = Some l \<and> lease_peer l = sample_peer"
proof -
  let ?s1 = "sample_running\<lparr>tokens := 9\<rparr>"
  let ?m = "control_reply sample_running sample_configure sample_peer sample_session 1 1 5000"
  let ?l = "granted_lease sample_peer sample_session sample_configuration sample_control 5000"
  have first: "handle sample_service sample_configure sample_peer 5000 = (?s1, Some ?m)"
    using sample_step by (simp add: sample_event_def)
  have code: "map_option result_code (result_body ?m) = Some (Some 1)" by (simp add: control_reply_def)
  have held: "lease_held ?s1 = Some ?l" by (simp add: sample_running_def granted_state_def)
  have "expiry ?l = 2005000" by (simp add: granted_lease_def sample_configuration_def sat_add_def)
  then have exp: "6000 < expiry ?l" by simp
  obtain s2 r where run: "handle ?s1 sample_configure sample_peer 6000 = (s2, r)" by fastforce
  show ?thesis
    using repeated_control_is_idempotent [OF sample_service_wf first code held _ exp run] run
    by (auto simp: granted_lease_def)
qed

end
