(* ===== verification/Device_Io.thy ===== *)
theory Device_Io
  imports Prelude
begin

text \<open>
  Programs that talk to a device and a peer.  The flash driver, the SSH channel and the
  reset register are the environment: a function from the operations performed so far and
  the next one to its reply, so that it may answer in any way, and depend on everything
  that happened.  A program is a function of the log of operations that returns its outcome
  and the longer log; what it did, and in which order, can be read off the log.
\<close>

datatype op =
    Erase nat nat
  | Program nat bytes
  | Fetch nat nat
  | Receive nat
  | Send bytes
  | Flush
  | Sleep nat
  | Reset

datatype reply =
    Done
  | Failed
  | Data bytes

type_synonym environment = "op list \<Rightarrow> op \<Rightarrow> reply"

datatype 'a outcome =
    Value 'a
  | Stream_Error
  | Ended_Early
  | Panicked
  | Restarted

type_synonym 'a act = "op list \<Rightarrow> 'a outcome \<times> op list"

definition finish :: "'a \<Rightarrow> 'a act" where
  "finish a log = (Value a, log)"

definition stop :: "'a outcome \<Rightarrow> 'a act" where
  "stop r log = (r, log)"

definition after :: "'a act \<Rightarrow> ('a \<Rightarrow> 'b act) \<Rightarrow> 'b act" where
  "after m f log =
    (case m log of
       (Value a, log) \<Rightarrow> f a log
     | (Stream_Error, log) \<Rightarrow> (Stream_Error, log)
     | (Ended_Early, log) \<Rightarrow> (Ended_Early, log)
     | (Panicked, log) \<Rightarrow> (Panicked, log)
     | (Restarted, log) \<Rightarrow> (Restarted, log))"

definition perform :: "environment \<Rightarrow> op \<Rightarrow> reply act" where
  "perform env c log = (Value (env log c), log @ [c])"

text \<open>A write to the stream or a flush, with the error returned through \<^verbatim>\<open>?\<close>.\<close>

definition send :: "environment \<Rightarrow> op \<Rightarrow> unit act" where
  "send env c =
    after (perform env c) (\<lambda>r. if r = Failed then stop Stream_Error else finish ())"

text \<open>A flash operation: whether the driver reported success.\<close>

definition drive :: "environment \<Rightarrow> op \<Rightarrow> bool act" where
  "drive env c = after (perform env c) (\<lambda>r. finish (r \<noteq> Failed))"

text \<open>A flash read into a buffer of \<open>n\<close> bytes, which the driver fills.\<close>

definition fetch :: "environment \<Rightarrow> nat \<Rightarrow> nat \<Rightarrow> bytes option act" where
  "fetch env off n =
    after (perform env (Fetch off n)) (\<lambda>r.
      finish (case r of Data bs \<Rightarrow> if length bs = n then Some bs else None | _ \<Rightarrow> None))"

section \<open>Reasoning about logs\<close>

text \<open>
  \<open>runs p m q\<close>: started on a log that satisfies \<open>p\<close>, the program ends with an outcome and
  a log that satisfy \<open>q\<close>.
\<close>

definition runs :: "(op list \<Rightarrow> bool) \<Rightarrow> 'a act \<Rightarrow> ('a outcome \<Rightarrow> op list \<Rightarrow> bool) \<Rightarrow> bool" where
  "runs p m q \<longleftrightarrow> (\<forall>log. p log \<longrightarrow> (case m log of (r, log') \<Rightarrow> q r log'))"

text \<open>A postcondition that only constrains values, and one for every other outcome.\<close>

fun ends :: "('a \<Rightarrow> op list \<Rightarrow> bool) \<Rightarrow> (op list \<Rightarrow> bool) \<Rightarrow> 'a outcome \<Rightarrow> op list \<Rightarrow> bool" where
  "ends q e (Value a) log = q a log"
| "ends q e Stream_Error log = e log"
| "ends q e Ended_Early log = e log"
| "ends q e Panicked log = e log"
| "ends q e Restarted log = e log"

lemma runs_finish: "(\<And>log. p log \<Longrightarrow> q a log) \<Longrightarrow> runs p (finish a) (ends q e)"
  by (simp add: runs_def finish_def)

lemma runs_stop: "(\<And>a. r \<noteq> Value a) \<Longrightarrow> (\<And>log. p log \<Longrightarrow> e log) \<Longrightarrow> runs p (stop r) (ends q e)"
  by (cases r) (auto simp: runs_def stop_def)

lemma runs_after:
  assumes "runs p m (ends r e)" and "\<And>a. runs (r a) (f a) (ends q e)"
  shows "runs p (after m f) (ends q e)"
  unfolding runs_def
proof (intro allI impI)
  fix log
  assume "p log"
  then obtain x log' where m: "m log = (x, log')" "ends r e x log'"
    using assms(1) unfolding runs_def by (cases "m log") fastforce
  show "case after m f log of (a, b) \<Rightarrow> ends q e a b"
  proof (cases x)
    case (Value a)
    then have "case f a log' of (a, b) \<Rightarrow> ends q e a b"
      using assms(2) [of a] m(2) by (simp add: runs_def)
    then show ?thesis using m(1) Value by (simp add: after_def)
  qed (use m in \<open>simp_all add: after_def\<close>)
qed

lemma runs_perform: "(\<And>log. p log \<Longrightarrow> q (env log c) (log @ [c])) \<Longrightarrow> runs p (perform env c) (ends q e)"
  by (simp add: runs_def perform_def)

lemma runs_pre: "(\<And>log. p log \<Longrightarrow> p' log) \<Longrightarrow> runs p' m q \<Longrightarrow> runs p m q"
  by (auto simp: runs_def)

lemma runs_send:
  assumes "\<And>log. p log \<Longrightarrow> q () (log @ [c])" and "\<And>log. p log \<Longrightarrow> e (log @ [c])"
  shows "runs p (send env c) (ends q e)"
  using assms by (simp add: runs_def send_def after_def perform_def finish_def stop_def)

lemma runs_drive:
  assumes "\<And>log ok. p log \<Longrightarrow> q ok (log @ [c])"
  shows "runs p (drive env c) (ends q e)"
  using assms by (simp add: runs_def drive_def after_def perform_def finish_def)

lemma runs_fetch:
  assumes "\<And>log r. p log \<Longrightarrow> (\<And>bs. r = Some bs \<Longrightarrow> env log (Fetch off n) = Data bs \<and> length bs = n) \<Longrightarrow>
    q r (log @ [Fetch off n])"
  shows "runs p (fetch env off n) (ends q e)"
  using assms by (auto simp: runs_def fetch_def after_def perform_def finish_def split: reply.split)

section \<open>What a log says\<close>

text \<open>The bytes answered to the operations that satisfy \<open>c\<close>, and the changes of the flash.\<close>

fun payload :: "reply \<Rightarrow> bytes" where
  "payload (Data bs) = bs"
| "payload _ = []"

fun heard_from :: "(op \<Rightarrow> bool) \<Rightarrow> environment \<Rightarrow> op list \<Rightarrow> op list \<Rightarrow> bytes" where
  "heard_from c env before [] = []"
| "heard_from c env before (x # xs) =
    (if c x then payload (env before x) else []) @ heard_from c env (before @ [x]) xs"

fun is_receive :: "op \<Rightarrow> bool" where
  "is_receive (Receive _) = True"
| "is_receive _ = False"

fun is_fetch :: "op \<Rightarrow> bool" where
  "is_fetch (Fetch _ _) = True"
| "is_fetch _ = False"

fun is_change :: "op \<Rightarrow> bool" where
  "is_change (Erase _ _) = True"
| "is_change (Program _ _) = True"
| "is_change _ = False"

definition heard :: "environment \<Rightarrow> op list \<Rightarrow> bytes" where
  "heard env log = heard_from is_receive env [] log"

definition reread :: "environment \<Rightarrow> op list \<Rightarrow> bytes" where
  "reread env log = heard_from is_fetch env [] log"

definition changes :: "op list \<Rightarrow> op list" where
  "changes log = filter is_change log"

lemma heard_from_append:
  "heard_from c env before (xs @ ys) = heard_from c env before xs @ heard_from c env (before @ xs) ys"
  by (induction xs arbitrary: before) simp_all

lemma heard_simps [simp]:
  "heard env [] = []"
  "heard env (log @ [x]) = heard env log @ (if is_receive x then payload (env log x) else [])"
  by (simp_all add: heard_def heard_from_append)

lemma reread_simps [simp]:
  "reread env [] = []"
  "reread env (log @ [x]) = reread env log @ (if is_fetch x then payload (env log x) else [])"
  by (simp_all add: reread_def heard_from_append)

lemma changes_simps [simp]:
  "changes [] = []"
  "changes (log @ [x]) = changes log @ (if is_change x then [x] else [])"
  by (simp_all add: changes_def)

text \<open>A log that says just this.\<close>

definition says :: "environment \<Rightarrow> bytes \<Rightarrow> bytes \<Rightarrow> op list \<Rightarrow> op list \<Rightarrow> bool" where
  "says env a b c log \<longleftrightarrow> heard env log = a \<and> reread env log = b \<and> changes log = c"

lemma says_empty [simp]: "says env [] [] [] []"
  by (simp add: says_def)

lemma says_snoc:
  "says env a b c log \<Longrightarrow>
    says env (a @ (if is_receive x then payload (env log x) else []))
      (b @ (if is_fetch x then payload (env log x) else [])) (c @ (if is_change x then [x] else []))
      (log @ [x])"
  by (simp add: says_def)

lemma runs_if:
  assumes "b \<Longrightarrow> runs p m q" and "\<not> b \<Longrightarrow> runs p m' q"
  shows "runs p (if b then m else m') q"
  using assms by simp

lemma runs_post:
  assumes "runs p m (ends q e)" and "\<And>a log. q a log \<Longrightarrow> q' a log" and "\<And>log. e log \<Longrightarrow> e' log"
  shows "runs p m (ends q' e')"
  unfolding runs_def
proof (intro allI impI)
  fix log
  assume "p log"
  then obtain r l where "m log = (r, l)" "ends q e r l"
    using assms(1) unfolding runs_def by (cases "m log") auto
  then show "case m log of (r, l) \<Rightarrow> ends q' e' r l"
    using assms(2,3) by (cases r) auto
qed

end
