(* ===== verification/Byte_Order.thy ===== *)
theory Byte_Order
  imports Prelude
begin

text \<open>
  The byte-order conversions of the Rust integer types: \<^verbatim>\<open>to_le_bytes\<close>,
  \<^verbatim>\<open>from_le_bytes\<close> and their big-endian forms, for words of any number of bytes.
\<close>

fun le_value :: "bytes \<Rightarrow> nat" where
  "le_value [] = 0"
| "le_value (b # bs) = unat b + 256 * le_value bs"

fun le_digits :: "nat \<Rightarrow> nat \<Rightarrow> bytes" where
  "le_digits 0 v = []"
| "le_digits (Suc n) v = of_nat (v mod 256) # le_digits n (v div 256)"

definition from_le :: "bytes \<Rightarrow> 'a::len word" where
  "from_le bs = of_nat (le_value bs)"

definition to_le :: "nat \<Rightarrow> 'a::len word \<Rightarrow> bytes" where
  "to_le n w = le_digits n (unat w)"

definition from_be :: "bytes \<Rightarrow> 'a::len word" where
  "from_be bs = from_le (rev bs)"

definition to_be :: "nat \<Rightarrow> 'a::len word \<Rightarrow> bytes" where
  "to_be n w = rev (to_le n w)"

lemma length_le_digits [simp]: "length (le_digits n v) = n"
  by (induction n arbitrary: v) simp_all

lemma length_to_le [simp]: "length (to_le n w) = n" "length (to_be n w) = n"
  by (simp_all add: to_le_def to_be_def)

lemma le_value_bound: "le_value bs < 256 ^ length bs"
proof (induction bs)
  case (Cons b bs)
  then show ?case using unat_u8_bound [of b] by simp
qed simp

lemma le_value_digits: "v < 256 ^ n \<Longrightarrow> le_value (le_digits n v) = v"
proof (induction n arbitrary: v)
  case (Suc n)
  then have "v div 256 < 256 ^ n" by (simp add: less_mult_imp_div_less mult.commute)
  then show ?case using Suc.IH by (simp add: unat_of_nat)
qed simp

lemma le_digits_value: "le_digits (length bs) (le_value bs) = bs"
proof (induction bs)
  case (Cons b bs)
  have "unat b < 256" by (rule unat_u8_bound)
  then show ?case using Cons by (simp add: unat_of_nat)
qed simp

lemma from_to_le:
  assumes "LENGTH('a) = 8 * n"
  shows "from_le (to_le n (w :: 'a::len word)) = w"
proof -
  have "(2 :: nat) ^ (8 * n) = 256 ^ n" by (simp add: power_mult)
  then have "unat w < 256 ^ n" using unat_below [of w] assms by simp
  then show ?thesis by (simp add: from_le_def to_le_def le_value_digits)
qed

lemma to_from_le:
  assumes "LENGTH('a) = 8 * length bs"
  shows "to_le (length bs) (from_le bs :: 'a::len word) = bs"
proof -
  have "(2 :: nat) ^ (8 * length bs) = 256 ^ length bs" by (simp add: power_mult)
  then have "le_value bs < 2 ^ LENGTH('a)" using le_value_bound [of bs] assms by simp
  then have "unat (of_nat (le_value bs) :: 'a word) = le_value bs"
    by (simp add: unat_of_nat)
  then show ?thesis by (simp add: from_le_def to_le_def le_digits_value)
qed

lemma from_to_be:
  "LENGTH('a) = 8 * n \<Longrightarrow> from_be (to_be n (w :: 'a::len word)) = w"
  by (simp add: from_be_def to_be_def from_to_le)

lemma to_from_be:
  "LENGTH('a) = 8 * length bs \<Longrightarrow> to_be (length bs) (from_be bs :: 'a::len word) = bs"
  using to_from_le [of "rev bs", where 'a = 'a] by (simp add: from_be_def to_be_def)

text \<open>Slices with literal bounds.\<close>

lemma split_at: "xs = take n xs @ drop n xs"
  by simp

lemma slice_cut: "a \<le> b \<Longrightarrow> drop a xs = slice a b xs @ drop b xs"
  by (metis add_diff_inverse_nat append_take_drop_id drop_drop not_le slice_def add.commute)

end
