(* ===== verification/Text_Parsing.thy ===== *)
theory Text_Parsing
  imports Bytes_Text
begin

text \<open>
  The functions of the Rust standard library that take texts apart: \<^verbatim>\<open>trim\<close>, \<^verbatim>\<open>split\<close> and
  the parsing of hexadecimal and unsigned decimal numbers.
\<close>

section \<open>White space\<close>

text \<open>
  \<^verbatim>\<open>str::trim\<close> strips the characters with the Unicode property White_Space, here by their
  UTF-8 encodings.
\<close>

definition white_space :: "bytes list" where
  "white_space =
    [[0x09], [0x0A], [0x0B], [0x0C], [0x0D], [0x20], [0xC2, 0x85], [0xC2, 0xA0],
     [0xE1, 0x9A, 0x80], [0xE2, 0x80, 0x80], [0xE2, 0x80, 0x81], [0xE2, 0x80, 0x82],
     [0xE2, 0x80, 0x83], [0xE2, 0x80, 0x84], [0xE2, 0x80, 0x85], [0xE2, 0x80, 0x86],
     [0xE2, 0x80, 0x87], [0xE2, 0x80, 0x88], [0xE2, 0x80, 0x89], [0xE2, 0x80, 0x8A],
     [0xE2, 0x80, 0xA8], [0xE2, 0x80, 0xA9], [0xE2, 0x80, 0xAF], [0xE2, 0x81, 0x9F],
     [0xE3, 0x80, 0x80]]"

definition strip_prefix :: "bytes \<Rightarrow> bytes \<Rightarrow> bytes option" where
  "strip_prefix p s = (if take (length p) s = p then Some (drop (length p) s) else None)"

definition strip_first :: "bytes list \<Rightarrow> bytes \<Rightarrow> bytes option" where
  "strip_first ps s =
    (case filter (\<lambda>p. take (length p) s = p) ps of [] \<Rightarrow> None | p # _ \<Rightarrow> Some (drop (length p) s))"

lemma strip_first_shorter:
  assumes "[] \<notin> set ps" and "strip_first ps s = Some r"
  shows "length r < length s"
proof -
  obtain p rest where p: "filter (\<lambda>p. take (length p) s = p) ps = p # rest" "r = drop (length p) s"
    using assms(2) by (auto simp: strip_first_def split: list.splits)
  then have "p \<in> set (filter (\<lambda>p. take (length p) s = p) ps)" by simp
  then have "take (length p) s = p" "p \<noteq> []" using assms(1) by auto
  then have "s \<noteq> []" by auto
  then show ?thesis using p(2) \<open>p \<noteq> []\<close> by simp
qed

function trim_front :: "bytes list \<Rightarrow> bytes \<Rightarrow> bytes" where
  "trim_front ps s =
    (if [] \<in> set ps then s
     else case strip_first ps s of None \<Rightarrow> s | Some r \<Rightarrow> trim_front ps r)"
  by auto

termination
  by (relation "measure (\<lambda>(ps, s). length s)") (auto dest: strip_first_shorter)

declare trim_front.simps [simp del]

definition trim :: "bytes \<Rightarrow> bytes" where
  "trim s = rev (trim_front (map rev white_space) (rev (trim_front white_space s)))"

definition visible :: "u8 \<Rightarrow> bool" where
  "visible b \<longleftrightarrow> 0x21 \<le> b \<and> b < 0x80"

lemma trim_front_stops:
  assumes "list_all (\<lambda>p. p \<noteq> [] \<and> hd p \<noteq> b) ps"
  shows "trim_front ps (b # s) = b # s"
proof -
  have "filter (\<lambda>p. take (length p) (b # s) = p) ps = []"
    using assms by (auto simp: filter_empty_conv list_all_iff take_Cons split: nat.split)
  then have "strip_first ps (b # s) = None" by (simp add: strip_first_def)
  then show ?thesis by (simp add: trim_front.simps)
qed

lemma trim_front_visible:
  assumes "visible b"
  shows "trim_front white_space (b # s) = b # s" "trim_front (map rev white_space) (b # s) = b # s"
  using assms
  by (intro trim_front_stops, force simp: white_space_def visible_def word_le_unat word_less_unat)+

lemma trim_visible:
  assumes "s \<noteq> []" and "visible (hd s)" and "visible (last s)"
  shows "trim s = s" "trim (s @ [10]) = s"
proof -
  have front: "trim_front white_space (s @ xs) = s @ xs" for xs
    using assms(1,2) trim_front_visible(1) by (cases s) auto
  obtain y ys where r: "rev s = y # ys" "visible y"
    using assms(1,3) by (cases s rule: rev_cases) auto
  have rear: "trim_front (map rev white_space) (rev s) = rev s"
    using trim_front_visible(2) r by simp
  have "strip_first (map rev white_space) (10 # rev s) = Some (rev s)"
    by (simp add: strip_first_def white_space_def)
  then have line: "trim_front (map rev white_space) (10 # rev s) = rev s"
    using rear by (subst trim_front.simps) (simp add: white_space_def)
  show "trim s = s" using front [of "[]"] rear by (simp add: trim_def)
  show "trim (s @ [10]) = s" using front line by (simp add: trim_def)
qed

lemma trim_digits:
  assumes "list_all is_digit s" and "s \<noteq> []"
  shows "trim s = s"
proof (rule trim_visible(1))
  have "visible b" if "b \<in> set s" for b
    using that assms(1) by (force simp: list_all_iff visible_def is_digit_def word_le_unat word_less_unat)
  then show "visible (hd s)" "visible (last s)" using assms(2) by simp_all
qed (rule assms(2))

section \<open>Numbers\<close>

text \<open>\<^verbatim>\<open>u8::from_str_radix(_, 16)\<close>: an optional plus sign and at least one digit.\<close>

definition hex_digit :: "u8 \<Rightarrow> nat option" where
  "hex_digit b =
    (if 48 \<le> b \<and> b \<le> 57 then Some (unat b - 48)
     else if 97 \<le> b \<and> b \<le> 102 then Some (unat b - 87)
     else if 65 \<le> b \<and> b \<le> 70 then Some (unat b - 55)
     else None)"

fun hex_value :: "nat \<Rightarrow> bytes \<Rightarrow> nat option" where
  "hex_value acc [] = Some acc"
| "hex_value acc (b # bs) = (case hex_digit b of None \<Rightarrow> None | Some d \<Rightarrow> hex_value (acc * 16 + d) bs)"

definition u8_from_hex :: "bytes \<Rightarrow> u8 option" where
  "u8_from_hex s =
    (let digits = (case s of b # c # rest \<Rightarrow> if b = 43 then c # rest else s | _ \<Rightarrow> s)
     in if digits = [] then None
        else case hex_value 0 digits of None \<Rightarrow> None | Some n \<Rightarrow> if n < 256 then Some (of_nat n) else None)"

text \<open>\<^verbatim>\<open>from_str\<close> of an unsigned type: an optional plus sign and digits, within the bound.\<close>

definition unsigned_from_str :: "nat \<Rightarrow> bytes \<Rightarrow> nat option" where
  "unsigned_from_str limit bs =
    Option.bind (parse_nat (case bs of b # rest \<Rightarrow> if b = 43 then rest else bs | [] \<Rightarrow> bs))
      (\<lambda>n. if n < limit then Some n else None)"

text \<open>\<^verbatim>\<open>collect\<close> into an option or a result whose error is not looked at.\<close>

fun collect :: "'a option list \<Rightarrow> 'a list option" where
  "collect [] = Some []"
| "collect (x # xs) = Option.bind x (\<lambda>a. map_option ((#) a) (collect xs))"

lemma unsigned_from_str_digits: "n < limit \<Longrightarrow> unsigned_from_str limit (digits n) = Some n"
proof -
  assume n: "n < limit"
  obtain b rest where d: "digits n = b # rest" by (meson digits_nonempty neq_Nil_conv)
  have "b \<noteq> 43" using digits_hd_digit [OF d] by (auto simp: is_digit_def)
  then show ?thesis using n parse_nat_digits [of n] by (simp add: unsigned_from_str_def d)
qed

lemma collect_Some: "collect (map Some xs) = Some xs"
  by (induction xs) simp_all

section \<open>Parts\<close>

text \<open>\<^verbatim>\<open>split\<close> on a character gives at least one part.\<close>

fun split_at :: "u8 \<Rightarrow> bytes \<Rightarrow> bytes list" where
  "split_at c [] = [[]]"
| "split_at c (b # bs) =
    (if b = c then [] # split_at c bs
     else (case split_at c bs of [] \<Rightarrow> [[b]] | f # fs \<Rightarrow> (b # f) # fs))"

lemma split_at_nonempty: "split_at c bs \<noteq> []"
  by (induction bs) (auto split: list.split)

lemma split_at_last: "c \<notin> set f \<Longrightarrow> split_at c f = [f]"
  by (induction f) auto

lemma split_at_next: "c \<notin> set f \<Longrightarrow> split_at c (f @ c # rest) = f # split_at c rest"
  by (induction f) auto

end
