(* ===== verification/Firmware_Rules.thy ===== *)
theory Firmware_Rules
  imports Byte_Order Text_Parsing
begin

text \<open>
  \<^verbatim>\<open>Rust/src/lib.rs\<close>: the hardware-independent rules shared by the firmware images.  The
  echo boundary, the upload header, the layout of MCUboot's slots and trailer, and the
  commands of the management shell.  Flash offsets are \<^verbatim>\<open>u32\<close> words.
\<close>

section \<open>Constants\<close>

definition UDP_ECHO_PORT :: u16 where "UDP_ECHO_PORT = 7"

definition PROFILING_PORT :: u16 where "PROFILING_PORT = 5001"

definition PROFILING_MAGIC :: bytes where "PROFILING_MAGIC = lit ''STRMPRF1''"

definition PROFILING_WIRE_SIZE :: nat where "PROFILING_WIRE_SIZE = 48"

definition SSH_USERNAME :: bytes where "SSH_USERNAME = lit ''board''"

definition FIRMWARE_UPDATE_SUBSYSTEM :: bytes where
  "FIRMWARE_UPDATE_SUBSYSTEM = lit ''firmware-update''"

definition UPDATE_PROTOCOL_MAGIC :: bytes where "UPDATE_PROTOCOL_MAGIC = lit ''FWUP''"

definition UPDATE_PROTOCOL_VERSION :: u8 where "UPDATE_PROTOCOL_VERSION = 1"

definition UPDATE_HEADER_SIZE :: nat where "UPDATE_HEADER_SIZE = 44"

definition MAX_SIGNED_IMAGE_SIZE :: u32 where "MAX_SIGNED_IMAGE_SIZE = 0x40000"

definition MCUBOOT_IMAGE_MAGIC :: bytes where "MCUBOOT_IMAGE_MAGIC = [0x3d, 0xb8, 0xf3, 0x96]"

definition PRIMARY_SLOT_OFFSET :: u32 where "PRIMARY_SLOT_OFFSET = 0x20000"

definition PRIMARY_SLOT_SIZE :: u32 where "PRIMARY_SLOT_SIZE = 0x60000"

definition SECONDARY_SLOT_OFFSET :: u32 where "SECONDARY_SLOT_OFFSET = 0x80000"

definition SECONDARY_SLOT_SIZE :: u32 where "SECONDARY_SLOT_SIZE = 0x80000"

definition STAGED_IMAGE_OFFSET :: u32 where "STAGED_IMAGE_OFFSET = 0xa0000"

definition FLASH_WRITE_SIZE :: nat where "FLASH_WRITE_SIZE = 32"

definition MCUBOOT_TRAILER_MAGIC :: bytes where
  "MCUBOOT_TRAILER_MAGIC = [0x20, 0x00, 0x2d, 0xe1, 0x5d, 0x29, 0x41, 0x0b, 0x8d, 0x77, 0x67, 0x9c,
    0x11, 0x0f, 0x1f, 0x8a]"

definition MAX_DATAGRAM_SIZE :: nat where "MAX_DATAGRAM_SIZE = 1536"

definition FALLBACK_ADDRESS :: bytes where "FALLBACK_ADDRESS = [192, 168, 0, 10]"

definition FALLBACK_GATEWAY :: bytes where "FALLBACK_GATEWAY = [192, 168, 0, 1]"

definition FALLBACK_PREFIX_LENGTH :: u8 where "FALLBACK_PREFIX_LENGTH = 24"

section \<open>Echo\<close>

definition echo_payload :: "bytes \<Rightarrow> nat \<Rightarrow> bytes option" where
  "echo_payload buffer n = (if n \<le> length buffer then Some (take n buffer) else None)"

section \<open>The upload header\<close>

record update_header =
  image_length :: u32
  sha256 :: bytes

datatype update_header_error =
    Wrong_Magic
  | Unsupported_Version
  | Nonzero_Reserved_Bytes
  | Invalid_Length

definition update_header_decode :: "bytes \<Rightarrow> update_header_error + update_header" where
  "update_header_decode bs =
    (if take 4 bs \<noteq> UPDATE_PROTOCOL_MAGIC then Inl Wrong_Magic
     else if bs ! 4 \<noteq> UPDATE_PROTOCOL_VERSION then Inl Unsupported_Version
     else if slice 5 8 bs \<noteq> replicate 3 0 then Inl Nonzero_Reserved_Bytes
     else
       (let n = from_le (slice 8 12 bs)
        in if \<not> (0x200 \<le> n \<and> n \<le> MAX_SIGNED_IMAGE_SIZE) then Inl Invalid_Length
           else Inr \<lparr>image_length = n, sha256 = drop 12 bs\<rparr>))"

definition has_mcuboot_image_magic :: "bytes \<Rightarrow> bool" where
  "has_mcuboot_image_magic bs \<longleftrightarrow> take 4 bs = MCUBOOT_IMAGE_MAGIC"

section \<open>MCUboot's trailer\<close>

definition trailer_magic_block_offset :: "u32 \<Rightarrow> u32 \<Rightarrow> u32" where
  "trailer_magic_block_offset slot extent = slot + extent - 32"

definition trailer_image_ok_offset :: "u32 \<Rightarrow> u32 \<Rightarrow> u32" where
  "trailer_image_ok_offset slot extent = trailer_magic_block_offset slot extent - 32"

definition trailer_swap_info_offset :: "u32 \<Rightarrow> u32 \<Rightarrow> u32" where
  "trailer_swap_info_offset slot extent = trailer_image_ok_offset slot extent - 64"

definition mcuboot_magic_block :: bytes where
  "mcuboot_magic_block = overwrite (replicate FLASH_WRITE_SIZE 0xff) 16 MCUBOOT_TRAILER_MAGIC"

definition mcuboot_test_swap_info_block :: bytes where
  "mcuboot_test_swap_info_block = (replicate FLASH_WRITE_SIZE 0xff)[0 := 2]"

definition mcuboot_image_ok_block :: bytes where
  "mcuboot_image_ok_block = (replicate FLASH_WRITE_SIZE 0xff)[0 := 1]"

section \<open>Shell commands\<close>

datatype ssh_command = Help | Status | Echo bytes | Exit | Unknown bytes

definition parse_ssh_command :: "bytes \<Rightarrow> ssh_command" where
  "parse_ssh_command line =
    (let line = trim line
     in if line = lit ''help'' then Help
        else if line = lit ''status'' then Status
        else if line = lit ''exit'' \<or> line = lit ''logout'' then Exit
        else if line = lit ''echo'' then Echo []
        else case strip_prefix (lit ''echo '') line of
               Some rest \<Rightarrow> Echo rest
             | None \<Rightarrow> Unknown line)"

section \<open>Facts\<close>

lemma length_blocks [simp]:
  "length mcuboot_magic_block = 32" "length mcuboot_test_swap_info_block = 32"
  "length mcuboot_image_ok_block = 32" "length MCUBOOT_TRAILER_MAGIC = 16"
  by (simp_all add: mcuboot_magic_block_def mcuboot_test_swap_info_block_def mcuboot_image_ok_block_def
      MCUBOOT_TRAILER_MAGIC_def FLASH_WRITE_SIZE_def)

definition update_header_encode :: "update_header \<Rightarrow> bytes" where
  "update_header_encode h =
    UPDATE_PROTOCOL_MAGIC @ [UPDATE_PROTOCOL_VERSION] @ replicate 3 0 @ to_le 4 (image_length h) @ sha256 h"

lemma header_parts:
  assumes "length bs = 44"
  shows "bs = take 4 bs @ [bs ! 4] @ slice 5 8 bs @ slice 8 12 bs @ drop 12 bs"
proof -
  have "drop 4 bs = bs ! 4 # drop 5 bs"
    using assms Cons_nth_drop_Suc [of 4 bs] by simp
  moreover have "drop 5 bs = slice 5 8 bs @ drop 8 bs" "drop 8 bs = slice 8 12 bs @ drop 12 bs"
    by (rule slice_cut, simp)+
  ultimately show ?thesis using split_at [of bs 4] by simp
qed

lemma update_header_decode_Inr:
  assumes "length bs = 44"
  shows "update_header_decode bs = Inr h \<longleftrightarrow>
    bs = update_header_encode h \<and> length (sha256 h) = 32 \<and> 0x200 \<le> image_length h \<and>
    image_length h \<le> 0x40000"
proof
  assume run: "update_header_decode bs = Inr h"
  have "to_le 4 (from_le (slice 8 12 bs) :: u32) = slice 8 12 bs"
    using to_from_le [of "slice 8 12 bs", where 'a = 32] assms by simp
  then show "bs = update_header_encode h \<and> length (sha256 h) = 32 \<and> 0x200 \<le> image_length h \<and>
    image_length h \<le> 0x40000"
    using run assms header_parts [OF assms]
    by (auto simp: update_header_decode_def update_header_encode_def MAX_SIGNED_IMAGE_SIZE_def Let_def
        split: if_splits)
next
  assume h: "bs = update_header_encode h \<and> length (sha256 h) = 32 \<and> 0x200 \<le> image_length h \<and>
    image_length h \<le> 0x40000"
  have f: "from_le (to_le 4 (image_length h)) = image_length h"
    by (rule from_to_le) simp
  show "update_header_decode bs = Inr h"
    using h f
    by (simp add: update_header_decode_def update_header_encode_def UPDATE_PROTOCOL_MAGIC_def slice_def
        MAX_SIGNED_IMAGE_SIZE_def Let_def)
qed

text \<open>A 44-byte upload header is accepted exactly when it is the encoding of an image length
  between \<open>0x200\<close> and \<open>0x40000\<close> and a digest of 32 bytes; the errors are reported in the
  order magic, version, reserved bytes, length.\<close>
theorem update_header_exact:
  assumes "length bs = 44"
  shows "(update_header_decode bs = Inr h \<longleftrightarrow> bs = update_header_encode h \<and> length (sha256 h) = 32 \<and>
      0x200 \<le> image_length h \<and> image_length h \<le> 0x40000) \<and>
    (update_header_decode bs = Inl Wrong_Magic \<longleftrightarrow> take 4 bs \<noteq> lit ''FWUP'') \<and>
    (update_header_decode bs = Inl Unsupported_Version \<longleftrightarrow> take 4 bs = lit ''FWUP'' \<and> bs ! 4 \<noteq> 1) \<and>
    (update_header_decode bs = Inl Nonzero_Reserved_Bytes \<longleftrightarrow>
      take 4 bs = lit ''FWUP'' \<and> bs ! 4 = 1 \<and> slice 5 8 bs \<noteq> [0, 0, 0])"
  using update_header_decode_Inr [OF assms, of h]
  by (auto simp: update_header_decode_def UPDATE_PROTOCOL_MAGIC_def UPDATE_PROTOCOL_VERSION_def
      numeral_3_eq_3 Let_def)

theorem update_header_exact_witness:
  "update_header_decode (update_header_encode \<lparr>image_length = 0x200, sha256 = replicate 32 7\<rparr>) =
    Inr \<lparr>image_length = 0x200, sha256 = replicate 32 7\<rparr>"
proof -
  let ?h = "\<lparr>image_length = 0x200, sha256 = replicate 32 7\<rparr>"
  have "length (update_header_encode ?h) = 44"
    by (simp add: update_header_encode_def UPDATE_PROTOCOL_MAGIC_def)
  then show ?thesis using update_header_exact [of "update_header_encode ?h" ?h] by simp
qed

end
