(* ===== verification/Firmware_Update.thy ===== *)
theory Firmware_Update
  imports Device_Io Firmware_Rules
begin

text \<open>
  \<^verbatim>\<open>Rust/src/firmware_update.rs\<close>: receiving, verifying and staging a signed image, and the
  confirmation of a running trial image.  The digest crate is the parameter \<open>sha\<close>, applied
  to all bytes fed to the hasher.  The offsets stay below \<open>2 ^ 20\<close>, so the \<^verbatim>\<open>u32\<close> sums of
  the code are written as sums of natural numbers.
\<close>

definition TRANSFER_BUFFER_SIZE :: nat where "TRANSFER_BUFFER_SIZE = 1024"

definition PROGRESS_INTERVAL :: nat where "PROGRESS_INTERVAL = 16 * 1024"

section \<open>Receiving\<close>

text \<open>
  \<^verbatim>\<open>read_exact\<close>: no byte ends the upload early; more bytes than asked for would be a slice
  out of range.
\<close>

function read_exact :: "environment \<Rightarrow> nat \<Rightarrow> bytes act" where
  "read_exact env n =
    (if n = 0 then finish []
     else after (perform env (Receive n)) (\<lambda>r.
       case r of
         Data bs \<Rightarrow>
           if bs = [] then stop Ended_Early
           else if n < length bs then stop Panicked
           else after (read_exact env (n - length bs)) (\<lambda>rest. finish (bs @ rest))
       | _ \<Rightarrow> stop Stream_Error))"
  by auto

termination
  by (relation "measure (\<lambda>(env, n). n)") auto

declare read_exact.simps [simp del]

definition progress_line :: "nat \<Rightarrow> nat \<Rightarrow> bytes" where
  "progress_line received whole =
    lit ''PROGRESS '' @ show_u32 (of_nat received) @ [47] @ show_u32 (of_nat whole) @ [10]"

definition write_progress :: "environment \<Rightarrow> nat \<Rightarrow> nat \<Rightarrow> unit act" where
  "write_progress env received whole =
    after (send env (Send (progress_line received whole))) (\<lambda>_. send env Flush)"

text \<open>\<^verbatim>\<open>stream.write_all(message).await?; return Ok(())\<close>\<close>

definition refuse :: "environment \<Rightarrow> string \<Rightarrow> bytes option act" where
  "refuse env message = after (send env (Send (lit message))) (\<lambda>_. finish None)"

definition padded :: "bytes \<Rightarrow> bytes" where
  "padded bs = bs @ replicate ((length bs + 31) div FLASH_WRITE_SIZE * FLASH_WRITE_SIZE - length bs) 0xff"

text \<open>
  The transfer loop: \<open>acc\<close> is what the hasher has been fed; \<open>None\<close> is an early
  \<^verbatim>\<open>return Ok(())\<close> after an error line.  The branch for no bytes is there for termination: \<open>read_exact\<close> returns as many as
  it is asked for (\<open>runs_read_exact\<close>).
\<close>

function transfer :: "environment \<Rightarrow> nat \<Rightarrow> bytes \<Rightarrow> nat \<Rightarrow> bytes option act" where
  "transfer env whole acc next_progress =
    (if length acc < whole then
       after (read_exact env (min TRANSFER_BUFFER_SIZE (whole - length acc))) (\<lambda>bs.
         if bs = [] then stop Panicked
         else if acc = [] \<and> \<not> has_mcuboot_image_magic bs then refuse env ''ERR not an MCUboot image\<newline>''
         else after (drive env (Program (unat STAGED_IMAGE_OFFSET + length acc) (padded bs))) (\<lambda>ok.
           if \<not> ok then refuse env ''ERR flash write\<newline>''
           else
             (let received = length acc + length bs
              in if next_progress \<le> received \<or> received = whole
                 then after (write_progress env received whole) (\<lambda>_.
                   transfer env whole (acc @ bs) (min (received + PROGRESS_INTERVAL) (2 ^ 32 - 1)))
                 else transfer env whole (acc @ bs) next_progress)))
     else finish (Some acc))"
  by auto

termination
  by (relation "measure (\<lambda>(env, whole, acc, next_progress). whole - length acc)") (auto simp flip: length_greater_0_conv)

declare transfer.simps [simp del]

function read_back :: "environment \<Rightarrow> nat \<Rightarrow> bytes \<Rightarrow> bytes option act" where
  "read_back env whole acc =
    (if length acc < whole then
       after (fetch env (unat STAGED_IMAGE_OFFSET + length acc)
           (min TRANSFER_BUFFER_SIZE (whole - length acc))) (\<lambda>r.
         case r of
           None \<Rightarrow> refuse env ''ERR flash read-back\<newline>''
         | Some bs \<Rightarrow> if bs = [] then stop Panicked else read_back env whole (acc @ bs))
     else finish (Some acc))"
  by auto

termination
  by (relation "measure (\<lambda>(env, whole, acc). whole - length acc)") (auto simp flip: length_greater_0_conv)

declare read_back.simps [simp del]

definition activate :: "environment \<Rightarrow> bytes option act" where
  "activate env =
    after (drive env (Program (unat (trailer_swap_info_offset SECONDARY_SLOT_OFFSET SECONDARY_SLOT_SIZE))
        mcuboot_test_swap_info_block)) (\<lambda>ok.
    after (if ok then drive env (Program (unat (trailer_magic_block_offset SECONDARY_SLOT_OFFSET
        SECONDARY_SLOT_SIZE)) mcuboot_magic_block) else finish False) (\<lambda>ok.
      if \<not> ok then refuse env ''ERR activation marker\<newline>''
      else
        after (send env (Send (lit ''OK rebooting into trial image\<newline>''))) (\<lambda>_.
        after (send env Flush) (\<lambda>_.
        after (perform env (Sleep 500)) (\<lambda>_.
        after (perform env Reset) (\<lambda>_. stop Restarted))))))"

text \<open>Verification of the transferred image against the digest of the header, twice.\<close>

definition verify :: "environment \<Rightarrow> (bytes \<Rightarrow> bytes) \<Rightarrow> update_header \<Rightarrow> bytes \<Rightarrow> bytes option act" where
  "verify env sha header content =
    (if sha content \<noteq> sha256 header then refuse env ''ERR transfer digest\<newline>''
     else
       after (read_back env (unat (image_length header)) []) (\<lambda>r.
         case r of
           None \<Rightarrow> finish None
         | Some stored \<Rightarrow>
             if sha stored \<noteq> sha256 header then refuse env ''ERR read-back digest\<newline>''
             else activate env))"

definition stage :: "environment \<Rightarrow> (bytes \<Rightarrow> bytes) \<Rightarrow> update_header \<Rightarrow> bytes option act" where
  "stage env sha header =
    after (send env (Send (lit ''ERASING\<newline>''))) (\<lambda>_.
    after (send env Flush) (\<lambda>_.
    after (drive env (Erase (unat SECONDARY_SLOT_OFFSET)
        (unat (SECONDARY_SLOT_OFFSET + SECONDARY_SLOT_SIZE)))) (\<lambda>ok.
      if \<not> ok then refuse env ''ERR flash erase\<newline>''
      else
        after (send env (Send (lit ''READY\<newline>''))) (\<lambda>_.
        after (send env Flush) (\<lambda>_.
        after (transfer env (unat (image_length header)) [] PROGRESS_INTERVAL) (\<lambda>r.
          case r of None \<Rightarrow> finish None | Some content \<Rightarrow> verify env sha header content))))))"

definition receive_update :: "environment \<Rightarrow> (bytes \<Rightarrow> bytes) \<Rightarrow> bytes option act" where
  "receive_update env sha =
    after (read_exact env UPDATE_HEADER_SIZE) (\<lambda>encoded.
      case update_header_decode encoded of
        Inl _ \<Rightarrow> refuse env ''ERR invalid header\<newline>''
      | Inr header \<Rightarrow> stage env sha header)"

section \<open>Confirming a trial\<close>

definition confirm_trial :: "environment \<Rightarrow> unit act" where
  "confirm_trial env =
    after (fetch env (unat (trailer_magic_block_offset PRIMARY_SLOT_OFFSET PRIMARY_SLOT_SIZE) + 16) 16) (\<lambda>magic.
      if magic \<noteq> Some MCUBOOT_TRAILER_MAGIC then finish ()
      else
        (let image_ok = unat (trailer_image_ok_offset PRIMARY_SLOT_OFFSET PRIMARY_SLOT_SIZE)
         in after (fetch env image_ok 1) (\<lambda>current.
              if is_some_and (\<lambda>c. c ! 0 \<noteq> 1) current
              then after (drive env (Program image_ok mcuboot_image_ok_block)) (\<lambda>_. finish ())
              else finish ())))"

end
