(* ===== verification/Update_Safety.thy ===== *)
theory Update_Safety
  imports Firmware_Update "HOL-Library.Sublist"
begin

text \<open>
  What an upload can do to the flash.  For every environment, the changes of the flash are a
  prefix of one fixed plan: erase the secondary slot, program the uploaded image in
  blocks, and, only after both digests agreed with the header, the swap information and
  last MCUboot's magic.
\<close>

section \<open>The plan\<close>

definition erase_slot :: op where
  "erase_slot = Erase 0x80000 0x100000"

definition mark_swap :: op where
  "mark_swap = Program 0xfff80 mcuboot_test_swap_info_block"

definition mark_magic :: op where
  "mark_magic = Program 0xfffe0 mcuboot_magic_block"

function image_writes :: "nat \<Rightarrow> bytes \<Rightarrow> op list" where
  "image_writes off bs =
    (if bs = [] then []
     else Program off (padded (take 1024 bs)) # image_writes (off + 1024) (drop 1024 bs))"
  by auto

termination
  by (relation "measure (\<lambda>(off, bs). length bs)") auto

declare image_writes.simps [simp del]

lemma image_writes_Nil [simp]: "image_writes off [] = []"
  by (simp add: image_writes.simps)

lemma image_writes_append:
  assumes "1024 dvd length acc" and "bs \<noteq> []" and "length bs \<le> 1024"
  shows "image_writes off (acc @ bs) = image_writes off acc @ [Program (off + length acc) (padded bs)]"
  using assms
proof (induction off acc rule: image_writes.induct)
  case (1 off acc)
  show ?case
  proof (cases "acc = []")
    case True
    then show ?thesis using 1(3,4) by (subst image_writes.simps) simp
  next
    case False
    then have "1024 \<le> length acc" using 1(2) by (intro dvd_imp_le) simp_all
    moreover have "1024 dvd length (drop 1024 acc)"
      using 1(2) calculation by (simp add: dvd_diff_nat)
    ultimately have "image_writes (off + 1024) (drop 1024 acc @ bs) =
        image_writes (off + 1024) (drop 1024 acc) @ [Program (off + length acc) (padded bs)]"
      using 1(1) [OF False] 1(3,4) by (simp add: add.assoc)
    then show ?thesis
      using False \<open>1024 \<le> length acc\<close> image_writes.simps [of off "acc @ bs"] image_writes.simps [of off acc]
      by simp
  qed
qed

lemma trailer_offsets:
  "unat (trailer_swap_info_offset SECONDARY_SLOT_OFFSET SECONDARY_SLOT_SIZE) = 0xfff80"
  "unat (trailer_magic_block_offset SECONDARY_SLOT_OFFSET SECONDARY_SLOT_SIZE) = 0xfffe0"
  "unat (trailer_magic_block_offset PRIMARY_SLOT_OFFSET PRIMARY_SLOT_SIZE) = 0x7ffe0"
  "unat (trailer_image_ok_offset PRIMARY_SLOT_OFFSET PRIMARY_SLOT_SIZE) = 0x7ffc0"
  "unat SECONDARY_SLOT_OFFSET = 0x80000"
  "unat (SECONDARY_SLOT_OFFSET + SECONDARY_SLOT_SIZE) = 0x100000"
  "unat STAGED_IMAGE_OFFSET = 0xa0000"
  by (simp_all add: trailer_swap_info_offset_def trailer_image_ok_offset_def trailer_magic_block_offset_def
      SECONDARY_SLOT_OFFSET_def SECONDARY_SLOT_SIZE_def PRIMARY_SLOT_OFFSET_def PRIMARY_SLOT_SIZE_def
      STAGED_IMAGE_OFFSET_def)

text \<open>What holds of the log of an upload, however it ends.\<close>

definition image_follows :: "environment \<Rightarrow> update_header \<Rightarrow> bytes \<Rightarrow> op list \<Rightarrow> bool" where
  "image_follows env h acc log \<longleftrightarrow>
    update_header_decode (take 44 (heard env log)) = Inr h \<and> prefix acc (drop 44 (heard env log)) \<and>
    length acc \<le> unat (image_length h)"

definition image_verified :: "environment \<Rightarrow> (bytes \<Rightarrow> bytes) \<Rightarrow> update_header \<Rightarrow> bytes \<Rightarrow> op list \<Rightarrow> bool" where
  "image_verified env sha h acc log \<longleftrightarrow>
    drop 44 (heard env log) = acc \<and> length acc = unat (image_length h) \<and> sha acc = sha256 h \<and>
    length (reread env log) = unat (image_length h) \<and> sha (reread env log) = sha256 h"

definition follows_plan :: "environment \<Rightarrow> (bytes \<Rightarrow> bytes) \<Rightarrow> op list \<Rightarrow> bool" where
  "follows_plan env sha log \<longleftrightarrow>
    changes log = [] \<or>
    (\<exists>h acc. image_follows env h acc log \<and>
      (changes log = erase_slot # image_writes 0xa0000 acc \<or>
       (image_verified env sha h acc log \<and>
         (changes log = erase_slot # image_writes 0xa0000 acc @ [mark_swap] \<or>
          changes log = erase_slot # image_writes 0xa0000 acc @ [mark_swap, mark_magic]))))"

lemma says_image_follows:
  assumes "says env (enc @ acc @ rest) b c log" and "update_header_decode enc = Inr h" and "length enc = 44"
    and "length acc \<le> unat (image_length h)"
  shows "image_follows env h acc log"
  using assms by (simp add: says_def image_follows_def)

lemma follows_plan_writes:
  assumes "says env (enc @ acc @ rest) b (erase_slot # image_writes 0xa0000 acc) log"
    and "update_header_decode enc = Inr h" and "length enc = 44" and "length acc \<le> unat (image_length h)"
  shows "follows_plan env sha log"
  using says_image_follows [OF assms] assms(1) unfolding follows_plan_def says_def by blast

lemma follows_plan_marks:
  assumes "says env (enc @ acc) b c log"
    and "c = erase_slot # image_writes 0xa0000 acc @ [mark_swap] \<or>
      c = erase_slot # image_writes 0xa0000 acc @ [mark_swap, mark_magic]"
    and "update_header_decode enc = Inr h" and "length enc = 44" and "length acc = unat (image_length h)"
    and "sha acc = sha256 h" and "length b = unat (image_length h)" and "sha b = sha256 h"
  shows "follows_plan env sha log"
proof -
  have "image_follows env h acc log"
    using says_image_follows [of env enc acc "[]" b c log h] assms by simp
  moreover have "image_verified env sha h acc log"
    using assms by (simp add: says_def image_verified_def)
  ultimately show ?thesis
    using assms(1,2) unfolding follows_plan_def says_def by blast
qed

section \<open>Each step keeps to the plan\<close>

lemma runs_says_send:
  assumes "\<not> is_receive x" and "\<not> is_fetch x" and "\<not> is_change x"
    and "\<And>log. says env a b c log \<Longrightarrow> e log"
  shows "runs (says env a b c) (send env x) (ends (\<lambda>_. says env a b c) e)"
  using assms says_snoc [where x = x] by (intro runs_send) fastforce+

lemma runs_says_drive:
  assumes "is_change x"
  shows "runs (says env a b c) (drive env x) (ends (\<lambda>_. says env a b (c @ [x])) e)"
  using assms says_snoc [where x = x] by (intro runs_drive) (cases x; fastforce)

lemma runs_refuse:
  assumes "\<And>log. says env a b c log \<Longrightarrow> e log"
  shows "runs (says env a b c) (refuse env m) (ends (\<lambda>r log. e log \<and> r = None) e)"
  unfolding refuse_def
  by (rule runs_after [OF runs_says_send]) (use assms in \<open>auto intro: runs_finish\<close>)

lemma runs_read_exact:
  assumes "\<And>more log. says env (a @ more) b c log \<Longrightarrow> e log"
  shows "runs (says env a b c) (read_exact env n)
    (ends (\<lambda>bs log. says env (a @ bs) b c log \<and> length bs = n) e)"
  using assms
proof (induction env n arbitrary: a rule: read_exact.induct)
  case (1 env n)
  have ih: "runs (says env (a @ bs) b c) (read_exact env (n - length bs))
      (ends (\<lambda>rest log. says env ((a @ bs) @ rest) b c log \<and> length rest = n - length bs) e)"
    if "n \<noteq> 0" "bs \<noteq> []" "\<not> n < length bs" for bs
    by (rule 1(1) [OF that]) (rule 1(2), simp)
  show ?case
    unfolding read_exact.simps [of env n]
  proof (rule runs_if)
    assume "n = 0"
    then show "runs (says env a b c) (finish []) (ends (\<lambda>bs log. says env (a @ bs) b c log \<and> length bs = n) e)"
      by (auto intro: runs_finish)
  next
    assume n: "n \<noteq> 0"
    have quiet: "e log" if "says env a b c log" for log
      using 1(2) [of "[]"] that by simp
    show "runs (says env a b c)
      (after (perform env (Receive n)) (\<lambda>r. case r of Data bs \<Rightarrow>
           if bs = [] then stop Ended_Early else if n < length bs then stop Panicked
           else after (read_exact env (n - length bs)) (\<lambda>rest. finish (bs @ rest))
         | _ \<Rightarrow> stop Stream_Error))
      (ends (\<lambda>bs log. says env (a @ bs) b c log \<and> length bs = n) e)"
    proof (rule runs_after [where r = "\<lambda>r. says env (a @ payload r) b c"])
      show "runs (says env a b c) (perform env (Receive n)) (ends (\<lambda>r. says env (a @ payload r) b c) e)"
        using says_snoc [where x = "Receive n"] by (intro runs_perform) fastforce
    next
      fix r
      show "runs (says env (a @ payload r) b c)
        (case r of Data bs \<Rightarrow>
           if bs = [] then stop Ended_Early else if n < length bs then stop Panicked
           else after (read_exact env (n - length bs)) (\<lambda>rest. finish (bs @ rest))
         | _ \<Rightarrow> stop Stream_Error)
        (ends (\<lambda>bs log. says env (a @ bs) b c log \<and> length bs = n) e)"
      proof (cases r)
        case (Data bs)
        show ?thesis
          unfolding Data reply.case payload.simps
        proof (intro runs_if)
          assume "bs \<noteq> []" "\<not> n < length bs"
          then show "runs (says env (a @ bs) b c) (after (read_exact env (n - length bs)) (\<lambda>rest. finish (bs @ rest)))
            (ends (\<lambda>bs log. says env (a @ bs) b c log \<and> length bs = n) e)"
            by (intro runs_after [OF ih [OF n]] runs_finish) auto
        qed (auto intro!: runs_stop intro: quiet 1(2))
      qed (auto intro!: runs_stop quiet)
    qed
  qed
qed

text \<open>The transfer: with the header \<open>h\<close> decoded from the first 44 bytes, either all bytes of
  the image are programmed, or the log keeps to the plan.\<close>

lemma runs_vacuous: "(\<And>log. \<not> p log) \<Longrightarrow> runs p m q"
  by (simp add: runs_def)

lemma runs_write_progress:
  assumes "\<And>log. says env a b c log \<Longrightarrow> e log"
  shows "runs (says env a b c) (write_progress env n m) (ends (\<lambda>_. says env a b c) e)"
  unfolding write_progress_def by (rule runs_after [OF runs_says_send runs_says_send]) (use assms in auto)

lemma runs_transfer:
  assumes h: "update_header_decode enc = Inr h" "length enc = 44" and whole: "whole = unat (image_length h)"
    and acc: "1024 dvd length acc \<or> length acc = whole" "length acc \<le> whole"
  shows "runs (says env (enc @ acc) [] (erase_slot # image_writes 0xa0000 acc))
    (transfer env whole acc next_progress)
    (ends (\<lambda>r log. case r of
         None \<Rightarrow> follows_plan env sha log
       | Some acc \<Rightarrow> length acc = whole \<and> says env (enc @ acc) [] (erase_slot # image_writes 0xa0000 acc) log)
      (follows_plan env sha))"
  (is "runs _ _ (ends ?q ?e)")
  using whole acc
proof (induction env whole acc next_progress rule: transfer.induct)
  case (1 env whole acc next_progress)
  let ?n = "min TRANSFER_BUFFER_SIZE (whole - length acc)"
  let ?says = "\<lambda>rest acc. says env (enc @ acc @ rest) [] (erase_slot # image_writes 0xa0000 acc)"
  let ?q = "\<lambda>r log. case r of
      None \<Rightarrow> follows_plan env sha log
    | Some acc \<Rightarrow> length acc = whole \<and> says env (enc @ acc) [] (erase_slot # image_writes 0xa0000 acc) log"
  have plan: "follows_plan env sha log" if "?says rest acc' log" "length acc' \<le> whole" for rest acc' log
    by (rule follows_plan_writes [OF that(1) h]) (use that(2) 1(3) in simp)
  show ?case
  proof (cases "length acc < whole")
    case False
    then show ?thesis using 1(5) by (auto simp: transfer.simps intro!: runs_finish)
  next
    case more: True
    have rest: "runs (\<lambda>log. says env ((enc @ acc) @ bs) [] (erase_slot # image_writes 0xa0000 acc) log \<and>
          length bs = ?n)
        (if bs = [] then stop Panicked
         else if acc = [] \<and> \<not> has_mcuboot_image_magic bs then refuse env ''ERR not an MCUboot image\<newline>''
         else after (drive env (Program (unat STAGED_IMAGE_OFFSET + length acc) (padded bs))) (\<lambda>ok.
           if \<not> ok then refuse env ''ERR flash write\<newline>''
           else
             (let received = length acc + length bs
              in if next_progress \<le> received \<or> received = whole
                 then after (write_progress env received whole) (\<lambda>_.
                   transfer env whole (acc @ bs) (min (received + PROGRESS_INTERVAL) (2 ^ 32 - 1)))
                 else transfer env whole (acc @ bs) next_progress)))
        (ends ?q (follows_plan env sha))" for bs
    proof (cases "length bs = ?n")
      case n: True
      have bs: "bs \<noteq> []" "length bs \<le> 1024" "length (acc @ bs) \<le> whole"
        using n more by (auto simp: TRANSFER_BUFFER_SIZE_def)
      have aligned: "1024 dvd length acc" using 1(4) more by auto
      have stepped: "image_writes 0xa0000 (acc @ bs) =
          image_writes 0xa0000 acc @ [Program (0xa0000 + length acc) (padded bs)]"
        by (rule image_writes_append [OF aligned bs(1,2)])
      have next_aligned: "1024 dvd length (acc @ bs) \<or> length (acc @ bs) = whole"
        using n aligned bs(3) by (auto simp: TRANSFER_BUFFER_SIZE_def min_def split: if_splits)
      have wrote: "runs (?says bs acc)
          (drive env (Program (unat STAGED_IMAGE_OFFSET + length acc) (padded bs)))
          (ends (\<lambda>_. ?says [] (acc @ bs)) (follows_plan env sha))"
        using runs_says_drive [of "Program (0xa0000 + length acc) (padded bs)" env "enc @ acc @ bs" "[]"
            "erase_slot # image_writes 0xa0000 acc"] by (simp add: stepped trailer_offsets)
      show ?thesis
        unfolding Let_def n [symmetric] if_not_P [OF bs(1)]
      proof (rule runs_pre [where p' = "?says bs acc"], simp, rule runs_if)
        show "runs (?says bs acc) (refuse env ''ERR not an MCUboot image\<newline>'') (ends ?q (follows_plan env sha))"
          by (rule runs_post [OF runs_refuse]) (use plan [of acc bs] more in auto)
      next
        assume magic: "\<not> (acc = [] \<and> \<not> has_mcuboot_image_magic bs)"
        let ?received = "length acc + length bs"
        have inv: "whole = unat (image_length h)" "1024 dvd length (acc @ bs) \<or> length (acc @ bs) = whole"
          "length (acc @ bs) \<le> whole"
          using 1(3) next_aligned bs(3) by auto
        show "runs (?says bs acc)
          (after (drive env (Program (unat STAGED_IMAGE_OFFSET + length acc) (padded bs))) (\<lambda>ok.
             if \<not> ok then refuse env ''ERR flash write\<newline>''
             else if next_progress \<le> ?received \<or> ?received = whole
                  then after (write_progress env ?received whole) (\<lambda>_.
                    transfer env whole (acc @ bs) (min (?received + PROGRESS_INTERVAL) (2 ^ 32 - 1)))
                  else transfer env whole (acc @ bs) next_progress))
          (ends ?q (follows_plan env sha))"
        proof (rule runs_after [OF wrote], rule runs_if)
          show "runs (?says [] (acc @ bs)) (refuse env ''ERR flash write\<newline>'') (ends ?q (follows_plan env sha))"
            by (rule runs_post [OF runs_refuse]) (use plan [of "acc @ bs" "[]"] bs(3) in auto)
        next
          fix ok
          assume ok: "\<not> \<not> ok"
          show "runs (?says [] (acc @ bs))
            (if next_progress \<le> ?received \<or> ?received = whole
             then after (write_progress env ?received whole) (\<lambda>_.
               transfer env whole (acc @ bs) (min (?received + PROGRESS_INTERVAL) (2 ^ 32 - 1)))
             else transfer env whole (acc @ bs) next_progress) (ends ?q (follows_plan env sha))"
            using 1(1) [OF more bs(1) magic ok refl _ inv] 1(2) [OF more bs(1) magic ok refl _ inv]
              plan [of "acc @ bs" "[]"] bs(3)
            by (intro runs_if runs_after [OF runs_write_progress]) auto
        qed
      qed
    qed (simp add: runs_vacuous)
    show ?thesis
      unfolding transfer.simps [of env whole acc next_progress] if_P [OF more]
      by (rule runs_after [OF runs_read_exact rest]) (use more plan in auto)
  qed
qed

lemma runs_ex:
  assumes "\<And>x. runs (p x) m q"
  shows "runs (\<lambda>log. \<exists>x. p x log) m q"
  unfolding runs_def by (intro allI impI, elim exE) (rule assms [unfolded runs_def, rule_format])

lemma runs_given:
  assumes "b \<Longrightarrow> runs p m q"
  shows "runs (\<lambda>log. b \<and> p log) m q"
  unfolding runs_def by (intro allI impI, elim conjE) (rule assms [unfolded runs_def, rule_format])

lemma runs_says_fetch:
  "runs (says env a b c) (fetch env off n)
    (ends (\<lambda>r log. case r of
         None \<Rightarrow> \<exists>more. says env a more c log
       | Some bs \<Rightarrow> says env a (b @ bs) c log \<and> length bs = n) e)"
proof (rule runs_fetch)
  fix log r
  assume "says env a b c log" and r: "\<And>bs. r = Some bs \<Longrightarrow> env log (Fetch off n) = Data bs \<and> length bs = n"
  then have "says env a (b @ payload (env log (Fetch off n))) c (log @ [Fetch off n])"
    using says_snoc [where x = "Fetch off n"] by fastforce
  then show "case r of None \<Rightarrow> \<exists>more. says env a more c (log @ [Fetch off n])
      | Some bs \<Rightarrow> says env a (b @ bs) c (log @ [Fetch off n]) \<and> length bs = n"
    using r by (auto split: option.split)
qed

lemma runs_read_back:
  assumes "\<And>more log. says env a more c log \<Longrightarrow> e log" and "length acc \<le> whole"
  shows "runs (says env a acc c) (read_back env whole acc)
    (ends (\<lambda>r log. case r of None \<Rightarrow> e log | Some b \<Rightarrow> says env a b c log \<and> length b = whole) e)"
  using assms
proof (induction env whole acc rule: read_back.induct)
  case (1 env whole acc)
  let ?n = "min TRANSFER_BUFFER_SIZE (whole - length acc)"
  let ?q = "\<lambda>r log. case r of None \<Rightarrow> e log | Some b \<Rightarrow> says env a b c log \<and> length b = whole"
  show ?case
  proof (cases "length acc < whole")
    case more: True
    have rest: "runs (\<lambda>log. case r of None \<Rightarrow> \<exists>more. says env a more c log
            | Some bs \<Rightarrow> says env a (acc @ bs) c log \<and> length bs = ?n)
        (case r of None \<Rightarrow> refuse env ''ERR flash read-back\<newline>''
         | Some bs \<Rightarrow> if bs = [] then stop Panicked else read_back env whole (acc @ bs)) (ends ?q e)" for r
    proof (cases r)
      case None
      then show ?thesis
        by simp (intro runs_ex runs_post [OF runs_refuse [where e = e]]; auto intro: 1(2))
    next
      case (Some bs)
      show ?thesis
      proof (cases "length bs = ?n")
        case True
        then have "bs \<noteq> []" "length (acc @ bs) \<le> whole"
          using more by (auto simp: TRANSFER_BUFFER_SIZE_def)
        then show ?thesis
          using 1(1) [OF more _ 1(2)] Some by (auto intro: runs_pre)
      qed (simp add: Some runs_vacuous)
    qed
    show ?thesis
      unfolding read_back.simps [of env whole acc] if_P [OF more] by (rule runs_after [OF runs_says_fetch rest])
  qed (use 1(3) in \<open>auto simp: read_back.simps intro!: runs_finish\<close>)
qed

lemma runs_says_perform:
  assumes "\<not> is_receive x" and "\<not> is_fetch x" and "\<not> is_change x"
  shows "runs (says env a b c) (perform env x) (ends (\<lambda>_. says env a b c) e)"
  using assms says_snoc [where x = x] by (intro runs_perform) fastforce

lemma runs_weaken_none:
  assumes "runs p m (ends (\<lambda>r log. e log \<and> r = None) e)"
  shows "runs p m (ends (\<lambda>r. e) e)"
  by (rule runs_post [OF assms]) auto

lemma runs_activate:
  assumes swap: "\<And>log. says env a b (c @ [mark_swap]) log \<Longrightarrow> e log"
    and magic: "\<And>log. says env a b (c @ [mark_swap, mark_magic]) log \<Longrightarrow> e log"
  shows "runs (says env a b c) (activate env) (ends (\<lambda>r log. e log \<and> r = None) e)"
proof -
  let ?tail = "\<lambda>ok. if \<not> ok then refuse env ''ERR activation marker\<newline>''
      else
        after (send env (Send (lit ''OK rebooting into trial image\<newline>''))) (\<lambda>_.
        after (send env Flush) (\<lambda>_.
        after (perform env (Sleep 500)) (\<lambda>_.
        after (perform env Reset) (\<lambda>_. stop Restarted))))"
  have tail: "runs (says env a b c') (?tail ok) (ends (\<lambda>r log. e log \<and> r = None) e)"
    if "\<And>log. says env a b c' log \<Longrightarrow> e log" for c' and ok :: bool
    by (intro runs_if runs_refuse runs_after [OF runs_says_send] runs_after [OF runs_says_perform] runs_stop)
      (simp_all add: that)
  have both: "runs (\<lambda>log. says env a b (c @ [mark_swap]) log)
      (if ok then drive env mark_magic else finish False)
      (ends (\<lambda>_ log. \<exists>c'. (c' = c @ [mark_swap] \<or> c' = c @ [mark_swap, mark_magic]) \<and> says env a b c' log) e)" for ok
    using runs_says_drive [of mark_magic env a b "c @ [mark_swap]"]
    by (auto intro!: runs_finish intro: runs_post simp: mark_magic_def)
  show ?thesis
    unfolding activate_def trailer_offsets mark_swap_def [symmetric] mark_magic_def [symmetric]
    by (rule runs_after [OF runs_says_drive], simp add: mark_swap_def, rule runs_after [OF both],
        intro runs_ex runs_given tail) (use swap magic in auto)
qed

lemma runs_verify:
  assumes h: "update_header_decode enc = Inr h" "length enc = 44" "length acc = unat (image_length h)"
  shows "runs (says env (enc @ acc) [] (erase_slot # image_writes 0xa0000 acc)) (verify env sha h acc)
    (ends (\<lambda>_. follows_plan env sha) (follows_plan env sha))"
proof -
  let ?c = "erase_slot # image_writes 0xa0000 acc"
  have quiet: "follows_plan env sha log" if "says env (enc @ acc) b ?c log" for b log
    using follows_plan_writes [of env enc acc "[]" b log h] h that by simp
  have rest: "runs (says env (enc @ acc) b ?c)
      (if sha b \<noteq> sha256 h then refuse env ''ERR read-back digest\<newline>'' else activate env)
      (ends (\<lambda>_. follows_plan env sha) (follows_plan env sha))"
    if "sha acc = sha256 h" "length b = unat (image_length h)" for b
    using follows_plan_marks [of env enc acc b _ _ h sha] h that
    by (intro runs_if runs_weaken_none runs_refuse runs_activate) (auto intro: quiet)
  show ?thesis
    unfolding verify_def
  proof (rule runs_if)
    show "runs (says env (enc @ acc) [] ?c) (refuse env ''ERR transfer digest\<newline>'')
      (ends (\<lambda>_. follows_plan env sha) (follows_plan env sha))"
      by (rule runs_weaken_none, rule runs_refuse, rule quiet)
  next
    assume digest: "\<not> sha acc \<noteq> sha256 h"
    show "runs (says env (enc @ acc) [] ?c)
      (after (read_back env (unat (image_length h)) []) (\<lambda>r. case r of None \<Rightarrow> finish None
         | Some stored \<Rightarrow> if sha stored \<noteq> sha256 h then refuse env ''ERR read-back digest\<newline>''
             else activate env))
      (ends (\<lambda>_. follows_plan env sha) (follows_plan env sha))"
    proof (rule runs_after [OF runs_read_back [where e = "follows_plan env sha"]])
      fix r
      show "runs (\<lambda>log. case r of None \<Rightarrow> follows_plan env sha log
            | Some b \<Rightarrow> says env (enc @ acc) b ?c log \<and> length b = unat (image_length h))
        (case r of None \<Rightarrow> finish None
         | Some stored \<Rightarrow> if sha stored \<noteq> sha256 h then refuse env ''ERR read-back digest\<newline>''
             else activate env)
        (ends (\<lambda>_. follows_plan env sha) (follows_plan env sha))"
      proof (cases r)
        case (Some b)
        show ?thesis
          unfolding Some option.case conj_commute [where P = "says _ _ _ _ _"]
          by (rule runs_given, rule rest) (use digest in simp_all)
      qed (auto intro: runs_finish)
    qed (auto intro: quiet)
  qed
qed

lemma runs_stage:
  assumes h: "update_header_decode enc = Inr h" "length enc = 44"
  shows "runs (says env enc [] []) (stage env sha h) (ends (\<lambda>_. follows_plan env sha) (follows_plan env sha))"
proof -
  have start: "follows_plan env sha log" if "says env enc [] [] log" for log
    using that by (simp add: says_def follows_plan_def)
  have erased: "follows_plan env sha log" if "says env enc [] [erase_slot] log" for log
    using follows_plan_writes [of env enc "[]" "[]" "[]" log h sha] h that by simp
  have early: "follows_plan env sha log" if "says env (enc @ more) [] [erase_slot] log" for more log
    using follows_plan_writes [of env enc "[]" more "[]" log h sha] h that by simp
  have load: "runs (says env enc [] [erase_slot])
      (after (transfer env (unat (image_length h)) [] PROGRESS_INTERVAL)
        (\<lambda>r. case r of None \<Rightarrow> finish None | Some content \<Rightarrow> verify env sha h content))
      (ends (\<lambda>_. follows_plan env sha) (follows_plan env sha))"
  proof (rule runs_after [where r = "\<lambda>r log. case r of None \<Rightarrow> follows_plan env sha log
      | Some acc \<Rightarrow> length acc = unat (image_length h) \<and>
          says env (enc @ acc) [] (erase_slot # image_writes 0xa0000 acc) log"])
    show "runs (says env enc [] [erase_slot]) (transfer env (unat (image_length h)) [] PROGRESS_INTERVAL)
      (ends (\<lambda>r log. case r of None \<Rightarrow> follows_plan env sha log
         | Some acc \<Rightarrow> length acc = unat (image_length h) \<and>
             says env (enc @ acc) [] (erase_slot # image_writes 0xa0000 acc) log) (follows_plan env sha))"
      using runs_transfer [OF h refl, of "[]" env PROGRESS_INTERVAL sha] by simp
  next
    fix r
    show "runs (\<lambda>log. case r of None \<Rightarrow> follows_plan env sha log
         | Some acc \<Rightarrow> length acc = unat (image_length h) \<and>
             says env (enc @ acc) [] (erase_slot # image_writes 0xa0000 acc) log)
      (case r of None \<Rightarrow> finish None | Some content \<Rightarrow> verify env sha h content)
      (ends (\<lambda>_. follows_plan env sha) (follows_plan env sha))"
    proof (cases r)
      case (Some acc)
      then show ?thesis using runs_given [OF runs_verify [OF h]] by simp
    qed (auto intro: runs_finish)
  qed
  show ?thesis
    unfolding stage_def trailer_offsets erase_slot_def [symmetric]
    apply (rule runs_after [OF runs_says_send], simp_all add: start)
    apply (rule runs_after [OF runs_says_send], simp_all add: start)
    apply (rule runs_after [OF runs_says_drive], simp add: erase_slot_def)
    apply (rule runs_if)
     apply (rule runs_weaken_none, rule runs_refuse, simp add: erased)
    apply (rule runs_after [OF runs_says_send], simp_all add: erased)
    apply (rule runs_after [OF runs_says_send], simp_all add: erased load)
    done
qed

lemma runs_receive_update:
  "runs (says env [] [] []) (receive_update env sha)
    (ends (\<lambda>_. follows_plan env sha) (follows_plan env sha))"
  unfolding receive_update_def
proof (rule runs_after [OF runs_read_exact])
  fix enc
  have start: "follows_plan env sha log" if "says env enc [] [] log" for log
    using that by (simp add: says_def follows_plan_def)
  show "runs (\<lambda>log. says env ([] @ enc) [] [] log \<and> length enc = UPDATE_HEADER_SIZE)
    (case update_header_decode enc of Inl _ \<Rightarrow> refuse env ''ERR invalid header\<newline>'' | Inr h \<Rightarrow> stage env sha h)
    (ends (\<lambda>_. follows_plan env sha) (follows_plan env sha))"
    unfolding conj_commute [where P = "says _ _ _ _ _"]
    by (rule runs_given, cases "update_header_decode enc")
      (use start in \<open>auto intro!: runs_weaken_none [OF runs_refuse] runs_stage simp: UPDATE_HEADER_SIZE_def\<close>)
qed (simp add: says_def follows_plan_def)

end
