(* ===== verification/Update_Completes.thy ===== *)
theory Update_Completes
  imports Update_Safety
begin

text \<open>
  An upload of a good image comes to its end: on a working flash and with a peer that sends
  the whole stream, in pieces of any length, the update programs the image, marks it for a
  trial and restarts.  This also shows that the plan of \<open>Update_Safety\<close> can be carried out.
\<close>

section \<open>A working device\<close>

text \<open>NOR flash: erasing sets all bits, programming clears bits.\<close>

fun flash_step :: "(nat \<Rightarrow> u8) \<Rightarrow> op \<Rightarrow> nat \<Rightarrow> u8" where
  "flash_step m (Erase a b) x = (if a \<le> x \<and> x < b then 0xff else m x)"
| "flash_step m (Program off bs) x =
    (if off \<le> x \<and> x < off + length bs then and (m x) (bs ! (x - off)) else m x)"
| "flash_step m _ x = m x"

definition memory :: "(nat \<Rightarrow> u8) \<Rightarrow> op list \<Rightarrow> nat \<Rightarrow> u8" where
  "memory m ops = foldl flash_step m ops"

definition working :: "environment \<Rightarrow> (nat \<Rightarrow> u8) \<Rightarrow> bytes \<Rightarrow> bool" where
  "working env m stream \<longleftrightarrow>
    (\<forall>log x. (is_change x \<longrightarrow> env log x \<noteq> Failed) \<and> (\<forall>bs. x = Send bs \<longrightarrow> env log x \<noteq> Failed) \<and>
       (x = Flush \<longrightarrow> env log x \<noteq> Failed)) \<and>
    (\<forall>log off n. env log (Fetch off n) = Data (map (memory m (changes log)) [off ..< off + n])) \<and>
    (\<forall>log n. 0 < n \<and> length (heard env log) < length stream \<longrightarrow>
       (\<exists>k. 0 < k \<and> k \<le> n \<and> env log (Receive n) = Data (take k (drop (length (heard env log)) stream))))"

lemma memory_simps [simp]:
  "memory m [] = m"
  "memory m (x # xs) = memory (flash_step m x) xs"
  "memory m (xs @ ys) = memory (memory m xs) ys"
  by (simp_all add: memory_def)

lemma length_padded: "length (padded bs) = (length bs + 31) div 32 * 32"
  by (simp add: padded_def FLASH_WRITE_SIZE_def)

lemma padded_bounds: "length bs \<le> length (padded bs)" "length (padded bs) < length bs + 32"
  unfolding length_padded by linarith+

lemma nth_padded: "i < length bs \<Longrightarrow> padded bs ! i = bs ! i"
  by (simp add: padded_def nth_append)

lemma and_erased: "and (0xff :: u8) b = b"
proof -
  have "(0xff :: u8) = -1" by simp
  then show ?thesis by (metis and.left_neutral)
qed

lemma flash_step_program:
  assumes "\<And>x. off \<le> x \<Longrightarrow> x < off + length bs + 32 \<Longrightarrow> m x = 0xff"
  shows "off \<le> x \<Longrightarrow> x < off + length bs \<Longrightarrow> flash_step m (Program off (padded bs)) x = bs ! (x - off)"
    and "x < off \<or> off + length (padded bs) \<le> x \<Longrightarrow> flash_step m (Program off (padded bs)) x = m x"
  using assms [of x] padded_bounds(1) [of bs] nth_padded [of "x - off" bs] and_erased by auto

lemma memory_image_writes_outside:
  "x < off \<or> off + length acc + 31 \<le> x \<Longrightarrow> memory m (image_writes off acc) x = m x"
proof (induction off acc arbitrary: m rule: image_writes.induct)
  case (1 off acc)
  let ?m = "flash_step m (Program off (padded (take 1024 acc)))"
  have step: "?m x = m x"
    using 1(2) padded_bounds(2) [of "take 1024 acc"] by auto
  show ?case
  proof (cases "length acc \<le> 1024")
    case True
    then show ?thesis using step by (subst image_writes.simps) simp
  next
    case False
    then have "acc \<noteq> []" "x < off + 1024 \<or> off + 1024 + length (drop 1024 acc) + 31 \<le> x"
      using 1(2) by auto
    then show ?thesis using 1(1) [of ?m] step by (subst image_writes.simps) (simp del: flash_step.simps)
  qed
qed

lemma memory_image_writes:
  assumes "\<And>x. off \<le> x \<Longrightarrow> x < off + length acc + 32 \<Longrightarrow> m x = 0xff"
    and "off \<le> x" and "x < off + length acc"
  shows "memory m (image_writes off acc) x = acc ! (x - off)"
  using assms
proof (induction off acc arbitrary: m rule: image_writes.induct)
  case (1 off acc)
  let ?m = "flash_step m (Program off (padded (take 1024 acc)))"
  have ne: "acc \<noteq> []" using 1(3,4) by auto
  have erased: "m x = 0xff" if "off \<le> x" "x < off + length (take 1024 acc) + 32" for x
    using 1(2) that by simp
  show ?case
  proof (cases "length acc \<le> 1024")
    case True
    then show ?thesis
      using flash_step_program(1) [where x = x and m = m and off = off and bs = "take 1024 acc", OF erased] 1(3,4) ne
      by (subst image_writes.simps) (simp del: flash_step.simps)
  next
    case False
    then have full: "length (padded (take 1024 acc)) = 1024" by (simp add: length_padded)
    show ?thesis
    proof (cases "x < off + 1024")
      case True
      then show ?thesis
        using flash_step_program(1) [where x = x and m = m and off = off and bs = "take 1024 acc", OF erased] 1(3,4) ne False
        by (subst image_writes.simps) (simp add: memory_image_writes_outside del: flash_step.simps)
    next
      case xge: False
      have "memory ?m (image_writes (off + 1024) (drop 1024 acc)) x = drop 1024 acc ! (x - (off + 1024))"
      proof (rule 1(1) [OF ne])
        fix y
        assume y: "off + 1024 \<le> y" "y < off + 1024 + length (drop 1024 acc) + 32"
        then have "?m y = m y"
          using flash_step_program(2) [where x = y and m = m and off = off and bs = "take 1024 acc", OF erased] full by (simp del: flash_step.simps)
        then show "?m y = 0xff" using 1(2) [of y] y False by (simp del: flash_step.simps)
      qed (use 1(4) xge False in auto)
      then show ?thesis
        using ne xge False by (subst image_writes.simps) (simp del: flash_step.simps)
    qed
  qed
qed

section \<open>The update on a working device\<close>

lemma after_step: "m log = (Value a, log') \<Longrightarrow> after m f log = f a log'"
  by (simp add: after_def)

lemma working_receive:
  assumes "working env m stream" and "0 < n" and "length (heard env log) < length stream"
  obtains k where "0 < k" "k \<le> n" "env log (Receive n) = Data (take k (drop (length (heard env log)) stream))"
  using assms unfolding working_def by blast

lemma read_exact_working:
  assumes "working env m stream" and "says env (take k stream) b c log" and "k + n \<le> length stream"
  obtains log' where "read_exact env n log = (Value (take n (drop k stream)), log')"
    and "says env (take (k + n) stream) b c log'"
  using assms(2,3)
proof (induction n arbitrary: k log thesis rule: less_induct)
  case (less n)
  show ?case
  proof (cases "n = 0")
    case True
    then show ?thesis using less.prems by (simp add: read_exact.simps finish_def)
  next
    case False
    have h: "length (heard env log) = k" using less.prems(2,3) by (simp add: says_def)
    then obtain j where j: "0 < j" "j \<le> n" "env log (Receive n) = Data (take j (drop k stream))"
      using working_receive [OF assms(1), of n log] less.prems(3) False by auto
    have len: "length (take j (drop k stream)) = j" using j less.prems(3) by simp
    have says: "says env (take (k + j) stream) b c (log @ [Receive n])"
      using says_snoc [OF less.prems(2), of "Receive n"] j(3) by (simp add: take_add)
    obtain log' where l: "read_exact env (n - j) (log @ [Receive n]) =
        (Value (take (n - j) (drop (k + j) stream)), log')" "says env (take (k + j + (n - j)) stream) b c log'"
      by (rule less.IH [where y = "n - j", OF _ _ says]) (use j(1,2) less.prems(3) False in simp_all)
    have "read_exact env n log = after (read_exact env (n - j)) (\<lambda>rest. finish (take j (drop k stream) @ rest)) (log @ [Receive n])"
      using False j len less.prems(3)
      by (subst read_exact.simps) (simp add: after_step [where m = "perform env (Receive n)"] perform_def)
    also have "\<dots> = (Value (take n (drop k stream)), log')"
      using j(2) take_add [of j "n - j" "drop k stream"] by (simp add: after_def l(1) finish_def add.commute)
    finally show ?thesis using less.prems(1) l(2) j(2) by simp
  qed
qed

lemma send_working:
  assumes "working env m stream" and "says env a b c log" and "x = Send bs \<or> x = Flush"
  shows "send env x log = (Value (), log @ [x]) \<and> says env a b c (log @ [x])"
  using assms says_snoc [OF assms(2), of x]
  by (auto simp: send_def after_def perform_def finish_def working_def)

lemma drive_working:
  assumes "working env m stream" and "says env a b c log" and "is_change x"
  shows "drive env x log = (Value True, log @ [x]) \<and> says env a b (c @ [x]) (log @ [x])"
  using assms says_snoc [OF assms(2), of x]
  by (cases x) (auto simp: drive_def after_def perform_def finish_def working_def)

lemma fetch_working:
  assumes "working env m stream" and "says env a b c log"
  shows "fetch env off n log = (Value (Some (map (memory m c) [off ..< off + n])), log @ [Fetch off n]) \<and>
    says env a (b @ map (memory m c) [off ..< off + n]) c (log @ [Fetch off n])"
  using assms says_snoc [OF assms(2), of "Fetch off n"]
  by (auto simp: fetch_def after_def perform_def finish_def working_def says_def)

lemma working_sends:
  assumes "working env m stream"
  shows "send env (Send bs) log = (Value (), log @ [Send bs])" "send env Flush log = (Value (), log @ [Flush])"
  using assms by (simp_all add: send_def after_def perform_def finish_def working_def)

lemma working_drives:
  assumes "working env m stream" and "is_change x"
  shows "drive env x log = (Value True, log @ [x])"
  using assms by (simp add: drive_def after_def perform_def finish_def working_def)

lemma write_progress_working:
  assumes "working env m stream" and "says env a b c log"
  obtains log' where "write_progress env n k log = (Value (), log')" and "says env a b c log'"
  using send_working [OF assms, where x = "Send (progress_line n k)"]
    send_working [OF assms(1), where x = Flush and log = "log @ [Send (progress_line n k)]"]
  by (auto simp: write_progress_def after_def intro: that)

lemma magic_of_prefix: "has_mcuboot_image_magic bs \<Longrightarrow> 4 \<le> n \<or> length bs \<le> n \<Longrightarrow> has_mcuboot_image_magic (take n bs)"
  by (auto simp add: has_mcuboot_image_magic_def min_def)

lemma transfer_step:
  assumes "length acc < whole" and "read_exact env (min TRANSFER_BUFFER_SIZE (whole - length acc)) log = (Value bs, l1)"
    and "bs \<noteq> []" and "acc = [] \<Longrightarrow> has_mcuboot_image_magic bs"
    and "drive env (Program (unat STAGED_IMAGE_OFFSET + length acc) (padded bs)) l1 = (Value True, l2)"
  shows "transfer env whole acc p log =
    (if p \<le> length acc + length bs \<or> length acc + length bs = whole
     then after (write_progress env (length acc + length bs) whole) (\<lambda>_.
       transfer env whole (acc @ bs) (min (length acc + length bs + PROGRESS_INTERVAL) (2 ^ 32 - 1))) l2
     else transfer env whole (acc @ bs) p l2)"
  using assms by (subst transfer.simps) (auto simp: after_def Let_def)

lemma transfer_working:
  assumes "working env m (enc @ content)" and "length content = whole" and "has_mcuboot_image_magic content"
    and "says env (enc @ take k content) [] (erase_slot # image_writes 0xa0000 (take k content)) log"
    and "1024 dvd k \<or> k = whole" and "k \<le> whole"
  obtains log' where "transfer env whole (take k content) p log = (Value (Some content), log')"
    and "says env (enc @ content) [] (erase_slot # image_writes 0xa0000 content) log'"
  using assms(4-)
proof (induction "whole - k" arbitrary: k p log thesis rule: less_induct)
  case less
  let ?n = "min TRANSFER_BUFFER_SIZE (whole - k)"
  have lk: "length (take k content) = k" using assms(2) less.prems(4) by simp
  show ?case
  proof (cases "k < whole")
    case False
    then show ?thesis
      using less.prems assms(2) by (simp add: transfer.simps finish_def)
  next
    case True
    then have n: "0 < ?n" "k + ?n \<le> whole" "1024 dvd k" "?n \<le> 1024"
      using less.prems(3) by (auto simp: TRANSFER_BUFFER_SIZE_def)
    define bs where "bs = take ?n (drop k content)"
    have bs: "length bs = ?n" "bs \<noteq> []" "take k content @ bs = take (k + ?n) content"
      using n assms(2) by (auto simp: bs_def take_add)
    have s0: "says env (take (length enc + k) (enc @ content)) [] (erase_slot # image_writes 0xa0000 (take k content)) log"
      using less.prems(2) by simp
    obtain l1 where r1: "read_exact env ?n log = (Value bs, l1)"
      and s1: "says env (enc @ take (k + ?n) content) [] (erase_slot # image_writes 0xa0000 (take k content)) l1"
      using read_exact_working [OF assms(1) s0, where n = ?n] n assms(2) unfolding bs_def
      by (auto simp: add.assoc)
    let ?w = "Program (unat STAGED_IMAGE_OFFSET + k) (padded bs)"
    have r2: "drive env ?w l1 = (Value True, l1 @ [?w])"
      and s2: "says env (enc @ take (k + ?n) content) [] (erase_slot # image_writes 0xa0000 (take (k + ?n) content)) (l1 @ [?w])"
      using drive_working [OF assms(1) s1, where x = ?w] image_writes_append [where acc = "take k content" and bs = bs and off = "0xa0000"] lk n(3,4) bs
      by (simp_all add: trailer_offsets)
    have magic: "take k content = [] \<Longrightarrow> has_mcuboot_image_magic bs"
      using assms(2,3) n(1,2) True magic_of_prefix [of content ?n]
      by (cases "4 \<le> length content") (auto simp: bs_def TRANSFER_BUFFER_SIZE_def)
    obtain l3 p' where r3: "transfer env whole (take k content) p log = transfer env whole (take (k + ?n) content) p' l3"
      and s3: "says env (enc @ take (k + ?n) content) [] (erase_slot # image_writes 0xa0000 (take (k + ?n) content)) l3"
    proof (cases "p \<le> k + length bs \<or> k + length bs = whole")
      case prog: True
      obtain l3 where "write_progress env (k + length bs) whole (l1 @ [?w]) = (Value (), l3)"
        "says env (enc @ take (k + ?n) content) [] (erase_slot # image_writes 0xa0000 (take (k + ?n) content)) l3"
        by (rule write_progress_working [OF assms(1) s2])
      then show ?thesis
        using transfer_step [where acc = "take k content", OF _ _ bs(2) magic] r1 r2 True lk prog bs(3)
        by (intro that) (auto simp: after_def)
    next
      case False
      then show ?thesis
        using transfer_step [where acc = "take k content", OF _ _ bs(2) magic] r1 r2 True lk bs(3) s2
        by (intro that) auto
    qed
    obtain log' where "transfer env whole (take (k + ?n) content) p' l3 = (Value (Some content), log')"
      "says env (enc @ content) [] (erase_slot # image_writes 0xa0000 content) log'"
      by (rule less.hyps [OF _ _ s3]) (use n in \<open>auto simp: TRANSFER_BUFFER_SIZE_def min_def\<close>)
    then show ?thesis using less.prems(1) r3 by simp
  qed
qed

lemma read_back_step:
  assumes "length acc < whole" and "bs \<noteq> []"
    and "fetch env (0xa0000 + length acc) (min TRANSFER_BUFFER_SIZE (whole - length acc)) log = (Value (Some bs), l1)"
  shows "read_back env whole acc log = read_back env whole (acc @ bs) l1"
  using assms by (subst read_back.simps) (simp add: after_def trailer_offsets)

lemma read_back_working:
  assumes "working env m stream"
    and "says env a (map (memory m c) [0xa0000 ..< 0xa0000 + k]) c log" and "k \<le> whole"
  obtains log' where "read_back env whole (map (memory m c) [0xa0000 ..< 0xa0000 + k]) log =
      (Value (Some (map (memory m c) [0xa0000 ..< 0xa0000 + whole])), log')"
    and "says env a (map (memory m c) [0xa0000 ..< 0xa0000 + whole]) c log'"
  using assms(2,3)
proof (induction "whole - k" arbitrary: k log thesis rule: less_induct)
  case less
  let ?n = "min TRANSFER_BUFFER_SIZE (whole - k)"
  let ?mem = "\<lambda>k. map (memory m c) [0xa0000 ..< 0xa0000 + k]"
  show ?case
  proof (cases "k < whole")
    case False
    then show ?thesis using less.prems by (simp add: read_back.simps finish_def)
  next
    case True
    let ?bs = "map (memory m c) [0xa0000 + k ..< 0xa0000 + k + ?n]"
    have n: "0 < ?n" "k + ?n \<le> whole" using True by (auto simp: TRANSFER_BUFFER_SIZE_def)
    have bs: "?bs \<noteq> []" "?mem k @ ?bs = ?mem (k + ?n)"
      using n(1) upt_add_eq_append [of "0xa0000" "0xa0000 + k" ?n] by (simp_all add: add.assoc)
    obtain l1 where r: "fetch env (0xa0000 + k) ?n log = (Value (Some ?bs), l1)"
      and s1: "says env a (?mem (k + ?n)) c l1"
      using fetch_working [OF assms(1) less.prems(2), of "0xa0000 + k" ?n] unfolding bs(2) by blast
    obtain log' where l: "read_back env whole (?mem (k + ?n)) l1 = (Value (Some (?mem whole)), log')"
      "says env a (?mem whole) c log'"
      by (rule less.hyps [OF _ _ s1]) (use n in \<open>auto simp: min_def\<close>)
    have "read_back env whole (?mem k) log = read_back env whole (?mem (k + ?n)) l1"
      using read_back_step [where acc = "?mem k" and bs = ?bs] True r bs(1) unfolding bs(2) by simp
    then show ?thesis using less.prems(1) l by simp
  qed
qed

lemma activate_working:
  assumes "working env m stream" and "says env a b c log"
  obtains log' where "activate env log = (Restarted, log')" and "says env a b (c @ [mark_swap, mark_magic]) log'"
proof -
  let ?ok = "Send (lit ''OK rebooting into trial image\<newline>'')"
  note swap = drive_working [OF assms, where x = mark_swap, unfolded mark_swap_def, simplified,
      folded mark_swap_def]
  note magic = drive_working [OF assms(1) swap [THEN conjunct2], where x = mark_magic,
      unfolded mark_magic_def, simplified, folded mark_magic_def]
  note ok = send_working [OF assms(1) magic [THEN conjunct2], where x = ?ok, simplified]
  note flush = send_working [OF assms(1) ok [THEN conjunct2], where x = Flush, simplified]
  have "activate env log = (Restarted, log @ [mark_swap, mark_magic, ?ok, Flush, Sleep 500, Reset])"
    using swap magic ok flush
    by (simp add: activate_def trailer_offsets after_def perform_def stop_def
        mark_swap_def [symmetric] mark_magic_def [symmetric])
  moreover have "says env a b (c @ [mark_swap, mark_magic]) (log @ [mark_swap, mark_magic, ?ok, Flush, Sleep 500, Reset])"
    using says_snoc [OF says_snoc [OF flush [THEN conjunct2], where x = "Sleep 500"], where x = Reset] by simp
  ultimately show ?thesis by (rule that)
qed

section \<open>The whole update\<close>

lemma memory_staged:
  assumes "length content \<le> 0x40000"
  shows "map (memory m (erase_slot # image_writes 0xa0000 content)) [0xa0000 ..< 0xa0000 + length content] = content"
proof (rule nth_equalityI)
  fix i
  assume "i < length (map (memory m (erase_slot # image_writes 0xa0000 content)) [0xa0000 ..< 0xa0000 + length content])"
  then show "map (memory m (erase_slot # image_writes 0xa0000 content)) [0xa0000 ..< 0xa0000 + length content] ! i =
      content ! i"
    using assms memory_image_writes [of "0xa0000" content "flash_step m erase_slot" "0xa0000 + i"]
    by (simp add: erase_slot_def)
qed simp

definition plan_of :: "bytes \<Rightarrow> op list" where
  "plan_of content = erase_slot # image_writes 0xa0000 content @ [mark_swap, mark_magic]"

lemma verify_working:
  assumes "working env m stream" and "sha content = sha256 h" and "length content = unat (image_length h)"
    and "length content \<le> 0x40000"
    and "says env a [] (erase_slot # image_writes 0xa0000 content) log"
  obtains log' where "verify env sha h content log = (Restarted, log')" and "says env a content (plan_of content) log'"
proof -
  let ?c = "erase_slot # image_writes 0xa0000 content"
  obtain l1 where r: "read_back env (length content) [] log = (Value (Some content), l1)" and s: "says env a content ?c l1"
    using read_back_working [OF assms(1), of a ?c 0 log "length content"] assms(5)
    unfolding memory_staged [OF assms(4)] by auto
  obtain log' where "activate env l1 = (Restarted, log')" "says env a content (plan_of content) log'"
    using activate_working [OF assms(1) s] unfolding plan_of_def by auto
  then show ?thesis
    using r assms(2,3) by (intro that) (auto simp: verify_def after_def)
qed

lemma stage_working:
  assumes "working env m (enc @ content)" and "sha content = sha256 h" and "length content = unat (image_length h)"
    and "length content \<le> 0x40000" and "has_mcuboot_image_magic content"
    and s: "says env enc [] [] log"
  obtains log' where "stage env sha h log = (Restarted, log')"
    and "says env (enc @ content) content (plan_of content) log'"
proof -
  note w = assms(1)
  have s1: "says env enc [] [] (log @ [Send (lit ''ERASING\<newline>''), Flush])"
    using says_snoc [OF says_snoc [OF s, where x = "Send (lit ''ERASING\<newline>'')"], where x = Flush] by simp
  let ?l2 = "log @ [Send (lit ''ERASING\<newline>''), Flush, erase_slot, Send (lit ''READY\<newline>''), Flush]"
  have s2: "says env enc [] [erase_slot] ?l2"
    using says_snoc [OF says_snoc [OF says_snoc [OF s1, where x = erase_slot],
        where x = "Send (lit ''READY\<newline>'')"], where x = Flush]
    by (simp add: erase_slot_def)
  obtain l3 where r: "transfer env (length content) [] PROGRESS_INTERVAL ?l2 = (Value (Some content), l3)"
    and s3: "says env (enc @ content) [] (erase_slot # image_writes 0xa0000 content) l3"
    using transfer_working [OF w refl assms(5), of 0 ?l2 PROGRESS_INTERVAL] s2 by auto
  obtain log' where v: "verify env sha h content l3 = (Restarted, log')"
    and "says env (enc @ content) content (plan_of content) log'"
    by (rule verify_working [where sha = sha and h = h, OF w assms(2,3,4) s3])
  moreover have "stage env sha h log = (Restarted, log')"
    using working_sends [OF w] working_drives [OF w, where x = erase_slot] r v assms(3)
    by (simp add: stage_def after_def trailer_offsets erase_slot_def)
  ultimately show ?thesis using that by blast
qed

text \<open>The update as a whole; the property follows.\<close>

lemma update_completes:
  assumes w: "working env m (enc @ content)" and enc: "length enc = 44" "update_header_decode enc = Inr h"
    and content: "length content = unat (image_length h)" "has_mcuboot_image_magic content"
      "sha content = sha256 h"
  obtains log where "receive_update env sha [] = (Restarted, log)"
    and "changes log = plan_of content" and "reread env log = content"
proof -
  have le: "length content \<le> 0x40000"
    using enc content(1) update_header_decode_Inr [of enc h] by (simp add: word_le_unat)
  obtain l1 where r: "read_exact env 44 [] = (Value enc, l1)" and s: "says env enc [] [] l1"
    using read_exact_working [OF w, of 0 "[]" "[]" "[]" 44] enc(1) by auto
  obtain log where "stage env sha h l1 = (Restarted, log)" "says env (enc @ content) content (plan_of content) log"
    by (rule stage_working [where sha = sha and h = h, OF w content(3,1) le content(2) s])
  then show ?thesis
    using r enc(2) by (intro that [of log]) (simp_all add: receive_update_def UPDATE_HEADER_SIZE_def after_def says_def)
qed

end
