(* ===== verification/Update_Properties.thy ===== *)
theory Update_Properties
  imports Update_Completes
begin

text \<open>
  The properties of the firmware update, from the plan of \<open>Update_Safety\<close> and the run on a
  working device of \<open>Update_Completes\<close>.
\<close>

section \<open>Where the update writes\<close>

text \<open>A change inside the secondary slot, in whole flash words.\<close>

fun in_secondary_slot :: "op \<Rightarrow> bool" where
  "in_secondary_slot (Erase a b) \<longleftrightarrow> a = 0x80000 \<and> b = 0x100000"
| "in_secondary_slot (Program off bs) \<longleftrightarrow>
    0x80000 \<le> off \<and> off + length bs \<le> 0x100000 \<and> 32 dvd off \<and> 32 dvd length bs"
| "in_secondary_slot _ \<longleftrightarrow> False"

lemma image_writes_in_slot:
  assumes "32 dvd off" and "0x80000 \<le> off" and "off + length acc \<le> 0xe0000"
  shows "list_all in_secondary_slot (image_writes off acc) \<and> mark_magic \<notin> set (image_writes off acc)"
  using assms
proof (induction off acc rule: image_writes.induct)
  case (1 off acc)
  show ?case
  proof (cases "acc = []")
    case False
    have "length (padded (take 1024 acc)) < min 1024 (length acc) + 32"
      using padded_bounds(2) [of "take 1024 acc"] by simp
    moreover have "32 dvd length (padded (take 1024 acc))"
      unfolding length_padded by simp
    moreover have "list_all in_secondary_slot (image_writes (off + 1024) (drop 1024 acc)) \<and>
        mark_magic \<notin> set (image_writes (off + 1024) (drop 1024 acc))"
    proof (cases "length acc \<le> 1024")
      case False
      then show ?thesis using 1(1) [OF \<open>acc \<noteq> []\<close>] 1(2-4) by (simp add: dvd_add_left_iff)
    qed simp
    ultimately show ?thesis
      using False 1(2-4) by (subst (1 2) image_writes.simps) (auto simp: mark_magic_def)
  qed simp
qed

lemma image_follows_small:
  assumes "image_follows env h acc log"
  shows "length acc \<le> 0x40000"
proof -
  have "prefix (take 44 (heard env log)) (heard env log)" by (rule take_is_prefix)
  have "unat (image_length h) \<le> 0x40000"
    using assms
    by (auto simp: image_follows_def update_header_decode_def MAX_SIGNED_IMAGE_SIZE_def Let_def word_le_unat
        split: if_splits)
  then show ?thesis using assms by (simp add: image_follows_def)
qed

lemma follows_plan_in_slot:
  assumes "follows_plan env sha log"
  shows "list_all in_secondary_slot (changes log)"
proof (cases "changes log = []")
  case False
  then obtain h acc where acc: "image_follows env h acc log"
    and c: "changes log = erase_slot # image_writes 0xa0000 acc \<or>
      changes log = erase_slot # image_writes 0xa0000 acc @ [mark_swap] \<or>
      changes log = erase_slot # image_writes 0xa0000 acc @ [mark_swap, mark_magic]"
    using assms unfolding follows_plan_def by blast
  have "list_all in_secondary_slot (image_writes 0xa0000 acc)"
    using image_writes_in_slot [of "0xa0000" acc] image_follows_small [OF acc] by simp
  then show ?thesis
    using c by (auto simp: erase_slot_def mark_swap_def mark_magic_def)
qed simp

lemma follows_plan_magic:
  assumes "follows_plan env sha log" and "mark_magic \<in> set (changes log)"
  obtains h where "update_header_decode (take 44 (heard env log)) = Inr h"
    and "image_verified env sha h (drop 44 (heard env log)) log"
    and "changes log = plan_of (drop 44 (heard env log))"
proof -
  from assms obtain h acc where acc: "image_follows env h acc log"
    and c: "changes log = erase_slot # image_writes 0xa0000 acc \<or>
      image_verified env sha h acc log \<and>
      (changes log = erase_slot # image_writes 0xa0000 acc @ [mark_swap] \<or>
       changes log = erase_slot # image_writes 0xa0000 acc @ [mark_swap, mark_magic])"
    unfolding follows_plan_def by auto
  have "mark_magic \<notin> set (image_writes 0xa0000 acc)"
    using image_writes_in_slot [of "0xa0000" acc] image_follows_small [OF acc] by simp
  then have "image_verified env sha h acc log" "changes log = plan_of acc"
    using c assms(2) by (auto simp: erase_slot_def mark_swap_def mark_magic_def plan_of_def)
  then show ?thesis
    using acc that by (auto simp: image_verified_def image_follows_def)
qed

lemma receive_update_follows_plan: "follows_plan env sha (snd (receive_update env sha []))"
proof -
  obtain r l where run: "receive_update env sha [] = (r, l)" by (cases "receive_update env sha []")
  then have "ends (\<lambda>_. follows_plan env sha) (follows_plan env sha) r l"
    using runs_receive_update [of env sha, unfolded runs_def, rule_format, OF says_empty] by simp
  then show ?thesis using run by (cases r) simp_all
qed

text \<open>C6: whatever the peer sends and the flash answers, an upload changes the flash only by
  erasing the secondary slot and by programming whole flash words inside it.\<close>
theorem update_stays_in_secondary_slot:
  "list_all in_secondary_slot (changes (snd (receive_update env sha [])))"
  by (rule follows_plan_in_slot [OF receive_update_follows_plan])

section \<open>A device that works\<close>

text \<open>The bytes asked for so far; the peer sends as many as it is asked for.\<close>

fun asked :: "op list \<Rightarrow> nat" where
  "asked [] = 0"
| "asked (Receive n # log) = n + asked log"
| "asked (_ # log) = asked log"

definition device :: "(nat \<Rightarrow> u8) \<Rightarrow> bytes \<Rightarrow> environment" where
  "device m stream log x =
    (case x of
       Fetch off n \<Rightarrow> Data (map (memory m (changes log)) [off ..< off + n])
     | Receive n \<Rightarrow> Data (take n (drop (asked log) stream))
     | _ \<Rightarrow> Done)"

lemma asked_append [simp]: "asked (xs @ ys) = asked xs + asked ys"
  by (induction xs rule: asked.induct) simp_all

lemma device_heard: "heard (device m stream) log = take (asked log) stream"
proof (induction log rule: rev_induct)
  case (snoc x log)
  then show ?case by (cases x) (simp_all add: device_def take_add)
qed simp

lemma device_working: "working (device m stream) m stream"
  unfolding working_def device_heard
proof (intro conjI allI impI)
  fix log :: "op list" and n :: nat
  assume "0 < n \<and> length (take (asked log) stream) < length stream"
  then show "\<exists>k>0. k \<le> n \<and> device m stream log (Receive n) = Data (take k (drop (length (take (asked log) stream)) stream))"
    by (intro exI [of _ n]) (simp add: device_def min_def split: if_splits)
qed (auto simp: device_def split: op.split)

definition sample_image :: bytes where
  "sample_image = MCUBOOT_IMAGE_MAGIC @ replicate 508 0"

definition sample_digest :: "bytes \<Rightarrow> bytes" where
  "sample_digest bs = replicate 32 (of_nat (length bs mod 251))"

definition sample_header :: bytes where
  "sample_header = update_header_encode \<lparr>image_length = 0x200, sha256 = sample_digest sample_image\<rparr>"

lemma sample_upload:
  "length sample_header = 44"
  "update_header_decode sample_header = Inr \<lparr>image_length = 0x200, sha256 = sample_digest sample_image\<rparr>"
  "length sample_image = 0x200" "has_mcuboot_image_magic sample_image"
proof -
  show len: "length sample_header = 44"
    by (simp add: sample_header_def update_header_encode_def UPDATE_PROTOCOL_MAGIC_def sample_digest_def)
  show "update_header_decode sample_header = Inr \<lparr>image_length = 0x200, sha256 = sample_digest sample_image\<rparr>"
    unfolding update_header_decode_Inr [OF len] by (simp add: sample_header_def sample_digest_def)
qed (simp_all add: sample_image_def has_mcuboot_image_magic_def MCUBOOT_IMAGE_MAGIC_def)

section \<open>Activation\<close>

text \<open>C5: the magic that makes MCUboot swap the image in is programmed only when the received
  bytes are a valid header and an image of the stated length with the stated digest, and the
  bytes read back from the flash have that length and digest too; the flash then has seen
  exactly the erase, the image, the swap information and last the magic.\<close>
theorem activation_requires_both_digests:
  assumes "mark_magic \<in> set (changes (snd (receive_update env sha [])))"
  shows "\<exists>h content.
    heard env (snd (receive_update env sha [])) = update_header_encode h @ content \<and>
    length content = unat (image_length h) \<and> sha content = sha256 h \<and>
    length (reread env (snd (receive_update env sha []))) = unat (image_length h) \<and>
    sha (reread env (snd (receive_update env sha []))) = sha256 h \<and>
    changes (snd (receive_update env sha [])) =
      Erase 0x80000 0x100000 # image_writes 0xa0000 content @
      [Program 0xfff80 mcuboot_test_swap_info_block, Program 0xfffe0 mcuboot_magic_block]"
proof -
  let ?log = "snd (receive_update env sha [])"
  obtain h where h: "update_header_decode (take 44 (heard env ?log)) = Inr h"
    and v: "image_verified env sha h (drop 44 (heard env ?log)) ?log"
    and c: "changes ?log = plan_of (drop 44 (heard env ?log))"
    by (rule follows_plan_magic [OF receive_update_follows_plan assms])
  have "length (take 44 (heard env ?log)) = 44"
    using v h
    by (auto simp: image_verified_def update_header_decode_def Let_def word_le_unat split: if_splits)
  then have "take 44 (heard env ?log) = update_header_encode h"
    using h update_header_decode_Inr by blast
  then have "heard env ?log = update_header_encode h @ drop 44 (heard env ?log)"
    by (metis append_take_drop_id)
  then show ?thesis
    using v c by (intro exI [of _ h] exI [of _ "drop 44 (heard env ?log)"])
      (simp add: image_verified_def plan_of_def erase_slot_def mark_swap_def mark_magic_def)
qed

lemma sample_update:
  obtains log where "receive_update (device m (sample_header @ sample_image)) sample_digest [] = (Restarted, log)"
    and "changes log = plan_of sample_image" and "reread (device m (sample_header @ sample_image)) log = sample_image"
  by (rule update_completes [OF device_working sample_upload(1,2), where sha = sample_digest])
    (auto simp: sample_upload)

theorem activation_requires_both_digests_witness:
  "\<exists>h content. heard (device (\<lambda>_. 0) (sample_header @ sample_image))
      (snd (receive_update (device (\<lambda>_. 0) (sample_header @ sample_image)) sample_digest [])) =
    update_header_encode h @ content \<and> sample_digest content = sha256 h"
proof -
  have "mark_magic \<in> set (changes (snd (receive_update (device (\<lambda>_. 0) (sample_header @ sample_image))
      sample_digest [])))"
    by (rule sample_update [of "\<lambda>_. 0"]) (simp add: plan_of_def)
  from activation_requires_both_digests [OF this] show ?thesis by blast
qed

lemma map_block:
  assumes "length bs = n" and "b = a + n" and "\<And>x. a \<le> x \<Longrightarrow> x < a + n \<Longrightarrow> f x = bs ! (x - a)"
  shows "map f [a ..< b] = bs"
  using assms by (auto intro!: nth_equalityI)

lemma memory_before_marks:
  assumes "length content \<le> 0x40000" and "0xe0020 \<le> x" and "x < 0x100000"
  shows "memory m (erase_slot # image_writes 0xa0000 content) x = 0xff"
  using assms by (simp add: memory_image_writes_outside) (simp add: erase_slot_def)

lemma memory_plan:
  assumes "length content \<le> 0x40000"
  shows "map (memory m (plan_of content)) [0xa0000 ..< 0xa0000 + length content] = content"
    and "map (memory m (plan_of content)) [0xfff80 ..< 0xfffa0] = mcuboot_test_swap_info_block"
    and "map (memory m (plan_of content)) [0xfffe0 ..< 0x100000] = mcuboot_magic_block"
proof -
  let ?m = "memory m (erase_slot # image_writes 0xa0000 content)"
  have plan: "memory m (plan_of content) = flash_step (flash_step ?m mark_swap) mark_magic"
    by (simp add: plan_of_def)
  have "map (memory m (plan_of content)) [0xa0000 ..< 0xa0000 + length content] =
      map ?m [0xa0000 ..< 0xa0000 + length content]"
    using assms by (intro map_cong refl) (simp add: plan mark_swap_def mark_magic_def)
  then show "map (memory m (plan_of content)) [0xa0000 ..< 0xa0000 + length content] = content"
    unfolding memory_staged [OF assms] .
  note erased = memory_before_marks [OF assms, where m = m] and_erased
  show "map (memory m (plan_of content)) [0xfff80 ..< 0xfffa0] = mcuboot_test_swap_info_block"
    by (rule map_block, simp, simp) (simp add: plan mark_swap_def mark_magic_def erased del: memory_simps)
  show "map (memory m (plan_of content)) [0xfffe0 ..< 0x100000] = mcuboot_magic_block"
    by (rule map_block, simp, simp) (simp add: plan mark_swap_def mark_magic_def erased del: memory_simps)
qed

text \<open>C7: on a working flash, and with a peer that sends the header and the image it describes
  in pieces of any length, the update ends with a restart; the staging area then holds the
  image byte for byte, and the trailer holds the swap information and the magic.\<close>
theorem good_image_is_activated:
  assumes "working env m (enc @ content)" and "length enc = 44" and "update_header_decode enc = Inr h"
    and "length content = unat (image_length h)" and "has_mcuboot_image_magic content"
    and "sha content = sha256 h"
  shows "\<exists>log. receive_update env sha [] = (Restarted, log) \<and>
    map (memory m (changes log)) [0xa0000 ..< 0xa0000 + length content] = content \<and>
    map (memory m (changes log)) [0xfff80 ..< 0xfffa0] = mcuboot_test_swap_info_block \<and>
    map (memory m (changes log)) [0xfffe0 ..< 0x100000] = mcuboot_magic_block"
proof -
  have "length content \<le> 0x40000"
    using assms(2-4) update_header_decode_Inr [of enc h] by (simp add: word_le_unat)
  then show ?thesis
    using memory_plan [of content m] update_completes [where sha = sha and h = h, OF assms] by metis
qed

theorem good_image_is_activated_witness:
  "\<exists>log. receive_update (device (\<lambda>_. 0) (sample_header @ sample_image)) sample_digest [] = (Restarted, log) \<and>
    map (memory (\<lambda>_. 0) (changes log)) [0xfffe0 ..< 0x100000] = mcuboot_magic_block"
  using good_image_is_activated [where env = "device (\<lambda>_. 0) (sample_header @ sample_image)" and
      m = "\<lambda>_. 0" and enc = sample_header and content = sample_image and sha = sample_digest,
      OF device_working sample_upload(1,2)]
  by (auto simp: sample_upload)

end
