(* ===== verification/Boot_Confirmation.thy ===== *)
theory Boot_Confirmation
  imports Update_Properties
begin

text \<open>
  \<^verbatim>\<open>Rust/src/boot_confirmation.rs\<close>: the images without an updater confirm a trial boot
  themselves.  The flash is the environment of \<open>Device_Io\<close>.
\<close>

datatype confirmation_error = Read_Error | Unexpected_Flag | Write_Error | Verify_Error

datatype confirmation = Factory_Image | Already_Confirmed | Confirmed

definition confirm_running_trial :: "environment \<Rightarrow> (confirmation_error + confirmation) act" where
  "confirm_running_trial env =
    (let magic_offset = unat (trailer_magic_block_offset PRIMARY_SLOT_OFFSET PRIMARY_SLOT_SIZE);
         offset = unat (trailer_image_ok_offset PRIMARY_SLOT_OFFSET PRIMARY_SLOT_SIZE)
     in after (fetch env (magic_offset + 16) 16) (\<lambda>magic.
          case magic of
            None \<Rightarrow> finish (Inl Read_Error)
          | Some magic \<Rightarrow>
              if magic \<noteq> MCUBOOT_TRAILER_MAGIC then finish (Inr Factory_Image)
              else after (fetch env offset 32) (\<lambda>block.
                case block of
                  None \<Rightarrow> finish (Inl Read_Error)
                | Some block \<Rightarrow>
                    if block ! 0 = 1 then finish (Inr Already_Confirmed)
                    else if block \<noteq> replicate 32 0xff then finish (Inl Unexpected_Flag)
                    else after (drive env (Program offset mcuboot_image_ok_block)) (\<lambda>ok.
                      if \<not> ok then finish (Inl Write_Error)
                      else after (fetch env offset 32) (\<lambda>block.
                        case block of
                          None \<Rightarrow> finish (Inl Read_Error)
                        | Some block \<Rightarrow>
                            if block \<noteq> mcuboot_image_ok_block then finish (Inl Verify_Error)
                            else finish (Inr Confirmed))))))"

definition mark_ok :: op where
  "mark_ok = Program 0x7ffc0 mcuboot_image_ok_block"

lemma fetch_eq:
  "fetch env off n log =
    (Value (case env log (Fetch off n) of Data bs \<Rightarrow> if length bs = n then Some bs else None | _ \<Rightarrow> None),
     log @ [Fetch off n])"
  by (simp add: fetch_def after_def perform_def finish_def)

lemma drive_eq: "drive env x log = (Value (env log x \<noteq> Failed), log @ [x])"
  by (simp add: drive_def after_def perform_def finish_def)

section \<open>What a confirmation may change\<close>

text \<open>The trial is erased flash: the first two reads of the confirmation say so.\<close>

definition trial_pending :: "environment \<Rightarrow> bool" where
  "trial_pending env \<longleftrightarrow>
    env [] (Fetch 0x7fff0 16) = Data MCUBOOT_TRAILER_MAGIC \<and>
    env [Fetch 0x7fff0 16] (Fetch 0x7ffc0 32) = Data (replicate 32 0xff)"

lemma confirm_run:
  "fst (confirm_running_trial env []) \<in> range Value \<and>
   (changes (snd (confirm_running_trial env [])) = [] \<or>
    changes (snd (confirm_running_trial env [])) = [mark_ok] \<and> trial_pending env) \<and>
   (fst (confirm_running_trial env []) = Value (Inr Confirmed) \<longleftrightarrow>
     trial_pending env \<and> env [Fetch 0x7fff0 16, Fetch 0x7ffc0 32] mark_ok \<noteq> Failed \<and>
     env [Fetch 0x7fff0 16, Fetch 0x7ffc0 32, mark_ok] (Fetch 0x7ffc0 32) = Data mcuboot_image_ok_block)"
  by (simp add: confirm_running_trial_def after_def fetch_eq drive_eq finish_def trailer_offsets Let_def
      mark_ok_def trial_pending_def changes_def split: reply.split)

text \<open>Whatever the flash answers, a confirmation never erases, and programs at most the
  flag of the primary slot, and that only after reading MCUboot's magic and an erased flag;
  it reports success exactly when the programmed flag was read back.\<close>
theorem confirmation_programs_only_the_flag:
  "(changes (snd (confirm_running_trial env [])) = [] \<or>
    changes (snd (confirm_running_trial env [])) = [Program 0x7ffc0 mcuboot_image_ok_block] \<and>
    trial_pending env) \<and>
   (fst (confirm_running_trial env []) = Value (Inr Confirmed) \<longleftrightarrow>
     trial_pending env \<and> env [Fetch 0x7fff0 16, Fetch 0x7ffc0 32] mark_ok \<noteq> Failed \<and>
     env [Fetch 0x7fff0 16, Fetch 0x7ffc0 32, mark_ok] (Fetch 0x7ffc0 32) = Data mcuboot_image_ok_block)"
  using confirm_run [of env] by (simp add: mark_ok_def)

section \<open>On a working flash\<close>

text \<open>A trial boot: MCUboot's magic in the trailer and an erased flag.\<close>

definition trial_boot :: "(nat \<Rightarrow> u8) \<Rightarrow> bool" where
  "trial_boot m \<longleftrightarrow>
    map m [0x7fff0 ..< 0x80000] = MCUBOOT_TRAILER_MAGIC \<and> map m [0x7ffc0 ..< 0x7ffe0] = replicate 32 0xff"

lemma fetch_working_eq:
  assumes "working env m stream"
  shows "fetch env off n log = (Value (Some (map (memory m (changes log)) [off ..< off + n])), log @ [Fetch off n])"
  using assms by (simp add: fetch_eq working_def)

lemma changes_fetch [simp]: "changes (Fetch off n # log) = changes log"
  by (simp add: changes_def)

lemma trial_boot_erased:
  assumes "trial_boot m" and "0x7ffc0 \<le> x" and "x < 0x7ffe0"
  shows "m x = 0xff"
proof -
  have "map m [0x7ffc0 ..< 0x7ffe0] ! (x - 0x7ffc0) = replicate 32 0xff ! (x - 0x7ffc0)"
    using assms(1) unfolding trial_boot_def by metis
  then show ?thesis using assms(2,3) by (simp del: upt_rec_numeral)
qed

lemma flag_programmed:
  assumes "trial_boot m"
  shows "map (memory m [mark_ok]) [0x7ffc0 ..< 0x7ffe0] = mcuboot_image_ok_block"
    and "map (memory m [mark_ok]) [0x7fff0 ..< 0x80000] = MCUBOOT_TRAILER_MAGIC"
proof -
  note erased = trial_boot_erased [OF assms]
  show "map (memory m [mark_ok]) [0x7ffc0 ..< 0x7ffe0] = mcuboot_image_ok_block"
    by (rule map_block, simp, simp) (simp add: mark_ok_def erased and_erased)
  have "map (memory m [mark_ok]) [0x7fff0 ..< 0x80000] = map m [0x7fff0 ..< 0x80000]"
    by (intro map_cong refl) (auto simp: mark_ok_def)
  then show "map (memory m [mark_ok]) [0x7fff0 ..< 0x80000] = MCUBOOT_TRAILER_MAGIC"
    using assms by (simp only: trial_boot_def)
qed

text \<open>On a working flash the first confirmation of a trial boot reports success and programs
  the flag, and a second one finds it confirmed and programs nothing; the confirmation built
  into the updating image programs the same flag.\<close>
theorem confirmation_is_idempotent:
  assumes "working env m stream" and "trial_boot m"
  shows "fst (confirm_running_trial env []) = Value (Inr Confirmed) \<and>
    changes (snd (confirm_running_trial env [])) = [Program 0x7ffc0 mcuboot_image_ok_block] \<and>
    fst (confirm_running_trial env (snd (confirm_running_trial env []))) = Value (Inr Already_Confirmed) \<and>
    changes (snd (confirm_running_trial env (snd (confirm_running_trial env [])))) =
      [Program 0x7ffc0 mcuboot_image_ok_block] \<and>
    changes (snd (confirm_trial env [])) = [Program 0x7ffc0 mcuboot_image_ok_block]"
proof -
  have w: "map (memory m []) [0x7fff0 ..< 0x80000] = MCUBOOT_TRAILER_MAGIC"
    "map (memory m []) [0x7ffc0 ..< 0x7ffe0] = replicate 32 0xff"
    using assms(2) by (simp_all only: trial_boot_def memory_simps)
  have ok: "drive env mark_ok log = (Value True, log @ [mark_ok])" for log
    by (rule working_drives [OF assms(1)]) (simp add: mark_ok_def)
  have f: "fetch env 0x7fff0 16 log = (Value (Some MCUBOOT_TRAILER_MAGIC), log @ [Fetch 0x7fff0 16])"
    "fetch env 0x7ffc0 32 log =
      (Value (Some (if changes log = [] then replicate 32 0xff else mcuboot_image_ok_block)), log @ [Fetch 0x7ffc0 32])"
    if "changes log = [] \<or> changes log = [mark_ok]" for log
    using fetch_working_eq [OF assms(1), of "0x7fff0" 16 log] fetch_working_eq [OF assms(1), of "0x7ffc0" 32 log]
      that w flag_programmed [OF assms(2)]
    by (auto simp del: upt_rec_numeral memory_simps)
  have flag_read: "\<exists>c. fetch env 0x7ffc0 1 log = (Value (Some [c]), log @ [Fetch 0x7ffc0 1]) \<and> c \<noteq> 1"
    if "changes log = []" for log
    using fetch_working_eq [OF assms(1), of "0x7ffc0" 1 log] that
      trial_boot_erased [OF assms(2), of "0x7ffc0"] by simp
  obtain c1 where b: "fetch env 0x7ffc0 1 [Fetch 0x7fff0 16] = (Value (Some [c1]), [Fetch 0x7fff0 16, Fetch 0x7ffc0 1])"
    "c1 \<noteq> 1" using flag_read [of "[Fetch 0x7fff0 16]"] by (auto simp: changes_def)
  let ?l = "[Fetch 0x7fff0 16, Fetch 0x7ffc0 32, mark_ok, Fetch 0x7ffc0 32]"
  have c: "changes (mark_ok # log) = mark_ok # changes log" for log
    by (simp add: changes_def mark_ok_def)
  have flag: "mcuboot_image_ok_block ! 0 = 1" by (simp add: mcuboot_image_ok_block_def FLASH_WRITE_SIZE_def)
  have first: "confirm_running_trial env [] = (Value (Inr Confirmed), ?l)"
    by (simp add: confirm_running_trial_def after_def f ok trailer_offsets Let_def finish_def c
        mark_ok_def [symmetric])
  have "confirm_running_trial env ?l = (Value (Inr Already_Confirmed), ?l @ [Fetch 0x7fff0 16, Fetch 0x7ffc0 32])"
    by (simp add: confirm_running_trial_def after_def f trailer_offsets Let_def finish_def c flag)
  moreover have "changes (snd (confirm_trial env [])) = [mark_ok]"
    by (simp add: confirm_trial_def after_def f b [unfolded One_nat_def] trailer_offsets Let_def finish_def drive_eq changes_def
        mark_ok_def)
  ultimately show ?thesis using first by (simp add: c changes_def mark_ok_def)
qed

definition sample_trial :: "nat \<Rightarrow> u8" where
  "sample_trial x = (if 0x7fff0 \<le> x \<and> x < 0x80000 then MCUBOOT_TRAILER_MAGIC ! (x - 0x7fff0) else 0xff)"

lemma sample_trial_boot: "trial_boot sample_trial"
  unfolding trial_boot_def
  by (intro conjI map_block) (auto simp: sample_trial_def nth_Cons' nth_append)

theorem confirmation_is_idempotent_witness:
  "fst (confirm_running_trial (device sample_trial []) []) = Value (Inr Confirmed)"
  using confirmation_is_idempotent [OF device_working [of sample_trial "[]"] sample_trial_boot] by simp

end
