(* ===== verification/Ssh_Server.thy ===== *)
theory Ssh_Server
  imports Firmware_Update
begin

text \<open>
  \<^verbatim>\<open>Rust/src/ssh_server.rs\<close>: what the management service decides.  Sunset's protocol engine
  is the source of events; the answers are values, and the channel with room for one
  request is part of the state.  A call of the library that fails ends the connection, so a
  run of the model is any prefix of events whose calls succeeded.  The terminal is a state
  machine over bytes, and what is written to the stream is a list of writes.
\<close>

definition SSH_PORT :: u16 where "SSH_PORT = 2222"

definition COMMAND_CAPACITY :: nat where "COMMAND_CAPACITY = 128"

section \<open>Protocol events\<close>

type_synonym channel = nat

datatype session_request =
    Shell channel
  | Exec channel bytes
  | Request_Update channel

datatype pub_key = Ed25519 bytes | Other_Key

datatype serv_event =
    Hostkeys
  | First_Auth
  | Password_Auth
  | Pubkey_Auth bytes pub_key
  | Authenticated
  | Open_Session channel
  | Session_Pty
  | Session_Env
  | Session_Shell channel
  | Session_Exec channel bytes
  | Session_Subsystem channel bytes
  | Defunct
  | Poll_Again

datatype answer =
    Give_Hostkey
  | Only_Public_Key
  | Reject
  | Allow
  | Accept
  | Prohibit
  | Succeed
  | Fail
  | No_Answer
  | Finish
  | Too_Long

text \<open>\<^verbatim>\<open>opened_channel\<close> and the content of the request channel, which holds one element.\<close>

record protocol =
  opened_channel :: "channel option"
  requests :: "session_request option"

definition try_send :: "session_request \<Rightarrow> protocol \<Rightarrow> protocol option" where
  "try_send r p = (if requests p = None then Some (p\<lparr>requests := Some r\<rparr>) else None)"

definition key_accepted :: "bytes \<Rightarrow> bytes \<Rightarrow> pub_key \<Rightarrow> bool" where
  "key_accepted authorized username key \<longleftrightarrow>
    username = SSH_USERNAME \<and> (case key of Ed25519 k \<Rightarrow> k = authorized | Other_Key \<Rightarrow> False)"

text \<open>
  \<^verbatim>\<open>opened_channel.take()\<close> and the hand-over of the request, shared by the three kinds of
  session request: the channel is given up even when the request fails.
\<close>

definition start_session :: "(channel \<Rightarrow> session_request) \<Rightarrow> bool \<Rightarrow> channel \<Rightarrow> protocol \<Rightarrow> protocol \<times> answer" where
  "start_session request allowed channel p =
    (case opened_channel p of
       None \<Rightarrow> (p, Fail)
     | Some handle \<Rightarrow>
         (let p = p\<lparr>opened_channel := None\<rparr>
          in if \<not> allowed \<or> handle \<noteq> channel then (p, Fail)
             else case try_send (request handle) p of None \<Rightarrow> (p, Fail) | Some p \<Rightarrow> (p, Succeed)))"

definition handle_protocol_event :: "bytes \<Rightarrow> protocol \<Rightarrow> serv_event \<Rightarrow> protocol \<times> answer" where
  "handle_protocol_event authorized p event =
    (case event of
       Hostkeys \<Rightarrow> (p, Give_Hostkey)
     | First_Auth \<Rightarrow> (p, Only_Public_Key)
     | Password_Auth \<Rightarrow> (p, Reject)
     | Pubkey_Auth username key \<Rightarrow> (p, if key_accepted authorized username key then Allow else Reject)
     | Authenticated \<Rightarrow> (p, No_Answer)
     | Open_Session channel \<Rightarrow>
         (if opened_channel p = None then (p\<lparr>opened_channel := Some channel\<rparr>, Accept) else (p, Prohibit))
     | Session_Pty \<Rightarrow> (p, Succeed)
     | Session_Env \<Rightarrow> (p, Succeed)
     | Session_Shell channel \<Rightarrow> start_session Shell True channel p
     | Session_Exec channel command \<Rightarrow>
         (if length command \<le> COMMAND_CAPACITY
          then start_session (\<lambda>h. Exec h command) True channel p else (p, Too_Long))
     | Session_Subsystem channel command \<Rightarrow>
         start_session Request_Update (command = FIRMWARE_UPDATE_SUBSYSTEM) channel p
     | Defunct \<Rightarrow> (p, Finish)
     | Poll_Again \<Rightarrow> (p, No_Answer))"

text \<open>
  The two halves of a connection run side by side: the protocol half answers events, the
  session half waits for one request (\<open>Take\<close>) and serves it.  A run is any interleaving.
\<close>

datatype connection_step = Event serv_event | Take

record connection =
  protocol_half :: protocol
  serving :: "session_request option"

definition connection_new :: connection where
  "connection_new = \<lparr>protocol_half = \<lparr>opened_channel = None, requests = None\<rparr>, serving = None\<rparr>"

fun connection_next :: "bytes \<Rightarrow> connection \<Rightarrow> connection_step \<Rightarrow> (connection \<times> answer) option" where
  "connection_next authorized c (Event event) =
    (let (p, a) = handle_protocol_event authorized (protocol_half c) event
     in Some (c\<lparr>protocol_half := p\<rparr>, a))"
| "connection_next authorized c Take =
    (if serving c = None \<and> requests (protocol_half c) \<noteq> None
     then Some (c\<lparr>protocol_half := (protocol_half c)\<lparr>requests := None\<rparr>, serving := requests (protocol_half c)\<rparr>,
       No_Answer)
     else None)"

text \<open>The runs of a connection, with the steps and answers so far, oldest first; an end or an
  over-long command stops the protocol half with the connection.\<close>

inductive connection_run :: "bytes \<Rightarrow> connection \<Rightarrow> (connection_step \<times> answer) list \<Rightarrow> bool" for authorized where
  start: "connection_run authorized connection_new []"
| step: "connection_run authorized c trace \<Longrightarrow> connection_next authorized c x = Some (c', a) \<Longrightarrow>
    a \<noteq> Finish \<Longrightarrow> a \<noteq> Too_Long \<Longrightarrow> connection_run authorized c' (trace @ [(x, a)])"

section \<open>Commands\<close>

text \<open>What \<^verbatim>\<open>embassy_net::Stack\<close> tells of the network.\<close>

record network =
  link_up :: bool
  config_v4 :: "(bytes \<times> u8 \<times> bytes option) option"

text \<open>
  \<^verbatim>\<open>heapless::String\<close>: a piece that does not fit is refused whole and ends the \<^verbatim>\<open>writeln!\<close>,
  whose error is discarded.  Addresses are four octets.
\<close>

fun push_pieces :: "nat \<Rightarrow> bytes \<Rightarrow> bytes list \<Rightarrow> bytes" where
  "push_pieces capacity acc [] = acc"
| "push_pieces capacity acc (p # ps) =
    (if length acc + length p \<le> capacity then push_pieces capacity (acc @ p) ps else acc)"

definition show_u8 :: "u8 \<Rightarrow> bytes" where
  "show_u8 b = show_u32 (ucast b)"

fun show_address :: "bytes \<Rightarrow> bytes list" where
  "show_address [] = []"
| "show_address [b] = [show_u8 b]"
| "show_address (b # bs) = show_u8 b # [46] # show_address bs"

definition eol :: bytes where
  "eol = [13, 10]"

definition status_text :: "network \<Rightarrow> bytes" where
  "status_text net =
    (let line = push_pieces 192;
         s = line [] [lit ''Ethernet link: '', lit (if link_up net then ''up'' else ''down''), eol];
         s = (case config_v4 net of
                Some (address, prefix_len, gateway) \<Rightarrow>
                  (let s = line s ([lit ''IPv4 address: ''] @ show_address address @ [[47], show_u8 prefix_len, eol])
                   in case gateway of
                        Some g \<Rightarrow> line s ([lit ''Gateway: ''] @ show_address g @ [eol])
                      | None \<Rightarrow> s)
              | None \<Rightarrow> line s [lit ''IPv4 address: not configured'' @ eol]);
         s = line s [lit ''UDP echo: port 7'' @ eol]
     in line s [lit ''SSH: port '', show_u32 (ucast SSH_PORT), eol])"

definition help_text :: bytes where
  "help_text =
    lit ''help          show this command list'' @ eol @
    lit ''status        show Ethernet and IPv4 state'' @ eol @
    lit ''echo TEXT     write TEXT back'' @ eol @
    lit ''exit          close the SSH session'' @ eol"

text \<open>The writes of a command, and whether the shell goes on.\<close>

definition execute_command :: "network \<Rightarrow> bytes \<Rightarrow> bytes list \<times> bool" where
  "execute_command net line =
    (case parse_ssh_command line of
       Help \<Rightarrow> ([help_text], True)
     | Status \<Rightarrow> ([status_text net], True)
     | Echo t \<Rightarrow> ([t, eol], True)
     | Exit \<Rightarrow> ([lit ''bye'' @ eol], False)
     | Unknown command \<Rightarrow> ([lit ''unknown command: '', command, eol], True))"

section \<open>The interactive shell\<close>

record shell =
  line :: bytes
  previous_was_cr :: bool

datatype shell_end = Waiting shell | Closed | Not_Utf8

definition shell_new :: shell where
  "shell_new = \<lparr>line = [], previous_was_cr = False\<rparr>"

definition shell_greeting :: bytes where
  "shell_greeting =
    eol @ lit ''NUCLEO-H723ZG Rust management shell'' @ eol @ lit ''Type '' @ [39] @ lit ''help'' @ [39] @
    lit '' for commands.'' @ eol @ lit ''> ''"

definition shell_byte :: "network \<Rightarrow> shell \<Rightarrow> u8 \<Rightarrow> bytes list \<times> shell_end" where
  "shell_byte net s b =
    (if b = 10 \<and> previous_was_cr s then ([], Waiting (s\<lparr>previous_was_cr := False\<rparr>))
     else if b = 13 \<or> b = 10 then
       (case from_utf8 (line s) of
          None \<Rightarrow> ([eol], Not_Utf8)
        | Some t \<Rightarrow>
            (case execute_command net t of
               (out, False) \<Rightarrow> (eol # out, Closed)
             | (out, True) \<Rightarrow> (eol # out @ [lit ''> ''], Waiting \<lparr>line = [], previous_was_cr = b = 13\<rparr>)))
     else if b = 4 then ([], Closed)
     else if b = 8 \<or> b = 0x7f then
       (if line s = [] then ([], Waiting (s\<lparr>previous_was_cr := False\<rparr>))
        else ([[8, 32, 8]], Waiting \<lparr>line = butlast (line s), previous_was_cr = False\<rparr>))
     else if 0x20 \<le> b \<and> b \<le> 0x7e then
       (if length (line s) < COMMAND_CAPACITY
        then ([[b]], Waiting \<lparr>line = line s @ [b], previous_was_cr = False\<rparr>)
        else ([], Waiting (s\<lparr>previous_was_cr := False\<rparr>)))
     else ([], Waiting (s\<lparr>previous_was_cr := False\<rparr>)))"

fun shell_bytes :: "network \<Rightarrow> shell \<Rightarrow> bytes \<Rightarrow> bytes list \<times> shell_end" where
  "shell_bytes net s [] = ([], Waiting s)"
| "shell_bytes net s (b # bs) =
    (case shell_byte net s b of
       (out, Waiting s) \<Rightarrow> (let (more, e) = shell_bytes net s bs in (out @ more, e))
     | (out, e) \<Rightarrow> (out, e))"

text \<open>The loop over the reads; an empty read is the end of the input.\<close>

fun shell_reads :: "network \<Rightarrow> shell \<Rightarrow> bytes list \<Rightarrow> bytes list \<times> shell_end" where
  "shell_reads net s [] = ([], Waiting s)"
| "shell_reads net s (input # inputs) =
    (if input = [] then ([], Closed)
     else case shell_bytes net s input of
       (out, Waiting s) \<Rightarrow> (let (more, e) = shell_reads net s inputs in (out @ more, e))
     | (out, e) \<Rightarrow> (out, e))"

definition interactive_shell :: "network \<Rightarrow> bytes list \<Rightarrow> bytes list \<times> shell_end" where
  "interactive_shell net inputs =
    (let (out, e) = shell_reads net shell_new inputs in (shell_greeting # out, e))"

section \<open>The terminal\<close>

text \<open>A line is printable text within its capacity.\<close>

definition shell_wf :: "shell \<Rightarrow> bool" where
  "shell_wf s \<longleftrightarrow> length (line s) \<le> COMMAND_CAPACITY \<and> (\<forall>b \<in> set (line s). 0x20 \<le> b \<and> b \<le> 0x7e)"

fun end_wf :: "shell_end \<Rightarrow> bool" where
  "end_wf (Waiting s) = shell_wf s"
| "end_wf Closed = True"
| "end_wf Not_Utf8 = False"

lemma shell_wf_new [simp]: "shell_wf shell_new"
  by (simp add: shell_wf_def shell_new_def)

lemma shell_wf_utf8: "shell_wf s \<Longrightarrow> from_utf8 (line s) = Some (line s)"
  by (auto simp: shell_wf_def from_utf8_def word_le_unat word_less_unat dest: bspec intro!: utf8_valid_ascii)

lemma shell_byte_wf: "shell_wf s \<Longrightarrow> end_wf (snd (shell_byte net s b))"
  using shell_wf_utf8 [of s]
  by (auto simp: shell_byte_def shell_wf_def split: prod.splits bool.splits dest: in_set_butlastD)

lemma shell_bytes_wf: "shell_wf s \<Longrightarrow> end_wf (snd (shell_bytes net s bs))"
proof (induction bs arbitrary: s)
  case (Cons b bs)
  obtain out e where b: "shell_byte net s b = (out, e)" by (cases "shell_byte net s b")
  then have e: "end_wf e" using shell_byte_wf [OF Cons.prems, of net b] by simp
  show ?case
  proof (cases e)
    case (Waiting s')
    then show ?thesis using b e Cons.IH [of s'] by (simp add: case_prod_beta Let_def)
  qed (use b e in simp_all)
qed simp

lemma shell_reads_wf: "shell_wf s \<Longrightarrow> end_wf (snd (shell_reads net s inputs))"
proof (induction inputs arbitrary: s)
  case (Cons input inputs)
  obtain out e where r: "shell_bytes net s input = (out, e)" by (cases "shell_bytes net s input")
  then have e: "end_wf e" using shell_bytes_wf [OF Cons.prems, of net input] by simp
  show ?case
  proof (cases e)
    case (Waiting s')
    then show ?thesis using r e Cons.IH [of s'] by (simp add: case_prod_beta Let_def)
  qed (use r e in simp_all)
qed simp

text \<open>Whatever bytes arrive, in whatever pieces, the line of the shell never holds more than
  128 bytes, all printable ASCII, so the error for a command that is not UTF-8 cannot occur.\<close>
theorem shell_line_is_text:
  "end_wf (snd (interactive_shell net inputs))"
  using shell_reads_wf [OF shell_wf_new, of net inputs] by (simp add: interactive_shell_def case_prod_beta Let_def)

lemma shell_bytes_append:
  "shell_bytes net s (xs @ ys) =
    (case shell_bytes net s xs of
       (out, Waiting s) \<Rightarrow> (let (more, e) = shell_bytes net s ys in (out @ more, e))
     | (out, e) \<Rightarrow> (out, e))"
  by (induction xs arbitrary: s) (auto split: prod.split shell_end.split)

lemma shell_bytes_typed:
  assumes "\<forall>b \<in> set t. 0x20 \<le> b \<and> b \<le> 0x7e" and "length (line s) + length t \<le> COMMAND_CAPACITY" and "t \<noteq> []"
  shows "shell_bytes net s t = (map (\<lambda>b. [b]) t, Waiting \<lparr>line = line s @ t, previous_was_cr = False\<rparr>)"
  using assms
proof (induction t arbitrary: s)
  case (Cons b t)
  have b: "shell_byte net s b = ([[b]], Waiting \<lparr>line = line s @ [b], previous_was_cr = False\<rparr>)"
    using Cons.prems by (auto simp: shell_byte_def word_le_unat)
  show ?case
  proof (cases "t = []")
    case False
    then show ?thesis using b Cons.IH [of "\<lparr>line = line s @ [b], previous_was_cr = False\<rparr>"] Cons.prems by simp
  qed (simp add: b)
qed simp

text \<open>What a peer that types whole lines sees: the echo, the reply, and a prompt.\<close>

fun conversation :: "network \<Rightarrow> bytes list \<Rightarrow> bytes list" where
  "conversation net [] = []"
| "conversation net (t # ts) =
    (case execute_command net t of
       (out, go) \<Rightarrow> map (\<lambda>b. [b]) t @ [eol] @ out @ (if go then [lit ''> ''] @ conversation net ts else []))"

definition typed :: "bytes \<Rightarrow> bool" where
  "typed t \<longleftrightarrow> (\<forall>b \<in> set t. 0x20 \<le> b \<and> b \<le> 0x7e) \<and> length t \<le> COMMAND_CAPACITY"

lemma shell_enter:
  assumes "typed (line s)" and "b = 13 \<or> b = 10 \<and> \<not> previous_was_cr s"
  shows "shell_byte net s b =
    (case execute_command net (line s) of
       (out, False) \<Rightarrow> (eol # out, Closed)
     | (out, True) \<Rightarrow> (eol # out @ [lit ''> ''], Waiting \<lparr>line = [], previous_was_cr = b = 13\<rparr>))"
  using assms shell_wf_utf8 [of s] by (auto simp: shell_byte_def shell_wf_def typed_def)

text \<open>One line and its end, from a fresh line.\<close>

lemma shell_line:
  assumes t: "typed t" and s: "line s = []" and b: "b = 13 \<or> b = 10 \<and> \<not> previous_was_cr s"
  shows "shell_bytes net s (t @ b # xs) =
    (case execute_command net t of
       (out, False) \<Rightarrow> (map (\<lambda>b. [b]) t @ eol # out, Closed)
     | (out, True) \<Rightarrow>
         (let (rest, e) = shell_bytes net \<lparr>line = [], previous_was_cr = b = 13\<rparr> xs
          in (map (\<lambda>b. [b]) t @ eol # out @ lit ''> '' # rest, e)))"
proof -
  obtain s' where r: "shell_bytes net s t = (map (\<lambda>b. [b]) t, Waiting s')" and l: "line s' = t"
    and c: "b = 13 \<or> b = 10 \<and> \<not> previous_was_cr s'"
    using shell_bytes_typed [of t s net] t s b by (cases "t = []") (auto simp: typed_def)
  show ?thesis
    using shell_enter [of s' b net] l c t
    by (auto simp: shell_bytes_append r split: prod.split bool.split)
qed

lemma shell_line_out:
  assumes "typed t" and "line s = []" and "b = 13 \<or> b = 10 \<and> \<not> previous_was_cr s"
  shows "fst (shell_bytes net s (t @ b # xs)) =
    (case execute_command net t of
       (out, go) \<Rightarrow> map (\<lambda>b. [b]) t @ [eol] @ out @
         (if go then [lit ''> ''] @ fst (shell_bytes net \<lparr>line = [], previous_was_cr = b = 13\<rparr> xs) else []))"
  unfolding shell_line [OF assms] by (simp add: case_prod_beta Let_def split: bool.split)

definition enter :: "bytes \<Rightarrow> bytes list \<Rightarrow> bytes" where
  "enter e ts = concat (map (\<lambda>t. t @ e) ts)"

lemma shell_conversation_crlf:
  assumes "list_all typed ts" and "line s = []" and "\<not> previous_was_cr s"
  shows "fst (shell_bytes net s (enter [13, 10] ts)) = conversation net ts"
  using assms
proof (induction ts arbitrary: s)
  case (Cons t ts)
  let ?s = "\<lparr>line = [], previous_was_cr = False\<rparr>"
  have lf: "shell_bytes net \<lparr>line = [], previous_was_cr = True\<rparr> (10 # xs) = shell_bytes net ?s xs" for xs
    by (simp add: shell_byte_def case_prod_beta)
  show ?case
    using Cons shell_line_out [of t s 13 net "10 # enter [13, 10] ts"]
    by (simp add: enter_def lf case_prod_beta del: shell_bytes.simps)
qed (simp add: enter_def)

lemma shell_conversation_single:
  assumes "list_all typed ts" and "line s = []" and "b = 13 \<or> b = 10 \<and> \<not> previous_was_cr s"
  shows "fst (shell_bytes net s (enter [b] ts)) = conversation net ts"
  using assms
proof (induction ts arbitrary: s)
  case (Cons t ts)
  then show ?case
    using shell_line_out [of t s b net "enter [b] ts"] by (auto simp: enter_def case_prod_beta)
qed (simp add: enter_def)

text \<open>For lines of printable text of at most 128 bytes, the shell writes the same whether
  they end in a carriage return, a line feed or both: the echo of each byte, the line
  break, the reply of the command and, until the command that ends it, a prompt.\<close>
theorem line_endings_are_equivalent:
  assumes "list_all typed ts"
  shows "fst (shell_bytes net shell_new (enter [13, 10] ts)) = conversation net ts \<and>
    fst (shell_bytes net shell_new (enter [13] ts)) = conversation net ts \<and>
    fst (shell_bytes net shell_new (enter [10] ts)) = conversation net ts"
  using assms by (simp add: shell_conversation_crlf shell_conversation_single shell_new_def)

theorem line_endings_are_equivalent_witness:
  "fst (shell_bytes \<lparr>link_up = True, config_v4 = None\<rparr> shell_new (enter [13, 10] [lit ''echo a'', lit ''exit''])) =
    conversation \<lparr>link_up = True, config_v4 = None\<rparr> [lit ''echo a'', lit ''exit'']"
  using line_endings_are_equivalent [of "[lit ''echo a'', lit ''exit'']" "\<lparr>link_up = True, config_v4 = None\<rparr>"]
  by (simp add: typed_def COMMAND_CAPACITY_def word_le_unat)

section \<open>Who is served\<close>

fun handle :: "session_request \<Rightarrow> channel" where
  "handle (Shell h) = h"
| "handle (Exec h _) = h"
| "handle (Request_Update h) = h"

definition pending :: "connection \<Rightarrow> session_request set" where
  "pending c = set_option (requests (protocol_half c)) \<union> set_option (serving c)"

text \<open>The events that ask for a session, and the request they are about.\<close>

fun asks :: "connection_step \<Rightarrow> session_request option" where
  "asks (Event (Session_Shell h)) = Some (Shell h)"
| "asks (Event (Session_Exec h command)) = Some (Exec h command)"
| "asks (Event (Session_Subsystem h command)) = Some (Request_Update h)"
| "asks _ = None"

text \<open>Documented behaviour of the protocol engine: a session is asked for only after some
  authentication attempt was allowed.\<close>

definition gated :: "(connection_step \<times> answer) list \<Rightarrow> bool" where
  "gated trace \<longleftrightarrow>
    (\<forall>before x a after. trace = before @ (x, a) # after \<longrightarrow> asks x \<noteq> None \<longrightarrow> Allow \<in> snd ` set before)"

text \<open>Each pending request was asked for, and its channel accepted.\<close>

definition served_wf :: "bytes \<Rightarrow> connection \<Rightarrow> (connection_step \<times> answer) list \<Rightarrow> bool" where
  "served_wf authorized c trace \<longleftrightarrow>
    (\<forall>h. opened_channel (protocol_half c) = Some h \<longrightarrow> (Event (Open_Session h), Accept) \<in> set trace) \<and>
    (\<forall>r \<in> pending c. (Event (Open_Session (handle r)), Accept) \<in> set trace \<and>
       (\<exists>x. asks x = Some r \<and> (x, Succeed) \<in> set trace)) \<and>
    (\<forall>x. (x, Allow) \<in> set trace \<longrightarrow> x = Event (Pubkey_Auth SSH_USERNAME (Ed25519 authorized)))"

lemma start_session_cases:
  assumes "start_session request allowed h p = (p', a)"
  obtains (refused) "a = Fail" "opened_channel p' = None \<or> opened_channel p' = opened_channel p"
      "requests p' = requests p"
  | (started) "a = Succeed" "allowed" "opened_channel p = Some h" "opened_channel p' = None"
      "requests p = None" "requests p' = Some (request h)"
  using assms
  by (auto simp: start_session_def try_send_def Let_def split: option.splits if_splits)

lemma served_wf_start:
  assumes "served_wf authorized c trace" and "start_session request allowed h (protocol_half c) = (p', a)"
    and "asks (Event e) = Some (request h)" and "handle (request h) = h"
  shows "served_wf authorized (c\<lparr>protocol_half := p'\<rparr>) (trace @ [(Event e, a)])"
  using assms(2)
proof (cases rule: start_session_cases)
  case refused
  then show ?thesis using assms(1) by (auto simp: served_wf_def pending_def)
next
  case started
  then show ?thesis using assms(1,3,4) by (auto simp: served_wf_def pending_def)
qed

lemma served_wf_event:
  assumes "served_wf authorized c trace" and "handle_protocol_event authorized (protocol_half c) e = (p', a)"
    and "a \<noteq> Too_Long"
  shows "served_wf authorized (c\<lparr>protocol_half := p'\<rparr>) (trace @ [(Event e, a)])"
proof (cases "asks (Event e)")
  case (Some r)
  then show ?thesis
    using assms served_wf_start [OF assms(1)]
    by (cases e) (auto simp: handle_protocol_event_def split: if_splits)
next
  case None
  then show ?thesis
    using assms
    by (cases e) (auto simp: handle_protocol_event_def served_wf_def pending_def key_accepted_def
        split: if_splits pub_key.splits)
qed

lemma run_served: "connection_run authorized c trace \<Longrightarrow> served_wf authorized c trace"
proof (induction rule: connection_run.induct)
  case start
  then show ?case by (simp add: served_wf_def connection_new_def pending_def)
next
  case (step c trace x c' a)
  show ?case
  proof (cases x)
    case (Event e)
    then show ?thesis
      using step served_wf_event [of authorized c trace e] by (auto split: prod.splits)
  next
    case Take
    then show ?thesis
      using step by (auto simp: served_wf_def pending_def split: if_splits)
  qed
qed

text \<open>C9: a session is handed to the shell, a command or the updater only on a channel that was
  accepted and for a peer that presented the provisioned Ed25519 key for the one account,
  given that the protocol engine asks for sessions only after an authentication was allowed.\<close>
theorem only_the_operator_is_served:
  assumes "connection_run authorized c trace" and "gated trace" and "r \<in> pending c"
  shows "(Event (Pubkey_Auth SSH_USERNAME (Ed25519 authorized)), Allow) \<in> set trace \<and>
    (Event (Open_Session (handle r)), Accept) \<in> set trace"
proof -
  have wf: "served_wf authorized c trace" by (rule run_served [OF assms(1)])
  then obtain x where x: "asks x = Some r" "(x, Succeed) \<in> set trace"
    using assms(3) unfolding served_wf_def by blast
  then obtain before after where "trace = before @ (x, Succeed) # after"
    using split_list by metis
  then have "Allow \<in> snd ` set before" "set before \<subseteq> set trace"
    using assms(2) x(1) unfolding gated_def by auto
  then obtain y where "(y, Allow) \<in> set trace" by auto
  then show ?thesis using wf assms(3) unfolding served_wf_def by blast
qed

definition sample_trace :: "(connection_step \<times> answer) list" where
  "sample_trace =
    [(Event (Pubkey_Auth SSH_USERNAME (Ed25519 [1])), Allow), (Event (Open_Session 0), Accept),
     (Event (Session_Shell 0), Succeed), (Take, No_Answer)]"

lemma sample_trace_gated: "gated sample_trace"
  by (auto simp: gated_def sample_trace_def Cons_eq_append_conv)

lemma sample_connection:
  "connection_run [1] \<lparr>protocol_half = \<lparr>opened_channel = None, requests = None\<rparr>, serving = Some (Shell 0)\<rparr>
    sample_trace"
proof -
  let ?c = "\<lambda>ch r s. \<lparr>protocol_half = \<lparr>opened_channel = ch, requests = r\<rparr>, serving = s\<rparr>"
  note defs = connection_new_def handle_protocol_event_def key_accepted_def start_session_def try_send_def
  have "connection_run [1] (?c None None None) ([] @ [(Event (Pubkey_Auth SSH_USERNAME (Ed25519 [1])), Allow)])"
    by (rule connection_run.step [OF connection_run.start]) (simp_all add: defs)
  then have "connection_run [1] (?c (Some 0) None None)
      (([] @ [(Event (Pubkey_Auth SSH_USERNAME (Ed25519 [1])), Allow)]) @ [(Event (Open_Session 0), Accept)])"
    by (rule connection_run.step) (simp_all add: defs)
  then have "connection_run [1] (?c None (Some (Shell 0)) None)
      ((([] @ [(Event (Pubkey_Auth SSH_USERNAME (Ed25519 [1])), Allow)]) @ [(Event (Open_Session 0), Accept)]) @
       [(Event (Session_Shell 0), Succeed)])"
    by (rule connection_run.step) (simp_all add: defs)
  then have "connection_run [1] (?c None None (Some (Shell 0)))
      (((([] @ [(Event (Pubkey_Auth SSH_USERNAME (Ed25519 [1])), Allow)]) @ [(Event (Open_Session 0), Accept)]) @
       [(Event (Session_Shell 0), Succeed)]) @ [(Take, No_Answer)])"
    by (rule connection_run.step) (simp_all add: defs)
  then show ?thesis by (simp add: sample_trace_def)
qed

theorem only_the_operator_is_served_witness:
  "(Event (Pubkey_Auth SSH_USERNAME (Ed25519 [1])), Allow) \<in> set sample_trace \<and>
    (Event (Open_Session 0), Accept) \<in> set sample_trace"
  using only_the_operator_is_served [OF sample_connection sample_trace_gated, of "Shell 0"]
  by (simp add: pending_def)

section \<open>The status text\<close>

lemma push_pieces_fit:
  "length acc + length (concat ps) \<le> capacity \<Longrightarrow> push_pieces capacity acc ps = acc @ concat ps"
  by (induction ps arbitrary: acc) simp_all

lemma length_show_u8: "length (show_u8 b) \<le> 3"
proof -
  have "unat (ucast b :: u32) < 256" using unat_u8_bound [of b] by (simp add: unat_ucast_8_32)
  then have n: "unat (ucast b :: u32) div 10 div 10 < 10" by simp
  show ?thesis
    unfolding show_u8_def show_u32_def
    by (subst digits.simps, subst digits.simps, subst digits.simps) (use n in simp)
qed

lemma length_show_address:
  assumes "length a = 4"
  shows "length (concat (show_address a)) \<le> 15"
proof -
  obtain w x y z where "a = [w, x, y, z]"
    using assms by (auto simp: numeral_eq_Suc length_Suc_conv)
  then show ?thesis
    using length_show_u8 [of w] length_show_u8 [of x] length_show_u8 [of y] length_show_u8 [of z] by simp
qed

text \<open>The text without a capacity.\<close>

definition status_spec :: "network \<Rightarrow> bytes" where
  "status_spec net =
    lit ''Ethernet link: '' @ lit (if link_up net then ''up'' else ''down'') @ eol @
    (case config_v4 net of
       Some (address, prefix_len, gateway) \<Rightarrow>
         lit ''IPv4 address: '' @ concat (show_address address) @ [47] @ show_u8 prefix_len @ eol @
         (case gateway of Some g \<Rightarrow> lit ''Gateway: '' @ concat (show_address g) @ eol | None \<Rightarrow> [])
     | None \<Rightarrow> lit ''IPv4 address: not configured'' @ eol) @
    lit ''UDP echo: port 7'' @ eol @ lit ''SSH: port '' @ show_u32 2222 @ eol"

lemma lit_length [simp]: "length (lit xs) = length xs"
  by (simp add: lit_def)

text \<open>For every state of the network the status text is complete: with IPv4 addresses of
  four octets all its lines fit in the 192 bytes reserved for it, so no line is cut.\<close>
theorem status_text_is_complete:
  assumes "\<And>address prefix_len gateway. config_v4 net = Some (address, prefix_len, gateway) \<Longrightarrow>
    length address = 4 \<and> (\<forall>g. gateway = Some g \<longrightarrow> length g = 4)"
  shows "status_text net = status_spec net \<and> length (status_text net) \<le> 192"
proof -
  have port: "show_u32 2222 = [50, 50, 50, 50]" by (simp add: show_u32_def digits.simps)
  show ?thesis
  proof (cases "config_v4 net")
    case None
    then show ?thesis
      by (simp add: status_text_def status_spec_def Let_def push_pieces_fit port SSH_PORT_def eol_def)
  next
    case (Some c)
    obtain a p g where c: "c = (a, p, g)" by (cases c)
    have la: "length (concat (show_address a)) \<le> 15" "length (show_u8 p) \<le> 3"
      using assms Some c length_show_address length_show_u8 by auto
    show ?thesis
    proof (cases g)
      case None
      then show ?thesis using la Some c
        by (simp add: status_text_def status_spec_def Let_def push_pieces_fit port SSH_PORT_def eol_def)
    next
      case (Some g')
      then have "length (concat (show_address g')) \<le> 15"
        using assms \<open>config_v4 net = Some c\<close> c length_show_address by auto
      then show ?thesis using la Some c \<open>config_v4 net = Some c\<close>
        by (simp add: status_text_def status_spec_def Let_def push_pieces_fit port SSH_PORT_def eol_def)
    qed
  qed
qed

theorem status_text_is_complete_witness:
  "status_text \<lparr>link_up = True, config_v4 = Some ([192, 168, 0, 10], 24, Some [192, 168, 0, 1])\<rparr> =
    status_spec \<lparr>link_up = True, config_v4 = Some ([192, 168, 0, 10], 24, Some [192, 168, 0, 1])\<rparr>"
  by (rule status_text_is_complete [THEN conjunct1]) auto

end
