(* ===== verification/Key_Files.thy ===== *)
theory Key_Files
  imports Firmware_Rules
begin

text \<open>
  \<^verbatim>\<open>Rust/build.rs\<close>: the hexadecimal key files that the build turns into the constants of
  the SSH service.  A panic of the build is \<open>None\<close>.
\<close>

definition KEY_BYTES :: nat where "KEY_BYTES = 32"

fun hex_pairs :: "bytes \<Rightarrow> bytes option" where
  "hex_pairs [] = Some []"
| "hex_pairs [b] = None"
| "hex_pairs (b # c # bs) =
    (case u8_from_hex [b, c] of None \<Rightarrow> None | Some v \<Rightarrow> map_option ((#) v) (hex_pairs bs))"

definition read_hex_key :: "bytes \<Rightarrow> bytes option" where
  "read_hex_key content =
    (let t = trim content in if length t \<noteq> KEY_BYTES * 2 then None else hex_pairs t)"

section \<open>Keys\<close>

text \<open>The text \<^verbatim>\<open>tools/provision_ssh.ps1\<close> writes: two lower-case digits for each byte.\<close>

definition hex_char :: "nat \<Rightarrow> u8" where
  "hex_char n = (if n < 10 then of_nat (48 + n) else of_nat (87 + n))"

definition hex_text :: "bytes \<Rightarrow> bytes" where
  "hex_text key = concat (map (\<lambda>b. [hex_char (unat b div 16), hex_char (unat b mod 16)]) key)"

lemma hex_char_digit: "n < 16 \<Longrightarrow> hex_digit (hex_char n) = Some n \<and> hex_char n \<noteq> 43 \<and> visible (hex_char n)"
  by (simp add: eval_nat_numeral less_Suc_eq)
    (elim disjE; simp add: hex_digit_def hex_char_def visible_def)

lemma hex_pairs_text: "hex_pairs (hex_text key) = Some key"
proof (induction key)
  case (Cons b key)
  have b: "unat b < 256" by (rule unat_u8_bound)
  then have "u8_from_hex [hex_char (unat b div 16), hex_char (unat b mod 16)] = Some b"
    using hex_char_digit [of "unat b div 16"] hex_char_digit [of "unat b mod 16"]
    by (simp add: u8_from_hex_def)
  then show ?case using Cons by (simp add: hex_text_def)
qed (simp add: hex_text_def)

lemma length_hex_text: "length (hex_text key) = 2 * length key"
  by (induction key) (simp_all add: hex_text_def)

lemma hex_text_visible: "\<forall>b \<in> set (hex_text key). visible b"
  using hex_char_digit unat_u8_bound by (auto simp: hex_text_def less_mult_imp_div_less)

text \<open>A provisioned key file, with or without a final line feed, is read back as the 32
  bytes of the key.\<close>
theorem key_file_round_trip:
  assumes "length key = 32"
  shows "read_hex_key (hex_text key) = Some key \<and> read_hex_key (hex_text key @ [10]) = Some key"
proof -
  have ne: "hex_text key \<noteq> []" using assms length_hex_text [of key] by auto
  then have "visible (hd (hex_text key))" "visible (last (hex_text key))"
    using hex_text_visible [of key] by auto
  then show ?thesis
    using trim_visible [OF ne] assms hex_pairs_text by (simp add: read_hex_key_def KEY_BYTES_def length_hex_text)
qed

theorem key_file_round_trip_witness:
  "read_hex_key (hex_text (replicate 32 0xab) @ [10]) = Some (replicate 32 0xab)"
  using key_file_round_trip [of "replicate 32 0xab"] by (simp only: length_replicate)

text \<open>A sign takes the place of a digit: the file is not 64 hexadecimal characters, yet accepted.\<close>

lemma key_file_accepts_sign:
  "read_hex_key (lit ''+f'' @ replicate 62 48) = Some (0x0f # replicate 31 0)"
proof -
  have pairs: "hex_pairs (replicate (2 * n) 48) = Some (replicate n 0)" for n
    by (induction n) (simp_all add: u8_from_hex_def hex_digit_def)
  have "trim (lit ''+f'' @ replicate 62 48) = lit ''+f'' @ replicate 62 48"
    by (rule trim_visible) (simp_all add: visible_def)
  moreover have "hex_pairs (lit ''+f'' @ replicate 62 48) = Some (0x0f # replicate 31 0)"
    using pairs [of 31] by (simp add: u8_from_hex_def hex_digit_def del: replicate_Suc)
  ultimately show ?thesis by (simp add: read_hex_key_def KEY_BYTES_def)
qed

end
