(* ===== verification/Udp_Packet.thy ===== *)
theory Udp_Packet
  imports Byte_Order
begin

text \<open>
  \<^verbatim>\<open>tools/udp-benchmark/src/protocol.rs\<close>: the packets the host benchmark sends to the echo server
  and expects back.  A packet is written field by field into a zeroed vector, as the code
  does it; the lemmas turn that into a concatenation and show which datagrams the two
  checks of the receiver accept.
\<close>

section \<open>Packets\<close>

definition HEADER_LEN :: nat where "HEADER_LEN = 32"
definition MAGIC :: bytes where "MAGIC = [0x4e, 0x55, 0x42, 0x45]"
definition VERSION :: u8 where "VERSION = 1"

record header =
  h_run_id :: u64
  h_sequence :: u64
  h_sent_ns :: u64

text \<open>Deterministic payload; the index is converted from \<^verbatim>\<open>usize\<close> and every operation wraps.\<close>

definition pattern_byte :: "u64 \<Rightarrow> u64 \<Rightarrow> nat \<Rightarrow> u8" where
  "pattern_byte run_id seq index =
    (let v = xor (xor run_id (word_rotl 17 seq)) (of_nat index * 0x9e3779b97f4a7c15);
         v = xor v (drop_bit 30 v);
         v = v * 0xbf58476d1ce4e5b9;
         v = xor v (drop_bit 27 v);
         v = v * 0x94d049bb133111eb
     in ucast (xor v (drop_bit 31 v)))"

datatype encode_error = Too_Small

definition packet_encode :: "nat \<Rightarrow> header \<Rightarrow> encode_error + bytes" where
  "packet_encode n h =
    (if n < HEADER_LEN then Inl Too_Small
     else
       (let p = replicate n 0;
            p = overwrite p 0 MAGIC;
            p = p[4 := VERSION];
            p = p[5 := 0];
            p = overwrite p 6 (to_be 2 (of_nat HEADER_LEN :: u16));
            p = overwrite p 8 (to_be 8 (h_run_id h));
            p = overwrite p 16 (to_be 8 (h_sequence h));
            p = overwrite p 24 (to_be 8 (h_sent_ns h))
        in Inr (overwrite p HEADER_LEN
             (map (pattern_byte (h_run_id h) (h_sequence h)) [0..<length (drop HEADER_LEN p)]))))"

datatype decode_error = Short_Packet | Wrong_Magic | Wrong_Version | Wrong_Header_Length

definition packet_decode :: "bytes \<Rightarrow> decode_error + header" where
  "packet_decode p =
    (if length p < HEADER_LEN then Inl Short_Packet
     else if slice 0 4 p \<noteq> MAGIC then Inl Wrong_Magic
     else if p ! 4 \<noteq> VERSION then Inl Wrong_Version
     else if unat (from_be [p ! 6, p ! 7] :: u16) \<noteq> HEADER_LEN then Inl Wrong_Header_Length
     else Inr \<lparr>h_run_id = from_be (slice 8 16 p), h_sequence = from_be (slice 16 24 p),
                h_sent_ns = from_be (slice 24 32 p)\<rparr>)"

definition validate_payload :: "bytes \<Rightarrow> header \<Rightarrow> bool" where
  "validate_payload p h \<longleftrightarrow>
    (\<forall>(index, byte) \<in> set (List.enumerate 0 (drop HEADER_LEN p)).
       byte = pattern_byte (h_run_id h) (h_sequence h) index)"

section \<open>Layout\<close>

lemma overwrite_zeros:
  "off = length pre \<Longrightarrow> length ys \<le> n \<Longrightarrow>
    overwrite (pre @ replicate n 0) off ys = pre @ ys @ replicate (n - length ys) 0"
  by (simp add: overwrite_def)

lemma update_zeros: "off = length pre \<Longrightarrow> 0 < n \<Longrightarrow> (pre @ replicate n 0)[off := y] = pre @ y # replicate (n - 1) 0"
  by (cases n) (simp_all add: list_update_append)

text \<open>The bytes of a header with a given reserved byte.\<close>

definition header_bytes :: "u8 \<Rightarrow> header \<Rightarrow> bytes" where
  "header_bytes f h = MAGIC @ [VERSION, f] @ to_be 2 (32 :: u16) @ to_be 8 (h_run_id h) @
     to_be 8 (h_sequence h) @ to_be 8 (h_sent_ns h)"

definition payload_bytes :: "nat \<Rightarrow> header \<Rightarrow> bytes" where
  "payload_bytes n h = map (pattern_byte (h_run_id h) (h_sequence h)) [0..<n]"

lemma length_header_bytes [simp]: "length (header_bytes f h) = 32"
  by (simp add: header_bytes_def MAGIC_def)

lemma length_payload_bytes [simp]: "length (payload_bytes n h) = n"
  by (simp add: payload_bytes_def)

lemma packet_encode_layout:
  "packet_encode n h =
    (if n < 32 then Inl Too_Small else Inr (header_bytes 0 h @ payload_bytes (n - 32) h))"
proof (cases "n < 32")
  case False
  let ?m = "to_be 2 (32 :: u16)" and ?r = "to_be 8 (h_run_id h)" and ?s = "to_be 8 (h_sequence h)"
    and ?t = "to_be 8 (h_sent_ns h)"
  have a: "overwrite (replicate n 0) 0 MAGIC = MAGIC @ replicate (n - 4) 0"
    using False overwrite_zeros [of 0 "[]" MAGIC n] by (simp add: MAGIC_def)
  have b: "(MAGIC @ replicate (n - 4) 0)[4 := VERSION] = (MAGIC @ [VERSION]) @ replicate (n - 5) 0"
    using False update_zeros [of 4 MAGIC "n - 4" VERSION] by (simp add: MAGIC_def)
  have c: "((MAGIC @ [VERSION]) @ replicate (n - 5) 0)[5 := 0] = (MAGIC @ [VERSION, 0]) @ replicate (n - 6) 0"
    using False update_zeros [of 5 "MAGIC @ [VERSION]" "n - 5" 0] by (simp add: MAGIC_def)
  have d: "overwrite ((MAGIC @ [VERSION, 0]) @ replicate (n - 6) 0) 6 ?m =
      (MAGIC @ [VERSION, 0] @ ?m) @ replicate (n - 8) 0"
    using False by (subst overwrite_zeros) (simp_all add: MAGIC_def)
  have e: "overwrite ((MAGIC @ [VERSION, 0] @ ?m) @ replicate (n - 8) 0) 8 ?r =
      (MAGIC @ [VERSION, 0] @ ?m @ ?r) @ replicate (n - 16) 0"
    using False by (subst overwrite_zeros) (simp_all add: MAGIC_def)
  have f: "overwrite ((MAGIC @ [VERSION, 0] @ ?m @ ?r) @ replicate (n - 16) 0) 16 ?s =
      (MAGIC @ [VERSION, 0] @ ?m @ ?r @ ?s) @ replicate (n - 24) 0"
    using False by (subst overwrite_zeros) (simp_all add: MAGIC_def)
  have g: "overwrite ((MAGIC @ [VERSION, 0] @ ?m @ ?r @ ?s) @ replicate (n - 24) 0) 24 ?t =
      header_bytes 0 h @ replicate (n - 32) 0"
    using False by (subst overwrite_zeros) (simp_all add: MAGIC_def header_bytes_def)
  have "packet_encode n h = Inr (overwrite (header_bytes 0 h @ replicate (n - 32) 0) HEADER_LEN
      (payload_bytes (n - 32) h))"
    using False a b c d e f g by (simp add: packet_encode_def Let_def HEADER_LEN_def payload_bytes_def)
  then show ?thesis using False by (simp add: overwrite_zeros HEADER_LEN_def)
qed (simp add: packet_encode_def HEADER_LEN_def)

lemma header_slices:
  "slice 0 4 (header_bytes f h @ q) = MAGIC" "(header_bytes f h @ q) ! 4 = VERSION"
  "[(header_bytes f h @ q) ! 6, (header_bytes f h @ q) ! 7] = to_be 2 (32 :: u16)"
  "slice 8 16 (header_bytes f h @ q) = to_be 8 (h_run_id h)"
  "slice 16 24 (header_bytes f h @ q) = to_be 8 (h_sequence h)"
  "slice 24 32 (header_bytes f h @ q) = to_be 8 (h_sent_ns h)"
  by (simp_all add: header_bytes_def MAGIC_def slice_def nth_append to_be_def to_le_def
      numeral_2_eq_2 nth_Cons')

lemma header_bytes_update: "(header_bytes g h @ q)[5 := f] = header_bytes f h @ q"
  by (simp add: header_bytes_def MAGIC_def)

lemma decode_header_bytes: "packet_decode (header_bytes f h @ q) = Inr h"
  by (simp add: packet_decode_def header_slices from_to_be HEADER_LEN_def)

lemma decode_layout:
  assumes "packet_decode p = Inr h"
  shows "p = header_bytes (p ! 5) h @ drop 32 p"
proof -
  have l: "32 \<le> length p" and m: "slice 0 4 p = MAGIC" and v: "p ! 4 = VERSION"
    and n: "unat (from_be [p ! 6, p ! 7] :: u16) = 32"
    and h: "h = \<lparr>h_run_id = from_be (slice 8 16 p), h_sequence = from_be (slice 16 24 p),
                h_sent_ns = from_be (slice 24 32 p)\<rparr>"
    using assms by (auto simp: packet_decode_def HEADER_LEN_def split: if_splits)
  have "to_be (length [p ! 6, p ! 7]) (from_be [p ! 6, p ! 7] :: u16) = [p ! 6, p ! 7]"
    by (rule to_from_be) simp
  moreover have "(from_be [p ! 6, p ! 7] :: u16) = 32" using n by (simp add: word_unat_eq_iff)
  ultimately have k: "to_be 2 (32 :: u16) = [p ! 6, p ! 7]" by (simp add: numeral_2_eq_2)
  have s: "to_be 8 (from_be (slice a (a + 8) p) :: u64) = slice a (a + 8) p" if "a + 8 \<le> 32" for a
    using to_from_be [of "slice a (a + 8) p", where 'a = 64] l that by simp
  have q: "slice 4 8 p = [p ! 4, p ! 5, p ! 6, p ! 7]"
    using l by (intro nth_equalityI) (auto simp: slice_def less_Suc_eq numeral_eq_Suc)
  have "p = slice 0 4 p @ slice 4 8 p @ slice 8 16 p @ slice 16 24 p @ slice 24 32 p @ drop 32 p"
    using slice_cut [of 0 4 p] slice_cut [of 4 8 p] slice_cut [of 8 16 p] slice_cut [of 16 24 p]
      slice_cut [of 24 32 p] by simp
  then show ?thesis
    using m v q k s [of 8] s [of 16] s [of 24] by (simp add: header_bytes_def h)
qed

lemma validate_payload_iff:
  assumes "32 \<le> length p"
  shows "validate_payload p h \<longleftrightarrow> drop 32 p = payload_bytes (length p - 32) h"
  using assms by (auto simp: validate_payload_def payload_bytes_def HEADER_LEN_def in_set_enumerate_eq
      list_eq_iff_nth_eq)

section \<open>Properties\<close>

text \<open>C35: a datagram passes the receiver's two checks for a header exactly when it is the packet the
  sender encodes for that header and that length, up to the reserved byte 5.\<close>
theorem only_echoes_validate:
  "packet_decode p = Inr h \<and> validate_payload p h \<longleftrightarrow>
    (\<exists>e f. packet_encode (length p) h = Inr e \<and> p = e[5 := f])"
proof
  assume a: "packet_decode p = Inr h \<and> validate_payload p h"
  then have l: "32 \<le> length p" by (auto simp: packet_decode_def HEADER_LEN_def split: if_splits)
  then have "p = header_bytes (p ! 5) h @ payload_bytes (length p - 32) h"
    using a decode_layout validate_payload_iff by metis
  then show "\<exists>e f. packet_encode (length p) h = Inr e \<and> p = e[5 := f]"
    using l by (metis header_bytes_update packet_encode_layout not_less)
next
  assume "\<exists>e f. packet_encode (length p) h = Inr e \<and> p = e[5 := f]"
  then obtain e f where e: "packet_encode (length p) h = Inr e" and p: "p = e[5 := f]" by blast
  then have l: "32 \<le> length p" by (simp add: packet_encode_layout split: if_splits)
  then have "e = header_bytes 0 h @ payload_bytes (length p - 32) h"
    using e by (simp add: packet_encode_layout split: if_splits)
  then have "p = header_bytes f h @ payload_bytes (length p - 32) h"
    using p header_bytes_update by metis
  then have "packet_decode p = Inr h" "drop 32 p = payload_bytes (length p - 32) h"
    by (metis decode_header_bytes, metis append_eq_conv_conj length_header_bytes)
  then show "packet_decode p = Inr h \<and> validate_payload p h"
    using validate_payload_iff [OF l] by simp
qed

end
