(* ===== verification/Load_Run.thy ===== *)
theory Load_Run
  imports Udp_Packet
begin

text \<open>
  \<^verbatim>\<open>BenchSocket::load\<close> of \<^verbatim>\<open>tools/udp-benchmark/src/runner.rs\<close>: a sender and a receiver thread that
  share one atomic state per packet and the number of outstanding packets.  The two
  threads are two step functions, one step per access to a shared atomic; a run
  interleaves their steps in any order, with any clock, any outcome of a send and any
  datagrams in the receiver (the network may lose, repeat, reorder and forge them).  The
  orderings of the code (acquire and release on every atomic) are taken as sequential
  consistency.
\<close>

section \<open>State\<close>

type_synonym usize = u64

record packet_counters =
  c_planned :: u64
  c_sent :: u64
  c_valid_replies :: u64
  c_missing :: u64
  c_late :: u64
  c_duplicates :: u64
  c_reordered :: u64
  c_corrupt :: u64
  c_foreign :: u64
  c_send_errors :: u64

definition no_counters :: packet_counters where
  "no_counters = \<lparr>c_planned = 0, c_sent = 0, c_valid_replies = 0, c_missing = 0, c_late = 0,
    c_duplicates = 0, c_reordered = 0, c_corrupt = 0, c_foreign = 0, c_send_errors = 0\<rparr>"

record load_plan =
  p_sizes :: "u16 list"
  p_window :: usize
  p_run_id :: u64
  p_timeout :: u64

text \<open>
  Where the sender is: before packet \<open>i\<close>, at the test of the window, in \<^verbatim>\<open>expire_old\<close> (at the
  head of its loop, before the exchange and after it), before the time stamp, before the
  state is published, before it is counted, before the send, and in the two steps after a
  failed send.
\<close>

datatype sender_at =
    Next nat
  | Check_Window nat
  | Expiring nat u64
  | Exchange nat u64
  | Release_Expired nat u64
  | Stamp nat
  | Publish nat bytes
  | Count_Out nat bytes
  | Send_Packet nat bytes
  | Withdraw nat
  | Release_Failed nat
  | Sender_Done nat
  | Aborted nat

datatype receiver_at =
    Listening
  | Classify nat u64
  | Release nat u64
  | Receiver_Done
  | Receiver_Failed

text \<open>A packet's state: 0 unsent, 1 in flight, 2 answered, 3 expired, 4 failed to send.\<close>

record load_state =
  l_states :: "u8 list"
  l_times :: "u64 list"
  l_outstanding :: usize
  l_sent :: u64
  l_errors :: u64
  l_cursor :: nat
  l_sender :: sender_at
  l_wire :: "bytes list"
  r_at :: receiver_at
  r_counters :: packet_counters
  r_max :: "u64 option"
  r_samples :: "u64 list"

datatype load_error = Zero_Window

definition load_start :: "load_plan \<Rightarrow> load_error + load_state" where
  "load_start p =
    (if p_window p = 0 then Inl Zero_Window
     else Inr \<lparr>l_states = replicate (length (p_sizes p)) 0, l_times = replicate (length (p_sizes p)) 0,
       l_outstanding = 0, l_sent = 0, l_errors = 0, l_cursor = 0, l_sender = Next 0, l_wire = [],
       r_at = Listening, r_counters = no_counters, r_max = None, r_samples = []\<rparr>)"

section \<open>The sender\<close>

record sender_answers =
  past_boundary :: bool
  clock :: u64
  sent_ok :: bool

definition go :: "sender_at \<Rightarrow> load_state \<Rightarrow> load_state" where
  "go a s = s\<lparr>l_sender := a\<rparr>"

text \<open>One turn of the loop of \<^verbatim>\<open>expire_old\<close>, in up to three steps.\<close>

definition expire_look :: "load_plan \<Rightarrow> nat \<Rightarrow> u64 \<Rightarrow> load_state \<Rightarrow> load_state" where
  "expire_look p i t s =
    (if l_cursor s < i then
       (if l_states s ! l_cursor s = 1 then
          (if sat_sub t (l_times s ! l_cursor s) < p_timeout p then go (Check_Window i) s
           else go (Exchange i t) s)
        else s\<lparr>l_cursor := l_cursor s + 1\<rparr>)
     else go (Check_Window i) s)"

definition expire_exchange :: "nat \<Rightarrow> u64 \<Rightarrow> load_state \<Rightarrow> load_state" where
  "expire_exchange i t s =
    (if l_states s ! l_cursor s = 1
     then go (Release_Expired i t) (s\<lparr>l_states := (l_states s)[l_cursor s := 3]\<rparr>)
     else go (Expiring i t) (s\<lparr>l_cursor := l_cursor s + 1\<rparr>))"

definition expire_release :: "nat \<Rightarrow> u64 \<Rightarrow> load_state \<Rightarrow> load_state" where
  "expire_release i t s =
    go (Expiring i t) (s\<lparr>l_outstanding := l_outstanding s - 1, l_cursor := l_cursor s + 1\<rparr>)"

definition stamp :: "load_plan \<Rightarrow> nat \<Rightarrow> u64 \<Rightarrow> load_state \<Rightarrow> load_state" where
  "stamp p i t s =
    (case packet_encode (unat (p_sizes p ! i)) \<lparr>h_run_id = p_run_id p, h_sequence = of_nat i, h_sent_ns = t\<rparr> of
       Inl _ \<Rightarrow> go (Aborted i) s
     | Inr packet \<Rightarrow> go (Publish i packet) (s\<lparr>l_times := (l_times s)[i := t]\<rparr>))"

definition count_failure :: "nat \<Rightarrow> load_state \<Rightarrow> load_state" where
  "count_failure i s = go (Next (Suc i)) (s\<lparr>l_errors := l_errors s + 1\<rparr>)"

definition withdraw :: "nat \<Rightarrow> load_state \<Rightarrow> load_state" where
  "withdraw i s =
    (if l_states s ! i = 1 then go (Release_Failed i) (s\<lparr>l_states := (l_states s)[i := 4]\<rparr>)
     else count_failure i (s\<lparr>l_states := (l_states s)[i := 4]\<rparr>))"

fun sender_act :: "load_plan \<Rightarrow> sender_answers \<Rightarrow> sender_at \<Rightarrow> load_state \<Rightarrow> load_state" where
  "sender_act p e (Next i) s =
    (if length (p_sizes p) \<le> i \<or> past_boundary e then go (Sender_Done i) s else go (Check_Window i) s)"
| "sender_act p e (Check_Window i) s =
    (if p_window p \<le> l_outstanding s then go (Expiring i (clock e)) s else go (Stamp i) s)"
| "sender_act p e (Expiring i t) s = expire_look p i t s"
| "sender_act p e (Exchange i t) s = expire_exchange i t s"
| "sender_act p e (Release_Expired i t) s = expire_release i t s"
| "sender_act p e (Stamp i) s = stamp p i (clock e) s"
| "sender_act p e (Publish i packet) s = go (Count_Out i packet) (s\<lparr>l_states := (l_states s)[i := 1]\<rparr>)"
| "sender_act p e (Count_Out i packet) s = go (Send_Packet i packet) (s\<lparr>l_outstanding := l_outstanding s + 1\<rparr>)"
| "sender_act p e (Send_Packet i packet) s =
    (if sent_ok e then go (Next (Suc i)) (s\<lparr>l_sent := l_sent s + 1, l_wire := l_wire s @ [packet]\<rparr>)
     else go (Withdraw i) s)"
| "sender_act p e (Withdraw i) s = withdraw i s"
| "sender_act p e (Release_Failed i) s = count_failure i (s\<lparr>l_outstanding := l_outstanding s - 1\<rparr>)"
| "sender_act p e (Sender_Done i) s = s"
| "sender_act p e (Aborted i) s = s"

definition sender_step :: "load_plan \<Rightarrow> sender_answers \<Rightarrow> load_state \<Rightarrow> load_state" where
  "sender_step p e s = sender_act p e (l_sender s) s"

section \<open>The receiver\<close>

datatype receipt = Valid_Receipt | Late_Receipt | Duplicate_Receipt | Foreign_Receipt

definition classify_receipt :: "u8 \<Rightarrow> receipt" where
  "classify_receipt old =
    (if old = 1 then Valid_Receipt
     else if old = 3 then Late_Receipt
     else if old = 2 then Duplicate_Receipt else Foreign_Receipt)"

datatype receiver_event = Deadline | Quiet | Broken | Datagram bytes u64

definition count :: "(packet_counters \<Rightarrow> packet_counters) \<Rightarrow> load_state \<Rightarrow> load_state" where
  "count f s = s\<lparr>r_counters := f (r_counters s)\<rparr>"

definition listen :: "receiver_at \<Rightarrow> load_state \<Rightarrow> load_state" where
  "listen a s = s\<lparr>r_at := a\<rparr>"

abbreviation corrupt :: "packet_counters \<Rightarrow> packet_counters" where
  "corrupt c \<equiv> c\<lparr>c_corrupt := c_corrupt c + 1\<rparr>"

abbreviation foreign :: "packet_counters \<Rightarrow> packet_counters" where
  "foreign c \<equiv> c\<lparr>c_foreign := c_foreign c + 1\<rparr>"

abbreviation duplicate :: "packet_counters \<Rightarrow> packet_counters" where
  "duplicate c \<equiv> c\<lparr>c_duplicates := c_duplicates c + 1\<rparr>"

definition examine :: "load_plan \<Rightarrow> bytes \<Rightarrow> u64 \<Rightarrow> load_state \<Rightarrow> load_state" where
  "examine p packet t s =
    (case packet_decode packet of
       Inl _ \<Rightarrow> count corrupt s
     | Inr h \<Rightarrow>
         (let index = unat (h_sequence h)
          in if h_run_id h \<noteq> p_run_id p \<or> length (l_states s) \<le> index then count foreign s
             else if length packet \<noteq> unat (p_sizes p ! index) \<or> \<not> validate_payload packet h
             then count corrupt s
             else listen (Classify index (sat_sub t (l_times s ! index))) s))"

text \<open>A reply that counts: its latency, and whether it is late or reordered.\<close>

definition accept :: "bool \<Rightarrow> nat \<Rightarrow> u64 \<Rightarrow> load_state \<Rightarrow> load_state" where
  "accept late index rtt s =
    (let c = r_counters s; seq = of_nat index;
         c = c\<lparr>c_valid_replies := c_valid_replies c + 1,
               c_late := (if late then c_late c + 1 else c_late c),
               c_reordered := (if is_some_and (\<lambda>m. seq < m) (r_max s) then c_reordered c + 1 else c_reordered c)\<rparr>
     in s\<lparr>r_counters := c, r_max := Some (case r_max s of None \<Rightarrow> seq | Some m \<Rightarrow> max m seq),
          r_samples := r_samples s @ [rtt], r_at := Listening\<rparr>)"

definition classify :: "nat \<Rightarrow> u64 \<Rightarrow> load_state \<Rightarrow> load_state" where
  "classify index rtt s =
    (let r = classify_receipt (l_states s ! index); s = s\<lparr>l_states := (l_states s)[index := 2]\<rparr>
     in case r of
          Valid_Receipt \<Rightarrow> listen (Release index rtt) s
        | Late_Receipt \<Rightarrow> accept True index rtt s
        | Duplicate_Receipt \<Rightarrow> listen Listening (count duplicate s)
        | Foreign_Receipt \<Rightarrow> listen Listening (count foreign s))"

definition release :: "load_plan \<Rightarrow> nat \<Rightarrow> u64 \<Rightarrow> load_state \<Rightarrow> load_state" where
  "release p index rtt s =
    accept (p_timeout p < rtt) index rtt (s\<lparr>l_outstanding := l_outstanding s - 1\<rparr>)"

fun receiver_act :: "load_plan \<Rightarrow> receiver_event \<Rightarrow> receiver_at \<Rightarrow> load_state \<Rightarrow> load_state" where
  "receiver_act p (Datagram packet t) Listening s = examine p packet t s"
| "receiver_act p Quiet Listening s = s"
| "receiver_act p Broken Listening s = listen Receiver_Failed s"
| "receiver_act p Deadline Listening s = listen Receiver_Done s"
| "receiver_act p e (Classify index rtt) s = classify index rtt s"
| "receiver_act p e (Release index rtt) s = release p index rtt s"
| "receiver_act p e Receiver_Done s = s"
| "receiver_act p e Receiver_Failed s = s"

definition receiver_step :: "load_plan \<Rightarrow> receiver_event \<Rightarrow> load_state \<Rightarrow> load_state" where
  "receiver_step p e s = receiver_act p e (r_at s) s"

section \<open>Runs and results\<close>

inductive load_run :: "load_plan \<Rightarrow> load_state \<Rightarrow> bool" for p where
  load_begin: "load_start p = Inr s \<Longrightarrow> load_run p s"
| load_send: "load_run p s \<Longrightarrow> load_run p (sender_step p e s)"
| load_receive: "load_run p s \<Longrightarrow> load_run p (receiver_step p ev s)"

definition bytes_where :: "(u8 \<Rightarrow> bool) \<Rightarrow> load_plan \<Rightarrow> load_state \<Rightarrow> u64" where
  "bytes_where q p s = sum_list (map (\<lambda>(_, n). ucast n) (filter (\<lambda>(state, _). q state) (zip (l_states s) (p_sizes p))))"

definition sent_payload_bytes :: "load_plan \<Rightarrow> load_state \<Rightarrow> u64" where
  "sent_payload_bytes = bytes_where (\<lambda>x. x \<noteq> 4)"

definition valid_payload_bytes :: "load_plan \<Rightarrow> load_state \<Rightarrow> u64" where
  "valid_payload_bytes = bytes_where (\<lambda>x. x = 2)"

text \<open>The counters after both threads have ended; nothing when the receiver failed or a packet
  could not be encoded.\<close>

definition load_counters :: "load_plan \<Rightarrow> load_state \<Rightarrow> packet_counters option" where
  "load_counters p s =
    (case (l_sender s, r_at s) of
       (Sender_Done _, Receiver_Done) \<Rightarrow>
         (let c = r_counters s
          in Some (c\<lparr>c_planned := of_nat (length (p_sizes p)), c_sent := l_sent s,
               c_send_errors := l_errors s, c_missing := sat_sub (l_sent s) (c_valid_replies c)\<rparr>))
     | _ \<Rightarrow> None)"

end
