(* ===== verification/Bench_Client.thy ===== *)
theory Bench_Client
  imports Load_Run
begin

text \<open>
  The sequential workloads of \<^verbatim>\<open>tools/udp-benchmark/src/runner.rs\<close>: stop and wait, bursts, the
  plan of packet sizes and the intervals of a soak, with the verdicts of
  \<^verbatim>\<open>tools/udp-benchmark/src/main.rs\<close> on a stream.  The network and the clock are answers of the
  environment.  Comparisons of floating-point numbers are arguments: the bit budget of a
  plan is the least integer that satisfies it, and whether a rate was met is a truth value.
\<close>

section \<open>Stop and wait\<close>

definition small_byte :: "u64 \<Rightarrow> u64 \<Rightarrow> nat \<Rightarrow> u8" where
  "small_byte run_id seq index =
    (let v = xor (xor run_id (seq * 0x9e3779b97f4a7c15)) (of_nat index * 0xbf58476d1ce4e5b9);
         v = xor v (drop_bit 29 v);
         v = v * 0x94d049bb133111eb
     in ucast (xor v (drop_bit 31 v)))"

text \<open>Nothing is the panic of \<^verbatim>\<open>expect\<close>.\<close>

definition raw_packet :: "nat \<Rightarrow> u64 \<Rightarrow> u64 \<Rightarrow> bytes option" where
  "raw_packet n run_id seq =
    (if HEADER_LEN \<le> n then
       (case packet_encode n \<lparr>h_run_id = run_id, h_sequence = seq, h_sent_ns = 0\<rparr> of
          Inl _ \<Rightarrow> None
        | Inr p \<Rightarrow> Some p)
     else Some (map (small_byte run_id seq) [0..<n]))"

record wait_state =
  w_sequence :: u64
  w_attempts :: u64
  w_timeouts :: u64
  w_corrupt :: u64
  w_samples :: "u64 list"

datatype wait_answer = Send_Refused | Reply bytes u64 | No_Reply | Receive_Error

datatype wait_error = Wait_Io | Wait_Panic

text \<open>One turn of the loop; the answer may depend on the attempt and on the packet.\<close>

definition wait_turn ::
  "nat \<Rightarrow> u64 \<Rightarrow> (u64 \<Rightarrow> bytes \<Rightarrow> wait_answer) \<Rightarrow> wait_state \<Rightarrow> wait_error + wait_state" where
  "wait_turn n run_id answer w =
    (case raw_packet n run_id (w_sequence w) of
       None \<Rightarrow> Inl Wait_Panic
     | Some packet \<Rightarrow>
         (let w = w\<lparr>w_attempts := w_attempts w + 1\<rparr>; next = (\<lambda>w. Inr (w\<lparr>w_sequence := w_sequence w + 1\<rparr>))
          in case answer (w_attempts w) packet of
               Send_Refused \<Rightarrow> Inl Wait_Io
             | Reply reply t \<Rightarrow>
                 if reply = packet then next (w\<lparr>w_samples := w_samples w @ [t]\<rparr>)
                 else next (w\<lparr>w_corrupt := w_corrupt w + 1\<rparr>)
             | No_Reply \<Rightarrow> next (w\<lparr>w_timeouts := w_timeouts w + 1\<rparr>)
             | Receive_Error \<Rightarrow> Inl Wait_Io))"

definition wants :: "u64 \<Rightarrow> u64 \<Rightarrow> wait_state \<Rightarrow> bool" where
  "wants successes attempts w \<longleftrightarrow> length (w_samples w) < unat successes \<and> w_attempts w < attempts"

lemma wait_turn_attempts: "wait_turn n run_id answer w = Inr w' \<Longrightarrow> w_attempts w' = w_attempts w + 1"
  by (auto simp: wait_turn_def Let_def split: option.splits wait_answer.splits if_splits)

function wait_loop ::
  "nat \<Rightarrow> u64 \<Rightarrow> u64 \<Rightarrow> u64 \<Rightarrow> (u64 \<Rightarrow> bytes \<Rightarrow> wait_answer) \<Rightarrow> wait_state \<Rightarrow> wait_error + wait_state" where
  "wait_loop n run_id successes attempts answer w =
    (if wants successes attempts w then
       (case wait_turn n run_id answer w of
          Inl e \<Rightarrow> Inl e
        | Inr w' \<Rightarrow> wait_loop n run_id successes attempts answer w')
     else Inr w)"
  by pat_completeness auto
termination
proof (relation "measure (\<lambda>(_, _, _, attempts, _, w). unat attempts - unat (w_attempts w))")
  fix n :: nat and run_id successes attempts :: u64 and answer w w'
  assume "wants successes attempts w" and "wait_turn n run_id answer w = Inr w'"
  then have "unat (w_attempts w') = Suc (unat (w_attempts w))" "unat (w_attempts w) < unat attempts"
    using unat_add_small [of "w_attempts w" 1] unat_u64_bound [of attempts]
    by (auto simp: wait_turn_attempts wants_def word_less_unat)
  then show "((n, run_id, successes, attempts, answer, w'), (n, run_id, successes, attempts, answer, w)) \<in>
      measure (\<lambda>(_, _, _, attempts, _, w). unat attempts - unat (w_attempts w))"
    by simp
qed simp

declare wait_loop.simps [simp del]

definition maximum_attempts :: "u64 \<Rightarrow> u64" where
  "maximum_attempts successes = max (sat_mul successes 2) 10"

text \<open>The warm-up only moves the sequence number.\<close>

definition stop_and_wait ::
  "nat \<Rightarrow> u64 \<Rightarrow> u64 \<Rightarrow> u64 \<Rightarrow> (u64 \<Rightarrow> bytes \<Rightarrow> wait_answer) \<Rightarrow> wait_error + wait_state" where
  "stop_and_wait n run_id warmed successes answer =
    wait_loop n run_id successes (maximum_attempts successes) answer
      \<lparr>w_sequence = warmed, w_attempts = 0, w_timeouts = 0, w_corrupt = 0, w_samples = []\<rparr>"

section \<open>Bursts\<close>

record burst_state =
  b_counters :: packet_counters
  b_seen :: "bool list"
  b_received :: nat
  b_max :: "nat option"
  b_samples :: "u64 list"

datatype burst_error = Burst_Io | Burst_Encode | Burst_Panic

fun burst_send ::
  "nat \<Rightarrow> u64 \<Rightarrow> u64 \<Rightarrow> (nat \<Rightarrow> u64 \<times> bool) \<Rightarrow> nat list \<Rightarrow> packet_counters \<times> u64 list \<Rightarrow>
    burst_error + packet_counters \<times> u64 list" where
  "burst_send n run_id first outcome [] (c, ts) = Inr (c, ts)"
| "burst_send n run_id first outcome (offset # offsets) (c, ts) =
    (let (sent_ns, ok) = outcome offset
     in case packet_encode n \<lparr>h_run_id = run_id, h_sequence = first + of_nat offset, h_sent_ns = sent_ns\<rparr> of
          Inl _ \<Rightarrow> Inl Burst_Encode
        | Inr _ \<Rightarrow>
            burst_send n run_id first outcome offsets
              (if ok then (c\<lparr>c_sent := c_sent c + 1\<rparr>, ts @ [sent_ns])
               else (c\<lparr>c_send_errors := c_send_errors c + 1\<rparr>, ts @ [0])))"

definition burst_count :: "(packet_counters \<Rightarrow> packet_counters) \<Rightarrow> burst_state \<Rightarrow> burst_state" where
  "burst_count f b = b\<lparr>b_counters := f (b_counters b)\<rparr>"

definition burst_accept :: "nat \<Rightarrow> u64 \<Rightarrow> burst_state \<Rightarrow> burst_state" where
  "burst_accept offset rtt b =
    (let c = b_counters b;
         c = c\<lparr>c_valid_replies := c_valid_replies c + 1,
               c_reordered := (if is_some_and (\<lambda>m. offset < m) (b_max b) then c_reordered c + 1 else c_reordered c)\<rparr>
     in b\<lparr>b_counters := c, b_seen := (b_seen b)[offset := True], b_received := b_received b + 1,
          b_max := Some (case b_max b of None \<Rightarrow> offset | Some m \<Rightarrow> max m offset),
          b_samples := b_samples b @ [rtt]\<rparr>)"

definition burst_datagram ::
  "nat \<Rightarrow> u64 \<Rightarrow> u64 \<Rightarrow> u64 \<Rightarrow> u64 list \<Rightarrow> bytes \<Rightarrow> u64 \<Rightarrow> burst_state \<Rightarrow> burst_error + burst_state" where
  "burst_datagram n run_id first global ts packet t b =
    (case packet_decode packet of
       Inl _ \<Rightarrow> Inr (burst_count corrupt b)
     | Inr h \<Rightarrow>
         if h_run_id h \<noteq> run_id \<or> h_sequence h < first \<or> global \<le> h_sequence h then Inr (burst_count foreign b)
         else
           (let offset = unat (h_sequence h - first)
            in if length packet \<noteq> n \<or> \<not> validate_payload packet h then Inr (burst_count corrupt b)
               else if length (b_seen b) \<le> offset then Inl Burst_Panic
               else if b_seen b ! offset then Inr (burst_count duplicate b)
               else if length ts \<le> offset then Inl Burst_Panic
               else Inr (burst_accept offset (sat_sub t (ts ! offset)) b)))"

text \<open>The events until the deadline.\<close>

fun burst_receive ::
  "nat \<Rightarrow> u64 \<Rightarrow> u64 \<Rightarrow> u64 \<Rightarrow> u64 list \<Rightarrow> nat \<Rightarrow> receiver_event list \<Rightarrow> burst_state \<Rightarrow> burst_error + burst_state" where
  "burst_receive n run_id first global ts k [] b = Inr b"
| "burst_receive n run_id first global ts k (ev # evs) b =
    (if k \<le> b_received b then Inr b
     else case ev of
       Deadline \<Rightarrow> Inr b
     | Quiet \<Rightarrow> burst_receive n run_id first global ts k evs b
     | Broken \<Rightarrow> Inl Burst_Io
     | Datagram packet t \<Rightarrow>
         r_bind (burst_datagram n run_id first global ts packet t b)
           (burst_receive n run_id first global ts k evs))"

text \<open>One repetition: the counters, the next sequence number, and whether the burst was complete.\<close>

definition one_burst ::
  "nat \<Rightarrow> u64 \<Rightarrow> nat \<Rightarrow> (nat \<Rightarrow> u64 \<times> bool) \<Rightarrow> receiver_event list \<Rightarrow> packet_counters \<times> u64 \<times> u64 list \<Rightarrow>
    burst_error + (packet_counters \<times> u64 \<times> u64 list) \<times> bool" where
  "one_burst n run_id k outcome evs = (\<lambda>(c, first, samples).
    r_bind (burst_send n run_id first outcome [0..<k] (c, [])) (\<lambda>(c, ts).
      let c = c\<lparr>c_planned := c_planned c + of_nat k\<rparr>; global = first + of_nat k
      in r_bind (burst_receive n run_id first global ts k evs
               \<lparr>b_counters = c, b_seen = replicate k False, b_received = 0, b_max = None, b_samples = samples\<rparr>)
           (\<lambda>b. Inr ((b_counters b, global, b_samples b), b_received b = k))))"

section \<open>The plan of a soak\<close>

definition xorshift :: "u64 \<Rightarrow> u64" where
  "xorshift s = (let s = xor s (push_bit 13 s); s = xor s (drop_bit 7 s) in xor s (push_bit 17 s))"

text \<open>The number of bits is exact: a plan of $2^{64}$ bits does not fit a memory.\<close>

partial_function (option) mixed_loop :: "nat list \<Rightarrow> nat \<Rightarrow> nat \<Rightarrow> u64 \<Rightarrow> u16 list option" where
  "mixed_loop ns budget bits state =
    (if bits < budget then
       (let s = xorshift state; n = ns ! (unat s mod length ns)
        in Option.bind (mixed_loop ns budget (bits + n * 8) s) (\<lambda>rest. Some (of_nat n # rest)))
     else Some [])"

text \<open>Nothing where an assertion fails.\<close>

definition mixed_plan :: "nat list \<Rightarrow> nat \<Rightarrow> u64 \<Rightarrow> u16 list option" where
  "mixed_plan ns budget seed =
    (if ns \<noteq> [] \<and> (\<forall>n \<in> set ns. HEADER_LEN \<le> n \<and> n \<le> 65535) then mixed_loop ns budget 0 (max seed 1) else None)"

definition add_counters :: "packet_counters \<Rightarrow> packet_counters \<Rightarrow> packet_counters" where
  "add_counters a b = \<lparr>c_planned = c_planned a + c_planned b, c_sent = c_sent a + c_sent b,
    c_valid_replies = c_valid_replies a + c_valid_replies b, c_missing = c_missing a + c_missing b,
    c_late = c_late a + c_late b, c_duplicates = c_duplicates a + c_duplicates b,
    c_reordered = c_reordered a + c_reordered b, c_corrupt = c_corrupt a + c_corrupt b,
    c_foreign = c_foreign a + c_foreign b, c_send_errors = c_send_errors a + c_send_errors b\<rparr>"

text \<open>The intervals of a soak with their results, durations in nanoseconds; a load is given by
  its interval's number and duration.\<close>

partial_function (option) soak_loop ::
  "(nat \<Rightarrow> nat \<Rightarrow> 'e + packet_counters) \<Rightarrow> nat \<Rightarrow> nat \<Rightarrow> nat \<Rightarrow> packet_counters \<Rightarrow> (nat \<times> packet_counters) list \<Rightarrow>
    ('e + packet_counters \<times> (nat \<times> packet_counters) list) option" where
  "soak_loop load interval remaining index totals results =
    (if remaining = 0 then Some (Inr (totals, results))
     else
       (let this = min remaining interval
        in case load index this of
             Inl e \<Rightarrow> Some (Inl e)
           | Inr c \<Rightarrow> soak_loop load interval (remaining - this) (index + 1) (add_counters totals c) (results @ [(this, c)])))"

definition soak ::
  "(nat \<Rightarrow> nat \<Rightarrow> 'e + packet_counters) \<Rightarrow> nat \<Rightarrow> nat \<Rightarrow>
    ('e + packet_counters \<times> (nat \<times> packet_counters) list) option" where
  "soak load duration interval = soak_loop load interval duration 0 no_counters []"

section \<open>Verdicts\<close>

definition stream_reliable :: "packet_counters \<Rightarrow> bool \<Rightarrow> bool" where
  "stream_reliable c rate_met \<longleftrightarrow>
    rate_met \<and> c_sent c = c_planned c \<and> c_valid_replies c = c_sent c \<and> c_missing c = 0 \<and> c_late c = 0 \<and>
    c_duplicates c = 0 \<and> c_reordered c = 0 \<and> c_corrupt c = 0 \<and> c_foreign c = 0 \<and> c_send_errors c = 0"

definition stream_error_events :: "packet_counters \<Rightarrow> u64" where
  "stream_error_events c =
    c_missing c + c_late c + c_duplicates c + c_reordered c + c_corrupt c + c_foreign c + c_send_errors c"

end
