(* ===== verification/Load_Accounting.thy ===== *)
theory Load_Accounting
  imports Load_Run
begin

text \<open>
  What every interleaving of the two threads of \<^verbatim>\<open>BenchSocket::load\<close> keeps: the window, the
  number of outstanding packets, and the counters.
\<close>

section \<open>Reading the state\<close>

definition tally :: "('a \<Rightarrow> bool) \<Rightarrow> 'a list \<Rightarrow> nat" where
  "tally q xs = length (filter q xs)"

lemma tally_update:
  assumes "i < length xs"
  shows "tally q (xs[i := v]) + (if q (xs ! i) then 1 else 0) = tally q xs + (if q v then 1 else 0)"
proof -
  have "tally q xs = tally q (take i xs @ xs ! i # drop (Suc i) xs)"
    using id_take_nth_drop [OF assms] by simp
  moreover have "tally q (xs[i := v]) = tally q (take i xs @ v # drop (Suc i) xs)"
    using upd_conv_take_nth_drop [OF assms, of v] by simp
  ultimately show ?thesis by (simp add: tally_def)
qed

lemma tally_out: "i < length xs \<Longrightarrow> q (xs ! i) \<Longrightarrow> \<not> q v \<Longrightarrow> tally q xs = Suc (tally q (xs[i := v]))"
  using tally_update [of i xs q v] by simp

lemma tally_in: "i < length xs \<Longrightarrow> \<not> q (xs ! i) \<Longrightarrow> q v \<Longrightarrow> tally q (xs[i := v]) = Suc (tally q xs)"
  using tally_update [of i xs q v] by simp

lemma tally_same: "i < length xs \<Longrightarrow> q (xs ! i) = q v \<Longrightarrow> tally q (xs[i := v]) = tally q xs"
  using tally_update [of i xs q v] by (simp split: if_splits)

lemma tally_pos: "0 < tally q xs \<longleftrightarrow> (\<exists>x \<in> set xs. q x)"
  by (auto simp: tally_def filter_empty_conv)

lemma tally_none: "(\<And>i. i < length xs \<Longrightarrow> \<not> q (xs ! i)) \<Longrightarrow> tally q xs = 0"
  by (auto simp: tally_def filter_empty_conv in_set_conv_nth)

text \<open>The packets whose state was published, those whose send is over, and those the sender
  has begun with.\<close>

fun published :: "sender_at \<Rightarrow> nat" where
  "published (Count_Out i k) = Suc i"
| "published (Send_Packet i k) = Suc i"
| "published (Withdraw i) = Suc i"
| "published (Release_Failed i) = Suc i"
| "published (Next i) = i"
| "published (Check_Window i) = i"
| "published (Expiring i t) = i"
| "published (Exchange i t) = i"
| "published (Release_Expired i t) = i"
| "published (Stamp i) = i"
| "published (Publish i k) = i"
| "published (Sender_Done i) = i"
| "published (Aborted i) = i"

fun handled :: "sender_at \<Rightarrow> nat" where
  "handled (Next i) = i"
| "handled (Check_Window i) = i"
| "handled (Expiring i t) = i"
| "handled (Exchange i t) = i"
| "handled (Release_Expired i t) = i"
| "handled (Stamp i) = i"
| "handled (Publish i k) = i"
| "handled (Count_Out i k) = i"
| "handled (Send_Packet i k) = i"
| "handled (Withdraw i) = i"
| "handled (Release_Failed i) = i"
| "handled (Sender_Done i) = i"
| "handled (Aborted i) = i"

fun begun :: "sender_at \<Rightarrow> nat" where
  "begun (Next i) = i"
| "begun (Sender_Done i) = i"
| "begun (Aborted i) = i"
| "begun a = Suc (handled a)"

text \<open>The additions and subtractions of the outstanding packets that are still to come.\<close>

fun owed :: "sender_at \<Rightarrow> nat" where
  "owed (Count_Out i k) = 1"
| "owed _ = 0"

fun sender_due :: "sender_at \<Rightarrow> nat" where
  "sender_due (Release_Expired i t) = 1"
| "sender_due (Release_Failed i) = 1"
| "sender_due _ = 0"

fun receiver_due :: "receiver_at \<Rightarrow> nat" where
  "receiver_due (Release i t) = 1"
| "receiver_due _ = 0"

fun claimed :: "sender_at \<Rightarrow> nat" where
  "claimed (Stamp i) = 1"
| "claimed (Publish i k) = 1"
| "claimed _ = 0"

fun at_cursor :: "sender_at \<Rightarrow> bool" where
  "at_cursor (Exchange i t) = True"
| "at_cursor (Release_Expired i t) = True"
| "at_cursor _ = False"

fun packet_at :: "receiver_at \<Rightarrow> nat option" where
  "packet_at (Classify i t) = Some i"
| "packet_at (Release i t) = Some i"
| "packet_at _ = None"

definition in_flight :: "load_state \<Rightarrow> nat" where
  "in_flight s = tally (\<lambda>x. x = 1) (l_states s)"

definition unanswered :: "load_state \<Rightarrow> nat" where
  "unanswered s = tally (\<lambda>x. x = 1 \<or> x = 3) (l_states s)"

definition unreleased :: "load_state \<Rightarrow> nat" where
  "unreleased s = in_flight s + sender_due (l_sender s) + receiver_due (r_at s)"

section \<open>The shape of the state\<close>

definition load_wf :: "load_plan \<Rightarrow> load_state \<Rightarrow> bool" where
  "load_wf p s \<longleftrightarrow> length (l_states s) = length (p_sizes p) \<and> begun (l_sender s) \<le> length (p_sizes p) \<and>
    (\<forall>j. published (l_sender s) \<le> j \<and> j < length (p_sizes p) \<longrightarrow>
       l_states s ! j \<noteq> 1 \<and> l_states s ! j \<noteq> 3 \<and> l_states s ! j \<noteq> 4) \<and>
    (\<forall>j < l_cursor s. l_states s ! j \<noteq> 1) \<and> l_cursor s \<le> handled (l_sender s) \<and>
    (at_cursor (l_sender s) \<longrightarrow> l_cursor s < handled (l_sender s)) \<and>
    (\<forall>i t. l_sender s = Release_Expired i t \<longrightarrow> l_states s ! l_cursor s \<noteq> 1) \<and>
    (\<forall>i. packet_at (r_at s) = Some i \<longrightarrow> i < length (p_sizes p))"

lemmas sender_defs = sender_step_def go_def expire_look_def expire_exchange_def expire_release_def
  stamp_def withdraw_def count_failure_def

lemmas receiver_defs = receiver_step_def examine_def count_def listen_def accept_def classify_def release_def
  classify_receipt_def

lemma sender_keeps_wf:
  assumes "load_wf p s"
  shows "load_wf p (sender_step p e s)"
  using assms
  by (cases "l_sender s") (auto simp: load_wf_def sender_defs nth_list_update less_Suc_eq split: sum.splits)

lemma receiver_keeps_wf:
  assumes "load_wf p s"
  shows "load_wf p (receiver_step p ev s)"
proof (cases "r_at s")
  case Listening
  then show ?thesis
    using assms by (cases ev) (auto simp: load_wf_def receiver_defs Let_def split: sum.splits)
next
  case (Classify i t)
  have "load_wf p (classify i t s)"
    using assms Classify by (auto simp: load_wf_def receiver_defs Let_def nth_list_update)
  then show ?thesis using Classify by (simp add: receiver_step_def)
next
  case (Release i t)
  have "load_wf p (release p i t s)"
    using assms Release by (auto simp: load_wf_def receiver_defs Let_def)
  then show ?thesis using Release by (simp add: receiver_step_def)
qed (use assms in \<open>simp_all add: receiver_step_def\<close>)

section \<open>The window\<close>

text \<open>The outstanding packets are those in flight and those whose release is still to come, up to
  an addition that is still to come; they fit the window, which has a place for the packet
  that passed its test.\<close>

definition window_held :: "load_plan \<Rightarrow> load_state \<Rightarrow> bool" where
  "window_held p s \<longleftrightarrow>
    l_outstanding s + of_nat (owed (l_sender s)) = of_nat (unreleased s) \<and>
    unreleased s + claimed (l_sender s) \<le> unat (p_window p)"

lemma owed_nothing:
  assumes "window_held p s" and "owed (l_sender s) = 0"
  shows "unat (l_outstanding s) = unreleased s"
proof -
  have "unreleased s < 2 ^ LENGTH(64)"
    using assms(1) unat_below [of "p_window p"] by (simp add: window_held_def)
  then show ?thesis using assms by (simp add: window_held_def unat_of_nat)
qed

text \<open>A step that moves one unit between the parts of the account.\<close>

lemma window_keep:
  assumes "window_held p s" and "l_outstanding s' = l_outstanding s" and "unreleased s' = unreleased s"
    and "owed (l_sender s') = owed (l_sender s)" and "claimed (l_sender s') \<le> claimed (l_sender s)"
  shows "window_held p s'"
  using assms by (simp add: window_held_def)

lemma window_release:
  assumes "window_held p s" and "l_outstanding s' = l_outstanding s - 1" and "unreleased s = Suc (unreleased s')"
    and "owed (l_sender s') = owed (l_sender s)" and "claimed (l_sender s') \<le> claimed (l_sender s)"
  shows "window_held p s'"
proof -
  have "l_outstanding s' + of_nat (owed (l_sender s')) = (l_outstanding s + of_nat (owed (l_sender s))) - 1"
    using assms(2,4) by simp
  also have "\<dots> = of_nat (unreleased s')"
    using assms(1,3) by (simp add: window_held_def)
  finally show ?thesis using assms(1,3,5) by (simp add: window_held_def)
qed

lemma sender_keeps_window:
  assumes "load_wf p s" and "window_held p s"
  shows "window_held p (sender_step p e s)"
proof (cases "l_sender s")
  case (Check_Window i)
  have "unat (l_outstanding s) = unreleased s" using owed_nothing [OF assms(2)] Check_Window by simp
  then show ?thesis
    using assms(2) Check_Window
    by (simp add: window_held_def sender_step_def go_def unreleased_def in_flight_def word_le_unat)
next
  case (Expiring i t)
  then show ?thesis
    by (intro window_keep [OF assms(2)])
       (simp_all add: sender_step_def expire_look_def go_def unreleased_def in_flight_def)
next
  case (Exchange i t)
  have c: "l_cursor s < length (l_states s)" using assms(1) Exchange by (simp add: load_wf_def)
  show ?thesis
    using Exchange tally_out [OF c, of "\<lambda>x. x = 1" 3]
    by (intro window_keep [OF assms(2)])
       (simp_all add: sender_step_def expire_exchange_def go_def unreleased_def in_flight_def)
next
  case (Release_Expired i t)
  then show ?thesis
    by (intro window_release [OF assms(2)])
       (simp_all add: sender_step_def expire_release_def go_def unreleased_def in_flight_def)
next
  case (Stamp i)
  then show ?thesis
    by (intro window_keep [OF assms(2)])
       (simp_all add: sender_step_def stamp_def go_def unreleased_def in_flight_def split: sum.split)
next
  case (Publish i k)
  then have "tally (\<lambda>x. x = 1) ((l_states s)[i := 1]) = Suc (in_flight s)"
    unfolding in_flight_def using assms(1) by (intro tally_in) (auto simp: load_wf_def)
  then show ?thesis
    using assms(2) Publish by (simp add: window_held_def sender_step_def go_def unreleased_def in_flight_def)
next
  case (Count_Out i k)
  then show ?thesis
    using assms(2) by (simp add: window_held_def sender_step_def go_def unreleased_def in_flight_def)
next
  case (Send_Packet i k)
  then show ?thesis
    by (intro window_keep [OF assms(2)]) (simp_all add: sender_step_def go_def unreleased_def in_flight_def)
next
  case (Withdraw i)
  then have i: "i < length (l_states s)" using assms(1) by (simp add: load_wf_def)
  show ?thesis
    using Withdraw tally_out [OF i, of "\<lambda>x. x = 1" 4] tally_same [OF i, of "\<lambda>x. x = 1" 4]
    by (intro window_keep [OF assms(2)])
       (simp_all add: sender_step_def withdraw_def count_failure_def go_def unreleased_def in_flight_def)
next
  case (Release_Failed i)
  then show ?thesis
    by (intro window_release [OF assms(2)])
       (simp_all add: sender_step_def count_failure_def go_def unreleased_def in_flight_def)
qed (intro window_keep [OF assms(2)]; simp add: sender_step_def go_def unreleased_def in_flight_def)+

lemma listening_step:
  assumes "r_at s = Listening"
  shows "l_states (receiver_step p ev s) = l_states s" "l_outstanding (receiver_step p ev s) = l_outstanding s"
    "l_sender (receiver_step p ev s) = l_sender s" "receiver_due (r_at (receiver_step p ev s)) = 0"
    "c_valid_replies (r_counters (receiver_step p ev s)) = c_valid_replies (r_counters s)"
  using assms by (cases ev; auto simp: receiver_defs Let_def split: sum.split)+

lemma receiver_keeps_window:
  assumes "load_wf p s" and "window_held p s"
  shows "window_held p (receiver_step p ev s)"
proof (cases "r_at s")
  case Listening
  then show ?thesis
    by (intro window_keep [OF assms(2)]) (simp_all add: listening_step unreleased_def in_flight_def)
next
  case (Classify i t)
  then have i: "i < length (l_states s)" using assms(1) by (simp add: load_wf_def)
  show ?thesis
    using Classify tally_out [OF i, of "\<lambda>x. x = 1" 2] tally_same [OF i, of "\<lambda>x. x = 1" 2]
    by (intro window_keep [OF assms(2)]) (simp_all add: unreleased_def in_flight_def receiver_defs Let_def)
next
  case (Release i t)
  then show ?thesis
    by (intro window_release [OF assms(2)])
       (simp_all add: unreleased_def in_flight_def receiver_step_def release_def accept_def Let_def)
qed (intro window_keep [OF assms(2)]; simp add: receiver_step_def unreleased_def in_flight_def)+

section \<open>The counters\<close>

text \<open>Sent packets and failed sends are the packets handled, and every published packet is answered
  at most once: replies, one whose release is still to come, and packets still waiting for
  a reply are at most the packets published.\<close>

definition sends_counted :: "load_state \<Rightarrow> bool" where
  "sends_counted s \<longleftrightarrow> unat (l_sent s) + unat (l_errors s) = handled (l_sender s) \<and>
    length (l_wire s) = unat (l_sent s)"

definition replies_counted :: "load_state \<Rightarrow> bool" where
  "replies_counted s \<longleftrightarrow>
    unat (c_valid_replies (r_counters s)) + receiver_due (r_at s) + unanswered s \<le> published (l_sender s) \<and>
    length (r_samples s) = unat (c_valid_replies (r_counters s))"

lemma handled_begun: "handled a \<le> published a" "published a \<le> begun a" "published a \<le> Suc (handled a)"
  by (cases a; simp)+

lemma unat_increment: "unat (w :: u64) < n \<Longrightarrow> n \<le> 18446744073709551615 \<Longrightarrow> unat (w + 1) = Suc (unat w)"
  using unat_add_small [of w 1] by simp

lemma sender_keeps_sends:
  assumes "load_wf p s" and "sends_counted s" and n: "length (p_sizes p) < 18446744073709551616"
  shows "sends_counted (sender_step p e s)"
proof -
  have "begun (l_sender s) \<le> 18446744073709551615" using assms(1) n by (simp add: load_wf_def)
  then show ?thesis
    using assms(2) unat_increment [of "l_sent s" "begun (l_sender s)"] unat_increment [of "l_errors s" "begun (l_sender s)"]
    by (cases "l_sender s") (auto simp: sends_counted_def sender_defs split: sum.split)
qed

lemma receiver_keeps_sends: "sends_counted s \<Longrightarrow> sends_counted (receiver_step p ev s)"
  by (cases "r_at s"; cases ev)
     (auto simp: sends_counted_def receiver_defs Let_def split: sum.split)

lemma sender_receives_nothing:
  "r_counters (sender_step p e s) = r_counters s \<and> r_at (sender_step p e s) = r_at s \<and>
    r_samples (sender_step p e s) = r_samples s"
  by (cases "l_sender s") (auto simp: sender_defs split: sum.split)

lemma sender_unanswered:
  assumes "load_wf p s"
  shows "unanswered (sender_step p e s) + published (l_sender s) \<le> unanswered s + published (l_sender (sender_step p e s))"
proof (cases "l_sender s")
  case (Exchange i t)
  have c: "l_cursor s < length (l_states s)" using assms Exchange by (simp add: load_wf_def)
  then show ?thesis
    using Exchange tally_same [OF c, of "\<lambda>x. x = 1 \<or> x = 3" 3]
    by (simp add: sender_step_def expire_exchange_def go_def unanswered_def)
next
  case (Publish i k)
  then have i: "i < length (l_states s)" and q: "\<not> (l_states s ! i = 1 \<or> l_states s ! i = 3)"
    using assms by (auto simp: load_wf_def)
  show ?thesis
    using Publish tally_in [OF i, of "\<lambda>x. x = 1 \<or> x = 3", OF q, of 1]
    by (simp add: sender_step_def go_def unanswered_def)
next
  case (Withdraw i)
  then have i: "i < length (l_states s)" using assms by (simp add: load_wf_def)
  show ?thesis
    using Withdraw tally_update [OF i, of "\<lambda>x. x = 1 \<or> x = 3" 4]
    by (auto simp: sender_step_def withdraw_def count_failure_def go_def unanswered_def)
qed (auto simp: sender_step_def expire_look_def expire_release_def stamp_def count_failure_def go_def unanswered_def
  split: sum.split)

lemma sender_keeps_replies:
  assumes "load_wf p s" and "replies_counted s"
  shows "replies_counted (sender_step p e s)"
  using assms(2) sender_unanswered [OF assms(1), of e] sender_receives_nothing [of p e s]
  by (simp add: replies_counted_def)

lemma accept_counts:
  "unat (c_valid_replies (r_counters s)) < n \<Longrightarrow> n \<le> 18446744073709551615 \<Longrightarrow>
    unat (c_valid_replies (r_counters (accept late i t s))) = Suc (unat (c_valid_replies (r_counters s)))"
  by (simp add: accept_def Let_def unat_increment)

lemma accept_keeps:
  "l_states (accept late i t s) = l_states s" "l_sender (accept late i t s) = l_sender s"
  "r_at (accept late i t s) = Listening" "r_samples (accept late i t s) = r_samples s @ [t]"
  by (simp_all add: accept_def Let_def)

lemma receiver_keeps_replies:
  assumes "load_wf p s" and "replies_counted s" and n: "length (p_sizes p) < 18446744073709551616"
  shows "replies_counted (receiver_step p ev s)"
proof -
  have m: "published (l_sender s) \<le> 18446744073709551615"
    using assms(1) n handled_begun(2) [of "l_sender s"] by (simp add: load_wf_def)
  show ?thesis
  proof (cases "r_at s")
    case Listening
    then have "r_samples (receiver_step p ev s) = r_samples s"
      by (cases ev) (auto simp: receiver_defs Let_def split: sum.split)
    then show ?thesis
      using assms(2) Listening by (simp add: replies_counted_def listening_step unanswered_def)
  next
    case (Classify i t)
    then have i: "i < length (l_states s)" using assms(1) by (simp add: load_wf_def)
    note u = tally_update [OF i, of "\<lambda>x. x = 1 \<or> x = 3" 2]
    let ?s = "s\<lparr>l_states := (l_states s)[i := 2]\<rparr>"
    consider "l_states s ! i = 1" | "l_states s ! i = 3" | "l_states s ! i \<noteq> 1" "l_states s ! i \<noteq> 3" by blast
    then show ?thesis
    proof cases
      case 1
      then show ?thesis
        using assms(2) u Classify
        by (simp add: replies_counted_def unanswered_def receiver_step_def classify_def classify_receipt_def listen_def Let_def)
    next
      case 2
      then have "receiver_step p ev s = accept True i t ?s"
        using Classify by (simp add: receiver_step_def classify_def classify_receipt_def Let_def)
      then show ?thesis
        using assms(2) u Classify 2 accept_counts [of ?s "published (l_sender s)" True i t] m
        by (simp add: replies_counted_def unanswered_def accept_keeps)
    next
      case 3
      then show ?thesis
        using assms(2) u Classify
        by (auto simp: replies_counted_def unanswered_def receiver_step_def classify_def classify_receipt_def
            listen_def count_def Let_def)
    qed
  next
    case (Release i t)
    let ?s = "s\<lparr>l_outstanding := l_outstanding s - 1\<rparr>"
    have "receiver_step p ev s = accept (p_timeout p < t) i t ?s"
      using Release by (simp add: receiver_step_def release_def)
    then show ?thesis
      using assms(2) Release accept_counts [of ?s "published (l_sender s)" "p_timeout p < t" i t] m
      by (simp add: replies_counted_def unanswered_def accept_keeps)
  qed (use assms(2) in \<open>simp_all add: receiver_step_def\<close>)
qed

section \<open>Failed sends\<close>

definition failures_counted :: "load_state \<Rightarrow> bool" where
  "failures_counted s \<longleftrightarrow> (4 \<in> set (l_states s) \<longrightarrow> l_errors s \<noteq> 0 \<or> (\<exists>i. l_sender s = Release_Failed i))"

lemma failures_keep:
  assumes "failures_counted s" and "\<And>i. l_sender s \<noteq> Release_Failed i" and "l_errors s' = l_errors s"
    and "l_states s' = (l_states s)[j := v]" and "v \<noteq> 4"
  shows "failures_counted s'"
  using assms set_update_subset_insert [of "l_states s" j v] by (auto simp: failures_counted_def)

lemma sender_keeps_failures:
  assumes "load_wf p s" and "sends_counted s" and "failures_counted s"
    and n: "length (p_sizes p) < 18446744073709551616"
  shows "failures_counted (sender_step p e s)"
proof -
  have "begun (l_sender s) \<le> 18446744073709551615" using assms(1) n by (simp add: load_wf_def)
  then have inc: "l_errors s + 1 \<noteq> 0" if "handled (l_sender s) < begun (l_sender s)"
    using that assms(2) unat_increment [of "l_errors s" "begun (l_sender s)"]
    by (fastforce simp: sends_counted_def)
  show ?thesis
  proof (cases "l_sender s")
    case (Exchange i t)
    then show ?thesis
      using assms(3) set_update_subset_insert [of "l_states s" "l_cursor s" 3]
      by (auto simp: sender_step_def expire_exchange_def go_def failures_counted_def)
  next
    case (Publish i k)
    then show ?thesis
      by (intro failures_keep [OF assms(3), of _ i 1]) (simp_all add: sender_step_def go_def)
  qed (use assms(3) inc in \<open>auto simp: sender_step_def expire_look_def expire_release_def stamp_def
      withdraw_def count_failure_def go_def failures_counted_def split: sum.split\<close>)
qed

lemma receiver_keeps_failures:
  assumes "failures_counted s"
  shows "failures_counted (receiver_step p ev s)"
proof (cases "r_at s")
  case Listening
  have "l_errors (receiver_step p ev s) = l_errors s"
    using Listening by (cases ev) (auto simp: receiver_defs Let_def split: sum.split)
  then show ?thesis using assms Listening by (simp add: failures_counted_def listening_step)
next
  case (Classify i t)
  have "l_states (receiver_step p ev s) = (l_states s)[i := 2]" "l_errors (receiver_step p ev s) = l_errors s"
    "l_sender (receiver_step p ev s) = l_sender s"
    using Classify by (auto simp: receiver_defs Let_def)
  then show ?thesis
    using assms set_update_subset_insert [of "l_states s" i 2] by (auto simp: failures_counted_def)
qed (use assms in \<open>simp_all add: failures_counted_def receiver_step_def release_def accept_def Let_def\<close>)

section \<open>All runs\<close>

lemma load_start_wf:
  assumes "load_start p = Inr s"
  shows "load_wf p s" "window_held p s" "sends_counted s" "replies_counted s" "failures_counted s"
    "p_window p \<noteq> 0"
  using assms
  by (auto simp: load_start_def load_wf_def window_held_def sends_counted_def replies_counted_def
      failures_counted_def unreleased_def in_flight_def unanswered_def tally_def no_counters_def
      split: if_splits)

lemma load_run_wf: "load_run p s \<Longrightarrow> load_wf p s \<and> window_held p s \<and> p_window p \<noteq> 0"
proof (induction rule: load_run.induct)
  case (load_begin s)
  then show ?case using load_start_wf by blast
qed (simp_all add: sender_keeps_wf sender_keeps_window receiver_keeps_wf receiver_keeps_window)

lemma load_run_counted:
  assumes "load_run p s" and "length (p_sizes p) < 18446744073709551616"
  shows "sends_counted s \<and> replies_counted s \<and> failures_counted s"
  using assms(1)
proof (induction rule: load_run.induct)
  case (load_begin s)
  then show ?case using load_start_wf by blast
next
  case (load_send s e)
  then show ?case
    using load_run_wf sender_keeps_sends sender_keeps_replies sender_keeps_failures assms(2) by blast
next
  case (load_receive s ev)
  then show ?case
    using load_run_wf receiver_keeps_sends receiver_keeps_replies receiver_keeps_failures assms(2) by blast
qed

end
