(* ===== verification/Load_Properties.thy ===== *)
theory Load_Properties
  imports Load_Accounting
begin

text \<open>
  The properties of the load run of the host benchmark: the window, the counters, the
  progress of a sender that waits for its window, and the bytes that are reported as sent.
\<close>

section \<open>A full window drains\<close>

definition aged :: "load_plan \<Rightarrow> u64 \<Rightarrow> nat \<Rightarrow> load_state \<Rightarrow> bool" where
  "aged p t i s \<longleftrightarrow> (\<forall>j < i. p_timeout p \<le> sat_sub t (l_times s ! j))"

text \<open>The pass over the packets below \<open>i\<close> ends with none of them in flight.\<close>

lemma expire_passes:
  assumes "load_wf p s" and "window_held p s" and "l_sender s = Expiring i t" and "aged p t i s"
  shows "\<exists>k s'. k \<le> 3 * (i - l_cursor s) + 1 \<and> (sender_step p e ^^ k) s = s' \<and> l_sender s' = Check_Window i \<and>
    l_cursor s' = i \<and> r_at s' = r_at s \<and> load_wf p s' \<and> window_held p s'"
  using assms
proof (induction "i - l_cursor s" arbitrary: s)
  case 0
  then have "l_cursor s = i" by (simp add: load_wf_def)
  then have "sender_step p e s = go (Check_Window i) s"
    using 0(4) by (simp add: sender_step_def expire_look_def)
  moreover have "load_wf p (sender_step p e s)" "window_held p (sender_step p e s)"
    using 0 sender_keeps_wf sender_keeps_window by blast+
  ultimately show ?case
    using \<open>l_cursor s = i\<close> by (intro exI [of _ 1]) (simp add: go_def)
next
  case (Suc n)
  note keep = sender_keeps_wf sender_keeps_window
  have less: "l_cursor s < i" using Suc(2) by simp
  have more: "\<exists>k s'. k \<le> 3 * (i - l_cursor s) + 1 \<and> (sender_step p e ^^ k) s = s' \<and> l_sender s' = Check_Window i \<and>
      l_cursor s' = i \<and> r_at s' = r_at s \<and> load_wf p s' \<and> window_held p s'"
    if m: "m \<le> 3" "(sender_step p e ^^ m) s = s1" "l_sender s1 = Expiring i t" "l_cursor s1 = Suc (l_cursor s)"
      "r_at s1 = r_at s" "aged p t i s1" and w: "load_wf p s1" "window_held p s1" for m s1
  proof -
    have "n = i - l_cursor s1" using Suc(2) m(4) by simp
    from Suc(1) [OF this w m(3,6)] obtain k s' where k: "k \<le> 3 * (i - l_cursor s1) + 1"
      "(sender_step p e ^^ k) s1 = s'" "l_sender s' = Check_Window i" "l_cursor s' = i" "r_at s' = r_at s1"
      "load_wf p s'" "window_held p s'" by blast
    have "(sender_step p e ^^ (k + m)) s = s'" using k(2) m(2) by (simp add: funpow_add)
    moreover have "k + m \<le> 3 * (i - l_cursor s) + 1" using k(1) m(1,4) less by simp
    ultimately show ?thesis using k m(5) by metis
  qed
  show ?case
  proof (cases "l_states s ! l_cursor s = 1")
    case False
    have "sender_step p e s = s\<lparr>l_cursor := Suc (l_cursor s)\<rparr>"
      using False less Suc(5) by (simp add: sender_step_def expire_look_def)
    moreover have "load_wf p (sender_step p e s)" "window_held p (sender_step p e s)"
      using keep Suc(3,4) by blast+
    ultimately show ?thesis
      using more [of 1 "sender_step p e s"] Suc(5,6) by (simp add: aged_def)
  next
    case True
    have c: "l_cursor s < length (l_states s)" using less Suc(3,5) by (simp add: load_wf_def)
    let ?s1 = "s\<lparr>l_sender := Exchange i t\<rparr>"
    let ?s2 = "s\<lparr>l_sender := Release_Expired i t, l_states := (l_states s)[l_cursor s := 3]\<rparr>"
    let ?s3 = "s\<lparr>l_sender := Expiring i t, l_states := (l_states s)[l_cursor s := 3],
      l_outstanding := l_outstanding s - 1, l_cursor := Suc (l_cursor s)\<rparr>"
    have "\<not> sat_sub t (l_times s ! l_cursor s) < p_timeout p"
      using Suc(6) less by (auto simp: aged_def not_less)
    then have 1: "sender_step p e s = ?s1"
      using True less Suc(5) by (simp add: sender_step_def expire_look_def go_def)
    have 2: "sender_step p e ?s1 = ?s2"
      using True by (simp add: sender_step_def expire_exchange_def go_def)
    have 3: "sender_step p e ?s2 = ?s3"
      by (simp add: sender_step_def expire_release_def go_def)
    have "load_wf p ?s3 \<and> window_held p ?s3" using keep Suc(3,4) 1 2 3 by metis
    moreover have "(sender_step p e ^^ 3) s = ?s3" using 1 2 3 by (simp add: numeral_3_eq_3)
    ultimately show ?thesis using more [of 3 ?s3] Suc(6) by (simp add: aged_def)
  qed
qed

lemma none_in_flight:
  assumes "load_wf p s" and "l_sender s = Check_Window i" and "l_cursor s = i"
  shows "in_flight s = 0"
  unfolding in_flight_def
proof (rule tally_none)
  fix j assume "j < length (l_states s)"
  then show "l_states s ! j \<noteq> 1"
    using assms by (cases "j < i") (auto simp: load_wf_def)
qed

section \<open>Properties\<close>

text \<open>C21: in every interleaving of the two threads at most the window's number of packets is in flight,
  and, except between the publication and the counting of a packet, the counter that the
  sender tests is at least their number and at most the window.\<close>
theorem window_is_respected:
  assumes "load_run p s"
  shows "in_flight s \<le> unat (p_window p) \<and>
    (owed (l_sender s) = 0 \<longrightarrow> in_flight s \<le> unat (l_outstanding s) \<and> l_outstanding s \<le> p_window p)"
proof -
  have w: "window_held p s" using load_run_wf [OF assms] by simp
  then have "unreleased s \<le> unat (p_window p)" by (simp add: window_held_def)
  then show ?thesis
    using owed_nothing [OF w] by (auto simp: unreleased_def word_le_unat)
qed

text \<open>C28: a sender that waits for its window goes on to the next packet, in at most three steps per
  packet sent, once every packet is older than the timeout; the receiver need not help, as long
  as it is not between taking a packet and giving its place in the window back.\<close>
theorem full_window_drains:
  assumes "load_run p s" and "l_sender s = Check_Window i" and "receiver_due (r_at s) = 0"
    and "\<forall>j < i. p_timeout p \<le> sat_sub (clock e) (l_times s ! j)"
  shows "\<exists>k \<le> 3 * i + 3. l_sender ((sender_step p e ^^ k) s) = Stamp i"
proof (cases "p_window p \<le> l_outstanding s")
  case False
  then have "l_sender ((sender_step p e ^^ 1) s) = Stamp i"
    using assms(2) by (simp add: sender_step_def go_def)
  then show ?thesis by (meson le_add2 numeral_le_iff one_le_numeral order_trans)
next
  case True
  let ?s = "s\<lparr>l_sender := Expiring i (clock e)\<rparr>"
  have 1: "sender_step p e s = ?s" using True assms(2) by (simp add: sender_step_def go_def)
  note w = load_run_wf [OF assms(1)]
  have "load_wf p ?s" "window_held p ?s"
    using w 1 sender_keeps_wf [of p s e] sender_keeps_window [of p s e] by simp_all
  from expire_passes [OF this, of i "clock e" e] assms(4) obtain k s' where k: "k \<le> 3 * (i - l_cursor s) + 1"
    "(sender_step p e ^^ k) ?s = s'" "l_sender s' = Check_Window i" "l_cursor s' = i" "r_at s' = r_at s"
    "load_wf p s'" "window_held p s'" by (auto simp: aged_def)
  have "unat (l_outstanding s') = 0"
    using owed_nothing [OF k(7)] none_in_flight [OF k(6,3,4)] k(3,5) assms(3) by (simp add: unreleased_def)
  then have "sender_step p e s' = go (Stamp i) s'"
    using k(3) w by (simp add: sender_step_def unat_eq_0)
  moreover have "(sender_step p e ^^ (1 + (k + 1))) s = sender_step p e s'"
    using k(2) 1 by (simp add: funpow_swap1)
  ultimately have "l_sender ((sender_step p e ^^ (1 + (k + 1))) s) = Stamp i" by (simp add: go_def)
  moreover have "1 + (k + 1) \<le> 3 * i + 3" using k(1) by simp
  ultimately show ?thesis by blast
qed

text \<open>C22: when a load run has ended, every packet handed to the socket or failed was counted once,
  and no packet was counted as answered more than once: the valid replies, each with one
  latency sample, are at most the packets sent or failed, which are at most the planned
  ones.\<close>
theorem replies_are_counted_once:
  assumes "load_run p s" and "length (p_sizes p) < 2 ^ 64" and "load_counters p s = Some c"
  shows "unat (c_planned c) = length (p_sizes p) \<and> unat (c_sent c) = length (l_wire s) \<and>
    unat (c_sent c) + unat (c_send_errors c) \<le> unat (c_planned c) \<and>
    unat (c_valid_replies c) + unanswered s \<le> unat (c_sent c) + unat (c_send_errors c) \<and>
    length (r_samples s) = unat (c_valid_replies c)"
proof -
  obtain i where i: "l_sender s = Sender_Done i" "r_at s = Receiver_Done"
    and c: "c = (r_counters s)\<lparr>c_planned := of_nat (length (p_sizes p)), c_sent := l_sent s,
      c_send_errors := l_errors s, c_missing := sat_sub (l_sent s) (c_valid_replies (r_counters s))\<rparr>"
    using assms(3) by (auto simp: load_counters_def Let_def split: sender_at.splits receiver_at.splits)
  have "sends_counted s" "replies_counted s" using load_run_counted [OF assms(1)] assms(2) by simp_all
  moreover have "begun (l_sender s) \<le> length (p_sizes p)"
    using load_run_wf [OF assms(1)] by (simp add: load_wf_def)
  ultimately show ?thesis
    using i assms(2) by (simp add: c sends_counted_def replies_counted_def unat_of_nat)
qed

text \<open>The bytes that a run reports as sent are those of all planned packets whenever no send has
  failed, also when the sender stopped at the measurement boundary before it sent them.\<close>
theorem unsent_packets_are_reported_as_sent:
  assumes "load_run p s" and "length (p_sizes p) < 2 ^ 64" and "load_counters p s = Some c"
    and "c_send_errors c = 0"
  shows "sent_payload_bytes p s = sum_list (map ucast (p_sizes p))"
proof -
  have e: "l_errors s = 0" "\<nexists>i. l_sender s = Release_Failed i"
    using assms(3,4) by (auto simp: load_counters_def Let_def split: sender_at.splits receiver_at.splits)
  then have "4 \<notin> set (l_states s)"
    using load_run_counted [OF assms(1)] assms(2) by (simp add: failures_counted_def)
  moreover have l: "length (l_states s) = length (p_sizes p)"
    using load_run_wf [OF assms(1)] by (simp add: load_wf_def)
  ultimately have "filter (\<lambda>(state, _). state \<noteq> 4) (zip (l_states s) (p_sizes p)) = zip (l_states s) (p_sizes p)"
    by (intro filter_True) (auto dest: set_zip_leftD)
  moreover have "map (\<lambda>(_, n). ucast n :: u64) (zip (l_states s) (p_sizes p)) = map ucast (map snd (zip (l_states s) (p_sizes p)))"
    by (simp add: case_prod_unfold)
  ultimately show ?thesis using l by (simp add: sent_payload_bytes_def bytes_where_def)
qed

section \<open>Sample runs\<close>

definition two_packets :: load_plan where
  "two_packets = \<lparr>p_sizes = [32, 32], p_window = 1, p_run_id = 7, p_timeout = 1000\<rparr>"

definition answers :: "bool \<Rightarrow> u64 \<Rightarrow> sender_answers" where
  "answers past t = \<lparr>past_boundary = past, clock = t, sent_ok = True\<rparr>"

definition first_packet :: bytes where
  "first_packet = header_bytes 0 \<lparr>h_run_id = 7, h_sequence = 0, h_sent_ns = 100\<rparr>"

lemma first_packet_facts:
  "packet_encode 32 \<lparr>h_run_id = 7, h_sequence = 0, h_sent_ns = 100\<rparr> = Inr first_packet"
  "packet_decode first_packet = Inr \<lparr>h_run_id = 7, h_sequence = 0, h_sent_ns = 100\<rparr>"
  "length first_packet = 32" "validate_payload first_packet h"
proof -
  show "packet_decode first_packet = Inr \<lparr>h_run_id = 7, h_sequence = 0, h_sent_ns = 100\<rparr>"
    using decode_header_bytes [of 0 _ "[]"] by (simp add: first_packet_def)
  show "validate_payload first_packet h"
    using validate_payload_iff [of first_packet h] by (simp add: first_packet_def payload_bytes_def)
qed (simp_all add: packet_encode_layout first_packet_def payload_bytes_def)

definition one_start :: load_state where
  "one_start = \<lparr>l_states = [0, 0], l_times = [0, 0], l_outstanding = 0, l_sent = 0, l_errors = 0, l_cursor = 0,
     l_sender = Next 0, l_wire = [], r_at = Listening, r_counters = no_counters, r_max = None, r_samples = []\<rparr>"

definition one_sent :: load_state where
  "one_sent = one_start\<lparr>l_states := [1, 0], l_times := [100, 0], l_outstanding := 1, l_sent := 1,
     l_sender := Next 1, l_wire := [first_packet]\<rparr>"

lemma one_begins: "load_run two_packets one_start"
  by (rule load_begin) (simp add: load_start_def two_packets_def one_start_def)

lemma six_steps: "(f ^^ 6) x = f (f (f (f (f (f x)))))"
  by (simp add: numeral_eq_Suc)

lemma one_send: "(sender_step two_packets (answers False 100) ^^ 6) one_start = one_sent"
  by (simp add: six_steps sender_defs two_packets_def answers_def one_start_def one_sent_def first_packet_facts)

lemma run_sends: "load_run p s \<Longrightarrow> load_run p ((sender_step p e ^^ k) s)"
  by (induction k) (simp_all add: load_send)

lemma one_sent_run: "load_run two_packets one_sent"
  using run_sends [OF one_begins] one_send by metis

definition one_answered :: load_state where
  "one_answered = one_sent\<lparr>l_states := [2, 0], l_outstanding := 0, l_sender := Sender_Done 1, r_at := Receiver_Done,
     r_counters := no_counters\<lparr>c_valid_replies := 1\<rparr>, r_max := Some 0, r_samples := [50]\<rparr>"

lemma one_answered_steps:
  "receiver_step two_packets Deadline (receiver_step two_packets Quiet (receiver_step two_packets Quiet
     (receiver_step two_packets (Datagram first_packet 150) (sender_step two_packets (answers True 200) one_sent)))) =
   one_answered"
  by (simp add: sender_defs receiver_defs Let_def first_packet_facts two_packets_def one_sent_def one_start_def
      one_answered_def answers_def sat_sub_def no_counters_def)

lemma one_answered_run: "load_run two_packets one_answered"
  unfolding one_answered_steps [symmetric] by (intro load_receive load_send one_sent_run)

lemma one_answered_counters:
  "load_counters two_packets one_answered =
    Some (no_counters\<lparr>c_planned := 2, c_sent := 1, c_valid_replies := 1\<rparr>)"
  by (simp add: load_counters_def one_answered_def one_sent_def one_start_def no_counters_def two_packets_def sat_sub_def)

theorem window_is_respected_witness:
  "load_run two_packets one_sent \<and> in_flight one_sent = 1 \<and> in_flight one_sent \<le> unat (l_outstanding one_sent)"
  using window_is_respected [OF one_sent_run] one_sent_run
  by (simp add: one_sent_def one_start_def in_flight_def tally_def)

theorem full_window_drains_witness:
  "\<exists>k \<le> 6. l_sender ((sender_step two_packets (answers False 1100) ^^ k)
     (one_sent\<lparr>l_sender := Check_Window 1\<rparr>)) = Stamp 1"
proof -
  have "load_run two_packets (sender_step two_packets (answers False 1100) one_sent)"
    using one_sent_run by (rule load_send)
  then have "load_run two_packets (one_sent\<lparr>l_sender := Check_Window 1\<rparr>)"
    by (simp add: sender_step_def go_def one_sent_def two_packets_def answers_def)
  from full_window_drains [OF this, of 1 "answers False 1100"] show ?thesis
    by (simp add: one_sent_def one_start_def two_packets_def answers_def sat_sub_def)
qed

theorem replies_are_counted_once_witness:
  "load_counters two_packets one_answered = Some (no_counters\<lparr>c_planned := 2, c_sent := 1, c_valid_replies := 1\<rparr>) \<and>
    length (l_wire one_answered) = 1"
  using replies_are_counted_once [OF one_answered_run _ one_answered_counters] one_answered_counters
  by (simp add: two_packets_def no_counters_def)

theorem unsent_packets_are_reported_as_sent_witness:
  "l_wire one_answered = [first_packet] \<and> length first_packet = 32 \<and>
    sent_payload_bytes two_packets one_answered = 64"
  using unsent_packets_are_reported_as_sent [OF one_answered_run _ one_answered_counters] first_packet_facts(3)
  by (simp add: two_packets_def no_counters_def one_answered_def one_sent_def)

end
