(* ===== verification/Client_Properties.thy ===== *)
theory Client_Properties
  imports Bench_Client Load_Properties
begin

text \<open>
  The properties of the sequential workloads of the host benchmark, and of its verdict on a
  stream.
\<close>

section \<open>Stop and wait\<close>

lemma raw_packet_some: "\<exists>packet. raw_packet n run_id seq = Some packet"
  by (simp add: raw_packet_def packet_encode_layout HEADER_LEN_def)

definition wait_accounts :: "wait_state \<Rightarrow> bool" where
  "wait_accounts w \<longleftrightarrow>
    unat (w_attempts w) = length (w_samples w) + unat (w_timeouts w) + unat (w_corrupt w)"

lemma wait_turn_accounts:
  assumes "wait_accounts w" and "w_attempts w < attempts" and "wait_turn n run_id answer w = Inr w'"
  shows "wait_accounts w'" and "length (w_samples w') \<le> Suc (length (w_samples w))"
proof -
  have b: "unat (w_attempts w) < 18446744073709551615"
    using assms(2) unat_u64_bound [of attempts] by (simp add: word_less_unat)
  have "unat (x + 1) = Suc (unat x)" if "unat x \<le> unat (w_attempts w)" for x :: u64
    using that b unat_add_small [of x 1] by simp
  then show "wait_accounts w'" "length (w_samples w') \<le> Suc (length (w_samples w))"
    using assms(1,3) by (auto simp: wait_accounts_def wait_turn_def Let_def
        split: option.splits wait_answer.splits if_splits)
qed

lemma wait_turn_no_panic: "wait_turn n run_id answer w \<noteq> Inl Wait_Panic"
  using raw_packet_some [of n run_id "w_sequence w"]
  by (auto simp: wait_turn_def Let_def split: wait_answer.splits if_splits)

lemma wait_loop_no_panic: "wait_loop n run_id successes attempts answer w \<noteq> Inl Wait_Panic"
proof (induction n run_id successes attempts answer w rule: wait_loop.induct)
  case (1 n run_id successes attempts answer w)
  then show ?case
    using wait_turn_no_panic [of n run_id answer w] wait_loop.simps [of n run_id successes attempts answer w]
    by (auto split: sum.splits)
qed

lemma wait_loop_accounts:
  assumes "wait_loop n run_id successes attempts answer w = Inr w'"
    and "wait_accounts w" and "length (w_samples w) \<le> unat successes" and "w_attempts w \<le> attempts"
  shows "wait_accounts w' \<and> length (w_samples w') \<le> unat successes \<and> w_attempts w' \<le> attempts \<and>
    \<not> wants successes attempts w'"
  using assms
proof (induction n run_id successes attempts answer w rule: wait_loop.induct)
  case (1 n run_id successes attempts answer w)
  show ?case
  proof (cases "wants successes attempts w")
    case False
    then show ?thesis using 1(2-5) by (simp add: wait_loop.simps [of _ _ _ _ _ w])
  next
    case True
    then obtain w1 where w1: "wait_turn n run_id answer w = Inr w1"
      "wait_loop n run_id successes attempts answer w1 = Inr w'"
      using 1(2) by (auto simp: wait_loop.simps [of _ _ _ _ _ w] split: sum.splits)
    have "w_attempts w1 \<le> attempts"
      using True wait_turn_attempts [OF w1(1)] by (simp add: wants_def inc_le)
    then show ?thesis
      using 1(1) [OF True w1] wait_turn_accounts [OF 1(3) _ w1(1), of attempts] True
      by (auto simp: wants_def)
  qed
qed

text \<open>The stop-and-wait loop always ends and never panics: it makes at most twice the wanted number
  of attempts, or ten, every attempt is a sample, a timeout or a corrupt reply, and it stops
  with fewer samples than wanted only when the attempts are used up.\<close>
theorem stop_and_wait_is_bounded:
  "stop_and_wait n run_id warmed successes answer = Inl Wait_Io \<or>
   (\<exists>w. stop_and_wait n run_id warmed successes answer = Inr w \<and>
     unat (w_attempts w) = length (w_samples w) + unat (w_timeouts w) + unat (w_corrupt w) \<and>
     unat (w_attempts w) \<le> max (2 * unat successes) 10 \<and> length (w_samples w) \<le> unat successes \<and>
     (length (w_samples w) = unat successes \<or> w_attempts w = maximum_attempts successes))"
proof (cases "stop_and_wait n run_id warmed successes answer")
  case (Inl e)
  then show ?thesis
    using wait_loop_no_panic by (cases e) (auto simp: stop_and_wait_def)
next
  case (Inr w)
  have "unat (maximum_attempts successes) \<le> max (2 * unat successes) 10"
    by (simp add: maximum_attempts_def max_def min_def word_le_unat unat_sat_mul split: if_splits)
  moreover have "wait_accounts w \<and> length (w_samples w) \<le> unat successes \<and>
      w_attempts w \<le> maximum_attempts successes \<and> \<not> wants successes (maximum_attempts successes) w"
    using wait_loop_accounts [OF Inr [unfolded stop_and_wait_def]] by (simp add: wait_accounts_def)
  ultimately show ?thesis
    using Inr by (auto simp: wait_accounts_def wants_def word_le_unat not_less word_unat_eq_iff)
qed

section \<open>Bursts\<close>

definition burst_wf :: "nat \<Rightarrow> burst_state \<Rightarrow> bool" where
  "burst_wf k b \<longleftrightarrow> length (b_seen b) = k \<and> b_received b = tally id (b_seen b)"

text \<open>What a datagram keeps: the planned and sent packets, and the valid replies but for those of
  this burst.\<close>

definition burst_kept :: "burst_state \<Rightarrow> u64 \<times> u64 \<times> u64 \<times> u64" where
  "burst_kept b = (let c = b_counters b
    in (c_planned c, c_sent c, c_send_errors c, c_valid_replies c - of_nat (b_received b)))"

lemma burst_offset:
  assumes "unat first + k < 18446744073709551616" and "\<not> x < (first :: u64)" and "x < first + of_nat k"
  shows "unat (x - first) < k"
proof -
  have "unat (first + of_nat k) = unat first + k"
    using assms(1) by (simp add: unat_add_small unat_of_nat)
  then show ?thesis
    using assms(2,3) by (simp add: unat_diff_le word_le_unat word_less_unat not_less)
qed

lemma burst_datagram_step:
  assumes "burst_wf k b" and "length ts = k" and "unat first + k < 18446744073709551616"
  shows "\<exists>b'. burst_datagram n run_id first (first + of_nat k) ts packet t b = Inr b' \<and> burst_wf k b' \<and>
    burst_kept b' = burst_kept b"
proof -
  have acc: "burst_wf k (burst_accept i r b) \<and> burst_kept (burst_accept i r b) = burst_kept b"
    if "i < k" "\<not> b_seen b ! i" for i r
    using that assms(1) tally_in [of i "b_seen b" id True]
    by (simp add: burst_wf_def burst_kept_def burst_accept_def Let_def)
  have cnt: "burst_wf k (burst_count f b) \<and> burst_kept (burst_count f b) = burst_kept b"
    if "\<And>c. c_planned (f c) = c_planned c \<and> c_sent (f c) = c_sent c \<and> c_send_errors (f c) = c_send_errors c \<and>
      c_valid_replies (f c) = c_valid_replies c" for f
    using that assms(1) by (simp add: burst_wf_def burst_kept_def burst_count_def Let_def)
  show ?thesis
  proof (cases "packet_decode packet")
    case (Inl e)
    then show ?thesis using cnt by (auto simp: burst_datagram_def)
  next
    case (Inr h)
    show ?thesis
    proof (cases "h_run_id h \<noteq> run_id \<or> h_sequence h < first \<or> first + of_nat k \<le> h_sequence h")
      case True
      then show ?thesis using Inr cnt by (auto simp: burst_datagram_def)
    next
      case False
      then have "unat (h_sequence h - first) < k" by (intro burst_offset [OF assms(3)]) auto
      then show ?thesis
        using Inr False assms(1,2) acc cnt by (auto simp: burst_datagram_def Let_def burst_wf_def)
    qed
  qed
qed

lemma burst_receive_accounts:
  assumes "burst_wf k b" and "length ts = k" and "unat first + k < 18446744073709551616"
  shows "burst_receive n run_id first (first + of_nat k) ts k evs b = Inl Burst_Io \<or>
    (\<exists>b'. burst_receive n run_id first (first + of_nat k) ts k evs b = Inr b' \<and> burst_wf k b' \<and>
      burst_kept b' = burst_kept b)"
  using assms(1)
proof (induction evs arbitrary: b)
  case (Cons ev evs)
  show ?case
  proof (cases "k \<le> b_received b")
    case False
    then show ?thesis
    proof (cases ev)
      case (Datagram packet t)
      obtain b' where "burst_datagram n run_id first (first + of_nat k) ts packet t b = Inr b'"
        "burst_wf k b'" "burst_kept b' = burst_kept b"
        using burst_datagram_step [OF Cons(2) assms(2,3)] by blast
      then show ?thesis using Cons(1) [of b'] False Datagram by simp
    qed (use Cons False in auto)
  qed (use Cons in auto)
qed simp

lemma burst_send_accounts:
  "burst_send n run_id first outcome offsets (c, ts) = Inl Burst_Encode \<or>
    (\<exists>c' ts'. burst_send n run_id first outcome offsets (c, ts) = Inr (c', ts') \<and>
      length ts' = length ts + length offsets \<and> c_valid_replies c' = c_valid_replies c \<and>
      c_planned c' = c_planned c \<and>
      c_sent c' + c_send_errors c' = c_sent c + c_send_errors c + of_nat (length offsets))"
proof (induction offsets arbitrary: c ts)
  case (Cons x offsets)
  show ?case
    using Cons [of "c\<lparr>c_sent := c_sent c + 1\<rparr>" "ts @ [fst (outcome x)]"]
      Cons [of "c\<lparr>c_send_errors := c_send_errors c + 1\<rparr>" "ts @ [0]"]
    by (cases "outcome x") (auto simp: Let_def split: sum.split)
qed simp

lemma tally_all: "tally id xs = length xs \<longleftrightarrow> (\<forall>i < length xs. xs ! i)"
proof -
  have "tally id xs = length xs \<longleftrightarrow> (\<forall>x \<in> set xs. x)"
    by (metis tally_def filter_True id_apply length_filter_less less_irrefl)
  then show ?thesis by (simp add: all_set_conv_all_nth)
qed

lemma burst_send_encodes:
  "32 \<le> n \<Longrightarrow> burst_send n run_id first outcome offsets st \<noteq> Inl e"
  by (induction n run_id first outcome offsets st rule: burst_send.induct)
     (auto simp: Let_def packet_encode_layout split: prod.split)

text \<open>A repetition of a burst never panics, whatever datagrams arrive: it counts every packet as sent
  or failed, accepts each of its packets at most once, and is complete exactly when a valid
  reply to every packet was accepted.\<close>
theorem burst_accepts_each_packet_once:
  assumes "32 \<le> n" and "unat first + k < 2 ^ 64"
  shows "one_burst n run_id k outcome evs (c, first, samples) = Inl Burst_Io \<or>
    (\<exists>c' samples' complete seen.
      one_burst n run_id k outcome evs (c, first, samples) = Inr ((c', first + of_nat k, samples'), complete) \<and>
      c_planned c' = c_planned c + of_nat k \<and>
      c_sent c' + c_send_errors c' = c_sent c + c_send_errors c + of_nat k \<and>
      length seen = k \<and> c_valid_replies c' = c_valid_replies c + of_nat (length (filter id seen)) \<and>
      (complete \<longleftrightarrow> (\<forall>i < k. seen ! i)))"
proof -
  obtain c1 ts where send: "burst_send n run_id first outcome [0..<k] (c, []) = Inr (c1, ts)"
    "length ts = k" "c_valid_replies c1 = c_valid_replies c" "c_planned c1 = c_planned c"
    "c_sent c1 + c_send_errors c1 = c_sent c + c_send_errors c + of_nat k"
    using burst_send_accounts [of n run_id first outcome "[0..<k]" c "[]"]
      burst_send_encodes [OF assms(1)] by auto
  let ?b = "\<lparr>b_counters = c1\<lparr>c_planned := c_planned c1 + of_nat k\<rparr>, b_seen = replicate k False, b_received = 0,
    b_max = None, b_samples = samples\<rparr>"
  have k: "unat first + k < 18446744073709551616" using assms(2) by simp
  have "burst_wf k ?b" by (simp add: burst_wf_def tally_def)
  from burst_receive_accounts [OF this send(2) k, of n run_id evs] show ?thesis
  proof (elim disjE exE conjE)
    fix b' assume b': "burst_receive n run_id first (first + of_nat k) ts k evs ?b = Inr b'" "burst_wf k b'"
      "burst_kept b' = burst_kept ?b"
    have w: "length (b_seen b') = k" "b_received b' = tally id (b_seen b')" using b'(2) by (simp_all add: burst_wf_def)
    have v: "c_planned (b_counters b') = c_planned c + of_nat k" "c_sent (b_counters b') = c_sent c1"
      "c_send_errors (b_counters b') = c_send_errors c1"
      "c_valid_replies (b_counters b') = c_valid_replies c + of_nat (b_received b')"
      using b'(3) send(3,4) by (auto simp: burst_kept_def Let_def algebra_simps)
    have "one_burst n run_id k outcome evs (c, first, samples) =
        Inr ((b_counters b', first + of_nat k, b_samples b'), b_received b' = k)"
      using send(1) b'(1) by (simp add: one_burst_def Let_def)
    then show ?thesis
      using v w send(5) tally_all [of "b_seen b'"] by (auto simp: tally_def)
  qed (use send(1) in \<open>simp_all add: one_burst_def Let_def\<close>)
qed

section \<open>The plan of a soak\<close>

lemma mixed_loop_budget:
  assumes "ns \<noteq> []" and "\<forall>n \<in> set ns. 0 < n \<and> n \<le> 65535"
  shows "\<exists>plan. mixed_loop ns budget bits state = Some plan \<and> unat ` set plan \<subseteq> set ns \<and>
    budget \<le> bits + 8 * sum_list (map unat plan) \<and>
    (bits < budget \<longrightarrow> bits + 8 * sum_list (map unat plan) < budget + 8 * Max (set ns))"
proof (induction "budget - bits" arbitrary: bits state rule: less_induct)
  case less
  show ?case
  proof (cases "bits < budget")
    case False
    then show ?thesis by (simp add: mixed_loop.simps)
  next
    case True
    define s n where "s = xorshift state" and "n = ns ! (unat s mod length ns)"
    have n: "n \<in> set ns" using assms(1) by (simp add: n_def)
    then have "0 < n" "n \<le> 65535" using assms(2) by blast+
    then have u: "unat (of_nat n :: u16) = n" "0 < n" by (simp_all add: unat_of_nat)
    have "n \<le> Max (set ns)" using n by simp
    have "budget - (bits + n * 8) < budget - bits" using True u(2) by simp
    from less [OF this, of s] obtain rest where rest: "mixed_loop ns budget (bits + n * 8) s = Some rest"
      "unat ` set rest \<subseteq> set ns" "budget \<le> bits + n * 8 + 8 * sum_list (map unat rest)"
      "bits + n * 8 < budget \<longrightarrow> bits + n * 8 + 8 * sum_list (map unat rest) < budget + 8 * Max (set ns)"
      by blast
    have "mixed_loop ns budget bits state = Some (of_nat n # rest)"
      using True rest(1) by (simp add: mixed_loop.simps [of ns budget bits state] s_def n_def Let_def)
    moreover have "bits + n * 8 + 8 * sum_list (map unat rest) < budget + 8 * Max (set ns)"
    proof (cases "bits + n * 8 < budget")
      case False
      then have "rest = []" using rest(1) by (simp add: mixed_loop.simps)
      then show ?thesis using True \<open>n \<le> Max (set ns)\<close> by simp
    qed (use rest(4) in simp)
    ultimately show ?thesis using rest(2,3) u(1) n by simp
  qed
qed

text \<open>Planning a soak ends for every seed, with packets of the given sizes that use up the bit
  budget and exceed it by less than the largest packet.\<close>
theorem payload_plan_meets_budget:
  assumes "ns \<noteq> []" and "\<forall>n \<in> set ns. 32 \<le> n \<and> n \<le> 65535"
  shows "\<exists>plan. mixed_plan ns budget seed = Some plan \<and> unat ` set plan \<subseteq> set ns \<and>
    budget \<le> 8 * sum_list (map unat plan) \<and>
    (0 < budget \<longrightarrow> 8 * sum_list (map unat plan) < budget + 8 * Max (set ns))"
  using mixed_loop_budget [of ns budget 0 "max seed 1"] assms
  by (simp add: mixed_plan_def HEADER_LEN_def) fastforce

theorem payload_plan_meets_budget_witness:
  "\<exists>plan. mixed_plan [64, 512, 1472] 1000000 7 = Some plan \<and> 1000000 \<le> 8 * sum_list (map unat plan) \<and>
    8 * sum_list (map unat plan) < 1011776"
  using payload_plan_meets_budget [of "[64, 512, 1472]" 1000000 7] by auto

section \<open>The intervals of a soak\<close>

lemma soak_loop_ends:
  assumes "0 < interval"
  shows "\<exists>r. soak_loop load interval remaining index totals results = Some r \<and>
    (\<forall>t ds. r = Inr (t, ds) \<longrightarrow>
      (\<exists>new. ds = results @ new \<and> sum_list (map fst new) = remaining \<and> t = foldl add_counters totals (map snd new) \<and>
        (\<forall>d \<in> fst ` set new. 0 < d \<and> d \<le> interval)))"
proof (induction remaining arbitrary: index totals results rule: less_induct)
  case (less remaining)
  show ?case
  proof (cases "remaining = 0")
    case True
    then show ?thesis by (simp add: soak_loop.simps)
  next
    case False
    define d where "d = min remaining interval"
    have d: "remaining - d < remaining" "0 < d" "d \<le> interval" "d \<le> remaining"
      using False assms by (auto simp: d_def)
    show ?thesis
    proof (cases "load index d")
      case (Inl e)
      then show ?thesis using False by (simp add: soak_loop.simps [of _ _ remaining] d_def Let_def)
    next
      case (Inr c)
      have s: "soak_loop load interval remaining index totals results =
          soak_loop load interval (remaining - d) (index + 1) (add_counters totals c) (results @ [(d, c)])"
        using False Inr by (simp add: soak_loop.simps [of _ _ remaining] d_def Let_def)
      obtain r where r: "soak_loop load interval (remaining - d) (index + 1) (add_counters totals c) (results @ [(d, c)]) = Some r"
        "\<forall>t ds. r = Inr (t, ds) \<longrightarrow> (\<exists>new. ds = (results @ [(d, c)]) @ new \<and> sum_list (map fst new) = remaining - d \<and>
          t = foldl add_counters (add_counters totals c) (map snd new) \<and> (\<forall>d \<in> fst ` set new. 0 < d \<and> d \<le> interval))"
        using less [OF d(1), of "index + 1" "add_counters totals c" "results @ [(d, c)]"] by blast
      have "\<exists>new. ds = results @ new \<and> sum_list (map fst new) = remaining \<and> t = foldl add_counters totals (map snd new) \<and>
          (\<forall>d \<in> fst ` set new. 0 < d \<and> d \<le> interval)" if ds: "r = Inr (t, ds)" for t ds
      proof -
        obtain new where "ds = (results @ [(d, c)]) @ new" "sum_list (map fst new) = remaining - d"
          "t = foldl add_counters (add_counters totals c) (map snd new)" "\<forall>d \<in> fst ` set new. 0 < d \<and> d \<le> interval"
          using r(2) ds by blast
        then show ?thesis using d by (intro exI [of _ "(d, c) # new"]) simp
      qed
      then show ?thesis using s r(1) by auto
    qed
  qed
qed

lemma soak_loop_stuck:
  assumes "soak_loop load interval remaining index totals results = Some r"
  shows "(\<forall>i d. \<exists>c. load i d = Inr c) \<longrightarrow> interval = 0 \<longrightarrow> remaining = 0"
proof (rule soak_loop.raw_induct [OF _ assms], intro impI, rule ccontr)
  fix f :: "(nat \<Rightarrow> nat \<Rightarrow> 'e + packet_counters) \<Rightarrow> nat \<Rightarrow> nat \<Rightarrow> nat \<Rightarrow> packet_counters \<Rightarrow>
      (nat \<times> packet_counters) list \<Rightarrow> ('e + packet_counters \<times> (nat \<times> packet_counters) list) option"
    and load interval remaining index totals results r
  assume ih: "\<And>load interval remaining index totals results r. f load interval remaining index totals results = Some r \<Longrightarrow>
      (\<forall>i d. \<exists>c. load i d = Inr c) \<longrightarrow> interval = 0 \<longrightarrow> remaining = 0"
    and body: "(if remaining = 0 then Some (Inr (totals, results))
      else let this = min remaining interval
           in case load index this of Inl e \<Rightarrow> Some (Inl e)
              | Inr c \<Rightarrow> f load interval (remaining - this) (index + 1) (add_counters totals c) (results @ [(this, c)])) = Some r"
    and load: "\<forall>i d. \<exists>c. load i d = Inr c" and "interval = 0" and "remaining \<noteq> 0"
  obtain c where "load index 0 = Inr c" using load by blast
  then have "f load 0 remaining (index + 1) (add_counters totals c) (results @ [(0, c)]) = Some r"
    using body \<open>interval = 0\<close> \<open>remaining \<noteq> 0\<close> by (simp add: Let_def)
  then show False using ih load \<open>remaining \<noteq> 0\<close> by blast
qed

text \<open>C34: a soak ends for every positive interval: its intervals are at most that long and add up to the
  duration, and the totals are the sums of their counters.  With an interval of zero a soak
  of positive duration whose loads succeed never ends.\<close>
theorem soak_ends_with_positive_interval:
  "(0 < interval \<longrightarrow> (\<exists>r. soak load duration interval = Some r \<and>
     (\<forall>t ds. r = Inr (t, ds) \<longrightarrow> sum_list (map fst ds) = duration \<and>
       t = foldl add_counters no_counters (map snd ds) \<and> (\<forall>d \<in> fst ` set ds. 0 < d \<and> d \<le> interval)))) \<and>
   ((\<forall>i d. \<exists>c. load i d = Inr c) \<and> 0 < duration \<longrightarrow> soak load duration 0 = None)"
proof -
  have "soak load duration 0 = None" if "\<forall>i d. \<exists>c. load i d = Inr c" "0 < duration"
    using soak_loop_stuck [of load 0 duration 0 no_counters "[]"] that
    by (cases "soak load duration 0") (auto simp: soak_def)
  then show ?thesis
    using soak_loop_ends [of interval load duration 0 no_counters "[]"] by (auto simp: soak_def)
qed

section \<open>Verdicts\<close>

definition states_known :: "load_state \<Rightarrow> bool" where
  "states_known s \<longleftrightarrow> (\<forall>j < published (l_sender s). l_states s ! j \<in> {1, 2, 3, 4})"

lemma known_update:
  assumes "states_known s" and "l_states s' = (l_states s)[i := v]" and "v \<in> {1, 2, 3, 4}"
    and "published (l_sender s') \<le> length (l_states s)"
    and "\<And>j. j < published (l_sender s') \<Longrightarrow> j < published (l_sender s) \<or> j = i"
  shows "states_known s'"
  unfolding states_known_def
proof (intro allI impI)
  fix j assume j: "j < published (l_sender s')"
  show "l_states s' ! j \<in> {1, 2, 3, 4}"
  proof (cases "j = i")
    case True
    then show ?thesis using j assms(2-4) by simp
  next
    case False
    then show ?thesis using j assms(1,2) assms(5) [OF j] by (simp add: states_known_def)
  qed
qed

lemma known_same:
  assumes "states_known s" and "l_states s' = l_states s" and "published (l_sender s') \<le> published (l_sender s)"
  shows "states_known s'"
  using assms by (simp add: states_known_def)

lemma sender_keeps_known:
  assumes "load_wf p s" and "states_known s"
  shows "states_known (sender_step p e s)"
proof (cases "l_sender s")
  case (Exchange i t)
  then show ?thesis
    using assms known_update [OF assms(2), of "sender_step p e s" "l_cursor s" 3]
      known_same [OF assms(2), of "sender_step p e s"]
    by (cases "l_states s ! l_cursor s = 1") (simp_all add: sender_step_def expire_exchange_def go_def load_wf_def)
next
  case (Publish i k)
  then show ?thesis
    using assms(1) by (intro known_update [OF assms(2), of _ i 1]) (auto simp: sender_step_def go_def load_wf_def)
next
  case (Withdraw i)
  have "l_states (sender_step p e s) = (l_states s)[i := 4]" "published (l_sender (sender_step p e s)) = Suc i"
    using Withdraw by (simp_all add: sender_step_def withdraw_def count_failure_def go_def)
  then show ?thesis
    using Withdraw assms(1) by (intro known_update [OF assms(2), of _ i 4]) (simp_all add: load_wf_def)
qed (use assms(2) in \<open>auto intro!: known_same [OF assms(2)] simp: sender_step_def expire_look_def
    expire_release_def stamp_def count_failure_def go_def split: sum.split\<close>)

lemma receiver_keeps_known:
  assumes "load_wf p s" and "states_known s"
  shows "states_known (receiver_step p ev s)"
proof (cases "r_at s")
  case Listening
  then show ?thesis by (intro known_same [OF assms(2)]) (simp_all add: listening_step)
next
  case (Classify i t)
  have "l_states (receiver_step p ev s) = (l_states s)[i := 2]" "l_sender (receiver_step p ev s) = l_sender s"
    using Classify by (auto simp: receiver_defs Let_def)
  then show ?thesis
    using assms(1) handled_begun(2) [of "l_sender s"]
    by (intro known_update [OF assms(2), of _ i 2]) (simp_all add: load_wf_def)
qed (use assms(2) in \<open>simp_all add: states_known_def receiver_step_def release_def accept_def Let_def\<close>)

lemma load_run_known: "load_run p s \<Longrightarrow> states_known s"
proof (induction rule: load_run.induct)
  case (load_begin s)
  then show ?case by (auto simp: load_start_def states_known_def split: if_splits)
qed (use load_run_wf sender_keeps_known receiver_keeps_known in blast)+

text \<open>C33: a load run whose counters are judged reliable put every planned packet on the wire and
  accepted a reply to every one of them, each exactly once.\<close>
theorem reliable_stream_is_complete:
  assumes "load_run p s" and "length (p_sizes p) < 2 ^ 64" and "load_counters p s = Some c"
    and "stream_reliable c rate_met"
  shows "length (l_wire s) = length (p_sizes p) \<and> length (r_samples s) = length (p_sizes p) \<and>
    l_states s = replicate (length (p_sizes p)) 2"
proof -
  obtain i where i: "l_sender s = Sender_Done i" "r_at s = Receiver_Done"
    and c: "c = (r_counters s)\<lparr>c_planned := of_nat (length (p_sizes p)), c_sent := l_sent s,
      c_send_errors := l_errors s, c_missing := sat_sub (l_sent s) (c_valid_replies (r_counters s))\<rparr>"
    using assms(3) by (auto simp: load_counters_def Let_def split: sender_at.splits receiver_at.splits)
  have n: "unat (of_nat (length (p_sizes p)) :: u64) = length (p_sizes p)" using assms(2) by (simp add: unat_of_nat)
  have r: "l_sent s = of_nat (length (p_sizes p))" "c_valid_replies (r_counters s) = l_sent s" "l_errors s = 0"
    using assms(4) by (auto simp: stream_reliable_def c)
  have wf: "length (l_states s) = length (p_sizes p)" "i \<le> length (p_sizes p)"
    using load_run_wf [OF assms(1)] i(1) by (simp_all add: load_wf_def)
  have k: "sends_counted s" "replies_counted s" "failures_counted s"
    using load_run_counted [OF assms(1)] assms(2) by simp_all
  have "i = length (p_sizes p)" using k(1) i(1) r n by (simp add: sends_counted_def)
  then have "unanswered s = 0" using k(2) i r n by (simp add: replies_counted_def)
  then have "x \<noteq> 1 \<and> x \<noteq> 3" if "x \<in> set (l_states s)" for x
    using that tally_pos [of "\<lambda>x. x = 1 \<or> x = 3" "l_states s"] by (auto simp: unanswered_def)
  moreover have "x \<noteq> 4" if "x \<in> set (l_states s)" for x
    using that k(3) r(3) i(1) by (auto simp: failures_counted_def)
  moreover have "x \<in> {1, 2, 3, 4}" if "x \<in> set (l_states s)" for x
    using that load_run_known [OF assms(1)] i(1) wf(1) \<open>i = length (p_sizes p)\<close>
    by (auto simp: states_known_def in_set_conv_nth)
  ultimately have "\<forall>x \<in> set (l_states s). x = 2" by blast
  then show ?thesis
    using k(1,2) r n wf(1) by (simp add: sends_counted_def replies_counted_def replicate_eqI)
qed

section \<open>Concrete runs\<close>

theorem burst_accepts_each_packet_once_witness:
  "\<exists>c' samples'. one_burst 32 7 1 (\<lambda>_. (100, True)) [Quiet, Datagram first_packet 150, Quiet] (no_counters, 0, []) =
    Inr ((c', 1, samples'), True) \<and> c_valid_replies c' = 1"
proof -
  have "one_burst 32 7 1 (\<lambda>_. (100, True)) [Quiet, Datagram first_packet 150, Quiet] (no_counters, 0, []) =
      Inr ((no_counters\<lparr>c_planned := 1, c_sent := 1, c_valid_replies := 1\<rparr>, 1, [50]), True)"
    by (simp add: one_burst_def Let_def packet_encode_layout burst_datagram_def first_packet_facts
        burst_accept_def sat_sub_def no_counters_def HEADER_LEN_def)
  then show ?thesis
    using burst_accepts_each_packet_once [of 32 0 1 7 "\<lambda>_. (100, True)" "[Quiet, Datagram first_packet 150, Quiet]"
      no_counters "[]"] by (simp add: no_counters_def)
qed

theorem soak_ends_with_positive_interval_witness:
  "(\<exists>r. soak (\<lambda>_ _. Inr no_counters :: unit + packet_counters) 5 2 = Some r) \<and>
    soak (\<lambda>_ _. Inr no_counters :: unit + packet_counters) 5 0 = None"
  using soak_ends_with_positive_interval [of 2 "\<lambda>_ _. Inr no_counters :: unit + packet_counters" 5] by auto

definition complete_plan :: load_plan where
  "complete_plan = two_packets\<lparr>p_sizes := [32]\<rparr>"

definition complete_state :: load_state where
  "complete_state = one_answered\<lparr>l_states := [2], l_times := [100]\<rparr>"

lemma complete_run: "load_run complete_plan complete_state"
proof -
  let ?s0 = "one_start\<lparr>l_states := [0], l_times := [0]\<rparr>"
  have "load_run complete_plan ?s0"
    by (rule load_begin) (simp add: load_start_def complete_plan_def two_packets_def one_start_def)
  then have "load_run complete_plan ((sender_step complete_plan (answers False 100) ^^ 6) ?s0)" by (rule run_sends)
  moreover have "(sender_step complete_plan (answers False 100) ^^ 6) ?s0 = one_sent\<lparr>l_states := [1], l_times := [100]\<rparr>"
    by (simp add: six_steps sender_defs complete_plan_def two_packets_def answers_def one_start_def one_sent_def
        first_packet_facts)
  ultimately have "load_run complete_plan (receiver_step complete_plan Deadline (receiver_step complete_plan Quiet
      (receiver_step complete_plan Quiet (receiver_step complete_plan (Datagram first_packet 150)
        (sender_step complete_plan (answers False 200) (one_sent\<lparr>l_states := [1], l_times := [100]\<rparr>))))))"
    by (intro load_receive load_send) simp
  moreover have "receiver_step complete_plan Deadline (receiver_step complete_plan Quiet
      (receiver_step complete_plan Quiet (receiver_step complete_plan (Datagram first_packet 150)
        (sender_step complete_plan (answers False 200) (one_sent\<lparr>l_states := [1], l_times := [100]\<rparr>))))) = complete_state"
    by (simp add: sender_defs receiver_defs Let_def first_packet_facts complete_plan_def two_packets_def one_sent_def
        one_start_def one_answered_def complete_state_def answers_def sat_sub_def no_counters_def)
  ultimately show ?thesis by simp
qed

theorem reliable_stream_is_complete_witness:
  "\<exists>c. load_counters complete_plan complete_state = Some c \<and> stream_reliable c True \<and>
    l_states complete_state = [2]"
proof -
  let ?c = "no_counters\<lparr>c_planned := 1, c_sent := 1, c_valid_replies := 1\<rparr>"
  have c: "load_counters complete_plan complete_state = Some ?c"
    by (simp add: load_counters_def complete_state_def one_answered_def one_sent_def one_start_def no_counters_def
        complete_plan_def two_packets_def sat_sub_def)
  have r: "stream_reliable ?c True" by (simp add: stream_reliable_def no_counters_def)
  have "l_states complete_state = replicate (length (p_sizes complete_plan)) 2"
    using reliable_stream_is_complete [OF complete_run _ c r] by (simp add: complete_plan_def)
  then show ?thesis using c r by (simp add: complete_plan_def)
qed

end
