(* ===== verification/Profiling.thy ===== *)
theory Profiling
  imports Firmware_Rules
begin

text \<open>
  \<^verbatim>\<open>Rust/src/profiling.rs\<close>, its UDP endpoints \<^verbatim>\<open>servers/embassy_profiling.rs\<close> and
  \<^verbatim>\<open>servers/w5500_offload_profiling.rs\<close>, and the client
  \<^verbatim>\<open>tools/udp-benchmark/src/profile.rs\<close>.  The 32-bit cycle counter, the clock and the words
  of the stack are arguments.  The ratios that the client computes in floating point from
  the decoded values are left out.
\<close>

section \<open>The instrumentation\<close>

definition CPU_HZ :: u32 where "CPU_HZ = 400000000"
definition TIME_TICKS_HZ :: u32 where "TIME_TICKS_HZ = 32768"
definition STACK_PAINT :: u32 where "STACK_PAINT = 0xcccccccc"

record profiler =
  busy_cycles :: u64
  polls :: u64
  active_since :: "u32 option"
  reset_ticks :: u64

definition profiler_boot :: profiler where
  "profiler_boot = \<lparr>busy_cycles = 0, polls = 0, active_since = None, reset_ticks = 0\<rparr>"

definition profiler_reset :: "u32 \<Rightarrow> u64 \<Rightarrow> profiler" where
  "profiler_reset cycles ticks = \<lparr>busy_cycles = 0, polls = 0, active_since = Some cycles, reset_ticks = ticks\<rparr>"

definition since :: "u32 \<Rightarrow> u32 \<Rightarrow> u64" where
  "since cycles start = ucast (cycles - start)"

definition poll_start :: "u32 \<Rightarrow> profiler \<Rightarrow> profiler" where
  "poll_start cycles s =
    (let s = (case active_since s of
                None \<Rightarrow> s
              | Some start \<Rightarrow> s\<lparr>busy_cycles := busy_cycles s + since cycles start\<rparr>)
     in s\<lparr>active_since := Some cycles, polls := polls s + 1\<rparr>)"

definition executor_idle :: "u32 \<Rightarrow> profiler \<Rightarrow> profiler" where
  "executor_idle cycles s =
    (case active_since s of
       None \<Rightarrow> s
     | Some start \<Rightarrow> s\<lparr>active_since := None, busy_cycles := busy_cycles s + since cycles start\<rparr>)"

text \<open>The stack between its bottom and top, given by the words at its addresses.  Nothing is the
  underflow where the bounds are not a whole number of words apart.\<close>

function stack_cursor :: "(nat \<Rightarrow> u32) \<Rightarrow> nat \<Rightarrow> nat \<Rightarrow> nat" where
  "stack_cursor word limit cursor =
    (if cursor < limit \<and> word cursor = STACK_PAINT then stack_cursor word limit (cursor + 4) else cursor)"
  by pat_completeness auto
termination by (relation "measure (\<lambda>(_, limit, cursor). limit - cursor)") auto

declare stack_cursor.simps [simp del]

definition stack_usage :: "(nat \<Rightarrow> u32) \<Rightarrow> nat \<Rightarrow> nat \<Rightarrow> (u32 \<times> u32) option" where
  "stack_usage word bottom limit =
    (let cursor = stack_cursor word limit bottom
     in if cursor \<le> limit then Some (of_nat (limit - cursor), of_nat (limit - bottom)) else None)"

definition put_u32 :: "bytes \<Rightarrow> nat \<Rightarrow> u32 \<Rightarrow> bytes" where
  "put_u32 out offset v = overwrite out offset (to_le 4 v)"

definition put_u64 :: "bytes \<Rightarrow> nat \<Rightarrow> u64 \<Rightarrow> bytes" where
  "put_u64 out offset v = overwrite out offset (to_le 8 v)"

definition reported_busy :: "u32 \<Rightarrow> profiler \<Rightarrow> u64" where
  "reported_busy cycles s = busy_cycles s + (case active_since s of None \<Rightarrow> 0 | Some start \<Rightarrow> since cycles start)"

definition encode_snapshot :: "u32 \<Rightarrow> u64 \<Rightarrow> u32 \<times> u32 \<Rightarrow> profiler \<Rightarrow> bytes \<Rightarrow> bytes" where
  "encode_snapshot cycles ticks stack s out =
    (let out = overwrite out 0 PROFILING_MAGIC;
         out = put_u32 out 8 CPU_HZ;
         out = put_u32 out 12 TIME_TICKS_HZ;
         out = put_u64 out 16 (reported_busy cycles s);
         out = put_u64 out 24 (sat_sub ticks (reset_ticks s));
         out = put_u64 out 32 (polls s);
         out = put_u32 out 40 (fst stack)
     in put_u32 out 44 (snd stack))"

section \<open>The endpoint\<close>

text \<open>A request in its 16-byte buffer; the two pairs of clock readings are those of a reset and of
  the snapshot.\<close>

definition profiling_serve ::
  "bytes \<Rightarrow> nat \<Rightarrow> u32 \<times> u64 \<Rightarrow> u32 \<times> u64 \<Rightarrow> u32 \<times> u32 \<Rightarrow> profiler \<Rightarrow> profiler \<times> bytes option" where
  "profiling_serve request n at_reset at_snapshot stack s =
    (if n < 9 \<or> take 8 request \<noteq> PROFILING_MAGIC then (s, None)
     else
       (let s = (if request ! 8 = 0x52 then profiler_reset (fst at_reset) (snd at_reset) else s)
        in (s, Some (encode_snapshot (fst at_snapshot) (snd at_snapshot) stack s (replicate PROFILING_WIRE_SIZE 0)))))"

section \<open>The client\<close>

record profile_metrics =
  m_cpu_hz :: u32
  m_time_ticks_hz :: u32
  m_busy_cycles :: u64
  m_elapsed_ticks :: u64
  m_executor_polls :: u64
  m_stack_high_water :: u32
  m_stack_capacity :: u32
  m_static_ram :: u32

datatype profile_error = Invalid_Metrics | Invalid_Response | Query_Io

definition u32_at :: "bytes \<Rightarrow> nat \<Rightarrow> u32" where
  "u32_at bs offset = from_le (slice offset (offset + 4) bs)"

definition u64_at :: "bytes \<Rightarrow> nat \<Rightarrow> u64" where
  "u64_at bs offset = from_le (slice offset (offset + 8) bs)"

definition metrics_decode :: "bytes \<Rightarrow> profile_error + profile_metrics" where
  "metrics_decode bs =
    (let cpu = u32_at bs 8; tick = u32_at bs 12; capacity = u32_at bs 44
     in if cpu = 0 \<or> tick = 0 \<or> 131072 < capacity then Inl Invalid_Metrics
        else Inr \<lparr>m_cpu_hz = cpu, m_time_ticks_hz = tick, m_busy_cycles = u64_at bs 16,
          m_elapsed_ticks = u64_at bs 24, m_executor_polls = u64_at bs 32,
          m_stack_high_water = u32_at bs 40, m_stack_capacity = capacity,
          m_static_ram = 131072 - capacity\<rparr>)"

definition profile_request :: "u8 \<Rightarrow> bytes" where
  "profile_request operation = (overwrite (replicate 9 0) 0 PROFILING_MAGIC)[8 := operation]"

text \<open>The three attempts of a query: an attempt is answered by an error of the send, an error of the
  receive, or a datagram.\<close>

datatype query_answer = Send_Broken | No_Answer | Answer bytes

fun query_loop :: "query_answer list \<Rightarrow> profile_error option \<Rightarrow> profile_error + profile_metrics" where
  "query_loop [] last_error = Inl (case last_error of None \<Rightarrow> Query_Io | Some e \<Rightarrow> e)"
| "query_loop (a # answers) last_error =
    (case a of
       Send_Broken \<Rightarrow> Inl Query_Io
     | No_Answer \<Rightarrow> query_loop answers (Some Query_Io)
     | Answer bs \<Rightarrow>
         if length bs = 48 \<and> take 8 bs = PROFILING_MAGIC then metrics_decode bs
         else query_loop answers (Some Invalid_Response))"

definition profile_query :: "(nat \<Rightarrow> query_answer) \<Rightarrow> profile_error + profile_metrics" where
  "profile_query answer = query_loop (map answer [0..<3]) None"

section \<open>The snapshot on the wire\<close>

text \<open>A snapshot is the concatenation of its fields.\<close>

lemma overwrite_at:
  "off = length pre \<Longrightarrow> length ys \<le> length post \<Longrightarrow> overwrite (pre @ post) off ys = pre @ ys @ drop (length ys) post"
  by (simp add: overwrite_def)

lemma length_PROFILING_MAGIC [simp]: "length PROFILING_MAGIC = 8"
  by (simp add: PROFILING_MAGIC_def lit_def)

definition snapshot_bytes :: "u32 \<Rightarrow> u64 \<Rightarrow> u32 \<times> u32 \<Rightarrow> profiler \<Rightarrow> bytes" where
  "snapshot_bytes cycles ticks stack s = PROFILING_MAGIC @ to_le 4 CPU_HZ @ to_le 4 TIME_TICKS_HZ @
     to_le 8 (reported_busy cycles s) @ to_le 8 (sat_sub ticks (reset_ticks s)) @ to_le 8 (polls s) @
     to_le 4 (fst stack) @ to_le 4 (snd stack)"

lemma encode_snapshot_layout:
  assumes "length out = 48"
  shows "encode_snapshot cycles ticks stack s out = snapshot_bytes cycles ticks stack s"
proof -
  let ?a = "to_le 4 CPU_HZ" and ?b = "to_le 4 TIME_TICKS_HZ" and ?c = "to_le 8 (reported_busy cycles s)"
    and ?d = "to_le 8 (sat_sub ticks (reset_ticks s))" and ?e = "to_le 8 (polls s)"
    and ?f = "to_le 4 (fst stack)" and ?g = "to_le 4 (snd stack)" and ?m = PROFILING_MAGIC
  have 0: "overwrite out 0 ?m = ?m @ drop 8 out"
    using assms overwrite_at [of 0 "[]" ?m out] by simp
  have 1: "overwrite (?m @ drop 8 out) 8 ?a = (?m @ ?a) @ drop 12 out"
    using assms by (subst overwrite_at) simp_all
  have 2: "overwrite ((?m @ ?a) @ drop 12 out) 12 ?b = (?m @ ?a @ ?b) @ drop 16 out"
    using assms by (subst overwrite_at) simp_all
  have 3: "overwrite ((?m @ ?a @ ?b) @ drop 16 out) 16 ?c = (?m @ ?a @ ?b @ ?c) @ drop 24 out"
    using assms by (subst overwrite_at) simp_all
  have 4: "overwrite ((?m @ ?a @ ?b @ ?c) @ drop 24 out) 24 ?d = (?m @ ?a @ ?b @ ?c @ ?d) @ drop 32 out"
    using assms by (subst overwrite_at) simp_all
  have 5: "overwrite ((?m @ ?a @ ?b @ ?c @ ?d) @ drop 32 out) 32 ?e = (?m @ ?a @ ?b @ ?c @ ?d @ ?e) @ drop 40 out"
    using assms by (subst overwrite_at) simp_all
  have 6: "overwrite ((?m @ ?a @ ?b @ ?c @ ?d @ ?e) @ drop 40 out) 40 ?f =
      (?m @ ?a @ ?b @ ?c @ ?d @ ?e @ ?f) @ drop 44 out"
    using assms by (subst overwrite_at) simp_all
  have 7: "overwrite ((?m @ ?a @ ?b @ ?c @ ?d @ ?e @ ?f) @ drop 44 out) 44 ?g =
      ?m @ ?a @ ?b @ ?c @ ?d @ ?e @ ?f @ ?g"
    using assms by (subst overwrite_at) simp_all
  show ?thesis
    using 0 1 2 3 4 5 6 7 by (simp add: encode_snapshot_def put_u32_def put_u64_def Let_def snapshot_bytes_def)
qed

lemma slice_field:
  "length pre = a \<Longrightarrow> length xs = n \<Longrightarrow> slice a (a + n) (pre @ xs @ post) = xs"
  by (simp add: slice_def)

lemma snapshot_fields:
  "u32_at (snapshot_bytes cycles ticks stack s) 8 = CPU_HZ"
  "u32_at (snapshot_bytes cycles ticks stack s) 12 = TIME_TICKS_HZ"
  "u64_at (snapshot_bytes cycles ticks stack s) 16 = reported_busy cycles s"
  "u64_at (snapshot_bytes cycles ticks stack s) 24 = sat_sub ticks (reset_ticks s)"
  "u64_at (snapshot_bytes cycles ticks stack s) 32 = polls s"
  "u32_at (snapshot_bytes cycles ticks stack s) 40 = fst stack"
  "u32_at (snapshot_bytes cycles ticks stack s) 44 = snd stack"
  by (simp_all add: u32_at_def u64_at_def snapshot_bytes_def slice_def from_to_le)

section \<open>Busy time\<close>

text \<open>The events of the executor at true times, in cycles since power-up.  The counter shows their
  low 32 bits.  The reference keeps the busy time itself.\<close>

datatype trace_event = Reset_At nat u64 | Poll_At nat | Idle_At nat

definition counter :: "nat \<Rightarrow> u32" where
  "counter t = of_nat t"

fun trace_step :: "profiler \<Rightarrow> trace_event \<Rightarrow> profiler" where
  "trace_step s (Reset_At t ticks) = profiler_reset (counter t) ticks"
| "trace_step s (Poll_At t) = poll_start (counter t) s"
| "trace_step s (Idle_At t) = executor_idle (counter t) s"

record busy_time =
  busy :: nat
  running :: "nat option"
  poll_count :: nat

definition busy_until :: "busy_time \<Rightarrow> nat \<Rightarrow> nat" where
  "busy_until r t = busy r + (case running r of None \<Rightarrow> 0 | Some start \<Rightarrow> t - start)"

fun busy_step :: "busy_time \<Rightarrow> trace_event \<Rightarrow> busy_time" where
  "busy_step r (Reset_At t ticks) = \<lparr>busy = 0, running = Some t, poll_count = 0\<rparr>"
| "busy_step r (Poll_At t) = \<lparr>busy = busy_until r t, running = Some t, poll_count = poll_count r + 1\<rparr>"
| "busy_step r (Idle_At t) = \<lparr>busy = busy_until r t, running = None, poll_count = poll_count r\<rparr>"

definition busy_boot :: busy_time where
  "busy_boot = \<lparr>busy = 0, running = None, poll_count = 0\<rparr>"

fun event_time :: "trace_event \<Rightarrow> nat" where
  "event_time (Reset_At t ticks) = t"
| "event_time (Poll_At t) = t"
| "event_time (Idle_At t) = t"

text \<open>No busy interval reaches the period of the counter, 10.7 s.\<close>

definition in_period :: "busy_time \<Rightarrow> nat \<Rightarrow> bool" where
  "in_period r t \<longleftrightarrow> (\<forall>start. running r = Some start \<longrightarrow> start \<le> t \<and> t - start < 2 ^ 32)"

fun short_intervals :: "busy_time \<Rightarrow> trace_event list \<Rightarrow> bool" where
  "short_intervals r [] = True"
| "short_intervals r (e # es) \<longleftrightarrow> in_period r (event_time e) \<and> short_intervals (busy_step r e) es"

definition shows_time :: "profiler \<Rightarrow> busy_time \<Rightarrow> bool" where
  "shows_time s r \<longleftrightarrow> busy_cycles s = of_nat (busy r) \<and> active_since s = map_option counter (running r) \<and>
    polls s = of_nat (poll_count r)"

lemma since_counter:
  assumes "start \<le> t" and "t - start < 2 ^ 32"
  shows "since (counter t) (counter start) = of_nat (t - start)"
proof -
  have "counter t - counter start = of_nat (t - start)"
    using assms(1) by (simp add: counter_def of_nat_diff)
  then have "unat (counter t - counter start) = t - start" using assms(2) by (simp add: unat_of_nat)
  then show ?thesis
    using assms(2) by (simp add: since_def word_unat_eq_iff unat_ucast_32_64 unat_of_nat)
qed

lemma reported_busy_time:
  assumes "shows_time s r" and "in_period r t"
  shows "reported_busy (counter t) s = of_nat (busy_until r t)"
  using assms since_counter
  by (cases "running r") (simp_all add: shows_time_def in_period_def reported_busy_def busy_until_def)

lemma trace_step_shows:
  assumes "shows_time s r" and "in_period r (event_time e)"
  shows "shows_time (trace_step s e) (busy_step r e)"
  using assms since_counter
  by (cases e; cases "running r")
     (simp_all add: shows_time_def in_period_def profiler_reset_def poll_start_def executor_idle_def busy_until_def)

lemma trace_shows:
  "shows_time s r \<Longrightarrow> short_intervals r es \<Longrightarrow> shows_time (foldl trace_step s es) (foldl busy_step r es)"
  by (induction es arbitrary: s r) (simp_all add: trace_step_shows)

section \<open>Properties\<close>

text \<open>C29: the profiler is a refinement of a stopwatch with unbounded time: after any events of the
  executor, as long as no busy interval reaches the period of the 32-bit counter, a
  snapshot reports, modulo $2^{64}$, the time the executor was busy since the last reset,
  the poll that is running included, and the number of polls.\<close>
theorem profiler_refines_stopwatch:
  assumes "short_intervals busy_boot es" and "in_period (foldl busy_step busy_boot es) t"
  shows "reported_busy (counter t) (foldl trace_step profiler_boot es) =
      of_nat (busy_until (foldl busy_step busy_boot es) t) \<and>
    polls (foldl trace_step profiler_boot es) = of_nat (poll_count (foldl busy_step busy_boot es))"
proof -
  have "shows_time profiler_boot busy_boot" by (simp add: shows_time_def profiler_boot_def busy_boot_def)
  then have s: "shows_time (foldl trace_step profiler_boot es) (foldl busy_step busy_boot es)"
    using assms(1) by (rule trace_shows)
  then show ?thesis using reported_busy_time [OF s assms(2)] by (simp add: shows_time_def)
qed

text \<open>A trace across the wrap of the counter.\<close>

theorem profiler_refines_stopwatch_witness:
  "reported_busy (counter 4294967400) (foldl trace_step profiler_boot
     [Reset_At 4294967000 5, Poll_At 4294967200, Idle_At 4294967300, Poll_At 4294967350]) = 350"
  using profiler_refines_stopwatch [of "[Reset_At 4294967000 5, Poll_At 4294967200, Idle_At 4294967300, Poll_At 4294967350]" 4294967400]
  by (simp add: in_period_def busy_boot_def busy_until_def)

text \<open>The client reads from the device's answer to a query exactly the counters of the device: its
  busy cycles up to the snapshot, the ticks since the reset, the polls and the stack, which
  with the static memory fills the 128 KiB of the device.\<close>
theorem profile_query_reads_device:
  assumes "snd stack \<le> 131072" and "i < 3" and "\<forall>j < i. answer j = No_Answer"
    and "profiling_serve (profile_request operation) 9 at_reset (cycles, ticks) stack s = (s', Some bs)"
    and "answer i = Answer bs"
  shows "profile_query answer = Inr \<lparr>m_cpu_hz = CPU_HZ, m_time_ticks_hz = TIME_TICKS_HZ,
    m_busy_cycles = reported_busy cycles s', m_elapsed_ticks = sat_sub ticks (reset_ticks s'),
    m_executor_polls = polls s', m_stack_high_water = fst stack, m_stack_capacity = snd stack,
    m_static_ram = 131072 - snd stack\<rparr>"
proof -
  have "bs = snapshot_bytes cycles ticks stack s'"
    using assms(4) by (auto simp: profiling_serve_def Let_def encode_snapshot_layout PROFILING_WIRE_SIZE_def split: if_splits)
  then have "length bs = 48 \<and> take 8 bs = PROFILING_MAGIC" and "metrics_decode bs = Inr \<lparr>m_cpu_hz = CPU_HZ,
    m_time_ticks_hz = TIME_TICKS_HZ, m_busy_cycles = reported_busy cycles s', m_elapsed_ticks = sat_sub ticks (reset_ticks s'),
    m_executor_polls = polls s', m_stack_high_water = fst stack, m_stack_capacity = snd stack,
    m_static_ram = 131072 - snd stack\<rparr>"
    using assms(1) by (simp_all add: metrics_decode_def snapshot_fields Let_def CPU_HZ_def TIME_TICKS_HZ_def not_less)
       (simp_all add: snapshot_bytes_def)
  moreover have "i = 0 \<or> i = 1 \<or> i = 2" using assms(2) by linarith
  moreover have "[0..<3] = [0, 1, 2]" by (simp add: upt_rec)
  ultimately show ?thesis
    using assms(3,5) by (auto simp: profile_query_def)
qed

theorem profile_query_reads_device_witness:
  "map_sum id m_stack_high_water (profile_query (\<lambda>i. if i = 0 then No_Answer else
     Answer (the (snd (profiling_serve (profile_request 0x53) 9 (0, 0) (500, 40) (2048, 100000) profiler_boot))))) = Inr 2048"
proof -
  have "profiling_serve (profile_request 0x53) 9 (0, 0) (500, 40) (2048, 100000) profiler_boot =
      (profiler_boot, Some (encode_snapshot 500 40 (2048, 100000) profiler_boot (replicate PROFILING_WIRE_SIZE 0)))"
    by (simp add: profiling_serve_def profile_request_def overwrite_def PROFILING_MAGIC_def lit_def)
  from profile_query_reads_device [OF _ _ _ this, of 1] show ?thesis
    by (simp add: \<open>profiling_serve _ _ _ _ _ _ = _\<close>)
qed

lemma stack_cursor_painted:
  "c \<le> stack_cursor word limit c \<and>
   (\<forall>k. c + 4 * k < stack_cursor word limit c \<longrightarrow> word (c + 4 * k) = STACK_PAINT) \<and>
   (stack_cursor word limit c < limit \<longrightarrow> word (stack_cursor word limit c) \<noteq> STACK_PAINT)"
proof (induction word limit c rule: stack_cursor.induct)
  case (1 word limit c)
  show ?case
  proof (cases "c < limit \<and> word c = STACK_PAINT")
    case True
    have s: "stack_cursor word limit c = stack_cursor word limit (c + 4)"
      using True by (simp add: stack_cursor.simps [of word limit c])
    have "word (c + 4 * k) = STACK_PAINT" if "c + 4 * k < stack_cursor word limit c" for k
      using that 1 [OF True] True s by (cases k) (auto simp: algebra_simps)
    then show ?thesis using 1 [OF True] s by auto
  next
    case False
    then show ?thesis by (auto simp: stack_cursor.simps [of word limit c])
  qed
qed

text \<open>The stack report is the number of bytes from the first word that lost its paint to the top:
  it lies within the capacity, everything below it is still painted, and it fails only for
  bounds that are not a whole number of words apart.\<close>
theorem stack_report_is_high_water:
  assumes "stack_usage word bottom limit = Some (used, capacity)" and "limit - bottom < 2 ^ 32"
    and "bottom \<le> limit"
  shows "unat capacity = limit - bottom \<and> used \<le> capacity \<and>
    (\<forall>k. bottom + 4 * k < limit - unat used \<longrightarrow> word (bottom + 4 * k) = STACK_PAINT) \<and>
    (used \<noteq> 0 \<longrightarrow> word (limit - unat used) \<noteq> STACK_PAINT)"
proof -
  let ?c = "stack_cursor word limit bottom"
  note painted = stack_cursor_painted [of bottom word limit]
  have c: "?c \<le> limit" "used = of_nat (limit - ?c)" "capacity = of_nat (limit - bottom)"
    using assms(1) by (auto simp: stack_usage_def Let_def split: if_splits)
  have "limit - bottom < 4294967296" using assms(2) by simp
  moreover have "limit - ?c \<le> limit - bottom" using painted by (intro diff_le_mono2) simp
  ultimately have "limit - ?c < 4294967296" "limit - bottom < 4294967296" by linarith+
  then have u: "unat used = limit - ?c" "unat capacity = limit - bottom"
    unfolding c(2,3) unat_of_nat by simp_all
  then show ?thesis
    using painted c(1) by (auto simp: word_le_unat unat_eq_0)
qed

theorem stack_report_is_high_water_witness:
  "\<exists>used capacity. stack_usage (\<lambda>a. if a < 108 then STACK_PAINT else 7) 100 120 = Some (used, capacity) \<and>
    used = 12 \<and> unat capacity = 20"
proof -
  have s: "stack_usage (\<lambda>a. if a < 108 then STACK_PAINT else 7) 100 120 = Some (12, 20)"
    by (simp add: stack_usage_def stack_cursor.simps Let_def STACK_PAINT_def)
  then show ?thesis using stack_report_is_high_water [OF s] s by simp
qed

end
