(* ===== verification/Demo_Responder.thy ===== *)
theory Demo_Responder
  imports Messaging_Server
begin

text \<open>
  \<^verbatim>\<open>tools/message-demo/src/main.rs\<close> and \<^verbatim>\<open>streams.rs\<close>: the host program that plays a device
  with the firmware's message library.  One turn of the command loop of \<^verbatim>\<open>serve\<close>, and one
  turn of a publisher thread; sockets, clock and log are the environment, and the counters
  behind the mutex are passed from turn to turn.  Unlike the firmware, \<^verbatim>\<open>serve\<close> returns with
  an error when a reply cannot be encoded.
\<close>

section \<open>Counters and messages\<close>

record demo_counters =
  d_received :: u32
  d_rejected :: u32
  d_send_errors :: u32
  d_send_failing :: bool
  d_stream_failing :: "bool list"
  d_skipped :: u32

definition demo_counters_new :: demo_counters where
  "demo_counters_new = \<lparr>d_received = 0, d_rejected = 0, d_send_errors = 0, d_send_failing = False,
    d_stream_failing = [False, False], d_skipped = 0\<rparr>"

definition demo_health :: "demo_counters \<Rightarrow> health" where
  "demo_health c =
    \<lparr>health_state = Some (if d_send_failing c \<or> list_ex (\<lambda>v. v) (d_stream_failing c) then 2 else 1),
     received_requests = Some (d_received c), rejected_datagrams = Some (d_rejected c),
     send_errors = Some (d_send_errors c), skipped_publications = Some (d_skipped c)\<rparr>"

datatype demo_sample = Sample_Valid | Sample_Unavailable | Sample_Fault

definition demo_status :: "demo_sample \<Rightarrow> status" where
  "demo_status sample =
    \<lparr>temperature_celsius = (if sample = Sample_Valid then Some f32_25_5 else None),
     validity = Some (case sample of Sample_Valid \<Rightarrow> 1 | Sample_Unavailable \<Rightarrow> 2 | Sample_Fault \<Rightarrow> 3),
     synthetic = Some True\<rparr>"

definition DEMO_VERSION :: bytes where "DEMO_VERSION = lit ''host-demo-0.1.0''"

record demo_identity =
  demo_device :: bytes
  demo_boot :: bytes
  demo_sample_of :: demo_sample

definition demo_template :: "demo_identity \<Rightarrow> envelope" where
  "demo_template i = envelope_default\<lparr>protocol_version := Some 1, device_id := Some (demo_device i),
    boot_id := Some (demo_boot i)\<rparr>"

text \<open>The identity is checked on a publication before the socket is bound.\<close>

definition demo_probe :: "demo_identity \<Rightarrow> envelope" where
  "demo_probe i = (demo_template i)\<lparr>kind := Some 21, sequence := Some 0, uptime_ms := Some 0,
    status_body := Some (demo_status (demo_sample_of i))\<rparr>"

definition demo_accepts :: "wire_format \<Rightarrow> demo_identity \<Rightarrow> bool" where
  "demo_accepts format i \<longleftrightarrow> validate (demo_probe i) format = Inr ()"

text \<open>Nothing is the panic of a missing kind or of the unreachable arm.\<close>

definition demo_response ::
  "wire_format \<Rightarrow> demo_identity \<Rightarrow> demo_counters \<Rightarrow> envelope \<Rightarrow> i32 option \<Rightarrow> u64 \<Rightarrow> envelope option" where
  "demo_response format i c request error now =
    Option.bind (if is_some error then Some 14 else map_option (\<lambda>k. k + 10) (kind request)) (\<lambda>k.
      let m = (demo_template i)\<lparr>kind := Some k, client_session := client_session request,
            request_id := request_id request, uptime_ms := Some (ucast now)\<rparr>
      in if k = 11 then
           Some (m\<lparr>device_info_body := Some \<lparr>firmware_version = Some DEMO_VERSION,
             encoding = Some (format_id format)\<rparr>\<rparr>)
         else if k = 12 then Some (m\<lparr>status_body := Some (demo_status (demo_sample_of i))\<rparr>)
         else if k = 13 then Some (m\<lparr>health_body := Some (demo_health c)\<rparr>)
         else if k = 14 then Some (m\<lparr>error_body := Some \<lparr>error_code = error\<rparr>\<rparr>)
         else None)"

section \<open>The command loop\<close>

record demo_task =
  demo_policy :: command_policy
  demo_shared :: demo_counters

datatype demo_event =
    Demo_Receive_Error
  | Demo_Datagram bytes u64 u64 "nat option"

datatype demo_stop = Socket_Broken | Reply_Not_Encoded codec_error

definition demo_reject :: "demo_counters \<Rightarrow> demo_counters" where
  "demo_reject c = c\<lparr>d_rejected := sat_add (d_rejected c) 1\<rparr>"

definition demo_receive :: "demo_counters \<Rightarrow> demo_counters" where
  "demo_receive c = c\<lparr>d_received := sat_add (d_received c) 1\<rparr>"

definition demo_assessed :: "assessment \<Rightarrow> demo_counters \<Rightarrow> demo_counters" where
  "demo_assessed a c =
    (let c = (if is_some (rejection a) then demo_reject c else c)
     in if decision a = Accept then demo_receive c else c)"

text \<open>The outcome of a send: the number of bytes taken, or an error.\<close>

definition demo_sent :: "bool \<Rightarrow> demo_counters \<Rightarrow> demo_counters" where
  "demo_sent success c =
    (if success then c else c\<lparr>d_send_errors := sat_add (d_send_errors c) 1\<rparr>)\<lparr>d_send_failing := \<not> success\<rparr>"

definition demo_reply ::
  "'w build \<Rightarrow> demo_identity \<Rightarrow> demo_task \<Rightarrow> envelope \<Rightarrow> i32 option \<Rightarrow> u64 \<Rightarrow> nat option \<Rightarrow>
    (demo_stop + demo_task \<times> bytes option) option" where
  "demo_reply b i t request error now sent =
    Option.bind (demo_response (wire b) i (demo_shared t) request error now) (\<lambda>reply.
      case encode_frame b reply of
        Inl e \<Rightarrow> Some (Inl (Reply_Not_Encoded e))
      | Inr datagram \<Rightarrow>
          Some (Inr (t\<lparr>demo_shared := demo_sent (sent = Some (length datagram)) (demo_shared t)\<rparr>, Some datagram)))"

definition demo_datagram ::
  "'w build \<Rightarrow> demo_identity \<Rightarrow> demo_task \<Rightarrow> bytes \<Rightarrow> u64 \<Rightarrow> u64 \<Rightarrow> nat option \<Rightarrow>
    (demo_stop + demo_task \<times> bytes option) option" where
  "demo_datagram b i t datagram now now' sent =
    (case framing_parse (lib b) (checksum b) (wire b) (crc b) datagram of
       Inl e \<Rightarrow> Some (Inr (t\<lparr>demo_shared := demo_reject (demo_shared t)\<rparr>, None))
     | Inr request \<Rightarrow>
         let (p, a) = assess (demo_policy t) request (wire b) (demo_device i) now;
             t = t\<lparr>demo_policy := p, demo_shared := demo_assessed a (demo_shared t)\<rparr>
         in case reply_error (decision a) of
              None \<Rightarrow> Some (Inr (t, None))
            | Some error \<Rightarrow> demo_reply b i t request error now' sent)"

fun demo_step ::
  "'w build \<Rightarrow> demo_identity \<Rightarrow> demo_task \<Rightarrow> demo_event \<Rightarrow> (demo_stop + demo_task \<times> bytes option) option" where
  "demo_step b i t Demo_Receive_Error = Some (Inl Socket_Broken)"
| "demo_step b i t (Demo_Datagram d now now' sent) = demo_datagram b i t d now now' sent"

section \<open>A publisher\<close>

definition demo_publication ::
  "demo_identity \<Rightarrow> demo_counters \<Rightarrow> i32 \<Rightarrow> u32 \<Rightarrow> u64 \<Rightarrow> envelope" where
  "demo_publication i c k sq now =
    (let m = (demo_template i)\<lparr>kind := Some k, sequence := Some sq, uptime_ms := Some (ucast now)\<rparr>
     in if k = 21 then m\<lparr>status_body := Some (demo_status (demo_sample_of i))\<rparr>
        else m\<lparr>health_body := Some (demo_health c)\<rparr>)"

definition demo_stream_error :: "i32 \<Rightarrow> bool \<Rightarrow> demo_counters \<Rightarrow> demo_counters" where
  "demo_stream_error k failing c = c\<lparr>d_stream_failing := (d_stream_failing c)[nat (sint (k - 21)) := failing]\<rparr>"

definition demo_skip :: "u32 \<Rightarrow> demo_counters \<Rightarrow> demo_counters" where
  "demo_skip n c = c\<lparr>d_skipped := sat_add (d_skipped c) n\<rparr>"

text \<open>The three sections in which a publisher holds the counters: for a due slot, after a failed
  encoding, and after a send.\<close>

definition demo_due :: "i32 \<Rightarrow> due \<Rightarrow> demo_counters \<Rightarrow> demo_counters" where
  "demo_due k d c =
    (let c = demo_skip (ucast (min (due_skipped d) 0xFFFFFFFF)) c
     in if due_skipped d \<noteq> 0 then demo_stream_error k True c else c)"

definition demo_unencoded :: "i32 \<Rightarrow> demo_counters \<Rightarrow> demo_counters" where
  "demo_unencoded k c = demo_stream_error k True (demo_skip 1 c)"

definition demo_published :: "i32 \<Rightarrow> due \<Rightarrow> bool \<Rightarrow> demo_counters \<Rightarrow> demo_counters" where
  "demo_published k d success c =
    (let c = demo_stream_error k (\<not> success \<or> due_skipped d \<noteq> 0) c
     in if success then c
        else (demo_skip 1 c)\<lparr>d_send_errors := sat_add (d_send_errors c) 1\<rparr>)"

definition demo_publish ::
  "'w build \<Rightarrow> demo_identity \<Rightarrow> i32 \<Rightarrow> schedule \<times> demo_counters \<Rightarrow> u64 \<Rightarrow> nat option \<Rightarrow>
    (schedule \<times> demo_counters) \<times> bytes option" where
  "demo_publish b i k = (\<lambda>(slots, c) now sent.
    case take_due slots now of
      (slots, None) \<Rightarrow> ((slots, c), None)
    | (slots, Some d) \<Rightarrow>
        (let c = demo_due k d c
         in case encode_frame b (demo_publication i c k (due_sequence d) now) of
              Inl _ \<Rightarrow> ((slots, demo_unencoded k c), None)
            | Inr datagram \<Rightarrow>
                (let success = (sent = Some (length datagram))
                 in ((slots, demo_published k d success c), if success then Some datagram else None))))"

section \<open>The messages belong to the protocol\<close>

definition demo_reading :: "demo_sample \<Rightarrow> reading" where
  "demo_reading sample = (case sample of Sample_Valid \<Rightarrow> Measured f32_25_5 | Sample_Unavailable \<Rightarrow> Unavailable
     | Sample_Fault \<Rightarrow> Sensor_Fault)"

definition demo_report :: "demo_counters \<Rightarrow> report" where
  "demo_report c = Health_Report (d_send_failing c \<or> list_ex (\<lambda>v. v) (d_stream_failing c)) (d_received c)
    (d_rejected c) (d_send_errors c) (d_skipped c)"

fun demo_answer :: "demo_sample \<Rightarrow> demo_counters \<Rightarrow> operation \<Rightarrow> answer" where
  "demo_answer sample c Ask_Info = Info_Answer DEMO_VERSION"
| "demo_answer sample c Ask_Status = Report_Answer (Status_Report (demo_reading sample))"
| "demo_answer sample c Ask_Health = Report_Answer (demo_report c)"

lemma demo_status_reading: "demo_status sample = reading_status (demo_reading sample)"
  by (cases sample) (simp_all add: demo_status_def demo_reading_def)

lemma demo_answer_ok: "answer_ok (demo_answer sample c op)"
  by (cases op; cases sample)
     (simp_all add: DEMO_VERSION_def is_printable_def demo_reading_def temperature_ok_25_5 demo_report_def)

lemma demo_response_accept:
  "demo_response f i c (to_envelope f (Request dev sess rid op)) None now =
    Some (to_envelope f (Response (demo_device i) sess rid (demo_boot i) (ucast now) (demo_answer (demo_sample_of i) c op)))"
  by (cases op)
     (simp_all add: demo_response_def to_envelope.simps demo_template_def envelope_default_def demo_status_reading
       demo_report_def demo_health_def)

lemma demo_response_error:
  assumes "client_session m = Some sess" and "request_id m = Some rid" and "code = 1 \<or> code = 2"
  shows "demo_response f i c m (Some code) now =
    Some (to_envelope f (Response (demo_device i) sess rid (demo_boot i) (ucast now) (Error_Answer (code = 2))))"
  using assms by (auto simp: demo_response_def to_envelope.simps demo_template_def envelope_default_def)

lemma demo_probe_publication:
  "demo_probe i = to_envelope f (Publication (demo_device i) (demo_boot i) 0 0 (Status_Report (demo_reading (demo_sample_of i))))"
  by (simp add: demo_probe_def demo_template_def to_envelope.simps envelope_default_def demo_status_reading)

text \<open>The check of the identity accepts exactly the device names and boot tokens of the protocol.\<close>

lemma boot_report_fields: "boot_id (report_fields r m) = boot_id m"
  by (cases r) simp_all

lemma boot_to_envelope:
  "boot_id (to_envelope f msg) = Some boot \<Longrightarrow> message_ok msg \<Longrightarrow> hex_token boot"
  by (cases msg) (auto simp: to_envelope.simps envelope_default_def Let_def boot_report_fields
      split: operation.splits answer.splits)

lemma demo_accepts_iff: "demo_accepts f i \<longleftrightarrow> device_name (demo_device i) \<and> hex_token (demo_boot i)"
proof
  assume "demo_accepts f i"
  then obtain msg where msg: "message_ok msg" "demo_probe i = to_envelope f msg"
    unfolding demo_accepts_def validate_Inr_iff by blast
  have "boot_id (to_envelope f msg) = Some (demo_boot i)" "device_id (to_envelope f msg) = Some (demo_device i)"
    unfolding msg(2) [symmetric] by (simp_all add: demo_probe_def demo_template_def)
  then show "device_name (demo_device i) \<and> hex_token (demo_boot i)"
    using msg(1) boot_to_envelope by (cases msg) (auto simp: device_id_to_envelope)
next
  assume "device_name (demo_device i) \<and> hex_token (demo_boot i)"
  then have "message_ok (Publication (demo_device i) (demo_boot i) 0 0 (Status_Report (demo_reading (demo_sample_of i))))"
    by (cases "demo_sample_of i") (simp_all add: demo_reading_def temperature_ok_25_5)
  then show "demo_accepts f i"
    unfolding demo_accepts_def demo_probe_publication [of i f] by (rule validate_sound)
qed

text \<open>The reply a decision calls for.\<close>

lemma demo_response_of_decision:
  assumes "assess p m f (demo_device i) now = (p', a)" and "reply_error (decision a) = Some error"
    and "demo_accepts f i"
  shows "\<exists>sess rid ans. demo_response f i c m error now' =
      Some (to_envelope f (Response (demo_device i) sess rid (demo_boot i) (ucast now') ans)) \<and>
    client_session m = Some sess \<and> request_id m = Some rid \<and>
    message_ok (Response (demo_device i) sess rid (demo_boot i) (ucast now') ans) \<and>
    (case error of
       None \<Rightarrow> \<exists>op. m = to_envelope f (Request (demo_device i) sess rid op) \<and> ans = demo_answer (demo_sample_of i) c op
     | Some code \<Rightarrow> ans = Error_Answer (code = 2))"
proof (cases "decision a")
  case Accept
  then obtain sess rid op where ok: "message_ok (Request (demo_device i) sess rid op)"
    and m: "m = to_envelope f (Request (demo_device i) sess rid op)"
    using assess_accept_iff [OF assms(1)] by blast
  have e: "error = None" using assms(2) Accept by (simp add: reply_error_def)
  have "client_session m = Some sess" "request_id m = Some rid"
    unfolding m by (cases op; simp add: to_envelope.simps)+
  then show ?thesis
    using ok m e demo_answer_ok [of "demo_sample_of i" c op] assms(3)
    by (intro exI [of _ sess] exI [of _ rid] exI [of _ "demo_answer (demo_sample_of i) c op"])
       (auto simp: demo_response_accept demo_accepts_iff)
next
  case (Error_Reply code)
  have e: "error = Some code" using assms(2) Error_Reply by (simp add: reply_error_def)
  have code: "code = 1 \<or> code = 2" and "correlation m"
    using assess_error_code [OF assms(1) Error_Reply] by auto
  then obtain sess rid where f: "client_session m = Some sess" "hex_token sess" "request_id m = Some rid" "rid \<noteq> 0"
    unfolding correlation_iff by blast
  show ?thesis
    using f e demo_response_error [OF f(1,3) code] assms(3)
    by (intro exI [of _ sess] exI [of _ rid] exI [of _ "Error_Answer (code = 2)"]) (simp add: demo_accepts_iff)
qed (use assms(2) in \<open>simp_all add: reply_error_def\<close>)

section \<open>Properties\<close>

text \<open>C30: once its identity was checked, the responder never panics, and a datagram makes it stop only
  if a well-formed response cannot be encoded; any reply it sends encodes a well-formed
  response of this device with the session and the request number of the message received.\<close>
theorem demo_responder_survives:
  assumes "demo_accepts (wire b) i"
  shows "\<exists>r. demo_step b i t (Demo_Datagram d now now' sent) = Some r \<and>
    (\<forall>stop. r = Inl stop \<longrightarrow> (\<exists>e msg. stop = Reply_Not_Encoded e \<and> message_ok msg \<and>
       encode_frame b (to_envelope (wire b) msg) = Inl e)) \<and>
    (\<forall>t' reply. r = Inr (t', Some reply) \<longrightarrow>
       (\<exists>m sess rid ans. framing_parse (lib b) (checksum b) (wire b) (crc b) d = Inr m \<and>
          client_session m = Some sess \<and> request_id m = Some rid \<and>
          message_ok (Response (demo_device i) sess rid (demo_boot i) (ucast now') ans) \<and>
          encode_frame b (to_envelope (wire b) (Response (demo_device i) sess rid (demo_boot i) (ucast now') ans)) = Inr reply))"
proof (cases "framing_parse (lib b) (checksum b) (wire b) (crc b) d")
  case (Inl e)
  then show ?thesis by (simp add: demo_datagram_def)
next
  case (Inr m)
  obtain p a where pa: "assess (demo_policy t) m (wire b) (demo_device i) now = (p, a)" by fastforce
  let ?u = "t\<lparr>demo_policy := p, demo_shared := demo_assessed a (demo_shared t)\<rparr>"
  show ?thesis
  proof (cases "reply_error (decision a)")
    case None
    then show ?thesis using Inr pa by (simp add: demo_datagram_def Let_def)
  next
    case (Some error)
    obtain sess rid ans where r: "demo_response (wire b) i (demo_shared ?u) m error now' =
        Some (to_envelope (wire b) (Response (demo_device i) sess rid (demo_boot i) (ucast now') ans))"
      "client_session m = Some sess" "request_id m = Some rid"
      "message_ok (Response (demo_device i) sess rid (demo_boot i) (ucast now') ans)"
      using demo_response_of_decision [OF pa Some assms, of "demo_shared ?u" now'] by blast
    let ?m = "to_envelope (wire b) (Response (demo_device i) sess rid (demo_boot i) (ucast now') ans)"
    have step: "demo_step b i t (Demo_Datagram d now now' sent) = (case encode_frame b ?m of
        Inl e \<Rightarrow> Some (Inl (Reply_Not_Encoded e))
      | Inr datagram \<Rightarrow>
          Some (Inr (?u\<lparr>demo_shared := demo_sent (sent = Some (length datagram)) (demo_shared ?u)\<rparr>, Some datagram)))"
      using Inr pa Some r(1) by (simp add: demo_datagram_def demo_reply_def Let_def)
    show ?thesis
    proof (cases "encode_frame b ?m")
      case (Inl e)
      have "demo_step b i t (Demo_Datagram d now now' sent) = Some (Inl (Reply_Not_Encoded e))"
        unfolding step Inl by simp
      moreover have "\<exists>msg. message_ok msg \<and> encode_frame b (to_envelope (wire b) msg) = Inl e"
        using r(4) Inl by blast
      ultimately show ?thesis by auto
    next
      case (Inr datagram)
      have "\<exists>m sess rid ans. framing_parse (lib b) (checksum b) (wire b) (crc b) d = Inr m \<and>
          client_session m = Some sess \<and> request_id m = Some rid \<and>
          message_ok (Response (demo_device i) sess rid (demo_boot i) (ucast now') ans) \<and>
          encode_frame b (to_envelope (wire b) (Response (demo_device i) sess rid (demo_boot i) (ucast now') ans)) = Inr datagram"
        using \<open>framing_parse _ _ _ _ d = Inr m\<close> r(2-4) Inr by blast
      then show ?thesis unfolding step Inr by auto
    qed
  qed
qed

definition sample_identity :: demo_identity where
  "sample_identity = \<lparr>demo_device = lit ''board-01'', demo_boot = sample_boot, demo_sample_of = Sample_Valid\<rparr>"

lemma sample_identity_accepted: "demo_accepts f sample_identity"
  using device_name_DEVICE_ID sample_boot_token by (simp add: demo_accepts_iff sample_identity_def DEVICE_ID_def)

theorem demo_responder_survives_witness:
  "\<exists>t'. demo_step sample_build sample_identity \<lparr>demo_policy = command_policy_new 0, demo_shared = demo_counters_new\<rparr>
     (Demo_Datagram [8, 1] 5 6 (Some 2)) = Some (Inr (t', Some [8, 1])) \<and> d_received (demo_shared t') = 1"
proof -
  let ?m = "to_envelope Protobuf sample_message" and ?t = "\<lparr>demo_policy = command_policy_new 0, demo_shared = demo_counters_new\<rparr>"
  let ?r = "to_envelope Protobuf (Response (lit ''board-01'') (lit ''123456789abcdef0'') 1 sample_boot (ucast (6 :: u64))
    (demo_answer Sample_Valid (demo_receive demo_counters_new) Ask_Health))"
  have ok: "message_ok (Response (lit ''board-01'') (lit ''123456789abcdef0'') 1 sample_boot (ucast (6 :: u64))
      (demo_answer Sample_Valid (demo_receive demo_counters_new) Ask_Health))"
    using device_name_DEVICE_ID sample_boot_token
    by (simp add: DEVICE_ID_def hex_token_def ascii_defs demo_report_def)
  have parse: "framing_parse (lib sample_build) (checksum sample_build) (wire sample_build) (crc sample_build) [8, 1] = Inr ?m"
    by (simp add: framing_parse_def receive_frame_def open_frame_Off MAX_BODY_def sample_build_def parse_def
        sample_lib_def sample_pb_identity)
  have enc: "encode_frame sample_build ?r = Inr [8, 1]"
    using validate_sound [OF ok, of Protobuf]
    by (simp add: encode_frame_def framing_encode_def send_frame_def sample_build_def encode_def pb_bytes_def sample_lib_def
        MAX_BODY_def DATAGRAM_CAPACITY_def seal_Off overwrite_def)
  have "assess (command_policy_new 0) ?m Protobuf (lit ''board-01'') 5 = (command_policy_new 0, \<lparr>decision = Accept, rejection = None\<rparr>)"
    using validate_sound [OF sample_message_ok, of Protobuf]
    by (simp add: assess_def is_request_kind_iff device_id_to_envelope sample_message_def)
  then have "demo_step sample_build sample_identity ?t (Demo_Datagram [8, 1] 5 6 (Some 2)) =
      Some (Inr (?t\<lparr>demo_shared := demo_receive demo_counters_new\<rparr>, Some [8, 1]))"
    using parse enc demo_response_accept [of Protobuf sample_identity "demo_receive demo_counters_new" "lit ''board-01''"
        "lit ''123456789abcdef0''" 1 Ask_Health 6]
    by (simp add: demo_datagram_def demo_reply_def sample_identity_def sample_message_def demo_assessed_def
        reply_error_def demo_sent_def sample_build_def demo_counters_new_def demo_receive_def Let_def)
  then show ?thesis
    using demo_responder_survives [OF sample_identity_accepted, of sample_build ?t "[8, 1]" 5 6 "Some 2"]
    by (simp add: demo_receive_def demo_counters_new_def sat_add_def)
qed

text \<open>A publisher either publishes a due slot or counts it as skipped, beside the slots it passed
  over; encoding and sending may fail.\<close>
theorem demo_publisher_accounts:
  assumes "schedule_wf sch" and "unat now + unat (period_ms sch) < 2 ^ 64"
    and "demo_publish b i k (sch, c) now sent = ((sch', c'), r)"
  shows "\<exists>n. unat (next_ms sch') = unat (next_ms sch) + n * unat (period_ms sch) \<and>
    (unat (d_skipped c) + n < 2 ^ 32 \<longrightarrow>
      unat (d_skipped c') + (if r = None then 0 else 1) = unat (d_skipped c) + n)"
proof -
  obtain s d where sd: "take_due sch now = (s, d)" by fastforce
  then have pair: "take_due_pair sch now = (s, map_option due_pair d)" by (simp add: take_due_pair_def)
  note cases = sched.poll_cases [OF assms(1,2) pair]
  show ?thesis
  proof (cases d)
    case None
    then show ?thesis
      using cases sd assms(3) by (intro exI [of _ 0]) (auto simp: demo_publish_def)
  next
    case (Some due)
    have n: "unat (next_slot_ms s) = unat (next_slot_ms sch) + Suc (unat (due_skipped due)) * unat (period_ms sch)"
      using cases Some by (auto simp: due_pair_def)
    have u: "unat (ucast (min (due_skipped due) 0xFFFFFFFF) :: u32) = min (unat (due_skipped due)) 4294967295"
      by (simp add: unat_ucast_64_32 min_def word_le_unat)
    have "sch' = s" and "unat (d_skipped c) + Suc (unat (due_skipped due)) < 4294967296 \<longrightarrow>
      unat (d_skipped c') + (if r = None then 0 else 1) = unat (d_skipped c) + Suc (unat (due_skipped due))"
      using assms(3) sd Some u
      by (auto simp: demo_publish_def Let_def demo_due_def demo_unencoded_def demo_published_def demo_stream_error_def
          demo_skip_def unat_sat_add split: sum.splits if_splits)
    then show ?thesis
      using n by (intro exI [of _ "Suc (unat (due_skipped due))"]) (simp add: next_ms_def)
  qed
qed

end
