(* ===== verification/Float64.thy ===== *)
theory Float64
  imports Complex_Main "HOL-Library.Log_Nat" Prelude
begin

text \<open>
  What the host tools use of Rust's \<^verbatim>\<open>f64\<close>: the conversions from integers, the four
  operations, \<^verbatim>\<open>ceil\<close>, \<^verbatim>\<open>round\<close>, comparisons and \<^verbatim>\<open>max\<close>.  A finite number is the rational it stands for,
  and every operation is the exact one rounded to the nearest number with a significand
  of 53 bits, ties to even.  There is one zero: the tools only divide by lengths, rates and
  durations, and never make a negative zero.
\<close>

section \<open>Rounding\<close>

text \<open>The nearest integer, ties to even.\<close>

definition rne :: "rat \<Rightarrow> int" where
  "rne y = (let n = \<lfloor>y\<rfloor>; d = y - of_int n
    in if d < 1 / 2 then n else if 1 / 2 < d then n + 1 else if even n then n else n + 1)"

lemma rne_cases: "rne y = \<lfloor>y\<rfloor> \<and> y - of_int \<lfloor>y\<rfloor> \<le> 1 / 2 \<or> rne y = \<lfloor>y\<rfloor> + 1 \<and> 1 / 2 \<le> y - of_int \<lfloor>y\<rfloor>"
  by (auto simp: rne_def Let_def)

lemma rne_of_int [simp]: "rne (of_int n) = n"
  by (simp add: rne_def)

lemma rne_below: "y \<le> of_int n \<Longrightarrow> rne y \<le> n"
proof (cases "y = of_int n")
  case False
  assume "y \<le> of_int n"
  then have "\<lfloor>y\<rfloor> < n" using False by (simp add: floor_less_iff)
  then show ?thesis using rne_cases [of y] by linarith
qed simp

lemma rne_above: "of_int n \<le> y \<Longrightarrow> n \<le> rne y"
  using rne_cases [of y] by (fastforce simp: le_floor_iff [symmetric])

lemma rne_mono:
  assumes "x \<le> y"
  shows "rne x \<le> rne y"
proof (cases "\<lfloor>x\<rfloor> = \<lfloor>y\<rfloor>")
  case True
  then show ?thesis using assms by (auto simp: rne_def Let_def)
next
  case False
  then have "\<lfloor>x\<rfloor> < \<lfloor>y\<rfloor>" using floor_mono [OF assms] by simp
  then show ?thesis using rne_cases [of x] rne_cases [of y] by linarith
qed

lemma rne_error: "\<bar>of_int (rne y) - y\<bar> \<le> 1 / 2"
  using rne_cases [of y] by linarith

text \<open>The exponent of the greatest power of two that is not above a positive number.\<close>

definition exponent :: "rat \<Rightarrow> int" where
  "exponent x = (let (a, b) = quotient_of x; k = bitlen a - bitlen b in if 2 powi k \<le> x then k else k - 1)"

lemma bitlen_powi:
  assumes "0 < a"
  shows "2 powi (bitlen a - 1) \<le> (of_int a :: rat)" "(of_int a :: rat) < 2 powi (bitlen a)"
proof -
  have b: "2 ^ nat (bitlen a - 1) \<le> a" "a < 2 ^ nat (bitlen a)" "1 \<le> bitlen a"
    using bitlen_bounds [OF assms] assms by (auto simp: bitlen_alt_def)
  have "(of_int (2 ^ nat (bitlen a - 1)) :: rat) \<le> of_int a" "(of_int a :: rat) < of_int (2 ^ nat (bitlen a))"
    using b(1,2) by (simp_all only: of_int_le_iff of_int_less_iff)
  then show "2 powi (bitlen a - 1) \<le> (of_int a :: rat)" "(of_int a :: rat) < 2 powi (bitlen a)"
    using b(3) by (simp_all add: power_int_def)
qed

lemma exponent_bounds:
  assumes "0 < x"
  shows "2 powi (exponent x) \<le> x" "x < 2 powi (exponent x + 1)"
proof -
  obtain a b where q: "quotient_of x = (a, b)" by (cases "quotient_of x")
  then have x: "x = of_int a / of_int b" and b: "0 < b"
    by (simp_all add: quotient_of_div quotient_of_denom_pos)
  then have a: "0 < a" using assms by (simp add: zero_less_divide_iff)
  let ?k = "bitlen a - bitlen b"
  have p: "(0 :: rat) < 2 powi n" for n :: int by simp
  have lower: "2 powi (?k - 1) \<le> x"
  proof -
    have "(2 :: rat) powi (?k - 1) * of_int b \<le> 2 powi (?k - 1) * 2 powi (bitlen b)"
      using bitlen_powi(2) [OF b] by (intro mult_left_mono) simp_all
    also have "\<dots> = 2 powi (bitlen a - 1)" by (simp flip: power_int_add)
    also have "\<dots> \<le> of_int a" by (rule bitlen_powi(1) [OF a])
    finally show ?thesis using b by (simp add: x pos_le_divide_eq)
  qed
  have upper: "x < 2 powi (?k + 1)"
  proof -
    have "(of_int a :: rat) < 2 powi (bitlen a)" by (rule bitlen_powi(2) [OF a])
    also have "\<dots> = 2 powi (?k + 1) * 2 powi (bitlen b - 1)" by (simp flip: power_int_add)
    also have "\<dots> \<le> 2 powi (?k + 1) * of_int b"
      using bitlen_powi(1) [OF b] by (intro mult_left_mono) simp_all
    finally show ?thesis using b by (simp add: x pos_divide_less_eq)
  qed
  show "2 powi (exponent x) \<le> x" "x < 2 powi (exponent x + 1)"
    using lower upper by (auto simp: exponent_def q Let_def)
qed

lemma powi_less: "m < n \<Longrightarrow> (2 :: rat) powi m < 2 powi n"
  by (rule power_int_strict_increasing) simp_all

lemma powi_le: "m \<le> n \<Longrightarrow> (2 :: rat) powi m \<le> 2 powi n"
  by (rule power_int_increasing) simp_all

lemma exponent_less: "0 < x \<Longrightarrow> x < 2 powi n \<Longrightarrow> exponent x < n"
  using exponent_bounds(1) [of x] powi_le [of n "exponent x"] by (meson leD leI order_trans)

lemma exponent_geq: "0 < x \<Longrightarrow> 2 powi n \<le> x \<Longrightarrow> n \<le> exponent x"
  using exponent_bounds(2) [of x] powi_le [of "exponent x + 1" n] by (meson leD leI order_trans zle_add1_eq_le)

lemma exponent_mono: "0 < x \<Longrightarrow> x \<le> y \<Longrightarrow> exponent x \<le> exponent y"
  using exponent_bounds(1) [of x] by (intro exponent_geq) auto

text \<open>The weight of the last bit, and the nearest number.\<close>

definition grain :: "rat \<Rightarrow> int" where
  "grain x = (if x = 0 then - 1074 else max (exponent \<bar>x\<bar> - 52) (- 1074))"

definition rnd :: "rat \<Rightarrow> rat" where
  "rnd x = of_int (rne (x / 2 powi (grain x))) * 2 powi (grain x)"

lemma rnd_0 [simp]: "rnd 0 = 0"
  using rne_of_int [of 0] by (simp add: rnd_def)

lemma grid: "g \<le> k \<Longrightarrow> of_int n * (2 :: rat) powi k = of_int (n * 2 ^ nat (k - g)) * 2 powi g"
  by (simp add: power_int_nonneg_exp [symmetric] power_int_diff)

text \<open>Rounding does not move a number past one of its grid.\<close>

lemma rnd_below:
  assumes "x \<le> of_int n * 2 powi k" and "grain x \<le> k"
  shows "rnd x \<le> of_int n * 2 powi k"
proof -
  have "x / 2 powi (grain x) \<le> of_int (n * 2 ^ nat (k - grain x))"
    using assms(1) unfolding grid [OF assms(2)] by (simp add: pos_divide_le_eq)
  then have "(of_int (rne (x / 2 powi (grain x))) :: rat) \<le> of_int (n * 2 ^ nat (k - grain x))"
    using rne_below of_int_le_iff by blast
  then show ?thesis unfolding grid [OF assms(2)] rnd_def by (rule mult_right_mono) simp
qed

lemma rnd_above:
  assumes "of_int n * 2 powi k \<le> x" and "grain x \<le> k"
  shows "of_int n * 2 powi k \<le> rnd x"
proof -
  have "of_int (n * 2 ^ nat (k - grain x)) \<le> x / 2 powi (grain x)"
    using assms(1) unfolding grid [OF assms(2)] by (simp add: pos_le_divide_eq)
  then have "(of_int (n * 2 ^ nat (k - grain x)) :: rat) \<le> of_int (rne (x / 2 powi (grain x)))"
    using rne_above of_int_le_iff by blast
  then show ?thesis unfolding grid [OF assms(2)] rnd_def by (rule mult_right_mono) simp
qed

lemma grain_le: "0 < x \<Longrightarrow> x \<le> 2 powi k \<Longrightarrow> - 1074 \<le> k - 52 \<Longrightarrow> grain x \<le> k - 52"
  using exponent_less [of x "k + 1"] powi_less [of k "k + 1"] by (auto simp: grain_def)

lemma rnd_nonneg: "0 \<le> x \<Longrightarrow> 0 \<le> rnd x"
  using rnd_above [of 0 "grain x" x] by simp

text \<open>A number of at most 53 bits is not changed.\<close>

lemma rnd_exact:
  assumes "\<bar>n\<bar> < 2 ^ 53" and "- 1074 \<le> k"
  shows "rnd (of_int n * 2 powi k) = of_int n * 2 powi k"
proof (cases "n = 0")
  case False
  let ?x = "of_int n * (2 :: rat) powi k"
  have "\<bar>?x\<bar> = of_int \<bar>n\<bar> * 2 powi k" by (simp add: abs_mult)
  also have "\<dots> < of_int (2 ^ 53) * 2 powi k"
    using assms(1) by (intro mult_strict_right_mono) (simp_all only: of_int_less_iff, simp)
  also have "\<dots> = 2 powi (k + 53)" by (simp add: power_int_add)
  finally have "grain ?x \<le> k"
    using False assms(2) exponent_less [of "\<bar>?x\<bar>" "k + 53"] by (auto simp: grain_def)
  then show ?thesis by (intro antisym rnd_below rnd_above) simp_all
qed simp

lemma rnd_integer: "n < 2 ^ 53 \<Longrightarrow> rnd (of_nat n) = of_nat n"
  using rnd_exact [of "int n" 0] by simp

lemma rnd_mono:
  assumes "0 \<le> x" and "x \<le> y"
  shows "rnd x \<le> rnd y"
proof (cases "x = 0 \<or> grain x = grain y")
  case True
  show ?thesis
  proof (cases "x = 0")
    case False
    then have "rnd x = of_int (rne (x / 2 powi (grain y))) * 2 powi (grain y)"
      using True by (simp add: rnd_def)
    moreover have "rne (x / 2 powi (grain y)) \<le> rne (y / 2 powi (grain y))"
      using assms by (intro rne_mono divide_right_mono) simp_all
    ultimately show ?thesis by (simp add: rnd_def mult_right_mono)
  qed (use assms rnd_nonneg in auto)
next
  case False
  then have x: "0 < x" "x \<noteq> 0" and y: "0 < y" "y \<noteq> 0" using assms by auto
  then have e: "exponent x \<le> exponent y" using exponent_mono assms by simp
  then have g: "grain x < grain y" "grain y = exponent y - 52" "exponent x < exponent y"
    using False x y by (auto simp: grain_def split: if_splits)
  have "x \<le> of_int 1 * 2 powi (exponent y)"
    using exponent_bounds(2) [OF x(1)] powi_le [of "exponent x + 1" "exponent y"] g(3) by simp
  then have "rnd x \<le> of_int 1 * 2 powi (exponent y)" by (rule rnd_below) (use g in simp)
  also have "\<dots> \<le> rnd y"
    by (rule rnd_above) (use exponent_bounds(1) [OF y(1)] g in simp_all)
  finally show ?thesis .
qed

text \<open>The relative error of a number that is not subnormal.\<close>

lemma rnd_error:
  assumes "2 powi (- 1022) \<le> x"
  shows "\<bar>rnd x - x\<bar> \<le> x * 2 powi (- 53)"
proof -
  have x: "0 < x" using assms by (meson less_le_trans zero_less_numeral zero_less_power_int)
  have g: "grain x = exponent x - 52"
    using exponent_geq [OF x assms] x by (simp add: grain_def)
  let ?g = "(2 :: rat) powi (grain x)"
  have "rnd x - x = (of_int (rne (x / ?g)) - x / ?g) * ?g"
    by (simp add: rnd_def left_diff_distrib)
  then have "\<bar>rnd x - x\<bar> = \<bar>of_int (rne (x / ?g)) - x / ?g\<bar> * ?g" by (simp add: abs_mult)
  also have "\<dots> \<le> 1 / 2 * ?g" using rne_error by (intro mult_right_mono) simp_all
  also have "\<dots> = 2 powi (exponent x) * 2 powi (- 53)" 
    by (simp add: g power_int_diff power_int_minus)
  also have "\<dots> \<le> x * 2 powi (- 53)" using exponent_bounds(1) [OF x] by (intro mult_right_mono) simp_all
  finally show ?thesis .
qed

section \<open>Numbers\<close>

datatype f64 = F64_NaN | F64_Inf bool | F64 rat

definition to_f64 :: "rat \<Rightarrow> f64" where
  "to_f64 x = (let r = rnd x in if 2 ^ 1024 \<le> \<bar>r\<bar> then F64_Inf (r < 0) else F64 r)"

text \<open>The conversion of an unsigned integer.\<close>

definition f64_of :: "nat \<Rightarrow> f64" where
  "f64_of n = to_f64 (of_nat n)"

fun f_add :: "f64 \<Rightarrow> f64 \<Rightarrow> f64" where
  "f_add (F64 x) (F64 y) = to_f64 (x + y)"
| "f_add (F64_Inf a) (F64_Inf b) = (if a = b then F64_Inf a else F64_NaN)"
| "f_add (F64_Inf a) (F64 y) = F64_Inf a"
| "f_add (F64 x) (F64_Inf b) = F64_Inf b"
| "f_add F64_NaN y = F64_NaN"
| "f_add x F64_NaN = F64_NaN"

fun f_neg :: "f64 \<Rightarrow> f64" where
  "f_neg (F64 x) = F64 (- x)"
| "f_neg (F64_Inf a) = F64_Inf (\<not> a)"
| "f_neg F64_NaN = F64_NaN"

definition f_sub :: "f64 \<Rightarrow> f64 \<Rightarrow> f64" where
  "f_sub x y = f_add x (f_neg y)"

fun f_mul :: "f64 \<Rightarrow> f64 \<Rightarrow> f64" where
  "f_mul (F64 x) (F64 y) = to_f64 (x * y)"
| "f_mul (F64_Inf a) (F64_Inf b) = F64_Inf (a \<noteq> b)"
| "f_mul (F64_Inf a) (F64 y) = (if y = 0 then F64_NaN else F64_Inf (a \<noteq> (y < 0)))"
| "f_mul (F64 x) (F64_Inf b) = (if x = 0 then F64_NaN else F64_Inf (b \<noteq> (x < 0)))"
| "f_mul F64_NaN y = F64_NaN"
| "f_mul x F64_NaN = F64_NaN"

fun f_div :: "f64 \<Rightarrow> f64 \<Rightarrow> f64" where
  "f_div (F64 x) (F64 y) =
    (if y \<noteq> 0 then to_f64 (x / y) else if x = 0 then F64_NaN else F64_Inf (x < 0))"
| "f_div (F64_Inf a) (F64_Inf b) = F64_NaN"
| "f_div (F64_Inf a) (F64 y) = F64_Inf (a \<noteq> (y < 0))"
| "f_div (F64 x) (F64_Inf b) = F64 0"
| "f_div F64_NaN y = F64_NaN"
| "f_div x F64_NaN = F64_NaN"

fun f_less :: "f64 \<Rightarrow> f64 \<Rightarrow> bool" where
  "f_less (F64 x) (F64 y) = (x < y)"
| "f_less (F64_Inf a) (F64_Inf b) = (a \<and> \<not> b)"
| "f_less (F64_Inf a) (F64 y) = a"
| "f_less (F64 x) (F64_Inf b) = (\<not> b)"
| "f_less F64_NaN y = False"
| "f_less x F64_NaN = False"

fun f_le :: "f64 \<Rightarrow> f64 \<Rightarrow> bool" where
  "f_le (F64 x) (F64 y) = (x \<le> y)"
| "f_le (F64_Inf a) (F64_Inf b) = (a \<or> \<not> b)"
| "f_le (F64_Inf a) (F64 y) = a"
| "f_le (F64 x) (F64_Inf b) = (\<not> b)"
| "f_le F64_NaN y = False"
| "f_le x F64_NaN = False"

text \<open>\<^verbatim>\<open>f64::max\<close> and \<^verbatim>\<open>f64::min\<close> pass over a NaN.\<close>

definition f_max :: "f64 \<Rightarrow> f64 \<Rightarrow> f64" where
  "f_max x y = (if x = F64_NaN then y else if y = F64_NaN then x else if f_less x y then y else x)"

definition f_min :: "f64 \<Rightarrow> f64 \<Rightarrow> f64" where
  "f_min x y = (if x = F64_NaN then y else if y = F64_NaN then x else if f_less y x then y else x)"

fun f_ceil :: "f64 \<Rightarrow> f64" where
  "f_ceil (F64 x) = F64 (of_int \<lceil>x\<rceil>)"
| "f_ceil (F64_Inf a) = F64_Inf a"
| "f_ceil F64_NaN = F64_NaN"

text \<open>\<^verbatim>\<open>f64::round\<close>: halves away from zero.\<close>

fun f_round :: "f64 \<Rightarrow> f64" where
  "f_round (F64 x) = F64 (of_int (if x < 0 then - \<lfloor>- x + 1 / 2\<rfloor> else \<lfloor>x + 1 / 2\<rfloor>))"
| "f_round (F64_Inf a) = F64_Inf a"
| "f_round F64_NaN = F64_NaN"

text \<open>\<^verbatim>\<open>as usize\<close> truncates and saturates; a NaN becomes zero.\<close>

fun f_to_usize :: "f64 \<Rightarrow> nat" where
  "f_to_usize (F64 x) = min (nat \<lfloor>x\<rfloor>) 18446744073709551615"
| "f_to_usize (F64_Inf a) = (if a then 0 else 18446744073709551615)"
| "f_to_usize F64_NaN = 0"

fun f_finite :: "f64 \<Rightarrow> bool" where
  "f_finite (F64 x) = True"
| "f_finite (F64_Inf a) = False"
| "f_finite F64_NaN = False"

definition f_zero :: f64 where "f_zero = F64 0"

text \<open>\<^verbatim>\<open>sqrt\<close>: the integer root at a scale of more than 54 bits, whose last bit says whether it
  is exact, is rounded as the root itself.\<close>

fun isqrt :: "nat \<Rightarrow> nat" where
  "isqrt n = (if n = 0 then 0 else (let r = 2 * isqrt (n div 4) in if (r + 1)\<^sup>2 \<le> n then r + 1 else r))"

declare isqrt.simps [simp del]

fun f_sqrt :: "f64 \<Rightarrow> f64" where
  "f_sqrt (F64 x) =
    (if x < 0 then F64_NaN
     else if x = 0 then F64 0
     else (let e = exponent x div 2 - 60; y = x / 2 powi (2 * e); m = isqrt (nat \<lfloor>y\<rfloor>)
       in to_f64 (of_nat (2 * m + (if of_nat (m\<^sup>2) = y then 0 else 1)) * 2 powi (e - 1))))"
| "f_sqrt (F64_Inf a) = (if a then F64_NaN else F64_Inf False)"
| "f_sqrt F64_NaN = F64_NaN"

lemma isqrt_root: "(isqrt n)\<^sup>2 \<le> n \<and> n < (isqrt n + 1)\<^sup>2"
proof (induction n rule: isqrt.induct)
  case (1 n)
  show ?case
  proof (cases "n = 0")
    case False
    let ?q = "isqrt (n div 4)"
    have q: "?q\<^sup>2 \<le> n div 4" "n div 4 < (?q + 1)\<^sup>2" using 1 False by simp_all
    have "(2 * ?q)\<^sup>2 \<le> n" using q(1) by (simp add: power_mult_distrib)
    moreover have "n < (2 * ?q + 2)\<^sup>2"
    proof -
      have "n div 4 + 1 \<le> (?q + 1)\<^sup>2" using q(2) by simp
      then have "n < 4 * (?q + 1)\<^sup>2" by linarith
      also have "\<dots> = (2 * ?q + 2)\<^sup>2" by (simp add: power2_eq_square)
      finally show ?thesis .
    qed
    ultimately show ?thesis
      using False by (subst (1 2) isqrt.simps) (simp add: Let_def)
  qed (simp add: isqrt.simps)
qed

lemma to_f64_finite: "\<bar>rnd x\<bar> < 2 ^ 1024 \<Longrightarrow> to_f64 x = F64 (rnd x)"
  by (simp add: to_f64_def Let_def)

lemma to_f64_value: "to_f64 x = F64 y \<Longrightarrow> y = rnd x"
  by (simp add: to_f64_def Let_def split: if_splits)

lemma f64_of_small:
  assumes "n < 2 ^ 53"
  shows "f64_of n = F64 (of_nat n)"
proof -
  have "(of_nat n :: rat) < of_nat (2 ^ 53)" using assms by (simp only: of_nat_less_iff)
  then show ?thesis using rnd_integer [OF assms] by (simp add: f64_of_def to_f64_def)
qed

lemma to_f64_integer: "n < 2 ^ 53 \<Longrightarrow> to_f64 (of_nat n) = F64 (of_nat n)"
  using f64_of_small [of n] by (simp add: f64_of_def)

lemma to_f64_0 [simp]: "to_f64 0 = F64 0"
  using to_f64_integer [of 0] by simp

lemma f_le_refl: "x \<noteq> F64_NaN \<Longrightarrow> f_le x x"
  by (cases x) simp_all

lemma f_le_trans: "f_le x y \<Longrightarrow> f_le y z \<Longrightarrow> f_le x z"
  by (cases x; cases y; cases z; auto)

lemma f_less_le: "f_less x y \<Longrightarrow> f_le x y"
  by (cases x; cases y; auto)

lemma f_not_less: "x \<noteq> F64_NaN \<Longrightarrow> y \<noteq> F64_NaN \<Longrightarrow> \<not> f_less x y \<longleftrightarrow> f_le y x"
  by (cases x; cases y; auto)

lemma f_max_bounds:
  assumes "x \<noteq> F64_NaN" and "y \<noteq> F64_NaN"
  shows "f_le x (f_max x y)" "f_le y (f_max x y)" "f_max x y \<noteq> F64_NaN" "f_max x y = x \<or> f_max x y = y"
  using assms by (auto simp: f_max_def f_less_le f_not_less f_le_refl)

lemma f_min_bounds:
  assumes "x \<noteq> F64_NaN" and "y \<noteq> F64_NaN"
  shows "f_le (f_min x y) x" "f_le (f_min x y) y" "f_min x y \<noteq> F64_NaN" "f_min x y = x \<or> f_min x y = y"
  using assms by (auto simp: f_min_def f_less_le f_not_less f_le_refl)

text \<open>The least of a list, or what it is compared with at first.\<close>

lemma foldl_f_min:
  assumes "x \<noteq> F64_NaN" and "\<forall>y \<in> set ys. y \<noteq> F64_NaN"
  shows "foldl f_min x ys \<in> insert x (set ys) \<and> (\<forall>y \<in> insert x (set ys). f_le (foldl f_min x ys) y)"
  using assms
proof (induction ys arbitrary: x)
  case Nil
  then show ?case by (simp add: f_le_refl)
next
  case (Cons y ys)
  note m = f_min_bounds [of x y]
  have "foldl f_min (f_min x y) ys \<in> insert (f_min x y) (set ys) \<and>
      (\<forall>z \<in> insert (f_min x y) (set ys). f_le (foldl f_min (f_min x y) ys) z)"
    using Cons m(3) by simp
  moreover have "f_le (foldl f_min (f_min x y) ys) x" "f_le (foldl f_min (f_min x y) ys) y"
    using calculation m(1,2) Cons(2,3) f_le_trans by (metis insertI1 list.set_intros(1))+
  ultimately show ?case using m(4) Cons(2,3) by auto
qed

end
