(* ===== verification/Demo_Options.thy ===== *)
theory Demo_Options
  imports Demo_Responder Float64 Text_Parsing
begin

text \<open>
  What \<^verbatim>\<open>tools/message-demo\<close> makes of its command line (\<^verbatim>\<open>main\<close>, \<^verbatim>\<open>serve\<close> and
  \<^verbatim>\<open>Publisher::configure\<close>), and its codec for test fixtures.  How a floating-point option is
  read, and whether a socket can be set up, are arguments.
\<close>

datatype options_error =
    Unknown_Flag | Missing_Value | Duplicate_Flag
  | Format_Missing | Format_Invalid | Crc_Invalid | Sample_Invalid | Device_Too_Long | Identity_Invalid codec_error
  | No_Interface | Interface_Invalid | Interface_Not_Concrete | Group_Invalid | Group_Not_Multicast
  | Port_Invalid | Ports_Clash | Rate_Invalid | Rate_Out_Of_Range | Stream_Socket

section \<open>The command line\<close>

type_synonym flags = "bytes \<rightharpoonup> bytes"

definition demo_flags :: "bytes list" where
  "demo_flags = map lit [''format'', ''crc'', ''bind'', ''device'', ''sample'', ''log'', ''multicast-interface'', ''group'',
    ''status-port'', ''health-port'', ''status-hz'', ''health-hz'']"

definition flag_key :: "bytes \<Rightarrow> bytes option" where
  "flag_key flag = (if take 2 flag = lit ''--'' \<and> List.member demo_flags (drop 2 flag) then Some (drop 2 flag) else None)"

fun parse_flags :: "bytes list \<Rightarrow> flags \<Rightarrow> options_error + flags" where
  "parse_flags [] opts = Inr opts"
| "parse_flags [flag] opts = (case flag_key flag of None \<Rightarrow> Inl Unknown_Flag | Some key \<Rightarrow> Inl Missing_Value)"
| "parse_flags (flag # v # args) opts =
    (case flag_key flag of
       None \<Rightarrow> Inl Unknown_Flag
     | Some key \<Rightarrow> if opts key \<noteq> None then Inl Duplicate_Flag else parse_flags args (opts(key \<mapsto> v)))"

definition flag_or :: "flags \<Rightarrow> string \<Rightarrow> string \<Rightarrow> bytes" where
  "flag_or opts key preset = (case opts (lit key) of None \<Rightarrow> lit preset | Some v \<Rightarrow> v)"

section \<open>The responder\<close>

record serve_config =
  sc_format :: wire_format
  sc_crc :: crc_mode
  sc_bind :: bytes
  sc_identity :: demo_identity

definition sample_parse :: "bytes \<Rightarrow> demo_sample option" where
  "sample_parse name =
    (if name = lit ''valid'' then Some Sample_Valid
     else if name = lit ''unavailable'' then Some Sample_Unavailable
     else if name = lit ''fault'' then Some Sample_Fault
     else None)"

text \<open>The boot token is the nonce that was drawn.\<close>

definition serve_config_of :: "flags \<Rightarrow> bytes \<Rightarrow> options_error + serve_config" where
  "serve_config_of opts boot =
    r_bind (ok_or (opts (lit ''format'')) Format_Missing) (\<lambda>name.
    r_bind (ok_or (format_parse name) Format_Invalid) (\<lambda>format.
    r_bind (ok_or (crc_mode_parse (flag_or opts ''crc'' ''off'')) Crc_Invalid) (\<lambda>crc.
    r_bind (ok_or (sample_parse (flag_or opts ''sample'' ''valid'')) Sample_Invalid) (\<lambda>sample.
      let device = flag_or opts ''device'' ''board-01'';
          i = \<lparr>demo_device = device, demo_boot = boot, demo_sample_of = sample\<rparr>
      in if 32 < length device then Inl Device_Too_Long
         else r_bind (map_sum Identity_Invalid id (validate (demo_probe i) format)) (\<lambda>_.
           Inr \<lparr>sc_format = format, sc_crc = crc, sc_bind = flag_or opts ''bind'' ''127.0.0.1:42000'', sc_identity = i\<rparr>)))))"

section \<open>The publishers\<close>

type_synonym address = "u8 \<times> u8 \<times> u8 \<times> u8"

text \<open>\<^verbatim>\<open>Ipv4Addr::from_str\<close> takes four numbers without leading zeros.\<close>

definition octet_from_str :: "bytes \<Rightarrow> u8 option" where
  "octet_from_str s =
    (if list_all is_digit s \<and> s \<noteq> [] \<and> length s \<le> 3 \<and> (length s = 1 \<or> hd s \<noteq> 48) \<and> digits_value s < 256
     then Some (of_nat (digits_value s)) else None)"

definition ipv4_from_str :: "bytes \<Rightarrow> address option" where
  "ipv4_from_str s =
    (case map octet_from_str (split_at 46 s) of
       [Some a, Some b, Some c, Some d] \<Rightarrow> Some (a, b, c, d)
     | _ \<Rightarrow> None)"

definition is_multicast :: "address \<Rightarrow> bool" where
  "is_multicast ip \<longleftrightarrow> 224 \<le> fst ip \<and> fst ip \<le> 239"

definition is_concrete :: "address \<Rightarrow> bool" where
  "is_concrete ip \<longleftrightarrow> ip \<noteq> (0, 0, 0, 0) \<and> \<not> is_multicast ip \<and> ip \<noteq> (255, 255, 255, 255)"

definition port_from_str :: "bytes \<Rightarrow> u16 option" where
  "port_from_str s = map_option of_nat (unsigned_from_str 65536 s)"

definition stream_period :: "f64 \<Rightarrow> u64" where
  "stream_period hz = of_nat (f_to_usize (f_round (f_div (f64_of 1000) hz)))"

record publisher =
  pub_group :: address
  pub_port :: u16
  pub_interface :: address
  pub_kind :: i32
  pub_period :: u64

definition make_publisher ::
  "(bytes \<Rightarrow> f64 option) \<Rightarrow> (i32 \<Rightarrow> bool) \<Rightarrow> address \<Rightarrow> address \<Rightarrow> i32 \<Rightarrow> u16 \<Rightarrow> bytes \<Rightarrow> options_error + publisher" where
  "make_publisher f64_from_str sockets interface grp k p rate =
    r_bind (ok_or (f64_from_str rate) Rate_Invalid) (\<lambda>hz.
      if \<not> f_finite hz \<or> \<not> (f_le (to_f64 (1 / 10)) hz \<and> f_le hz (F64 1000)) then Inl Rate_Out_Of_Range
      else if \<not> sockets k then Inl Stream_Socket
      else Inr \<lparr>pub_group = grp, pub_port = p, pub_interface = interface, pub_kind = k, pub_period = stream_period hz\<rparr>)"

definition stream_flags :: "bytes list" where
  "stream_flags = map lit [''group'', ''status-port'', ''health-port'', ''status-hz'', ''health-hz'']"

definition configure_streams ::
  "(bytes \<Rightarrow> f64 option) \<Rightarrow> (i32 \<Rightarrow> bool) \<Rightarrow> flags \<Rightarrow> u16 \<Rightarrow> options_error + publisher list" where
  "configure_streams f64_from_str sockets opts command_port =
    (case opts (lit ''multicast-interface'') of
       None \<Rightarrow> if list_ex (\<lambda>key. opts key \<noteq> None) stream_flags then Inl No_Interface else Inr []
     | Some text \<Rightarrow>
         r_bind (ok_or (ipv4_from_str text) Interface_Invalid) (\<lambda>interface.
         if \<not> is_concrete interface then Inl Interface_Not_Concrete
         else r_bind (ok_or (ipv4_from_str (flag_or opts ''group'' ''239.255.42.1'')) Group_Invalid) (\<lambda>grp.
         if \<not> is_multicast grp then Inl Group_Not_Multicast
         else r_bind (ok_or (port_from_str (flag_or opts ''status-port'' ''42001'')) Port_Invalid) (\<lambda>sp.
         r_bind (ok_or (port_from_str (flag_or opts ''health-port'' ''42002'')) Port_Invalid) (\<lambda>hp.
         if sp = 0 \<or> hp = 0 \<or> sp = hp \<or> sp = command_port \<or> hp = command_port then Inl Ports_Clash
         else r_bind (make_publisher f64_from_str sockets interface grp 21 sp (flag_or opts ''status-hz'' ''10'')) (\<lambda>a.
              r_bind (make_publisher f64_from_str sockets interface grp 22 hp (flag_or opts ''health-hz'' ''1'')) (\<lambda>b.
                Inr [a, b])))))))"

section \<open>Fixtures\<close>

text \<open>The members of a fixture as they are read: as a text where they are one, and whether the mode of
  the checksum is there at all.\<close>

record fixture =
  fx_format :: "bytes option"
  fx_crc :: "bytes option option"
  fx_operation :: "bytes option"
  fx_hex :: "bytes option"
  fx_message :: "envelope option"

datatype fixture_result = Decoded envelope | Encoded bytes

definition hex_text :: "bytes \<Rightarrow> bytes" where
  "hex_text bs = concat (map (\<lambda>b. [hex_lower (unat b div 16), hex_lower (unat b mod 16)]) bs)"

fun byte_pairs :: "bytes \<Rightarrow> bytes list" where
  "byte_pairs (b # c # bs) = [b, c] # byte_pairs bs"
| "byte_pairs bs = []"

definition hex_decode :: "bytes \<Rightarrow> bytes option" where
  "hex_decode text =
    (if \<not> list_all (\<lambda>b. b < 128) text \<or> odd (length text) then None
     else collect (map u8_from_hex (byte_pairs text)))"

definition codec_operation ::
  "'w message_lib \<Rightarrow> (bytes \<Rightarrow> u32) \<Rightarrow> fixture \<Rightarrow> bytes + fixture_result" where
  "codec_operation cl ck x =
    r_bind (ok_or (Option.bind (fx_format x) format_parse) (lit ''decode_error'')) (\<lambda>format.
    r_bind (case fx_crc x of
              None \<Rightarrow> Inr Off
            | Some v \<Rightarrow> ok_or (Option.bind v crc_mode_parse) (lit ''validation_error'')) (\<lambda>crc.
      if fx_operation x = Some (lit ''decode'') then
        r_bind (ok_or (Option.bind (fx_hex x) hex_decode) (lit ''decode_error'')) (\<lambda>bs.
        r_bind (map_sum codec_error_outcome id (framing_decode cl ck format crc bs)) (\<lambda>m. Inr (Decoded m)))
      else if fx_operation x = Some (lit ''encode'') then
        r_bind (ok_or (fx_message x) (lit ''decode_error'')) (\<lambda>m.
        r_bind (map_sum codec_error_outcome id (framing_encode cl ck format crc m (replicate MAX_DATAGRAM 0)))
          (\<lambda>(out, n). Inr (Encoded (hex_text (take n out)))))
      else Inl (lit ''decode_error'')))"

section \<open>Properties\<close>

lemma tenth_is_near: "4000 / 40001 \<le> rnd (1 / 10)"
proof -
  have "(2 :: rat) powi (- 1022) \<le> 2 powi (- 4)" by (rule powi_le) simp
  then have "(2 :: rat) powi (- 1022) \<le> 1 / 10" by (simp add: power_int_minus_divide)
  from rnd_error [OF this] have "1 / 10 - 1 / 10 * 2 powi (- 53) \<le> rnd (1 / 10)" by linarith
  moreover have "4000 / 40001 \<le> (1 / 10 - 1 / 10 * 2 powi (- 53) :: rat)" by (simp add: power_int_minus_divide)
  ultimately show ?thesis by (rule order_trans [rotated])
qed

lemma stream_period_bounds:
  assumes "f_finite hz" and "f_le (to_f64 (1 / 10)) hz" and "f_le hz (F64 1000)"
  shows "1 \<le> unat (stream_period hz)" "unat (stream_period hz) \<le> 10000"
proof -
  obtain h where h: "hz = F64 h" using assms(1) by (cases hz) simp_all
  have one: "rnd 1 = 1" using rnd_integer [of 1] by simp
  have tenth: "0 \<le> rnd (1 / 10)" "rnd (1 / 10) \<le> 1" using rnd_nonneg rnd_mono [of "1 / 10" 1] one by simp_all
  have "(1 :: rat) < 2 ^ 1024" by simp
  then have "to_f64 (1 / 10) = F64 (rnd (1 / 10))" using tenth by (intro to_f64_finite) linarith
  then have b: "4000 / 40001 \<le> h" "h \<le> 1000" using assms(2,3) h tenth_is_near by simp_all
  then have pos: "0 < h" by linarith
  let ?x = "1000 / h"
  have x: "1 \<le> ?x" "?x \<le> 40001 / 4" using b pos by (simp_all add: pos_le_divide_eq pos_divide_le_eq)
  have r: "1 \<le> rnd ?x" "rnd ?x \<le> 40001 / 4"
    using rnd_mono [of 1 ?x] rnd_mono [of ?x "40001 / 4"] rnd_exact [of 40001 "- 2"] x one pos
    by (simp_all add: power_int_minus_divide)
  have "(40001 / 4 :: rat) < 2 ^ 1024" by simp
  then have "to_f64 ?x = F64 (rnd ?x)" using r by (intro to_f64_finite) linarith
  then have p: "f_round (f_div (f64_of 1000) hz) = F64 (of_int \<lfloor>rnd ?x + 1 / 2\<rfloor>)"
    using h pos r by (simp add: f64_of_small)
  obtain n where n: "n = \<lfloor>rnd ?x + 1 / 2\<rfloor>" by blast
  have "1 \<le> n" "n < 10001" using r unfolding n by (simp_all add: le_floor_iff floor_less_iff)
  moreover from this have "stream_period hz = of_nat (nat n)" by (simp add: stream_period_def p flip: n)
  then have "unat (stream_period hz) = nat n" using \<open>n < 10001\<close> by (simp only: unat_of_nat) simp
  ultimately show "1 \<le> unat (stream_period hz)" "unat (stream_period hz) \<le> 10000" by simp_all
qed

text \<open>An accepted command line makes no publisher, or one for each stream: at ports that differ from
  each other and from the command port, to a multicast group from a concrete interface, and
  with a period for which the publisher's schedule exists, so that its thread does not panic.\<close>
theorem configured_publishers_start:
  assumes "configure_streams f64_from_str sockets opts command_port = Inr ps"
  shows "ps = [] \<or>
    (map pub_kind ps = [21, 22] \<and> distinct (command_port # map pub_port ps) \<and> 0 \<notin> set (map pub_port ps) \<and>
     (\<forall>p \<in> set ps. is_multicast (pub_group p) \<and> is_concrete (pub_interface p) \<and>
        unat (pub_period p) \<le> 10000 \<and> schedule_new (pub_period p) 0 \<noteq> None))"
proof -
  have made: "pub_kind p = k \<and> pub_port p = port \<and> pub_group p = grp \<and> pub_interface p = interface \<and>
      unat (pub_period p) \<le> 10000 \<and> schedule_new (pub_period p) 0 \<noteq> None"
    if "make_publisher f64_from_str sockets interface grp k port rate = Inr p" for interface grp k port rate p
    using that stream_period_bounds by (fastforce simp: make_publisher_def r_bind_Inr_iff schedule_new_def split: if_splits)
  show ?thesis
  proof (cases "opts (lit ''multicast-interface'')")
    case None
    then show ?thesis using assms by (simp add: configure_streams_def split: if_splits)
  next
    case (Some line)
    then obtain interface grp sp hp a b where c: "is_concrete interface" "is_multicast grp"
        "sp \<noteq> 0" "hp \<noteq> 0" "sp \<noteq> hp" "sp \<noteq> command_port" "hp \<noteq> command_port" "ps = [a, b]"
      and m: "make_publisher f64_from_str sockets interface grp 21 sp (flag_or opts ''status-hz'' ''10'') = Inr a"
        "make_publisher f64_from_str sockets interface grp 22 hp (flag_or opts ''health-hz'' ''1'') = Inr b"
      using assms by (auto simp: configure_streams_def r_bind_Inr_iff split: if_splits)
    show ?thesis using made [OF m(1)] made [OF m(2)] c by auto
  qed
qed

text \<open>The identity with which the responder starts is one it accepts, as its survival needs.\<close>
theorem served_identity_is_accepted:
  assumes "serve_config_of opts boot = Inr c"
  shows "demo_accepts (sc_format c) (sc_identity c) \<and> demo_boot (sc_identity c) = boot"
  using assms by (auto simp: serve_config_of_def r_bind_Inr_iff demo_accepts_def Let_def map_sum_Inr_iff split: if_splits)

lemma hex_lower_digit: "d < 16 \<Longrightarrow> hex_digit (hex_lower d) = Some d \<and> hex_lower d < 128 \<and> hex_lower d \<noteq> 43"
proof -
  assume "d < 16"
  moreover have "\<forall>d \<in> set [0..<16]. hex_digit (hex_lower d) = Some d \<and> hex_lower d < 128 \<and> hex_lower d \<noteq> 43"
    by (simp add: hex_lower_def hex_digit_def upt_rec)
  ultimately show ?thesis by simp
qed

lemma hex_decode_text: "hex_decode (hex_text bs) = Some bs"
proof -
  have b: "unat b div 16 < 16" "unat b mod 16 < 16" "unat b div 16 * 16 + unat b mod 16 = unat b" for b :: u8
    using unat_u8_bound [of b] by simp_all
  have pair: "u8_from_hex [hex_lower (unat b div 16), hex_lower (unat b mod 16)] = Some b" for b :: u8
    using hex_lower_digit [OF b(1) [of b]] hex_lower_digit [OF b(2) [of b]] b(3) [of b] unat_u8_bound [of b]
    by (simp add: u8_from_hex_def)
  have "map u8_from_hex (byte_pairs (hex_text bs)) = map Some bs"
    by (induction bs) (simp_all add: hex_text_def pair)
  moreover have "list_all (\<lambda>b. b < 128) (hex_text bs)" "even (length (hex_text bs))"
    using hex_lower_digit b by (induction bs) (simp_all add: hex_text_def)
  ultimately show ?thesis by (simp add: hex_decode_def collect_Some)
qed

text \<open>What a fixture run encodes, a fixture run decodes to the normalized message.\<close>
theorem fixture_round_trip:
  assumes "lib_faithful cl f (normalize m)" and "fx_format x = Some (format_name f)" and "fx_crc x = Some (Some (crc_mode_name mode))"
    and "fx_operation x = Some (lit ''encode'')" and "fx_message x = Some m" and "codec_operation cl ck x = Inr (Encoded hex)"
  shows "codec_operation cl ck (x\<lparr>fx_operation := Some (lit ''decode''), fx_hex := Some hex\<rparr>) = Inr (Decoded (normalize m))"
proof -
  obtain out n where e: "framing_encode cl ck f mode m (replicate MAX_DATAGRAM 0) = Inr (out, n)" "hex = hex_text (take n out)"
    using assms(2-6) by (auto simp: codec_operation_def r_bind_Inr_iff map_sum_Inr_iff)
  have "framing_decode cl ck f mode (take n out) = Inr (normalize m)"
    using message_codec.sent_is_received [of "(cl, f)" m ck mode "replicate MAX_DATAGRAM 0" out n] assms(1) e(1)
    by (simp add: framing_encode_def framing_decode_def)
  then show ?thesis using assms(2,3) e(2) by (simp add: codec_operation_def hex_decode_text)
qed

end
