(* ===== verification/Demo_Log.thy ===== *)
theory Demo_Log
  imports Demo_Options
begin

text \<open>
  The log of the message demo, \<^verbatim>\<open>tools/message-demo/src/log.rs\<close>: the threads that log share a
  bounded queue and two atomic counters with one worker that writes.  Every access to what
  they share is a step, so that any interleaving is a list of actions.  Times and the
  constant metadata of an event are left out.
\<close>

section \<open>Events\<close>

record log_call =
  lg_outcome :: bytes
  lg_peer :: "bytes option"
  lg_length :: nat
  lg_message :: "envelope option"
  lg_rejected :: "bytes option"

record log_event =
  le_call :: log_call
  le_crc_rejections :: u32
  le_dropped :: u64
  le_prefix_hex :: "bytes option"

definition is_crc_error :: "log_call \<Rightarrow> bool" where
  "is_crc_error c \<longleftrightarrow> lg_outcome c = lit ''crc_error''"

definition log_event_of :: "log_call \<Rightarrow> u32 \<Rightarrow> u64 \<Rightarrow> log_event" where
  "log_event_of c rejections dropped =
    \<lparr>le_call = c, le_crc_rejections = rejections, le_dropped = dropped,
     le_prefix_hex = map_option (\<lambda>bs. hex_text (take 64 bs)) (lg_rejected c)\<rparr>"

section \<open>Steps\<close>

text \<open>How far a call has come: before and after counting, with the counter read, with the event
  made, and with the event refused by the queue.\<close>

datatype log_stage = Called log_call | Counted log_call | Sampled log_call u32 | Made log_event | Refused

record log_state =
  lg_flying :: "log_stage list"
  lg_crc :: u32
  lg_dropped :: u64
  lg_queue :: "log_event list"
  lg_hand :: "log_event option"
  lg_written :: "log_event list"
  lg_stopped :: bool
  lg_lost :: "log_event list"

definition log_start :: log_state where
  "log_start = \<lparr>lg_flying = [], lg_crc = 0, lg_dropped = 0, lg_queue = [], lg_hand = None, lg_written = [],
    lg_stopped = False, lg_lost = []\<rparr>"

definition LOG_CAPACITY :: nat where "LOG_CAPACITY = 256"

datatype log_action = Log_Call log_call | Log_Step nat | Log_Take | Log_Write bool

definition leave :: "nat \<Rightarrow> log_state \<Rightarrow> log_state" where
  "leave i s = s\<lparr>lg_flying := take i (lg_flying s) @ drop (Suc i) (lg_flying s)\<rparr>"

definition advance :: "nat \<Rightarrow> log_stage \<Rightarrow> log_state \<Rightarrow> log_state" where
  "advance i g s = s\<lparr>lg_flying := (lg_flying s)[i := g]\<rparr>"

definition log_step :: "nat \<Rightarrow> log_state \<Rightarrow> log_state" where
  "log_step i s =
    (case lg_flying s ! i of
       Called c \<Rightarrow> advance i (Counted c) (if is_crc_error c then s\<lparr>lg_crc := sat_add (lg_crc s) 1\<rparr> else s)
     | Counted c \<Rightarrow> advance i (Sampled c (lg_crc s)) s
     | Sampled c rejections \<Rightarrow> advance i (Made (log_event_of c rejections (lg_dropped s))) s
     | Made e \<Rightarrow> if lg_stopped s \<or> LOG_CAPACITY \<le> length (lg_queue s) then advance i Refused s
         else leave i (s\<lparr>lg_queue := lg_queue s @ [e]\<rparr>)
     | Refused \<Rightarrow> leave i (s\<lparr>lg_dropped := lg_dropped s + 1\<rparr>))"

text \<open>The worker takes an event and writes it; after an error it ends, and the queue with it.\<close>

definition log_write :: "bool \<Rightarrow> log_state \<Rightarrow> log_event \<Rightarrow> log_state" where
  "log_write ok s e =
    (if ok then s\<lparr>lg_hand := None, lg_written := lg_written s @ [e]\<rparr>
     else s\<lparr>lg_hand := None, lg_stopped := True, lg_queue := [], lg_lost := lg_lost s @ e # lg_queue s\<rparr>)"

text \<open>Nothing where the action is not possible.\<close>

fun log_act :: "log_action \<Rightarrow> log_state \<Rightarrow> log_state option" where
  "log_act (Log_Call c) s = Some (s\<lparr>lg_flying := lg_flying s @ [Called c]\<rparr>)"
| "log_act (Log_Step i) s = (if i < length (lg_flying s) then Some (log_step i s) else None)"
| "log_act Log_Take s =
    (case (lg_hand s, lg_queue s) of
       (None, e # es) \<Rightarrow> Some (s\<lparr>lg_hand := Some e, lg_queue := es\<rparr>)
     | _ \<Rightarrow> None)"
| "log_act (Log_Write ok) s = map_option (log_write ok s) (lg_hand s)"

fun log_run :: "log_action list \<Rightarrow> log_state \<Rightarrow> log_state option" where
  "log_run [] s = Some s"
| "log_run (a # as) s = Option.bind (log_act a s) (log_run as)"

section \<open>The account\<close>

fun uncounted :: "log_stage \<Rightarrow> bool" where
  "uncounted (Called c) = is_crc_error c"
| "uncounted g = False"

text \<open>Of \<open>n\<close> calls, of which \<open>k\<close> reported a checksum error, \<open>d\<close> were dropped.\<close>

definition log_account :: "nat \<Rightarrow> nat \<Rightarrow> nat \<Rightarrow> log_state \<Rightarrow> bool" where
  "log_account n k d s \<longleftrightarrow>
    n = length (lg_flying s) + length (lg_queue s) + (if lg_hand s = None then 0 else 1) + length (lg_written s) +
      length (lg_lost s) + d \<and>
    lg_dropped s = of_nat d \<and> length (lg_queue s) \<le> LOG_CAPACITY \<and>
    (\<exists>q. k = q + length (filter uncounted (lg_flying s)) \<and> unat (lg_crc s) = min q 4294967295)"

lemma filter_update:
  assumes "i < length xs"
  shows "length (filter P xs) + (if P x then 1 else 0) = length (filter P (xs[i := x])) + (if P (xs ! i) then 1 else 0)"
    "length (filter P xs) = length (filter P (take i xs @ drop (Suc i) xs)) + (if P (xs ! i) then 1 else 0)"
proof -
  have "xs = take i xs @ xs ! i # drop (Suc i) xs" using assms by (rule id_take_nth_drop)
  then have "length (filter P xs) = length (filter P (take i xs @ xs ! i # drop (Suc i) xs))" by simp
  then show "length (filter P xs) + (if P x then 1 else 0) = length (filter P (xs[i := x])) + (if P (xs ! i) then 1 else 0)"
    "length (filter P xs) = length (filter P (take i xs @ drop (Suc i) xs)) + (if P (xs ! i) then 1 else 0)"
    using assms by (simp_all add: upd_conv_take_nth_drop)
qed

lemma log_step_account:
  assumes "log_account n k d s" and "i < length (lg_flying s)"
  shows "\<exists>d'. log_account n k d' (log_step i s)"
proof (cases "lg_flying s ! i")
  case (Called c)
  note f = filter_update(1) [OF assms(2), of uncounted "Counted c"]
  obtain q where q: "k = q + length (filter uncounted (lg_flying s))" "unat (lg_crc s) = min q 4294967295"
    using assms(1) by (auto simp: log_account_def)
  have "\<exists>q'. k = q' + length (filter uncounted ((lg_flying s)[i := Counted c])) \<and>
      unat (lg_crc (if is_crc_error c then s\<lparr>lg_crc := sat_add (lg_crc s) 1\<rparr> else s)) = min q' 4294967295"
    using q f Called by (intro exI [of _ "if is_crc_error c then Suc q else q"]) (auto simp: unat_sat_add)
  then show ?thesis
    using assms Called by (intro exI [of _ d], cases "is_crc_error c") (simp_all add: log_account_def log_step_def advance_def)
next
  case (Counted c)
  then show ?thesis
    using assms filter_update(1) [OF assms(2), of uncounted "Sampled c (lg_crc s)"]
    by (intro exI [of _ d]) (simp add: log_account_def log_step_def advance_def)
next
  case (Sampled c r)
  then show ?thesis
    using assms filter_update(1) [OF assms(2), of uncounted "Made (log_event_of c r (lg_dropped s))"]
    by (intro exI [of _ d]) (simp add: log_account_def log_step_def advance_def)
next
  case (Made e)
  have "Suc (length (take i (lg_flying s) @ drop (Suc i) (lg_flying s))) = length (lg_flying s)" using assms(2) by simp
  then show ?thesis
    using assms Made filter_update(1) [OF assms(2), of uncounted Refused] filter_update(2) [OF assms(2), of uncounted]
    by (intro exI [of _ d]) (auto simp: log_account_def log_step_def advance_def leave_def)
next
  case Refused
  have "Suc (length (take i (lg_flying s) @ drop (Suc i) (lg_flying s))) = length (lg_flying s)" using assms(2) by simp
  then show ?thesis
    using assms Refused filter_update(2) [OF assms(2), of uncounted]
    by (intro exI [of _ "Suc d"]) (auto simp: log_account_def log_step_def leave_def)
qed

fun crc_calls :: "log_action list \<Rightarrow> nat" where
  "crc_calls [] = 0"
| "crc_calls (Log_Call c # as) = (if is_crc_error c then Suc (crc_calls as) else crc_calls as)"
| "crc_calls (a # as) = crc_calls as"

fun log_calls :: "log_action list \<Rightarrow> nat" where
  "log_calls [] = 0"
| "log_calls (Log_Call c # as) = Suc (log_calls as)"
| "log_calls (a # as) = log_calls as"

lemma log_run_account:
  assumes "log_run as s = Some s'" and "log_account n k d s"
  shows "\<exists>d'. log_account (n + log_calls as) (k + crc_calls as) d' s'"
  using assms
proof (induction as arbitrary: s n k d)
  case (Cons a as)
  obtain s1 where s1: "log_act a s = Some s1" "log_run as s1 = Some s'" using Cons(2) by (auto simp: bind_eq_Some_conv)
  show ?case
  proof (cases a)
    case (Log_Call c)
    have "log_account (Suc n) (k + (if is_crc_error c then 1 else 0)) d s1"
      using Cons(3) s1(1) Log_Call by (auto simp: log_account_def)
    from Cons(1) [OF s1(2) this] show ?thesis using Log_Call by (cases "is_crc_error c") simp_all
  next
    case (Log_Step i)
    then obtain d1 where "log_account n k d1 s1"
      using s1(1) log_step_account [OF Cons(3)] by (auto split: if_splits)
    from Cons(1) [OF s1(2) this] show ?thesis using Log_Step by simp
  next
    case Log_Take
    then have "log_account n k d s1"
      using s1(1) Cons(3) by (auto simp: log_account_def split: option.splits list.splits)
    from Cons(1) [OF s1(2) this] show ?thesis using Log_Take by simp
  next
    case (Log_Write ok)
    then have "log_account n k d s1"
      using s1(1) Cons(3) by (cases ok) (auto simp: log_account_def log_write_def)
    from Cons(1) [OF s1(2) this] show ?thesis using Log_Write by simp
  qed
qed auto

section \<open>Properties\<close>

text \<open>In every interleaving each event that was logged is in one place: still on its way, waiting in a
  queue of at most 256, in the worker's hands, written, lost with a broken output, or counted
  as dropped; and the checksum errors are counted whether their events are dropped or not.\<close>
theorem log_accounts_for_every_event:
  assumes "log_run as log_start = Some s"
  shows "length (lg_queue s) \<le> 256 \<and>
    (\<exists>d. lg_dropped s = of_nat d \<and> log_calls as = length (lg_flying s) + length (lg_queue s) +
      (if lg_hand s = None then 0 else 1) + length (lg_written s) + length (lg_lost s) + d) \<and>
    (lg_flying s = [] \<longrightarrow> unat (lg_crc s) = min (crc_calls as) 4294967295)"
proof -
  have "log_account 0 0 0 log_start" by (simp add: log_account_def log_start_def)
  from log_run_account [OF assms this] obtain d where "log_account (log_calls as) (crc_calls as) d s" by auto
  then show ?thesis by (auto simp: log_account_def LOG_CAPACITY_def)
qed

end
