(* ===== verification/Service_Bridge.thy ===== *)
theory Service_Bridge
  imports Lease_Refinement Bench_Codec
begin

text \<open>
  \<^verbatim>\<open>tools/message-demo/src/lib.rs\<close>, by which Python tests drive the lease service and the
  benchmark codec of the firmware.  A pointer is nothing when it is null; the buffers behind it
  are lists.  What \<^verbatim>\<open>serde_json\<close> does with a text is an argument.
\<close>

section \<open>Values\<close>

text \<open>A text read as a value, the members and readings of a value (a missing member is the null
  value), and the texts of a reply and of a message.\<close>

record 'v json_api =
  value_from :: "bytes \<Rightarrow> 'v option"
  json_get :: "'v \<Rightarrow> bytes \<Rightarrow> 'v"
  as_u64 :: "'v \<Rightarrow> u64 option"
  as_str :: "'v \<Rightarrow> bytes option"
  as_bool :: "'v \<Rightarrow> bool option"
  as_array :: "'v \<Rightarrow> 'v list option"
  as_message :: "'v \<Rightarrow> bench_envelope option"
  message_from :: "bytes \<Rightarrow> bench_envelope option"
  message_text :: "bench_envelope \<Rightarrow> bytes option"
  reply_text :: "bench_envelope option \<Rightarrow> u32 \<Rightarrow> bool \<Rightarrow> bytes option"

definition at_most :: "nat \<Rightarrow> bytes \<Rightarrow> bytes option" where
  "at_most capacity text = (if length text \<le> capacity then Some text else None)"

definition u64_to_u8 :: "u64 \<Rightarrow> u8 option" where
  "u64_to_u8 w = (if unat w < 2 ^ 8 then Some (ucast w) else None)"

definition u64_to_u16 :: "u64 \<Rightarrow> u16 option" where
  "u64_to_u16 w = (if unat w < 2 ^ 16 then Some (ucast w) else None)"

section \<open>The service behind a pointer\<close>

definition benchmark_service_new :: "'v json_api \<Rightarrow> bytes option \<Rightarrow> service option" where
  "benchmark_service_new api input =
    Option.bind input (\<lambda>text.
      if 4096 < length text then None
      else Option.bind (value_from api text) (\<lambda>v.
        Option.bind (Option.bind (as_str api (json_get api v (lit ''device''))) (at_most 32)) (\<lambda>device.
        Option.bind (Option.bind (as_str api (json_get api v (lit ''boot''))) (at_most 16)) (\<lambda>boot.
        Option.bind (Option.bind (as_str api (json_get api v (lit ''format''))) format_parse) (\<lambda>format.
        Option.bind (Option.bind (as_str api (json_get api v (lit ''crc''))) crc_mode_parse) (\<lambda>crc.
          Some (service_new device boot format crc 0)))))))"

definition peer_address :: "'v json_api \<Rightarrow> 'v \<Rightarrow> (u8 \<times> u8 \<times> u8 \<times> u8) option" where
  "peer_address api v =
    (case map_option (map (\<lambda>e. Option.bind (as_u64 api e) u64_to_u8)) (as_array api v) of
       Some [Some a, Some b, Some c, Some d] \<Rightarrow> Some (a, b, c, d)
     | _ \<Rightarrow> None)"

definition received_event :: "'v json_api \<Rightarrow> 'v \<Rightarrow> u64 \<Rightarrow> service_event option" where
  "received_event api v now =
    Option.bind (as_message api (json_get api v (lit ''message''))) (\<lambda>m.
    Option.bind (peer_address api (json_get api v (lit ''address''))) (\<lambda>ip.
    Option.bind (Option.bind (as_u64 api (json_get api v (lit ''port''))) u64_to_u16) (\<lambda>p.
      Some (Received m \<lparr>address = ip, port = p\<rparr> now))))"

definition sent_event :: "'v json_api \<Rightarrow> 'v \<Rightarrow> service_event option" where
  "sent_event api v =
    Option.bind (as_u64 api (json_get api v (lit ''index''))) (\<lambda>index.
      if 2 < unat index then None
      else map_option (Send_Report (unat index)) (as_bool api (json_get api v (lit ''success''))))"

text \<open>What a request asks of the service, nothing for \<^verbatim>\<open>info\<close>.\<close>

definition requested :: "'v json_api \<Rightarrow> 'v \<Rightarrow> service_event option option" where
  "requested api v =
    Option.bind (as_u64 api (json_get api v (lit ''now''))) (\<lambda>now.
    Option.bind (as_str api (json_get api v (lit ''op''))) (\<lambda>op.
      if op = lit ''handle'' then map_option Some (received_event api v now)
      else if op = lit ''publication'' then
        map_option (\<lambda>index. Some (Poll_Stream (unat index) now)) (as_u64 api (json_get api v (lit ''index'')))
      else if op = lit ''tick'' then Some (Some (Tick_At now))
      else if op = lit ''end'' then Some (Some Network_Lost)
      else if op = lit ''reject'' then map_option (\<lambda>crc. Some (Unusable crc)) (as_bool api (json_get api v (lit ''crc'')))
      else if op = lit ''sent'' then map_option Some (sent_event api v)
      else if op = lit ''skip'' then map_option (\<lambda>amount. Some (Skip_Report amount)) (as_u64 api (json_get api v (lit ''amount'')))
      else if op = lit ''info'' then Some None
      else None))"

text \<open>The service afterwards, the returned number and the output buffer.  Nothing is a panic.\<close>

definition answer_call :: "'v json_api \<Rightarrow> service \<Rightarrow> bench_envelope option \<Rightarrow> bytes \<Rightarrow> int \<times> bytes" where
  "answer_call api s reply buffer =
    (case reply_text api reply (epoch s) (lease_active s) of
       None \<Rightarrow> (- 1, buffer)
     | Some text \<Rightarrow> if length buffer < length text then (- 1, buffer)
         else (int (length text), overwrite buffer 0 text))"

definition served_call :: "'v json_api \<Rightarrow> service \<Rightarrow> bytes \<Rightarrow> bytes \<Rightarrow> (service \<times> int \<times> bytes) option" where
  "served_call api s input buffer =
    (case Option.bind (value_from api input) (requested api) of
       None \<Rightarrow> Some (s, - 1, buffer)
     | Some None \<Rightarrow> Some (s, answer_call api s None buffer)
     | Some (Some e) \<Rightarrow> map_option (\<lambda>(s', reply). (s', answer_call api s' reply buffer)) (service_step s e))"

definition benchmark_service_call ::
  "'v json_api \<Rightarrow> service option \<Rightarrow> bytes option \<Rightarrow> bytes option \<Rightarrow> (service option \<times> int \<times> bytes option) option" where
  "benchmark_service_call api state input buffer =
    (case (state, input, buffer) of
       (Some s, Some text, Some out) \<Rightarrow>
         if 4096 < length text \<or> 4096 < length out then Some (state, - 1, buffer)
         else map_option (\<lambda>(s', n, out'). (Some s', n, Some out')) (served_call api s text out)
     | _ \<Rightarrow> Some (state, - 1, buffer))"

fun service_calls ::
  "'v json_api \<Rightarrow> service option \<Rightarrow> (bytes option \<times> bytes option) list \<Rightarrow> (service option \<times> int list) option" where
  "service_calls api state [] = Some (state, [])"
| "service_calls api state ((input, buffer) # calls) =
    Option.bind (benchmark_service_call api state input buffer) (\<lambda>(state, n, out).
      map_option (\<lambda>(state, ns). (state, n # ns)) (service_calls api state calls))"

section \<open>Translation\<close>

fun error_code :: "codec_error \<Rightarrow> int" where
  "error_code Crc = - 2"
| "error_code Decode = - 3"
| "error_code Validation = - 4"
| "error_code Version = - 5"
| "error_code Size = - 6"

definition encoding_of :: "u32 \<Rightarrow> wire_format option" where
  "encoding_of w = (if w = 1 then Some Csv else if w = 2 then Some Json else if w = 3 then Some Protobuf else None)"

definition translated ::
  "'v json_api \<Rightarrow> 'w bench_lib \<Rightarrow> (bytes \<Rightarrow> u32) \<Rightarrow> wire_format \<Rightarrow> crc_mode \<Rightarrow> bool \<Rightarrow> bytes \<Rightarrow> bytes \<Rightarrow>
    codec_error + bytes \<times> nat" where
  "translated api lib ck format crc to_wire input buffer =
    (if to_wire then r_bind (ok_or (message_from api input) Decode) (\<lambda>m. bench_encode lib ck format crc m buffer)
     else r_bind (bench_decode lib ck format crc input) (\<lambda>m.
          r_bind (ok_or (message_text api m) Decode) (\<lambda>text.
            if length buffer < length text then Inl Size else Inr (overwrite buffer 0 text, length text))))"

text \<open>The left value is the negative number returned; the output buffer is then of no meaning.\<close>

definition benchmark_translate ::
  "'v json_api \<Rightarrow> 'w bench_lib \<Rightarrow> (bytes \<Rightarrow> u32) \<Rightarrow> u32 \<Rightarrow> bool \<Rightarrow> bool \<Rightarrow> bytes option \<Rightarrow> bytes option \<Rightarrow>
    int + bytes \<times> nat" where
  "benchmark_translate api lib ck enc crc_on to_wire input buffer =
    (case (input, buffer) of
       (Some text, Some out) \<Rightarrow>
         if 4096 < length text \<or> 4096 < length out then Inl (- 1)
         else (case encoding_of enc of
                 None \<Rightarrow> Inl (- 1)
               | Some format \<Rightarrow>
                   map_sum error_code id (translated api lib ck format (if crc_on then On else Off) to_wire text out))
     | _ \<Rightarrow> Inl (- 1))"

section \<open>Properties\<close>

lemma service_run_append: "service_run s1 es' s2 \<Longrightarrow> service_run s es s1 \<Longrightarrow> service_run s (es @ es') s2"
  by (induction rule: service_run.induct) (auto simp flip: append_assoc intro: run_more)

lemma service_new_parts:
  assumes "benchmark_service_new api input = Some s"
  shows "\<exists>device boot format crc. s = service_new device boot format crc 0 \<and> length device \<le> 32 \<and> length boot \<le> 16"
  using assms by (auto simp: benchmark_service_new_def at_most_def bind_eq_Some_conv split: if_splits)

text \<open>A report of a send is one of the three sockets.\<close>

lemma requested_socket: "requested api v = Some (Some (Send_Report i ok)) \<Longrightarrow> i < 3"
  by (auto simp: requested_def received_event_def sent_event_def bind_eq_Some_conv split: if_splits)

lemma requested_step:
  assumes "service_wf s" and "requested api v = Some (Some e)"
  shows "\<exists>s' reply. service_step s e = Some (s', reply)"
proof (cases e)
  case (Send_Report i ok)
  have "length (active (s_counters s)) = 3" using assms(1) by (simp add: service_wf_def)
  then show ?thesis
    using Send_Report requested_socket [of api v i ok] assms(2) by (simp add: counters_sent_def Let_def)
qed simp_all

lemma benchmark_service_call_steps:
  assumes "service_wf s"
  shows "\<exists>s' n out es. benchmark_service_call api (Some s) input buffer = Some (Some s', n, out) \<and>
    service_run s es s' \<and> length es \<le> 1"
proof -
  have none: "service_run s [] s" by (rule run_none)
  have one: "\<exists>s' n out' es. served_call api s line out = Some (s', n, out') \<and> service_run s es s' \<and> length es \<le> 1" for line out
  proof (cases "Option.bind (value_from api line) (requested api)")
    case None
    then have "served_call api s line out = Some (s, - 1, out)" by (simp add: served_call_def)
    moreover have "length ([] :: service_event list) \<le> 1" by simp
    ultimately show ?thesis using none by blast
  next
    case (Some request)
    note asked = this
    then obtain v where v: "requested api v = Some request" by (auto simp: bind_eq_Some_conv)
    show ?thesis
    proof (cases request)
      case None
      obtain n out' where "answer_call api s None out = (n, out')" by (cases "answer_call api s None out")
      then have "served_call api s line out = Some (s, n, out')" using None asked by (simp add: served_call_def)
      moreover have "length ([] :: service_event list) \<le> 1" by simp
      ultimately show ?thesis using none by blast
    next
      case (Some e)
      then obtain s' reply where e: "service_step s e = Some (s', reply)"
        using requested_step [OF assms, of api v e] v by blast
      obtain n out' where "answer_call api s' reply out = (n, out')" by (cases "answer_call api s' reply out")
      then have "served_call api s line out = Some (s', n, out')" using e asked Some by (simp add: served_call_def)
      moreover have "service_run s [e] s'" "length [e] \<le> 1" using run_more [OF none e] by simp_all
      ultimately show ?thesis by blast
    qed
  qed
  show ?thesis
  proof (cases "(\<exists>line out. input = Some line \<and> buffer = Some out \<and> length line \<le> 4096 \<and> length out \<le> 4096)")
    case True
    then obtain line out where io: "input = Some line" "buffer = Some out" "length line \<le> 4096" "length out \<le> 4096" by blast
    obtain s' n out' es where "served_call api s line out = Some (s', n, out')" "service_run s es s'" "length es \<le> 1"
      using one by blast
    then have "benchmark_service_call api (Some s) input buffer = Some (Some s', n, Some out')"
      using io by (simp add: benchmark_service_call_def)
    then show ?thesis using \<open>service_run s es s'\<close> \<open>length es \<le> 1\<close> by blast
  next
    case False
    then have "benchmark_service_call api (Some s) input buffer = Some (Some s, - 1, buffer)"
      by (cases input; cases buffer) (auto simp: benchmark_service_call_def)
    moreover have "length ([] :: service_event list) \<le> 1" by simp
    ultimately show ?thesis using none by blast
  qed
qed

text \<open>Whatever Python sends through the bridge to a service with a proper device name and boot
  token, no call panics, the service behind the pointer only makes steps of the firmware's
  lease service, at most one for each call, and its lease moves as the abstract lease
  protocol allows.\<close>
theorem bridge_only_steps_the_service:
  assumes "benchmark_service_new api input = Some s" and "device_name (s_device s)" and "hex_token (s_boot s)"
  shows "\<exists>s' ns es. service_calls api (Some s) calls = Some (Some s', ns) \<and> length ns = length calls \<and>
    service_run s es s' \<and> length es \<le> length calls \<and> lease_history (lease_view s) (lease_view s')"
proof -
  obtain device boot format crc where s: "s = service_new device boot format crc 0" "length device \<le> 32"
    using service_new_parts [OF assms(1)] by blast
  then have wf: "service_wf s"
    using assms(2,3) service_new_wf [of device boot format crc 0] by (simp add: service_new_def)
  have "\<exists>s' ns es. service_calls api (Some s1) calls = Some (Some s', ns) \<and> length ns = length calls \<and>
      service_run s1 es s' \<and> length es \<le> length calls" if "service_wf s1" for s1
    using that
  proof (induction calls arbitrary: s1)
    case (Cons call calls)
    obtain input buffer where call: "call = (input, buffer)" by (cases call)
    obtain s2 n out es where step: "benchmark_service_call api (Some s1) input buffer = Some (Some s2, n, out)"
        "service_run s1 es s2" "length es \<le> 1"
      using benchmark_service_call_steps [OF Cons(2)] by blast
    obtain s' ns es' where rest: "service_calls api (Some s2) calls = Some (Some s', ns)" "length ns = length calls"
        "service_run s2 es' s'" "length es' \<le> length calls"
      using Cons(1) [OF run_wf [OF step(2) Cons(2)]] by blast
    show ?case
      using step rest service_run_append [OF rest(3) step(2)] by (fastforce simp: call intro: exI [of _ "es @ es'"])
  qed (auto intro: run_none)
  then show ?thesis using wf run_history by blast
qed

text \<open>A value that is its own text, every member of which is named by its key.\<close>

definition tick_api :: "bytes json_api" where
  "tick_api = \<lparr>value_from = Some, json_get = (\<lambda>v key. key), as_u64 = (\<lambda>_. Some 5),
    as_str = (\<lambda>key. Some (if key = lit ''device'' then lit ''board-01'' else if key = lit ''boot'' then lit ''123456789abcdef0''
      else if key = lit ''format'' then lit ''csv'' else if key = lit ''crc'' then lit ''off'' else lit ''tick'')),
    as_bool = (\<lambda>_. None), as_array = (\<lambda>_. None), as_message = (\<lambda>_. None), message_from = (\<lambda>_. None),
    message_text = (\<lambda>_. None), reply_text = (\<lambda>_ _ _. Some [123, 125])\<rparr>"

lemma tick_api_service: "benchmark_service_new tick_api (Some [123, 125]) = Some sample_service"
  by (simp add: benchmark_service_new_def tick_api_def sample_service_def at_most_def format_parse_def crc_mode_parse_def)

theorem bridge_only_steps_the_service_witness:
  "\<exists>s' ns es. service_calls tick_api (Some sample_service) [(Some [123, 125], Some [0, 0]), (None, Some [])] = Some (Some s', ns) \<and>
    length ns = 2 \<and> service_run sample_service es s'"
proof -
  have "device_name (s_device sample_service)" "hex_token (s_boot sample_service)"
    using sample_names by (simp_all add: sample_service_def service_new_def)
  from bridge_only_steps_the_service [OF tick_api_service this, of "[(Some [123, 125], Some [0, 0]), (None, Some [])]"]
  show ?thesis by auto
qed

text \<open>What the bridge encodes it translates back to the text of the normalized message.\<close>
theorem translation_round_trip:
  assumes "message_from api text = Some m" and "encoding_of enc = Some f" and "bench_faithful lib f m"
    and "benchmark_translate api lib ck enc crc_on True (Some text) (Some out) = Inr (sent, n)"
    and "message_text api (bench_normalize m) = Some text'" and "length text' \<le> length out'" and "length out' \<le> 4096"
  shows "n \<le> 1024 \<and> benchmark_translate api lib ck enc crc_on False (Some (take n sent)) (Some out') =
    Inr (overwrite out' 0 text', length text')"
proof -
  let ?crc = "if crc_on then On else Off"
  have "send_frame (bench_encode_body lib f ?crc m) ck ?crc out = Inr (sent, n)"
    using assms(1,2,4)
    by (auto simp: benchmark_translate_def translated_def bench_encode_def map_sum_Inr_iff split: if_splits)
  from bench_codec.sent_is_received [of "(lib, f, ?crc)" m ck ?crc out sent n] this
  have r: "n \<le> 1024" "bench_decode lib ck f ?crc (take n sent) = Inr (bench_normalize m)"
    using assms(3) by (simp_all add: bench_decode_def frame_sizes)
  then show ?thesis
    using assms(2,5-7) by (simp add: benchmark_translate_def translated_def)
qed

end
