(* ===== verification/Boot_Sequence.thy ===== *)
theory Boot_Sequence
  imports Bench_Server Boot_Confirmation
begin

text \<open>
  \<^verbatim>\<open>Rust/src/bin/native_rmii_messaging.rs\<close>: how the messaging image starts, up to the
  confirmation of a trial.  The random numbers, the flags that are seen at the polls and
  the flash are the environment; the self checks are those of the two servers.
\<close>

section \<open>The boot identity\<close>

definition hex_digit :: "u8 \<Rightarrow> u8" where
  "hex_digit d = (if d < 10 then 48 + d else 87 + d)"

text \<open>\<^verbatim>\<open>write!(&mut boot, "{byte:02x}")\<close> for each byte.\<close>

definition hex_byte :: "u8 \<Rightarrow> bytes" where
  "hex_byte b = [hex_digit (b div 16), hex_digit (b mod 16)]"

definition boot_token :: "bytes \<Rightarrow> bytes" where
  "boot_token random = concat (map hex_byte random)"

section \<open>The tasks\<close>

datatype service_task = Net_Task | Command_Task | Status_Task | Health_Task | Benchmark_Task

fun started_bit :: "service_task \<Rightarrow> u8" where
  "started_bit Net_Task = 1"
| "started_bit Command_Task = 2"
| "started_bit Status_Task = push_bit (1 + 1) 1"
| "started_bit Health_Task = push_bit (2 + 1) 1"
| "started_bit Benchmark_Task = 16"

text \<open>The flags after the tasks have set theirs with \<^verbatim>\<open>fetch_or\<close>.\<close>

definition STARTED :: "service_task list \<Rightarrow> u8" where
  "STARTED tasks = fold (\<lambda>t flags. flags OR started_bit t) tasks 0"

definition ALL_STARTED :: "bool \<Rightarrow> u8" where
  "ALL_STARTED benchmark = (if benchmark then 31 else 15)"

section \<open>The start\<close>

record 'w image =
  i_build :: "'w build"
  i_bench :: "'w bench_build option"
  i_rollback_test :: bool

text \<open>The answers: the random bytes within a second or not, the clock of the benchmark's check, and
  the tasks that have started at each poll within two seconds.\<close>

record boot_answers =
  random_bytes :: "bytes option"
  check_times :: "u64 \<times> u64"
  seen_at_polls :: "service_task list list"

datatype boot_end =
    Nonce_Failed
  | Codec_Checkpoint_Failed
  | Benchmark_Checkpoint_Failed
  | Task_Checkpoint_Failed
  | Confirmation_Withheld
  | Confirmation_Done "confirmation_error + confirmation"

definition messaging_boot :: "'w image \<Rightarrow> boot_answers \<Rightarrow> environment \<Rightarrow> boot_end act" where
  "messaging_boot i a env =
    (case random_bytes a of
       None \<Rightarrow> finish Nonce_Failed
     | Some random \<Rightarrow>
         if random = replicate 8 0 then finish Nonce_Failed
         else
           (let boot = boot_token random
            in if \<not> self_check (i_build i) counters_new boot then finish Codec_Checkpoint_Failed
               else if (case i_bench i of None \<Rightarrow> False
                        | Some b \<Rightarrow> \<not> bench_self_check b boot (fst (check_times a)) (snd (check_times a)))
               then finish Benchmark_Checkpoint_Failed
               else if \<not> list_ex (\<lambda>tasks. STARTED tasks = ALL_STARTED (is_some (i_bench i))) (seen_at_polls a)
               then finish Task_Checkpoint_Failed
               else if i_rollback_test i then finish Confirmation_Withheld
               else after (confirm_running_trial env) (\<lambda>r. finish (Confirmation_Done r))))"

section \<open>Tokens\<close>

lemma nibbles: "unat (b div 16 :: u8) = unat b div 16" "unat (b mod 16 :: u8) = unat b mod 16"
  by (simp_all add: unat_div unat_mod)

lemma hex_digit_lower: "unat d < 16 \<Longrightarrow> is_lower_hex (hex_digit d)"
  by (auto simp: hex_digit_def ascii_defs word_less_unat word_le_unat unat_add_small)

lemma unat_hex_digit:
  "unat d < 16 \<Longrightarrow> unat (hex_digit d) = (if unat d < 10 then 48 + unat d else 87 + unat d)"
  by (auto simp: hex_digit_def word_less_unat unat_add_small)

lemma hex_digit_inj: "unat d < 16 \<Longrightarrow> unat e < 16 \<Longrightarrow> hex_digit d = hex_digit e \<Longrightarrow> d = e"
  using unat_hex_digit [of d] unat_hex_digit [of e] by (auto simp: word_unat_eq_iff split: if_splits)

lemma nibble_bounds: "unat (b div 16 :: u8) < 16" "unat (b mod 16 :: u8) < 16"
  using unat_u8_bound [of b] by (simp_all add: nibbles)

lemma hex_byte_inj: "hex_byte a = hex_byte b \<Longrightarrow> a = b"
proof -
  assume "hex_byte a = hex_byte b"
  then have "a div 16 = b div 16" "a mod 16 = b mod 16"
    using hex_digit_inj nibble_bounds by (auto simp: hex_byte_def)
  then show "a = b" by (metis div_mult_mod_eq)
qed

lemma boot_token_inj: "length xs = length ys \<Longrightarrow> boot_token xs = boot_token ys \<Longrightarrow> xs = ys"
proof (induction xs ys rule: list_induct2)
  case (Cons x xs y ys)
  then have "hex_byte x = hex_byte y" "boot_token xs = boot_token ys"
    by (auto simp: boot_token_def hex_byte_def)
  then show ?case using Cons hex_byte_inj by blast
qed simp

lemma boot_token_shape: "length (boot_token xs) = 2 * length xs \<and> list_all is_lower_hex (boot_token xs)"
  by (induction xs) (simp_all add: boot_token_def hex_byte_def hex_digit_lower nibble_bounds)

lemma eight_zeros: "replicate 8 (0 :: u8) = [0, 0, 0, 0, 0, 0, 0, 0]"
  by (simp add: numeral_eq_Suc)

text \<open>C40: the identity of a boot is a valid token of the protocol for every eight random bytes that
  are not all zero, and different random bytes give different identities.\<close>
theorem boot_identity_is_token:
  assumes "length random = 8" and "random \<noteq> replicate 8 0"
  shows "hex_token (boot_token random) \<and>
    (\<forall>other. length other = 8 \<and> boot_token other = boot_token random \<longrightarrow> other = random)"
proof -
  have "boot_token (replicate 8 0) = lit ''0000000000000000''"
    by (simp add: boot_token_def hex_byte_def hex_digit_def eight_zeros lit_def)
  then have "boot_token random \<noteq> lit ''0000000000000000''"
    using boot_token_inj [of random "replicate 8 0"] assms by auto
  then show ?thesis
    using boot_token_shape [of random] boot_token_inj assms(1) by (auto simp: hex_token_def)
qed

definition sample_random :: bytes where
  "sample_random = [1, 0x23, 0x45, 0x67, 0x89, 0xab, 0xcd, 0xef]"

lemma sample_random_facts: "length sample_random = 8" "sample_random \<noteq> replicate 8 0" "boot_token sample_random = sample_boot"
  by (simp_all add: sample_random_def eight_zeros boot_token_def hex_byte_def hex_digit_def sample_boot_def lit_def)

theorem boot_identity_is_token_witness: "hex_token (boot_token sample_random)"
  using boot_identity_is_token [OF sample_random_facts(1,2)] by simp

section \<open>Flags\<close>

lemma bit_flags: "bit (fold (\<lambda>t flags. flags OR started_bit t) tasks f) n \<longleftrightarrow>
    bit f n \<or> (\<exists>t \<in> set tasks. bit (started_bit t) n)"
  by (induction tasks arbitrary: f) (auto simp: bit_or_iff)

lemma bit_started: "bit (STARTED tasks) n \<longleftrightarrow> (\<exists>t \<in> set tasks. bit (started_bit t) n)"
  by (simp add: STARTED_def bit_flags)

definition task_bit :: "service_task \<Rightarrow> nat" where
  "task_bit t = (case t of Net_Task \<Rightarrow> 0 | Command_Task \<Rightarrow> 1 | Status_Task \<Rightarrow> 2 | Health_Task \<Rightarrow> 3 | Benchmark_Task \<Rightarrow> 4)"

lemma started_bit_pow: "started_bit t = push_bit (task_bit t) 1"
  by (cases t) (simp_all add: task_bit_def)

lemma started_task: "bit (STARTED tasks) (task_bit t) \<longleftrightarrow> t \<in> set tasks"
proof -
  have "bit (started_bit u) (task_bit t) \<longleftrightarrow> u = t" for u
    by (cases t; cases u) (simp_all add: task_bit_def)
  then show ?thesis by (auto simp: bit_started)
qed

text \<open>All flags are seen only when every task of the image has started.\<close>

lemma all_started:
  assumes "STARTED tasks = ALL_STARTED benchmark"
  shows "{Net_Task, Command_Task, Status_Task, Health_Task} \<subseteq> set tasks \<and> (benchmark \<longrightarrow> Benchmark_Task \<in> set tasks)"
proof -
  have b: "bit (ALL_STARTED benchmark) (task_bit t)" if "t \<noteq> Benchmark_Task \<or> benchmark" for t
    using that by (cases t) (simp_all add: ALL_STARTED_def task_bit_def)
  have "t \<in> set tasks" if "t \<noteq> Benchmark_Task \<or> benchmark" for t
    using b [OF that] started_task [of tasks t] assms by simp
  then show ?thesis by auto
qed

text \<open>C8: the messaging image changes the flash during its start only to confirm a trial, and only
  after the random bytes gave a valid identity, the codec and the benchmark passed their
  self checks, every task had started, and the image is not the rollback test; the one
  change is the flag of the primary slot.\<close>
theorem only_a_healthy_boot_confirms:
  assumes "changes (snd (messaging_boot i a env [])) \<noteq> []"
  shows "changes (snd (messaging_boot i a env [])) = [Program 0x7ffc0 mcuboot_image_ok_block] \<and> trial_pending env \<and>
    \<not> i_rollback_test i \<and>
    (\<exists>random tasks. random_bytes a = Some random \<and> random \<noteq> replicate 8 0 \<and>
      self_check (i_build i) counters_new (boot_token random) \<and>
      (\<forall>b. i_bench i = Some b \<longrightarrow>
        bench_self_check b (boot_token random) (fst (check_times a)) (snd (check_times a))) \<and>
      tasks \<in> set (seen_at_polls a) \<and> {Net_Task, Command_Task, Status_Task, Health_Task} \<subseteq> set tasks \<and>
      (i_bench i \<noteq> None \<longrightarrow> Benchmark_Task \<in> set tasks))"
proof -
  obtain random where r: "random_bytes a = Some random" "random \<noteq> replicate 8 0"
    and s: "self_check (i_build i) counters_new (boot_token random)"
    and b: "\<not> (case i_bench i of None \<Rightarrow> False
      | Some b \<Rightarrow> \<not> bench_self_check b (boot_token random) (fst (check_times a)) (snd (check_times a)))"
    and t: "list_ex (\<lambda>tasks. STARTED tasks = ALL_STARTED (is_some (i_bench i))) (seen_at_polls a)"
    and w: "\<not> i_rollback_test i"
    using assms unfolding messaging_boot_def Let_def
    by (auto simp: finish_def changes_def split: option.splits if_splits)
  have run: "messaging_boot i a env [] = after (confirm_running_trial env) (\<lambda>r. finish (Confirmation_Done r)) []"
    unfolding messaging_boot_def Let_def using r s b t w by simp
  have "snd (messaging_boot i a env []) = snd (confirm_running_trial env [])"
    using confirm_run [of env] unfolding run
    by (auto simp: after_def finish_def split: prod.split outcome.split)
  then have "changes (snd (messaging_boot i a env [])) = [Program 0x7ffc0 mcuboot_image_ok_block] \<and> trial_pending env"
    using confirm_run [of env] assms by (auto simp: mark_ok_def)
  moreover obtain tasks where "tasks \<in> set (seen_at_polls a)" "STARTED tasks = ALL_STARTED (is_some (i_bench i))"
    using t by (auto simp: list_ex_iff)
  ultimately show ?thesis
    using r s b w all_started [of tasks "is_some (i_bench i)"] by (auto split: option.splits)
qed

definition sample_image :: "unit image" where
  "sample_image = \<lparr>i_build = \<lparr>lib = kind_lib, checksum = crc32c_reference, wire = Protobuf, crc = Off\<rparr>,
     i_bench = None, i_rollback_test = False\<rparr>"

definition sample_boot_answers :: boot_answers where
  "sample_boot_answers = \<lparr>random_bytes = Some sample_random, check_times = (0, 0),
     seen_at_polls = [[Net_Task], [Net_Task, Command_Task, Health_Task, Status_Task]]\<rparr>"

theorem only_a_healthy_boot_confirms_witness:
  "changes (snd (messaging_boot sample_image sample_boot_answers (device sample_trial []) [])) =
    [Program 0x7ffc0 mcuboot_image_ok_block] \<and> trial_pending (device sample_trial [])"
proof -
  let ?env = "device sample_trial []"
  have "messaging_boot sample_image sample_boot_answers ?env [] =
      after (confirm_running_trial ?env) (\<lambda>r. finish (Confirmation_Done r)) []"
    using self_check_exact_witness sample_random_facts
    by (simp add: messaging_boot_def sample_image_def sample_boot_answers_def STARTED_def ALL_STARTED_def Let_def)
  then have "changes (snd (messaging_boot sample_image sample_boot_answers ?env [])) =
      changes (snd (confirm_running_trial ?env []))"
    using confirm_run [of ?env] by (auto simp: after_def finish_def split: prod.split outcome.split)
  then have "changes (snd (messaging_boot sample_image sample_boot_answers ?env [])) \<noteq> []"
    using confirmation_is_idempotent [OF device_working [of sample_trial "[]"] sample_trial_boot] by simp
  from only_a_healthy_boot_confirms [OF this] show ?thesis by simp
qed

end
