(* ===== verification/Echo_Servers.thy ===== *)
theory Echo_Servers
  imports Firmware_Rules
begin

text \<open>
  The echo servers: a turn of the loop of \<^verbatim>\<open>servers/embassy_udp_echo.rs\<close>, and
  \<^verbatim>\<open>servers/w5500_offload_udp_echo.rs\<close>, which drives the UDP engine of the W5500 through a
  driver.  The driver's answers are given, its calls are recorded, and a small machine
  states what the chip's documentation says of those calls: a datagram goes to the address
  in the destination registers.
\<close>

section \<open>The socket server\<close>

datatype 'a echo_event =
    Echo_Received bytes nat 'a bool
  | Echo_Receive_Error

text \<open>The counter of echoed datagrams, and the datagram handed to the socket.\<close>

fun echo_turn :: "u32 \<Rightarrow> 'a echo_event \<Rightarrow> u32 \<times> (bytes \<times> 'a) option" where
  "echo_turn echoed Echo_Receive_Error = (echoed, None)"
| "echo_turn echoed (Echo_Received payload n remote ok) =
    (case echo_payload payload n of
       None \<Rightarrow> (echoed, None)
     | Some reply \<Rightarrow> (if ok then echoed + 1 else echoed, Some (reply, remote)))"

section \<open>The offload server\<close>

datatype 'a udp_result =
    Udp_Received bytes nat 'a
  | Would_Block
  | Out_Of_Memory
  | Unexpected_Eof
  | Other_Error

datatype 'a chip_call =
    Clear_Interrupt
  | Set_Dest 'a
  | Write_All bytes
  | Send_Datagram

record 'a offload_server =
  last_source :: "'a option"
  echo_count :: u32

definition offload_new :: "'a offload_server" where
  "offload_new = \<lparr>last_source = None, echo_count = 0\<rparr>"

text \<open>A datagram in the payload buffer.  Nothing is the panic of a slice beyond the buffer.\<close>

definition offload_echo :: "bytes \<Rightarrow> nat \<Rightarrow> 'a \<Rightarrow> 'a offload_server \<Rightarrow> ('a offload_server \<times> 'a chip_call list) option" where
  "offload_echo payload n source s =
    (if n = 0 then Some (s, [])
     else if length payload < n then None
     else Some (s\<lparr>last_source := Some source, echo_count := echo_count s + 1\<rparr>,
       (if last_source s \<noteq> Some source then [Set_Dest source] else []) @ [Write_All (take n payload), Send_Datagram]))"

text \<open>The loop over the results of the driver, which ends with the first \<^verbatim>\<open>WouldBlock\<close>; a list that ends
  before stands for a loop that is still running.\<close>

fun offload_drain :: "'a udp_result list \<Rightarrow> 'a offload_server \<Rightarrow> ('a offload_server \<times> 'a chip_call list) option" where
  "offload_drain [] s = Some (s, [])"
| "offload_drain (r # rs) s =
    (case r of
       Udp_Received payload n source \<Rightarrow>
         Option.bind (offload_echo payload n source s) (\<lambda>(s, calls).
           map_option (\<lambda>(s, more). (s, calls @ more)) (offload_drain rs s))
     | Would_Block \<Rightarrow> Some (s, [])
     | Out_Of_Memory \<Rightarrow> offload_drain rs s
     | Unexpected_Eof \<Rightarrow> offload_drain rs s
     | Other_Error \<Rightarrow> offload_drain rs s)"

definition offload_poll ::
  "bool \<Rightarrow> 'a udp_result list \<Rightarrow> 'a offload_server \<Rightarrow> ('a offload_server \<times> 'a chip_call list) option" where
  "offload_poll raised rs s =
    map_option (\<lambda>(s, calls). (s, (if raised then [Clear_Interrupt] else []) @ calls)) (offload_drain rs s)"

fun offload_polls ::
  "(bool \<times> 'a udp_result list) list \<Rightarrow> 'a offload_server \<Rightarrow> ('a offload_server \<times> 'a chip_call list) option" where
  "offload_polls [] s = Some (s, [])"
| "offload_polls ((raised, rs) # ps) s =
    Option.bind (offload_poll raised rs s) (\<lambda>(s, calls).
      map_option (\<lambda>(s, more). (s, calls @ more)) (offload_polls ps s))"

section \<open>The chip\<close>

text \<open>The destination register, the bytes in the transmit buffer, and the datagrams sent.\<close>

record 'a chip =
  dest :: "'a option"
  pending :: bytes
  transmitted :: "('a option \<times> bytes) list"

fun chip_step :: "'a chip_call \<Rightarrow> 'a chip \<Rightarrow> 'a chip" where
  "chip_step Clear_Interrupt c = c"
| "chip_step (Set_Dest a) c = c\<lparr>dest := Some a\<rparr>"
| "chip_step (Write_All bs) c = c\<lparr>pending := pending c @ bs\<rparr>"
| "chip_step Send_Datagram c = c\<lparr>pending := [], transmitted := transmitted c @ [(dest c, pending c)]\<rparr>"

text \<open>What an echo server owes for the results of the driver.\<close>

fun echoes :: "'a udp_result list \<Rightarrow> ('a option \<times> bytes) list" where
  "echoes [] = []"
| "echoes (Udp_Received payload n source # rs) = (if n = 0 then [] else [(Some source, take n payload)]) @ echoes rs"
| "echoes (Would_Block # rs) = []"
| "echoes (Out_Of_Memory # rs) = echoes rs"
| "echoes (Unexpected_Eof # rs) = echoes rs"
| "echoes (Other_Error # rs) = echoes rs"

definition in_buffer :: "'a udp_result \<Rightarrow> bool" where
  "in_buffer r \<longleftrightarrow> (\<forall>payload n source. r = Udp_Received payload n source \<longrightarrow> n \<le> length payload)"

text \<open>The server's memory of the destination is right, and nothing is left in the transmit buffer.\<close>

definition tracks :: "'a offload_server \<Rightarrow> 'a chip \<Rightarrow> bool" where
  "tracks s c \<longleftrightarrow> pending c = [] \<and> (\<forall>a. last_source s = Some a \<longrightarrow> dest c = Some a)"

lemma offload_echo_step:
  assumes "tracks s c" and "n \<le> length payload"
  shows "\<exists>s' calls. offload_echo payload n source s = Some (s', calls) \<and> tracks s' (fold chip_step calls c) \<and>
    transmitted (fold chip_step calls c) = transmitted c @ (if n = 0 then [] else [(Some source, take n payload)])"
proof (cases "n = 0")
  case False
  then have e: "offload_echo payload n source s = Some (s\<lparr>last_source := Some source, echo_count := echo_count s + 1\<rparr>,
      (if last_source s \<noteq> Some source then [Set_Dest source] else []) @ [Write_All (take n payload), Send_Datagram])"
    using assms(2) by (simp add: offload_echo_def)
  show ?thesis
    using False assms(1) unfolding e by (cases "last_source s = Some source") (simp_all add: tracks_def)
qed (use assms(1) in \<open>simp add: offload_echo_def\<close>)

lemma offload_drain_echoes:
  assumes "tracks s c" and "list_all in_buffer rs"
  shows "\<exists>s' calls. offload_drain rs s = Some (s', calls) \<and> tracks s' (fold chip_step calls c) \<and>
    transmitted (fold chip_step calls c) = transmitted c @ echoes rs"
  using assms
proof (induction rs arbitrary: s c)
  case (Cons r rs)
  show ?case
  proof (cases r)
    case (Udp_Received payload n source)
    obtain s1 calls where e: "offload_echo payload n source s = Some (s1, calls)"
      "tracks s1 (fold chip_step calls c)"
      "transmitted (fold chip_step calls c) = transmitted c @ (if n = 0 then [] else [(Some source, take n payload)])"
      using offload_echo_step [OF Cons(2), of n payload source] Cons(3) Udp_Received by (auto simp: in_buffer_def)
    obtain s2 more where "offload_drain rs s1 = Some (s2, more)" "tracks s2 (fold chip_step more (fold chip_step calls c))"
      "transmitted (fold chip_step more (fold chip_step calls c)) = transmitted (fold chip_step calls c) @ echoes rs"
      using Cons(1) [OF e(2)] Cons(3) by auto
    then show ?thesis using e Udp_Received by auto
  qed (use Cons in auto)
qed simp

text \<open>Whatever the driver delivers, over any number of polls the offload server transmits
  exactly the nonempty datagrams it received, in order, unchanged and each to its sender.\<close>
theorem offload_echoes_to_sender:
  assumes "list_all (\<lambda>(raised, rs). list_all in_buffer rs) ps" and "pending c = []"
  shows "\<exists>s calls. offload_polls ps offload_new = Some (s, calls) \<and>
    transmitted (fold chip_step calls c) = transmitted c @ concat (map (\<lambda>(raised, rs). echoes rs) ps)"
proof -
  have "\<exists>s' calls. offload_polls ps s = Some (s', calls) \<and> tracks s' (fold chip_step calls c) \<and>
    transmitted (fold chip_step calls c) = transmitted c @ concat (map (\<lambda>(raised, rs). echoes rs) ps)"
    if "tracks s c" "list_all (\<lambda>(raised, rs). list_all in_buffer rs) ps" for s c
    using that
  proof (induction ps arbitrary: s c)
    case (Cons p ps)
    obtain raised rs where p: "p = (raised, rs)" by (cases p)
    obtain s1 calls where d: "offload_drain rs s = Some (s1, calls)" "tracks s1 (fold chip_step calls c)"
      "transmitted (fold chip_step calls c) = transmitted c @ echoes rs"
      using offload_drain_echoes [OF Cons(2), of rs] Cons(3) p by auto
    obtain s2 more where "offload_polls ps s1 = Some (s2, more)" "tracks s2 (fold chip_step more (fold chip_step calls c))"
      "transmitted (fold chip_step more (fold chip_step calls c)) =
        transmitted (fold chip_step calls c) @ concat (map (\<lambda>(raised, rs). echoes rs) ps)"
      using Cons(1) [OF d(2)] Cons(3) by auto
    then show ?case using d p by (auto simp: offload_poll_def)
  qed simp
  moreover have "tracks offload_new c" using assms(2) by (simp add: tracks_def offload_new_def)
  ultimately show ?thesis using assms(1) by blast
qed

theorem offload_echoes_to_sender_witness:
  "\<exists>s calls. offload_polls [(True, [Udp_Received [1, 2, 3] 2 (7 :: nat), Would_Block]), (False, [Udp_Received [] 0 8,
       Udp_Received [9] 1 8, Out_Of_Memory, Udp_Received [4] 1 7])] offload_new = Some (s, calls) \<and>
    transmitted (fold chip_step calls \<lparr>dest = None, pending = [], transmitted = []\<rparr>) =
      [(Some 7, [1, 2]), (Some 8, [9]), (Some 7, [4])]"
  using offload_echoes_to_sender [of "[(True, [Udp_Received [1, 2, 3] 2 (7 :: nat), Would_Block]), (False, [Udp_Received [] 0 8,
       Udp_Received [9] 1 8, Out_Of_Memory, Udp_Received [4] 1 7])]" "\<lparr>dest = None, pending = [], transmitted = []\<rparr>"]
  by (simp add: in_buffer_def)

text \<open>The socket server sends back exactly the bytes received, to their sender.\<close>

lemma echo_turn_returns:
  "n \<le> length payload \<Longrightarrow> snd (echo_turn echoed (Echo_Received payload n remote ok)) = Some (take n payload, remote)"
  by (simp add: echo_payload_def)

end
