(* ===== verification/Echo_Loop.thy ===== *)
theory Echo_Loop
  imports Load_Properties Echo_Servers
begin

text \<open>
  The two ends together: the load run of the host benchmark (\<^verbatim>\<open>runner.rs\<close>, \<^verbatim>\<open>protocol.rs\<close>) against
  the echo server of the board (\<^verbatim>\<open>servers/embassy_udp_echo.rs\<close>).  Every datagram that reaches the
  receiver is the server's answer to a packet the sender put on the wire; the network may
  lose, repeat, delay and reorder them.
\<close>

section \<open>Honest runs\<close>

text \<open>The server's answer to a datagram: it stands at the front of the buffer, in front of the bytes
  that earlier datagrams left there.\<close>

definition echo_of :: "bytes \<Rightarrow> bytes \<Rightarrow> bytes option" where
  "echo_of left w = map_option fst (snd (echo_turn 0 (Echo_Received (w @ left) (length w) () True)))"

lemma echo_of_packet: "echo_of left w = Some w"
  using echo_turn_returns [of "length w" "w @ left" 0 "()" True] by (simp add: echo_of_def)

fun honest_event :: "load_state \<Rightarrow> receiver_event \<Rightarrow> bool" where
  "honest_event s (Datagram packet t) = (\<exists>w \<in> set (l_wire s). \<exists>left. echo_of left w = Some packet)"
| "honest_event s Quiet = True"
| "honest_event s Broken = True"
| "honest_event s Deadline = True"

inductive honest_run :: "load_plan \<Rightarrow> load_state \<Rightarrow> bool" for p where
  honest_begin: "load_start p = Inr s \<Longrightarrow> honest_run p s"
| honest_send: "honest_run p s \<Longrightarrow> honest_run p (sender_step p e s)"
| honest_receive: "honest_run p s \<Longrightarrow> honest_event s ev \<Longrightarrow> honest_run p (receiver_step p ev s)"

lemma honest_load_run: "honest_run p s \<Longrightarrow> load_run p s"
  by (induction rule: honest_run.induct) (auto intro: load_run.intros)

section \<open>What the receiver recognises\<close>

definition carries :: "load_plan \<Rightarrow> nat \<Rightarrow> bytes \<Rightarrow> bool" where
  "carries p i w \<longleftrightarrow>
    (\<exists>t. packet_encode (unat (p_sizes p ! i)) \<lparr>h_run_id = p_run_id p, h_sequence = of_nat i, h_sent_ns = t\<rparr> = Inr w)"

lemma carries_recognised:
  assumes "carries p i w" and "i < length (p_sizes p)" and "length (p_sizes p) < 2 ^ 64"
    and "length (l_states s) = length (p_sizes p)"
  shows "examine p w t s = listen (Classify i (sat_sub t (l_times s ! i))) s"
proof -
  obtain sent where e: "packet_encode (unat (p_sizes p ! i)) \<lparr>h_run_id = p_run_id p, h_sequence = of_nat i, h_sent_ns = sent\<rparr> = Inr w"
    using assms(1) by (auto simp: carries_def)
  let ?h = "\<lparr>h_run_id = p_run_id p, h_sequence = of_nat i, h_sent_ns = sent\<rparr> :: header"
  have n: "32 \<le> unat (p_sizes p ! i)" and w: "w = header_bytes 0 ?h @ payload_bytes (unat (p_sizes p ! i) - 32) ?h"
    using e by (auto simp: packet_encode_layout split: if_splits)
  have l: "length w = unat (p_sizes p ! i)" using n w by simp
  have "validate_payload w ?h" using validate_payload_iff [of w ?h] n l w by simp
  moreover have "packet_decode w = Inr ?h" using w decode_header_bytes by simp
  moreover have "unat (of_nat i :: u64) = i" using assms(2,3) by (simp add: unat_of_nat)
  ultimately show ?thesis using assms(2,4) l by (simp add: examine_def Let_def)
qed

section \<open>The packets on the wire\<close>

fun in_hand :: "sender_at \<Rightarrow> (nat \<times> bytes) option" where
  "in_hand (Publish i k) = Some (i, k)"
| "in_hand (Count_Out i k) = Some (i, k)"
| "in_hand (Send_Packet i k) = Some (i, k)"
| "in_hand _ = None"

text \<open>The packet whose state is published and whose send is not decided.\<close>

fun sending :: "sender_at \<Rightarrow> nat option" where
  "sending (Count_Out i k) = Some i"
| "sending (Send_Packet i k) = Some i"
| "sending (Withdraw i) = Some i"
| "sending _ = None"

fun classifying :: "receiver_at \<Rightarrow> nat option" where
  "classifying (Classify i t) = Some i"
| "classifying _ = None"

abbreviation answerable :: "u8 \<Rightarrow> bool" where
  "answerable x \<equiv> x = 1 \<or> x = 2 \<or> x = 3"

definition wire_inv :: "load_plan \<Rightarrow> load_state \<Rightarrow> bool" where
  "wire_inv p s \<longleftrightarrow>
    (\<forall>w \<in> set (l_wire s). \<exists>i < handled (l_sender s). carries p i w \<and> answerable (l_states s ! i)) \<and>
    (\<forall>i k. in_hand (l_sender s) = Some (i, k) \<longrightarrow> carries p i k) \<and>
    (\<forall>i. sending (l_sender s) = Some i \<longrightarrow> l_states s ! i = 1) \<and>
    (\<forall>i. classifying (r_at s) = Some i \<longrightarrow> i < handled (l_sender s) \<and> answerable (l_states s ! i)) \<and>
    c_corrupt (r_counters s) = 0 \<and> c_foreign (r_counters s) = 0"

text \<open>Every packet sent is in flight, answered or expired, and the answered ones are the samples.\<close>

definition wire_counted :: "load_state \<Rightarrow> bool" where
  "wire_counted s \<longleftrightarrow>
    (\<forall>j. published (l_sender s) \<le> j \<and> j < length (l_states s) \<longrightarrow> l_states s ! j \<noteq> 2) \<and>
    tally answerable (l_states s) = length (l_wire s) + (if sending (l_sender s) = None then 0 else 1) \<and>
    tally (\<lambda>x. x = 2) (l_states s) = length (r_samples s) + receiver_due (r_at s)"

lemma tally_mono: "(\<And>x. q x \<Longrightarrow> r x) \<Longrightarrow> tally q xs \<le> tally r xs"
  by (induction xs) (auto simp: tally_def)

section \<open>Preservation\<close>

lemma wire_invD:
  assumes "wire_inv p s"
  shows "w \<in> set (l_wire s) \<Longrightarrow> \<exists>i < handled (l_sender s). carries p i w \<and> answerable (l_states s ! i)"
    "in_hand (l_sender s) = Some (i, k) \<Longrightarrow> carries p i k" "sending (l_sender s) = Some i \<Longrightarrow> l_states s ! i = 1"
    "classifying (r_at s) = Some i \<Longrightarrow> i < handled (l_sender s) \<and> answerable (l_states s ! i)"
    "c_corrupt (r_counters s) = 0" "c_foreign (r_counters s) = 0"
  using assms by (simp_all add: wire_inv_def)

text \<open>A step that keeps what can be answered and does not move back.\<close>

lemma wire_inv_keep:
  assumes "wire_inv p s" and "l_wire s' = l_wire s" and "handled (l_sender s) \<le> handled (l_sender s')"
    and "\<And>i. i < handled (l_sender s) \<Longrightarrow> answerable (l_states s ! i) \<Longrightarrow> answerable (l_states s' ! i)"
    and "\<And>i k. in_hand (l_sender s') = Some (i, k) \<Longrightarrow> carries p i k"
    and "\<And>i. sending (l_sender s') = Some i \<Longrightarrow> l_states s' ! i = 1"
    and "\<And>i. classifying (r_at s') = Some i \<Longrightarrow> i < handled (l_sender s) \<and> answerable (l_states s ! i)"
    and "c_corrupt (r_counters s') = 0" and "c_foreign (r_counters s') = 0"
  shows "wire_inv p s'"
  unfolding wire_inv_def
proof (intro conjI ballI allI impI)
  fix w assume "w \<in> set (l_wire s')"
  then obtain i where "i < handled (l_sender s)" "carries p i w" "answerable (l_states s ! i)"
    using wire_invD(1) [OF assms(1)] assms(2) by auto
  then show "\<exists>i < handled (l_sender s'). carries p i w \<and> answerable (l_states s' ! i)"
    using assms(3,4) by (meson order_less_le_trans)
next
  fix i assume "classifying (r_at s') = Some i"
  then show "i < handled (l_sender s')" "answerable (l_states s' ! i)"
    using assms(3,4,7) order_less_le_trans by blast+
qed (use assms in simp_all)

lemma sender_keeps_wire:
  assumes "load_wf p s" and "wire_inv p s"
  shows "wire_inv p (sender_step p e s)"
proof (cases "l_sender s")
  case (Exchange i t)
  then show ?thesis
    using wire_invD(4-6) [OF assms(2)] assms(1)
    by (intro wire_inv_keep [OF assms(2)])
       (auto simp: sender_step_def expire_exchange_def go_def load_wf_def nth_list_update
         split: if_splits)
next
  case (Stamp i)
  then show ?thesis
    using wire_invD(4-6) [OF assms(2)]
    by (intro wire_inv_keep [OF assms(2)])
       (auto simp: sender_step_def stamp_def go_def carries_def split: sum.splits)
next
  case (Publish i k)
  then show ?thesis
    using wire_invD(2,4-6) [OF assms(2)] assms(1)
    by (intro wire_inv_keep [OF assms(2)]) (auto simp: sender_step_def go_def load_wf_def)
next
  case (Send_Packet i k)
  show ?thesis
  proof (cases "sent_ok e")
    case True
    have "wire_inv p (sender_step p e s) \<longleftrightarrow> wire_inv p (go (Next (Suc i)) (s\<lparr>l_sent := l_sent s + 1, l_wire := l_wire s @ [k]\<rparr>))"
      using True Send_Packet by (simp add: sender_step_def)
    also have "\<dots>"
      using wire_invD [OF assms(2)] Send_Packet
      by (fastforce simp: wire_inv_def go_def less_Suc_eq)
    finally show ?thesis .
  next
    case False
    then show ?thesis
      using wire_invD(3-6) [OF assms(2)] Send_Packet
      by (intro wire_inv_keep [OF assms(2)]) (auto simp: sender_step_def go_def)
  qed
next
  case (Withdraw i)
  then show ?thesis
    using wire_invD(4-6) [OF assms(2)]
    by (intro wire_inv_keep [OF assms(2)])
       (auto simp: sender_step_def withdraw_def count_failure_def go_def nth_list_update split: if_splits)
qed (use wire_invD(2-6) [OF assms(2)] in \<open>intro wire_inv_keep [OF assms(2)];
       auto simp: sender_step_def expire_look_def expire_release_def count_failure_def go_def split: if_splits\<close>)+

lemma receiver_keeps_wire:
  assumes "load_wf p s" and "wire_inv p s" and "honest_event s ev" and n: "length (p_sizes p) < 2 ^ 64"
  shows "wire_inv p (receiver_step p ev s)"
proof (cases "r_at s")
  case Listening
  show ?thesis
  proof (cases ev)
    case (Datagram packet t)
    then have "packet \<in> set (l_wire s)" using assms(3) by (auto simp: echo_of_packet)
    then obtain i where i: "i < handled (l_sender s)" "carries p i packet" "answerable (l_states s ! i)"
      using wire_invD(1) [OF assms(2)] by blast
    have "i < length (p_sizes p)" "length (l_states s) = length (p_sizes p)"
      using i(1) handled_begun [of "l_sender s"] assms(1) by (simp_all add: load_wf_def)
    then have "receiver_step p ev s = listen (Classify i (sat_sub t (l_times s ! i))) s"
      using carries_recognised [OF i(2) _ n] Listening Datagram by (simp add: receiver_step_def)
    then show ?thesis
      using i wire_invD(2,3,5,6) [OF assms(2)] by (intro wire_inv_keep [OF assms(2)]) (auto simp: listen_def)
  qed (use Listening wire_invD(2,3,5,6) [OF assms(2)] in
      \<open>intro wire_inv_keep [OF assms(2)]; auto simp: receiver_step_def listen_def\<close>)+
next
  case (Classify i t)
  have "i < handled (l_sender s)" "answerable (l_states s ! i)"
    using wire_invD(4) [OF assms(2)] Classify by simp_all
  moreover have "sending (l_sender s) \<noteq> Some i"
    using calculation(1) by (cases "l_sender s") auto
  moreover have "i < length (l_states s)" using assms(1) Classify by (simp add: load_wf_def)
  ultimately show ?thesis
    using Classify wire_invD(2,3,5,6) [OF assms(2)]
    by (intro wire_inv_keep [OF assms(2)]) (auto simp: receiver_defs Let_def nth_list_update)
next
  case (Release i t)
  then show ?thesis
    using wire_invD(2,3,5,6) [OF assms(2)]
    by (intro wire_inv_keep [OF assms(2)]) (auto simp: receiver_step_def release_def accept_def Let_def)
qed (use assms in \<open>simp_all add: receiver_step_def\<close>)

lemma wire_counted_keep:
  assumes "wire_counted s" and "published (l_sender s) \<le> published (l_sender s')"
    and "l_states s' = l_states s" and "length (l_wire s') + of_bool (sending (l_sender s') \<noteq> None) =
      length (l_wire s) + of_bool (sending (l_sender s) \<noteq> None)"
    and "length (r_samples s') + receiver_due (r_at s') = length (r_samples s) + receiver_due (r_at s)"
  shows "wire_counted s'"
  using assms by (auto simp: wire_counted_def split: if_splits)

lemma sender_keeps_wire_counted:
  assumes "load_wf p s" and "wire_inv p s" and "wire_counted s"
  shows "wire_counted (sender_step p e s)"
proof (cases "l_sender s")
  case (Exchange i t)
  have c: "l_cursor s < length (l_states s)" using assms(1) Exchange by (simp add: load_wf_def)
  show ?thesis
    using assms(1,3) Exchange c tally_same [OF c, of answerable 3] tally_same [OF c, of "\<lambda>x. x = 2" 3]
    by (auto simp: load_wf_def wire_counted_def sender_step_def expire_exchange_def go_def nth_list_update split: if_splits)
next
  case (Publish i k)
  then have i: "i < length (l_states s)" and z: "l_states s ! i \<noteq> 1 \<and> l_states s ! i \<noteq> 3 \<and> l_states s ! i \<noteq> 2"
    using assms(1,3) by (auto simp: load_wf_def wire_counted_def)
  show ?thesis
    using assms(3) Publish z tally_in [OF i, of answerable 1] tally_same [OF i, of "\<lambda>x. x = 2" 1]
    by (auto simp: wire_counted_def sender_step_def go_def nth_list_update)
next
  case (Send_Packet i k)
  then show ?thesis
    by (intro wire_counted_keep [OF assms(3)]) (auto simp: sender_step_def go_def)
next
  case (Withdraw i)
  then have i: "i < length (l_states s)" and one: "l_states s ! i = 1"
    using assms(1) wire_invD(3) [OF assms(2)] by (simp_all add: load_wf_def)
  show ?thesis
    using assms(3) Withdraw one tally_out [OF i, of answerable 4] tally_same [OF i, of "\<lambda>x. x = 2" 4]
    by (auto simp: wire_counted_def sender_step_def withdraw_def count_failure_def go_def nth_list_update)
qed (intro wire_counted_keep [OF assms(3)];
     auto simp: sender_step_def expire_look_def expire_release_def stamp_def count_failure_def go_def split: sum.split)+

lemma receiver_keeps_wire_counted:
  assumes "load_wf p s" and "wire_inv p s" and "wire_counted s"
  shows "wire_counted (receiver_step p ev s)"
proof (cases "r_at s")
  case Listening
  then show ?thesis
    by (intro wire_counted_keep [OF assms(3)]; cases ev) (auto simp: receiver_defs Let_def split: sum.split)
next
  case (Classify i t)
  then have i: "i < length (l_states s)" using assms(1) by (simp add: load_wf_def)
  have h: "i < handled (l_sender s)" "answerable (l_states s ! i)"
    using wire_invD(4) [OF assms(2)] Classify by simp_all
  then have "i < published (l_sender s)" using handled_begun(1) order_less_le_trans by blast
  moreover have "tally answerable ((l_states s)[i := 2]) = tally answerable (l_states s)"
    using tally_same [OF i, of answerable 2] h by simp
  moreover have "tally (\<lambda>x. x = 2) ((l_states s)[i := 2]) =
      tally (\<lambda>x. x = 2) (l_states s) + of_bool (l_states s ! i \<noteq> 2)"
    using tally_same [OF i, of "\<lambda>x. x = 2" 2] tally_in [OF i, of "\<lambda>x. x = 2" 2] by simp
  ultimately show ?thesis
    using assms(3) Classify h by (auto simp: wire_counted_def receiver_defs Let_def nth_list_update)
next
  case (Release i t)
  then show ?thesis
    by (intro wire_counted_keep [OF assms(3)]) (auto simp: receiver_step_def release_def accept_def Let_def)
qed (use assms in \<open>simp_all add: receiver_step_def\<close>)

lemma honest_run_inv:
  assumes "honest_run p s" and "length (p_sizes p) < 2 ^ 64"
  shows "wire_inv p s \<and> wire_counted s"
  using assms(1)
proof (induction rule: honest_run.induct)
  case (honest_begin s)
  then show ?case
    by (auto simp: load_start_def wire_inv_def wire_counted_def no_counters_def tally_def split: if_splits)
next
  case (honest_send s e)
  then have "load_wf p s" using honest_load_run load_run_wf by blast
  then show ?case using honest_send sender_keeps_wire sender_keeps_wire_counted by blast
next
  case (honest_receive s ev)
  then have "load_wf p s" using honest_load_run load_run_wf by blast
  then show ?case using honest_receive receiver_keeps_wire receiver_keeps_wire_counted assms(2) by blast
qed

section \<open>Properties\<close>

text \<open>C23: against the echo server, over a network that may lose, repeat, delay and reorder the
  datagrams, a load run that has ended counted nothing as corrupt or foreign, and its
  valid replies and missing packets are exactly the packets sent.\<close>
theorem echo_server_answers_are_accounted:
  assumes "honest_run p s" and "length (p_sizes p) < 2 ^ 64" and "load_counters p s = Some c"
  shows "c_corrupt c = 0 \<and> c_foreign c = 0 \<and>
    unat (c_valid_replies c) + unat (c_missing c) = unat (c_sent c) \<and> unat (c_sent c) = length (l_wire s)"
proof -
  obtain i where i: "l_sender s = Sender_Done i" "r_at s = Receiver_Done"
    and c: "c = (r_counters s)\<lparr>c_planned := of_nat (length (p_sizes p)), c_sent := l_sent s,
      c_send_errors := l_errors s, c_missing := sat_sub (l_sent s) (c_valid_replies (r_counters s))\<rparr>"
    using assms(3) by (auto simp: load_counters_def Let_def split: sender_at.splits receiver_at.splits)
  have w: "wire_inv p s" "wire_counted s" using honest_run_inv [OF assms(1,2)] by simp_all
  have k: "sends_counted s" "replies_counted s"
    using load_run_counted [OF honest_load_run [OF assms(1)]] assms(2) by simp_all
  have "tally (\<lambda>x. x = 2) (l_states s) \<le> tally answerable (l_states s)" by (rule tally_mono) simp
  then have "unat (c_valid_replies (r_counters s)) \<le> unat (l_sent s)"
    using w(2) k i by (simp add: wire_counted_def sends_counted_def replies_counted_def)
  then show ?thesis
    using w(1) k(1) by (simp add: c wire_inv_def sends_counted_def unat_sat_sub)
qed

lemma honest_sends: "honest_run p s \<Longrightarrow> honest_run p ((sender_step p e ^^ k) s)"
  by (induction k) (simp_all add: honest_send)

lemma one_answered_honest: "honest_run two_packets one_answered"
proof -
  let ?s = "sender_step two_packets (answers True 200) one_sent"
  have "honest_run two_packets one_start"
    by (rule honest_begin) (simp add: load_start_def two_packets_def one_start_def)
  then have s: "honest_run two_packets ?s" using honest_sends one_send honest_send by metis
  have e: "honest_event ?s (Datagram first_packet 150)"
    by (simp add: echo_of_packet sender_step_def go_def one_sent_def two_packets_def answers_def)
  show ?thesis
    unfolding one_answered_steps [symmetric] by (intro honest_receive s e) simp_all
qed

theorem echo_server_answers_are_accounted_witness:
  "load_counters two_packets one_answered = Some (no_counters\<lparr>c_planned := 2, c_sent := 1, c_valid_replies := 1\<rparr>) \<and>
    echo_of (replicate 1500 7) first_packet = Some first_packet \<and> length (l_wire one_answered) = 1"
  using echo_server_answers_are_accounted [OF one_answered_honest _ one_answered_counters] one_answered_counters
  by (simp add: two_packets_def no_counters_def echo_of_packet)

end
