(* ===== verification/Network_Bringup.thy ===== *)
theory Network_Bringup
  imports Firmware_Rules
begin

text \<open>
  \<^verbatim>\<open>bringup/embassy_network.rs\<close>, the supervision of link and address, and
  \<^verbatim>\<open>Network::poll\<close> of \<^verbatim>\<open>bringup/w5500_offload.rs\<close>.  The events a task waits for, the DHCP client
  and the registers of the chip are the environment.
\<close>

section \<open>Supervision of the Embassy stack\<close>

datatype ip_config = Dhcp | Static "bytes \<times> u8" bytes

definition fallback_config :: ip_config where
  "fallback_config = Static (FALLBACK_ADDRESS, FALLBACK_PREFIX_LENGTH) FALLBACK_GATEWAY"

text \<open>Where the task waits: for a link, for an address, or for their loss.\<close>

datatype waiting = Wait_Link | Wait_Address | Wait_Loss

record supervisor =
  waiting_for :: waiting
  ready_led :: bool
  error_led :: bool
  requested :: ip_config

text \<open>The turn from the start of the loop to its first wait.\<close>

definition supervise_again :: "supervisor \<Rightarrow> supervisor" where
  "supervise_again s = s\<lparr>waiting_for := Wait_Link, ready_led := False, error_led := True\<rparr>"

definition supervise_start :: supervisor where
  "supervise_start = supervise_again \<lparr>waiting_for = Wait_Link, ready_led = False, error_led = True, requested = Dhcp\<rparr>"

datatype net_event = Link_Up | Address_Up | Dhcp_Timeout | Link_Down | Address_Down

definition serve_now :: "supervisor \<Rightarrow> supervisor" where
  "serve_now s = s\<lparr>waiting_for := Wait_Loss, ready_led := True, error_led := False\<rparr>"

text \<open>The events each wait ends with; other events leave the task waiting.\<close>

definition supervise_step :: "supervisor \<Rightarrow> net_event \<Rightarrow> supervisor" where
  "supervise_step s e =
    (case waiting_for s of
       Wait_Link \<Rightarrow> (if e = Link_Up then s\<lparr>waiting_for := Wait_Address\<rparr> else s)
     | Wait_Address \<Rightarrow>
         (case e of
            Address_Up \<Rightarrow> serve_now s
          | Dhcp_Timeout \<Rightarrow> serve_now (s\<lparr>requested := fallback_config\<rparr>)
          | Link_Down \<Rightarrow> supervise_again (s\<lparr>requested := Dhcp\<rparr>)
          | _ \<Rightarrow> s)
     | Wait_Loss \<Rightarrow>
         (if e = Link_Down \<or> e = Address_Down then supervise_again (s\<lparr>requested := Dhcp\<rparr>) else s))"

section \<open>The offload chip\<close>

datatype bringup_call = Bind_Echo | Unmask_Echo | Unmask_Receive | Mask_Echo | Close_Echo

record offload_network =
  echo_is_bound :: bool
  o_ready_led :: bool
  o_error_led :: bool

definition offload_network_poll :: "bool \<Rightarrow> offload_network \<Rightarrow> offload_network \<times> bringup_call list \<times> bool" where
  "offload_network_poll has_lease s =
    (let (s, calls) =
       (if has_lease \<and> \<not> echo_is_bound s then
          (\<lparr>echo_is_bound = True, o_ready_led = True, o_error_led = False\<rparr>, [Bind_Echo, Unmask_Echo, Unmask_Receive])
        else if \<not> has_lease \<and> echo_is_bound s then
          (\<lparr>echo_is_bound = False, o_ready_led = False, o_error_led = True\<rparr>, [Mask_Echo, Close_Echo])
        else (s, []))
     in (s, calls, echo_is_bound s))"

section \<open>Properties\<close>

definition supervised :: "supervisor \<Rightarrow> bool" where
  "supervised s \<longleftrightarrow> ready_led s = (waiting_for s = Wait_Loss) \<and> error_led s = (\<not> ready_led s) \<and>
    (waiting_for s \<noteq> Wait_Loss \<longrightarrow> requested s = Dhcp) \<and> (requested s = Dhcp \<or> requested s = fallback_config)"

lemma supervise_step_keeps: "supervised s \<Longrightarrow> supervised (supervise_step s e)"
  by (auto simp: supervised_def supervise_step_def serve_now_def supervise_again_def
      split: waiting.splits net_event.splits)

text \<open>In every run the ready LED is lit exactly while an address is supervised, the error LED exactly
  otherwise, and whenever the task waits for a link or an address the stack asks DHCP.\<close>
theorem supervision_shows_state:
  "supervised (foldl supervise_step supervise_start es)"
proof -
  have "supervised (foldl supervise_step s es)" if "supervised s" for s
    using that by (induction es arbitrary: s) (simp_all add: supervise_step_keeps)
  moreover have "supervised supervise_start" by (simp add: supervised_def supervise_start_def supervise_again_def)
  ultimately show ?thesis by blast
qed

text \<open>The fallback address is in use only after the last thing that ended a wait was a DHCP timeout.\<close>

lemma fallback_needs_timeout:
  "requested s = Dhcp \<Longrightarrow> requested (supervise_step s e) \<noteq> Dhcp \<Longrightarrow> e = Dhcp_Timeout \<and> waiting_for s = Wait_Address"
  by (auto simp: supervise_step_def serve_now_def supervise_again_def split: waiting.splits net_event.splits if_splits)

lemma offload_served_iff_lease: "snd (snd (offload_network_poll has_lease s)) = has_lease"
  by (simp add: offload_network_poll_def Let_def)

end
