(* ===== verification/Smoke_Publisher.thy ===== *)
theory Smoke_Publisher
  imports Messaging_Server
begin

text \<open>
  The publication task of the bench image \<^verbatim>\<open>Rust/src/bin/native_rmii_multicast_smoke.rs\<close>: one
  iteration, after its timer.  Its two instances share three atomic counters and run on
  one executor, so that an iteration is not interrupted.
\<close>

record smoke_counters =
  sm_send_errors :: u32
  sm_skipped :: u32
  sm_active :: u8

definition smoke_add :: "u32 \<Rightarrow> u64 \<Rightarrow> u32" where
  "smoke_add counter amount = sat_add counter (ucast (min amount 0xFFFFFFFF))"

definition smoke_skip :: "u64 \<Rightarrow> smoke_counters \<Rightarrow> smoke_counters" where
  "smoke_skip amount c = c\<lparr>sm_skipped := smoke_add (sm_skipped c) amount\<rparr>"

definition error_bit :: "i32 \<Rightarrow> u8" where
  "error_bit k = push_bit (nat (sint (k - 21))) 1"

definition smoke_failing :: "i32 \<Rightarrow> smoke_counters \<Rightarrow> smoke_counters" where
  "smoke_failing k c = c\<lparr>sm_active := sm_active c OR error_bit k\<rparr>"

definition smoke_recovered :: "i32 \<Rightarrow> smoke_counters \<Rightarrow> smoke_counters" where
  "smoke_recovered k c = c\<lparr>sm_active := sm_active c AND NOT (error_bit k)\<rparr>"

definition smoke_message :: "bytes \<Rightarrow> i32 \<Rightarrow> u32 \<Rightarrow> u64 \<Rightarrow> smoke_counters \<Rightarrow> envelope" where
  "smoke_message boot k sq now c =
    (let m = envelope_default\<lparr>protocol_version := Some 1, kind := Some k, device_id := Some DEVICE_ID,
           boot_id := Some boot, sequence := Some sq, uptime_ms := Some (ucast now)\<rparr>
     in if k = 21 then
          m\<lparr>status_body := Some \<lparr>temperature_celsius = Some f32_25_5, validity = Some 1, synthetic = Some True\<rparr>\<rparr>
        else
          m\<lparr>health_body := Some \<lparr>health_state = Some (if sm_active c = 0 then 1 else 2), received_requests = Some 0,
            rejected_datagrams = Some 0, send_errors = Some (sm_send_errors c),
            skipped_publications = Some (sm_skipped c)\<rparr>\<rparr>)"

text \<open>The environment: the clock, whether the network is up, and whether the socket takes the datagram.\<close>

record smoke_event =
  sm_now :: u64
  sm_up :: bool
  sm_taken :: bool

definition smoke_due ::
  "'w message_lib \<Rightarrow> bytes \<Rightarrow> i32 \<Rightarrow> due \<Rightarrow> smoke_event \<Rightarrow> smoke_counters \<Rightarrow> smoke_counters \<times> bytes option" where
  "smoke_due crates boot k d e c =
    (let c = smoke_skip (due_skipped d) c;
         c = (if due_skipped d \<noteq> 0 then smoke_failing k c else c)
     in if \<not> sm_up e then (smoke_failing k (smoke_skip 1 c), None)
        else case Codec.encode crates Protobuf (smoke_message boot k (due_sequence d) (sm_now e) c) MAX_BODY of
          Inl _ \<Rightarrow> (smoke_failing k (smoke_skip 1 c), None)
        | Inr datagram \<Rightarrow>
            if sm_taken e then
              (if due_skipped d = 0 then smoke_recovered k c else smoke_failing k c, Some datagram)
            else
              (smoke_failing k (smoke_skip 1 (c\<lparr>sm_send_errors := smoke_add (sm_send_errors c) 1\<rparr>)), None))"

definition smoke_publish ::
  "'w message_lib \<Rightarrow> bytes \<Rightarrow> i32 \<Rightarrow> smoke_event \<Rightarrow> schedule \<times> smoke_counters \<Rightarrow>
    (schedule \<times> smoke_counters) \<times> bytes option" where
  "smoke_publish crates boot k e = (\<lambda>(s, c).
    case take_due s (sm_now e) of
      (s, None) \<Rightarrow> ((s, c), None)
    | (s, Some d) \<Rightarrow> (case smoke_due crates boot k d e c of (c, r) \<Rightarrow> ((s, c), r)))"

section \<open>What an iteration does\<close>

lemma unat_smoke_add: "unat (smoke_add n amount) = min (unat n + unat amount) 4294967295"
proof -
  have "unat (ucast (min amount 0xFFFFFFFF) :: u32) = min (unat amount) 4294967295"
    by (simp add: unat_ucast_64_32 min_def word_le_unat)
  then show ?thesis by (simp add: smoke_add_def unat_sat_add)
qed

lemma smoke_skipped_simps [simp]:
  "unat (sm_skipped (smoke_skip n c)) = min (unat (sm_skipped c) + unat n) 4294967295"
  "sm_skipped (smoke_failing k c) = sm_skipped c" "sm_skipped (smoke_recovered k c) = sm_skipped c"
  by (simp_all add: smoke_skip_def smoke_failing_def smoke_recovered_def unat_smoke_add)

text \<open>The messages are the publications of the messaging server, with the counters that this image has.\<close>

lemma smoke_message_publication:
  assumes "k = 21 \<or> k = 22"
  shows "smoke_message boot k sq now c = to_envelope f (Publication DEVICE_ID boot (ucast now) sq
    (if k = 21 then Status_Report (Measured f32_25_5)
     else Health_Report (sm_active c \<noteq> 0) 0 0 (sm_send_errors c) (sm_skipped c)))"
  using assms by (auto simp: smoke_message_def to_envelope.simps envelope_default_def)

text \<open>An iteration publishes the newest due slot or counts it as skipped, beside the slots passed
  over, and its error bit is clear afterwards exactly if a slot was published on time.\<close>
theorem smoke_publisher_accounts:
  assumes "schedule_wf s" and "unat (sm_now e) + unat (period_ms s) < 2 ^ 64"
    and "smoke_publish crates boot k e (s, c) = ((s', c'), r)" and "k = 21 \<or> k = 22"
  shows "\<exists>n. unat (next_ms s') = unat (next_ms s) + n * unat (period_ms s) \<and>
    (unat (sm_skipped c) + n < 2 ^ 32 \<longrightarrow>
      unat (sm_skipped c') + (if r = None then 0 else 1) = unat (sm_skipped c) + n) \<and>
    (0 < n \<longrightarrow> (sm_active c' AND error_bit k = 0 \<longleftrightarrow> n = 1 \<and> r \<noteq> None))"
proof -
  have bit: "error_bit k = 1 \<or> error_bit k = 2" using assms(4) by (auto simp: error_bit_def)
  have set: "(x OR error_bit k) AND error_bit k \<noteq> 0" "(x AND NOT (error_bit k)) AND error_bit k = 0" for x
    using bit by (auto simp: ac_simps bit.conj_disj_distrib)
  obtain s1 d where sd: "take_due s (sm_now e) = (s1, d)" by fastforce
  then have pair: "take_due_pair s (sm_now e) = (s1, map_option due_pair d)" by (simp add: take_due_pair_def)
  note cases = sched.poll_cases [OF assms(1,2) pair]
  show ?thesis
  proof (cases d)
    case None
    then show ?thesis
      using cases sd assms(3) by (intro exI [of _ 0]) (auto simp: smoke_publish_def)
  next
    case (Some due)
    have n: "unat (next_slot_ms s1) = unat (next_slot_ms s) + Suc (unat (due_skipped due)) * unat (period_ms s)"
      using cases Some by (auto simp: due_pair_def)
    have run: "smoke_due crates boot k due e c = (c', r)" "s' = s1"
      using assms(3) sd Some by (auto simp: smoke_publish_def split: prod.splits)
    have zero: "due_skipped due = 0 \<longleftrightarrow> unat (due_skipped due) = 0" by (simp add: unat_eq_0)
    have "(unat (sm_skipped c) + Suc (unat (due_skipped due)) < 4294967296 \<longrightarrow>
        unat (sm_skipped c') + (if r = None then 0 else 1) = unat (sm_skipped c) + Suc (unat (due_skipped due))) \<and>
      (sm_active c' AND error_bit k = 0 \<longleftrightarrow> unat (due_skipped due) = 0 \<and> r \<noteq> None)"
      using run(1) zero set
      by (auto simp: smoke_due_def Let_def smoke_failing_def smoke_recovered_def smoke_skip_def unat_smoke_add
          split: sum.splits if_splits)
    then show ?thesis
      using n run(2) by (intro exI [of _ "Suc (unat (due_skipped due))"]) (simp add: next_ms_def)
  qed
qed

end
