(* ===== verification/Pb_Wire.thy ===== *)
theory Pb_Wire
  imports Bytes_Text
begin

text \<open>
  The wire layer under the generated Protobuf code (\<^verbatim>\<open>generated/protobuf.rs\<close> and
  \<^verbatim>\<open>generated/benchmark_protobuf.rs\<close>): what those files use of the \<^verbatim>\<open>micropb\<close> crate, as the
  fields of a record, the loop over the fields of a message, which every generated decoder
  has, and the optional fields of an encoder.  \<open>micropb_laws\<close> is the documented behaviour of
  the crate; a decoder is given by the bytes it has still to read.
\<close>

section \<open>The crate\<close>

datatype wire_error = Zero_Field | Crate_Error

text \<open>A reader takes a value from the front of the input.  The readers of records and of whole
  buffers are given the generated decoder of the message, which may run forever, and call it
  with the number of bytes it is to read; \<open>'s\<close> is the message they fill in.\<close>

type_synonym 'a reader = "bytes \<Rightarrow> wire_error + 'a \<times> bytes"
type_synonym 'a filler = "nat \<Rightarrow> bytes \<Rightarrow> (wire_error + 'a \<times> bytes) option"

record 's micropb =
  varint32 :: "u32 \<Rightarrow> bytes"
  int32_bytes :: "i32 \<Rightarrow> bytes"
  bool_bytes :: "bool \<Rightarrow> bytes"
  float_bytes :: "u32 \<Rightarrow> bytes"
  string_bytes :: "bytes \<Rightarrow> bytes"
  write_record :: "nat \<Rightarrow> nat \<Rightarrow> (bytes \<Rightarrow> bytes option) \<Rightarrow> bytes \<Rightarrow> bytes option"
  sizeof_varint32 :: "u32 \<Rightarrow> nat"
  sizeof_int32 :: "i32 \<Rightarrow> nat"
  sizeof_len_record :: "nat \<Rightarrow> nat"
  read_tag :: "(u32 \<times> u8) reader"
  read_varint32 :: "u32 reader"
  read_int32 :: "i32 reader"
  read_boolean :: "bool reader"
  read_float :: "u32 reader"
  read_string :: "nat \<Rightarrow> bytes \<Rightarrow> bytes reader"
  read_record :: "'s filler \<Rightarrow> bytes \<Rightarrow> (wire_error + 's \<times> bytes) option"
  skip_value :: "u8 \<Rightarrow> bytes \<Rightarrow> wire_error + bytes"
  read_all :: "'s filler \<Rightarrow> bytes \<Rightarrow> (wire_error + 's) option"

section \<open>Writing\<close>

text \<open>The encoder writes to a \<^verbatim>\<open>heapless::Vec\<close> of some capacity, which refuses what does not
  fit.\<close>

definition emit :: "nat \<Rightarrow> bytes \<Rightarrow> bytes \<Rightarrow> bytes option" where
  "emit cap bs w = (if length w + length bs \<le> cap then Some (w @ bs) else None)"

primrec writes :: "(bytes \<Rightarrow> bytes option) list \<Rightarrow> bytes \<Rightarrow> bytes option" where
  "writes [] w = Some w"
| "writes (f # fs) w = Option.bind (f w) (writes fs)"

text \<open>A field that is present is written as its tag and its value.\<close>

definition put_field :: "'s micropb \<Rightarrow> nat \<Rightarrow> u32 \<Rightarrow> ('a \<Rightarrow> bytes) \<Rightarrow> 'a option \<Rightarrow> bytes \<Rightarrow> bytes option" where
  "put_field pb cap tag f v =
    (case v of None \<Rightarrow> Some | Some x \<Rightarrow> writes [emit cap (varint32 pb tag), emit cap (f x)])"

text \<open>A nested message is written as its tag and a record of its computed size.\<close>

definition put_record :: "'s micropb \<Rightarrow> nat \<Rightarrow> u32 \<Rightarrow> nat \<Rightarrow> (bytes \<Rightarrow> bytes option) \<Rightarrow> bytes \<Rightarrow> bytes option" where
  "put_record pb cap tag n f = writes [emit cap (varint32 pb tag), write_record pb cap n f]"

definition field_size :: "nat \<Rightarrow> ('a \<Rightarrow> nat) \<Rightarrow> 'a option \<Rightarrow> nat" where
  "field_size n f v = (case v of None \<Rightarrow> 0 | Some x \<Rightarrow> n + f x)"

text \<open>What the fields look like on the wire.\<close>

definition field_wire :: "'s micropb \<Rightarrow> u32 \<Rightarrow> ('a \<Rightarrow> bytes) \<Rightarrow> 'a option \<Rightarrow> bytes" where
  "field_wire pb tag f v = (case v of None \<Rightarrow> [] | Some x \<Rightarrow> varint32 pb tag @ f x)"

definition record_wire :: "'s micropb \<Rightarrow> bytes \<Rightarrow> bytes" where
  "record_wire pb bs = varint32 pb (of_nat (length bs)) @ bs"

section \<open>Reading\<close>

definition store :: "('a \<Rightarrow> 'm) \<Rightarrow> wire_error + 'a \<times> bytes \<Rightarrow> (wire_error + 'm \<times> bytes) option" where
  "store f r = Some (case r of Inl e \<Rightarrow> Inl e | Inr (v, rest) \<Rightarrow> Inr (f v, rest))"

definition skip_field :: "'s micropb \<Rightarrow> u8 \<Rightarrow> 'm \<Rightarrow> bytes \<Rightarrow> (wire_error + 'm \<times> bytes) option" where
  "skip_field pb wire m bs =
    Some (case skip_value pb wire bs of Inl e \<Rightarrow> Inl e | Inr rest \<Rightarrow> Inr (m, rest))"

text \<open>A nested message is read into the variant \<open>v\<close> of the message; \<open>f\<close> puts it back.\<close>

definition nested :: "('b \<Rightarrow> 's) \<Rightarrow> (nat \<Rightarrow> 'b \<Rightarrow> bytes \<Rightarrow> (wire_error + 'b \<times> bytes) option) \<Rightarrow> 'b \<Rightarrow> 's filler" where
  "nested f dec v len bs =
    map_option (\<lambda>r. case r of Inl e \<Rightarrow> Inl e | Inr (x, rest) \<Rightarrow> Inr (f x, rest)) (dec len v bs)"

type_synonym 'm field_reader = "u32 \<Rightarrow> u8 \<Rightarrow> 'm \<Rightarrow> bytes \<Rightarrow> (wire_error + 'm \<times> bytes) option"

text \<open>The loop of every generated decoder: while fewer than \<open>len\<close> bytes were read since the
  decoder stood at \<open>start\<close>, read a tag and let the message read the field.\<close>

partial_function (option) read_fields_loop ::
  "'s micropb \<Rightarrow> 'm field_reader \<Rightarrow> nat \<Rightarrow> bytes \<Rightarrow> 'm \<Rightarrow> bytes \<Rightarrow> (wire_error + 'm \<times> bytes) option" where
  "read_fields_loop pb field len start m bs =
    (if length start - length bs < len then
       (case read_tag pb bs of
          Inl e \<Rightarrow> Some (Inl e)
        | Inr ((num, wire), rest) \<Rightarrow>
            if num = 0 then Some (Inl Zero_Field)
            else Option.bind (field num wire m rest) (\<lambda>r.
              case r of
                Inl e \<Rightarrow> Some (Inl e)
              | Inr (m', rest') \<Rightarrow> read_fields_loop pb field len start m' rest'))
     else Some (Inr (m, bs)))"

definition read_message ::
  "'s micropb \<Rightarrow> 'm field_reader \<Rightarrow> nat \<Rightarrow> 'm \<Rightarrow> bytes \<Rightarrow> (wire_error + 'm \<times> bytes) option" where
  "read_message pb field len m bs = read_fields_loop pb field len bs m bs"

section \<open>The documented behaviour of the crate\<close>

definition shorter :: "bytes \<Rightarrow> wire_error + 'a \<times> bytes \<Rightarrow> bool" where
  "shorter bs r \<longleftrightarrow> (\<forall>v rest. r = Inr (v, rest) \<longrightarrow> length rest \<le> length bs)"

definition writer_laws :: "'s micropb \<Rightarrow> bool" where
  "writer_laws pb \<longleftrightarrow>
    (\<forall>v. length (varint32 pb v) = sizeof_varint32 pb v \<and> 0 < sizeof_varint32 pb v \<and> sizeof_varint32 pb v \<le> 5 \<and>
       (v < 128 \<longrightarrow> sizeof_varint32 pb v = 1) \<and> (v < 16384 \<longrightarrow> sizeof_varint32 pb v \<le> 2) \<and>
       (128 \<le> v \<longrightarrow> 2 \<le> sizeof_varint32 pb v)) \<and>
    (\<forall>v. length (int32_bytes pb v) = sizeof_int32 pb v \<and> sizeof_int32 pb v \<le> 10) \<and>
    (\<forall>b. length (bool_bytes pb b) = 1) \<and> (\<forall>v. length (float_bytes pb v) = 4) \<and>
    (\<forall>s. length s < 2 ^ 32 \<longrightarrow> string_bytes pb s = record_wire pb s) \<and>
    (\<forall>cap n f w. n < 2 ^ 32 \<longrightarrow>
       write_record pb cap n f w = Option.bind (emit cap (varint32 pb (of_nat n)) w) f) \<and>
    (\<forall>n. n < 2 ^ 32 \<longrightarrow> sizeof_len_record pb n = sizeof_varint32 pb (of_nat n) + n)"

text \<open>A variable-length integer of 64 bits: up to nine bytes that announce another one, and a last
  byte, of which only one bit is left after nine.\<close>

definition varint_bytes :: "bytes \<Rightarrow> bool" where
  "varint_bytes bs \<longleftrightarrow> bs \<noteq> [] \<and> length bs \<le> 10 \<and> list_all (\<lambda>b. 128 \<le> b) (butlast bs) \<and>
    last bs < (if length bs = 10 then 2 else 128)"

definition reader_laws :: "'s micropb \<Rightarrow> bool" where
  "reader_laws pb \<longleftrightarrow>
    (\<forall>t rest. t div 8 \<noteq> 0 \<and> t mod 8 \<in> {0, 1, 2, 5} \<longrightarrow>
       read_tag pb (varint32 pb t @ rest) = Inr ((t div 8, ucast (t mod 8)), rest)) \<and>
    (\<forall>v rest. read_varint32 pb (varint32 pb v @ rest) = Inr (v, rest)) \<and>
    (\<forall>v rest. read_int32 pb (int32_bytes pb v @ rest) = Inr (v, rest)) \<and>
    (\<forall>v rest. read_boolean pb (bool_bytes pb v @ rest) = Inr (v, rest)) \<and>
    (\<forall>v rest. read_float pb (float_bytes pb v @ rest) = Inr (v, rest)) \<and>
    (\<forall>n s rest. length s \<le> n \<and> n < 2 ^ 32 \<and> utf8_valid s \<longrightarrow>
       read_string pb n [] (string_bytes pb s @ rest) = Inr (s, rest)) \<and>
    (\<forall>v rest. skip_value pb 0 (varint32 pb v @ rest) = Inr rest) \<and>
    (\<forall>v rest. skip_value pb 0 (int32_bytes pb v @ rest) = Inr rest) \<and>
    (\<forall>body rest. length body < 2 ^ 32 \<longrightarrow> skip_value pb 2 (record_wire pb body @ rest) = Inr rest) \<and>
    (\<forall>body rest. length body = 4 \<longrightarrow> skip_value pb 5 (body @ rest) = Inr rest) \<and>
    (\<forall>f body rest m. length body < 2 ^ 32 \<and> f (length body) (body @ rest) = Some (Inr (m, rest)) \<longrightarrow>
       read_record pb f (record_wire pb body @ rest) = Some (Inr (m, rest))) \<and>
    (\<forall>f bs m. f (length bs) bs = Some (Inr (m, [])) \<longrightarrow> read_all pb f bs = Some (Inr m)) \<and>
    (\<forall>bs rest. varint_bytes bs \<longrightarrow> skip_value pb 0 (bs @ rest) = Inr rest) \<and>
    (\<forall>body rest. length body = 8 \<longrightarrow> skip_value pb 1 (body @ rest) = Inr rest)"

text \<open>Readers never give input back, a tag takes at least a byte, and the readers of records and
  buffers return whenever the decoder they call returns.\<close>

definition progress_laws :: "'s micropb \<Rightarrow> bool" where
  "progress_laws pb \<longleftrightarrow>
    (\<forall>bs v rest. read_tag pb bs = Inr (v, rest) \<longrightarrow> length rest < length bs) \<and>
    (\<forall>bs. shorter bs (read_varint32 pb bs)) \<and> (\<forall>bs. shorter bs (read_int32 pb bs)) \<and>
    (\<forall>bs. shorter bs (read_boolean pb bs)) \<and> (\<forall>bs. shorter bs (read_float pb bs)) \<and>
    (\<forall>n s bs. shorter bs (read_string pb n s bs)) \<and>
    (\<forall>wire bs rest. skip_value pb wire bs = Inr rest \<longrightarrow> length rest \<le> length bs) \<and>
    (\<forall>f bs. (\<forall>n bs'. length bs' \<le> length bs \<longrightarrow> (\<exists>r. f n bs' = Some r \<and> shorter bs' r)) \<longrightarrow>
       (\<exists>r. read_record pb f bs = Some r \<and> shorter bs r)) \<and>
    (\<forall>f bs. (\<forall>n bs'. length bs' \<le> length bs \<longrightarrow> f n bs' \<noteq> None) \<longrightarrow> read_all pb f bs \<noteq> None)"

definition micropb_laws :: "'s micropb \<Rightarrow> bool" where
  "micropb_laws pb \<longleftrightarrow> writer_laws pb \<and> reader_laws pb \<and> progress_laws pb"

lemma law_writers:
  assumes "micropb_laws pb"
  shows "length (varint32 pb v) = sizeof_varint32 pb v" "0 < sizeof_varint32 pb v"
    "sizeof_varint32 pb v \<le> 5" "v < 128 \<Longrightarrow> sizeof_varint32 pb v = 1"
    "v < 16384 \<Longrightarrow> sizeof_varint32 pb v \<le> 2" "128 \<le> v \<Longrightarrow> 2 \<le> sizeof_varint32 pb v"
    "length (int32_bytes pb i) = sizeof_int32 pb i" "sizeof_int32 pb i \<le> 10"
    "length (bool_bytes pb b) = 1" "length (float_bytes pb v) = 4"
    "length s < 2 ^ 32 \<Longrightarrow> string_bytes pb s = record_wire pb s"
    "n < 2 ^ 32 \<Longrightarrow> write_record pb cap n f w = Option.bind (emit cap (varint32 pb (of_nat n)) w) f"
    "n < 2 ^ 32 \<Longrightarrow> sizeof_len_record pb n = sizeof_varint32 pb (of_nat n) + n"
  using assms by (simp_all add: micropb_laws_def writer_laws_def)

lemma law_readers:
  assumes "micropb_laws pb"
  shows "t div 8 \<noteq> 0 \<Longrightarrow> t mod 8 \<in> {0, 1, 2, 5} \<Longrightarrow>
      read_tag pb (varint32 pb t @ rest) = Inr ((t div 8, ucast (t mod 8)), rest)"
    "read_varint32 pb (varint32 pb v @ rest) = Inr (v, rest)"
    "read_int32 pb (int32_bytes pb i @ rest) = Inr (i, rest)"
    "read_boolean pb (bool_bytes pb b @ rest) = Inr (b, rest)"
    "read_float pb (float_bytes pb v @ rest) = Inr (v, rest)"
    "length s \<le> n \<Longrightarrow> n < 2 ^ 32 \<Longrightarrow> utf8_valid s \<Longrightarrow>
      read_string pb n [] (string_bytes pb s @ rest) = Inr (s, rest)"
    "skip_value pb 0 (varint32 pb v @ rest) = Inr rest"
    "skip_value pb 0 (int32_bytes pb i @ rest) = Inr rest"
    "length body < 2 ^ 32 \<Longrightarrow> skip_value pb 2 (record_wire pb body @ rest) = Inr rest"
    "length body = 4 \<Longrightarrow> skip_value pb 5 (body @ rest) = Inr rest"
    "length body < 2 ^ 32 \<Longrightarrow> f (length body) (body @ rest) = Some (Inr (m, rest)) \<Longrightarrow>
      read_record pb f (record_wire pb body @ rest) = Some (Inr (m, rest))"
    "f (length bs) bs = Some (Inr (m, [])) \<Longrightarrow> read_all pb f bs = Some (Inr m)"
    "varint_bytes bs \<Longrightarrow> skip_value pb 0 (bs @ rest) = Inr rest"
    "length body = 8 \<Longrightarrow> skip_value pb 1 (body @ rest) = Inr rest"
  using assms by (simp_all add: micropb_laws_def reader_laws_def)

lemma law_progress:
  assumes "micropb_laws pb"
  shows "read_tag pb bs = Inr (v, rest) \<Longrightarrow> length rest < length bs"
    "shorter bs (read_varint32 pb bs)" "shorter bs (read_int32 pb bs)" "shorter bs (read_boolean pb bs)"
    "shorter bs (read_float pb bs)" "shorter bs (read_string pb n s bs)"
    "skip_value pb wire bs = Inr rest \<Longrightarrow> length rest \<le> length bs"
    "(\<And>n bs'. length bs' \<le> length bs \<Longrightarrow> \<exists>r. f n bs' = Some r \<and> shorter bs' r) \<Longrightarrow>
      \<exists>r. read_record pb f bs = Some r \<and> shorter bs r"
    "(\<And>n bs'. length bs' \<le> length bs \<Longrightarrow> f n bs' \<noteq> None) \<Longrightarrow> read_all pb f bs \<noteq> None"
  using assms unfolding micropb_laws_def progress_laws_def by (elim conjE; metis)+

section \<open>Writers and what they write\<close>

named_theorems wire_writes "what an encoder appends to its buffer"

definition writes_wire :: "nat \<Rightarrow> (bytes \<Rightarrow> bytes option) \<Rightarrow> bytes \<Rightarrow> bool" where
  "writes_wire cap f bs \<longleftrightarrow> (\<forall>w. length w \<le> cap \<longrightarrow> f w = emit cap bs w)"

lemma writes_wire_emit [wire_writes]: "writes_wire cap (emit cap bs) bs"
  by (simp add: writes_wire_def)

lemma writes_wire_Nil [wire_writes]: "writes_wire cap (writes []) []"
  by (simp add: writes_wire_def emit_def)

lemma writes_wire_bind:
  "writes_wire cap f a \<Longrightarrow> writes_wire cap g b \<Longrightarrow> writes_wire cap (\<lambda>w. Option.bind (f w) g) (a @ b)"
  by (auto simp: writes_wire_def emit_def)

lemma writes_wire_one [wire_writes]: "writes_wire cap f a \<Longrightarrow> writes_wire cap (writes [f]) a"
  by (auto simp: writes_wire_def emit_def)

lemma writes_wire_more [wire_writes]:
  assumes "writes_wire cap f a" and "writes_wire cap (writes (g # fs)) b"
  shows "writes_wire cap (writes (f # g # fs)) (a @ b)"
  using writes_wire_bind [OF assms] by (simp add: writes_wire_def)

lemma writes_wire_field [wire_writes]:
  "writes_wire cap (put_field pb cap tag f v) (field_wire pb tag f v)"
  by (cases v) (auto simp: put_field_def field_wire_def writes_wire_def emit_def)

lemma writes_wire_record:
  assumes "micropb_laws pb" and "writes_wire cap f bs" and "length bs < 2 ^ 32"
  shows "writes_wire cap (write_record pb cap (length bs) f) (record_wire pb bs)"
  using writes_wire_bind [OF writes_wire_emit assms(2)] law_writers(12) [OF assms(1,3)]
  by (simp add: writes_wire_def record_wire_def)

lemma length_field_wire:
  assumes "\<And>x. v = Some x \<Longrightarrow> length (f x) = s x" and "length (varint32 pb tag) = n"
  shows "length (field_wire pb tag f v) = field_size n s v"
  using assms by (cases v) (simp_all add: field_wire_def field_size_def)

lemma field_size_le: "(\<And>x. v = Some x \<Longrightarrow> s x \<le> k) \<Longrightarrow> field_size n s v \<le> k + n"
  by (cases v) (simp_all add: field_size_def)

lemma length_small_tag: "micropb_laws pb \<Longrightarrow> tag < 128 \<Longrightarrow> length (varint32 pb tag) = 1"
  by (simp add: law_writers)

lemma length_large_tag:
  assumes "micropb_laws pb" and "128 \<le> tag" and "tag < 16384"
  shows "length (varint32 pb tag) = 2"
  unfolding law_writers(1) [OF assms(1)]
  by (rule le_antisym [OF law_writers(5) [OF assms(1,3)] law_writers(6) [OF assms(1,2)]])

lemma length_record_wire:
  "micropb_laws pb \<Longrightarrow> length bs < 2 ^ 32 \<Longrightarrow> length (record_wire pb bs) = sizeof_len_record pb (length bs)"
  by (simp add: record_wire_def law_writers)

lemma length_string:
  assumes "micropb_laws pb" and "length s < 2 ^ 32"
  shows "length (string_bytes pb s) = sizeof_len_record pb (length s)"
  using length_record_wire [OF assms] law_writers(11) [OF assms] by simp

lemma string_size_le:
  assumes "micropb_laws pb" and "length s \<le> n" and "n < 128"
  shows "sizeof_len_record pb (length s) \<le> 1 + n"
proof -
  have "unat (of_nat (length s) :: u32) = length s"
    using assms(2,3) by (simp add: unat_of_nat take_bit_nat_eq_self)
  then have "(of_nat (length s) :: u32) < 128" using assms(2,3) by (simp add: word_less_nat_alt)
  then have "sizeof_varint32 pb (of_nat (length s)) = 1" by (rule law_writers(4) [OF assms(1)])
  moreover have "length s < 2 ^ 32" using assms(2,3) by simp
  ultimately show ?thesis using assms(2) by (simp add: law_writers(13) [OF assms(1)])
qed

lemma long_string_size_le:
  assumes "micropb_laws pb" and "length s \<le> n" and "n < 16384"
  shows "sizeof_len_record pb (length s) \<le> 2 + n"
proof -
  have "unat (of_nat (length s) :: u32) = length s"
    using assms(2,3) by (simp add: unat_of_nat take_bit_nat_eq_self)
  then have "(of_nat (length s) :: u32) < 16384" using assms(2,3) by (simp add: word_less_nat_alt)
  then have "sizeof_varint32 pb (of_nat (length s)) \<le> 2" by (rule law_writers(5) [OF assms(1)])
  moreover have "length s < 2 ^ 32" using assms(2,3) by simp
  ultimately show ?thesis using assms(2) by (simp add: law_writers(13) [OF assms(1)])
qed

section \<open>Reading back\<close>

definition fields_read :: "'s micropb \<Rightarrow> 'm field_reader \<Rightarrow> 'm \<Rightarrow> bytes \<Rightarrow> 'm \<Rightarrow> bool" where
  "fields_read pb field m bs m' \<longleftrightarrow> (\<forall>len start rest.
     length bs + length rest \<le> length start \<and> length start - length rest \<le> len \<longrightarrow>
     read_fields_loop pb field len start m (bs @ rest) = read_fields_loop pb field len start m' rest)"

lemma fields_read_Nil: "fields_read pb field m [] m"
  by (simp add: fields_read_def)

lemma fields_read_append:
  assumes "fields_read pb field m a m1" and "fields_read pb field m1 b m2"
  shows "fields_read pb field m (a @ b) m2"
  unfolding fields_read_def
proof (intro allI impI, elim conjE)
  fix len and start rest :: bytes
  assume "length (a @ b) + length rest \<le> length start" "length start - length rest \<le> len"
  then show "read_fields_loop pb field len start m ((a @ b) @ rest) = read_fields_loop pb field len start m2 rest"
    using assms(1) [unfolded fields_read_def, rule_format, of "b @ rest" start len]
      assms(2) [unfolded fields_read_def, rule_format, of rest start len] by simp
qed

lemma fields_read_one:
  assumes laws: "micropb_laws pb" and tag: "tag div 8 \<noteq> 0" "tag mod 8 \<in> {0, 1, 2, 5}"
    and field: "\<And>rest. field (tag div 8) (ucast (tag mod 8)) m (bs @ rest) = Some (Inr (m', rest))"
  shows "fields_read pb field m (varint32 pb tag @ bs) m'"
  unfolding fields_read_def
proof (intro allI impI, elim conjE)
  fix len and start rest :: bytes
  assume "length (varint32 pb tag @ bs) + length rest \<le> length start" "length start - length rest \<le> len"
  moreover have "0 < length (varint32 pb tag)" using laws by (simp add: law_writers)
  ultimately have "length start - length (varint32 pb tag @ bs @ rest) < len"
    unfolding length_append by arith
  then show "read_fields_loop pb field len start m ((varint32 pb tag @ bs) @ rest) =
      read_fields_loop pb field len start m' rest"
    using law_readers(1) [OF laws tag] tag(1) field
    by (subst read_fields_loop.simps) simp
qed

lemma fields_read_field:
  assumes "micropb_laws pb" and "tag div 8 \<noteq> 0" and "tag mod 8 \<in> {0, 1, 2, 5}"
    and "\<And>x rest. v = Some x \<Longrightarrow>
      field (tag div 8) (ucast (tag mod 8)) m (f x @ rest) = Some (Inr (m', rest))"
    and "v = None \<Longrightarrow> m' = m"
  shows "fields_read pb field m (field_wire pb tag f v) m'"
proof (cases v)
  case None
  then show ?thesis using assms(5) by (simp add: field_wire_def fields_read_Nil)
next
  case (Some x)
  have "fields_read pb field m (varint32 pb tag @ f x) m'"
    by (rule fields_read_one [OF assms(1-3)]) (rule assms(4) [OF Some])
  then show ?thesis using Some by (simp add: field_wire_def)
qed

lemma read_message_wire:
  assumes "fields_read pb field m bs m'"
  shows "read_message pb field (length bs) m (bs @ rest) = Some (Inr (m', rest))"
proof -
  have "read_fields_loop pb field (length bs) (bs @ rest) m (bs @ rest) =
      read_fields_loop pb field (length bs) (bs @ rest) m' rest"
    using assms by (simp add: fields_read_def)
  then show ?thesis by (simp add: read_message_def read_fields_loop.simps)
qed

lemma read_message_whole:
  "fields_read pb field m bs m' \<Longrightarrow> read_message pb field (length bs) m bs = Some (Inr (m', []))"
  using read_message_wire [of pb field m bs m' "[]"] by simp

section \<open>Unknown fields\<close>

text \<open>A message on the wire is a list of fields, each of which takes the decoder one step; other
  fields may stand before, between and after them.  The values that a field can have for its
  wire type are those of the Protobuf format: a variable-length integer, eight bytes, a length
  with as many bytes, or four bytes (groups, of wire types 3 and 4, are not among them).\<close>

inductive fields_chain :: "'s micropb \<Rightarrow> 'm field_reader \<Rightarrow> 'm \<Rightarrow> bytes list \<Rightarrow> 'm \<Rightarrow> bool"
  for pb field where
  chain_Nil: "fields_chain pb field m [] m"
| chain_Cons: "fields_read pb field m f m1 \<Longrightarrow> fields_chain pb field m1 fs m2 \<Longrightarrow>
    fields_chain pb field m (f # fs) m2"

inductive_cases chain_NilE: "fields_chain pb field m [] m'"
inductive_cases chain_ConsE: "fields_chain pb field m (f # fs) m'"

definition field_value :: "'s micropb \<Rightarrow> u32 \<Rightarrow> bytes \<Rightarrow> bool" where
  "field_value pb wire bs \<longleftrightarrow>
    wire = 0 \<and> (varint_bytes bs \<or> (\<exists>v. bs = varint32 pb v) \<or> (\<exists>v. bs = int32_bytes pb v)) \<or>
    wire = 1 \<and> length bs = 8 \<or>
    wire = 2 \<and> (\<exists>body. length body < 2 ^ 32 \<and> bs = record_wire pb body) \<or>
    wire = 5 \<and> length bs = 4"

definition unknown_field :: "'s micropb \<Rightarrow> (u32 \<Rightarrow> u32 \<Rightarrow> bool) \<Rightarrow> bytes \<Rightarrow> bool" where
  "unknown_field pb knows bs \<longleftrightarrow> (\<exists>tag v. tag div 8 \<noteq> 0 \<and> \<not> knows (tag div 8) (tag mod 8) \<and>
    field_value pb (tag mod 8) v \<and> bs = varint32 pb tag @ v)"

inductive mixed :: "'s micropb \<Rightarrow> (u32 \<Rightarrow> u32 \<Rightarrow> bool) \<Rightarrow> bytes list \<Rightarrow> bytes \<Rightarrow> bool"
  for pb knows where
  mixed_Nil: "mixed pb knows [] []"
| mixed_field: "mixed pb knows fs bs \<Longrightarrow> mixed pb knows (f # fs) (f @ bs)"
| mixed_unknown: "unknown_field pb knows u \<Longrightarrow> mixed pb knows fs bs \<Longrightarrow> mixed pb knows fs (u @ bs)"

definition record_mixed :: "'s micropb \<Rightarrow> u32 \<Rightarrow> (u32 \<Rightarrow> u32 \<Rightarrow> bool) \<Rightarrow> bytes list \<Rightarrow> bytes \<Rightarrow> bool" where
  "record_mixed pb tag knows fs bs \<longleftrightarrow> (\<exists>content. mixed pb knows fs content \<and> length content < 2 ^ 32 \<and>
    bs = varint32 pb tag @ record_wire pb content)"

lemma fields_chain_concat: "fields_chain pb field m fs m' \<Longrightarrow> fields_read pb field m (concat fs) m'"
  by (induction rule: fields_chain.induct) (simp_all add: fields_read_Nil fields_read_append)

lemma mixed_concat: "mixed pb knows fs (concat fs)"
  by (induction fs) (simp_all add: mixed.intros)

lemma field_value_wire:
  assumes "field_value pb wire bs"
  shows "wire \<in> {0, 1, 2, 5}" "(ucast wire :: u8) = 0 \<longleftrightarrow> wire = 0" "(ucast wire :: u8) = 2 \<longleftrightarrow> wire = 2"
    "(ucast wire :: u8) = 5 \<longleftrightarrow> wire = 5"
  using assms by (auto simp: field_value_def)

lemma skip_field_value:
  assumes "micropb_laws pb" and "field_value pb wire bs"
  shows "skip_field pb (ucast wire) m (bs @ rest) = Some (Inr (m, rest))"
proof -
  note law = law_readers(7-10,13,14) [OF assms(1)]
  have "skip_value pb (ucast wire) (bs @ rest) = Inr rest"
    using assms(2) law by (auto simp: field_value_def)
  then show ?thesis by (simp add: skip_field_def)
qed

lemma mixed_reads:
  assumes "micropb_laws pb"
    and skips: "\<And>num wire v m rest. \<not> knows num wire \<Longrightarrow> field_value pb wire v \<Longrightarrow>
      field num (ucast wire) m (v @ rest) = Some (Inr (m, rest))"
    and "mixed pb knows fs bs" and "fields_chain pb field m fs m'"
  shows "fields_read pb field m bs m'"
  using assms(3,4)
proof (induction arbitrary: m rule: mixed.induct)
  case mixed_Nil
  then show ?case by (auto simp: fields_read_Nil elim: chain_NilE)
next
  case (mixed_field fs bs f)
  then show ?case by (blast intro: fields_read_append elim: chain_ConsE)
next
  case (mixed_unknown u fs bs)
  obtain tag v where u: "tag div 8 \<noteq> 0" "\<not> knows (tag div 8) (tag mod 8)" "field_value pb (tag mod 8) v"
    "u = varint32 pb tag @ v"
    using mixed_unknown.hyps(1) by (auto simp: unknown_field_def)
  have "fields_read pb field m u m"
    unfolding u(4) by (rule fields_read_one [OF assms(1) u(1) field_value_wire(1) [OF u(3)]]) (rule skips [OF u(2,3)])
  then show ?case by (rule fields_read_append) (rule mixed_unknown.IH [OF mixed_unknown.prems])
qed

section \<open>Every decoder returns\<close>

definition field_returns :: "'m field_reader \<Rightarrow> bool" where
  "field_returns field \<longleftrightarrow> (\<forall>num wire m bs. \<exists>r. field num wire m bs = Some r \<and> shorter bs r)"

lemma shorter_simps [simp]:
  "shorter bs (Inl e)" "shorter bs (Inr (v, rest)) \<longleftrightarrow> length rest \<le> length bs"
  by (simp_all add: shorter_def)

lemma read_fields_loop_returns:
  assumes laws: "micropb_laws pb" and field: "field_returns field"
  shows "\<exists>r. read_fields_loop pb field len start m bs = Some r \<and> shorter bs r"
proof (induction bs arbitrary: m rule: length_induct)
  case (1 bs)
  show ?case
  proof (cases "length start - length bs < len")
    case True
    show ?thesis
    proof (cases "read_tag pb bs")
      case (Inr r)
      then obtain num wire rest where r: "r = ((num, wire), rest)" by (metis surj_pair)
      have rest: "length rest < length bs" using law_progress(1) [OF laws] Inr r by simp
      obtain r' where r': "field num wire m rest = Some r'" "shorter rest r'"
        using field unfolding field_returns_def by meson
      show ?thesis
      proof (cases "num = 0")
        case False
        show ?thesis
        proof (cases r')
          case (Inl e)
          then show ?thesis using True Inr r r' False by (subst read_fields_loop.simps) simp
        next
          case Some: (Inr p)
          obtain m' rest' where p: "p = (m', rest')" by (cases p)
          then have "length rest' < length bs" using rest r' Some by simp
          then obtain r2 where "read_fields_loop pb field len start m' rest' = Some r2" "shorter rest' r2"
            using 1 by blast
          moreover have "shorter bs r2"
            using \<open>shorter rest' r2\<close> \<open>length rest' < length bs\<close> by (auto simp: shorter_def)
          ultimately show ?thesis
            using True Inr r r' False Some p by (subst read_fields_loop.simps) simp
        qed
      qed (use True Inr r in \<open>subst read_fields_loop.simps, simp\<close>)
    qed (use True in \<open>subst read_fields_loop.simps, simp\<close>)
  qed (subst read_fields_loop.simps, simp)
qed

lemma read_message_returns:
  "micropb_laws pb \<Longrightarrow> field_returns field \<Longrightarrow> \<exists>r. read_message pb field len m bs = Some r \<and> shorter bs r"
  by (simp add: read_message_def read_fields_loop_returns)

lemma store_returns: "shorter bs r \<Longrightarrow> \<exists>r'. store f r = Some r' \<and> shorter bs r'"
  by (cases r) (auto simp: store_def)

lemma skip_field_returns: "micropb_laws pb \<Longrightarrow> \<exists>r. skip_field pb wire m bs = Some r \<and> shorter bs r"
  using law_progress(7) [of pb wire bs]
  by (cases "skip_value pb wire bs") (auto simp: skip_field_def)

lemma nested_returns:
  assumes laws: "micropb_laws pb" and dec: "\<And>n v bs. \<exists>r. dec n v bs = Some r \<and> shorter bs r"
  shows "\<exists>r. read_record pb (nested f dec v) bs = Some r \<and> shorter bs r"
proof (rule law_progress(8) [OF laws])
  fix n bs'
  obtain r where "dec n v bs' = Some r" "shorter bs' r" using dec by blast
  then show "\<exists>r. nested f dec v n bs' = Some r \<and> shorter bs' r"
    by (cases r) (auto simp: nested_def)
qed

section \<open>A message\<close>

text \<open>What every generated message provides: it encodes to its wire form, computes its size,
  stays within its largest size, and reads its wire form back into a default message.\<close>

locale wire_message =
  fixes encode :: "'s micropb \<Rightarrow> nat \<Rightarrow> 'm \<Rightarrow> bytes \<Rightarrow> bytes option"
    and compute_size :: "'s micropb \<Rightarrow> 'm \<Rightarrow> nat"
    and max_size :: "'s micropb \<Rightarrow> nat"
    and field :: "'s micropb \<Rightarrow> 'm field_reader"
    and wire :: "'s micropb \<Rightarrow> 'm \<Rightarrow> bytes"
    and start :: 'm
    and typed :: "'m \<Rightarrow> bool"
  assumes encodes: "micropb_laws pb \<Longrightarrow> typed m \<Longrightarrow> writes_wire cap (encode pb cap m) (wire pb m)"
    and sized: "micropb_laws pb \<Longrightarrow> typed m \<Longrightarrow> compute_size pb m = length (wire pb m)"
    and bounded: "micropb_laws pb \<Longrightarrow> typed m \<Longrightarrow> compute_size pb m \<le> max_size pb"
    and small: "micropb_laws pb \<Longrightarrow> max_size pb < 16384"
    and reads: "micropb_laws pb \<Longrightarrow> typed m \<Longrightarrow> fields_read pb (field pb) start (wire pb m) m"
    and returns: "micropb_laws pb \<Longrightarrow> field_returns (field pb)"
begin

lemma length_wire: "micropb_laws pb \<Longrightarrow> typed m \<Longrightarrow> length (wire pb m) < 16384"
  using sized bounded small by (metis le_less_trans)

lemma encode_exact:
  assumes "micropb_laws pb" and "typed m"
  shows "encode pb cap m [] = (if compute_size pb m \<le> cap then Some (wire pb m) else None)"
  using encodes [OF assms] sized [OF assms] by (simp add: writes_wire_def emit_def)

lemma read_back:
  assumes "micropb_laws pb" and "typed m"
  shows "read_message pb (field pb) (length (wire pb m)) start (wire pb m @ rest) = Some (Inr (m, rest))"
  by (rule read_message_wire [OF reads [OF assms]])

lemma record_writes:
  assumes "micropb_laws pb" and "typed m"
  shows "writes_wire cap (write_record pb cap (compute_size pb m) (encode pb cap m)) (record_wire pb (wire pb m))"
  using writes_wire_record [OF assms(1) encodes [OF assms]] length_wire [OF assms] sized [OF assms] by simp

lemma record_length:
  assumes "micropb_laws pb" and "typed m"
  shows "length (record_wire pb (wire pb m)) = sizeof_len_record pb (compute_size pb m)"
  using length_record_wire [OF assms(1)] length_wire [OF assms] sized [OF assms] by simp

lemma record_bounded:
  assumes "micropb_laws pb" and "typed m"
  shows "sizeof_len_record pb (compute_size pb m) \<le> sizeof_len_record pb (max_size pb)"
proof -
  note b = bounded [OF assms] small [OF assms(1)]
  have unat: "unat (of_nat n :: u32) = n" if "n < 16384" for n
    using that by (simp add: unat_of_nat take_bit_nat_eq_self)
  have "sizeof_varint32 pb (of_nat (compute_size pb m)) \<le> sizeof_varint32 pb (of_nat (max_size pb))"
    using b unat [of "compute_size pb m"] unat [of "max_size pb"]
      law_writers(4,5) [OF assms(1), of "of_nat (compute_size pb m)"]
      law_writers(4,6) [OF assms(1), of "of_nat (max_size pb)"]
    by (cases "compute_size pb m < 128"; cases "max_size pb < 128")
      (auto simp: word_less_nat_alt word_le_nat_alt)
  then show ?thesis
    using b by (simp add: law_writers(13) [OF assms(1)])
qed

lemma record_reads:
  assumes "micropb_laws pb" and "typed m"
  shows "read_record pb (nested f (read_message pb (field pb)) start) (record_wire pb (wire pb m) @ rest) =
    Some (Inr (f m, rest))"
  using read_back [OF assms] length_wire [OF assms]
  by (intro law_readers(11) [OF assms(1)]) (simp_all add: nested_def)

lemma message_returns: "micropb_laws pb \<Longrightarrow> \<exists>r. read_message pb (field pb) len m bs = Some r \<and> shorter bs r"
  by (intro read_message_returns returns)

lemma record_returns:
  "micropb_laws pb \<Longrightarrow> \<exists>r. read_record pb (nested f (read_message pb (field pb)) v) bs = Some r \<and> shorter bs r"
  by (intro nested_returns message_returns)

end

text \<open>A message that skips the fields it does not know.\<close>

locale skipping_message = wire_message encode compute_size max_size field wire start typed
  for encode :: "'s micropb \<Rightarrow> nat \<Rightarrow> 'm \<Rightarrow> bytes \<Rightarrow> bytes option" and compute_size max_size
    and field :: "'s micropb \<Rightarrow> 'm field_reader" and wire start typed +
  fixes parts :: "'s micropb \<Rightarrow> 'm \<Rightarrow> bytes list"
    and knows :: "u32 \<Rightarrow> u32 \<Rightarrow> bool"
  assumes chained: "micropb_laws pb \<Longrightarrow> typed m \<Longrightarrow> fields_chain pb (field pb) start (parts pb m) m"
    and skips: "micropb_laws pb \<Longrightarrow> \<not> knows num w \<Longrightarrow> field_value pb w v \<Longrightarrow>
      field pb num (ucast w) x (v @ rest) = Some (Inr (x, rest))"
begin

lemma mixed_record_reads:
  assumes laws: "micropb_laws pb" and "typed m" and "mixed pb knows (parts pb m) content"
    and "length content < 2 ^ 32"
  shows "read_record pb (nested f (read_message pb (field pb)) start) (record_wire pb content @ rest) =
    Some (Inr (f m, rest))"
proof -
  have "fields_read pb (field pb) start content m"
    by (rule mixed_reads [OF laws skips [OF laws] assms(3) chained [OF laws assms(2)]])
  from read_message_wire [OF this, of rest] show ?thesis
    using assms(4) by (intro law_readers(11) [OF laws]) (simp_all add: nested_def)
qed

end

text \<open>The message that a buffer holds, with \<^verbatim>\<open>decode_from_bytes\<close>.\<close>

locale root_message = wire_message encode compute_size max_size field wire start typed
  for encode :: "'m micropb \<Rightarrow> nat \<Rightarrow> 'm \<Rightarrow> bytes \<Rightarrow> bytes option" and compute_size max_size field wire start typed
begin

lemma read_back_all:
  assumes "micropb_laws pb" and "typed m"
  shows "read_all pb (\<lambda>len. read_message pb (field pb) len start) (wire pb m) = Some (Inr m)"
  using read_back [OF assms, of "[]"] by (intro law_readers(12) [OF assms(1)]) simp

lemma all_returns: "micropb_laws pb \<Longrightarrow> read_all pb (\<lambda>len. read_message pb (field pb) len start) bs \<noteq> None"
  using message_returns by (intro law_progress(9)) (auto, metis option.distinct(1))

end

end
