(* ===== verification/Pb_Messages.thy ===== *)
theory Pb_Messages
  imports Message_Model Pb_Wire
begin

text \<open>
  \<^verbatim>\<open>Rust/messaging/src/generated/protobuf.rs\<close>: the encoders, sizes and decoders of the
  Protobuf messages, over the wire layer of \<open>Pb_Wire\<close>.  The structures are those of
  \<open>Message_Model\<close>; each message here has its encoder, its computed size, its largest size,
  the reader of its fields and, as the specification, its form on the wire.
\<close>

section \<open>Types\<close>

definition text_fits :: "nat \<Rightarrow> bytes option \<Rightarrow> bool" where
  "text_fits n s \<longleftrightarrow> (case s of None \<Rightarrow> True | Some b \<Rightarrow> length b \<le> n \<and> utf8_valid b)"

definition or_empty :: "bytes option \<Rightarrow> bytes" where
  "or_empty s = (case s of None \<Rightarrow> [] | Some b \<Rightarrow> b)"

lemma text_fits_simps [simp]: "text_fits n None" "text_fits n (Some b) \<longleftrightarrow> length b \<le> n \<and> utf8_valid b"
  by (simp_all add: text_fits_def)

lemma or_empty_simps [simp]: "or_empty None = []" "or_empty (Some b) = b"
  by (simp_all add: or_empty_def)

definition pb_device_info_default :: pb_device_info where
  "pb_device_info_default = \<lparr>pb_firmware_version = None, pb_encoding = None\<rparr>"

definition pb_status_default :: pb_status where
  "pb_status_default = \<lparr>pb_temperature_celsius = None, pb_validity = None, pb_synthetic = None\<rparr>"

definition pb_health_default :: pb_health where
  "pb_health_default = \<lparr>pb_state = None, pb_received_requests = None, pb_rejected_datagrams = None,
    pb_send_errors = None, pb_skipped_publications = None\<rparr>"

definition pb_error_default :: pb_error where
  "pb_error_default = \<lparr>pb_code = None\<rparr>"

section \<open>Encoders\<close>

definition empty_encode :: "'s micropb \<Rightarrow> nat \<Rightarrow> empty \<Rightarrow> bytes \<Rightarrow> bytes option" where
  "empty_encode pb cap m = writes []"

definition device_info_encode :: "'s micropb \<Rightarrow> nat \<Rightarrow> pb_device_info \<Rightarrow> bytes \<Rightarrow> bytes option" where
  "device_info_encode pb cap m = writes
    [put_field pb cap 10 (string_bytes pb) (pb_firmware_version m),
     put_field pb cap 16 (\<lambda>e. int32_bytes pb (encoding_val e)) (pb_encoding m)]"

definition status_encode :: "'s micropb \<Rightarrow> nat \<Rightarrow> pb_status \<Rightarrow> bytes \<Rightarrow> bytes option" where
  "status_encode pb cap m = writes
    [put_field pb cap 13 (float_bytes pb) (pb_temperature_celsius m),
     put_field pb cap 16 (\<lambda>v. int32_bytes pb (validity_val v)) (pb_validity m),
     put_field pb cap 24 (bool_bytes pb) (pb_synthetic m)]"

definition health_encode :: "'s micropb \<Rightarrow> nat \<Rightarrow> pb_health \<Rightarrow> bytes \<Rightarrow> bytes option" where
  "health_encode pb cap m = writes
    [put_field pb cap 8 (\<lambda>h. int32_bytes pb (health_state_val h)) (pb_state m),
     put_field pb cap 16 (varint32 pb) (pb_received_requests m),
     put_field pb cap 24 (varint32 pb) (pb_rejected_datagrams m),
     put_field pb cap 32 (varint32 pb) (pb_send_errors m),
     put_field pb cap 40 (varint32 pb) (pb_skipped_publications m)]"

definition error_encode :: "'s micropb \<Rightarrow> nat \<Rightarrow> pb_error \<Rightarrow> bytes \<Rightarrow> bytes option" where
  "error_encode pb cap m = writes
    [put_field pb cap 8 (\<lambda>c. int32_bytes pb (error_code_val c)) (pb_code m)]"

section \<open>Sizes\<close>

definition empty_size :: "'s micropb \<Rightarrow> empty \<Rightarrow> nat" where
  "empty_size pb m = 0"

definition device_info_size :: "'s micropb \<Rightarrow> pb_device_info \<Rightarrow> nat" where
  "device_info_size pb m =
    field_size 1 (\<lambda>s. sizeof_len_record pb (length s)) (pb_firmware_version m) +
    field_size 1 (\<lambda>e. sizeof_int32 pb (encoding_val e)) (pb_encoding m)"

definition status_size :: "'s micropb \<Rightarrow> pb_status \<Rightarrow> nat" where
  "status_size pb m =
    field_size 1 (\<lambda>_. 4) (pb_temperature_celsius m) +
    field_size 1 (\<lambda>v. sizeof_int32 pb (validity_val v)) (pb_validity m) +
    field_size 1 (\<lambda>_. 1) (pb_synthetic m)"

definition health_size :: "'s micropb \<Rightarrow> pb_health \<Rightarrow> nat" where
  "health_size pb m =
    field_size 1 (\<lambda>h. sizeof_int32 pb (health_state_val h)) (pb_state m) +
    field_size 1 (sizeof_varint32 pb) (pb_received_requests m) +
    field_size 1 (sizeof_varint32 pb) (pb_rejected_datagrams m) +
    field_size 1 (sizeof_varint32 pb) (pb_send_errors m) +
    field_size 1 (sizeof_varint32 pb) (pb_skipped_publications m)"

definition error_size :: "'s micropb \<Rightarrow> pb_error \<Rightarrow> nat" where
  "error_size pb m = field_size 1 (\<lambda>c. sizeof_int32 pb (error_code_val c)) (pb_code m)"

text \<open>\<^verbatim>\<open>MAX_SIZE\<close> of each message; an enumeration takes at most \<^verbatim>\<open>_MAX_SIZE\<close> bytes.\<close>

definition ENUM_MAX_SIZE :: nat where "ENUM_MAX_SIZE = 10"
definition empty_max :: nat where "empty_max = 0"
definition device_info_max :: nat where "device_info_max = (33 + 1) + (ENUM_MAX_SIZE + 1)"
definition status_max :: nat where "status_max = (4 + 1) + (ENUM_MAX_SIZE + 1) + (1 + 1)"
definition health_max :: nat where
  "health_max = (ENUM_MAX_SIZE + 1) + (5 + 1) + (5 + 1) + (5 + 1) + (5 + 1)"
definition error_max :: nat where "error_max = ENUM_MAX_SIZE + 1"

section \<open>Decoders\<close>

text \<open>The arms of the match on the field number; a field of another wire type than its own falls
  through to the arm that skips unknown fields.\<close>

definition empty_field :: "'s micropb \<Rightarrow> empty field_reader" where
  "empty_field pb num wire m bs = skip_field pb wire m bs"

definition device_info_field :: "'s micropb \<Rightarrow> pb_device_info field_reader" where
  "device_info_field pb num wire m bs =
    (if num = 1 \<and> wire = 2 then
       store (\<lambda>s. m\<lparr>pb_firmware_version := Some s\<rparr>) (read_string pb 32 (or_empty (pb_firmware_version m)) bs)
     else if num = 2 \<and> wire = 0 then store (\<lambda>n. m\<lparr>pb_encoding := Some (Encoding n)\<rparr>) (read_int32 pb bs)
     else skip_field pb wire m bs)"

definition status_field :: "'s micropb \<Rightarrow> pb_status field_reader" where
  "status_field pb num wire m bs =
    (if num = 1 \<and> wire = 5 then store (\<lambda>t. m\<lparr>pb_temperature_celsius := Some t\<rparr>) (read_float pb bs)
     else if num = 2 \<and> wire = 0 then store (\<lambda>n. m\<lparr>pb_validity := Some (Validity n)\<rparr>) (read_int32 pb bs)
     else if num = 3 \<and> wire = 0 then store (\<lambda>b. m\<lparr>pb_synthetic := Some b\<rparr>) (read_boolean pb bs)
     else skip_field pb wire m bs)"

definition health_field :: "'s micropb \<Rightarrow> pb_health field_reader" where
  "health_field pb num wire m bs =
    (if num = 1 \<and> wire = 0 then store (\<lambda>n. m\<lparr>pb_state := Some (HealthState n)\<rparr>) (read_int32 pb bs)
     else if num = 2 \<and> wire = 0 then store (\<lambda>v. m\<lparr>pb_received_requests := Some v\<rparr>) (read_varint32 pb bs)
     else if num = 3 \<and> wire = 0 then store (\<lambda>v. m\<lparr>pb_rejected_datagrams := Some v\<rparr>) (read_varint32 pb bs)
     else if num = 4 \<and> wire = 0 then store (\<lambda>v. m\<lparr>pb_send_errors := Some v\<rparr>) (read_varint32 pb bs)
     else if num = 5 \<and> wire = 0 then store (\<lambda>v. m\<lparr>pb_skipped_publications := Some v\<rparr>) (read_varint32 pb bs)
     else skip_field pb wire m bs)"

definition error_field :: "'s micropb \<Rightarrow> pb_error field_reader" where
  "error_field pb num wire m bs =
    (if num = 1 \<and> wire = 0 then store (\<lambda>n. m\<lparr>pb_code := Some (ErrorCode n)\<rparr>) (read_int32 pb bs)
     else skip_field pb wire m bs)"

section \<open>The wire form\<close>

definition empty_wire :: "'s micropb \<Rightarrow> empty \<Rightarrow> bytes" where
  "empty_wire pb m = []"

definition device_info_wire :: "'s micropb \<Rightarrow> pb_device_info \<Rightarrow> bytes" where
  "device_info_wire pb m = field_wire pb 10 (string_bytes pb) (pb_firmware_version m) @
    field_wire pb 16 (\<lambda>e. int32_bytes pb (encoding_val e)) (pb_encoding m)"

definition status_wire :: "'s micropb \<Rightarrow> pb_status \<Rightarrow> bytes" where
  "status_wire pb m = field_wire pb 13 (float_bytes pb) (pb_temperature_celsius m) @
    field_wire pb 16 (\<lambda>v. int32_bytes pb (validity_val v)) (pb_validity m) @
    field_wire pb 24 (bool_bytes pb) (pb_synthetic m)"

definition health_wire :: "'s micropb \<Rightarrow> pb_health \<Rightarrow> bytes" where
  "health_wire pb m = field_wire pb 8 (\<lambda>h. int32_bytes pb (health_state_val h)) (pb_state m) @
    field_wire pb 16 (varint32 pb) (pb_received_requests m) @
    field_wire pb 24 (varint32 pb) (pb_rejected_datagrams m) @
    field_wire pb 32 (varint32 pb) (pb_send_errors m) @
    field_wire pb 40 (varint32 pb) (pb_skipped_publications m)"

definition error_wire :: "'s micropb \<Rightarrow> pb_error \<Rightarrow> bytes" where
  "error_wire pb m = field_wire pb 8 (\<lambda>c. int32_bytes pb (error_code_val c)) (pb_code m)"

text \<open>The fields on the wire one by one, and the numbers and wire types by which a message knows
  its fields.\<close>

definition device_info_parts :: "'s micropb \<Rightarrow> pb_device_info \<Rightarrow> bytes list" where
  "device_info_parts pb m = [field_wire pb 10 (string_bytes pb) (pb_firmware_version m),
    field_wire pb 16 (\<lambda>e. int32_bytes pb (encoding_val e)) (pb_encoding m)]"

definition status_parts :: "'s micropb \<Rightarrow> pb_status \<Rightarrow> bytes list" where
  "status_parts pb m = [field_wire pb 13 (float_bytes pb) (pb_temperature_celsius m),
    field_wire pb 16 (\<lambda>v. int32_bytes pb (validity_val v)) (pb_validity m),
    field_wire pb 24 (bool_bytes pb) (pb_synthetic m)]"

definition health_parts :: "'s micropb \<Rightarrow> pb_health \<Rightarrow> bytes list" where
  "health_parts pb m = [field_wire pb 8 (\<lambda>h. int32_bytes pb (health_state_val h)) (pb_state m),
    field_wire pb 16 (varint32 pb) (pb_received_requests m),
    field_wire pb 24 (varint32 pb) (pb_rejected_datagrams m),
    field_wire pb 32 (varint32 pb) (pb_send_errors m),
    field_wire pb 40 (varint32 pb) (pb_skipped_publications m)]"

definition error_parts :: "'s micropb \<Rightarrow> pb_error \<Rightarrow> bytes list" where
  "error_parts pb m = [field_wire pb 8 (\<lambda>c. int32_bytes pb (error_code_val c)) (pb_code m)]"

definition device_info_knows :: "u32 \<Rightarrow> u32 \<Rightarrow> bool" where
  "device_info_knows num wire \<longleftrightarrow> num = 1 \<and> wire = 2 \<or> num = 2 \<and> wire = 0"

definition status_knows :: "u32 \<Rightarrow> u32 \<Rightarrow> bool" where
  "status_knows num wire \<longleftrightarrow> num = 1 \<and> wire = 5 \<or> num \<in> {2, 3} \<and> wire = 0"

definition health_knows :: "u32 \<Rightarrow> u32 \<Rightarrow> bool" where
  "health_knows num wire \<longleftrightarrow> num \<in> {1, 2, 3, 4, 5} \<and> wire = 0"

definition error_knows :: "u32 \<Rightarrow> u32 \<Rightarrow> bool" where
  "error_knows num wire \<longleftrightarrow> num = 1 \<and> wire = 0"

section \<open>The bodies keep the contract of a message\<close>

lemma text_size:
  assumes "micropb_laws pb" and "text_fits n v" and "n < 2 ^ 32"
  shows "v = Some s \<Longrightarrow> length (string_bytes pb s) = sizeof_len_record pb (length s)"
  using assms by (intro length_string) simp_all

lemma text_bound:
  assumes "micropb_laws pb" and "text_fits n v" and "n < 128"
  shows "v = Some s \<Longrightarrow> sizeof_len_record pb (length s) \<le> 1 + n"
  using assms by (intro string_size_le) simp_all

lemma long_text_bound:
  assumes "micropb_laws pb" and "text_fits n v" and "n < 16384"
  shows "v = Some s \<Longrightarrow> sizeof_len_record pb (length s) \<le> 2 + n"
  using assms by (intro long_string_size_le) simp_all

lemma length_text_field:
  assumes "micropb_laws pb" and "tag < 128" and "text_fits n v" and "n < 2 ^ 32"
  shows "length (field_wire pb tag (string_bytes pb) v) = field_size 1 (\<lambda>s. sizeof_len_record pb (length s)) v"
  using text_size [OF assms(1,3,4)] assms(1,2) by (intro length_field_wire length_small_tag) auto

lemma length_number_field:
  assumes "micropb_laws pb" and "tag < 128"
  shows "length (field_wire pb tag (varint32 pb) v) = field_size 1 (sizeof_varint32 pb) v"
    "length (field_wire pb tag (\<lambda>e. int32_bytes pb (g e)) e) = field_size 1 (\<lambda>e. sizeof_int32 pb (g e)) e"
    "length (field_wire pb tag (bool_bytes pb) b) = field_size 1 (\<lambda>_. 1) b"
    "length (field_wire pb tag (float_bytes pb) t) = field_size 1 (\<lambda>_. 4) t"
  using assms by (simp_all add: length_field_wire length_small_tag law_writers(1,7,9,10))

definition device_info_typed :: "pb_device_info \<Rightarrow> bool" where
  "device_info_typed m \<longleftrightarrow> text_fits 32 (pb_firmware_version m)"

interpretation empty_message: skipping_message empty_encode empty_size "\<lambda>_. empty_max" empty_field
  empty_wire Empty "\<lambda>_. True" "\<lambda>_ _. []" "\<lambda>_ _. False"
proof (unfold_locales, goal_cases)
  case (5 pb m)
  then show ?case by (cases m) (simp add: empty_wire_def fields_read_Nil)
next
  case (7 pb m)
  then show ?case by (cases m) (simp add: chain_Nil)
next
  case 8
  then show ?case by (simp add: empty_field_def skip_field_value)
qed (auto simp: empty_encode_def empty_wire_def empty_size_def empty_max_def field_returns_def
    empty_field_def intro: wire_writes skip_field_returns)

lemma status_chain:
  assumes "micropb_laws pb"
  shows "fields_chain pb (status_field pb) pb_status_default (status_parts pb m) m"
proof -
  note read = fields_read_field [OF assms] law_readers [OF assms]
  let ?a = "pb_status_default\<lparr>pb_temperature_celsius := pb_temperature_celsius m\<rparr>"
  let ?b = "?a\<lparr>pb_validity := pb_validity m\<rparr>"
  have steps: "fields_read pb (status_field pb) pb_status_default (field_wire pb 13 (float_bytes pb) (pb_temperature_celsius m)) ?a"
    "fields_read pb (status_field pb) ?a
      (field_wire pb 16 (\<lambda>v. int32_bytes pb (validity_val v)) (pb_validity m)) ?b"
    "fields_read pb (status_field pb) ?b (field_wire pb 24 (bool_bytes pb) (pb_synthetic m)) m"
    by (rule read(1); simp add: status_field_def store_def read(2-) pb_status_default_def)+
  show ?thesis unfolding status_parts_def by (rule fields_chain.intros steps)+
qed

interpretation status_message: skipping_message status_encode status_size "\<lambda>_. status_max" status_field
  status_wire pb_status_default "\<lambda>_. True" status_parts status_knows
proof (unfold_locales, goal_cases)
  case (1 pb m cap)
  show ?case unfolding status_encode_def status_wire_def by (rule wire_writes)+
next
  case (2 pb m)
  then show ?case
    unfolding status_size_def status_wire_def length_append
    by (simp add: length_number_field)
next
  case (3 pb m)
  then show ?case
    unfolding status_size_def status_max_def ENUM_MAX_SIZE_def
    by (intro add_mono field_size_le) (simp_all add: law_writers)
next
  case 4
  show ?case by (simp add: status_max_def ENUM_MAX_SIZE_def)
next
  case (5 pb m)
  then show ?case using fields_chain_concat [OF status_chain [OF 5(1), of m]] by (simp add: status_parts_def status_wire_def)
next
  case (6 pb)
  then show ?case
    by (auto simp: field_returns_def status_field_def intro!: store_returns skip_field_returns law_progress)
next
  case 7
  then show ?case by (simp add: status_chain)
next
  case (8 pb num w v x rest)
  then show ?case
    by (auto simp: status_field_def status_knows_def field_value_wire(2-) [OF 8(3)] skip_field_value [OF 8(1,3)])
qed

lemma device_info_chain:
  assumes "micropb_laws pb" and "device_info_typed m"
  shows "fields_chain pb (device_info_field pb) pb_device_info_default (device_info_parts pb m) m"
proof -
  note read = fields_read_field [OF assms(1)] law_readers [OF assms(1)]
  let ?a = "pb_device_info_default\<lparr>pb_firmware_version := pb_firmware_version m\<rparr>"
  have "fields_read pb (device_info_field pb) pb_device_info_default (field_wire pb 10 (string_bytes pb) (pb_firmware_version m)) ?a"
    by (rule read(1)) (use assms(2) in \<open>simp_all add: device_info_field_def store_def read(2-)
      pb_device_info_default_def device_info_typed_def\<close>)
  moreover have "fields_read pb (device_info_field pb) ?a (field_wire pb 16 (\<lambda>e. int32_bytes pb (encoding_val e)) (pb_encoding m)) m"
    by (rule read(1)) (simp_all add: device_info_field_def store_def read(2-) pb_device_info_default_def)
  ultimately show ?thesis unfolding device_info_parts_def by (blast intro: chain_Nil chain_Cons)
qed

interpretation device_info_message: skipping_message device_info_encode device_info_size "\<lambda>_. device_info_max" device_info_field
  device_info_wire pb_device_info_default device_info_typed device_info_parts device_info_knows
proof (unfold_locales, goal_cases)
  case (1 pb m cap)
  show ?case unfolding device_info_encode_def device_info_wire_def by (rule wire_writes)+
next
  case (2 pb m)
  then show ?case
    by (simp add: device_info_size_def device_info_wire_def device_info_typed_def length_number_field
        length_text_field [OF 2(1)])
next
  case (3 pb m)
  then show ?case
    unfolding device_info_size_def device_info_max_def ENUM_MAX_SIZE_def
    using text_bound [OF 3(1), of 32 "pb_firmware_version m"]
    by (intro add_mono field_size_le) (simp_all add: law_writers(8) device_info_typed_def)
next
  case 4
  show ?case by (simp add: device_info_max_def ENUM_MAX_SIZE_def)
next
  case (5 pb m)
  then show ?case using fields_chain_concat [OF device_info_chain [OF 5]] by (simp add: device_info_parts_def device_info_wire_def)
next
  case (6 pb)
  then show ?case
    by (auto simp: field_returns_def device_info_field_def intro!: store_returns skip_field_returns law_progress)
next
  case 7
  then show ?case by (simp add: device_info_chain)
next
  case (8 pb num w v x rest)
  then show ?case
    by (auto simp: device_info_field_def device_info_knows_def field_value_wire(2-) [OF 8(3)] skip_field_value [OF 8(1,3)])
qed

lemma health_chain:
  assumes "micropb_laws pb"
  shows "fields_chain pb (health_field pb) pb_health_default (health_parts pb m) m"
proof -
  note read = fields_read_field [OF assms] law_readers [OF assms]
  let ?a = "pb_health_default\<lparr>pb_state := pb_state m\<rparr>"
  let ?b = "?a\<lparr>pb_received_requests := pb_received_requests m\<rparr>"
  let ?c = "?b\<lparr>pb_rejected_datagrams := pb_rejected_datagrams m\<rparr>"
  let ?d = "?c\<lparr>pb_send_errors := pb_send_errors m\<rparr>"
  have steps: "fields_read pb (health_field pb) pb_health_default (field_wire pb 8 (\<lambda>h. int32_bytes pb (health_state_val h)) (pb_state m)) ?a"
    "fields_read pb (health_field pb) ?a (field_wire pb 16 (varint32 pb) (pb_received_requests m)) ?b"
    "fields_read pb (health_field pb) ?b (field_wire pb 24 (varint32 pb) (pb_rejected_datagrams m)) ?c"
    "fields_read pb (health_field pb) ?c (field_wire pb 32 (varint32 pb) (pb_send_errors m)) ?d"
    "fields_read pb (health_field pb) ?d (field_wire pb 40 (varint32 pb) (pb_skipped_publications m)) m"
    by (rule read(1); simp add: health_field_def store_def read(2-) pb_health_default_def)+
  show ?thesis unfolding health_parts_def by (rule fields_chain.intros steps)+
qed

interpretation health_message: skipping_message health_encode health_size "\<lambda>_. health_max" health_field
  health_wire pb_health_default "\<lambda>_. True" health_parts health_knows
proof (unfold_locales, goal_cases)
  case (1 pb m cap)
  show ?case unfolding health_encode_def health_wire_def by (rule wire_writes)+
next
  case (2 pb m)
  then show ?case
    unfolding health_size_def health_wire_def length_append
    by (simp add: length_number_field)
next
  case (3 pb m)
  then show ?case
    unfolding health_size_def health_max_def ENUM_MAX_SIZE_def
    by (intro add_mono field_size_le) (simp_all add: law_writers)
next
  case 4
  show ?case by (simp add: health_max_def ENUM_MAX_SIZE_def)
next
  case (5 pb m)
  then show ?case using fields_chain_concat [OF health_chain [OF 5(1), of m]] by (simp add: health_parts_def health_wire_def)
next
  case (6 pb)
  then show ?case
    by (auto simp: field_returns_def health_field_def intro!: store_returns skip_field_returns law_progress)
next
  case 7
  then show ?case by (simp add: health_chain)
next
  case (8 pb num w v x rest)
  then show ?case
    by (auto simp: health_field_def health_knows_def field_value_wire(2-) [OF 8(3)] skip_field_value [OF 8(1,3)])
qed

lemma error_chain:
  assumes "micropb_laws pb"
  shows "fields_chain pb (error_field pb) pb_error_default (error_parts pb m) m"
proof -
  note read = fields_read_field [OF assms] law_readers [OF assms]
  have "fields_read pb (error_field pb) pb_error_default (field_wire pb 8 (\<lambda>c. int32_bytes pb (error_code_val c)) (pb_code m)) m"
    by (rule read(1)) (simp_all add: error_field_def store_def read(2-) pb_error_default_def)
  then show ?thesis unfolding error_parts_def by (blast intro: chain_Nil chain_Cons)
qed

interpretation error_message: skipping_message error_encode error_size "\<lambda>_. error_max" error_field
  error_wire pb_error_default "\<lambda>_. True" error_parts error_knows
proof (unfold_locales, goal_cases)
  case (1 pb m cap)
  show ?case unfolding error_encode_def error_wire_def by (rule wire_writes)+
next
  case (2 pb m)
  then show ?case
    unfolding error_size_def error_wire_def length_append
    by (simp add: length_number_field)
next
  case (3 pb m)
  then show ?case
    unfolding error_size_def error_max_def ENUM_MAX_SIZE_def
    by (intro add_mono field_size_le) (simp_all add: law_writers)
next
  case 4
  show ?case by (simp add: error_max_def ENUM_MAX_SIZE_def)
next
  case (5 pb m)
  then show ?case using fields_chain_concat [OF error_chain [OF 5(1), of m]] by (simp add: error_parts_def error_wire_def)
next
  case (6 pb)
  then show ?case
    by (auto simp: field_returns_def error_field_def intro!: store_returns skip_field_returns law_progress)
next
  case 7
  then show ?case by (simp add: error_chain)
next
  case (8 pb num w v x rest)
  then show ?case
    by (auto simp: error_field_def error_knows_def field_value_wire(2-) [OF 8(3)] skip_field_value [OF 8(1,3)])
qed

section \<open>The envelope\<close>

definition body_encode :: "'s micropb \<Rightarrow> nat \<Rightarrow> pb_body option \<Rightarrow> bytes \<Rightarrow> bytes option" where
  "body_encode pb cap b =
    (case b of
     None \<Rightarrow> Some
   | Some (PbGetDeviceInfo v) \<Rightarrow> put_record pb cap 162 (empty_size pb v) (empty_encode pb cap v)
   | Some (PbGetStatus v) \<Rightarrow> put_record pb cap 170 (empty_size pb v) (empty_encode pb cap v)
   | Some (PbGetHealth v) \<Rightarrow> put_record pb cap 178 (empty_size pb v) (empty_encode pb cap v)
   | Some (PbDeviceInfo v) \<Rightarrow> put_record pb cap 186 (device_info_size pb v) (device_info_encode pb cap v)
   | Some (PbStatus v) \<Rightarrow> put_record pb cap 194 (status_size pb v) (status_encode pb cap v)
   | Some (PbHealth v) \<Rightarrow> put_record pb cap 202 (health_size pb v) (health_encode pb cap v)
   | Some (PbError v) \<Rightarrow> put_record pb cap 210 (error_size pb v) (error_encode pb cap v))"

definition envelope_encode :: "'s micropb \<Rightarrow> nat \<Rightarrow> pb_envelope \<Rightarrow> bytes \<Rightarrow> bytes option" where
  "envelope_encode pb cap m = writes
    [put_field pb cap 8 (varint32 pb) (pb_protocol_version m),
     put_field pb cap 16 (\<lambda>k. int32_bytes pb (message_kind_val k)) (pb_kind m),
     put_field pb cap 26 (string_bytes pb) (pb_device_id m),
     put_field pb cap 34 (string_bytes pb) (pb_boot_id m),
     put_field pb cap 42 (string_bytes pb) (pb_client_session m),
     put_field pb cap 48 (varint32 pb) (pb_request_id m),
     put_field pb cap 56 (varint32 pb) (pb_sequence m),
     put_field pb cap 64 (varint32 pb) (pb_uptime_ms m),
     body_encode pb cap (pb_body m)]"

definition body_size :: "'s micropb \<Rightarrow> pb_body option \<Rightarrow> nat" where
  "body_size pb b =
    (case b of
     None \<Rightarrow> 0
   | Some (PbGetDeviceInfo v) \<Rightarrow> 2 + sizeof_len_record pb (empty_size pb v)
   | Some (PbGetStatus v) \<Rightarrow> 2 + sizeof_len_record pb (empty_size pb v)
   | Some (PbGetHealth v) \<Rightarrow> 2 + sizeof_len_record pb (empty_size pb v)
   | Some (PbDeviceInfo v) \<Rightarrow> 2 + sizeof_len_record pb (device_info_size pb v)
   | Some (PbStatus v) \<Rightarrow> 2 + sizeof_len_record pb (status_size pb v)
   | Some (PbHealth v) \<Rightarrow> 2 + sizeof_len_record pb (health_size pb v)
   | Some (PbError v) \<Rightarrow> 2 + sizeof_len_record pb (error_size pb v))"

definition envelope_size :: "'s micropb \<Rightarrow> pb_envelope \<Rightarrow> nat" where
  "envelope_size pb m =
    field_size 1 (sizeof_varint32 pb) (pb_protocol_version m) +
    field_size 1 (\<lambda>k. sizeof_int32 pb (message_kind_val k)) (pb_kind m) +
    field_size 1 (\<lambda>s. sizeof_len_record pb (length s)) (pb_device_id m) +
    field_size 1 (\<lambda>s. sizeof_len_record pb (length s)) (pb_boot_id m) +
    field_size 1 (\<lambda>s. sizeof_len_record pb (length s)) (pb_client_session m) +
    field_size 1 (sizeof_varint32 pb) (pb_request_id m) +
    field_size 1 (sizeof_varint32 pb) (pb_sequence m) +
    field_size 1 (sizeof_varint32 pb) (pb_uptime_ms m) + body_size pb (pb_body m)"

definition body_max :: "'s micropb \<Rightarrow> nat" where
  "body_max pb = foldl max 0
    [sizeof_len_record pb empty_max + 2, sizeof_len_record pb empty_max + 2, sizeof_len_record pb empty_max + 2, sizeof_len_record pb device_info_max + 2, sizeof_len_record pb status_max + 2, sizeof_len_record pb health_max + 2, sizeof_len_record pb error_max + 2]"

definition envelope_max :: "'s micropb \<Rightarrow> nat" where
  "envelope_max pb = (5 + 1) + (ENUM_MAX_SIZE + 1) + (33 + 1) + (17 + 1) + (17 + 1) + (5 + 1) + (5 + 1) +
    (5 + 1) + body_max pb"

text \<open>A one-of field that holds the same variant is merged into, otherwise it is replaced by a
  default.\<close>

definition body_field :: "pb_envelope micropb \<Rightarrow> pb_envelope field_reader" where
  "body_field pb num wire m bs =
    (if num = 20 \<and> wire = 2 then
       read_record pb (nested (\<lambda>v. m\<lparr>pb_body := Some (PbGetDeviceInfo v)\<rparr>) (read_message pb (empty_field pb))
         (case pb_body m of Some (PbGetDeviceInfo v) \<Rightarrow> v | _ \<Rightarrow> Empty)) bs
     else if num = 21 \<and> wire = 2 then
       read_record pb (nested (\<lambda>v. m\<lparr>pb_body := Some (PbGetStatus v)\<rparr>) (read_message pb (empty_field pb))
         (case pb_body m of Some (PbGetStatus v) \<Rightarrow> v | _ \<Rightarrow> Empty)) bs
     else if num = 22 \<and> wire = 2 then
       read_record pb (nested (\<lambda>v. m\<lparr>pb_body := Some (PbGetHealth v)\<rparr>) (read_message pb (empty_field pb))
         (case pb_body m of Some (PbGetHealth v) \<Rightarrow> v | _ \<Rightarrow> Empty)) bs
     else if num = 23 \<and> wire = 2 then
       read_record pb (nested (\<lambda>v. m\<lparr>pb_body := Some (PbDeviceInfo v)\<rparr>) (read_message pb (device_info_field pb))
         (case pb_body m of Some (PbDeviceInfo v) \<Rightarrow> v | _ \<Rightarrow> pb_device_info_default)) bs
     else if num = 24 \<and> wire = 2 then
       read_record pb (nested (\<lambda>v. m\<lparr>pb_body := Some (PbStatus v)\<rparr>) (read_message pb (status_field pb))
         (case pb_body m of Some (PbStatus v) \<Rightarrow> v | _ \<Rightarrow> pb_status_default)) bs
     else if num = 25 \<and> wire = 2 then
       read_record pb (nested (\<lambda>v. m\<lparr>pb_body := Some (PbHealth v)\<rparr>) (read_message pb (health_field pb))
         (case pb_body m of Some (PbHealth v) \<Rightarrow> v | _ \<Rightarrow> pb_health_default)) bs
     else if num = 26 \<and> wire = 2 then
       read_record pb (nested (\<lambda>v. m\<lparr>pb_body := Some (PbError v)\<rparr>) (read_message pb (error_field pb))
         (case pb_body m of Some (PbError v) \<Rightarrow> v | _ \<Rightarrow> pb_error_default)) bs
     else skip_field pb wire m bs)"

definition envelope_field :: "pb_envelope micropb \<Rightarrow> pb_envelope field_reader" where
  "envelope_field pb num wire m bs =
    (if num = 1 \<and> wire = 0 then store (\<lambda>v. m\<lparr>pb_protocol_version := Some v\<rparr>) (read_varint32 pb bs)
     else if num = 2 \<and> wire = 0 then store (\<lambda>n. m\<lparr>pb_kind := Some (MessageKind n)\<rparr>) (read_int32 pb bs)
     else if num = 3 \<and> wire = 2 then
       store (\<lambda>s. m\<lparr>pb_device_id := Some s\<rparr>) (read_string pb 32 (or_empty (pb_device_id m)) bs)
     else if num = 4 \<and> wire = 2 then
       store (\<lambda>s. m\<lparr>pb_boot_id := Some s\<rparr>) (read_string pb 16 (or_empty (pb_boot_id m)) bs)
     else if num = 5 \<and> wire = 2 then
       store (\<lambda>s. m\<lparr>pb_client_session := Some s\<rparr>) (read_string pb 16 (or_empty (pb_client_session m)) bs)
     else if num = 6 \<and> wire = 0 then store (\<lambda>v. m\<lparr>pb_request_id := Some v\<rparr>) (read_varint32 pb bs)
     else if num = 7 \<and> wire = 0 then store (\<lambda>v. m\<lparr>pb_sequence := Some v\<rparr>) (read_varint32 pb bs)
     else if num = 8 \<and> wire = 0 then store (\<lambda>v. m\<lparr>pb_uptime_ms := Some v\<rparr>) (read_varint32 pb bs)
     else body_field pb num wire m bs)"

definition pb_envelope_default :: pb_envelope where
  "pb_envelope_default = \<lparr>pb_protocol_version = None, pb_kind = None, pb_device_id = None,
    pb_boot_id = None, pb_client_session = None, pb_request_id = None, pb_sequence = None,
    pb_uptime_ms = None, pb_body = None\<rparr>"

text \<open>The two calls of the codec: \<^verbatim>\<open>proto.encode\<close> into an empty buffer and
  \<^verbatim>\<open>decode_from_bytes\<close> into a default message.\<close>

definition envelope_bytes :: "'s micropb \<Rightarrow> pb_envelope \<Rightarrow> nat \<Rightarrow> bytes option" where
  "envelope_bytes pb m cap = envelope_encode pb cap m []"

definition envelope_from_bytes :: "pb_envelope micropb \<Rightarrow> bytes \<Rightarrow> (wire_error + pb_envelope) option" where
  "envelope_from_bytes pb bs =
    read_all pb (\<lambda>len. read_message pb (envelope_field pb) len pb_envelope_default) bs"

definition body_wire :: "'s micropb \<Rightarrow> pb_body option \<Rightarrow> bytes" where
  "body_wire pb b =
    (case b of
     None \<Rightarrow> []
   | Some (PbGetDeviceInfo v) \<Rightarrow> varint32 pb 162 @ record_wire pb (empty_wire pb v)
   | Some (PbGetStatus v) \<Rightarrow> varint32 pb 170 @ record_wire pb (empty_wire pb v)
   | Some (PbGetHealth v) \<Rightarrow> varint32 pb 178 @ record_wire pb (empty_wire pb v)
   | Some (PbDeviceInfo v) \<Rightarrow> varint32 pb 186 @ record_wire pb (device_info_wire pb v)
   | Some (PbStatus v) \<Rightarrow> varint32 pb 194 @ record_wire pb (status_wire pb v)
   | Some (PbHealth v) \<Rightarrow> varint32 pb 202 @ record_wire pb (health_wire pb v)
   | Some (PbError v) \<Rightarrow> varint32 pb 210 @ record_wire pb (error_wire pb v))"

definition envelope_wire :: "'s micropb \<Rightarrow> pb_envelope \<Rightarrow> bytes" where
  "envelope_wire pb m =
    field_wire pb 8 (varint32 pb) (pb_protocol_version m) @
    field_wire pb 16 (\<lambda>k. int32_bytes pb (message_kind_val k)) (pb_kind m) @
    field_wire pb 26 (string_bytes pb) (pb_device_id m) @
    field_wire pb 34 (string_bytes pb) (pb_boot_id m) @
    field_wire pb 42 (string_bytes pb) (pb_client_session m) @
    field_wire pb 48 (varint32 pb) (pb_request_id m) @
    field_wire pb 56 (varint32 pb) (pb_sequence m) @
    field_wire pb 64 (varint32 pb) (pb_uptime_ms m) @ body_wire pb (pb_body m)"

definition pb_envelope_typed :: "pb_envelope \<Rightarrow> bool" where
  "pb_envelope_typed m \<longleftrightarrow> text_fits 32 (pb_device_id m) \<and> text_fits 16 (pb_boot_id m) \<and>
    text_fits 16 (pb_client_session m) \<and>
    (\<forall>i. pb_body m = Some (PbDeviceInfo i) \<longrightarrow> device_info_typed i)"

end
