(* ===== verification/Pb_Bench.thy ===== *)
theory Pb_Bench
  imports Bench_Model Pb_Messages
begin

text \<open>
  \<^verbatim>\<open>Rust/messaging/src/generated/benchmark_protobuf.rs\<close>: the encoders, sizes and decoders of
  the benchmark messages.  The status and health messages are encoded as in
  \<open>Pb_Messages\<close>, but the decoders of this file match the number of a field only, and read
  its value whatever its wire type is.
\<close>

section \<open>Encoders and sizes\<close>

definition limits_encode :: "'s micropb \<Rightarrow> nat \<Rightarrow> pb_limits \<Rightarrow> bytes \<Rightarrow> bytes option" where
  "limits_encode pb cap m = writes
    [put_field pb cap 8 (\<lambda>x. int32_bytes pb (encoding_val x)) (pbl_encoding m),
     put_field pb cap 16 (bool_bytes pb) (pbl_crc_enabled m),
     put_field pb cap 24 (varint32 pb) (pbl_max_payload_bytes m),
     put_field pb cap 32 (varint32 pb) (pbl_max_datagram_bytes m),
     put_field pb cap 40 (varint32 pb) (pbl_min_status_period_us m),
     put_field pb cap 48 (varint32 pb) (pbl_min_health_period_us m),
     put_field pb cap 56 (varint32 pb) (pbl_max_period_us m),
     put_field pb cap 64 (varint32 pb) (pbl_min_lease_ms m),
     put_field pb cap 72 (varint32 pb) (pbl_max_lease_ms m),
     put_field pb cap 80 (bool_bytes pb) (pbl_available m)]"

definition configuration_encode :: "'s micropb \<Rightarrow> nat \<Rightarrow> configuration \<Rightarrow> bytes \<Rightarrow> bytes option" where
  "configuration_encode pb cap m = writes
    [put_field pb cap 8 (varint32 pb) (payload_bytes m),
     put_field pb cap 16 (varint32 pb) (pattern_seed m),
     put_field pb cap 24 (varint32 pb) (status_period_us m),
     put_field pb cap 32 (varint32 pb) (health_period_us m),
     put_field pb cap 40 (varint32 pb) (lease_ms m)]"

definition result_encode :: "'s micropb \<Rightarrow> nat \<Rightarrow> pb_control_result \<Rightarrow> bytes \<Rightarrow> bytes option" where
  "result_encode pb cap m = writes
    [put_field pb cap 8 (\<lambda>x. int32_bytes pb (result_code_val x)) (pbr_code m),
     put_field pb cap 16 (varint32 pb) (pbr_lease_remaining_ms m)]"

definition limits_size :: "'s micropb \<Rightarrow> pb_limits \<Rightarrow> nat" where
  "limits_size pb m =
    field_size 1 (\<lambda>x. sizeof_int32 pb (encoding_val x)) (pbl_encoding m) +
    field_size 1 (\<lambda>_. 1) (pbl_crc_enabled m) +
    field_size 1 (sizeof_varint32 pb) (pbl_max_payload_bytes m) +
    field_size 1 (sizeof_varint32 pb) (pbl_max_datagram_bytes m) +
    field_size 1 (sizeof_varint32 pb) (pbl_min_status_period_us m) +
    field_size 1 (sizeof_varint32 pb) (pbl_min_health_period_us m) +
    field_size 1 (sizeof_varint32 pb) (pbl_max_period_us m) +
    field_size 1 (sizeof_varint32 pb) (pbl_min_lease_ms m) +
    field_size 1 (sizeof_varint32 pb) (pbl_max_lease_ms m) +
    field_size 1 (\<lambda>_. 1) (pbl_available m)"

definition configuration_size :: "'s micropb \<Rightarrow> configuration \<Rightarrow> nat" where
  "configuration_size pb m =
    field_size 1 (sizeof_varint32 pb) (payload_bytes m) +
    field_size 1 (sizeof_varint32 pb) (pattern_seed m) +
    field_size 1 (sizeof_varint32 pb) (status_period_us m) +
    field_size 1 (sizeof_varint32 pb) (health_period_us m) +
    field_size 1 (sizeof_varint32 pb) (lease_ms m)"

definition result_size :: "'s micropb \<Rightarrow> pb_control_result \<Rightarrow> nat" where
  "result_size pb m =
    field_size 1 (\<lambda>x. sizeof_int32 pb (result_code_val x)) (pbr_code m) +
    field_size 1 (sizeof_varint32 pb) (pbr_lease_remaining_ms m)"

definition bench_body_encode :: "'s micropb \<Rightarrow> nat \<Rightarrow> pb_bench_body option \<Rightarrow> bytes \<Rightarrow> bytes option" where
  "bench_body_encode pb cap b =
    (case b of
     None \<Rightarrow> Some
   | Some (PbCapabilities v) \<Rightarrow> put_record pb cap 162 (empty_size pb v) (empty_encode pb cap v)
   | Some (PbConfigure v) \<Rightarrow> put_record pb cap 170 (configuration_size pb v) (configuration_encode pb cap v)
   | Some (PbRenew v) \<Rightarrow> put_record pb cap 178 (empty_size pb v) (empty_encode pb cap v)
   | Some (PbStop v) \<Rightarrow> put_record pb cap 186 (empty_size pb v) (empty_encode pb cap v)
   | Some (PbProbe v) \<Rightarrow> put_record pb cap 194 (empty_size pb v) (empty_encode pb cap v)
   | Some (PbLimits v) \<Rightarrow> put_record pb cap 202 (limits_size pb v) (limits_encode pb cap v)
   | Some (PbResult v) \<Rightarrow> put_record pb cap 210 (result_size pb v) (result_encode pb cap v)
   | Some (PbProbeResponse v) \<Rightarrow> put_record pb cap 218 (empty_size pb v) (empty_encode pb cap v)
   | Some (PbBenchStatus v) \<Rightarrow> put_record pb cap 226 (status_size pb v) (status_encode pb cap v)
   | Some (PbBenchHealth v) \<Rightarrow> put_record pb cap 234 (health_size pb v) (health_encode pb cap v))"

definition bench_pb_encode :: "'s micropb \<Rightarrow> nat \<Rightarrow> pb_bench_envelope \<Rightarrow> bytes \<Rightarrow> bytes option" where
  "bench_pb_encode pb cap m = writes
    [put_field pb cap 8 (varint32 pb) (pbb_protocol_version m),
     put_field pb cap 16 (\<lambda>x. int32_bytes pb (kind_val x)) (pbb_kind m),
     put_field pb cap 26 (string_bytes pb) (pbb_device_id m),
     put_field pb cap 34 (string_bytes pb) (pbb_boot_id m),
     put_field pb cap 42 (string_bytes pb) (pbb_session_id m),
     put_field pb cap 48 (varint32 pb) (pbb_request_id m),
     put_field pb cap 56 (varint32 pb) (pbb_sequence m),
     put_field pb cap 64 (varint32 pb) (pbb_uptime_ms m),
     put_field pb cap 74 (string_bytes pb) (pbb_payload m),
     put_field pb cap 80 (varint32 pb) (pbb_run_epoch m),
     bench_body_encode pb cap (pbb_body m)]"

definition bench_body_size :: "'s micropb \<Rightarrow> pb_bench_body option \<Rightarrow> nat" where
  "bench_body_size pb b =
    (case b of
     None \<Rightarrow> 0
   | Some (PbCapabilities v) \<Rightarrow> 2 + sizeof_len_record pb (empty_size pb v)
   | Some (PbConfigure v) \<Rightarrow> 2 + sizeof_len_record pb (configuration_size pb v)
   | Some (PbRenew v) \<Rightarrow> 2 + sizeof_len_record pb (empty_size pb v)
   | Some (PbStop v) \<Rightarrow> 2 + sizeof_len_record pb (empty_size pb v)
   | Some (PbProbe v) \<Rightarrow> 2 + sizeof_len_record pb (empty_size pb v)
   | Some (PbLimits v) \<Rightarrow> 2 + sizeof_len_record pb (limits_size pb v)
   | Some (PbResult v) \<Rightarrow> 2 + sizeof_len_record pb (result_size pb v)
   | Some (PbProbeResponse v) \<Rightarrow> 2 + sizeof_len_record pb (empty_size pb v)
   | Some (PbBenchStatus v) \<Rightarrow> 2 + sizeof_len_record pb (status_size pb v)
   | Some (PbBenchHealth v) \<Rightarrow> 2 + sizeof_len_record pb (health_size pb v))"

definition bench_size :: "'s micropb \<Rightarrow> pb_bench_envelope \<Rightarrow> nat" where
  "bench_size pb m =
    field_size 1 (sizeof_varint32 pb) (pbb_protocol_version m) +
    field_size 1 (\<lambda>x. sizeof_int32 pb (kind_val x)) (pbb_kind m) +
    field_size 1 (\<lambda>s. sizeof_len_record pb (length s)) (pbb_device_id m) +
    field_size 1 (\<lambda>s. sizeof_len_record pb (length s)) (pbb_boot_id m) +
    field_size 1 (\<lambda>s. sizeof_len_record pb (length s)) (pbb_session_id m) +
    field_size 1 (sizeof_varint32 pb) (pbb_request_id m) +
    field_size 1 (sizeof_varint32 pb) (pbb_sequence m) +
    field_size 1 (sizeof_varint32 pb) (pbb_uptime_ms m) +
    field_size 1 (\<lambda>s. sizeof_len_record pb (length s)) (pbb_payload m) +
    field_size 1 (sizeof_varint32 pb) (pbb_run_epoch m) +
    bench_body_size pb (pbb_body m)"

definition limits_max :: nat where
  "limits_max = (ENUM_MAX_SIZE + 1) + (1 + 1) + (5 + 1) + (5 + 1) + (5 + 1) + (5 + 1) + (5 + 1) + (5 + 1) + (5 + 1) + (1 + 1)"

definition configuration_max :: nat where
  "configuration_max = (5 + 1) + (5 + 1) + (5 + 1) + (5 + 1) + (5 + 1)"

definition result_max :: nat where
  "result_max = (ENUM_MAX_SIZE + 1) + (5 + 1)"

definition bench_body_max :: "'s micropb \<Rightarrow> nat" where
  "bench_body_max pb = foldl max 0
    [sizeof_len_record pb empty_max + 2,
     sizeof_len_record pb configuration_max + 2,
     sizeof_len_record pb empty_max + 2,
     sizeof_len_record pb empty_max + 2,
     sizeof_len_record pb empty_max + 2,
     sizeof_len_record pb limits_max + 2,
     sizeof_len_record pb result_max + 2,
     sizeof_len_record pb empty_max + 2,
     sizeof_len_record pb status_max + 2,
     sizeof_len_record pb health_max + 2]"

definition bench_max :: "'s micropb \<Rightarrow> nat" where
  "bench_max pb = (5 + 1) + (ENUM_MAX_SIZE + 1) + (33 + 1) + (17 + 1) + (17 + 1) + (5 + 1) + (5 + 1) + (5 +
    1) + (514 + 1) + (5 + 1) + bench_body_max pb"

section \<open>Decoders\<close>

definition bench_status_field :: "'s micropb \<Rightarrow> pb_status field_reader" where
  "bench_status_field pb num wire m bs =
    (if num = 1 then store (\<lambda>t. m\<lparr>pb_temperature_celsius := Some t\<rparr>) (read_float pb bs)
     else if num = 2 then store (\<lambda>n. m\<lparr>pb_validity := Some (Validity n)\<rparr>) (read_int32 pb bs)
     else if num = 3 then store (\<lambda>b. m\<lparr>pb_synthetic := Some b\<rparr>) (read_boolean pb bs)
     else skip_field pb wire m bs)"

definition bench_health_field :: "'s micropb \<Rightarrow> pb_health field_reader" where
  "bench_health_field pb num wire m bs =
    (if num = 1 then store (\<lambda>n. m\<lparr>pb_state := Some (HealthState n)\<rparr>) (read_int32 pb bs)
     else if num = 2 then store (\<lambda>v. m\<lparr>pb_received_requests := Some v\<rparr>) (read_varint32 pb bs)
     else if num = 3 then store (\<lambda>v. m\<lparr>pb_rejected_datagrams := Some v\<rparr>) (read_varint32 pb bs)
     else if num = 4 then store (\<lambda>v. m\<lparr>pb_send_errors := Some v\<rparr>) (read_varint32 pb bs)
     else if num = 5 then store (\<lambda>v. m\<lparr>pb_skipped_publications := Some v\<rparr>) (read_varint32 pb bs)
     else skip_field pb wire m bs)"

definition limits_field :: "'s micropb \<Rightarrow> pb_limits field_reader" where
  "limits_field pb num wire m bs =
    (if num = 1 then store (\<lambda>n. m\<lparr>pbl_encoding := Some (Encoding n)\<rparr>) (read_int32 pb bs)
     else if num = 2 then store (\<lambda>b. m\<lparr>pbl_crc_enabled := Some b\<rparr>) (read_boolean pb bs)
     else if num = 3 then store (\<lambda>v. m\<lparr>pbl_max_payload_bytes := Some v\<rparr>) (read_varint32 pb bs)
     else if num = 4 then store (\<lambda>v. m\<lparr>pbl_max_datagram_bytes := Some v\<rparr>) (read_varint32 pb bs)
     else if num = 5 then store (\<lambda>v. m\<lparr>pbl_min_status_period_us := Some v\<rparr>) (read_varint32 pb bs)
     else if num = 6 then store (\<lambda>v. m\<lparr>pbl_min_health_period_us := Some v\<rparr>) (read_varint32 pb bs)
     else if num = 7 then store (\<lambda>v. m\<lparr>pbl_max_period_us := Some v\<rparr>) (read_varint32 pb bs)
     else if num = 8 then store (\<lambda>v. m\<lparr>pbl_min_lease_ms := Some v\<rparr>) (read_varint32 pb bs)
     else if num = 9 then store (\<lambda>v. m\<lparr>pbl_max_lease_ms := Some v\<rparr>) (read_varint32 pb bs)
     else if num = 10 then store (\<lambda>b. m\<lparr>pbl_available := Some b\<rparr>) (read_boolean pb bs)
     else skip_field pb wire m bs)"

definition configuration_field :: "'s micropb \<Rightarrow> configuration field_reader" where
  "configuration_field pb num wire m bs =
    (if num = 1 then store (\<lambda>v. m\<lparr>payload_bytes := Some v\<rparr>) (read_varint32 pb bs)
     else if num = 2 then store (\<lambda>v. m\<lparr>pattern_seed := Some v\<rparr>) (read_varint32 pb bs)
     else if num = 3 then store (\<lambda>v. m\<lparr>status_period_us := Some v\<rparr>) (read_varint32 pb bs)
     else if num = 4 then store (\<lambda>v. m\<lparr>health_period_us := Some v\<rparr>) (read_varint32 pb bs)
     else if num = 5 then store (\<lambda>v. m\<lparr>lease_ms := Some v\<rparr>) (read_varint32 pb bs)
     else skip_field pb wire m bs)"

definition result_field :: "'s micropb \<Rightarrow> pb_control_result field_reader" where
  "result_field pb num wire m bs =
    (if num = 1 then store (\<lambda>n. m\<lparr>pbr_code := Some (ResultCode n)\<rparr>) (read_int32 pb bs)
     else if num = 2 then store (\<lambda>v. m\<lparr>pbr_lease_remaining_ms := Some v\<rparr>) (read_varint32 pb bs)
     else skip_field pb wire m bs)"

definition pb_limits_default :: pb_limits where
  "pb_limits_default = \<lparr>pbl_encoding = None, pbl_crc_enabled = None,
    pbl_max_payload_bytes = None, pbl_max_datagram_bytes = None, pbl_min_status_period_us = None,
    pbl_min_health_period_us = None, pbl_max_period_us = None, pbl_min_lease_ms = None,
    pbl_max_lease_ms = None, pbl_available = None\<rparr>"

definition configuration_default :: configuration where
  "configuration_default = \<lparr>payload_bytes = None, pattern_seed = None,
    status_period_us = None, health_period_us = None, lease_ms = None\<rparr>"

definition pb_result_default :: pb_control_result where
  "pb_result_default = \<lparr>pbr_code = None, pbr_lease_remaining_ms = None\<rparr>"

definition pb_bench_default :: pb_bench_envelope where
  "pb_bench_default = \<lparr>pbb_protocol_version = None, pbb_kind = None, pbb_device_id = None,
    pbb_boot_id = None, pbb_session_id = None, pbb_request_id = None, pbb_sequence = None,
    pbb_uptime_ms = None, pbb_payload = None, pbb_run_epoch = None, pbb_body = None\<rparr>"

definition bench_body_field :: "pb_bench_envelope micropb \<Rightarrow> pb_bench_envelope field_reader" where
  "bench_body_field pb num wire m bs =
    (if num = 20 then
       read_record pb (nested (\<lambda>v. m\<lparr>pbb_body := Some (PbCapabilities v)\<rparr>) (read_message pb (empty_field pb))
         (case pbb_body m of Some (PbCapabilities v) \<Rightarrow> v | _ \<Rightarrow> Empty)) bs
     else if num = 21 then
       read_record pb (nested (\<lambda>v. m\<lparr>pbb_body := Some (PbConfigure v)\<rparr>) (read_message pb (configuration_field pb))
         (case pbb_body m of Some (PbConfigure v) \<Rightarrow> v | _ \<Rightarrow> configuration_default)) bs
     else if num = 22 then
       read_record pb (nested (\<lambda>v. m\<lparr>pbb_body := Some (PbRenew v)\<rparr>) (read_message pb (empty_field pb))
         (case pbb_body m of Some (PbRenew v) \<Rightarrow> v | _ \<Rightarrow> Empty)) bs
     else if num = 23 then
       read_record pb (nested (\<lambda>v. m\<lparr>pbb_body := Some (PbStop v)\<rparr>) (read_message pb (empty_field pb))
         (case pbb_body m of Some (PbStop v) \<Rightarrow> v | _ \<Rightarrow> Empty)) bs
     else if num = 24 then
       read_record pb (nested (\<lambda>v. m\<lparr>pbb_body := Some (PbProbe v)\<rparr>) (read_message pb (empty_field pb))
         (case pbb_body m of Some (PbProbe v) \<Rightarrow> v | _ \<Rightarrow> Empty)) bs
     else if num = 25 then
       read_record pb (nested (\<lambda>v. m\<lparr>pbb_body := Some (PbLimits v)\<rparr>) (read_message pb (limits_field pb))
         (case pbb_body m of Some (PbLimits v) \<Rightarrow> v | _ \<Rightarrow> pb_limits_default)) bs
     else if num = 26 then
       read_record pb (nested (\<lambda>v. m\<lparr>pbb_body := Some (PbResult v)\<rparr>) (read_message pb (result_field pb))
         (case pbb_body m of Some (PbResult v) \<Rightarrow> v | _ \<Rightarrow> pb_result_default)) bs
     else if num = 27 then
       read_record pb (nested (\<lambda>v. m\<lparr>pbb_body := Some (PbProbeResponse v)\<rparr>) (read_message pb (empty_field pb))
         (case pbb_body m of Some (PbProbeResponse v) \<Rightarrow> v | _ \<Rightarrow> Empty)) bs
     else if num = 28 then
       read_record pb (nested (\<lambda>v. m\<lparr>pbb_body := Some (PbBenchStatus v)\<rparr>) (read_message pb (bench_status_field pb))
         (case pbb_body m of Some (PbBenchStatus v) \<Rightarrow> v | _ \<Rightarrow> pb_status_default)) bs
     else if num = 29 then
       read_record pb (nested (\<lambda>v. m\<lparr>pbb_body := Some (PbBenchHealth v)\<rparr>) (read_message pb (bench_health_field pb))
         (case pbb_body m of Some (PbBenchHealth v) \<Rightarrow> v | _ \<Rightarrow> pb_health_default)) bs
     else skip_field pb wire m bs)"

definition bench_field :: "pb_bench_envelope micropb \<Rightarrow> pb_bench_envelope field_reader" where
  "bench_field pb num wire m bs =
    (if num = 1 then store (\<lambda>v. m\<lparr>pbb_protocol_version := Some v\<rparr>) (read_varint32 pb bs)
     else if num = 2 then store (\<lambda>n. m\<lparr>pbb_kind := Some (Kind n)\<rparr>) (read_int32 pb bs)
     else if num = 3 then store (\<lambda>s. m\<lparr>pbb_device_id := Some s\<rparr>) (read_string pb 32 (or_empty (pbb_device_id m)) bs)
     else if num = 4 then store (\<lambda>s. m\<lparr>pbb_boot_id := Some s\<rparr>) (read_string pb 16 (or_empty (pbb_boot_id m)) bs)
     else if num = 5 then store (\<lambda>s. m\<lparr>pbb_session_id := Some s\<rparr>) (read_string pb 16 (or_empty (pbb_session_id m)) bs)
     else if num = 6 then store (\<lambda>v. m\<lparr>pbb_request_id := Some v\<rparr>) (read_varint32 pb bs)
     else if num = 7 then store (\<lambda>v. m\<lparr>pbb_sequence := Some v\<rparr>) (read_varint32 pb bs)
     else if num = 8 then store (\<lambda>v. m\<lparr>pbb_uptime_ms := Some v\<rparr>) (read_varint32 pb bs)
     else if num = 9 then store (\<lambda>s. m\<lparr>pbb_payload := Some s\<rparr>) (read_string pb 512 (or_empty (pbb_payload m)) bs)
     else if num = 10 then store (\<lambda>v. m\<lparr>pbb_run_epoch := Some v\<rparr>) (read_varint32 pb bs)
     else bench_body_field pb num wire m bs)"

definition bench_bytes :: "'s micropb \<Rightarrow> pb_bench_envelope \<Rightarrow> nat \<Rightarrow> bytes option" where
  "bench_bytes pb m cap = bench_pb_encode pb cap m []"

definition bench_from_bytes :: "pb_bench_envelope micropb \<Rightarrow> bytes \<Rightarrow> (wire_error + pb_bench_envelope) option" where
  "bench_from_bytes pb bs =
    read_all pb (\<lambda>len. read_message pb (bench_field pb) len pb_bench_default) bs"

section \<open>The wire form\<close>

definition limits_wire :: "'s micropb \<Rightarrow> pb_limits \<Rightarrow> bytes" where
  "limits_wire pb m =
    field_wire pb 8 (\<lambda>x. int32_bytes pb (encoding_val x)) (pbl_encoding m) @
    field_wire pb 16 (bool_bytes pb) (pbl_crc_enabled m) @
    field_wire pb 24 (varint32 pb) (pbl_max_payload_bytes m) @
    field_wire pb 32 (varint32 pb) (pbl_max_datagram_bytes m) @
    field_wire pb 40 (varint32 pb) (pbl_min_status_period_us m) @
    field_wire pb 48 (varint32 pb) (pbl_min_health_period_us m) @
    field_wire pb 56 (varint32 pb) (pbl_max_period_us m) @
    field_wire pb 64 (varint32 pb) (pbl_min_lease_ms m) @
    field_wire pb 72 (varint32 pb) (pbl_max_lease_ms m) @
    field_wire pb 80 (bool_bytes pb) (pbl_available m)"

definition configuration_wire :: "'s micropb \<Rightarrow> configuration \<Rightarrow> bytes" where
  "configuration_wire pb m =
    field_wire pb 8 (varint32 pb) (payload_bytes m) @
    field_wire pb 16 (varint32 pb) (pattern_seed m) @
    field_wire pb 24 (varint32 pb) (status_period_us m) @
    field_wire pb 32 (varint32 pb) (health_period_us m) @
    field_wire pb 40 (varint32 pb) (lease_ms m)"

definition result_wire :: "'s micropb \<Rightarrow> pb_control_result \<Rightarrow> bytes" where
  "result_wire pb m =
    field_wire pb 8 (\<lambda>x. int32_bytes pb (result_code_val x)) (pbr_code m) @
    field_wire pb 16 (varint32 pb) (pbr_lease_remaining_ms m)"

definition bench_body_wire :: "'s micropb \<Rightarrow> pb_bench_body option \<Rightarrow> bytes" where
  "bench_body_wire pb b =
    (case b of
     None \<Rightarrow> []
   | Some (PbCapabilities v) \<Rightarrow> varint32 pb 162 @ record_wire pb (empty_wire pb v)
   | Some (PbConfigure v) \<Rightarrow> varint32 pb 170 @ record_wire pb (configuration_wire pb v)
   | Some (PbRenew v) \<Rightarrow> varint32 pb 178 @ record_wire pb (empty_wire pb v)
   | Some (PbStop v) \<Rightarrow> varint32 pb 186 @ record_wire pb (empty_wire pb v)
   | Some (PbProbe v) \<Rightarrow> varint32 pb 194 @ record_wire pb (empty_wire pb v)
   | Some (PbLimits v) \<Rightarrow> varint32 pb 202 @ record_wire pb (limits_wire pb v)
   | Some (PbResult v) \<Rightarrow> varint32 pb 210 @ record_wire pb (result_wire pb v)
   | Some (PbProbeResponse v) \<Rightarrow> varint32 pb 218 @ record_wire pb (empty_wire pb v)
   | Some (PbBenchStatus v) \<Rightarrow> varint32 pb 226 @ record_wire pb (status_wire pb v)
   | Some (PbBenchHealth v) \<Rightarrow> varint32 pb 234 @ record_wire pb (health_wire pb v))"

definition bench_wire :: "'s micropb \<Rightarrow> pb_bench_envelope \<Rightarrow> bytes" where
  "bench_wire pb m =
    field_wire pb 8 (varint32 pb) (pbb_protocol_version m) @
    field_wire pb 16 (\<lambda>x. int32_bytes pb (kind_val x)) (pbb_kind m) @
    field_wire pb 26 (string_bytes pb) (pbb_device_id m) @
    field_wire pb 34 (string_bytes pb) (pbb_boot_id m) @
    field_wire pb 42 (string_bytes pb) (pbb_session_id m) @
    field_wire pb 48 (varint32 pb) (pbb_request_id m) @
    field_wire pb 56 (varint32 pb) (pbb_sequence m) @
    field_wire pb 64 (varint32 pb) (pbb_uptime_ms m) @
    field_wire pb 74 (string_bytes pb) (pbb_payload m) @
    field_wire pb 80 (varint32 pb) (pbb_run_epoch m) @
    bench_body_wire pb (pbb_body m)"

definition pb_bench_typed :: "pb_bench_envelope \<Rightarrow> bool" where
  "pb_bench_typed m \<longleftrightarrow> text_fits 32 (pbb_device_id m) \<and> text_fits 16 (pbb_boot_id m) \<and>
    text_fits 16 (pbb_session_id m) \<and> text_fits 512 (pbb_payload m)"

section \<open>The bodies keep the contract of a message\<close>

interpretation limits_message: wire_message limits_encode limits_size "\<lambda>_. limits_max" limits_field
  limits_wire pb_limits_default "\<lambda>_. True"
proof (unfold_locales, goal_cases)
  case (1 pb m cap)
  show ?case unfolding limits_encode_def limits_wire_def by (rule wire_writes)+
next
  case (2 pb m)
  then show ?case
    unfolding limits_size_def limits_wire_def length_append by (simp add: length_number_field)
next
  case (3 pb m)
  then show ?case
    unfolding limits_size_def limits_max_def ENUM_MAX_SIZE_def
    by (intro add_mono field_size_le) (simp_all add: law_writers)
next
  case 4
  show ?case by (simp add: limits_max_def ENUM_MAX_SIZE_def)
next
  case (5 pb m)
  note read = fields_read_field [OF 5(1)] law_readers [OF 5(1)]
  let ?a = "pb_limits_default\<lparr>pbl_encoding := pbl_encoding m\<rparr>"
  let ?b = "?a\<lparr>pbl_crc_enabled := pbl_crc_enabled m\<rparr>"
  let ?c = "?b\<lparr>pbl_max_payload_bytes := pbl_max_payload_bytes m\<rparr>"
  let ?d = "?c\<lparr>pbl_max_datagram_bytes := pbl_max_datagram_bytes m\<rparr>"
  let ?e = "?d\<lparr>pbl_min_status_period_us := pbl_min_status_period_us m\<rparr>"
  let ?f = "?e\<lparr>pbl_min_health_period_us := pbl_min_health_period_us m\<rparr>"
  let ?g = "?f\<lparr>pbl_max_period_us := pbl_max_period_us m\<rparr>"
  let ?h = "?g\<lparr>pbl_min_lease_ms := pbl_min_lease_ms m\<rparr>"
  let ?i = "?h\<lparr>pbl_max_lease_ms := pbl_max_lease_ms m\<rparr>"
  have steps: "fields_read pb (limits_field pb) pb_limits_default (field_wire pb 8 (\<lambda>x. int32_bytes pb (encoding_val x)) (pbl_encoding m)) ?a"
    "fields_read pb (limits_field pb) ?a (field_wire pb 16 (bool_bytes pb) (pbl_crc_enabled m)) ?b"
    "fields_read pb (limits_field pb) ?b (field_wire pb 24 (varint32 pb) (pbl_max_payload_bytes m)) ?c"
    "fields_read pb (limits_field pb) ?c (field_wire pb 32 (varint32 pb) (pbl_max_datagram_bytes m)) ?d"
    "fields_read pb (limits_field pb) ?d (field_wire pb 40 (varint32 pb) (pbl_min_status_period_us m)) ?e"
    "fields_read pb (limits_field pb) ?e (field_wire pb 48 (varint32 pb) (pbl_min_health_period_us m)) ?f"
    "fields_read pb (limits_field pb) ?f (field_wire pb 56 (varint32 pb) (pbl_max_period_us m)) ?g"
    "fields_read pb (limits_field pb) ?g (field_wire pb 64 (varint32 pb) (pbl_min_lease_ms m)) ?h"
    "fields_read pb (limits_field pb) ?h (field_wire pb 72 (varint32 pb) (pbl_max_lease_ms m)) ?i"
    "fields_read pb (limits_field pb) ?i (field_wire pb 80 (bool_bytes pb) (pbl_available m)) m"
    by (rule read(1); simp add: limits_field_def store_def read(2-) pb_limits_default_def)+
  show ?case unfolding limits_wire_def by (rule fields_read_append steps)+
next
  case (6 pb)
  then show ?case
    by (auto simp: field_returns_def limits_field_def intro!: store_returns skip_field_returns law_progress)
qed

interpretation configuration_message: wire_message configuration_encode configuration_size "\<lambda>_. configuration_max" configuration_field
  configuration_wire configuration_default "\<lambda>_. True"
proof (unfold_locales, goal_cases)
  case (1 pb m cap)
  show ?case unfolding configuration_encode_def configuration_wire_def by (rule wire_writes)+
next
  case (2 pb m)
  then show ?case
    unfolding configuration_size_def configuration_wire_def length_append by (simp add: length_number_field)
next
  case (3 pb m)
  then show ?case
    unfolding configuration_size_def configuration_max_def ENUM_MAX_SIZE_def
    by (intro add_mono field_size_le) (simp_all add: law_writers)
next
  case 4
  show ?case by (simp add: configuration_max_def ENUM_MAX_SIZE_def)
next
  case (5 pb m)
  note read = fields_read_field [OF 5(1)] law_readers [OF 5(1)]
  let ?a = "configuration_default\<lparr>payload_bytes := payload_bytes m\<rparr>"
  let ?b = "?a\<lparr>pattern_seed := pattern_seed m\<rparr>"
  let ?c = "?b\<lparr>status_period_us := status_period_us m\<rparr>"
  let ?d = "?c\<lparr>health_period_us := health_period_us m\<rparr>"
  have steps: "fields_read pb (configuration_field pb) configuration_default (field_wire pb 8 (varint32 pb) (payload_bytes m)) ?a"
    "fields_read pb (configuration_field pb) ?a (field_wire pb 16 (varint32 pb) (pattern_seed m)) ?b"
    "fields_read pb (configuration_field pb) ?b (field_wire pb 24 (varint32 pb) (status_period_us m)) ?c"
    "fields_read pb (configuration_field pb) ?c (field_wire pb 32 (varint32 pb) (health_period_us m)) ?d"
    "fields_read pb (configuration_field pb) ?d (field_wire pb 40 (varint32 pb) (lease_ms m)) m"
    by (rule read(1); simp add: configuration_field_def store_def read(2-) configuration_default_def)+
  show ?case unfolding configuration_wire_def by (rule fields_read_append steps)+
next
  case (6 pb)
  then show ?case
    by (auto simp: field_returns_def configuration_field_def intro!: store_returns skip_field_returns law_progress)
qed

interpretation result_message: wire_message result_encode result_size "\<lambda>_. result_max" result_field
  result_wire pb_result_default "\<lambda>_. True"
proof (unfold_locales, goal_cases)
  case (1 pb m cap)
  show ?case unfolding result_encode_def result_wire_def by (rule wire_writes)+
next
  case (2 pb m)
  then show ?case
    unfolding result_size_def result_wire_def length_append by (simp add: length_number_field)
next
  case (3 pb m)
  then show ?case
    unfolding result_size_def result_max_def ENUM_MAX_SIZE_def
    by (intro add_mono field_size_le) (simp_all add: law_writers)
next
  case 4
  show ?case by (simp add: result_max_def ENUM_MAX_SIZE_def)
next
  case (5 pb m)
  note read = fields_read_field [OF 5(1)] law_readers [OF 5(1)]
  let ?a = "pb_result_default\<lparr>pbr_code := pbr_code m\<rparr>"
  have steps: "fields_read pb (result_field pb) pb_result_default (field_wire pb 8 (\<lambda>x. int32_bytes pb (result_code_val x)) (pbr_code m)) ?a"
    "fields_read pb (result_field pb) ?a (field_wire pb 16 (varint32 pb) (pbr_lease_remaining_ms m)) m"
    by (rule read(1); simp add: result_field_def store_def read(2-) pb_result_default_def)+
  show ?case unfolding result_wire_def by (rule fields_read_append steps)+
next
  case (6 pb)
  then show ?case
    by (auto simp: field_returns_def result_field_def intro!: store_returns skip_field_returns law_progress)
qed

interpretation bench_status_message: wire_message status_encode status_size "\<lambda>_. status_max" bench_status_field
  status_wire pb_status_default "\<lambda>_. True"
proof (unfold_locales, goal_cases)
  case (1 pb m cap)
  show ?case unfolding status_encode_def status_wire_def by (rule wire_writes)+
next
  case (2 pb m)
  then show ?case
    unfolding status_size_def status_wire_def length_append by (simp add: length_number_field)
next
  case (3 pb m)
  then show ?case
    unfolding status_size_def status_max_def ENUM_MAX_SIZE_def
    by (intro add_mono field_size_le) (simp_all add: law_writers)
next
  case 4
  show ?case by (simp add: status_max_def ENUM_MAX_SIZE_def)
next
  case (5 pb m)
  note read = fields_read_field [OF 5(1)] law_readers [OF 5(1)]
  let ?a = "pb_status_default\<lparr>pb_temperature_celsius := pb_temperature_celsius m\<rparr>"
  let ?b = "?a\<lparr>pb_validity := pb_validity m\<rparr>"
  have steps: "fields_read pb (bench_status_field pb) pb_status_default (field_wire pb 13 (float_bytes pb) (pb_temperature_celsius m)) ?a"
    "fields_read pb (bench_status_field pb) ?a (field_wire pb 16 (\<lambda>x. int32_bytes pb (validity_val x)) (pb_validity m)) ?b"
    "fields_read pb (bench_status_field pb) ?b (field_wire pb 24 (bool_bytes pb) (pb_synthetic m)) m"
    by (rule read(1); simp add: bench_status_field_def store_def read(2-) pb_status_default_def)+
  show ?case unfolding status_wire_def by (rule fields_read_append steps)+
next
  case (6 pb)
  then show ?case
    by (auto simp: field_returns_def bench_status_field_def intro!: store_returns skip_field_returns law_progress)
qed

interpretation bench_health_message: wire_message health_encode health_size "\<lambda>_. health_max" bench_health_field
  health_wire pb_health_default "\<lambda>_. True"
proof (unfold_locales, goal_cases)
  case (1 pb m cap)
  show ?case unfolding health_encode_def health_wire_def by (rule wire_writes)+
next
  case (2 pb m)
  then show ?case
    unfolding health_size_def health_wire_def length_append by (simp add: length_number_field)
next
  case (3 pb m)
  then show ?case
    unfolding health_size_def health_max_def ENUM_MAX_SIZE_def
    by (intro add_mono field_size_le) (simp_all add: law_writers)
next
  case 4
  show ?case by (simp add: health_max_def ENUM_MAX_SIZE_def)
next
  case (5 pb m)
  note read = fields_read_field [OF 5(1)] law_readers [OF 5(1)]
  let ?a = "pb_health_default\<lparr>pb_state := pb_state m\<rparr>"
  let ?b = "?a\<lparr>pb_received_requests := pb_received_requests m\<rparr>"
  let ?c = "?b\<lparr>pb_rejected_datagrams := pb_rejected_datagrams m\<rparr>"
  let ?d = "?c\<lparr>pb_send_errors := pb_send_errors m\<rparr>"
  have steps: "fields_read pb (bench_health_field pb) pb_health_default (field_wire pb 8 (\<lambda>x. int32_bytes pb (health_state_val x)) (pb_state m)) ?a"
    "fields_read pb (bench_health_field pb) ?a (field_wire pb 16 (varint32 pb) (pb_received_requests m)) ?b"
    "fields_read pb (bench_health_field pb) ?b (field_wire pb 24 (varint32 pb) (pb_rejected_datagrams m)) ?c"
    "fields_read pb (bench_health_field pb) ?c (field_wire pb 32 (varint32 pb) (pb_send_errors m)) ?d"
    "fields_read pb (bench_health_field pb) ?d (field_wire pb 40 (varint32 pb) (pb_skipped_publications m)) m"
    by (rule read(1); simp add: bench_health_field_def store_def read(2-) pb_health_default_def)+
  show ?case unfolding health_wire_def by (rule fields_read_append steps)+
next
  case (6 pb)
  then show ?case
    by (auto simp: field_returns_def bench_health_field_def intro!: store_returns skip_field_returns law_progress)
qed

end
