(* ===== verification/Pb_Envelope.thy ===== *)
theory Pb_Envelope
  imports Pb_Messages
begin

text \<open>
  The envelope of \<^verbatim>\<open>generated/protobuf.rs\<close> keeps the contract of a message, and what follows
  for the messages on the wire: sizes, round trips, termination and unknown fields.
\<close>

section \<open>The one-of body\<close>

lemmas body_messages = empty_message.record_writes device_info_message.record_writes
  status_message.record_writes health_message.record_writes error_message.record_writes

lemma body_writes:
  assumes "micropb_laws pb" and "\<forall>i. b = Some (PbDeviceInfo i) \<longrightarrow> device_info_typed i"
  shows "writes_wire cap (body_encode pb cap b) (body_wire pb b)"
proof -
  have "writes_wire cap Some []" by (simp add: writes_wire_def emit_def)
  then show ?thesis
    using assms unfolding body_encode_def body_wire_def put_record_def
    by (cases b; simp split: pb_body.split; intro conjI impI allI wire_writes body_messages) auto
qed

lemma body_length:
  assumes "micropb_laws pb" and "\<forall>i. b = Some (PbDeviceInfo i) \<longrightarrow> device_info_typed i"
  shows "length (body_wire pb b) = body_size pb b"
  using assms unfolding body_size_def body_wire_def
  by (simp add: length_large_tag empty_message.record_length device_info_message.record_length
      status_message.record_length health_message.record_length error_message.record_length
      split: option.split pb_body.split)

lemma body_bounded:
  assumes "micropb_laws pb" and "\<forall>i. b = Some (PbDeviceInfo i) \<longrightarrow> device_info_typed i"
  shows "body_size pb b \<le> body_max pb"
  using assms empty_message.record_bounded [OF assms(1)] device_info_message.record_bounded [OF assms(1)]
    status_message.record_bounded [OF assms(1)] health_message.record_bounded [OF assms(1)]
    error_message.record_bounded [OF assms(1)]
  unfolding body_size_def body_max_def
  by (simp add: le_max_iff_disj add.commute split: option.split pb_body.split)

lemma body_reads:
  assumes "micropb_laws pb" and "\<forall>i. b = Some (PbDeviceInfo i) \<longrightarrow> device_info_typed i"
    and "pb_body m = None"
  shows "fields_read pb (envelope_field pb) m (body_wire pb b) (m\<lparr>pb_body := b\<rparr>)"
proof (cases b)
  case None
  moreover have "m\<lparr>pb_body := None\<rparr> = m" using assms(3) by (cases m) simp
  ultimately show ?thesis by (simp add: body_wire_def fields_read_Nil)
next
  case (Some v)
  note read = fields_read_one [OF assms(1)] empty_message.record_reads [OF assms(1)]
    status_message.record_reads [OF assms(1)] health_message.record_reads [OF assms(1)]
    error_message.record_reads [OF assms(1)] device_info_message.record_reads [OF assms(1)]
  show ?thesis
    unfolding Some
  proof (cases v; simp add: body_wire_def)
  qed (use assms(2,3) Some in \<open>intro read(1); simp add: envelope_field_def body_field_def read(2-)\<close>)+
qed

lemma body_returns: "micropb_laws pb \<Longrightarrow> \<exists>r. body_field pb num wire m bs = Some r \<and> shorter bs r"
  unfolding body_field_def
  by (simp add: empty_message.record_returns device_info_message.record_returns
      status_message.record_returns health_message.record_returns error_message.record_returns
      skip_field_returns)

section \<open>Unknown fields\<close>

text \<open>The fields of the envelope with their wire types, and the forms that an envelope can have on
  the wire when fields unknown to the decoder, or known ones of another wire type, stand
  anywhere between its own fields and between those of the nested message.\<close>

definition envelope_knows :: "u32 \<Rightarrow> u32 \<Rightarrow> bool" where
  "envelope_knows num wire \<longleftrightarrow>
    wire = 0 \<and> num \<in> {1, 2, 6, 7, 8} \<or> wire = 2 \<and> num \<in> {3, 4, 5, 20, 21, 22, 23, 24, 25, 26}"

definition envelope_parts :: "'s micropb \<Rightarrow> pb_envelope \<Rightarrow> bytes \<Rightarrow> bytes list" where
  "envelope_parts pb m body =
    [field_wire pb 8 (varint32 pb) (pb_protocol_version m),
     field_wire pb 16 (\<lambda>k. int32_bytes pb (message_kind_val k)) (pb_kind m),
     field_wire pb 26 (string_bytes pb) (pb_device_id m),
     field_wire pb 34 (string_bytes pb) (pb_boot_id m),
     field_wire pb 42 (string_bytes pb) (pb_client_session m),
     field_wire pb 48 (varint32 pb) (pb_request_id m),
     field_wire pb 56 (varint32 pb) (pb_sequence m),
     field_wire pb 64 (varint32 pb) (pb_uptime_ms m), body]"

definition body_form :: "'s micropb \<Rightarrow> pb_body option \<Rightarrow> bytes \<Rightarrow> bool" where
  "body_form pb b bs =
    (case b of
     None \<Rightarrow> bs = []
   | Some (PbGetDeviceInfo v) \<Rightarrow> record_mixed pb 162 (\<lambda>_ _. False) [] bs
   | Some (PbGetStatus v) \<Rightarrow> record_mixed pb 170 (\<lambda>_ _. False) [] bs
   | Some (PbGetHealth v) \<Rightarrow> record_mixed pb 178 (\<lambda>_ _. False) [] bs
   | Some (PbDeviceInfo v) \<Rightarrow> record_mixed pb 186 device_info_knows (device_info_parts pb v) bs
   | Some (PbStatus v) \<Rightarrow> record_mixed pb 194 status_knows (status_parts pb v) bs
   | Some (PbHealth v) \<Rightarrow> record_mixed pb 202 health_knows (health_parts pb v) bs
   | Some (PbError v) \<Rightarrow> record_mixed pb 210 error_knows (error_parts pb v) bs)"

definition envelope_form :: "'s micropb \<Rightarrow> pb_envelope \<Rightarrow> bytes \<Rightarrow> bool" where
  "envelope_form pb m bs \<longleftrightarrow> (\<exists>body. body_form pb (pb_body m) body \<and>
    mixed pb envelope_knows (envelope_parts pb m body) bs)"

lemma envelope_skips:
  assumes "micropb_laws pb" and "\<not> envelope_knows num w" and "field_value pb w v"
  shows "envelope_field pb num (ucast w) x (v @ rest) = Some (Inr (x, rest))"
proof -
  note skip = skip_field_value [OF assms(1,3), of x rest]
  consider "w = 0" | "w = 1" | "w = 2" | "w = 5" using field_value_wire(1) [OF assms(3)] by blast
  then show ?thesis
    using assms(2) skip by cases (simp_all add: envelope_field_def body_field_def envelope_knows_def)
qed

lemma record_mixed_reads:
  assumes laws: "micropb_laws pb" and "record_mixed pb tag knows fs bs"
    and "tag div 8 \<noteq> 0" and "tag mod 8 = 2"
    and "\<And>content rest. mixed pb knows fs content \<Longrightarrow> length content < 2 ^ 32 \<Longrightarrow>
      field (tag div 8) 2 m (record_wire pb content @ rest) = Some (Inr (m', rest))"
  shows "fields_read pb field m bs m'"
proof -
  obtain content where content: "mixed pb knows fs content" "length content < 2 ^ 32"
    "bs = varint32 pb tag @ record_wire pb content"
    using assms(2) by (auto simp: record_mixed_def)
  show ?thesis
    unfolding content(3)
    by (rule fields_read_one [OF laws assms(3)]) (simp_all add: assms(4) assms(5) [OF content(1,2)])
qed

lemma body_form_reads:
  assumes laws: "micropb_laws pb" and "\<forall>i. b = Some (PbDeviceInfo i) \<longrightarrow> device_info_typed i"
    and "pb_body m = None" and "body_form pb b bs"
  shows "fields_read pb (envelope_field pb) m bs (m\<lparr>pb_body := b\<rparr>)"
proof (cases b)
  case None
  moreover have "m\<lparr>pb_body := None\<rparr> = m" using assms(3) by (cases m) simp
  ultimately show ?thesis using assms(4) by (simp add: body_form_def fields_read_Nil)
next
  case (Some v)
  note field = envelope_field_def body_field_def assms(3)
  note read = empty_message.mixed_record_reads [OF laws] status_message.mixed_record_reads [OF laws]
    health_message.mixed_record_reads [OF laws] error_message.mixed_record_reads [OF laws]
    device_info_message.mixed_record_reads [OF laws]
  note form = assms(2,4) [unfolded Some body_form_def, simplified]
  show ?thesis
    unfolding Some
    by (cases v; use form in simp; erule record_mixed_reads [OF laws]; simp add: field; rule read; simp)
qed

section \<open>The envelope\<close>

lemma envelope_chain:
  assumes "micropb_laws pb" and "pb_envelope_typed m"
    and body: "\<And>h. pb_body h = None \<Longrightarrow>
      fields_read pb (envelope_field pb) h body (h\<lparr>pb_body := pb_body m\<rparr>)"
  shows "fields_chain pb (envelope_field pb) pb_envelope_default (envelope_parts pb m body) m"
proof -
  note read = fields_read_field [OF assms(1)] law_readers [OF assms(1)]
  have typed: "text_fits 32 (pb_device_id m)" "text_fits 16 (pb_boot_id m)" "text_fits 16 (pb_client_session m)"
    using assms(2) by (simp_all add: pb_envelope_typed_def)
  let ?a = "pb_envelope_default\<lparr>pb_protocol_version := pb_protocol_version m\<rparr>"
  let ?b = "?a\<lparr>pb_kind := pb_kind m\<rparr>"
  let ?c = "?b\<lparr>pb_device_id := pb_device_id m\<rparr>"
  let ?d = "?c\<lparr>pb_boot_id := pb_boot_id m\<rparr>"
  let ?e = "?d\<lparr>pb_client_session := pb_client_session m\<rparr>"
  let ?f = "?e\<lparr>pb_request_id := pb_request_id m\<rparr>"
  let ?g = "?f\<lparr>pb_sequence := pb_sequence m\<rparr>"
  let ?h = "?g\<lparr>pb_uptime_ms := pb_uptime_ms m\<rparr>"
  have steps: "fields_read pb (envelope_field pb) pb_envelope_default (field_wire pb 8 (varint32 pb) (pb_protocol_version m)) ?a"
    "fields_read pb (envelope_field pb) ?a (field_wire pb 16 (\<lambda>k. int32_bytes pb (message_kind_val k)) (pb_kind m)) ?b"
    "fields_read pb (envelope_field pb) ?b (field_wire pb 26 (string_bytes pb) (pb_device_id m)) ?c"
    "fields_read pb (envelope_field pb) ?c (field_wire pb 34 (string_bytes pb) (pb_boot_id m)) ?d"
    "fields_read pb (envelope_field pb) ?d (field_wire pb 42 (string_bytes pb) (pb_client_session m)) ?e"
    "fields_read pb (envelope_field pb) ?e (field_wire pb 48 (varint32 pb) (pb_request_id m)) ?f"
    "fields_read pb (envelope_field pb) ?f (field_wire pb 56 (varint32 pb) (pb_sequence m)) ?g"
    "fields_read pb (envelope_field pb) ?g (field_wire pb 64 (varint32 pb) (pb_uptime_ms m)) ?h"
    by (insert typed, (rule read(1); simp add: envelope_field_def store_def read(2-) pb_envelope_default_def)+)
  have last: "fields_read pb (envelope_field pb) ?h body m"
  proof -
    have "?h\<lparr>pb_body := pb_body m\<rparr> = m" "pb_body ?h = None"
      by (cases m; simp add: pb_envelope_default_def)+
    then show ?thesis using body [of ?h] by metis
  qed
  show ?thesis unfolding envelope_parts_def by (rule fields_chain.intros steps last)+
qed

interpretation envelope_message: root_message envelope_encode envelope_size envelope_max envelope_field
  envelope_wire pb_envelope_default pb_envelope_typed
proof (unfold_locales, goal_cases)
  case (1 pb m cap)
  then show ?case
    unfolding envelope_encode_def envelope_wire_def
    by (intro wire_writes body_writes) (simp_all add: pb_envelope_typed_def)
next
  case (2 pb m)
  then show ?case
    by (simp add: envelope_size_def envelope_wire_def pb_envelope_typed_def body_length length_number_field
        length_text_field [OF 2(1), where n = 32] length_text_field [OF 2(1), where n = 16])
next
  case (3 pb m)
  then show ?case
    unfolding envelope_size_def envelope_max_def ENUM_MAX_SIZE_def pb_envelope_typed_def
    using text_bound [OF 3(1), of 32 "pb_device_id m"] text_bound [OF 3(1), of 16 "pb_boot_id m"]
      text_bound [OF 3(1), of 16 "pb_client_session m"]
    by (intro add_mono field_size_le body_bounded) (simp_all add: law_writers(3,8))
next
  case (4 pb)
  then show ?case
    by (simp add: envelope_max_def body_max_def ENUM_MAX_SIZE_def device_info_max_def status_max_def
        health_max_def error_max_def empty_max_def law_writers)
next
  case (5 pb m)
  then have "fields_read pb (envelope_field pb) pb_envelope_default
      (concat (envelope_parts pb m (body_wire pb (pb_body m)))) m"
    by (intro fields_chain_concat envelope_chain body_reads) (auto simp: pb_envelope_typed_def)
  then show ?case by (simp add: envelope_parts_def envelope_wire_def)
next
  case (6 pb)
  then show ?case
    by (auto simp: field_returns_def envelope_field_def
        intro!: store_returns skip_field_returns law_progress body_returns)
qed

section \<open>Every form is read\<close>

lemma envelope_form_reads:
  assumes laws: "micropb_laws pb" and "pb_envelope_typed m" and "envelope_form pb m bs"
  shows "fields_read pb (envelope_field pb) pb_envelope_default bs m"
proof -
  obtain body where body: "body_form pb (pb_body m) body" "mixed pb envelope_knows (envelope_parts pb m body) bs"
    using assms(3) by (auto simp: envelope_form_def)
  show ?thesis
  proof (rule mixed_reads [OF laws _ body(2)])
    show "fields_chain pb (envelope_field pb) pb_envelope_default (envelope_parts pb m body) m"
      using assms(2) body(1)
      by (intro envelope_chain [OF laws] body_form_reads [OF laws]) (auto simp: pb_envelope_typed_def)
  qed (rule envelope_skips [OF laws])
qed

text \<open>What the encoder writes is the form without unknown fields.\<close>

lemma record_mixed_concat:
  "length (concat fs) < 16384 \<Longrightarrow> concat fs = content \<Longrightarrow>
    record_mixed pb tag knows fs (varint32 pb tag @ record_wire pb content)"
  using mixed_concat [of pb knows fs] by (auto simp: record_mixed_def)

lemma body_wire_form:
  assumes laws: "micropb_laws pb" and "\<forall>i. b = Some (PbDeviceInfo i) \<longrightarrow> device_info_typed i"
  shows "body_form pb b (body_wire pb b)"
proof -
  have parts: "concat (device_info_parts pb i) = device_info_wire pb i" "concat (status_parts pb s) = status_wire pb s"
    "concat (health_parts pb h) = health_wire pb h" "concat (error_parts pb e) = error_wire pb e" for i s h e
    by (simp_all add: device_info_parts_def device_info_wire_def status_parts_def status_wire_def
        health_parts_def health_wire_def error_parts_def error_wire_def)
  note short = device_info_message.length_wire [OF laws] status_message.length_wire [OF laws]
    health_message.length_wire [OF laws] error_message.length_wire [OF laws]
  show ?thesis
    using assms(2) unfolding body_form_def body_wire_def
    by (auto split: option.split pb_body.split simp: empty_wire_def
        intro!: record_mixed_concat simp: parts short)
qed

lemma envelope_wire_form:
  assumes "micropb_laws pb" and "pb_envelope_typed m"
  shows "envelope_form pb m (envelope_wire pb m)"
proof -
  have "envelope_wire pb m = concat (envelope_parts pb m (body_wire pb (pb_body m)))"
    by (simp add: envelope_parts_def envelope_wire_def)
  then show ?thesis
    using assms body_wire_form [OF assms(1), of "pb_body m"] mixed_concat
    by (auto simp: envelope_form_def pb_envelope_typed_def)
qed

end
