(* ===== verification/Pb_Reference.thy ===== *)
theory Pb_Reference
  imports Pb_Wire Byte_Order
begin

text \<open>
  A concrete \<^verbatim>\<open>micropb\<close>: the Protobuf wire format, with variable-length integers of seven
  bits to a byte, and the proof that it has the behaviour the development relies on.  The
  properties of the generated code are applied to it.
\<close>

section \<open>Variable-length integers\<close>

function leb :: "nat \<Rightarrow> bytes" where
  "leb n = (if n < 128 then [of_nat n] else of_nat (128 + n mod 128) # leb (n div 128))"
  by pat_completeness auto
termination by (relation "measure id") auto

declare leb.simps [simp del]

fun unleb :: "nat \<Rightarrow> bytes \<Rightarrow> (nat \<times> bytes) option" where
  "unleb (Suc k) (b # bs) =
    (if b < 128 then Some (unat b, bs)
     else map_option (\<lambda>(n, rest). (unat b - 128 + 128 * n, rest)) (unleb k bs))"
| "unleb _ _ = None"

lemma unat_byte: "n < 256 \<Longrightarrow> unat (of_nat n :: u8) = n"
  by (simp add: unat_of_nat take_bit_nat_eq_self)

lemma unat_more: "unat (128 + of_nat (n mod 128) :: u8) = 128 + n mod 128"
  using unat_byte [of "128 + n mod 128"] by simp

lemma unleb_leb: "n < 128 ^ Suc k \<Longrightarrow> unleb (Suc k) (leb n @ rest) = Some (n, rest)"
proof (induction k arbitrary: n)
  case 0
  then show ?case by (subst leb.simps) (simp add: unat_byte word_less_nat_alt)
next
  case (Suc k)
  have "n div 128 < 128 ^ Suc k" using Suc.prems by (simp add: less_mult_imp_div_less)
  then have "unleb (Suc k) (leb (n div 128) @ rest) = Some (n div 128, rest)" by (rule Suc.IH)
  then show ?case
    by (subst leb.simps) (simp add: unat_more unat_byte word_less_nat_alt)
qed

lemma length_leb: "n < 128 ^ Suc k \<Longrightarrow> length (leb n) \<le> Suc k"
proof (induction k arbitrary: n)
  case 0
  then show ?case by (subst leb.simps) simp
next
  case (Suc k)
  have "n div 128 < 128 ^ Suc k" using Suc.prems by (simp add: less_mult_imp_div_less)
  then have "length (leb (n div 128)) \<le> Suc k" by (rule Suc.IH)
  then show ?case by (subst leb.simps) simp
qed

lemma leb_pos: "0 < length (leb n)"
  by (subst leb.simps) simp

lemma leb_two: "128 \<le> n \<Longrightarrow> 2 \<le> length (leb n)"
  using leb_pos [of "n div 128"] by (subst leb.simps) (simp add: Suc_le_eq)

lemma unleb_shorter: "unleb k bs = Some (n, rest) \<Longrightarrow> length rest < length bs"
  by (induction k bs arbitrary: n rule: unleb.induct) (auto split: if_splits dest: less_SucI)

lemma unleb_varint:
  "list_all (\<lambda>b. 128 \<le> b) pre \<Longrightarrow> e < 128 \<Longrightarrow> length pre < k \<Longrightarrow>
    \<exists>n < (unat e + 1) * 128 ^ length pre. unleb k (pre @ e # rest) = Some (n, rest)"
proof (induction pre arbitrary: k)
  case Nil
  then show ?case by (cases k) auto
next
  case (Cons b pre)
  then obtain j where k: "k = Suc j" by (cases k) auto
  then obtain n where n: "n < (unat e + 1) * 128 ^ length pre" "unleb j (pre @ e # rest) = Some (n, rest)"
    using Cons by auto
  have "unat b < 256" by (rule unat_u8_bound)
  then have "unat b - 128 + 128 * n < (unat e + 1) * 128 ^ length (b # pre)" using n(1) by simp
  then show ?case using Cons.prems(1) n(2) by (auto simp: k word_less_nat_alt word_le_nat_alt)
qed

section \<open>The crate\<close>

definition take_number :: "nat \<Rightarrow> (nat \<Rightarrow> 'a) \<Rightarrow> nat \<Rightarrow> 'a reader" where
  "take_number k f bits bs =
    (case unleb k bs of
       None \<Rightarrow> Inl Crate_Error
     | Some (n, rest) \<Rightarrow> if n < 2 ^ bits then Inr (f n, rest) else Inl Crate_Error)"

definition take_bytes :: "nat \<Rightarrow> bytes reader" where
  "take_bytes n bs = (if n \<le> length bs then Inr (take n bs, drop n bs) else Inl Crate_Error)"

definition take_text :: "nat \<Rightarrow> bytes \<Rightarrow> bytes reader" where
  "take_text cap old bs =
    r_bind (take_number 5 id 32 bs) (\<lambda>(n, rest).
    r_bind (take_bytes n rest) (\<lambda>(s, rest).
      if length s \<le> cap \<and> utf8_valid s then Inr (s, rest) else Inl Crate_Error))"

definition take_record :: "'s filler \<Rightarrow> bytes \<Rightarrow> (wire_error + 's \<times> bytes) option" where
  "take_record f bs =
    (case take_number 5 id 32 bs of
       Inl e \<Rightarrow> Some (Inl e)
     | Inr (n, rest) \<Rightarrow>
         map_option (\<lambda>r. r_bind r (\<lambda>(m, rest').
           if length rest = n + length rest' then Inr (m, rest') else Inl Crate_Error)) (f n rest))"

definition skip_one :: "u8 \<Rightarrow> bytes \<Rightarrow> wire_error + bytes" where
  "skip_one wire bs =
    (if wire = 0 then r_bind (take_number 10 id 64 bs) (Inr \<circ> snd)
     else if wire = 1 then r_bind (take_bytes 8 bs) (Inr \<circ> snd)
     else if wire = 2 then
       r_bind (take_number 5 id 32 bs) (\<lambda>(n, rest). r_bind (take_bytes n rest) (Inr \<circ> snd))
     else if wire = 5 then r_bind (take_bytes 4 bs) (Inr \<circ> snd)
     else Inl Crate_Error)"

definition varint :: "u32 \<Rightarrow> bytes" where
  "varint v = leb (unat v)"

definition signed_varint :: "i32 \<Rightarrow> bytes" where
  "signed_varint v = leb (unat (scast v :: u64))"

definition reference_micropb :: "'s micropb" where
  "reference_micropb =
    \<lparr>varint32 = varint, int32_bytes = signed_varint, bool_bytes = (\<lambda>b. [of_bool b]),
     float_bytes = to_le 4, string_bytes = (\<lambda>s. varint (of_nat (length s)) @ s),
     write_record = (\<lambda>cap n f w. Option.bind (emit cap (varint (of_nat n)) w) f),
     sizeof_varint32 = (\<lambda>v. length (varint v)), sizeof_int32 = (\<lambda>v. length (signed_varint v)),
     sizeof_len_record = (\<lambda>n. length (varint (of_nat n)) + n),
     read_tag = take_number 5 (\<lambda>n. (of_nat (n div 8), of_nat (n mod 8))) 32,
     read_varint32 = take_number 5 of_nat 32, read_int32 = take_number 10 of_nat 64,
     read_boolean = take_number 10 (\<lambda>n. 0 < n) 64,
     read_float = (\<lambda>bs. r_bind (take_bytes 4 bs) (\<lambda>(b, rest). Inr (from_le b, rest))),
     read_string = take_text, read_record = take_record, skip_value = skip_one,
     read_all = (\<lambda>f bs. map_option (\<lambda>r. r_bind r (Inr \<circ> fst)) (f (length bs) bs))\<rparr>"

section \<open>Its behaviour\<close>

lemma take_number_leb:
  "n < 2 ^ bits \<Longrightarrow> 2 ^ bits \<le> (128 :: nat) ^ Suc k \<Longrightarrow> take_number (Suc k) f bits (leb n @ rest) = Inr (f n, rest)"
  by (simp add: take_number_def unleb_leb)

lemma take_number_shorter: "take_number k f bits bs = Inr (v, rest) \<Longrightarrow> length rest < length bs"
  by (auto simp: take_number_def dest: unleb_shorter split: option.splits if_splits)

lemma take_number_varint: "take_number 5 f 32 (varint v @ rest) = Inr (f (unat v), rest)"
  using take_number_leb [of "unat v" 32 4 f rest] unat_u32_bound [of v]
  by (simp add: varint_def)

lemma take_number_long:
  "n < 2 ^ 64 \<Longrightarrow> take_number 10 f 64 (leb n @ rest) = Inr (f n, rest)"
  using take_number_leb [of n 64 9 f rest] by simp

lemma take_number_varint_bytes:
  assumes "varint_bytes bs"
  shows "\<exists>v. take_number 10 f 64 (bs @ rest) = Inr (v, rest)"
proof -
  let ?pre = "butlast bs" and ?e = "last bs"
  have bs: "bs = ?pre @ [?e]" "length ?pre < 10" "list_all (\<lambda>b. 128 \<le> b) ?pre"
    and e: "?e < (if length ?pre = 9 then 2 else 128)"
    using assms by (auto simp: varint_bytes_def split: if_splits)
  then have "?e < 128" by (auto simp: word_less_nat_alt split: if_splits)
  then obtain n where n: "n < (unat ?e + 1) * 128 ^ length ?pre" "unleb 10 (?pre @ ?e # rest) = Some (n, rest)"
    using unleb_varint [OF bs(3) _ bs(2)] by blast
  have "(unat ?e + 1) * 128 ^ length ?pre \<le> 2 ^ 64"
  proof (cases "length ?pre = 9")
    case True
    then have "unat ?e + 1 \<le> 2" using e by (simp add: word_less_nat_alt)
    then show ?thesis using True by simp
  next
    case False
    then have "unat ?e + 1 \<le> 128" "length ?pre \<le> 8"
      using e bs(2) by (simp_all add: word_less_nat_alt)
    moreover from this(2) have "(128 :: nat) ^ length ?pre \<le> 128 ^ 8" by (rule power_increasing) simp
    ultimately show ?thesis using mult_le_mono [of "unat ?e + 1" 128 "128 ^ length ?pre" "128 ^ 8"] by simp
  qed
  then have "n < 2 ^ 64" using n(1) by simp
  moreover have "bs @ rest = ?pre @ ?e # rest" by (subst bs(1)) simp
  ultimately show ?thesis by (simp only: take_number_def n(2)) simp
qed

lemma take_bytes_append: "n = length s \<Longrightarrow> take_bytes n (s @ rest) = Inr (s, rest)"
  by (simp add: take_bytes_def)

lemma take_bytes_shorter: "take_bytes n bs = Inr (s, rest) \<Longrightarrow> length rest \<le> length bs"
  by (auto simp: take_bytes_def split: if_splits)

lemma length_varint: "length (varint v) \<le> 5" "0 < length (varint v)" "v < 128 \<Longrightarrow> length (varint v) = 1"
  "v < 16384 \<Longrightarrow> length (varint v) \<le> 2" "128 \<le> v \<Longrightarrow> 2 \<le> length (varint v)"
proof -
  show "length (varint v) \<le> 5"
    using length_leb [of "unat v" 4] unat_u32_bound [of v] by (simp add: varint_def)
  show pos: "0 < length (varint v)" using leb_pos by (simp add: varint_def)
  show "length (varint v) = 1" if "v < 128"
    using that length_leb [of "unat v" 0] pos by (simp add: varint_def word_less_nat_alt le_Suc_eq)
  show "length (varint v) \<le> 2" if "v < 16384"
    using that length_leb [of "unat v" 1] by (simp add: varint_def word_less_nat_alt)
  show "2 \<le> length (varint v)" if "128 \<le> v"
    using that leb_two [of "unat v"] by (simp add: varint_def word_le_nat_alt)
qed

lemma length_signed_varint: "length (signed_varint v) \<le> 10"
  using length_leb [of "unat (scast v :: u64)" 9] unat_u64_bound [of "scast v"] by (simp add: signed_varint_def)

lemma signed_varint_back: "of_nat (unat (scast v :: u64)) = (v :: i32)"
proof -
  have "(ucast (scast v :: u64) :: i32) = v" by transfer (simp add: take_bit_signed_take_bit)
  then show ?thesis by simp
qed

lemma reference_writes: "writer_laws reference_micropb"
  unfolding writer_laws_def reference_micropb_def
  using length_varint length_signed_varint by (simp add: record_wire_def)

lemma record_wire_reference [simp]: "record_wire reference_micropb bs = varint (of_nat (length bs)) @ bs"
  by (simp add: record_wire_def reference_micropb_def)

lemma unat_length: "length bs < 2 ^ 32 \<Longrightarrow> unat (of_nat (length bs) :: u32) = length bs"
  by (simp add: unat_of_nat take_bit_nat_eq_self)

lemma take_text_back:
  assumes "length s \<le> n" and "n < 2 ^ 32" and "utf8_valid s"
  shows "take_text n [] ((varint (of_nat (length s)) @ s) @ rest) = Inr (s, rest)"
  using assms unat_length [of s] by (simp add: take_text_def take_number_varint take_bytes_append)

lemma take_record_back:
  assumes "length body < 2 ^ 32" and "f (length body) (body @ rest) = Some (Inr (m, rest))"
  shows "take_record f ((varint (of_nat (length body)) @ body) @ rest) = Some (Inr (m, rest))"
  using assms unat_length [of body] by (simp add: take_record_def take_number_varint)

lemma skip_back:
  "skip_one 0 (varint v @ rest) = Inr rest" "skip_one 0 (signed_varint i @ rest) = Inr rest"
  "length body < 2 ^ 32 \<Longrightarrow> skip_one 2 ((varint (of_nat (length body)) @ body) @ rest) = Inr rest"
  "length body = 4 \<Longrightarrow> skip_one 5 (body @ rest) = Inr rest"
  "length body = 8 \<Longrightarrow> skip_one 1 (body @ rest) = Inr rest"
  "varint_bytes bs \<Longrightarrow> skip_one 0 (bs @ rest) = Inr rest"
proof -
  have "unat v < 2 ^ 64" using unat_u32_bound [of v] by simp
  then show "skip_one 0 (varint v @ rest) = Inr rest" by (simp add: skip_one_def varint_def take_number_long)
  show "skip_one 0 (signed_varint i @ rest) = Inr rest"
    using unat_u64_bound [of "scast i"] by (simp add: skip_one_def signed_varint_def take_number_long)
  show "skip_one 0 (bs @ rest) = Inr rest" if "varint_bytes bs"
    using take_number_varint_bytes [OF that, of id rest] by (auto simp: skip_one_def)
qed (simp_all add: skip_one_def take_number_varint take_bytes_append unat_length)

lemma take_scalars_back:
  "take_number 10 of_nat 64 (signed_varint i @ rest) = Inr (i, rest)"
  "take_number 10 (\<lambda>n. 0 < n) 64 ([of_bool b] @ rest) = Inr (b, rest)"
  "r_bind (take_bytes 4 (to_le 4 t @ rest)) (\<lambda>(b, rest). Inr (from_le b, rest)) = Inr (t :: u32, rest)"
proof -
  show "take_number 10 of_nat 64 (signed_varint i @ rest) = Inr (i, rest)"
    using unat_u64_bound [of "scast i"] signed_varint_back [of i]
    by (simp add: signed_varint_def take_number_long del: of_nat_unat)
  have "[of_bool b] = leb (of_bool b)" by (subst leb.simps) simp
  then show "take_number 10 (\<lambda>n. 0 < n) 64 ([of_bool b] @ rest) = Inr (b, rest)"
    using take_number_long [of "of_bool b" "\<lambda>n. 0 < n" rest] by simp
qed (simp add: take_bytes_append from_to_le)

lemma tag_back:
  "take_number 5 (\<lambda>n. (of_nat (n div 8), of_nat (n mod 8))) 32 (varint t @ rest) =
    Inr ((t div 8, ucast (t mod 8) :: u8), rest)"
proof -
  have "unat (t div 8) = unat t div 8" "unat (t mod 8) = unat t mod 8"
    by (simp_all add: unat_div unat_mod)
  moreover have "of_nat (unat (t div 8)) = t div 8" "of_nat (unat (t mod 8)) = (ucast (t mod 8) :: u8)"
    by simp_all
  ultimately show ?thesis by (simp only: take_number_varint)
qed

lemma reference_reads: "reader_laws reference_micropb"
  unfolding reader_laws_def record_wire_reference
  using take_scalars_back(2) [of True] take_scalars_back(2) [of False] take_text_back skip_back
  by (simp add: reference_micropb_def tag_back take_number_varint take_scalars_back take_record_back [simplified])

lemma take_number_progress: "shorter bs (take_number k f bits bs)"
  unfolding shorter_def by (blast dest: take_number_shorter intro: less_imp_le)

lemma r_bind_shorter:
  "shorter bs r \<Longrightarrow> (\<And>v rest. r = Inr (v, rest) \<Longrightarrow> shorter rest (g (v, rest))) \<Longrightarrow> shorter bs (r_bind r g)"
  by (cases r) (auto simp: shorter_def intro: order_trans)

lemma take_bytes_progress: "shorter bs (take_bytes n bs)"
  using take_bytes_shorter by (auto simp: shorter_def)

lemma take_text_progress: "shorter bs (take_text n old bs)"
  unfolding take_text_def
  by (auto intro!: r_bind_shorter take_number_progress take_bytes_progress)

lemma take_record_progress:
  assumes "\<And>n bs'. length bs' \<le> length bs \<Longrightarrow> \<exists>r. f n bs' = Some r \<and> shorter bs' r"
  shows "\<exists>r. take_record f bs = Some r \<and> shorter bs r"
proof (cases "take_number 5 id 32 bs")
  case (Inr p)
  obtain n rest where p: "p = (n, rest)" by (cases p)
  have rest: "length rest \<le> length bs" using take_number_shorter Inr p by (metis less_imp_le)
  then obtain r where "f n rest = Some r" "shorter rest r" using assms by blast
  then show ?thesis
    using Inr p rest by (cases r) (auto simp: take_record_def shorter_def split: if_splits)
qed (simp add: take_record_def)

lemma skip_one_progress: "skip_one wire bs = Inr rest \<Longrightarrow> length rest \<le> length bs"
  by (auto simp: skip_one_def r_bind_Inr_iff dest!: take_number_shorter take_bytes_shorter split: if_splits)

lemma reference_progress: "progress_laws reference_micropb"
  unfolding progress_laws_def
  by (simp add: reference_micropb_def take_number_shorter take_number_progress take_text_progress
      take_bytes_progress r_bind_shorter skip_one_progress take_record_progress)

lemma reference_micropb_laws: "micropb_laws reference_micropb"
  by (simp add: micropb_laws_def reference_writes reference_reads reference_progress)

end
