(* ===== verification/Pb_Codec.thy ===== *)
theory Pb_Codec
  imports Codec Pb_Envelope Pb_Reference
begin

text \<open>
  The Protobuf path of the messaging codec with the generated code of
  \<^verbatim>\<open>generated/protobuf.rs\<close> in place of the assumption that it reads back what it writes:
  only the behaviour of the \<^verbatim>\<open>micropb\<close> crate is left as a hypothesis.
\<close>

section \<open>Decoding\<close>

text \<open>C18: unknown fields do not change the message that is decoded.  The encoded message, and every
  sequence of bytes made from it by putting any number of other fields before, between and
  after its own fields and the fields of its nested message, is decoded to the message.  The
  other fields are those whose number the message does not have, or has with another wire
  type, with any value of wire type 0, 1, 2 or 5.\<close>
theorem unknown_fields_are_skipped:
  assumes "micropb_laws pb" and "pb_envelope_typed m"
  shows "envelope_form pb m (envelope_wire pb m) \<and>
    (\<forall>bs. envelope_form pb m bs \<longrightarrow> envelope_from_bytes pb bs = Some (Inr m))"
proof (intro conjI allI impI)
  fix bs
  assume "envelope_form pb m bs"
  from read_message_whole [OF envelope_form_reads [OF assms this]]
  show "envelope_from_bytes pb bs = Some (Inr m)"
    unfolding envelope_from_bytes_def by (rule law_readers(12) [OF assms(1)])
qed (rule envelope_wire_form [OF assms])

text \<open>C20: decoding a Protobuf message ends for every sequence of bytes.\<close>
theorem protobuf_decoder_returns:
  assumes "micropb_laws pb"
  shows "\<exists>r. envelope_from_bytes pb bs = Some r"
  using envelope_message.all_returns [OF assms] by (simp add: envelope_from_bytes_def)

section \<open>The codec\<close>

definition with_protobuf :: "pb_envelope micropb \<Rightarrow> 'w message_lib \<Rightarrow> 'w message_lib" where
  "with_protobuf pb lib = lib\<lparr>
     pb_decode := (\<lambda>bs. case envelope_from_bytes pb bs of Some (Inr p) \<Rightarrow> Some p | _ \<Rightarrow> None),
     pb_encode := envelope_bytes pb\<rparr>"

lemma ascii_texts:
  "device_name s \<Longrightarrow> utf8_valid s" "hex_token s \<Longrightarrow> utf8_valid s" "list_all is_printable s \<Longrightarrow> utf8_valid s"
  by (rule utf8_valid_ascii, auto simp: device_name_def hex_token_def ascii_defs list_all_iff
      word_less_unat word_le_unat)+

lemma body_info:
  "pb_body_of m = Some (PbDeviceInfo i) \<Longrightarrow> \<exists>v. device_info_body m = Some v \<and> i = device_info_to_pb v"
  by (auto simp: pb_body_of_def Let_def split: option.splits)

lemma valid_pb_typed:
  assumes valid: "validate m Protobuf = Inr ()" and typed: "envelope_typed m"
  shows "pb_envelope_typed (envelope_to_pb m)"
proof -
  have "\<exists>dev. device_id m = Some dev \<and> device_name dev"
    "boot_id m = None \<or> session (boot_id m)" "client_session m = None \<or> session (client_session m)"
    "check_opt (validate_info Protobuf) (device_info_body m) = Inr ()"
    using valid unfolding validate_iff correlation_def by blast+
  then show ?thesis
    using typed ascii_texts
    by (auto simp: pb_envelope_typed_def envelope_to_pb_def envelope_typed_def session_def text_fits_def
        is_some_and_iff device_info_typed_def device_info_to_pb_def check_opt_def validate_info_def
        dest!: body_info split: option.splits)
qed

lemma envelope_max_value: "micropb_laws pb \<Longrightarrow> envelope_max pb = 153"
  by (simp add: envelope_max_def body_max_def ENUM_MAX_SIZE_def device_info_max_def status_max_def
      health_max_def error_max_def empty_max_def law_writers)

lemma protobuf_faithful:
  assumes "micropb_laws pb" and "validate m Protobuf = Inr ()" and "envelope_typed m"
  shows "pb_faithful (with_protobuf pb lib) (envelope_to_pb m)"
proof -
  let ?p = "envelope_to_pb m"
  have typed: "pb_envelope_typed ?p" by (rule valid_pb_typed [OF assms(2,3)])
  have "protocol_version m = Some 1" using assms(2) by (simp add: validate_iff)
  then have "envelope_wire pb ?p \<noteq> []"
    using law_writers(1,2) [OF assms(1), of 8] by (auto simp: envelope_wire_def envelope_to_pb_def field_wire_def)
  moreover have "envelope_from_bytes pb (envelope_wire pb ?p) = Some (Inr ?p)"
    unfolding envelope_from_bytes_def by (rule envelope_message.read_back_all [OF assms(1) typed])
  ultimately show ?thesis
    using envelope_message.encode_exact [OF assms(1) typed]
    by (auto simp: pb_faithful_def with_protobuf_def envelope_bytes_def split: if_splits)
qed

text \<open>C3: with the generated Protobuf code the codec encodes every valid message, in at most 153
  bytes and exactly when the buffer has room for them, and decodes what it encoded to the
  normalized message.\<close>
theorem protobuf_codec_is_total:
  assumes "micropb_laws pb" and "validate m Protobuf = Inr ()" and "envelope_typed m"
  shows "\<exists>bs. length bs \<le> 153 \<and>
    (\<forall>room. encode (with_protobuf pb lib) Protobuf m room = (if length bs \<le> room then Inr bs else Inl Size)) \<and>
    decode (with_protobuf pb lib) Protobuf bs = Inr (normalize m)"
proof -
  let ?lib = "with_protobuf pb lib" and ?n = "normalize m"
  have n: "validate ?n Protobuf = Inr ()" "envelope_typed ?n"
    using assms(2,3) by (simp_all add: validate_normalize normalize_typed)
  note typed = valid_pb_typed [OF n]
  define bs where "bs = envelope_wire pb (envelope_to_pb ?n)"
  have size: "envelope_size pb (envelope_to_pb ?n) = length bs"
    using envelope_message.sized [OF assms(1) typed] by (simp add: bs_def)
  have small: "length bs \<le> 153"
    using envelope_message.bounded [OF assms(1) typed] size envelope_max_value [OF assms(1)] by simp
  have "pb_encode ?lib (envelope_to_pb ?n) MAX_BODY = Some bs"
    using envelope_message.encode_exact [OF assms(1) typed, of MAX_BODY] size small
    by (simp add: with_protobuf_def envelope_bytes_def bs_def MAX_BODY_def)
  then have run: "encode ?lib Protobuf m room = (if length bs \<le> room then Inr bs else Inl Size)" for room
    using assms(2) small by (simp add: encode_def pb_bytes_def MAX_BODY_def min_def)
  moreover have "decode ?lib Protobuf bs = Inr ?n"
    using decode_encode [of ?lib Protobuf m 153 bs] protobuf_faithful [OF assms(1) n, of lib] run small
    by (simp add: lib_faithful_def MAX_BODY_def)
  ultimately show ?thesis using small by blast
qed

section \<open>Witnesses\<close>

definition envelope_reference :: "pb_envelope micropb" where
  "envelope_reference = reference_micropb"

lemma envelope_reference_laws: "micropb_laws envelope_reference"
  by (simp add: envelope_reference_def reference_micropb_laws)

definition wire_sample :: envelope where
  "wire_sample = to_envelope Protobuf sample_message"

lemma wire_sample_valid: "validate wire_sample Protobuf = Inr ()" "envelope_typed wire_sample"
  using validate_sound [OF sample_message_ok, of Protobuf]
  by (simp_all add: wire_sample_def sample_message_def envelope_typed_def to_envelope.simps envelope_default_def Let_def)

text \<open>An error reply with a field of number 1 that is length-delimited (tag \<^verbatim>\<open>0A\<close>) in front, a
  field of eight bytes before the body, one of four bytes inside it and an integer at the end.\<close>

definition error_reply :: pb_envelope where
  "error_reply = pb_envelope_default\<lparr>pb_protocol_version := Some 1, pb_kind := Some (MessageKind 14),
    pb_body := Some (PbError \<lparr>pb_code = Some (ErrorCode 2)\<rparr>)\<rparr>"

definition error_bytes :: bytes where
  "error_bytes = [210, 1, 7, 29, 9, 9, 9, 9, 8, 2]"

definition crowded_reply :: bytes where
  "crowded_reply = [10, 2, 1, 2] @ [8, 1] @ [16, 14] @ [121, 1, 2, 3, 4, 5, 6, 7, 8] @
    error_bytes @ [72, 150, 1]"

lemma reference_bytes:
  "varint32 envelope_reference = varint" "int32_bytes envelope_reference = signed_varint"
  "record_wire envelope_reference bs = varint (of_nat (length bs)) @ bs"
  by (simp_all add: envelope_reference_def) (simp_all add: reference_micropb_def)

lemma crowded_reply_form: "envelope_form envelope_reference error_reply crowded_reply"
proof -
  note eval = reference_bytes varint_def signed_varint_def leb.simps
  have unknown: "unknown_field envelope_reference envelope_knows [10, 2, 1, 2]"
    "unknown_field envelope_reference envelope_knows [121, 1, 2, 3, 4, 5, 6, 7, 8]"
    "unknown_field envelope_reference envelope_knows [72, 150, 1]"
    "unknown_field envelope_reference error_knows [29, 9, 9, 9, 9]"
    unfolding unknown_field_def
    by (rule exI [of _ 10], rule exI [of _ "[2, 1, 2]"], simp add: eval envelope_knows_def field_value_def,
        rule exI [of _ "[1, 2]"], simp add: eval)
      (rule exI [of _ 121], rule exI [of _ "[1, 2, 3, 4, 5, 6, 7, 8]"], simp add: eval envelope_knows_def field_value_def,
       rule exI [of _ 72], rule exI [of _ "[150, 1]"], simp add: eval envelope_knows_def field_value_def varint_bytes_def,
       rule exI [of _ 29], rule exI [of _ "[9, 9, 9, 9]"], simp add: eval error_knows_def field_value_def)
  have "mixed envelope_reference error_knows [[8, 2]] ([29, 9, 9, 9, 9] @ [8, 2] @ [])"
    by (intro mixed.intros unknown)
  then have "mixed envelope_reference error_knows (error_parts envelope_reference \<lparr>pb_code = Some (ErrorCode 2)\<rparr>)
      [29, 9, 9, 9, 9, 8, 2]"
    by (simp add: error_parts_def field_wire_def eval)
  then have "body_form envelope_reference (pb_body error_reply) error_bytes"
    unfolding body_form_def record_mixed_def error_bytes_def
    by (simp add: error_reply_def) (rule exI, rule conjI, assumption, simp add: eval)
  moreover have "mixed envelope_reference envelope_knows [[8, 1], [16, 14], [], [], [], [], [], [], error_bytes]
      ([10, 2, 1, 2] @ [8, 1] @ [16, 14] @ [121, 1, 2, 3, 4, 5, 6, 7, 8] @ [] @ [] @ [] @ [] @ [] @ [] @
        error_bytes @ [72, 150, 1] @ [])"
    by (intro mixed.intros unknown)
  then have "mixed envelope_reference envelope_knows (envelope_parts envelope_reference error_reply error_bytes) crowded_reply"
    by (simp add: crowded_reply_def envelope_parts_def error_reply_def pb_envelope_default_def field_wire_def eval)
  ultimately show ?thesis by (auto simp: envelope_form_def)
qed

theorem unknown_fields_are_skipped_witness:
  "envelope_from_bytes envelope_reference [10, 2, 1, 2, 8, 1, 16, 14, 121, 1, 2, 3, 4, 5, 6, 7, 8,
     210, 1, 7, 29, 9, 9, 9, 9, 8, 2, 72, 150, 1] = Some (Inr error_reply)"
proof -
  have "pb_envelope_typed error_reply"
    by (simp add: pb_envelope_typed_def error_reply_def pb_envelope_default_def)
  then show ?thesis
    using unknown_fields_are_skipped [OF envelope_reference_laws] crowded_reply_form
    by (auto simp: crowded_reply_def error_bytes_def)
qed

theorem protobuf_decoder_returns_witness:
  "\<exists>r. envelope_from_bytes envelope_reference [10, 255, 8] = Some r"
  by (rule protobuf_decoder_returns) (rule envelope_reference_laws)

theorem protobuf_codec_is_total_witness:
  "\<exists>bs. length bs \<le> 153 \<and>
    encode (with_protobuf envelope_reference (sample_lib wire_sample)) Protobuf wire_sample 153 = Inr bs \<and>
    decode (with_protobuf envelope_reference (sample_lib wire_sample)) Protobuf bs = Inr (normalize wire_sample)"
  using protobuf_codec_is_total [OF envelope_reference_laws wire_sample_valid, of "sample_lib wire_sample"] by auto

end
