(* ===== verification/Pb_Bench_Codec.thy ===== *)
theory Pb_Bench_Codec
  imports Bench_Codec Pb_Bench Pb_Codec
begin

text \<open>
  The benchmark envelope of \<^verbatim>\<open>generated/benchmark_protobuf.rs\<close> keeps the contract of a
  message, the Protobuf path of the benchmark codec rests on the \<^verbatim>\<open>micropb\<close> crate alone, and
  its decoder, which does not look at wire types, accepts messages with a damaged tag.
\<close>

section \<open>The one-of body\<close>

lemma writes_nothing: "writes_wire cap Some []"
  by (simp add: writes_wire_def emit_def)

lemmas bench_records = empty_message.record_writes configuration_message.record_writes
  limits_message.record_writes result_message.record_writes status_message.record_writes
  health_message.record_writes

lemma bench_body_writes: "micropb_laws pb \<Longrightarrow> writes_wire cap (bench_body_encode pb cap b) (bench_body_wire pb b)"
  unfolding bench_body_encode_def bench_body_wire_def put_record_def
  by (cases b; simp add: writes_nothing split: pb_bench_body.split;
      intro conjI impI allI wire_writes bench_records) auto

lemma bench_body_length: "micropb_laws pb \<Longrightarrow> length (bench_body_wire pb b) = bench_body_size pb b"
  unfolding bench_body_size_def bench_body_wire_def
  by (simp add: length_large_tag empty_message.record_length configuration_message.record_length
      limits_message.record_length result_message.record_length status_message.record_length
      health_message.record_length split: option.split pb_bench_body.split)

lemma bench_body_bounded: "micropb_laws pb \<Longrightarrow> bench_body_size pb b \<le> bench_body_max pb"
  using empty_message.record_bounded [of pb] configuration_message.record_bounded [of pb]
    limits_message.record_bounded [of pb] result_message.record_bounded [of pb]
    status_message.record_bounded [of pb] health_message.record_bounded [of pb]
  unfolding bench_body_size_def bench_body_max_def
  by (simp add: le_max_iff_disj add.commute split: option.split pb_bench_body.split)

lemma bench_body_reads:
  assumes "micropb_laws pb" and "pbb_body m = None"
  shows "fields_read pb (bench_field pb) m (bench_body_wire pb b) (m\<lparr>pbb_body := b\<rparr>)"
proof (cases b)
  case None
  moreover have "m\<lparr>pbb_body := None\<rparr> = m" using assms(2) by (cases m) simp
  ultimately show ?thesis by (simp add: bench_body_wire_def fields_read_Nil)
next
  case (Some v)
  note read = fields_read_one [OF assms(1)] empty_message.record_reads [OF assms(1)]
    configuration_message.record_reads [OF assms(1)] limits_message.record_reads [OF assms(1)]
    result_message.record_reads [OF assms(1)] bench_status_message.record_reads [OF assms(1)]
    bench_health_message.record_reads [OF assms(1)]
  show ?thesis
    unfolding Some
  proof (cases v; simp add: bench_body_wire_def)
  qed (use assms(2) in \<open>intro read(1); simp add: bench_field_def bench_body_field_def read(2-)\<close>)+
qed

lemma bench_body_returns: "micropb_laws pb \<Longrightarrow> \<exists>r. bench_body_field pb num wire m bs = Some r \<and> shorter bs r"
  unfolding bench_body_field_def
  by (simp add: empty_message.record_returns configuration_message.record_returns
      limits_message.record_returns result_message.record_returns bench_status_message.record_returns
      bench_health_message.record_returns skip_field_returns)

section \<open>The envelope\<close>

interpretation bench_message: root_message bench_pb_encode bench_size bench_max bench_field
  bench_wire pb_bench_default pb_bench_typed
proof (unfold_locales, goal_cases)
  case (1 pb m cap)
  then show ?case
    unfolding bench_pb_encode_def bench_wire_def by (intro wire_writes bench_body_writes)
next
  case (2 pb m)
  then show ?case
    by (simp add: bench_size_def bench_wire_def pb_bench_typed_def bench_body_length length_number_field
        length_text_field [OF 2(1), where n = 32] length_text_field [OF 2(1), where n = 16]
        length_text_field [OF 2(1), where n = 512])
next
  case (3 pb m)
  then show ?case
    unfolding bench_size_def bench_max_def ENUM_MAX_SIZE_def pb_bench_typed_def
    using text_bound [OF 3(1), of 32 "pbb_device_id m"] text_bound [OF 3(1), of 16 "pbb_boot_id m"]
      text_bound [OF 3(1), of 16 "pbb_session_id m"] long_text_bound [OF 3(1), of 512 "pbb_payload m"]
    by (intro add_mono field_size_le bench_body_bounded) (simp_all add: law_writers(3,8))
next
  case (4 pb)
  then show ?case
    by (simp add: bench_max_def bench_body_max_def ENUM_MAX_SIZE_def configuration_max_def limits_max_def
        result_max_def status_max_def health_max_def empty_max_def law_writers)
next
  case (5 pb m)
  note read = fields_read_field [OF 5(1)] law_readers [OF 5(1)]
  have typed: "text_fits 32 (pbb_device_id m)" "text_fits 16 (pbb_boot_id m)"
    "text_fits 16 (pbb_session_id m)" "text_fits 512 (pbb_payload m)"
    using 5(2) by (simp_all add: pb_bench_typed_def)
  let ?a = "pb_bench_default\<lparr>pbb_protocol_version := pbb_protocol_version m\<rparr>"
  let ?b = "?a\<lparr>pbb_kind := pbb_kind m\<rparr>"
  let ?c = "?b\<lparr>pbb_device_id := pbb_device_id m\<rparr>"
  let ?d = "?c\<lparr>pbb_boot_id := pbb_boot_id m\<rparr>"
  let ?e = "?d\<lparr>pbb_session_id := pbb_session_id m\<rparr>"
  let ?f = "?e\<lparr>pbb_request_id := pbb_request_id m\<rparr>"
  let ?g = "?f\<lparr>pbb_sequence := pbb_sequence m\<rparr>"
  let ?h = "?g\<lparr>pbb_uptime_ms := pbb_uptime_ms m\<rparr>"
  let ?i = "?h\<lparr>pbb_payload := pbb_payload m\<rparr>"
  let ?j = "?i\<lparr>pbb_run_epoch := pbb_run_epoch m\<rparr>"
  have steps: "fields_read pb (bench_field pb) pb_bench_default (field_wire pb 8 (varint32 pb) (pbb_protocol_version m)) ?a"
    "fields_read pb (bench_field pb) ?a (field_wire pb 16 (\<lambda>x. int32_bytes pb (kind_val x)) (pbb_kind m)) ?b"
    "fields_read pb (bench_field pb) ?b (field_wire pb 26 (string_bytes pb) (pbb_device_id m)) ?c"
    "fields_read pb (bench_field pb) ?c (field_wire pb 34 (string_bytes pb) (pbb_boot_id m)) ?d"
    "fields_read pb (bench_field pb) ?d (field_wire pb 42 (string_bytes pb) (pbb_session_id m)) ?e"
    "fields_read pb (bench_field pb) ?e (field_wire pb 48 (varint32 pb) (pbb_request_id m)) ?f"
    "fields_read pb (bench_field pb) ?f (field_wire pb 56 (varint32 pb) (pbb_sequence m)) ?g"
    "fields_read pb (bench_field pb) ?g (field_wire pb 64 (varint32 pb) (pbb_uptime_ms m)) ?h"
    "fields_read pb (bench_field pb) ?h (field_wire pb 74 (string_bytes pb) (pbb_payload m)) ?i"
    "fields_read pb (bench_field pb) ?i (field_wire pb 80 (varint32 pb) (pbb_run_epoch m)) ?j"
    by (insert typed, (rule read(1); simp add: bench_field_def store_def read(2-) pb_bench_default_def)+)
  have last: "fields_read pb (bench_field pb) ?j (bench_body_wire pb (pbb_body m)) m"
  proof -
    have "?j\<lparr>pbb_body := pbb_body m\<rparr> = m" "pbb_body ?j = None"
      by (cases m; simp add: pb_bench_default_def)+
    then show ?thesis using bench_body_reads [OF 5(1), of ?j] by metis
  qed
  show ?case unfolding bench_wire_def by (rule fields_read_append steps last)+
next
  case (6 pb)
  then show ?case
    by (auto simp: field_returns_def bench_field_def
        intro!: store_returns skip_field_returns law_progress bench_body_returns)
qed

section \<open>The codec\<close>

definition with_bench_protobuf :: "pb_bench_envelope micropb \<Rightarrow> 'w bench_lib \<Rightarrow> 'w bench_lib" where
  "with_bench_protobuf pb lib = lib\<lparr>
     pb_decode := (\<lambda>bs. case bench_from_bytes pb bs of Some (Inr p) \<Rightarrow> Some p | _ \<Rightarrow> None),
     pb_encode := bench_bytes pb\<rparr>"

lemma bench_max_value: "micropb_laws pb \<Longrightarrow> bench_max pb = 686"
  by (simp add: bench_max_def bench_body_max_def ENUM_MAX_SIZE_def configuration_max_def limits_max_def
      result_max_def status_max_def health_max_def empty_max_def law_writers)

lemma bench_valid_texts:
  assumes "bench_validate m f crc = Inr ()"
  shows "\<exists>dev. b_device_id m = Some dev \<and> device_name dev" "session (session_id m)"
    "b_boot_id m = None \<or> session (b_boot_id m)" "\<forall>p. payload m = Some p \<longrightarrow> list_all is_alphanumeric p"
    "b_protocol_version m = Some 1" "bench_count m = 1"
  using assms
  by (auto simp: bench_validate_def r_bind_Inr_iff require_def is_some_and_iff nonce_session check_opt_def
      Let_def split: if_splits option.splits)

lemma bench_pb_typed:
  assumes "bench_validate m f crc = Inr ()" and "bench_typed m"
  shows "pb_bench_typed (bench_to_pb m)"
proof -
  have "utf8_valid p" if "list_all is_alphanumeric p" for p
    using that alphanumeric_ascii by (intro utf8_valid_ascii) (auto simp: list_all_iff)
  then show ?thesis
    using bench_valid_texts [OF assms(1)] assms(2) ascii_texts
    by (auto simp: pb_bench_typed_def bench_to_pb_def bench_typed_def session_def text_fits_def
        is_some_and_iff split: option.splits)
qed

lemma bench_protobuf_runs:
  assumes "micropb_laws pb" and "bench_validate m f crc = Inr ()" and "bench_typed m"
  defines "bs \<equiv> bench_wire pb (bench_to_pb m)"
  shows "length bs \<le> 686" "bench_bytes pb (bench_to_pb m) cap = (if length bs \<le> cap then Some bs else None)"
    "bench_from_bytes pb bs = Some (Inr (bench_to_pb m))"
proof -
  note typed = bench_pb_typed [OF assms(2,3)]
  have size: "bench_size pb (bench_to_pb m) = length bs"
    using bench_message.sized [OF assms(1) typed] by (simp add: bs_def)
  show "length bs \<le> 686"
    using bench_message.bounded [OF assms(1) typed] size bench_max_value [OF assms(1)] by simp
  show "bench_bytes pb (bench_to_pb m) cap = (if length bs \<le> cap then Some bs else None)"
    using bench_message.encode_exact [OF assms(1) typed] size by (simp add: bench_bytes_def bs_def)
  show "bench_from_bytes pb bs = Some (Inr (bench_to_pb m))"
    unfolding bench_from_bytes_def bs_def by (rule bench_message.read_back_all [OF assms(1) typed])
qed

text \<open>C17: with the generated Protobuf code the benchmark codec encodes every valid message, in at
  most 686 bytes and exactly when the buffer has room for them, and decodes what it encoded to
  the normalized message.\<close>
theorem bench_protobuf_codec_is_total:
  assumes "micropb_laws pb" and "bench_validate m Protobuf crc = Inr ()" and "bench_typed m"
  shows "\<exists>bs. length bs \<le> 686 \<and>
    (\<forall>room. bench_encode_body (with_bench_protobuf pb lib) Protobuf crc m room =
       (if length bs \<le> room then Inr bs else Inl Size)) \<and>
    bench_decode_body (with_bench_protobuf pb lib) Protobuf crc bs = Inr (bench_normalize m)"
proof -
  let ?bs = "bench_wire pb (bench_to_pb m)"
  note run = bench_protobuf_runs [OF assms]
  have enc: "bench_encode_body (with_bench_protobuf pb lib) Protobuf crc m room =
      (if length ?bs \<le> room then Inr ?bs else Inl Size)" for room
    using assms(2) run(1) run(2) [of MAX_BODY]
    by (simp add: bench_encode_body_def pb_bytes_def with_bench_protobuf_def MAX_BODY_def min_def)
  have "?bs \<noteq> []"
    using law_writers(1,2) [OF assms(1), of 8] bench_valid_texts(5) [OF assms(2)]
    by (auto simp: bench_wire_def bench_to_pb_def field_wire_def)
  then have "pb_faithful (with_bench_protobuf pb lib) (bench_to_pb m)"
    using run by (auto simp: pb_faithful_def with_bench_protobuf_def split: if_splits)
  then have "bench_decode_body (with_bench_protobuf pb lib) Protobuf crc ?bs = Inr (bench_normalize m)"
    using bench_decode_encode [of "with_bench_protobuf pb lib" Protobuf m crc 686 ?bs] enc run(1)
    by (simp add: bench_faithful_def MAX_BODY_def)
  then show ?thesis using enc run(1) by blast
qed

section \<open>Damaged tags\<close>

lemma bench_first_field:
  assumes "micropb_laws pb" and "tag div 8 = 1" and "tag mod 8 \<in> {0, 1, 2, 5}"
  shows "fields_read pb (bench_field pb) m (varint32 pb tag @ varint32 pb v) (m\<lparr>pbb_protocol_version := Some v\<rparr>)"
  using assms by (intro fields_read_one) (auto simp: bench_field_def store_def law_readers)

text \<open>C19: the decoder of the benchmark service accepts a message whose first tag was changed from a
  varint (08) to another wire type (09, 0A or 0D) as the unchanged message, where the decoder of
  the ordinary messages takes such a field for an unknown one.\<close>
theorem benchmark_accepts_damaged_tags:
  assumes "micropb_laws pb" and "bench_validate m Protobuf crc = Inr ()" and "bench_typed m"
    and "tag div 8 = 1" and "tag mod 8 \<in> {0, 1, 2, 5}"
  shows "\<exists>rest. bench_bytes pb (bench_to_pb m) MAX_BODY = Some (varint32 pb 8 @ rest) \<and>
    bench_decode_body (with_bench_protobuf pb lib) Protobuf crc (varint32 pb tag @ rest) = Inr (bench_normalize m)"
proof -
  note run = bench_protobuf_runs [OF assms(1-3)]
  let ?F = "bench_field pb" and ?d = pb_bench_default and ?p = "bench_to_pb m"
  obtain tail where tail: "bench_wire pb ?p = (varint32 pb 8 @ varint32 pb 1) @ tail"
    using bench_valid_texts(5) [OF assms(2)] by (simp add: bench_wire_def bench_to_pb_def field_wire_def)
  let ?bad = "(varint32 pb tag @ varint32 pb 1) @ tail"
  have "unat (tag div 8) = 1" using assms(4) by simp
  then have "unat tag div 8 = 1" by (simp add: unat_div)
  then have "tag < 128" by (simp add: word_less_nat_alt)
  then have same: "length ?bad = length (bench_wire pb ?p)"
    using assms(1) by (simp add: tail length_small_tag)
  have "read_fields_loop pb ?F (length ?bad) ?bad ?d ?bad =
      read_fields_loop pb ?F (length ?bad) ?bad (?d\<lparr>pbb_protocol_version := Some 1\<rparr>) tail"
    using bench_first_field [OF assms(1,4,5), of ?d 1] unfolding fields_read_def by simp
  also have "\<dots> = read_fields_loop pb ?F (length ?bad) ?bad ?d (bench_wire pb ?p)"
    using bench_first_field [OF assms(1), of 8 ?d 1] same unfolding fields_read_def tail by simp
  also have "\<dots> = read_fields_loop pb ?F (length ?bad) ?bad ?p []"
    using bench_message.reads [OF assms(1) bench_pb_typed [OF assms(2,3)]] same
    unfolding fields_read_def by (metis add.right_neutral append_Nil2 diff_zero le_refl list.size(3))
  finally have "read_message pb ?F (length ?bad) ?d ?bad = Some (Inr (?p, []))"
    by (simp add: read_message_def read_fields_loop.simps)
  then have "bench_from_bytes pb ?bad = Some (Inr ?p)"
    unfolding bench_from_bytes_def by (rule law_readers(12) [OF assms(1)])
  moreover have "bench_from_pb ?p = m"
    using bench_valid_texts(6) [OF assms(2)] by (intro bench_pb_identity_one) simp
  moreover have "?bad \<noteq> []"
    using law_writers(1,2) [OF assms(1), of 1] by auto
  ultimately have "bench_decode_body (with_bench_protobuf pb lib) Protobuf crc ?bad = Inr (bench_normalize m)"
    using assms(2) by (simp add: bench_decode_body_def bench_parse_def with_bench_protobuf_def)
  moreover have "bench_bytes pb ?p MAX_BODY = Some (varint32 pb 8 @ varint32 pb 1 @ tail)"
    using run(1) run(2) [of MAX_BODY] by (simp add: MAX_BODY_def tail)
  ultimately show ?thesis by (intro exI [of _ "varint32 pb 1 @ tail"]) simp
qed

section \<open>Witnesses\<close>

definition bench_reference :: "pb_bench_envelope micropb" where
  "bench_reference = reference_micropb"

lemma bench_reference_laws: "micropb_laws bench_reference"
  by (simp add: bench_reference_def reference_micropb_laws)

lemma one_request_typed: "bench_typed one_request"
  by (simp add: one_request_def bench_default_def bench_typed_def)

theorem bench_protobuf_codec_is_total_witness:
  "\<exists>bs. length bs \<le> 686 \<and>
    bench_encode_body (with_bench_protobuf bench_reference (one_message_lib one_request)) Protobuf Off one_request 686 = Inr bs \<and>
    bench_decode_body (with_bench_protobuf bench_reference (one_message_lib one_request)) Protobuf Off bs =
      Inr (bench_normalize one_request)"
  using bench_protobuf_codec_is_total [OF bench_reference_laws one_request_valid [of Protobuf Off] one_request_typed,
      of "one_message_lib one_request"] by auto

theorem benchmark_accepts_damaged_tags_witness:
  "\<exists>rest. bench_bytes bench_reference (bench_to_pb one_request) MAX_BODY = Some (varint32 bench_reference 8 @ rest) \<and>
    bench_decode_body (with_bench_protobuf bench_reference (one_message_lib one_request)) Protobuf Off
      (varint32 bench_reference 10 @ rest) = Inr (bench_normalize one_request)"
  by (rule benchmark_accepts_damaged_tags [OF bench_reference_laws one_request_valid one_request_typed]) simp_all

end
