(* ===== verification/Bench_Stats.thy ===== *)
theory Bench_Stats
  imports Float64
begin

text \<open>
  \<^verbatim>\<open>tools/udp-benchmark/src/stats.rs\<close>: the summary of the latency samples of a run.
\<close>

section \<open>Summaries\<close>

record latency_stats =
  ls_samples :: u64
  ls_min :: u64
  ls_mean :: f64
  ls_p50 :: u64
  ls_p90 :: u64
  ls_p95 :: u64
  ls_p99 :: u64
  ls_p999 :: u64
  ls_max :: u64
  ls_stddev :: f64

definition no_stats :: latency_stats where
  "no_stats = \<lparr>ls_samples = 0, ls_min = 0, ls_mean = f_zero, ls_p50 = 0, ls_p90 = 0, ls_p95 = 0, ls_p99 = 0,
    ls_p999 = 0, ls_max = 0, ls_stddev = f_zero\<rparr>"

text \<open>Nothing is the panic of an index beyond the samples.\<close>

definition percentile_index :: "nat \<Rightarrow> rat \<Rightarrow> nat" where
  "percentile_index n fraction = f_to_usize (f_ceil (f_mul (f64_of (n - 1)) (to_f64 fraction)))"

definition percentile :: "u64 list \<Rightarrow> rat \<Rightarrow> u64 option" where
  "percentile xs fraction =
    (let index = percentile_index (length xs) fraction
     in if index < length xs then Some (xs ! index) else None)"

definition f_sum :: "f64 list \<Rightarrow> f64" where
  "f_sum xs = foldl f_add f_zero xs"

definition f64_of_u64 :: "u64 \<Rightarrow> f64" where
  "f64_of_u64 w = f64_of (unat w)"

definition summarize :: "u64 list \<Rightarrow> latency_stats option" where
  "summarize samples =
    (if samples = [] then Some no_stats
     else
       (let s = sort samples; count = f64_of (length s);
            mean = f_div (f_sum (map f64_of_u64 s)) count;
            variance = f_div (f_sum (map (\<lambda>v. let d = f_sub (f64_of_u64 v) mean in f_mul d d) s)) count
        in Option.bind (percentile s (50 / 100)) (\<lambda>p50.
           Option.bind (percentile s (90 / 100)) (\<lambda>p90.
           Option.bind (percentile s (95 / 100)) (\<lambda>p95.
           Option.bind (percentile s (99 / 100)) (\<lambda>p99.
           Option.bind (percentile s (999 / 1000)) (\<lambda>p999.
             Some \<lparr>ls_samples = of_nat (length s), ls_min = hd s, ls_mean = mean, ls_p50 = p50, ls_p90 = p90,
               ls_p95 = p95, ls_p99 = p99, ls_p999 = p999, ls_max = last s, ls_stddev = f_sqrt variance\<rparr>)))))))"

section \<open>The ranks\<close>

lemma rnd_fraction: "0 \<le> f \<Longrightarrow> f \<le> 1 \<Longrightarrow> 0 \<le> rnd f \<and> rnd f \<le> 1"
  using rnd_mono [of f 1] rnd_exact [of 1 0] rnd_nonneg [of f] by simp

lemma fraction_product:
  assumes "n < 2 ^ 53" and "0 \<le> f" and "f \<le> 1"
  shows "0 \<le> of_nat n * rnd f" "of_nat n * rnd f \<le> of_nat n" "rnd (of_nat n * rnd f) \<le> of_nat n"
proof -
  show b: "0 \<le> of_nat n * rnd f" "of_nat n * rnd f \<le> of_nat n"
    using rnd_fraction [OF assms(2,3)] by (simp_all add: mult_left_le)
  show "rnd (of_nat n * rnd f) \<le> of_nat n"
    using rnd_mono [OF b] rnd_integer [OF assms(1)] by simp
qed

lemma nat_ceiling_below: "(x :: rat) \<le> of_nat m \<Longrightarrow> nat \<lceil>x\<rceil> \<le> m"
  by (metis ceiling_le_iff nat_le_iff of_int_of_nat_eq)

lemma percentile_index_rank:
  assumes "n - 1 < 2 ^ 53" and "0 \<le> f" and "f \<le> 1"
  shows "percentile_index n f = nat \<lceil>rnd (of_nat (n - 1) * rnd f)\<rceil>"
proof -
  let ?x = "rnd (of_nat (n - 1) * rnd f)"
  have n: "(of_nat (n - 1) :: rat) < of_nat (2 ^ 53)" using assms(1) by (simp only: of_nat_less_iff)
  have x: "0 \<le> ?x" "?x \<le> of_nat (n - 1)"
    using fraction_product [OF assms] rnd_nonneg by blast+
  have "to_f64 f = F64 (rnd f)"
    using rnd_fraction [OF assms(2,3)] by (intro to_f64_finite) simp
  moreover have "to_f64 (of_nat (n - 1) * rnd f) = F64 ?x"
    using x n by (intro to_f64_finite) simp
  moreover have "nat \<lceil>?x\<rceil> \<le> n - 1" using x(2) by (rule nat_ceiling_below)
  ultimately show ?thesis
    using assms(1) by (simp add: percentile_index_def f64_of_small)
qed

lemma percentile_index_below:
  assumes "0 < n" and "n \<le> 2 ^ 53" and "0 \<le> f" and "f \<le> 1"
  shows "percentile_index n f < n"
proof -
  have "nat \<lceil>rnd (of_nat (n - 1) * rnd f)\<rceil> \<le> n - 1"
    using fraction_product(3) [of "n - 1" f] assms by (intro nat_ceiling_below) simp
  then show ?thesis using percentile_index_rank [of n f] assms by simp
qed

lemma percentile_index_mono:
  assumes "0 < n" and "n \<le> 2 ^ 53" and "0 \<le> f" and "f \<le> g" and "g \<le> 1"
  shows "percentile_index n f \<le> percentile_index n g"
proof -
  have "rnd (of_nat (n - 1) * rnd f) \<le> rnd (of_nat (n - 1) * rnd g)"
    using assms rnd_fraction [of f] by (intro rnd_mono mult_left_mono) simp_all
  then show ?thesis
    using assms by (simp add: percentile_index_rank nat_mono ceiling_mono)
qed

text \<open>The smallest rank is that of nearest rank, up to the rounding of the fraction.\<close>

lemma percentile_sorted:
  assumes "xs \<noteq> []" and "length xs \<le> 2 ^ 53" and "0 \<le> f" and "f \<le> 1"
  shows "\<exists>i < length xs. i = percentile_index (length xs) f \<and> percentile (sort xs) f = Some (sort xs ! i)"
  using percentile_index_below [of "length xs" f] assms by (simp add: percentile_def)

lemma summarize_total: "length xs \<le> 2 ^ 53 \<Longrightarrow> \<exists>st. summarize xs = Some st"
  using percentile_sorted [of xs] by (cases "xs = []") (fastforce simp: summarize_def Let_def)+

section \<open>Properties\<close>

text \<open>C27: the summary of any nonempty list of at most $2^{53}$ samples exists, and its
  minimum, percentiles and maximum are samples in ascending order, the minimum and the
  maximum those of the list.\<close>
theorem percentiles_are_ordered_samples:
  assumes "samples \<noteq> []" and "length samples \<le> 2 ^ 53"
  shows "\<exists>st. summarize samples = Some st \<and> ls_min st = Min (set samples) \<and> ls_max st = Max (set samples) \<and>
    sorted [ls_min st, ls_p50 st, ls_p90 st, ls_p95 st, ls_p99 st, ls_p999 st, ls_max st] \<and>
    {ls_p50 st, ls_p90 st, ls_p95 st, ls_p99 st, ls_p999 st} \<subseteq> set samples"
proof -
  let ?s = "sort samples" and ?i = "percentile_index (length samples)"
  have b: "?i f < length samples" if "0 \<le> f" "f \<le> 1" for f
    using percentile_index_below that assms by simp
  have p: "percentile ?s f = Some (?s ! ?i f)" if "0 \<le> f" "f \<le> 1" for f
    using b that by (simp add: percentile_def)
  have m: "?s ! ?i f \<le> ?s ! ?i g" if "0 \<le> f" "f \<le> g" "g \<le> 1" for f g
    using that assms b [of g] percentile_index_mono [of "length samples" f g]
    by (intro sorted_nth_mono) simp_all
  have ne: "?s \<noteq> []" using assms(1) by (metis length_0_conv length_sort)
  have e: "hd ?s \<le> ?s ! k" "?s ! k \<le> last ?s" if "k < length samples" for k
    using that ne sorted_nth_mono [of ?s 0 k] sorted_nth_mono [of ?s k "length samples - 1"]
    by (simp_all add: hd_conv_nth last_conv_nth)
  have bounds: "hd ?s \<le> x \<and> x \<le> last ?s" if "x \<in> set samples" for x
    using that e by (metis in_set_conv_nth length_sort set_sort)
  have "hd ?s \<in> set samples" "last ?s \<in> set samples"
    using hd_in_set [OF ne] last_in_set [OF ne] by simp_all
  then have "Min (set samples) = hd ?s" "Max (set samples) = last ?s" "hd ?s \<le> last ?s"
    using bounds by (auto intro: Min_eqI Max_eqI)
  moreover have "?s ! k \<in> set samples" if "k < length samples" for k
    using that nth_mem [of k ?s] by simp
  ultimately show ?thesis
    using assms(1) by (simp add: summarize_def Let_def p e b m)
qed

definition five_samples :: "u64 list" where
  "five_samples = [50, 10, 40, 20, 30]"

theorem percentiles_are_ordered_samples_witness:
  "\<exists>st. summarize five_samples = Some st \<and> ls_min st = 10 \<and> ls_max st = 50"
proof -
  have x: "five_samples \<noteq> []" "length five_samples \<le> 2 ^ 53" "Min (set five_samples) = 10" "Max (set five_samples) = 50"
    by (simp_all add: five_samples_def min_def max_def)
  show ?thesis
    using percentiles_are_ordered_samples [OF x(1,2)] unfolding x(3,4) by blast
qed

end
