(* ===== verification/Bench_Results.thy ===== *)
theory Bench_Results
  imports Load_Properties Bench_Stats
begin

text \<open>
  The result that \<^verbatim>\<open>BenchSocket::load\<close> of \<^verbatim>\<open>tools/udp-benchmark/src/runner.rs\<close> makes of an ended
  run, the plan of a fixed rate, and the two verdicts of the capacity search on a result.
  Durations are in nanoseconds.
\<close>

section \<open>Results\<close>

record load_result =
  lr_payload :: "nat option"
  lr_target :: f64
  lr_measurement :: f64
  lr_drain :: f64
  lr_window :: usize
  lr_offered :: f64
  lr_goodput :: f64
  lr_sent_rate :: f64
  lr_valid_rate :: f64
  lr_loss :: f64
  lr_counters :: packet_counters
  lr_latency :: latency_stats

definition percentage :: "u64 \<Rightarrow> u64 \<Rightarrow> f64" where
  "percentage numerator denominator =
    (if denominator = 0 then f_zero
     else f_div (f_mul (f64_of_u64 numerator) (f64_of 100)) (f64_of_u64 denominator))"

text \<open>\<^verbatim>\<open>Duration::as_secs_f64\<close>.\<close>

definition as_secs :: "nat \<Rightarrow> f64" where
  "as_secs d = f_add (f64_of (d div 1000000000)) (f_div (f64_of (d mod 1000000000)) (f64_of 1000000000))"

definition mbps :: "u64 \<Rightarrow> f64 \<Rightarrow> f64" where
  "mbps amount seconds = f_div (f_div (f_mul (f64_of_u64 amount) (f64_of 8)) seconds) (f64_of 1000000)"

definition load_result_of ::
  "load_plan \<Rightarrow> nat option \<Rightarrow> f64 \<Rightarrow> nat \<Rightarrow> nat \<Rightarrow> load_state \<Rightarrow> load_result option" where
  "load_result_of p fixed target measurement drain s =
    Option.bind (load_counters p s) (\<lambda>c. Option.bind (summarize (r_samples s)) (\<lambda>latency.
      let seconds = as_secs measurement
      in Some \<lparr>lr_payload = fixed, lr_target = target, lr_measurement = seconds, lr_drain = as_secs drain,
           lr_window = p_window p, lr_offered = mbps (sent_payload_bytes p s) seconds,
           lr_goodput = mbps (valid_payload_bytes p s) seconds,
           lr_sent_rate = f_div (f64_of_u64 (c_sent c)) seconds,
           lr_valid_rate = f_div (f64_of_u64 (c_valid_replies c)) seconds,
           lr_loss = percentage (c_missing c) (c_sent c), lr_counters = c, lr_latency = latency\<rparr>))"

text \<open>Nothing where the assertion on the size fails.\<close>

definition fixed_count :: "nat \<Rightarrow> f64 \<Rightarrow> nat \<Rightarrow> nat" where
  "fixed_count n rate duration =
    (let bits = f_mul (f_mul rate (f64_of 1000000)) (as_secs duration)
     in f_to_usize (f_max (f_ceil (f_div bits (f_mul (f64_of n) (f64_of 8)))) (f64_of 1)))"

definition fixed_plan :: "nat \<Rightarrow> f64 \<Rightarrow> nat \<Rightarrow> u16 list option" where
  "fixed_plan n rate duration =
    (if HEADER_LEN \<le> n \<and> n \<le> 65535 then Some (replicate (fixed_count n rate duration) (of_nat n)) else None)"

definition is_zero_loss :: "load_result \<Rightarrow> bool" where
  "is_zero_loss r \<longleftrightarrow> c_missing (lr_counters r) = 0 \<and> c_corrupt (lr_counters r) = 0 \<and>
    c_send_errors (lr_counters r) = 0 \<and> f_le (f_mul (lr_target r) (to_f64 (98 / 100))) (lr_offered r)"

definition is_saturated :: "load_result \<Rightarrow> bool" where
  "is_saturated r \<longleftrightarrow> f_le (to_f64 (1 / 10)) (lr_loss r) \<or>
    f_less (lr_offered r) (f_mul (lr_target r) (to_f64 (95 / 100))) \<or>
    f_less (lr_goodput r) (f_mul (lr_target r) (to_f64 (90 / 100)))"

section \<open>Errors of the floating-point operations\<close>

text \<open>A number that is neither very small nor very large is rounded within a thousandth.\<close>

definition moderate :: "rat \<Rightarrow> bool" where
  "moderate x \<longleftrightarrow> 1 / 10 ^ 40 \<le> x \<and> x \<le> 10 ^ 40"

definition near :: "rat \<Rightarrow> rat \<Rightarrow> bool" where
  "near x y \<longleftrightarrow> x * (999 / 1000) \<le> y \<and> y \<le> x * (1001 / 1000)"

lemma to_f64_near:
  assumes "moderate x"
  shows "\<exists>y. to_f64 x = F64 y \<and> near x y"
proof -
  have "(10 :: rat) ^ 40 \<le> 2 ^ 200" by simp
  also have "\<dots> \<le> 2 ^ 1022" by (rule power_increasing) simp_all
  finally have big: "(10 :: rat) ^ 40 \<le> 2 ^ 1022" .
  then have "2 powi (- 1022) \<le> (1 :: rat) / 10 ^ 40"
    by (simp add: power_int_minus_divide frac_le)
  then have low: "2 powi (- 1022) \<le> x" using assms by (simp add: moderate_def)
  have pos: "0 < x" using assms by (simp add: moderate_def)
  have "(2 :: rat) powi (- 53) \<le> 1 / 1000" by (simp add: power_int_minus_divide)
  then have "x * 2 powi (- 53) \<le> x * (1 / 1000)" using pos by (intro mult_left_mono) simp_all
  then have near: "near x (rnd x)"
    using rnd_error [OF low] unfolding near_def by linarith
  have "\<bar>rnd x\<bar> \<le> x * (1001 / 1000)" using near rnd_nonneg [of x] pos by (simp add: near_def)
  also have "\<dots> \<le> 10 ^ 40 * (1001 / 1000)" using assms by (intro mult_right_mono) (simp_all add: moderate_def)
  also have "\<dots> < 10 ^ 40 * 4" by simp
  also have "\<dots> \<le> 2 ^ 1022 * 4" using big by (intro mult_right_mono) simp_all
  also have "\<dots> = (2 :: rat) ^ 1024" by (simp flip: power_add [of 2 1022 2, simplified])
  finally show ?thesis using near by (intro exI [of _ "rnd x"]) (simp add: to_f64_finite)
qed

text \<open>One operation on a number between two moderate bounds.\<close>

lemma to_f64_between:
  assumes "moderate l" and "l \<le> x" and "x \<le> u" and "moderate u"
  obtains y where "to_f64 x = F64 y" "l * (999 / 1000) \<le> y" "y \<le> u * 2" "0 < y"
proof -
  have x: "moderate x" using assms by (auto simp: moderate_def)
  then obtain y where y: "to_f64 x = F64 y" "near x y" using to_f64_near by blast
  have l: "0 < l" using assms(1) by (simp add: moderate_def)
  have "l * (999 / 1000) \<le> y" "y \<le> u * 2" "0 < y"
    using y(2) assms(2,3) l by (simp_all add: near_def)
  then show thesis using that y(1) by blast
qed

lemma as_secs_whole:
  assumes "k < 2 ^ 53"
  shows "as_secs (k * 1000000000) = F64 (of_nat k)"
  using to_f64_integer [OF assms] f64_of_small [OF assms] by (simp add: as_secs_def f64_of_small)

text \<open>The plan of a fixed rate carries the bits of that rate, also after the rounding of every
  operation: $0.999^7$ is more than $0.98 \cdot 1.001^2$.\<close>

lemma fixed_count_bounds:
  assumes "HEADER_LEN \<le> n" and "n \<le> 65535" and "1 / 10 ^ 6 \<le> R" and "R \<le> 10 ^ 6" and "0 < k" and "k \<le> 10 ^ 5"
  shows "R * of_nat k * (10 ^ 6 / 8) * (999 / 1000) ^ 3 \<le> of_nat (fixed_count n (F64 R) (k * 1000000000) * n)"
    "fixed_count n (F64 R) (k * 1000000000) * n \<le> 10 ^ 18" "0 < fixed_count n (F64 R) (k * 1000000000)"
proof -
  let ?k = "of_nat k :: rat" and ?n = "of_nat n :: rat"
  have k: "1 \<le> ?k" "?k \<le> 10 ^ 5" using assms(5,6) by (simp_all flip: of_nat_power)
  have n: "32 \<le> ?n" "?n \<le> 65535" using assms(1,2) by (simp_all add: HEADER_LEN_def)
  have V: "1 / 10 ^ 6 \<le> R * ?k" "R * ?k \<le> 10 ^ 11"
    using mult_mono [OF assms(3) k(1)] mult_mono [OF assms(4) k(2)] assms(3) k by simp_all
  obtain a where a: "to_f64 (R * 10 ^ 6) = F64 a" "R * 10 ^ 6 * (999 / 1000) \<le> a" "a \<le> R * 10 ^ 6 * 2" "0 < a"
    using assms(3,4) by (rule_tac to_f64_between [of "R * 10 ^ 6" "R * 10 ^ 6" "R * 10 ^ 6"]) (simp_all add: moderate_def)
  have "R * ?k * (10 ^ 6 * (999 / 1000)) \<le> a * ?k" "a * ?k \<le> R * ?k * (10 ^ 6 * 2)"
    using mult_right_mono [OF a(2), of ?k] mult_right_mono [OF a(3), of ?k] k by (simp_all add: mult_ac)
  then obtain t where t: "to_f64 (a * ?k) = F64 t" "R * ?k * (10 ^ 6 * (999 / 1000)) * (999 / 1000) \<le> t"
      "t \<le> R * ?k * (10 ^ 6 * 2) * 2" "0 < t"
    using V by (rule_tac to_f64_between [of "R * ?k * (10 ^ 6 * (999 / 1000))" "a * ?k" "R * ?k * (10 ^ 6 * 2)"])
      (simp_all add: moderate_def)
  have n8: "f_mul (f64_of n) (f64_of 8) = F64 (of_nat (n * 8))"
    using assms(2) to_f64_integer [of "n * 8"] by (simp add: f64_of_small)
  have lq: "moderate (R * ?k * (10 ^ 6 * (999 / 1000)) * (999 / 1000) / (?n * 8))"
    "moderate (R * ?k * (10 ^ 6 * 2) * 2 / (?n * 8))"
    using V n by (simp_all add: moderate_def pos_le_divide_eq pos_divide_le_eq)
  have w: "0 \<le> ?n * 8" by simp
  obtain q where q: "to_f64 (t / (?n * 8)) = F64 q"
      "R * ?k * (10 ^ 6 * (999 / 1000)) * (999 / 1000) / (?n * 8) * (999 / 1000) \<le> q"
      "q \<le> R * ?k * (10 ^ 6 * 2) * 2 / (?n * 8) * 2" "0 < q"
    by (rule to_f64_between [OF lq(1) divide_right_mono [OF t(2) w] divide_right_mono [OF t(3) w] lq(2)]) (rule that)
  let ?c = "fixed_count n (F64 R) (k * 1000000000)"
  have ceil: "of_int \<lceil>q\<rceil> \<le> q + 1" "q \<le> of_int \<lceil>q\<rceil>" "1 \<le> \<lceil>q\<rceil>"
    using q(4) by (simp_all add: of_int_ceiling_le_add_one le_of_int_ceiling)
  have big: "q * ?n \<le> 10 ^ 17 * 6"
    using mult_right_mono [OF q(3), of ?n] n V by simp
  have "q * 32 \<le> q * ?n" using q(4) n(1) by (intro mult_left_mono) simp_all
  then have "(of_int \<lceil>q\<rceil> :: rat) \<le> of_int (10 ^ 18)"
    using big ceil(1) by simp
  then have lim: "\<lceil>q\<rceil> \<le> 10 ^ 18" by (simp only: of_int_le_iff)
  have "nat \<lceil>q\<rceil> \<le> nat (10 ^ 18)" using lim by (rule nat_mono)
  then have "nat \<lceil>q\<rceil> \<le> 18446744073709551615" by (rule order_trans) simp
  then have "min (nat \<lceil>q\<rceil>) 18446744073709551615 = nat \<lceil>q\<rceil>" by (rule min_absorb1)
  then have c: "?c = nat \<lceil>q\<rceil>"
    using a(1) t(1,4) q(1) n8 ceil(3) as_secs_whole [of k] assms(6) n(1)
    by (simp add: fixed_count_def f64_of_small f_max_def Let_def)
  then have rc: "of_nat ?c = (of_int \<lceil>q\<rceil> :: rat)" using ceil(3) by simp
  have "R * ?k * (10 ^ 6 / 8) * (999 / 1000) ^ 3 \<le> q * ?n"
    using mult_right_mono [OF q(2), of ?n] n by (simp add: power3_eq_cube)
  also have "\<dots> \<le> of_nat (?c * n)" using ceil(2) by (simp add: rc mult_right_mono)
  finally show "R * ?k * (10 ^ 6 / 8) * (999 / 1000) ^ 3 \<le> of_nat (?c * n)" .
  have "of_nat (?c * n) \<le> (q + 1) * ?n" using ceil(1) by (simp add: rc mult_right_mono)
  also have "\<dots> \<le> of_nat (10 ^ 18)" using big n by (simp add: distrib_right)
  finally show "?c * n \<le> 10 ^ 18" by (simp only: of_nat_le_iff)
  show "0 < ?c" using c ceil(3) by simp
qed

lemma plan_sum: "n \<le> 65535 \<Longrightarrow> sum_list (map ucast (replicate c (of_nat n :: u16))) = (of_nat (c * n) :: u64)"
proof -
  assume "n \<le> 65535"
  then have "unat (of_nat n :: u16) = n" by (simp add: unat_of_nat)
  then have "(ucast (of_nat n :: u16) :: u64) = of_nat n" by (metis of_nat_unat)
  then show ?thesis by (simp add: sum_list_replicate)
qed

lemma plan_meets_rate:
  assumes "fixed_plan n (F64 R) (k * 1000000000) = Some sizes" and "1 / 10 ^ 6 \<le> R" and "R \<le> 10 ^ 6"
    and "0 < k" and "k \<le> 10 ^ 5"
  shows "f_le (f_mul (F64 R) (to_f64 (98 / 100))) (mbps (sum_list (map ucast sizes)) (as_secs (k * 1000000000)))"
proof -
  let ?k = "of_nat k :: rat" and ?c = "fixed_count n (F64 R) (k * 1000000000)"
  have n: "HEADER_LEN \<le> n" "n \<le> 65535" and sizes: "sizes = replicate ?c (of_nat n)"
    using assms(1) by (simp_all add: fixed_plan_def split: if_splits)
  note c = fixed_count_bounds [OF n assms(2-5)]
  let ?B = "of_nat (?c * n) :: rat"
  have k: "1 \<le> ?k" "?k \<le> 10 ^ 5" using assms(4,5) by (simp_all flip: of_nat_power)
  have B: "1 \<le> ?B" "?B \<le> 10 ^ 18"
  proof -
    have "1 \<le> ?c * n" using c(3) n(1) by (simp add: HEADER_LEN_def Suc_le_eq)
    then have "of_nat 1 \<le> ?B" by (simp only: of_nat_le_iff)
    then show "1 \<le> ?B" by simp
    have "?B \<le> of_nat (10 ^ 18)" using c(2) by (simp only: of_nat_le_iff)
    then show "?B \<le> 10 ^ 18" by simp
  qed
  have sum: "f64_of_u64 (sum_list (map ucast sizes)) = to_f64 ?B"
    using c(2) n(2) by (simp add: sizes plan_sum f64_of_u64_def f64_of_def unat_of_nat del: map_replicate of_nat_mult)
  obtain b where b: "to_f64 ?B = F64 b" "?B * (999 / 1000) \<le> b" "b \<le> ?B * 2" "0 < b"
    using to_f64_between [of ?B ?B ?B] B by (auto simp: moderate_def)
  obtain e where e: "to_f64 (b * 8) = F64 e" "b * 8 * (999 / 1000) \<le> e" "e \<le> b * 8 * 2" "0 < e"
    using to_f64_between [of "b * 8" "b * 8" "b * 8"] b B by (auto simp: moderate_def)
  have K: "0 < ?k" "?k \<noteq> 0" using k(1) by simp_all
  have "moderate (e / ?k)"
    using e b(2,3) B K k(2) by (simp add: moderate_def pos_le_divide_eq pos_divide_le_eq)
  then obtain g where g: "to_f64 (e / ?k) = F64 g" "e / ?k * (999 / 1000) \<le> g" "g \<le> e / ?k * 2" "0 < g"
    using to_f64_between [of "e / ?k" "e / ?k" "e / ?k"] by blast
  have "e / 10 ^ 5 \<le> e / ?k" "e / ?k \<le> e"
    using e(4) k K divide_left_mono [of ?k "10 ^ 5" e] divide_left_mono [of 1 ?k e] by simp_all
  note ek = this
  have e5: "e / 10 ^ 5 * (999 / 1000) \<le> g"
    by (rule order_trans [OF mult_right_mono [OF ek(1)] g(2)]) simp
  have "g \<le> e * 2"
    by (rule order_trans [OF g(3) mult_right_mono [OF ek(2)]]) simp
  then have g64: "g \<le> ?B * 64" using e(3) b(3) by linarith
  have "?B * (8 * (999 / 1000) * (999 / 1000)) \<le> e" using e(2) b(2) by linarith
  then have low: "1 / 10 ^ 5 * (999 / 1000) ^ 3 \<le> g" "g \<le> 10 ^ 20"
    using e5 g64 B by (simp_all add: power3_eq_cube)
  then obtain r where r: "to_f64 (g / 10 ^ 6) = F64 r" "g / 10 ^ 6 * (999 / 1000) \<le> r" "r \<le> g / 10 ^ 6 * 2" "0 < r"
    using to_f64_between [of "g / 10 ^ 6" "g / 10 ^ 6" "g / 10 ^ 6"] by (auto simp: moderate_def power3_eq_cube)
  obtain z where z: "to_f64 (98 / 100) = F64 z" "near (98 / 100) z"
    using to_f64_near [of "98 / 100"] by (auto simp: moderate_def)
  have "moderate (R * z)"
    using mult_mono [OF assms(2), of "1 / 10" z] mult_mono [OF assms(3), of z 1] z(2) assms(2)
    by (simp add: moderate_def near_def)
  then obtain y where y: "to_f64 (R * z) = F64 y" "near (R * z) y"
    using to_f64_near by blast
  have "y \<le> R * z * (1001 / 1000)" using y(2) by (simp add: near_def)
  also have "\<dots> \<le> R * (98 / 100 * (1001 / 1000)) * (1001 / 1000)"
    using z(2) assms(2) by (simp add: near_def)
  also have "\<dots> \<le> R * (999 / 1000) ^ 7"
    using assms(2) by (simp add: power_numeral_reduce)
  also have "\<dots> \<le> r"
  proof -
    have "e * (999 / 1000) \<le> g * ?k"
      using mult_right_mono [OF g(2), of ?k] K by simp
    moreover have "g / 10 ^ 6 * (999 / 1000) * ?k \<le> r * ?k"
      using r(2) K(1) by (intro mult_right_mono) simp_all
    moreover have "R * ?k * (10 ^ 6 / 8) * (999 / 1000) ^ 3 \<le> ?B" by (rule c(1))
    ultimately have "R * ?k * (999 / 1000) ^ 7 \<le> r * ?k"
      using e(2) b(2) by (simp add: power_numeral_reduce)
    then show ?thesis using K by simp
  qed
  finally have "y \<le> r" .
  then show ?thesis
    using sum b e g r z y k as_secs_whole [of k] assms(5) by (simp add: mbps_def f64_of_small)
qed

section \<open>Properties\<close>

text \<open>C26: a trial of the capacity search whose plan was made for its rate is judged free of loss
  exactly when no packet is missing, corrupt or failed, however few of the planned packets
  the sender got to send: the test of the offered rate always passes.\<close>
theorem zero_loss_ignores_unsent:
  assumes "fixed_plan n (F64 R) (k * 1000000000) = Some (p_sizes p)" and "1 / 10 ^ 6 \<le> R" and "R \<le> 10 ^ 6"
    and "0 < k" and "k \<le> 10 ^ 5" and "load_run p s"
    and "load_result_of p (Some n) (F64 R) (k * 1000000000) drain s = Some r"
  shows "is_zero_loss r \<longleftrightarrow>
    c_missing (lr_counters r) = 0 \<and> c_corrupt (lr_counters r) = 0 \<and> c_send_errors (lr_counters r) = 0"
proof -
  obtain c where c: "load_counters p s = Some c" "lr_counters r = c" "lr_target r = F64 R"
      "lr_offered r = mbps (sent_payload_bytes p s) (as_secs (k * 1000000000))"
    using assms(7) by (auto simp: load_result_of_def Let_def bind_eq_Some_conv)
  have "length (p_sizes p) \<le> 10 ^ 18"
  proof -
    have n: "HEADER_LEN \<le> n" "n \<le> 65535" and z: "p_sizes p = replicate (fixed_count n (F64 R) (k * 1000000000)) (of_nat n)"
      using assms(1) by (simp_all add: fixed_plan_def split: if_splits)
    have "length (p_sizes p) * 1 \<le> fixed_count n (F64 R) (k * 1000000000) * n"
      unfolding z length_replicate using n(1) by (intro mult_left_mono) (simp_all add: HEADER_LEN_def)
    then show ?thesis using fixed_count_bounds(2) [OF n assms(2-5)] by simp
  qed
  then have "sent_payload_bytes p s = sum_list (map ucast (p_sizes p))" if "c_send_errors c = 0"
    using that unsent_packets_are_reported_as_sent [OF assms(6) _ c(1)] by simp
  then show ?thesis
    using plan_meets_rate [OF assms(1-5)] c by (auto simp: is_zero_loss_def)
qed

lemma two_packets_planned: "fixed_plan 32 (F64 (1 / 2048)) (1 * 1000000000) = Some (p_sizes two_packets)"
proof -
  have e: "to_f64 (15625 / 2 ^ m) = F64 (15625 / 2 ^ m)" if "m \<le> 13" for m
  proof -
    have r: "rnd (15625 / 2 ^ m) = 15625 / 2 ^ m"
      using that rnd_exact [of 15625 "- int m"] by (simp add: power_int_minus_divide)
    have "(15625 :: rat) / 2 ^ m \<le> 15625" by (simp add: pos_divide_le_eq)
    also have "\<dots> < 2 ^ 1024" by simp
    finally have "\<bar>rnd (15625 / 2 ^ m)\<bar> < 2 ^ 1024" unfolding r by (subst abs_of_nonneg) simp_all
    then show ?thesis using to_f64_finite r by metis
  qed
  have "\<lceil>15625 / 8192 :: rat\<rceil> = 2" by (simp add: ceiling_eq_iff)
  then have "fixed_count 32 (F64 (1 / 2048)) (1 * 1000000000) = 2"
    using e [of 5] e [of 13] as_secs_whole [of 1] to_f64_integer [of 256]
    by (simp add: fixed_count_def f64_of_small f_max_def Let_def)
  then show ?thesis by (simp add: fixed_plan_def HEADER_LEN_def two_packets_def numeral_2_eq_2)
qed

theorem zero_loss_ignores_unsent_witness:
  "\<exists>r. load_result_of two_packets (Some 32) (F64 (1 / 2048)) (1 * 1000000000) 0 one_answered = Some r \<and>
    c_planned (lr_counters r) = 2 \<and> c_sent (lr_counters r) = 1 \<and> is_zero_loss r"
proof -
  obtain st where "summarize (r_samples one_answered) = Some st"
    using summarize_total [of "r_samples one_answered"] by (auto simp: one_answered_def)
  then obtain r where r: "load_result_of two_packets (Some 32) (F64 (1 / 2048)) (1 * 1000000000) 0 one_answered = Some r"
      "lr_counters r = no_counters\<lparr>c_planned := 2, c_sent := 1, c_valid_replies := 1\<rparr>"
    by (simp add: load_result_of_def one_answered_counters Let_def)
  have "is_zero_loss r"
    using zero_loss_ignores_unsent [OF two_packets_planned _ _ _ _ one_answered_run r(1)] r(2)
    by (simp add: no_counters_def)
  then show ?thesis using r by (simp add: no_counters_def)
qed

end
