(* ===== verification/Capacity_Search.thy ===== *)
theory Capacity_Search
  imports Bench_Results
begin

text \<open>
  \<^verbatim>\<open>BenchSocket::capacity\<close> of \<^verbatim>\<open>tools/udp-benchmark/src/runner.rs\<close>: for every packet size the
  coarse rates in turn up to the first saturated one, then a bisection between the best rate
  without loss and the saturated one.  What a load run gives is the answer of an
  environment that sees all runs before it.
\<close>

section \<open>Trials\<close>

record load_call =
  lc_plan :: "u16 list"
  lc_fixed :: "nat option"
  lc_rate :: f64
  lc_measurement :: nat
  lc_drain :: nat
  lc_timeout :: nat
  lc_window :: usize
  lc_run_id :: u64

datatype 'e search_error = Load_Failed 'e | Search_Panic

type_synonym 'e loader = "load_call list \<Rightarrow> load_call \<Rightarrow> 'e + load_result"

definition run_load ::
  "'e loader \<Rightarrow> load_call \<Rightarrow> load_call list \<Rightarrow> 'e search_error + load_result \<times> load_call list" where
  "run_load load c h = (case load h c of Inl e \<Rightarrow> Inl (Load_Failed e) | Inr r \<Rightarrow> Inr (r, h @ [c]))"

record capacity_options =
  co_rates :: "f64 list"
  co_measurement :: nat
  co_warmup :: nat
  co_drain :: nat
  co_timeout :: nat
  co_window :: usize
  co_refinements :: nat
  co_run_id :: u64

definition fixed_load ::
  "'e loader \<Rightarrow> capacity_options \<Rightarrow> nat \<Rightarrow> f64 \<Rightarrow> nat \<Rightarrow> nat \<Rightarrow> u64 \<Rightarrow> load_call list \<Rightarrow>
    'e search_error + load_result \<times> load_call list" where
  "fixed_load load opts n rate duration drain run_id h =
    (case fixed_plan n rate duration of
       None \<Rightarrow> Inl Search_Panic
     | Some plan \<Rightarrow> run_load load \<lparr>lc_plan = plan, lc_fixed = Some n, lc_rate = rate, lc_measurement = duration,
         lc_drain = drain, lc_timeout = co_timeout opts, lc_window = co_window opts, lc_run_id = run_id\<rparr> h)"

definition warm_id :: "capacity_options \<Rightarrow> u64" where
  "warm_id opts = xor (co_run_id opts) 0xfeedfacedeadbeef"

definition warm_load ::
  "'e loader \<Rightarrow> capacity_options \<Rightarrow> nat \<Rightarrow> f64 \<Rightarrow> load_call list \<Rightarrow> 'e search_error + load_call list" where
  "warm_load load opts n rate h =
    (if co_warmup opts = 0 then Inr h
     else r_bind (fixed_load load opts n rate (co_warmup opts) 100000000 (warm_id opts) h)
       (\<lambda>(_, h). Inr h))"

text \<open>A warm-up and a trial.\<close>

definition trial ::
  "'e loader \<Rightarrow> capacity_options \<Rightarrow> nat \<Rightarrow> f64 \<Rightarrow> u64 \<Rightarrow> load_call list \<Rightarrow>
    'e search_error + load_result \<times> load_call list" where
  "trial load opts n rate run_id h =
    r_bind (warm_load load opts n rate h) (fixed_load load opts n rate (co_measurement opts) (co_drain opts) run_id)"

definition size_run_id :: "capacity_options \<Rightarrow> nat \<Rightarrow> u64" where
  "size_run_id opts index = co_run_id opts + push_bit 32 (of_nat index)"

section \<open>The search\<close>

text \<open>The best rate without loss, the trials, and the runs so far.\<close>

type_synonym search_state = "f64 \<times> load_result list \<times> load_call list"

fun coarse_search ::
  "'e loader \<Rightarrow> capacity_options \<Rightarrow> nat \<Rightarrow> nat \<Rightarrow> f64 list \<Rightarrow> search_state \<Rightarrow>
    'e search_error + f64 option \<times> search_state" where
  "coarse_search load opts n index [] s = Inr (None, s)"
| "coarse_search load opts n index (rate # rates) (best, trials, h) =
    r_bind (trial load opts n rate (size_run_id opts index + of_nat (length trials)) h) (\<lambda>(r, h).
      let best = (if is_zero_loss r then f_max best rate else best); trials = trials @ [r]
      in if is_saturated r then Inr (Some rate, best, trials, h)
         else coarse_search load opts n index rates (best, trials, h))"

fun refine ::
  "'e loader \<Rightarrow> capacity_options \<Rightarrow> nat \<Rightarrow> nat \<Rightarrow> f64 \<Rightarrow> f64 \<Rightarrow> nat list \<Rightarrow> search_state \<Rightarrow>
    'e search_error + search_state" where
  "refine load opts n index lower upper [] s = Inr s"
| "refine load opts n index lower upper (refinement # refinements) (best, trials, h) =
    (if f_le lower f_zero \<or> f_less (f_sub upper lower) (to_f64 (5 / 100)) then Inr (best, trials, h)
     else
       (let rate = f_div (f_add lower upper) (f64_of 2)
        in r_bind (trial load opts n rate (size_run_id opts index + (0x1000 + of_nat refinement)) h) (\<lambda>(r, h).
             if is_zero_loss r
             then refine load opts n index rate upper refinements (f_max best rate, trials @ [r], h)
             else refine load opts n index lower rate refinements (best, trials @ [r], h))))"

record capacity_result =
  cr_payload :: nat
  cr_zero_loss :: f64
  cr_peak_goodput :: f64
  cr_saturated :: bool
  cr_trials :: "load_result list"

definition size_capacity ::
  "'e loader \<Rightarrow> capacity_options \<Rightarrow> nat \<Rightarrow> nat \<Rightarrow> load_call list \<Rightarrow>
    'e search_error + capacity_result \<times> load_call list" where
  "size_capacity load opts index n h =
    r_bind (coarse_search load opts n index (co_rates opts) (f_zero, [], h)) (\<lambda>(upper, best, trials, h).
    r_bind (case upper of
              None \<Rightarrow> Inr (best, trials, h)
            | Some u \<Rightarrow> refine load opts n index best u [0..<co_refinements opts] (best, trials, h)) (\<lambda>(best, trials, h).
      Inr (\<lparr>cr_payload = n, cr_zero_loss = best, cr_peak_goodput = foldl f_max f_zero (map lr_goodput trials),
         cr_saturated = (upper \<noteq> None), cr_trials = trials\<rparr>, h)))"

fun capacity ::
  "'e loader \<Rightarrow> capacity_options \<Rightarrow> (nat \<times> nat) list \<Rightarrow> load_call list \<Rightarrow>
    'e search_error + capacity_result list \<times> load_call list" where
  "capacity load opts [] h = Inr ([], h)"
| "capacity load opts ((index, n) # sizes) h =
    r_bind (size_capacity load opts index n h) (\<lambda>(c, h).
    r_bind (capacity load opts sizes h) (\<lambda>(cs, h). Inr (c # cs, h)))"

section \<open>The best rate without loss\<close>

definition nonneg :: "f64 \<Rightarrow> bool" where
  "nonneg x \<longleftrightarrow> f_le f_zero x"

lemma nonneg_to_f64: "0 \<le> x \<Longrightarrow> nonneg (to_f64 x)"
  using rnd_nonneg [of x] by (simp add: nonneg_def f_zero_def to_f64_def Let_def)

lemma nonneg_add: "nonneg x \<Longrightarrow> nonneg y \<Longrightarrow> nonneg (f_add x y)"
  using nonneg_to_f64 by (cases x; cases y) (auto simp: nonneg_def f_zero_def)

lemma nonneg_half: "nonneg x \<Longrightarrow> nonneg (f_div x (f64_of 2))"
  using nonneg_to_f64 by (cases x) (auto simp: nonneg_def f_zero_def f64_of_small)

lemma nonneg_not_nan: "nonneg x \<Longrightarrow> x \<noteq> F64_NaN"
  by (auto simp: nonneg_def f_zero_def)

lemma nonneg_max: "nonneg x \<Longrightarrow> nonneg y \<Longrightarrow> nonneg (f_max x y)"
  using f_max_bounds(4) [of x y] nonneg_not_nan by metis

definition best_of :: "f64 \<Rightarrow> load_result list \<Rightarrow> bool" where
  "best_of best trials \<longleftrightarrow> nonneg best \<and>
    (best = f_zero \<or> (\<exists>t \<in> set trials. is_zero_loss t \<and> lr_target t = best)) \<and>
    (\<forall>t \<in> set trials. is_zero_loss t \<longrightarrow> f_le (lr_target t) best)"

lemma best_of_start: "best_of f_zero []"
  by (simp add: best_of_def nonneg_def f_le_refl f_zero_def)

lemma best_of_trial:
  assumes "best_of best trials" and "nonneg rate" and "lr_target r = rate"
  shows "best_of (if is_zero_loss r then f_max best rate else best) (trials @ [r])"
proof (cases "is_zero_loss r")
  case True
  have nn: "nonneg best" using assms(1) by (simp add: best_of_def)
  note m = f_max_bounds [OF nonneg_not_nan [OF nn] nonneg_not_nan [OF assms(2)]]
  have "f_le (lr_target t) (f_max best rate)" if "t \<in> set trials" "is_zero_loss t" for t
    using that assms(1) m(1) f_le_trans unfolding best_of_def by blast
  then show ?thesis
    using True assms(1,3) m(2,4) nonneg_max [OF nn assms(2)] by (auto simp: best_of_def)
qed (use assms(1) in \<open>auto simp: best_of_def\<close>)

section \<open>The identities of the runs\<close>

text \<open>The identities used for trials, and that they are the first ones in the order of the search.\<close>

definition trial_ids :: "capacity_options \<Rightarrow> load_call list \<Rightarrow> u64 list" where
  "trial_ids opts h = filter (\<lambda>i. i \<noteq> warm_id opts) (map lc_run_id h)"

definition ids_below :: "capacity_options \<Rightarrow> load_call list \<Rightarrow> nat \<Rightarrow> bool" where
  "ids_below opts h b \<longleftrightarrow> distinct (trial_ids opts h) \<and>
    (\<forall>i \<in> set (trial_ids opts h). \<exists>m < b. i = co_run_id opts + of_nat m)"

lemma ids_below_later: "ids_below opts h b \<Longrightarrow> b \<le> c \<Longrightarrow> ids_below opts h c"
  unfolding ids_below_def by (meson order_less_le_trans)

lemma ids_below_warm: "ids_below opts h b \<Longrightarrow> lc_run_id c = warm_id opts \<Longrightarrow> ids_below opts (h @ [c]) b"
  by (simp add: ids_below_def trial_ids_def)

lemma of_nat_id_eq: "m < 2 ^ 64 \<Longrightarrow> n < 2 ^ 64 \<Longrightarrow> (of_nat m :: u64) = of_nat n \<longleftrightarrow> m = n"
  by (simp add: word_of_nat_eq_iff take_bit_nat_eq_self)

lemma trial_ids_snoc:
  "trial_ids opts (h @ [c]) = trial_ids opts h @ (if lc_run_id c = warm_id opts then [] else [lc_run_id c])"
  by (simp add: trial_ids_def)

lemma ids_below_trial:
  assumes "ids_below opts h b" and "b \<le> m" and "m < 2 ^ 64" and "lc_run_id c = co_run_id opts + of_nat m"
  shows "ids_below opts (h @ [c]) (Suc m)"
proof -
  have "lc_run_id c \<notin> set (trial_ids opts h)"
  proof
    assume "lc_run_id c \<in> set (trial_ids opts h)"
    then obtain k where "k < b" "lc_run_id c = co_run_id opts + of_nat k"
      using assms(1) unfolding ids_below_def by blast
    then have "(of_nat m :: u64) = of_nat k" using assms(4) by simp
    then show False using assms(2,3) of_nat_id_eq [of m k] \<open>k < b\<close> by simp
  qed
  moreover have "distinct (trial_ids opts h)" using assms(1) unfolding ids_below_def by blast
  ultimately have d: "distinct (trial_ids opts (h @ [c]))" by (simp add: trial_ids_snoc)
  have below: "\<exists>k < Suc m. i = co_run_id opts + of_nat k" if i: "i \<in> set (trial_ids opts h)" for i
  proof -
    obtain k where "k < b" "i = co_run_id opts + of_nat k" using i assms(1) unfolding ids_below_def by blast
    then show ?thesis using assms(2) by (intro exI [of _ k]) simp
  qed
  have "\<exists>k < Suc m. i = co_run_id opts + of_nat k" if "i \<in> set (trial_ids opts (h @ [c]))" for i
  proof -
    have "i \<in> set (trial_ids opts h) \<or> i = lc_run_id c"
      using that by (auto simp: trial_ids_snoc split: if_splits)
    then show ?thesis using below assms(4) by blast
  qed
  then show ?thesis using d unfolding ids_below_def by blast
qed

lemma size_run_id_key: "size_run_id opts index + of_nat t = co_run_id opts + of_nat (index * 2 ^ 32 + t)"
  by (simp add: size_run_id_def push_bit_eq_mult)

definition answers_rates :: "'e loader \<Rightarrow> bool" where
  "answers_rates load \<longleftrightarrow> (\<forall>h c r. load h c = Inr r \<longrightarrow> lr_target r = lc_rate c)"

lemma fixed_load_call:
  assumes "fixed_load load opts n rate duration drain run_id h = Inr (r, h')"
  shows "\<exists>c. h' = h @ [c] \<and> lc_run_id c = run_id \<and> lc_rate c = rate \<and> load h c = Inr r"
  using assms by (auto simp: fixed_load_def run_load_def split: option.splits sum.splits)

lemma trial_step:
  assumes "trial load opts n rate (size_run_id opts index + of_nat t) h = Inr (r, h')"
    and "answers_rates load" and "ids_below opts h (index * 2 ^ 32 + t)" and "index < 2 ^ 32" and "t < 2 ^ 32"
  shows "lr_target r = rate" "ids_below opts h' (index * 2 ^ 32 + Suc t)"
proof -
  obtain h1 where w: "warm_load load opts n rate h = Inr h1"
    and f: "fixed_load load opts n rate (co_measurement opts) (co_drain opts) (size_run_id opts index + of_nat t) h1 = Inr (r, h')"
    using assms(1) by (auto simp: trial_def r_bind_Inr_iff)
  have "ids_below opts h1 (index * 2 ^ 32 + t)"
    using w assms(3) fixed_load_call [of load opts n rate "co_warmup opts" 100000000 "warm_id opts" h]
    by (auto simp: warm_load_def r_bind_Inr_iff intro: ids_below_warm split: if_splits)
  moreover obtain c where c: "h' = h1 @ [c]" "lc_run_id c = size_run_id opts index + of_nat t" "lc_rate c = rate" "load h1 c = Inr r"
    using fixed_load_call [OF f] by blast
  moreover have "index * 2 ^ 32 + t < 2 ^ 64" using assms(4,5) by simp
  ultimately show "ids_below opts h' (index * 2 ^ 32 + Suc t)"
    using ids_below_trial [of opts h1 "index * 2 ^ 32 + t" "index * 2 ^ 32 + t" c] by (simp add: size_run_id_key)
  show "lr_target r = rate" using c assms(2) by (simp add: answers_rates_def)
qed

lemma coarse_search_keeps:
  assumes "coarse_search load opts n index rates (best, trials, h) = Inr (upper, best', trials', h')"
    and "answers_rates load" and "list_all nonneg rates" and "best_of best trials"
    and "ids_below opts h (index * 2 ^ 32 + length trials)" and "index < 2 ^ 32" and "length trials + length rates \<le> 4096"
  shows "best_of best' trials' \<and> ids_below opts h' (index * 2 ^ 32 + 4096) \<and>
    (\<forall>u. upper = Some u \<longrightarrow> nonneg u) \<and> length trials' \<le> length trials + length rates"
  using assms
proof (induction rates arbitrary: best trials h)
  case Nil
  then show ?case using ids_below_later [of opts h "index * 2 ^ 32 + length trials" "index * 2 ^ 32 + 4096"] by simp
next
  case (Cons rate rates)
  obtain r h1 where t: "trial load opts n rate (size_run_id opts index + of_nat (length trials)) h = Inr (r, h1)"
    and go: "(if is_saturated r then Inr (Some rate, if is_zero_loss r then f_max best rate else best, trials @ [r], h1)
      else coarse_search load opts n index rates (if is_zero_loss r then f_max best rate else best, trials @ [r], h1)) =
      Inr (upper, best', trials', h')"
    using Cons(2) by (auto simp: r_bind_Inr_iff Let_def)
  have len: "length trials < 2 ^ 32" using Cons(8) by simp
  note step = trial_step [OF t Cons(3) Cons(6,7) len]
  have b: "best_of (if is_zero_loss r then f_max best rate else best) (trials @ [r])"
    using best_of_trial [OF Cons(5) _ step(1)] Cons(4) by simp
  have i: "ids_below opts h1 (index * 2 ^ 32 + length (trials @ [r]))" using step(2) by simp
  show ?case
  proof (cases "is_saturated r")
    case True
    then show ?thesis
      using go b ids_below_later [OF i, of "index * 2 ^ 32 + 4096"] Cons(4,8) by auto
  next
    case False
    then show ?thesis
      using go Cons(1) [OF _ Cons(3) _ b i Cons(7)] Cons(4,8) by auto
  qed
qed

lemma refine_keeps:
  assumes "refine load opts n index lower upper [k..<N] (best, trials, h) = Inr (best', trials', h')"
    and "answers_rates load" and "nonneg lower" and "nonneg upper" and "best_of best trials"
    and "ids_below opts h (index * 2 ^ 32 + (0x1000 + k))" and "index < 2 ^ 32" and "0x1000 + N \<le> 2 ^ 32" and "k \<le> N"
  shows "best_of best' trials' \<and> ids_below opts h' (index * 2 ^ 32 + (0x1000 + N)) \<and>
    length trials' \<le> length trials + (N - k)"
  using assms
proof (induction "N - k" arbitrary: k lower upper best trials h)
  case 0
  then show ?case by simp
next
  case (Suc m)
  have k: "k < N" "[k..<N] = k # [Suc k..<N]" "m = N - Suc k" using Suc(2) by (simp_all add: upt_rec)
  show ?case
  proof (cases "f_le lower f_zero \<or> f_less (f_sub upper lower) (to_f64 (5 / 100))")
    case True
    then show ?thesis
      using Suc k ids_below_later [OF Suc(8), of "index * 2 ^ 32 + (0x1000 + N)"] by auto
  next
    case False
    let ?rate = "f_div (f_add lower upper) (f64_of 2)"
    have rate: "nonneg ?rate" using nonneg_half nonneg_add Suc(5,6) by blast
    obtain r h1 where t: "trial load opts n ?rate (size_run_id opts index + of_nat (0x1000 + k)) h = Inr (r, h1)"
      and go: "(if is_zero_loss r
         then refine load opts n index ?rate upper [Suc k..<N] (f_max best ?rate, trials @ [r], h1)
         else refine load opts n index lower ?rate [Suc k..<N] (best, trials @ [r], h1)) = Inr (best', trials', h')"
      using Suc(3) False unfolding k(2) by (auto simp: r_bind_Inr_iff Let_def)
    have "0x1000 + k < 2 ^ 32" using Suc(10) k(1) by simp
    note step = trial_step [OF t Suc(4,8,9) this]
    have i: "ids_below opts h1 (index * 2 ^ 32 + (0x1000 + Suc k))" using step(2) by simp
    have b: "best_of (if is_zero_loss r then f_max best ?rate else best) (trials @ [r])"
      by (rule best_of_trial [OF Suc(7) rate step(1)])
    have more: "length (trials @ [r]) + (N - Suc k) = length trials + (N - k)" using k(1) by simp
    show ?thesis
    proof (cases "is_zero_loss r")
      case True
      have "best_of best' trials' \<and> ids_below opts h' (index * 2 ^ 32 + (0x1000 + N)) \<and>
          length trials' \<le> length (trials @ [r]) + (N - Suc k)"
        by (rule Suc(1) [OF k(3) _ Suc(4) rate Suc(6) _ i Suc(9,10)]) (use go b k(1) True in simp_all)
      then show ?thesis unfolding more .
    next
      case False
      have "best_of best' trials' \<and> ids_below opts h' (index * 2 ^ 32 + (0x1000 + N)) \<and>
          length trials' \<le> length (trials @ [r]) + (N - Suc k)"
        by (rule Suc(1) [OF k(3) _ Suc(4,5) rate _ i Suc(9,10)]) (use go b k(1) False in simp_all)
      then show ?thesis unfolding more .
    qed
  qed
qed

section \<open>Properties\<close>

definition sound_result :: "capacity_options \<Rightarrow> capacity_result \<Rightarrow> bool" where
  "sound_result opts c \<longleftrightarrow> best_of (cr_zero_loss c) (cr_trials c) \<and>
    length (cr_trials c) \<le> length (co_rates opts) + co_refinements opts"

lemma size_capacity_keeps:
  assumes "size_capacity load opts index n h = Inr (c, h')" and "answers_rates load"
    and "list_all nonneg (co_rates opts)" and "ids_below opts h (index * 2 ^ 32)" and "index < 2 ^ 32"
    and "length (co_rates opts) \<le> 4096" and "0x1000 + co_refinements opts \<le> 2 ^ 32"
  shows "sound_result opts c \<and> ids_below opts h' (Suc index * 2 ^ 32)"
proof -
  obtain upper best trials h1 where co: "coarse_search load opts n index (co_rates opts) (f_zero, [], h) = Inr (upper, best, trials, h1)"
    using assms(1) by (auto simp: size_capacity_def r_bind_Inr_iff)
  have k: "best_of best trials" "ids_below opts h1 (index * 2 ^ 32 + 4096)" "\<forall>u. upper = Some u \<longrightarrow> nonneg u"
    "length trials \<le> length (co_rates opts)"
    using coarse_search_keeps [OF co assms(2,3) best_of_start _ assms(5)] assms(4,6) by simp_all
  have top: "ids_below opts h2 b \<Longrightarrow> b \<le> index * 2 ^ 32 + 2 ^ 32 \<Longrightarrow> ids_below opts h2 (Suc index * 2 ^ 32)" for h2 b
    by (erule ids_below_later) (simp add: add.commute)
  show ?thesis
  proof (cases upper)
    case None
    then show ?thesis
      using assms(1) k top [OF k(2)] by (auto simp: size_capacity_def r_bind_Inr_iff co sound_result_def)
  next
    case (Some u)
    obtain best' trials' where re: "refine load opts n index best u [0..<co_refinements opts] (best, trials, h1) = Inr (best', trials', h')"
      and c: "cr_zero_loss c = best'" "cr_trials c = trials'"
      using assms(1) by (auto simp: size_capacity_def r_bind_Inr_iff co Some)
    have "nonneg best" using k(1) by (simp add: best_of_def)
    then have "best_of best' trials'" "ids_below opts h' (index * 2 ^ 32 + (0x1000 + co_refinements opts))"
      "length trials' \<le> length trials + (co_refinements opts - 0)"
      using refine_keeps [OF re assms(2) _ _ k(1) _ assms(5,7)] k(2,3) Some by simp_all
    then show ?thesis
      using c k(4) top [of h' "index * 2 ^ 32 + (0x1000 + co_refinements opts)"] assms(7) by (simp add: sound_result_def)
  qed
qed

lemma capacity_keeps:
  assumes "capacity load opts (List.enumerate i ns) h = Inr (cs, h')" and "answers_rates load"
    and "list_all nonneg (co_rates opts)" and "ids_below opts h (i * 2 ^ 32)" and "i + length ns \<le> 2 ^ 32"
    and "length (co_rates opts) \<le> 4096" and "0x1000 + co_refinements opts \<le> 2 ^ 32"
  shows "list_all (sound_result opts) cs \<and> map cr_payload cs = ns \<and> ids_below opts h' ((i + length ns) * 2 ^ 32)"
  using assms
proof (induction ns arbitrary: i h cs)
  case (Cons n ns)
  obtain c h1 cs1 where c: "size_capacity load opts i n h = Inr (c, h1)"
    "capacity load opts (List.enumerate (Suc i) ns) h1 = Inr (cs1, h')" "cs = c # cs1"
    using Cons(2) by (auto simp: r_bind_Inr_iff)
  have "sound_result opts c \<and> ids_below opts h1 (Suc i * 2 ^ 32)"
    using size_capacity_keeps [OF c(1) Cons(3-5) _ Cons(7,8)] Cons(6) by simp
  moreover have "cr_payload c = n" using c(1) by (auto simp: size_capacity_def r_bind_Inr_iff)
  ultimately show ?case using Cons(1) [OF c(2) Cons(3,4) _ _ Cons(7,8)] Cons(6) c(3) by simp
qed simp

text \<open>A search whose loads do not fail returns, for sizes a packet can have.\<close>

lemma trial_returns:
  assumes "\<forall>h c. \<exists>r. load h c = Inr r" and "HEADER_LEN \<le> n" and "n \<le> 65535"
  shows "\<exists>r h'. trial load opts n rate run_id h = Inr (r, h')"
proof -
  have f: "\<exists>r h'. fixed_load load opts n rate duration drain run_id h = Inr (r, h')" for rate duration drain run_id h
  proof -
    obtain plan where plan: "fixed_plan n rate duration = Some plan" using assms(2,3) by (simp add: fixed_plan_def)
    obtain r where "load h \<lparr>lc_plan = plan, lc_fixed = Some n, lc_rate = rate, lc_measurement = duration, lc_drain = drain,
        lc_timeout = co_timeout opts, lc_window = co_window opts, lc_run_id = run_id\<rparr> = Inr r"
      using assms(1) by blast
    then show ?thesis by (simp add: fixed_load_def plan run_load_def)
  qed
  have "\<exists>h'. warm_load load opts n rate h = Inr h'"
    using f [of rate "co_warmup opts" 100000000 "warm_id opts" h] by (fastforce simp: warm_load_def r_bind_Inr_iff)
  then show ?thesis using f by (fastforce simp: trial_def r_bind_Inr_iff)
qed

lemma coarse_search_returns:
  assumes "\<forall>h c. \<exists>r. load h c = Inr r" and "HEADER_LEN \<le> n" and "n \<le> 65535"
  shows "\<exists>x. coarse_search load opts n index rates s = Inr x"
proof (induction rates arbitrary: s)
  case Nil
  then show ?case by (cases s) auto
next
  case (Cons rate rates)
  obtain best trials h where s: "s = (best, trials, h)" by (cases s)
  obtain r h1 where "trial load opts n rate (size_run_id opts index + of_nat (length trials)) h = Inr (r, h1)"
    using trial_returns [OF assms] by blast
  then show ?case using Cons [of "(if is_zero_loss r then f_max best rate else best, trials @ [r], h1)"]
    by (simp add: s r_bind_def Let_def)
qed

lemma refine_returns:
  assumes "\<forall>h c. \<exists>r. load h c = Inr r" and "HEADER_LEN \<le> n" and "n \<le> 65535"
  shows "\<exists>x. refine load opts n index lower upper ks s = Inr x"
proof (induction ks arbitrary: lower upper s)
  case Nil
  then show ?case by (cases s) auto
next
  case (Cons k ks)
  obtain best trials h where s: "s = (best, trials, h)" by (cases s)
  let ?rate = "f_div (f_add lower upper) (f64_of 2)"
  obtain r h1 where "trial load opts n ?rate (size_run_id opts index + (0x1000 + of_nat k)) h = Inr (r, h1)"
    using trial_returns [OF assms] by blast
  then show ?case
    using Cons [of ?rate upper "(f_max best ?rate, trials @ [r], h1)"] Cons [of lower ?rate "(best, trials @ [r], h1)"]
    by (simp add: s r_bind_def Let_def)
qed

lemma capacity_returns:
  assumes "\<forall>h c. \<exists>r. load h c = Inr r" and "\<forall>n \<in> set ns. HEADER_LEN \<le> n \<and> n \<le> 65535"
  shows "\<exists>cs h'. capacity load opts (List.enumerate i ns) h = Inr (cs, h')"
  using assms(2)
proof (induction ns arbitrary: i h)
  case (Cons n ns)
  have n: "HEADER_LEN \<le> n" "n \<le> 65535" using Cons(2) by simp_all
  obtain upper best trials h1 where co: "coarse_search load opts n i (co_rates opts) (f_zero, [], h) = Inr (upper, best, trials, h1)"
    using coarse_search_returns [OF assms(1) n] by (metis surj_pair)
  have "\<exists>c h2. size_capacity load opts i n h = Inr (c, h2)"
  proof (cases upper)
    case (Some u)
    obtain best' trials' h2 where "refine load opts n i best u [0..<co_refinements opts] (best, trials, h1) = Inr (best', trials', h2)"
      using refine_returns [OF assms(1) n] by (metis surj_pair)
    then show ?thesis by (simp add: size_capacity_def co Some r_bind_def)
  qed (simp add: size_capacity_def co r_bind_def)
  then obtain c h2 where "size_capacity load opts i n h = Inr (c, h2)" by blast
  then show ?case using Cons(1) [of "Suc i" h2] Cons(2) by (auto simp: r_bind_def)
qed simp

text \<open>C24: the capacity search reports, for every size, a rate of zero or the rate of one of its
  trials without loss, which no trial without loss exceeds, after at most one trial per
  coarse rate and refinement.\<close>
theorem capacity_is_a_lossless_rate:
  assumes "capacity load opts (List.enumerate 0 ns) [] = Inr (cs, h)"
    and "\<forall>h c r. load h c = Inr r \<longrightarrow> lr_target r = lc_rate c" and "\<forall>rate \<in> set (co_rates opts). f_le f_zero rate"
    and "length ns \<le> 2 ^ 32" and "length (co_rates opts) \<le> 4096" and "0x1000 + co_refinements opts \<le> 2 ^ 32"
  shows "map cr_payload cs = ns \<and> (\<forall>c \<in> set cs.
    (cr_zero_loss c = f_zero \<or> (\<exists>t \<in> set (cr_trials c). is_zero_loss t \<and> lr_target t = cr_zero_loss c)) \<and>
    (\<forall>t \<in> set (cr_trials c). is_zero_loss t \<longrightarrow> f_le (lr_target t) (cr_zero_loss c)) \<and>
    length (cr_trials c) \<le> length (co_rates opts) + co_refinements opts)"
proof -
  have "list_all (sound_result opts) cs" "map cr_payload cs = ns"
    using capacity_keeps [OF assms(1)] assms(2-6)
    by (simp_all add: answers_rates_def nonneg_def list_all_iff ids_below_def trial_ids_def)
  then show ?thesis by (auto simp: list_all_iff sound_result_def best_of_def)
qed

text \<open>No two trials of a capacity search carry the same run identity, so that a reply which
  arrives after its own trial is foreign to every other one.\<close>
theorem trials_have_distinct_ids:
  assumes "capacity load opts (List.enumerate 0 ns) [] = Inr (cs, h)"
    and "\<forall>h c r. load h c = Inr r \<longrightarrow> lr_target r = lc_rate c" and "\<forall>rate \<in> set (co_rates opts). f_le f_zero rate"
    and "length ns \<le> 2 ^ 32" and "length (co_rates opts) \<le> 4096" and "0x1000 + co_refinements opts \<le> 2 ^ 32"
  shows "distinct (filter (\<lambda>i. i \<noteq> warm_id opts) (map lc_run_id h))"
  using capacity_keeps [OF assms(1)] assms(2-6)
  by (simp add: answers_rates_def nonneg_def list_all_iff ids_below_def trial_ids_def)

section \<open>A sample search\<close>

definition lossless_loader :: "unit loader" where
  "lossless_loader h c = Inr \<lparr>lr_payload = lc_fixed c, lr_target = lc_rate c, lr_measurement = as_secs (lc_measurement c),
     lr_drain = as_secs (lc_drain c), lr_window = lc_window c, lr_offered = lc_rate c, lr_goodput = lc_rate c,
     lr_sent_rate = f_zero, lr_valid_rate = f_zero, lr_loss = f_zero, lr_counters = no_counters, lr_latency = no_stats\<rparr>"

definition sample_options :: capacity_options where
  "sample_options = \<lparr>co_rates = [F64 1, F64 2, F64 4], co_measurement = 1000000000, co_warmup = 1000000, co_drain = 0,
     co_timeout = 250000000, co_window = 8, co_refinements = 2, co_run_id = 7\<rparr>"

lemma sample_search: "\<exists>cs h. capacity lossless_loader sample_options (List.enumerate 0 [64, 1472]) [] = Inr (cs, h)"
  by (rule capacity_returns) (simp_all add: lossless_loader_def HEADER_LEN_def)

lemma sample_answers:
  "\<forall>h c r. lossless_loader h c = Inr r \<longrightarrow> lr_target r = lc_rate c"
  "\<forall>rate \<in> set (co_rates sample_options). f_le f_zero rate"
  "length (co_rates sample_options) \<le> 4096" "0x1000 + co_refinements sample_options \<le> 2 ^ 32"
  by (auto simp: lossless_loader_def sample_options_def f_zero_def)

theorem capacity_is_a_lossless_rate_witness:
  "\<exists>cs h. capacity lossless_loader sample_options (List.enumerate 0 [64, 1472]) [] = Inr (cs, h) \<and>
    map cr_payload cs = [64, 1472] \<and>
    (\<forall>c \<in> set cs. cr_zero_loss c = f_zero \<or> (\<exists>t \<in> set (cr_trials c). lr_target t = cr_zero_loss c))"
proof -
  obtain cs h where s: "capacity lossless_loader sample_options (List.enumerate 0 [64, 1472]) [] = Inr (cs, h)"
    using sample_search by blast
  show ?thesis
    using s capacity_is_a_lossless_rate [OF s sample_answers(1,2) _ sample_answers(3,4)] by fastforce
qed

theorem trials_have_distinct_ids_witness:
  "\<exists>cs h. capacity lossless_loader sample_options (List.enumerate 0 [64, 1472]) [] = Inr (cs, h) \<and>
    distinct (filter (\<lambda>i. i \<noteq> warm_id sample_options) (map lc_run_id h))"
proof -
  obtain cs h where s: "capacity lossless_loader sample_options (List.enumerate 0 [64, 1472]) [] = Inr (cs, h)"
    using sample_search by blast
  show ?thesis
    using s trials_have_distinct_ids [OF s sample_answers(1,2) _ sample_answers(3,4)] by fastforce
qed

end
