(* ===== verification/Burst_Series.thy ===== *)
theory Burst_Series
  imports Bench_Results Client_Properties
begin

text \<open>
  \<^verbatim>\<open>BenchSocket::bursts\<close> of \<^verbatim>\<open>tools/udp-benchmark/src/runner.rs\<close>: for every packet size and burst
  size the repetitions of a burst, with one sequence of packet numbers for all of them.
  The network's answers are given for every repetition.
\<close>

section \<open>The series\<close>

record burst_result =
  br_payload :: nat
  br_packets :: nat
  br_repetitions :: u64
  br_complete :: u64
  br_percent :: f64
  br_counters :: packet_counters
  br_latency :: latency_stats

datatype bursts_error = Burst_Size | Burst_Failed burst_error

text \<open>What the sockets do in a repetition: the times and outcomes of the sends, and the events.\<close>

type_synonym burst_answers = "(nat \<Rightarrow> u64 \<times> bool) \<times> receiver_event list"

fun repeat_burst ::
  "nat \<Rightarrow> u64 \<Rightarrow> nat \<Rightarrow> burst_answers list \<Rightarrow> packet_counters \<times> u64 \<times> u64 list \<Rightarrow> u64 \<Rightarrow>
    burst_error + (packet_counters \<times> u64 \<times> u64 list) \<times> u64" where
  "repeat_burst n run_id k [] st whole = Inr (st, whole)"
| "repeat_burst n run_id k ((outcome, evs) # replies) st whole =
    r_bind (one_burst n run_id k outcome evs st) (\<lambda>(st, all).
      repeat_burst n run_id k replies st (if all then whole + 1 else whole))"

definition burst_result_of ::
  "nat \<Rightarrow> nat \<Rightarrow> u64 \<Rightarrow> u64 \<Rightarrow> packet_counters \<Rightarrow> u64 list \<Rightarrow> burst_result option" where
  "burst_result_of n k repetitions whole c samples =
    map_option (\<lambda>st. \<lparr>br_payload = n, br_packets = k, br_repetitions = repetitions, br_complete = whole,
      br_percent = percentage whole repetitions,
      br_counters = c\<lparr>c_missing := sat_sub (c_sent c) (c_valid_replies c)\<rparr>, br_latency = st\<rparr>) (summarize samples)"

fun burst_sizes ::
  "(nat \<Rightarrow> nat \<Rightarrow> nat \<Rightarrow> burst_answers) \<Rightarrow> u64 \<Rightarrow> u64 \<Rightarrow> nat \<Rightarrow> nat list \<Rightarrow> u64 \<Rightarrow>
    burst_error + burst_result list \<times> u64" where
  "burst_sizes net run_id repetitions n [] first = Inr ([], first)"
| "burst_sizes net run_id repetitions n (k # ks) first =
    r_bind (repeat_burst n run_id k (map (net n k) [0..<unat repetitions]) (no_counters, first, []) 0)
      (\<lambda>((c, first, samples), whole).
    r_bind (ok_or (burst_result_of n k repetitions whole c samples) Burst_Panic) (\<lambda>r.
    r_bind (burst_sizes net run_id repetitions n ks first) (\<lambda>(rs, first). Inr (r # rs, first))))"

fun bursts ::
  "(nat \<Rightarrow> nat \<Rightarrow> nat \<Rightarrow> burst_answers) \<Rightarrow> u64 \<Rightarrow> u64 \<Rightarrow> nat list \<Rightarrow> nat list \<Rightarrow> u64 \<Rightarrow>
    bursts_error + burst_result list" where
  "bursts net run_id repetitions [] ks first = Inr []"
| "bursts net run_id repetitions (n # ns) ks first =
    (if n < HEADER_LEN then Inl Burst_Size
     else r_bind (map_sum Burst_Failed id (burst_sizes net run_id repetitions n ks first)) (\<lambda>(rs, first).
          r_bind (bursts net run_id repetitions ns ks first) (\<lambda>more. Inr (rs @ more))))"

section \<open>The account of a series\<close>

text \<open>Every sample is that of a reply which was accepted.\<close>

lemma burst_datagram_samples:
  assumes "burst_datagram n run_id first global ts packet t b = Inr b'"
  shows "length (b_samples b') + b_received b = length (b_samples b) + b_received b'"
  using assms
  by (auto simp: burst_datagram_def burst_count_def burst_accept_def Let_def split: sum.splits if_splits)

lemma burst_receive_samples:
  assumes "burst_receive n run_id first global ts k evs b = Inr b'"
  shows "length (b_samples b') + b_received b = length (b_samples b) + b_received b'"
  using assms
proof (induction evs arbitrary: b)
  case (Cons ev evs)
  show ?case
  proof (cases "k \<le> b_received b")
    case False
    show ?thesis
    proof (cases ev)
      case (Datagram packet t)
      then obtain b1 where b1: "burst_datagram n run_id first global ts packet t b = Inr b1"
          "burst_receive n run_id first global ts k evs b1 = Inr b'"
        using Cons(2) False by (auto simp: r_bind_Inr_iff)
      then show ?thesis using burst_datagram_samples [OF b1(1)] Cons(1) [OF b1(2)] by simp
    qed (use Cons False in auto)
  qed (use Cons in auto)
qed simp

lemma one_burst_account:
  assumes "32 \<le> n" and "unat first + k < 2 ^ 64"
  shows "one_burst n run_id k outcome evs (c, first, samples) = Inl Burst_Io \<or>
    (\<exists>c' samples' v all. one_burst n run_id k outcome evs (c, first, samples) = Inr ((c', first + of_nat k, samples'), all) \<and>
      c_planned c' = c_planned c + of_nat k \<and> c_sent c' + c_send_errors c' = c_sent c + c_send_errors c + of_nat k \<and>
      c_valid_replies c' = c_valid_replies c + of_nat v \<and> v \<le> k \<and> (all \<longleftrightarrow> v = k) \<and>
      length samples' = length samples + v)"
proof -
  obtain c1 ts where send: "burst_send n run_id first outcome [0..<k] (c, []) = Inr (c1, ts)"
    "length ts = k" "c_valid_replies c1 = c_valid_replies c" "c_planned c1 = c_planned c"
    "c_sent c1 + c_send_errors c1 = c_sent c + c_send_errors c + of_nat k"
    using burst_send_accounts [of n run_id first outcome "[0..<k]" c "[]"]
      burst_send_encodes [OF assms(1)] by auto
  let ?b = "\<lparr>b_counters = c1\<lparr>c_planned := c_planned c1 + of_nat k\<rparr>, b_seen = replicate k False, b_received = 0,
    b_max = None, b_samples = samples\<rparr>"
  have k: "unat first + k < 18446744073709551616" using assms(2) by simp
  have "burst_wf k ?b" by (simp add: burst_wf_def tally_def)
  from burst_receive_accounts [OF this send(2) k, of n run_id evs] show ?thesis
  proof (elim disjE exE conjE)
    fix b' assume b': "burst_receive n run_id first (first + of_nat k) ts k evs ?b = Inr b'" "burst_wf k b'"
      "burst_kept b' = burst_kept ?b"
    have v: "c_planned (b_counters b') = c_planned c + of_nat k" "c_sent (b_counters b') = c_sent c1"
      "c_send_errors (b_counters b') = c_send_errors c1"
      "c_valid_replies (b_counters b') = c_valid_replies c + of_nat (b_received b')"
      using b'(3) send(3,4) by (auto simp: burst_kept_def Let_def algebra_simps)
    have "b_received b' \<le> k" using b'(2) by (auto simp: burst_wf_def tally_def)
    moreover have "length (b_samples b') = length samples + b_received b'"
      using burst_receive_samples [OF b'(1)] by simp
    moreover have "one_burst n run_id k outcome evs (c, first, samples) =
        Inr ((b_counters b', first + of_nat k, b_samples b'), b_received b' = k)"
      using send(1) b'(1) by (simp add: one_burst_def Let_def)
    ultimately show ?thesis using v send(5) by auto
  qed (use send(1) in \<open>simp_all add: one_burst_def Let_def\<close>)
qed

text \<open>The totals of a burst size after some repetitions.\<close>

definition burst_totals :: "nat \<Rightarrow> nat \<Rightarrow> packet_counters \<Rightarrow> u64 list \<Rightarrow> u64 \<Rightarrow> bool" where
  "burst_totals k m c samples whole \<longleftrightarrow>
    c_planned c = of_nat (m * k) \<and> c_sent c + c_send_errors c = of_nat (m * k) \<and>
    c_valid_replies c = of_nat (length samples) \<and> length samples \<le> m * k \<and>
    unat whole \<le> m \<and> unat whole * k \<le> length samples \<and> (0 < k \<longrightarrow> length samples = m * k \<longrightarrow> unat whole = m)"

lemma burst_totals_next:
  assumes "burst_totals k m c samples whole" and "m < 2 ^ 53"
    and "c_planned c' = c_planned c + of_nat k" and "c_sent c' + c_send_errors c' = c_sent c + c_send_errors c + of_nat k"
    and "c_valid_replies c' = c_valid_replies c + of_nat v" and "v \<le> k" and "all \<longleftrightarrow> v = k"
    and "length samples' = length samples + v"
  shows "burst_totals k (Suc m) c' samples' (if all then whole + 1 else whole)"
proof -
  have t: "length samples \<le> m * k" "unat whole \<le> m" "unat whole * k \<le> length samples"
    "0 < k \<longrightarrow> length samples = m * k \<longrightarrow> unat whole = m"
    using assms(1) by (simp_all add: burst_totals_def)
  have inc: "unat (whole + 1) = Suc (unat whole)" using t(2) assms(2) unat_add_small [of whole 1] by simp
  have "length samples' = Suc m * k \<Longrightarrow> v = k \<and> length samples = m * k"
    using t(1) assms(6,8) by simp
  then show ?thesis
    using assms t inc by (auto simp: burst_totals_def)
qed

lemma repeat_burst_account:
  assumes "32 \<le> n" and "unat first + length replies * k < 2 ^ 64" and "m + length replies < 2 ^ 53"
    and "burst_totals k m c samples whole"
  shows "repeat_burst n run_id k replies (c, first, samples) whole = Inl Burst_Io \<or>
    (\<exists>c' samples' whole'. repeat_burst n run_id k replies (c, first, samples) whole =
       Inr ((c', first + of_nat (length replies * k), samples'), whole') \<and> burst_totals k (m + length replies) c' samples' whole')"
  using assms(2-4)
proof (induction replies arbitrary: c first samples whole m)
  case (Cons answer replies)
  obtain outcome evs where a: "answer = (outcome, evs)" by (cases answer)
  have "unat first + k < 2 ^ 64" using Cons(2) by simp
  from one_burst_account [OF assms(1) this, of run_id outcome evs c samples] show ?case
  proof (elim disjE exE conjE)
    fix c1 samples1 v all
    assume o: "one_burst n run_id k outcome evs (c, first, samples) = Inr ((c1, first + of_nat k, samples1), all)"
      and u: "c_planned c1 = c_planned c + of_nat k" "c_sent c1 + c_send_errors c1 = c_sent c + c_send_errors c + of_nat k"
      "c_valid_replies c1 = c_valid_replies c + of_nat v" "v \<le> k" "all \<longleftrightarrow> v = k" "length samples1 = length samples + v"
    have m: "m < 2 ^ 53" using Cons(3) by simp
    have "unat (first + of_nat k) = unat first + k" using Cons(2) by (simp add: unat_add_small unat_of_nat)
    then have f: "unat (first + of_nat k) + length replies * k < 2 ^ 64" "Suc m + length replies < 2 ^ 53"
      using Cons(2,3) by simp_all
    show ?thesis
      using Cons(1) [OF f burst_totals_next [OF Cons(4) m u]] o by (auto simp: a add.assoc)
  qed (simp add: a)
qed simp

definition burst_sound :: "u64 \<Rightarrow> burst_result \<Rightarrow> bool" where
  "burst_sound repetitions r \<longleftrightarrow> (let c = br_counters r; total = unat repetitions * br_packets r in
    unat (c_planned c) = total \<and> c_sent c + c_send_errors c = c_planned c \<and>
    c_missing c = sat_sub (c_sent c) (c_valid_replies c) \<and> unat (c_valid_replies c) \<le> total \<and>
    unat (br_complete r) \<le> unat repetitions \<and>
    (0 < br_packets r \<longrightarrow> (unat (c_valid_replies c) = total \<longleftrightarrow> br_complete r = repetitions)))"

lemma burst_totals_sound:
  assumes "burst_totals k (unat repetitions) c samples whole" and "unat repetitions * k < 2 ^ 53"
  shows "\<exists>r. burst_result_of n k repetitions whole c samples = Some r \<and> burst_sound repetitions r \<and>
    (br_payload r, br_packets r) = (n, k)"
proof -
  let ?total = "unat repetitions * k"
  have t: "c_planned c = of_nat ?total" "c_sent c + c_send_errors c = of_nat ?total"
    "c_valid_replies c = of_nat (length samples)" "length samples \<le> ?total"
    "unat whole \<le> unat repetitions" "unat whole * k \<le> length samples"
    "0 < k \<longrightarrow> length samples = ?total \<longrightarrow> unat whole = unat repetitions"
    using assms(1) by (simp_all add: burst_totals_def)
  have u: "unat (of_nat ?total :: u64) = ?total" "unat (of_nat (length samples) :: u64) = length samples"
    using assms(2) t(4) by (simp_all add: unat_of_nat del: of_nat_mult)
  obtain st where st: "summarize samples = Some st" using summarize_total [of samples] assms(2) t(4) by auto
  have "0 < k \<longrightarrow> (length samples = ?total \<longleftrightarrow> whole = repetitions)"
    using t(4,6,7) word_unat_eq_iff [of whole repetitions] by auto
  then show ?thesis
    using t(1-5) u by (simp add: burst_result_of_def st burst_sound_def Let_def del: of_nat_mult)
qed

lemma burst_sizes_account:
  assumes "32 \<le> n" and "unat first + unat repetitions * sum_list ks < 2 ^ 53" and "unat repetitions < 2 ^ 53"
  shows "burst_sizes net run_id repetitions n ks first = Inl Burst_Io \<or>
    (\<exists>rs. burst_sizes net run_id repetitions n ks first = Inr (rs, first + of_nat (unat repetitions * sum_list ks)) \<and>
      list_all (burst_sound repetitions) rs \<and> map (\<lambda>r. (br_payload r, br_packets r)) rs = map (Pair n) ks)"
  using assms(2)
proof (induction ks arbitrary: first)
  case (Cons k ks)
  let ?rs = "map (net n k) [0..<unat repetitions]" and ?total = "unat repetitions * k"
  have b: "unat first + ?total + unat repetitions * sum_list ks < 2 ^ 53" using Cons(2) by (simp add: distrib_left)
  have start: "burst_totals k 0 no_counters [] 0" by (simp add: burst_totals_def no_counters_def)
  have l: "unat first + length ?rs * k < 2 ^ 64" "0 + length ?rs < 2 ^ 53" using b assms(3) by simp_all
  from repeat_burst_account [OF assms(1) l start, of run_id] show ?case
  proof (elim disjE exE conjE)
    fix c samples whole
    assume r: "repeat_burst n run_id k ?rs (no_counters, first, []) 0 = Inr ((c, first + of_nat (length ?rs * k), samples), whole)"
      "burst_totals k (0 + length ?rs) c samples whole"
    have tot: "burst_totals k (unat repetitions) c samples whole" "unat repetitions * k < 2 ^ 53" using r(2) b by simp_all
    obtain q where q: "burst_result_of n k repetitions whole c samples = Some q" "burst_sound repetitions q"
        "(br_payload q, br_packets q) = (n, k)"
      using burst_totals_sound [OF tot] by blast
    have "unat (first + of_nat ?total) = unat first + ?total"
      using b by (simp add: unat_add_small unat_of_nat del: of_nat_mult)
    then have "unat (first + of_nat ?total) + unat repetitions * sum_list ks < 2 ^ 53" using b by simp
    from Cons(1) [OF this] show ?thesis
      using r(1) q by (auto simp: ok_or_def distrib_left add.assoc simp del: upt_Suc)
  qed simp
qed simp

section \<open>Properties\<close>


definition quiet_net :: "nat \<Rightarrow> nat \<Rightarrow> nat \<Rightarrow> burst_answers" where
  "quiet_net n k i = (\<lambda>offset. (0, True), [Deadline])"


end
