(* ===== verification/Bench_Suite.thy ===== *)
theory Bench_Suite
  imports Capacity_Search Burst_Series
begin

text \<open>
  \<^verbatim>\<open>run_suite\<close> of \<^verbatim>\<open>tools/udp-benchmark/src/main.rs\<close>, with the workloads of \<^verbatim>\<open>runner.rs\<close> that
  it calls.  The network's answers are arguments.
\<close>

section \<open>Functional test and latency\<close>

record functional_result =
  fr_payload :: nat
  fr_attempts :: u64
  fr_valid :: u64
  fr_timeouts :: u64
  fr_corrupt :: u64

record latency_result =
  la_payload :: nat
  la_attempts :: u64
  la_timeouts :: u64
  la_corrupt :: u64
  la_statistics :: latency_stats
  la_samples :: "u64 list"

type_synonym network = "nat \<Rightarrow> u64 \<Rightarrow> bytes \<Rightarrow> wait_answer"

definition latency_result_of :: "nat \<Rightarrow> bool \<Rightarrow> wait_state \<Rightarrow> latency_result option" where
  "latency_result_of n retain w =
    map_option (\<lambda>st. \<lparr>la_payload = n, la_attempts = w_attempts w, la_timeouts = w_timeouts w,
      la_corrupt = w_corrupt w, la_statistics = st, la_samples = (if retain then w_samples w else [])\<rparr>)
      (summarize (w_samples w))"

definition measure_latency ::
  "nat \<Rightarrow> u64 \<Rightarrow> u64 \<Rightarrow> u64 \<Rightarrow> bool \<Rightarrow> (u64 \<Rightarrow> bytes \<Rightarrow> wait_answer) \<Rightarrow> wait_error + latency_result" where
  "measure_latency n run_id warmed successes retain answer =
    r_bind (stop_and_wait n run_id warmed successes answer) (\<lambda>w. ok_or (latency_result_of n retain w) Wait_Panic)"

definition functional_result_of :: "latency_result \<Rightarrow> functional_result" where
  "functional_result_of r = \<lparr>fr_payload = la_payload r, fr_attempts = la_attempts r,
    fr_valid = ls_samples (la_statistics r), fr_timeouts = la_timeouts r, fr_corrupt = la_corrupt r\<rparr>"

fun functional :: "network \<Rightarrow> u64 \<Rightarrow> u64 \<Rightarrow> (nat \<times> nat) list \<Rightarrow> wait_error + functional_result list" where
  "functional net repetitions run_id [] = Inr []"
| "functional net repetitions run_id ((index, n) # sizes) =
    r_bind (measure_latency n (run_id + of_nat index) 0 repetitions False (net index)) (\<lambda>r.
    r_bind (functional net repetitions run_id sizes) (\<lambda>rs. Inr (functional_result_of r # rs)))"

text \<open>The number of packets of the warm-up of each size is given too.\<close>

fun latency ::
  "network \<Rightarrow> (nat \<Rightarrow> u64) \<Rightarrow> u64 \<Rightarrow> u64 \<Rightarrow> (nat \<times> nat) list \<Rightarrow> wait_error + latency_result list" where
  "latency net warmed successes run_id [] = Inr []"
| "latency net warmed successes run_id ((index, n) # sizes) =
    r_bind (measure_latency n (run_id + of_nat index) (warmed index) successes True (net index)) (\<lambda>r.
    r_bind (latency net warmed successes run_id sizes) (\<lambda>rs. Inr (r # rs)))"

section \<open>The suite\<close>

record suite_options =
  so_no_zero_byte :: bool
  so_latency_samples :: u64
  so_throughput_seconds :: nat
  so_window :: usize
  so_burst_repetitions :: u64
  so_soak_seconds :: nat
  so_soak_interval :: nat
  so_base_run :: u64

datatype 'e suite_error =
    Suite_Wait wait_error
  | Functional_Gate
  | Latency_Short
  | Suite_Search "'e search_error"
  | Not_Saturated
  | Suite_Burst bursts_error
  | No_Soak_Rate
  | Suite_Soak 'e

definition functional_sizes :: "bool \<Rightarrow> nat list" where
  "functional_sizes no_zero_byte = (if no_zero_byte then [1, 32, 256, 1472] else [0, 1, 32, 256, 1472])"

definition suite_capacity :: "suite_options \<Rightarrow> capacity_options" where
  "suite_capacity so = \<lparr>co_rates = [F64 (1 / 4), F64 (1 / 2), F64 1, F64 2, F64 4, F64 8, F64 16, F64 32, F64 64, F64 80],
     co_measurement = so_throughput_seconds so * 1000000000, co_warmup = 2000000000, co_drain = 2000000000,
     co_timeout = 250000000, co_window = so_window so, co_refinements = 2, co_run_id = xor (so_base_run so) 0x2000\<rparr>"

definition soak_rate :: "capacity_result list \<Rightarrow> f64" where
  "soak_rate cs = f_mul (foldl f_min (F64_Inf False) (filter (f_less f_zero) (map cr_zero_loss cs))) (to_f64 (70 / 100))"

text \<open>The phases before the soak, and the rate of the soak.\<close>

definition suite_phases ::
  "network \<Rightarrow> network \<Rightarrow> (nat \<Rightarrow> u64) \<Rightarrow> 'e loader \<Rightarrow> (nat \<Rightarrow> nat \<Rightarrow> nat \<Rightarrow> burst_answers) \<Rightarrow>
    suite_options \<Rightarrow>
    'e suite_error + functional_result list \<times> latency_result list \<times> capacity_result list \<times> burst_result list \<times> f64" where
  "suite_phases net1 net2 warmed load net3 so =
    r_bind (map_sum Suite_Wait id (functional net1 5 (so_base_run so) (List.enumerate 0 (functional_sizes (so_no_zero_byte so))))) (\<lambda>fs.
    if list_ex (\<lambda>r. fr_valid r \<noteq> fr_attempts r \<or> fr_corrupt r \<noteq> 0) fs then Inl Functional_Gate
    else r_bind (map_sum Suite_Wait id (latency net2 warmed (so_latency_samples so) (xor (so_base_run so) 0x1000)
      (List.enumerate 0 [1, 32, 64, 256, 512, 1024, 1472]))) (\<lambda>ls.
    if list_ex (\<lambda>r. ls_samples (la_statistics r) < so_latency_samples so) ls then Inl Latency_Short
    else r_bind (map_sum Suite_Search id (capacity load (suite_capacity so) (List.enumerate 0 [64, 256, 512, 1024, 1472]) [])) (\<lambda>(cs, h).
    if list_ex (\<lambda>r. \<not> cr_saturated r) cs then Inl Not_Saturated
    else r_bind (map_sum Suite_Burst id (bursts net3 (xor (so_base_run so) 0x3000) (so_burst_repetitions so) [64, 512, 1472]
      [1, 4, 8, 16, 32, 64, 128] 0)) (\<lambda>bs.
    let rate = soak_rate cs
    in if \<not> f_finite rate \<or> f_le rate f_zero then Inl No_Soak_Rate else Inr (fs, ls, cs, bs, rate)))))"

text \<open>The whole suite: the soak is given by the load of an interval's number and duration at a rate.
  Nothing is a soak that never ends.\<close>

definition suite ::
  "network \<Rightarrow> network \<Rightarrow> (nat \<Rightarrow> u64) \<Rightarrow> 'e loader \<Rightarrow> (nat \<Rightarrow> nat \<Rightarrow> nat \<Rightarrow> burst_answers) \<Rightarrow>
    (f64 \<Rightarrow> nat \<Rightarrow> nat \<Rightarrow> 'e + packet_counters) \<Rightarrow> suite_options \<Rightarrow>
    ('e suite_error + (functional_result list \<times> latency_result list \<times> capacity_result list \<times> burst_result list \<times> f64) \<times>
      packet_counters \<times> (nat \<times> packet_counters) list) option" where
  "suite net1 net2 warmed load net3 soak_load so =
    (case suite_phases net1 net2 warmed load net3 so of
       Inl e \<Rightarrow> Some (Inl e)
     | Inr (fs, ls, cs, bs, rate) \<Rightarrow>
         map_option (map_sum Suite_Soak (Pair (fs, ls, cs, bs, rate)))
           (soak (soak_load rate) (so_soak_seconds so * 1000000000) (so_soak_interval so * 1000000000)))"

section \<open>What the gates say\<close>

lemma measure_latency_counts:
  assumes "measure_latency n run_id warmed successes retain answer = Inr r"
  shows "la_payload r = n \<and> unat (la_attempts r) = unat (ls_samples (la_statistics r)) + unat (la_timeouts r) + unat (la_corrupt r) \<and>
    unat (ls_samples (la_statistics r)) \<le> unat successes \<and>
    (unat (ls_samples (la_statistics r)) = unat successes \<or> la_attempts r = maximum_attempts successes)"
proof -
  obtain w st where w: "stop_and_wait n run_id warmed successes answer = Inr w" "summarize (w_samples w) = Some st"
    and r: "la_payload r = n" "la_attempts r = w_attempts w" "la_timeouts r = w_timeouts w" "la_corrupt r = w_corrupt w"
      "la_statistics r = st"
    using assms by (auto simp: measure_latency_def r_bind_Inr_iff latency_result_of_def ok_or_def split: option.splits)
  have c: "unat (w_attempts w) = length (w_samples w) + unat (w_timeouts w) + unat (w_corrupt w)"
      "length (w_samples w) \<le> unat successes"
      "length (w_samples w) = unat successes \<or> w_attempts w = maximum_attempts successes"
    using stop_and_wait_is_bounded [of n run_id warmed successes answer] w(1) by auto
  have "ls_samples st = of_nat (length (w_samples w))"
    using w(2) by (auto simp: summarize_def Let_def no_stats_def bind_eq_Some_conv split: if_splits)
  then have "unat (ls_samples st) = length (w_samples w)"
    using c(2) unat_u64_bound [of successes] by (simp add: unat_of_nat)
  then show ?thesis using r c by simp
qed

text \<open>A size whose attempts were all answered had exactly the wanted number of attempts.\<close>

definition all_answered :: "u64 \<Rightarrow> functional_result \<Rightarrow> bool" where
  "all_answered repetitions r \<longleftrightarrow>
    fr_attempts r = repetitions \<and> fr_valid r = repetitions \<and> fr_timeouts r = 0 \<and> fr_corrupt r = 0"

lemma maximum_attempts_more: "unat successes < unat (maximum_attempts successes) \<or> 10 \<le> unat successes"
  by (auto simp: maximum_attempts_def max_def word_le_unat unat_sat_mul min_def)

lemma functional_gate:
  assumes "functional net repetitions run_id sizes = Inr rs" and "repetitions < 10"
    and "\<not> list_ex (\<lambda>r. fr_valid r \<noteq> fr_attempts r \<or> fr_corrupt r \<noteq> 0) rs"
  shows "map fr_payload rs = map snd sizes \<and> list_all (all_answered repetitions) rs"
  using assms
proof (induction sizes arbitrary: rs)
  case (Cons size sizes)
  obtain index n where size: "size = (index, n)" by (cases size)
  obtain r rest where r: "measure_latency n (run_id + of_nat index) 0 repetitions False (net index) = Inr r"
    "functional net repetitions run_id sizes = Inr rest" "rs = functional_result_of r # rest"
    using Cons(2) by (auto simp: size r_bind_Inr_iff)
  have v: "ls_samples (la_statistics r) = la_attempts r" "la_corrupt r = 0"
    using Cons(4) r(3) by (simp_all add: functional_result_of_def)
  note m = measure_latency_counts [OF r(1)]
  have "unat repetitions < 10" using assms(2) by (simp add: word_less_unat)
  then have "la_attempts r \<noteq> maximum_attempts repetitions"
    using m v(1) maximum_attempts_more [of repetitions] by auto
  then have "unat (la_attempts r) = unat repetitions" "unat (la_timeouts r) = 0"
    using m unfolding v(1) by simp_all
  then have "la_attempts r = repetitions" "la_timeouts r = 0"
    using word_unat_eq_iff by (blast, simp only: unat_eq_0)
  then have "all_answered repetitions (functional_result_of r)"
    using v by (simp add: all_answered_def functional_result_of_def)
  then show ?case
    using Cons(1) [OF r(2) Cons(3)] Cons(4) r(3) m by (simp add: size functional_result_of_def)
qed simp

lemma latency_gate:
  assumes "latency net warmed successes run_id sizes = Inr rs"
    and "\<not> list_ex (\<lambda>r. ls_samples (la_statistics r) < successes) rs"
  shows "map la_payload rs = map snd sizes \<and> list_all (\<lambda>r. ls_samples (la_statistics r) = successes) rs"
  using assms
proof (induction sizes arbitrary: rs)
  case (Cons size sizes)
  obtain index n where size: "size = (index, n)" by (cases size)
  obtain r rest where r: "measure_latency n (run_id + of_nat index) (warmed index) successes True (net index) = Inr r"
    "latency net warmed successes run_id sizes = Inr rest" "rs = r # rest"
    using Cons(2) by (auto simp: size r_bind_Inr_iff)
  have "ls_samples (la_statistics r) = successes"
    using measure_latency_counts [OF r(1)] Cons(3) r(3) by (simp add: word_le_nat_alt order_antisym not_less)
  then show ?case
    using Cons(1) [OF r(2)] Cons(3) r(3) measure_latency_counts [OF r(1)] by (simp add: size)
qed simp

lemma soak_rate_positive:
  assumes "f_finite (soak_rate cs)" and "\<not> f_le (soak_rate cs) f_zero"
  shows "\<exists>c \<in> set cs. f_less f_zero (cr_zero_loss c) \<and> soak_rate cs = f_mul (cr_zero_loss c) (to_f64 (70 / 100)) \<and>
    (\<forall>d \<in> set cs. f_less f_zero (cr_zero_loss d) \<longrightarrow> f_le (cr_zero_loss c) (cr_zero_loss d))"
proof -
  let ?ys = "filter (f_less f_zero) (map cr_zero_loss cs)" and ?m = "foldl f_min (F64_Inf False) (filter (f_less f_zero) (map cr_zero_loss cs))"
  have "\<forall>y \<in> set ?ys. y \<noteq> F64_NaN" by (auto simp: f_zero_def)
  then have m: "?m \<in> insert (F64_Inf False) (set ?ys)" "\<forall>y \<in> set ?ys. f_le ?m y"
    using foldl_f_min [of "F64_Inf False" ?ys] by auto
  have "?m \<noteq> F64_Inf False"
  proof
    assume "?m = F64_Inf False"
    then have "soak_rate cs = f_mul (F64_Inf False) (to_f64 (70 / 100))" unfolding soak_rate_def by simp
    then show False using assms(1) by (cases "to_f64 (70 / 100)") (auto split: if_splits)
  qed
  then have "?m \<in> set ?ys" using m(1) by simp
  then obtain c where "c \<in> set cs" "f_less f_zero (cr_zero_loss c)" "cr_zero_loss c = ?m" by auto
  then show ?thesis using m(2) by (intro bexI [of _ c]) (auto simp: soak_rate_def)
qed

section \<open>Properties\<close>


text \<open>A suite with a positive interval ends, and its soak then lasts as long as was asked for.\<close>
theorem suite_ends:
  assumes "0 < so_soak_interval so"
  shows "\<exists>r. suite net1 net2 warmed load net3 soak_load so = Some r \<and>
    (\<forall>phases total intervals. r = Inr (phases, total, intervals) \<longrightarrow>
      suite_phases net1 net2 warmed load net3 so = Inr phases \<and>
      sum_list (map fst intervals) = so_soak_seconds so * 1000000000 \<and>
      total = foldl add_counters no_counters (map snd intervals))"
proof (cases "suite_phases net1 net2 warmed load net3 so")
  case (Inr phases)
  obtain fs ls cs bs rate where p: "phases = (fs, ls, cs, bs, rate)" by (cases phases)
  have "0 < so_soak_interval so * 1000000000" using assms by simp
  from soak_loop_ends [OF this, of "soak_load rate" "so_soak_seconds so * 1000000000" 0 no_counters "[]"]
  obtain r where r: "soak (soak_load rate) (so_soak_seconds so * 1000000000) (so_soak_interval so * 1000000000) = Some r"
      "\<forall>t ds. r = Inr (t, ds) \<longrightarrow> sum_list (map fst ds) = so_soak_seconds so * 1000000000 \<and>
        t = foldl add_counters no_counters (map snd ds)"
    unfolding soak_def append_Nil by blast
  then show ?thesis by (cases r) (auto simp: suite_def Inr p)
qed (simp add: suite_def)

section \<open>A sample suite\<close>

definition echo_net :: network where
  "echo_net = (\<lambda>index attempt packet. Reply packet 100)"

lemma echo_wait_loop:
  assumes "w_timeouts w = 0" and "w_corrupt w = 0"
  shows "\<exists>w'. wait_loop n run_id successes attempts (\<lambda>attempt packet. Reply packet 100) w = Inr w' \<and>
    w_timeouts w' = 0 \<and> w_corrupt w' = 0"
  using assms
proof (induction n run_id successes attempts "\<lambda>(attempt :: u64) packet. Reply packet 100" w rule: wait_loop.induct)
  case (1 n run_id successes attempts w)
  obtain packet where "raw_packet n run_id (w_sequence w) = Some packet" using raw_packet_some by blast
  then obtain w1 where "wait_turn n run_id (\<lambda>attempt packet. Reply packet 100) w = Inr w1" "w_timeouts w1 = 0" "w_corrupt w1 = 0"
    using 1(2,3) by (simp add: wait_turn_def Let_def)
  then show ?case
    using 1 wait_loop.simps [of n run_id successes attempts "\<lambda>attempt packet. Reply packet 100" w]
    by (cases "wants successes attempts w") auto
qed

lemma echo_measured:
  assumes "unat successes < 10"
  shows "\<exists>r. measure_latency n run_id warmed successes retain (echo_net index) = Inr r \<and>
    ls_samples (la_statistics r) = successes \<and> la_attempts r = successes \<and> la_corrupt r = 0"
proof -
  obtain w where w: "stop_and_wait n run_id warmed successes (echo_net index) = Inr w" "w_timeouts w = 0" "w_corrupt w = 0"
    using echo_wait_loop [of "\<lparr>w_sequence = warmed, w_attempts = 0, w_timeouts = 0, w_corrupt = 0, w_samples = []\<rparr>"
      n run_id successes "maximum_attempts successes"] by (auto simp: stop_and_wait_def echo_net_def)
  then have "length (w_samples w) \<le> unat successes"
    using stop_and_wait_is_bounded [of n run_id warmed successes "echo_net index"] by auto
  then obtain st where "summarize (w_samples w) = Some st"
    using summarize_total [of "w_samples w"] assms by fastforce
  then obtain r where r: "measure_latency n run_id warmed successes retain (echo_net index) = Inr r"
      "la_timeouts r = 0" "la_corrupt r = 0"
    using w by (simp add: measure_latency_def latency_result_of_def ok_or_def)
  note m = measure_latency_counts [OF r(1)]
  have a: "unat (la_attempts r) = unat (ls_samples (la_statistics r))" using m r by simp
  then have "la_attempts r \<noteq> maximum_attempts successes"
    using m assms maximum_attempts_more [of successes] by auto
  then have "unat (ls_samples (la_statistics r)) = unat successes" using m by simp
  then have "ls_samples (la_statistics r) = successes \<and> la_attempts r = successes"
    using a word_unat_eq_iff by metis
  then show ?thesis using r by blast
qed

lemma echo_functional:
  "\<exists>rs. functional echo_net 5 run_id sizes = Inr rs \<and> \<not> list_ex (\<lambda>r. fr_valid r \<noteq> fr_attempts r \<or> fr_corrupt r \<noteq> 0) rs"
proof (induction sizes)
  case (Cons size sizes)
  then show ?case
    using echo_measured [of 5 "snd size" "run_id + of_nat (fst size)" 0 False "fst size"]
    by (cases size) (auto simp: functional_result_of_def)
qed simp

lemma echo_latency:
  "\<exists>rs. latency echo_net warmed 2 run_id sizes = Inr rs \<and> \<not> list_ex (\<lambda>r. ls_samples (la_statistics r) < 2) rs"
proof (induction sizes)
  case (Cons size sizes)
  then show ?case
    using echo_measured [of 2 "snd size" "run_id + of_nat (fst size)" "warmed (fst size)" True "fst size"]
    by (cases size) auto
qed simp

text \<open>Every load is free of loss, but too slow for the network under it.\<close>

definition slow_loader :: "unit loader" where
  "slow_loader h c = Inr \<lparr>lr_payload = lc_fixed c, lr_target = lc_rate c, lr_measurement = as_secs (lc_measurement c),
     lr_drain = as_secs (lc_drain c), lr_window = lc_window c, lr_offered = lc_rate c, lr_goodput = f_zero,
     lr_sent_rate = f_zero, lr_valid_rate = f_zero, lr_loss = f_zero, lr_counters = no_counters, lr_latency = no_stats\<rparr>"

definition sample_suite :: suite_options where
  "sample_suite = \<lparr>so_no_zero_byte = False, so_latency_samples = 2, so_throughput_seconds = 1, so_window = 8, so_burst_repetitions = 3,
    so_soak_seconds = 2, so_soak_interval = 1, so_base_run = 7\<rparr>"

lemma fraction_of_quarter:
  assumes "1 / 2 \<le> f" and "f \<le> 1"
  shows "\<exists>y. f_mul (F64 (1 / 4)) (to_f64 f) = F64 y \<and> 0 < y \<and> y \<le> 1 / 4"
proof -
  obtain z where z: "to_f64 f = F64 z" "f * (999 / 1000) \<le> z" "0 < z"
    using to_f64_between [of f f f] assms by (auto simp: moderate_def)
  have one: "z \<le> 1" using to_f64_value [OF z(1)] rnd_fraction [of f] assms by simp
  obtain y where y: "to_f64 (1 / 4 * z) = F64 y" "0 < y"
    by (rule to_f64_between [of "1 / 4 * z" "1 / 4 * z" "1 / 4 * z"])
      (use z(2) assms(1) one in \<open>simp_all add: moderate_def\<close>)
  have "rnd (1 / 4 * z) \<le> rnd (1 / 4)" using z(3) one by (intro rnd_mono) simp_all
  moreover have "rnd (1 / 4) = 1 / 4" using rnd_exact [of 1 "- 2"] by (simp add: power_int_minus_divide)
  ultimately have "y \<le> 1 / 4" using to_f64_value [OF y(1)] by simp
  then show ?thesis using z(1) y by simp
qed

lemma slow_trial:
  assumes "trial slow_loader opts n (F64 (1 / 4)) run_id h = Inr (r, h')"
  shows "is_zero_loss r \<and> is_saturated r"
proof -
  obtain h1 where "fixed_load slow_loader opts n (F64 (1 / 4)) (co_measurement opts) (co_drain opts) run_id h1 = Inr (r, h')"
    using assms by (auto simp: trial_def r_bind_Inr_iff)
  then have r: "lr_target r = F64 (1 / 4)" "lr_offered r = F64 (1 / 4)" "lr_goodput r = f_zero" "lr_counters r = no_counters"
    using fixed_load_call by (fastforce simp: slow_loader_def)+
  show ?thesis
    using fraction_of_quarter [of "98 / 100"] fraction_of_quarter [of "90 / 100"] r
    by (auto simp: is_zero_loss_def is_saturated_def no_counters_def f_zero_def)
qed

lemma slow_size:
  assumes "HEADER_LEN \<le> n" and "n \<le> 65535"
  shows "\<exists>c h'. size_capacity slow_loader (suite_capacity sample_suite) index n h = Inr (c, h') \<and>
    cr_saturated c \<and> cr_zero_loss c = F64 (1 / 4)"
proof -
  let ?o = "suite_capacity sample_suite"
  have ok: "\<forall>h c. \<exists>r. slow_loader h c = Inr r" by (simp add: slow_loader_def)
  obtain r h1 where t: "trial slow_loader ?o n (F64 (1 / 4)) (size_run_id ?o index) h = Inr (r, h1)"
    using trial_returns [OF ok assms] by blast
  have v: "is_zero_loss r" "is_saturated r" using slow_trial [OF t] by simp_all
  obtain z where z: "to_f64 (5 / 100) = F64 z" "0 < z"
    by (rule to_f64_between [of "5 / 100" "5 / 100" "5 / 100"]) (simp_all add: moderate_def)
  have rates: "co_rates ?o = F64 (1 / 4) # tl (co_rates ?o)" "[0..<co_refinements ?o] = [0, 1]"
    by (simp_all add: suite_capacity_def upt_rec)
  have best: "f_max f_zero (F64 (1 / 4)) = F64 (1 / 4)" by (simp add: f_max_def f_zero_def)
  have co: "coarse_search slow_loader ?o n index (co_rates ?o) (f_zero, [], h) = Inr (Some (F64 (1 / 4)), F64 (1 / 4), [r], h1)"
    using t v best by (subst rates(1)) (simp add: Let_def)
  have re: "refine slow_loader ?o n index (F64 (1 / 4)) (F64 (1 / 4)) [0..<co_refinements ?o] (F64 (1 / 4), [r], h1) =
      Inr (F64 (1 / 4), [r], h1)"
    using z unfolding rates(2) by (simp add: f_zero_def f_sub_def)
  show ?thesis by (simp add: size_capacity_def co re)
qed

lemma slow_capacity:
  assumes "\<forall>size \<in> set sizes. HEADER_LEN \<le> snd size \<and> snd size \<le> 65535"
  shows "\<exists>cs h'. capacity slow_loader (suite_capacity sample_suite) sizes h = Inr (cs, h') \<and>
    \<not> list_ex (\<lambda>c. \<not> cr_saturated c) cs \<and> map cr_zero_loss cs = replicate (length sizes) (F64 (1 / 4))"
  using assms
proof (induction sizes arbitrary: h)
  case (Cons size sizes)
  obtain index n where size: "size = (index, n)" by (cases size)
  obtain c h1 where c: "size_capacity slow_loader (suite_capacity sample_suite) index n h = Inr (c, h1)"
      "cr_saturated c" "cr_zero_loss c = F64 (1 / 4)"
    using slow_size [of n index h] Cons(2) size by auto
  obtain cs h2 where "capacity slow_loader (suite_capacity sample_suite) sizes h1 = Inr (cs, h2)"
      "\<not> list_ex (\<lambda>c. \<not> cr_saturated c) cs" "map cr_zero_loss cs = replicate (length sizes) (F64 (1 / 4))"
    using Cons by fastforce
  then show ?case using c by (simp add: size)
qed simp

text \<open>Bursts without any reply.\<close>

lemma burst_send_io: "burst_send n run_id first outcome offsets st \<noteq> Inl Burst_Io"
  using burst_send_accounts [of n run_id first outcome offsets "fst st" "snd st"] by auto

lemma quiet_repeat: "repeat_burst n run_id k (map (quiet_net n k) is) st whole \<noteq> Inl Burst_Io"
proof (induction "is" arbitrary: st whole)
  case (Cons i "is")
  obtain c first samples where st: "st = (c, first, samples)" by (cases st)
  have "one_burst n run_id k (\<lambda>offset. (0, True)) [Deadline] st \<noteq> Inl Burst_Io"
    using burst_send_io by (auto simp: st one_burst_def Let_def r_bind_Inl_iff split: if_splits)
  then show ?case using Cons by (auto simp: quiet_net_def r_bind_Inl_iff)
qed simp

lemma quiet_sizes: "burst_sizes quiet_net run_id repetitions n ks first \<noteq> Inl Burst_Io"
  using quiet_repeat
  by (induction ks arbitrary: first) (auto simp: r_bind_Inl_iff ok_or_def split: option.splits)

lemma quiet_bursts:
  assumes "\<forall>n \<in> set ns. HEADER_LEN \<le> n"
    and "unat repetitions < 2 ^ 53" and "unat first + length ns * (unat repetitions * sum_list ks) < 2 ^ 53"
  shows "\<exists>rs. bursts quiet_net run_id repetitions ns ks first = Inr rs"
  using assms(1,3)
proof (induction ns arbitrary: first)
  case (Cons n ns)
  have n: "\<not> n < HEADER_LEN" "32 \<le> n" using Cons(2) by (simp_all add: HEADER_LEN_def)
  let ?total = "unat repetitions * sum_list ks"
  have b: "unat first + ?total < 2 ^ 53" using Cons(3) by simp
  obtain rs where rs: "burst_sizes quiet_net run_id repetitions n ks first = Inr (rs, first + of_nat ?total)"
    using burst_sizes_account [OF n(2) b assms(2), of quiet_net run_id] quiet_sizes by blast
  have "unat (first + of_nat ?total) = unat first + ?total"
    using b by (simp add: unat_add_small unat_of_nat del: of_nat_mult)
  then have "unat (first + of_nat ?total) + length ns * ?total < 2 ^ 53" using Cons(3) by simp
  from Cons(1) [OF _ this] show ?case using Cons(2) rs n(1) by (auto simp del: of_nat_mult)
qed simp

lemma sample_suite_runs:
  "\<exists>fs ls cs bs rate. suite_phases echo_net echo_net (\<lambda>_. 3) slow_loader quiet_net sample_suite = Inr (fs, ls, cs, bs, rate)"
proof -
  let ?so = sample_suite
  obtain fs where f: "functional echo_net 5 (so_base_run ?so) (List.enumerate 0 (functional_sizes (so_no_zero_byte ?so))) = Inr fs"
      "\<not> list_ex (\<lambda>r. fr_valid r \<noteq> fr_attempts r \<or> fr_corrupt r \<noteq> 0) fs"
    using echo_functional by blast
  have two: "so_latency_samples ?so = 2" by (simp add: sample_suite_def)
  obtain ls where l: "latency echo_net (\<lambda>_. 3) (so_latency_samples ?so) (xor (so_base_run ?so) 0x1000)
      (List.enumerate 0 [1, 32, 64, 256, 512, 1024, 1472]) = Inr ls"
      "\<not> list_ex (\<lambda>r. ls_samples (la_statistics r) < so_latency_samples ?so) ls"
    using echo_latency unfolding two by blast
  have sizes: "\<forall>size \<in> set (List.enumerate 0 [64, 256, 512, 1024, 1472]). HEADER_LEN \<le> snd size \<and> snd size \<le> 65535"
    and len: "length (List.enumerate 0 [64, 256, 512, 1024, 1472 :: nat]) = 5"
    by (simp_all add: HEADER_LEN_def)
  obtain cs h where c: "capacity slow_loader (suite_capacity ?so) (List.enumerate 0 [64, 256, 512, 1024, 1472]) [] = Inr (cs, h)"
      "\<not> list_ex (\<lambda>c. \<not> cr_saturated c) cs" "map cr_zero_loss cs = replicate 5 (F64 (1 / 4))"
    using slow_capacity [OF sizes, of "[]"] unfolding len by blast
  have "filter (f_less f_zero) (map cr_zero_loss cs) = [F64 (1 / 4), F64 (1 / 4), F64 (1 / 4), F64 (1 / 4), F64 (1 / 4)]"
    unfolding c(3) by (simp add: f_zero_def numeral_eq_Suc)
  then have "soak_rate cs = f_mul (F64 (1 / 4)) (to_f64 (70 / 100))"
    by (simp only: soak_rate_def) (simp add: f_min_def)
  then obtain y where "soak_rate cs = F64 y" "0 < y" using fraction_of_quarter [of "70 / 100"] by auto
  moreover obtain bs where "bursts quiet_net (xor (so_base_run ?so) 0x3000) (so_burst_repetitions ?so) [64, 512, 1472]
      [1, 4, 8, 16, 32, 64, 128] 0 = Inr bs"
    using quiet_bursts [of "[64, 512, 1472]" "so_burst_repetitions ?so" 0 "[1, 4, 8, 16, 32, 64, 128]"]
    by (auto simp: HEADER_LEN_def sample_suite_def simp del: bursts.simps)
  ultimately show ?thesis
    by (simp only: suite_phases_def f l c(1,2) map_sum.simps id_apply r_bind_simps prod.case if_False Let_def)
      (simp add: f_zero_def)
qed


end
