(* ===== verification/Bench_Reports.thy ===== *)
theory Bench_Reports
  imports Bench_Suite Text_Parsing
begin

text \<open>
  The CSV reports and the list options of \<^verbatim>\<open>tools/udp-benchmark/src/main.rs\<close>.  A file is the
  text written to it.
\<close>

section \<open>Numbers\<close>

text \<open>\<^verbatim>\<open>{:.p}\<close> for a positive \<^verbatim>\<open>p\<close>: the exact value rounded to \<^verbatim>\<open>p\<close> decimals, ties to even.\<close>

primrec padded :: "nat \<Rightarrow> nat \<Rightarrow> bytes" where
  "padded 0 n = []"
| "padded (Suc p) n = padded p (n div 10) @ [of_nat (48 + n mod 10)]"

fun show_fixed :: "nat \<Rightarrow> f64 \<Rightarrow> bytes" where
  "show_fixed p F64_NaN = lit ''NaN''"
| "show_fixed p (F64_Inf s) = lit (if s then ''-inf'' else ''inf'')"
| "show_fixed p (F64 x) =
    (let n = nat (rne (\<bar>x\<bar> * 10 ^ p))
     in (if x < 0 then [45] else []) @ digits (n div 10 ^ p) @ [46] @ padded p (n mod 10 ^ p))"

definition show_u64 :: "u64 \<Rightarrow> bytes" where
  "show_u64 w = digits (unat w)"

section \<open>Reports\<close>

text \<open>\<^verbatim>\<open>writeln!\<close> of fields with commas between them.\<close>

fun csv_line :: "bytes list \<Rightarrow> bytes" where
  "csv_line [] = [10]"
| "csv_line [f] = f @ [10]"
| "csv_line (f # fs) = f @ [44] @ csv_line fs"

definition csv_file :: "bytes list list \<Rightarrow> bytes" where
  "csv_file rows = concat (map csv_line rows)"

definition latency_header :: "bytes list" where
  "latency_header = map lit [''payload_bytes'', ''sample_index'', ''rtt_ns'']"

definition latency_csv :: "latency_result list \<Rightarrow> bytes" where
  "latency_csv results = csv_file (latency_header # concat (map (\<lambda>r.
    map (\<lambda>(index, sample). [digits (la_payload r), digits index, show_u64 sample])
      (List.enumerate 0 (la_samples r))) results))"

definition trial_header :: "string \<Rightarrow> bytes list" where
  "trial_header first = map lit [first, ''target_mbps'', ''offered_mbps'', ''goodput_mbps'', ''loss_percent'', ''sent'', ''valid'',
    ''missing'', ''late'', ''duplicates'', ''reordered'', ''corrupt'', ''p50_ns'', ''p99_ns'']"

definition trial_row :: "nat \<Rightarrow> load_result \<Rightarrow> bytes list" where
  "trial_row first r = (let c = lr_counters r; l = lr_latency r in
    [digits first, show_fixed 6 (lr_target r), show_fixed 6 (lr_offered r), show_fixed 6 (lr_goodput r),
     show_fixed 9 (lr_loss r)] @
    map show_u64 [c_sent c, c_valid_replies c, c_missing c, c_late c, c_duplicates c, c_reordered c, c_corrupt c,
      ls_p50 l, ls_p99 l])"

definition capacity_csv :: "capacity_result list \<Rightarrow> bytes" where
  "capacity_csv results =
    csv_file (trial_header ''payload_bytes'' # concat (map (\<lambda>c. map (trial_row (cr_payload c)) (cr_trials c)) results))"

definition load_csv :: "load_result list \<Rightarrow> bytes" where
  "load_csv results =
    csv_file (trial_header ''interval'' # map (\<lambda>(index, r). trial_row index r) (List.enumerate 0 results))"

definition burst_header :: "bytes list" where
  "burst_header = map lit [''payload_bytes'', ''burst_packets'', ''repetitions'', ''complete_percent'', ''sent'', ''valid'',
    ''missing'', ''duplicates'', ''corrupt'', ''p50_ns'', ''p99_ns'']"

definition burst_row :: "burst_result \<Rightarrow> bytes list" where
  "burst_row r = (let c = br_counters r; l = br_latency r in
    [digits (br_payload r), digits (br_packets r), show_u64 (br_repetitions r), show_fixed 6 (br_percent r)] @
    map show_u64 [c_sent c, c_valid_replies c, c_missing c, c_duplicates c, c_corrupt c, ls_p50 l, ls_p99 l])"

definition burst_csv :: "burst_result list \<Rightarrow> bytes" where
  "burst_csv results = csv_file (burst_header # map burst_row results)"

definition counters_markdown :: "packet_counters \<Rightarrow> bytes" where
  "counters_markdown c =
    lit ''Sent: '' @ show_u64 (c_sent c) @ lit ''; valid: '' @ show_u64 (c_valid_replies c) @
    lit ''; missing: '' @ show_u64 (c_missing c) @ lit ''; late: '' @ show_u64 (c_late c) @
    lit ''; duplicates: '' @ show_u64 (c_duplicates c) @ lit ''; reordered: '' @ show_u64 (c_reordered c) @
    lit ''; corrupt: '' @ show_u64 (c_corrupt c) @ lit ''.''"

section \<open>List options\<close>

definition parse_list :: "bytes \<Rightarrow> nat list option" where
  "parse_list value =
    Option.bind (collect (map (\<lambda>part. unsigned_from_str (2 ^ 64) (trim part)) (split_at 44 value)))
      (\<lambda>values. if values = [] then None else Some values)"

text \<open>How a number is read is an argument.\<close>

definition parse_float_list :: "(bytes \<Rightarrow> f64 option) \<Rightarrow> bytes \<Rightarrow> f64 list option" where
  "parse_float_list f64_from_str value =
    Option.bind (collect (map (\<lambda>part. f64_from_str (trim part)) (split_at 44 value)))
      (\<lambda>values. if values = [] \<or> list_ex (\<lambda>x. \<not> f_finite x \<or> f_le x f_zero) values then None else Some values)"

section \<open>Reading a report\<close>

definition read_csv :: "bytes \<Rightarrow> bytes list list" where
  "read_csv file = map (split_at 44) (butlast (split_at 10 file))"

definition plain :: "bytes \<Rightarrow> bool" where
  "plain f \<longleftrightarrow> 44 \<notin> set f \<and> 10 \<notin> set f"

lemma csv_line_fields:
  assumes "fs \<noteq> []" and "list_all plain fs"
  shows "\<exists>line. csv_line fs = line @ [10] \<and> 10 \<notin> set line \<and> split_at 44 line = fs"
  using assms
proof (induction fs rule: csv_line.induct)
  case (2 f)
  then show ?case by (auto simp: plain_def split_at_last)
next
  case (3 f g fs)
  then obtain line where "csv_line (g # fs) = line @ [10]" "10 \<notin> set line" "split_at 44 line = g # fs" by auto
  then show ?case
    using 3(3) by (intro exI [of _ "f @ 44 # line"]) (auto simp: plain_def split_at_next)
qed simp

lemma read_csv_file:
  assumes "\<forall>fs \<in> set rows. fs \<noteq> [] \<and> list_all plain fs"
  shows "read_csv (csv_file rows) = rows"
  using assms
proof (induction rows)
  case (Cons fs rows)
  obtain line where line: "csv_line fs = line @ [10]" "10 \<notin> set line" "split_at 44 line = fs"
    using csv_line_fields [of fs] Cons(2) by auto
  have "split_at 10 (csv_file (fs # rows)) = line # split_at 10 (csv_file rows)"
    using line(1) split_at_next [OF line(2), of "csv_file rows"] by (simp add: csv_file_def)
  then show ?case using Cons line(3) by (simp add: read_csv_def split_at_nonempty)
qed (simp add: read_csv_def csv_file_def)

lemma plain_digits: "list_all is_digit bs \<Longrightarrow> plain bs"
  by (auto simp: plain_def list_all_iff is_digit_def)

lemma plain_append: "plain a \<Longrightarrow> plain b \<Longrightarrow> plain (a @ b)"
  by (simp add: plain_def)

lemma plain_show [simp]: "plain (digits n)" "plain (show_u64 w)"
  by (simp_all add: show_u64_def plain_digits digits_all_digit)

lemma padded_digits: "list_all is_digit (padded p n)"
  by (induction p arbitrary: n) (simp_all add: is_digit_byte del: of_nat_add)

lemma plain_fixed [simp]: "plain (show_fixed p x)"
proof (cases x)
  case (F64 q)
  have "plain (digits k @ [46] @ padded p m)" for k m
    using plain_digits [OF padded_digits] by (intro plain_append) (simp_all add: plain_def [of "[46]"])
  then have "plain (digits k @ [46] @ padded p m)" "plain ([45] @ digits k @ [46] @ padded p m)" for k m
    using plain_append [of "[45]"] by (simp_all add: plain_def)
  then show ?thesis using F64 by (simp add: Let_def)
qed (simp_all add: plain_def)

lemma parse_show [simp]: "parse_nat (show_u64 w) = Some (unat w)"
  by (simp add: show_u64_def)

lemma plain_headers:
  "list_all plain latency_header" "list_all plain (trial_header ''payload_bytes'')" "list_all plain (trial_header ''interval'')"
  "list_all plain burst_header"
  by (simp_all add: latency_header_def trial_header_def burst_header_def plain_def)

lemma trial_row_fields: "list_all plain (trial_row k r)" "length (trial_row k r) = 14"
  by (simp_all add: trial_row_def Let_def)

lemma burst_row_fields: "list_all plain (burst_row r)" "length (burst_row r) = 11"
  by (simp_all add: burst_row_def Let_def)

definition trial_counts :: "load_result \<Rightarrow> u64 list" where
  "trial_counts r = (let c = lr_counters r; l = lr_latency r in
    [c_sent c, c_valid_replies c, c_missing c, c_late c, c_duplicates c, c_reordered c, c_corrupt c, ls_p50 l, ls_p99 l])"

lemma trial_row_counts: "map parse_nat (drop 5 (trial_row k r)) = map (\<lambda>w. Some (unat w)) (trial_counts r)"
  by (simp add: trial_row_def trial_counts_def Let_def)

lemma tables_read_back:
  "read_csv (latency_csv ls) = latency_header # concat (map (\<lambda>r.
     map (\<lambda>(index, sample). [digits (la_payload r), digits index, show_u64 sample]) (List.enumerate 0 (la_samples r))) ls)"
  "read_csv (capacity_csv cs) =
     trial_header ''payload_bytes'' # concat (map (\<lambda>c. map (trial_row (cr_payload c)) (cr_trials c)) cs)"
  "read_csv (load_csv rs) = trial_header ''interval'' # map (\<lambda>(index, r). trial_row index r) (List.enumerate 0 rs)"
  "read_csv (burst_csv bs) = burst_header # map burst_row bs"
proof -
  have ne: "trial_row k r \<noteq> []" "burst_row b \<noteq> []" "latency_header \<noteq> []" "trial_header x \<noteq> []" "burst_header \<noteq> []" for k r b x
    by (simp_all add: trial_row_def burst_row_def latency_header_def trial_header_def burst_header_def Let_def)
  note fields = ne plain_headers trial_row_fields(1) burst_row_fields(1)
  show "read_csv (latency_csv ls) = latency_header # concat (map (\<lambda>r.
     map (\<lambda>(index, sample). [digits (la_payload r), digits index, show_u64 sample]) (List.enumerate 0 (la_samples r))) ls)"
    unfolding latency_csv_def by (rule read_csv_file) (auto simp: fields)
  show "read_csv (capacity_csv cs) =
     trial_header ''payload_bytes'' # concat (map (\<lambda>c. map (trial_row (cr_payload c)) (cr_trials c)) cs)"
    unfolding capacity_csv_def by (rule read_csv_file) (auto simp: fields)
  show "read_csv (load_csv rs) = trial_header ''interval'' # map (\<lambda>(index, r). trial_row index r) (List.enumerate 0 rs)"
    unfolding load_csv_def by (rule read_csv_file) (auto simp: fields)
  show "read_csv (burst_csv bs) = burst_header # map burst_row bs"
    unfolding burst_csv_def by (rule read_csv_file) (auto simp: fields)
qed

section \<open>Properties\<close>

text \<open>The reports can be read back: the latency report gives every sample with its size and
  number, in order, and each row of a capacity or soak report has the 14 fields of its header
  with the counters and percentiles of its trial.\<close>
theorem reports_read_back:
  "map (map parse_nat) (tl (read_csv (latency_csv ls))) = concat (map (\<lambda>r.
     map (\<lambda>(index, sample). [Some (la_payload r), Some index, Some (unat sample)]) (List.enumerate 0 (la_samples r))) ls) \<and>
   map (\<lambda>row. (length row, map parse_nat (drop 5 row))) (tl (read_csv (load_csv rs))) =
     map (\<lambda>r. (14, map (\<lambda>w. Some (unat w)) (trial_counts r))) rs \<and>
   map (\<lambda>row. (length row, map parse_nat (drop 5 row))) (tl (read_csv (capacity_csv cs))) =
     map (\<lambda>r. (14, map (\<lambda>w. Some (unat w)) (trial_counts r))) (concat (map cr_trials cs))"
proof -
  have rows: "map (\<lambda>row. (length row, map parse_nat (drop 5 row))) (map (trial_row k) ts) =
      map (\<lambda>r. (14, map (\<lambda>w. Some (unat w)) (trial_counts r))) ts" for k ts
    by (simp add: trial_row_counts trial_row_fields)
  have "map (\<lambda>row. (length row, map parse_nat (drop 5 row))) (map (\<lambda>(index, r). trial_row index r) (List.enumerate k rs)) =
      map (\<lambda>r. (14, map (\<lambda>w. Some (unat w)) (trial_counts r))) rs" for k
    by (induction rs arbitrary: k) (simp_all add: trial_row_counts trial_row_fields)
  moreover have "map (\<lambda>row. (length row, map parse_nat (drop 5 row))) (concat (map (\<lambda>c. map (trial_row (cr_payload c)) (cr_trials c)) cs)) =
      map (\<lambda>r. (14, map (\<lambda>w. Some (unat w)) (trial_counts r))) (concat (map cr_trials cs))"
    using rows by (induction cs) simp_all
  moreover have "map (map parse_nat) (concat (map (\<lambda>r.
     map (\<lambda>(index, sample). [digits (la_payload r), digits index, show_u64 sample]) (List.enumerate 0 (la_samples r))) ls)) =
    concat (map (\<lambda>r. map (\<lambda>(index, sample). [Some (la_payload r), Some index, Some (unat sample)]) (List.enumerate 0 (la_samples r))) ls)"
    by (simp add: map_concat o_def prod.case_distrib [of "map parse_nat"] cong: prod.case_cong)
  ultimately show ?thesis by (simp add: tables_read_back)
qed

text \<open>A list option written with commas is read as the list, and no list that is read is empty.\<close>

theorem list_option_round_trip:
  assumes "ns \<noteq> []" and "\<forall>n \<in> set ns. n < 2 ^ 64"
  shows "parse_list (butlast (csv_line (map digits ns))) = Some ns"
proof -
  obtain line where line: "csv_line (map digits ns) = line @ [10]" "split_at 44 line = map digits ns"
    using csv_line_fields [of "map digits ns"] assms(1) by (auto simp: list_all_iff)
  have "map (\<lambda>part. unsigned_from_str (2 ^ 64) (trim part)) (map digits ns) = map Some ns"
    using assms(2) by (simp add: trim_digits [OF digits_all_digit] unsigned_from_str_digits)
  then show ?thesis using line assms(1) by (simp add: parse_list_def collect_Some del: map_map)
qed

theorem list_option_round_trip_witness:
  "parse_list (lit ''64,512,1472'') = Some [64, 512, 1472]"
proof -
  have "butlast (csv_line (map digits [64, 512, 1472])) = lit ''64,512,1472''"
    by (simp add: digits.simps)
  then show ?thesis using list_option_round_trip [of "[64, 512, 1472]"] by simp
qed

end
