(* ===== verification/Stream_Sweep.thy ===== *)
theory Stream_Sweep
  imports Bench_Results Client_Properties
begin

text \<open>
  Streams of one packet size and frequency: \<^verbatim>\<open>BenchSocket::fixed_rate\<close> of
  \<^verbatim>\<open>tools/udp-benchmark/src/runner.rs\<close> and the sweep over rates of \<^verbatim>\<open>run_stream_sweep\<close> in
  \<^verbatim>\<open>tools/udp-benchmark/src/main.rs\<close>.  The loads of the intervals are answers of the
  environment, by the number of the rate and of the interval.
\<close>

section \<open>Streams\<close>

datatype 'e stream_error = Invalid_Stream | Stream_Load 'e | Zero_Duration

definition fixed_rate_valid :: "nat \<Rightarrow> f64 \<Rightarrow> bool" where
  "fixed_rate_valid n rate \<longleftrightarrow> HEADER_LEN \<le> n \<and> f_finite rate \<and> \<not> f_le rate f_zero"

definition stream_mbps :: "nat \<Rightarrow> f64 \<Rightarrow> f64" where
  "stream_mbps n rate = f_div (f_mul (f_mul (f64_of n) rate) (f64_of 8)) (f64_of 1000000)"

text \<open>A load is asked for its target, its interval's number and duration.  Nothing is a stream that
  never ends.\<close>

definition fixed_rate ::
  "(f64 \<Rightarrow> nat \<Rightarrow> nat \<Rightarrow> 'e + packet_counters) \<Rightarrow> nat \<Rightarrow> f64 \<Rightarrow> nat \<Rightarrow> nat \<Rightarrow> ('e stream_error + packet_counters) option" where
  "fixed_rate load n rate duration interval =
    (if \<not> fixed_rate_valid n rate then Some (Inl Invalid_Stream)
     else map_option (map_sum Stream_Load fst) (soak (load (stream_mbps n rate)) duration interval))"

section \<open>The sweep\<close>

record sweep_point =
  sp_target :: f64
  sp_achieved :: f64
  sp_reliable :: bool
  sp_errors :: u64
  sp_counters :: packet_counters

definition sweep_point_of :: "nat \<Rightarrow> f64 \<Rightarrow> packet_counters \<Rightarrow> sweep_point" where
  "sweep_point_of seconds target c =
    (let achieved = f_div (f64_of_u64 (c_sent c)) (f64_of seconds)
     in \<lparr>sp_target = target, sp_achieved = achieved,
          sp_reliable = stream_reliable c (f_le (f_mul target (to_f64 (98 / 100))) achieved),
          sp_errors = stream_error_events c, sp_counters = c\<rparr>)"

fun sweep_points ::
  "(nat \<Rightarrow> f64 \<Rightarrow> nat \<Rightarrow> nat \<Rightarrow> 'e + packet_counters) \<Rightarrow> nat \<Rightarrow> nat \<Rightarrow> (nat \<times> f64) list \<Rightarrow>
    ('e stream_error + sweep_point list) option" where
  "sweep_points load n seconds [] = Some (Inr [])"
| "sweep_points load n seconds ((index, rate) # rates) =
    Option.bind (fixed_rate (load index) n rate (seconds * 1000000000) (seconds * 1000000000)) (\<lambda>result.
    case result of
      Inl e \<Rightarrow> Some (Inl e)
    | Inr c \<Rightarrow> map_option (map_sum id ((#) (sweep_point_of seconds rate c))) (sweep_points load n seconds rates))"

definition highest_reliable :: "sweep_point list \<Rightarrow> f64 option" where
  "highest_reliable ps = (case takeWhile sp_reliable ps of [] \<Rightarrow> None | qs \<Rightarrow> Some (sp_target (last qs)))"

definition first_unreliable :: "sweep_point list \<Rightarrow> f64 option" where
  "first_unreliable ps = map_option sp_target (List.find (\<lambda>p. \<not> sp_reliable p) ps)"

definition stream_sweep ::
  "(nat \<Rightarrow> f64 \<Rightarrow> nat \<Rightarrow> nat \<Rightarrow> 'e + packet_counters) \<Rightarrow> nat \<Rightarrow> nat \<Rightarrow> f64 list \<Rightarrow>
    ('e stream_error + f64 option \<times> f64 option \<times> sweep_point list) option" where
  "stream_sweep load n seconds rates =
    (if seconds = 0 then Some (Inl Zero_Duration)
     else map_option (map_sum id (\<lambda>ps. (highest_reliable ps, first_unreliable ps, ps)))
       (sweep_points load n seconds (List.enumerate 0 rates)))"

section \<open>Properties\<close>

lemma add_no_counters: "add_counters no_counters c = c"
  by (simp add: add_counters_def no_counters_def)

text \<open>A stream of one interval is one load.\<close>

lemma soak_once:
  assumes "0 < d"
  shows "soak load d d = Some (case load 0 d of Inl e \<Rightarrow> Inl e | Inr c \<Rightarrow> Inr (c, [(d, c)]))"
  using assms soak_loop.simps [of load d d 0 no_counters "[]"]
  by (simp add: soak_def soak_loop.simps [of load d 0] Let_def add_no_counters split: sum.split)

lemma sweep_points_end:
  assumes "0 < seconds"
  shows "\<exists>r. sweep_points load n seconds rates = Some r \<and>
    (\<forall>ps. r = Inr ps \<longrightarrow> list_all2 (\<lambda>(index, rate) p. fixed_rate_valid n rate \<and>
       (\<exists>c. load index (stream_mbps n rate) 0 (seconds * 1000000000) = Inr c \<and> p = sweep_point_of seconds rate c)) rates ps)"
proof (induction rates)
  case (Cons pair rates)
  obtain index rate where pair: "pair = (index, rate)" by (cases pair)
  have d: "0 < seconds * 1000000000" using assms by simp
  obtain r where "sweep_points load n seconds rates = Some r" "\<forall>ps. r = Inr ps \<longrightarrow> list_all2 (\<lambda>(index, rate) p. fixed_rate_valid n rate \<and>
       (\<exists>c. load index (stream_mbps n rate) 0 (seconds * 1000000000) = Inr c \<and> p = sweep_point_of seconds rate c)) rates ps"
    using Cons by blast
  then show ?case
    by (cases r) (auto simp: pair fixed_rate_def soak_once [OF d] split: sum.splits)
qed simp

text \<open>The reliable points at the front of a sweep.\<close>

lemma prefix_summary:
  fixes ps defines "k \<equiv> length (takeWhile sp_reliable ps)"
  shows "highest_reliable ps = (if k = 0 then None else Some (sp_target (ps ! (k - 1))))"
    "first_unreliable ps = (if k = length ps then None else Some (sp_target (ps ! k)))"
    "k \<le> length ps" "\<And>i. i < k \<Longrightarrow> sp_reliable (ps ! i)"
proof -
  show k: "k \<le> length ps" by (simp add: k_def length_takeWhile_le)
  show "sp_reliable (ps ! i)" if "i < k" for i
    using that by (metis k_def nth_mem set_takeWhileD takeWhile_nth)
  have "last (takeWhile sp_reliable ps) = ps ! (k - 1)" if "takeWhile sp_reliable ps \<noteq> []"
    using that by (simp add: last_conv_nth takeWhile_nth k_def)
  then show "highest_reliable ps = (if k = 0 then None else Some (sp_target (ps ! (k - 1))))"
    by (cases "takeWhile sp_reliable ps") (simp_all add: highest_reliable_def k_def)
  show "first_unreliable ps = (if k = length ps then None else Some (sp_target (ps ! k)))"
    unfolding first_unreliable_def k_def by (induction ps) auto
qed

text \<open>A sweep ends with a point for every rate or with an error; it reports all rates up to the
  highest reliable one as delivered exactly, each in one load at its rate, and the first
  rate that was not.\<close>
theorem sweep_reports_reliable_prefix:
  assumes "0 < seconds"
  shows "\<exists>r. stream_sweep load n seconds rates = Some r \<and>
    (\<forall>hi first ps. r = Inr (hi, first, ps) \<longrightarrow>
      map sp_target ps = rates \<and> length ps = length rates \<and>
      (\<exists>k \<le> length ps. (\<forall>i < k. c_valid_replies (sp_counters (ps ! i)) = c_planned (sp_counters (ps ! i)) \<and> sp_errors (ps ! i) = 0) \<and>
        hi = (if k = 0 then None else Some (rates ! (k - 1))) \<and>
        first = (if k = length ps then None else Some (rates ! k))))"
proof -
  obtain r where r: "sweep_points load n seconds (List.enumerate 0 rates) = Some r"
      "\<forall>ps. r = Inr ps \<longrightarrow> list_all2 (\<lambda>(index, rate) p. fixed_rate_valid n rate \<and>
         (\<exists>c. load index (stream_mbps n rate) 0 (seconds * 1000000000) = Inr c \<and> p = sweep_point_of seconds rate c))
         (List.enumerate 0 rates) ps"
    using sweep_points_end [OF assms] by blast
  have "map sp_target ps = rates" and "\<forall>p \<in> set ps. \<exists>rate c. p = sweep_point_of seconds rate c" if "r = Inr ps" for ps
  proof -
    have "list_all2 (\<lambda>(index, rate) p. fixed_rate_valid n rate \<and>
         (\<exists>c. load index (stream_mbps n rate) 0 (seconds * 1000000000) = Inr c \<and> p = sweep_point_of seconds rate c))
         (List.enumerate i xs) ps \<Longrightarrow> map sp_target ps = xs" for i xs
      by (induction xs arbitrary: i ps) (auto simp: list_all2_Cons1 sweep_point_of_def Let_def)
    moreover have "list_all2 (\<lambda>(index, rate) p. fixed_rate_valid n rate \<and>
         (\<exists>c. load index (stream_mbps n rate) 0 (seconds * 1000000000) = Inr c \<and> p = sweep_point_of seconds rate c))
         (List.enumerate i xs) ps \<Longrightarrow> \<forall>p \<in> set ps. \<exists>rate c. p = sweep_point_of seconds rate c" for i xs
      by (induction xs arbitrary: i ps) (fastforce simp: list_all2_Cons1)+
    ultimately show "map sp_target ps = rates" "\<forall>p \<in> set ps. \<exists>rate c. p = sweep_point_of seconds rate c"
      using r(2) that by blast+
  qed
  note ps = this
  have exact: "c_valid_replies (sp_counters p) = c_planned (sp_counters p) \<and> sp_errors p = 0"
    if "p = sweep_point_of seconds rate c" "sp_reliable p" for p rate c
    using that by (simp add: sweep_point_of_def Let_def stream_reliable_def stream_error_events_def)
  have "map sp_target ps = rates \<and> length ps = length rates \<and>
      (\<exists>k \<le> length ps. (\<forall>i < k. c_valid_replies (sp_counters (ps ! i)) = c_planned (sp_counters (ps ! i)) \<and> sp_errors (ps ! i) = 0) \<and>
        highest_reliable ps = (if k = 0 then None else Some (rates ! (k - 1))) \<and>
        first_unreliable ps = (if k = length ps then None else Some (rates ! k)))" if p: "r = Inr ps" for ps
  proof (intro conjI exI [of _ "length (takeWhile sp_reliable ps)"])
    show m: "map sp_target ps = rates" by (rule ps(1) [OF p])
    then show len: "length ps = length rates" by (metis length_map)
    show "\<forall>i < length (takeWhile sp_reliable ps). c_valid_replies (sp_counters (ps ! i)) = c_planned (sp_counters (ps ! i)) \<and>
        sp_errors (ps ! i) = 0"
      using prefix_summary(3) [of ps] prefix_summary(4) [where ps = ps] ps(2) [OF p] exact by (meson nth_mem order_less_le_trans)
    show "length (takeWhile sp_reliable ps) \<le> length ps" by (rule prefix_summary(3))
    have t: "rates ! i = sp_target (ps ! i)" if "i < length ps" for i using m that by (metis nth_map)
    show "highest_reliable ps = (if length (takeWhile sp_reliable ps) = 0 then None
        else Some (rates ! (length (takeWhile sp_reliable ps) - 1)))"
    proof (cases "takeWhile sp_reliable ps = []")
      case False
      then have lt: "length (takeWhile sp_reliable ps) - 1 < length ps"
        using prefix_summary(3) [of ps] by (cases "takeWhile sp_reliable ps") simp_all
      show ?thesis by (simp only: prefix_summary(1) t [OF lt])
    qed (use prefix_summary(1) [of ps] in simp)
    show "first_unreliable ps = (if length (takeWhile sp_reliable ps) = length ps then None
        else Some (rates ! length (takeWhile sp_reliable ps)))"
      using prefix_summary(2,3) [of ps] t [of "length (takeWhile sp_reliable ps)"] by auto
  qed
  note summary = this
  have sweep: "stream_sweep load n seconds rates = Some (map_sum id (\<lambda>ps. (highest_reliable ps, first_unreliable ps, ps)) r)"
    using assms r(1) by (simp add: stream_sweep_def)
  show ?thesis
  proof (cases r)
    case (Inl e)
    then show ?thesis using sweep by simp
  next
    case (Inr ps)
    then have e: "stream_sweep load n seconds rates = Some (Inr (highest_reliable ps, first_unreliable ps, ps))"
      using sweep by simp
    show ?thesis
      using summary [OF Inr] by (intro exI conjI) (rule e, simp only: sum.inject prod.inject, metis)
  qed
qed

definition sweep_load :: "nat \<Rightarrow> f64 \<Rightarrow> nat \<Rightarrow> nat \<Rightarrow> unit + packet_counters" where
  "sweep_load index target interval duration =
    Inr (no_counters\<lparr>c_planned := 1000, c_sent := 1000, c_valid_replies := (if index = 0 then 1000 else 999),
      c_missing := (if index = 0 then 0 else 1)\<rparr>)"

theorem sweep_reports_reliable_prefix_witness:
  "\<exists>r. stream_sweep sweep_load 64 1 [F64 1000, F64 2000] = Some r \<and>
    (\<forall>hi first ps. r = Inr (hi, first, ps) \<longrightarrow> map sp_target ps = [F64 1000, F64 2000])"
  using sweep_reports_reliable_prefix [of 1 sweep_load 64 "[F64 1000, F64 2000]"] by fastforce

end
