(* ===== verification/Spec2Isabelle.thy ===== *)
theory Spec2Isabelle
  imports Messaging_Server Bench_Codec Bench_Server Lease_Refinement Bench_Rates Boot_Confirmation
    Ssh_Server Key_Files Client_Properties Profiling Demo_Log Service_Bridge Boot_Sequence Echo_Loop
    Network_Bringup Smoke_Publisher Pb_Bench_Codec Bench_Reports Stream_Sweep
begin

text \<open>
  This library verifies the Rust program of the repository: the firmware of an STM32H723 board
  that answers UDP commands, publishes status and health, serves a leased benchmark, accepts
  signed firmware over SSH and confirms a trial boot; and the two host tools that measure it
  and stand in for it.  Every definition is a translation of code under \<^verbatim>\<open>Rust/\<close>; the
  properties C1, C2, ... follow the definitions they are about, in their theories.

  \<^bold>\<open>The program and its theories.\<close>

  \<^item> \<^verbatim>\<open>Prelude\<close>, \<^verbatim>\<open>Bytes_Text\<close>, \<^verbatim>\<open>Text_Parsing\<close>, \<^verbatim>\<open>Float32\<close>, \<^verbatim>\<open>Float64\<close>, \<^verbatim>\<open>Byte_Order\<close>: what the
    sources use of Rust and its standard library (saturating arithmetic, \<^verbatim>\<open>?\<close> on results, slices,
    ASCII classes, UTF-8, number printing and parsing, trimming and splitting, comparisons of
    \<^verbatim>\<open>f32\<close> bit patterns, \<^verbatim>\<open>f64\<close> arithmetic with its rounding, byte orders).

  \<^item> Messages.  \<^verbatim>\<open>Message_Model\<close> holds the structures of \<^verbatim>\<open>generated/model.rs\<close> and
    \<^verbatim>\<open>generated/protobuf.rs\<close> and the conversions between them; \<^verbatim>\<open>Validation\<close> is
    \<^verbatim>\<open>validation.rs\<close>, with the abstract protocol (\<open>message\<close>, \<open>message_ok\<close>, \<open>to_envelope\<close>)
    that it accepts exactly; \<^verbatim>\<open>Cells\<close> is \<^verbatim>\<open>cells.rs\<close>; \<^verbatim>\<open>Csv_Record\<close> is \<^verbatim>\<open>csv.rs\<close>; \<^verbatim>\<open>Framing\<close> is
    \<^verbatim>\<open>framing.rs\<close>; \<^verbatim>\<open>Codec\<close> is \<^verbatim>\<open>lib.rs\<close>.  \<^verbatim>\<open>Framed_Codec\<close> is the interface between the frame
    and a body codec, which both codecs of the program provide.

  \<^item> Protobuf.  \<^verbatim>\<open>Pb_Wire\<close> is the loop, the fields and the nested records that all generated
    code shares, over the \<^verbatim>\<open>micropb\<close> crate as a record of functions; its locale
    \<open>wire_message\<close> is what every message type provides.  \<^verbatim>\<open>Pb_Messages\<close> and \<^verbatim>\<open>Pb_Envelope\<close> are
    \<^verbatim>\<open>generated/protobuf.rs\<close>, \<^verbatim>\<open>Pb_Bench\<close> and \<^verbatim>\<open>Pb_Bench_Codec\<close> are
    \<^verbatim>\<open>generated/benchmark_protobuf.rs\<close>, \<^verbatim>\<open>Pb_Codec\<close> puts the former into the codec, and
    \<^verbatim>\<open>Pb_Reference\<close> is a concrete crate that has the documented behaviour.

  \<^item> Servers.  \<^verbatim>\<open>Schedule\<close> is \<^verbatim>\<open>schedule.rs\<close> behind the locale of \<^verbatim>\<open>Slot_Clock\<close>;
    \<^verbatim>\<open>Command_Service\<close> is \<^verbatim>\<open>service.rs\<close> behind that of \<^verbatim>\<open>Token_Bucket\<close>; \<^verbatim>\<open>Messaging_Server\<close> is
    \<^verbatim>\<open>servers/embassy_messaging.rs\<close>: a datagram goes through the codec to the policy and its
    answer back through the codec, while the publication tasks poll their schedules.

  \<^item> The benchmark.  \<^verbatim>\<open>Bench_Model\<close>, \<^verbatim>\<open>Bench_Validation\<close>, \<^verbatim>\<open>Bench_Cells\<close> and \<^verbatim>\<open>Bench_Codec\<close> are
    its messages (\<^verbatim>\<open>benchmark.rs\<close>, \<^verbatim>\<open>generated/benchmark_model.rs\<close>), \<^verbatim>\<open>Bench_Service\<close> is the
    lease service \<^verbatim>\<open>benchmark/service.rs\<close>, \<^verbatim>\<open>Bench_Server\<close> the task
    \<^verbatim>\<open>servers/embassy_benchmark.rs\<close> around it.  \<^verbatim>\<open>Lease_Protocol\<close> is the abstract lease,
    \<^verbatim>\<open>Lease_Refinement\<close> the proof that the service refines it, \<^verbatim>\<open>Bench_Lease\<close> the invariant and
    \<^verbatim>\<open>Bench_Rates\<close> the rates.

  \<^item> Firmware.  \<^verbatim>\<open>Firmware_Rules\<close> is \<^verbatim>\<open>Rust/src/lib.rs\<close>; \<^verbatim>\<open>Firmware_Update\<close> is
    \<^verbatim>\<open>firmware_update.rs\<close>, a program over the operations of \<^verbatim>\<open>Device_Io\<close>, with its properties in
    \<^verbatim>\<open>Update_Safety\<close>, \<^verbatim>\<open>Update_Completes\<close> and \<^verbatim>\<open>Update_Properties\<close>; \<^verbatim>\<open>Boot_Confirmation\<close> is
    \<^verbatim>\<open>boot_confirmation.rs\<close>; \<^verbatim>\<open>Ssh_Server\<close> is what \<^verbatim>\<open>ssh_server.rs\<close> decides; \<^verbatim>\<open>Key_Files\<close> is
    \<^verbatim>\<open>build.rs\<close>; \<^verbatim>\<open>Boot_Sequence\<close> is the start of \<^verbatim>\<open>bin/native_rmii_messaging.rs\<close>.
    \<^verbatim>\<open>Echo_Servers\<close>, \<^verbatim>\<open>Network_Bringup\<close>, \<^verbatim>\<open>Smoke_Publisher\<close> and \<^verbatim>\<open>Profiling\<close> are the echo
    servers, the supervision of the network, the multicast test and the executor profiler
    with its client.

  \<^item> Host tools.  \<^verbatim>\<open>Udp_Packet\<close>, \<^verbatim>\<open>Load_Run\<close>, \<^verbatim>\<open>Load_Accounting\<close>, \<^verbatim>\<open>Load_Properties\<close>,
    \<^verbatim>\<open>Bench_Client\<close> and \<^verbatim>\<open>Client_Properties\<close> are the load run, the sequential workloads and the
    verdicts of \<^verbatim>\<open>tools/udp-benchmark\<close>, and \<^verbatim>\<open>Echo_Loop\<close> runs a load against the echo server of
    the board.  Above them \<^verbatim>\<open>Bench_Stats\<close> is \<^verbatim>\<open>stats.rs\<close>, \<^verbatim>\<open>Bench_Results\<close> the result of a run,
    \<^verbatim>\<open>Capacity_Search\<close>, \<^verbatim>\<open>Burst_Series\<close> and \<^verbatim>\<open>Stream_Sweep\<close> the searches of \<^verbatim>\<open>runner.rs\<close> and
    \<^verbatim>\<open>main.rs\<close>, \<^verbatim>\<open>Bench_Suite\<close> the phases of \<^verbatim>\<open>run_suite\<close> and \<^verbatim>\<open>Bench_Reports\<close> the CSV files.
    \<^verbatim>\<open>Demo_Responder\<close>, \<^verbatim>\<open>Demo_Options\<close> and \<^verbatim>\<open>Demo_Log\<close> are the responder of
    \<^verbatim>\<open>tools/message-demo\<close>, its command line and its log; \<^verbatim>\<open>Service_Bridge\<close> is \<^verbatim>\<open>lib.rs\<close>, through
    which Python tests drive the lease service.

  \<^bold>\<open>How the code is modelled.\<close>  Structures are records, enumerations are datatypes, integers
  are words of their width, lengths and \<^verbatim>\<open>usize\<close> values are natural numbers, strings and byte
  slices are lists of bytes.  A \<^verbatim>\<open>Result\<close> is a sum with the error on the left; a panic is a
  value of its own (\<open>None\<close>, or a constructor of the error), and that it cannot occur is proved.
  A task is a function of its state and of the answers of its environment: sockets, clocks,
  flash and peers answer in any way, as arguments, event lists or functions of everything
  done so far.  The two threads of a load run are interleaved at every atomic operation
  (\<open>load_run\<close>), and so are the threads that log (\<open>log_run\<close>); the atomics are sequentially
  consistent.  Code outside the repository is an
  argument (\<open>codec_lib\<close>, \<open>micropb\<close>, the checksum, the digest, the drivers), and what a
  property needs of it is a hypothesis (\<open>lib_faithful\<close>, \<open>micropb_laws\<close>) which its witness
  discharges for a concrete function.  Numbers of type \<^verbatim>\<open>f64\<close> are rationals, rounded after every
  operation to 53 bits, ties to even; in \<^verbatim>\<open>Load_Run\<close> and \<^verbatim>\<open>Bench_Client\<close> the comparisons of
  such numbers are arguments.

  \<^bold>\<open>What is shown.\<close>  Codecs: exactly the protocol's messages pass, what is sent is received,
  damage is detected, the CSV grammar is decided exactly, Protobuf decoding ends, skips what
  it does not know wherever it stands and reads back what was written.  Servers: no iteration panics, answers
  are well-formed and rate limited, no slot of a schedule is lost.  The lease service: a
  refinement of the abstract lease, whose epochs have one owner and whose runs only the owner,
  the expiry or a fault (lost network, clock stepped back) ends.  Updates: for any
  environment the flash changes by a prefix of one plan, which activates an image only after
  both digests; a good image is activated.  SSH and boot: only the operator is served, and
  only a healthy boot is confirmed.  The host benchmark: the window and the accounting of
  every interleaving, also against the board's echo server, the ends of its loops, what the
  capacity search, the bursts and the suite report, that reports read back, and the
  refinement of a stopwatch by the profiler.  The demo: it never panics, starts only streams
  whose schedules exist, and its log accounts for every event; the bridge only makes steps of
  the firmware's service.

  \<^bold>\<open>Bounds.\<close>  Loops are structural recursions, functions with a measure, or
  \<^verbatim>\<open>partial_function (option)\<close> (the Protobuf field loop, the soak, the mixed plan), for which
  returning is proved; no fuel is used.  A waiting sender needs at most three steps for
  each packet sent, plus three (\<^verbatim>\<open>Load_Properties\<close>), since expiring a packet is a
  look, an exchange and a release.  Load runs are assumed to plan fewer than $2^{64}$
  packets, the width of the counters.  The statistics are exact up to $2^{53}$ samples, a
  search has at most 4096 coarse rates, and the error analysis of a rate's plan covers rates
  from $10^{-6}$ to $10^6$ Mbit/s and whole seconds up to $10^5$.  An encoded message has at most
  153 bytes, a benchmark message at most 686, of the 1016 of a body.

  \<^bold>\<open>Findings.\<close>  A load run reports the bytes of packets it never sent
  (\<^verbatim>\<open>Load_Properties\<close>), so that the test of the offered rate in \<^verbatim>\<open>is_zero_loss\<close> always passes
  (\<^verbatim>\<open>Bench_Results\<close>), other than the comparison report says; a soak with intervals of zero never ends (\<^verbatim>\<open>Client_Properties\<close>); the
  benchmark's Protobuf decoder ignores wire types, a defect that was corrected for the
  ordinary messages only (\<^verbatim>\<open>Pb_Bench_Codec\<close>); a key file may contain plus signs
  (\<^verbatim>\<open>Key_Files\<close>).

  \<^bold>\<open>Not modelled.\<close>  The hardware set-up (\<^verbatim>\<open>board.rs\<close>, the bring-up of the drivers, the \<^verbatim>\<open>main\<close>
  functions of the other images), which only calls the hardware abstraction layer; the
  accept loop of the SSH server, which only drives sockets; the Markdown and JSON reports of
  the host benchmark and the CSV report of a sweep, which print; the timing of the codec in
  the message demo, the metadata of its log and its code generator; the accessor functions of
  the generated Protobuf code and its second, unused copy of the ordinary
  messages; the C firmware, the bootloader and the Python tools.  Two panics are taken not to
  happen: binding a socket to its fixed port, which fails only for port zero or a socket that
  is still open, and slicing the input of the JSON parser at the number of bytes that the
  crate says it used, which is at most the length of the input.
\<close>

end
